(* ===== verification/Ft_Prelude.thy ===== *)
theory Ft_Prelude
  imports Main "HOL-Library.Word"
begin

text \<open>
  Shared vocabulary of the development: the C integer types at their width, the geometry
  constants of \<open>src/include/linux/ftape.h\<close>, the error numbers the driver returns, byte
  lanes of machine words, and little-endian loads and stores on byte buffers (the
  \<open>GET2\<close>/\<open>PUT2\<close> family of \<open>src/ftape/lowlevel/ftape-rw.h\<close> on a little-endian host).
\<close>

unbundle bit_operations_syntax

section \<open>Types, constants and error numbers\<close>

type_synonym u8 = "8 word"
type_synonym u16 = "16 word"
type_synonym u32 = "32 word"
type_synonym u64 = "64 word"
type_synonym bytes = "u8 list"

abbreviation FT_SECTOR_SIZE :: nat where "FT_SECTOR_SIZE \<equiv> 1024"
abbreviation FT_SECTORS_PER_SEGMENT :: nat where "FT_SECTORS_PER_SEGMENT \<equiv> 32"
abbreviation FT_ECC_SECTORS :: nat where "FT_ECC_SECTORS \<equiv> 3"
abbreviation FT_SEGMENT_SIZE :: nat where "FT_SEGMENT_SIZE \<equiv> 29696"

datatype errno = EIO | EINVAL | ENOSPC | ENXIO | EACCES | EINTR | ENOMEM | EAGAIN | ETIME
  | EFAULT | EROFS | EBUSY | ENOSYS | ENODATA | ENODEV | EPERM

type_synonym 'a result = "errno + 'a"

text \<open>Facts that evaluate or rewrite byte lanes and buffer accesses.\<close>

named_theorems lane_simps

section \<open>Byte lanes of a machine word\<close>

definition lane :: "nat \<Rightarrow> 'a::len word \<Rightarrow> u8" where
  "lane k w = ucast (drop_bit (8 * k) w)"

lemma bit_lane: "bit (lane k w) n \<longleftrightarrow> n < 8 \<and> bit w (8 * k + n)"
  by (auto simp: lane_def bit_simps dest: bit_imp_le_length)

lemma lane_xor [lane_simps]: "lane k (a XOR b) = lane k a XOR lane k b"
  by (rule bit_word_eqI) (auto simp: bit_lane bit_simps)

lemma lane_or [lane_simps]: "lane k (a OR b) = lane k a OR lane k b"
  by (rule bit_word_eqI) (auto simp: bit_lane bit_simps)

lemma lane_0 [lane_simps]: "lane k 0 = 0"
  by (rule bit_word_eqI) (auto simp: bit_lane)

lemma lane_beyond [lane_simps]: "LENGTH('a) \<le> 8 * k \<Longrightarrow> lane k (w :: 'a::len word) = 0"
  by (rule bit_word_eqI) (auto simp: bit_lane dest: bit_imp_le_length)

text \<open>A byte shifted to its place occupies that lane and no other.\<close>

lemma lane_place [lane_simps]:
  assumes "8 * j + 8 \<le> LENGTH('a)"
  shows "lane k (push_bit (8 * j) (ucast (b :: u8)) :: 'a::len word) = (if k = j then b else 0)"
proof (rule bit_word_eqI)
  fix n assume n: "n < LENGTH(8)"
  show "bit (lane k (push_bit (8 * j) (ucast b) :: 'a word)) n = bit (if k = j then b else 0) n"
  proof (cases "k = j")
    case True
    with n assms show ?thesis by (auto simp: bit_lane bit_simps)
  next
    case False
    then have "k < j \<or> j < k" by linarith
    with n have "\<not> bit (push_bit (8 * j) (ucast b) :: 'a word) (8 * k + n)"
      by (auto simp: bit_simps dest: bit_imp_le_length)
    with False show ?thesis by (simp add: bit_lane)
  qed
qed

lemma word_eq_lanesI:
  fixes v w :: "'a::len word"
  assumes "\<And>k. 8 * k < LENGTH('a) \<Longrightarrow> lane k v = lane k w"
  shows "v = w"
proof (rule bit_word_eqI)
  fix n assume n: "n < LENGTH('a)"
  have "8 * (n div 8) < LENGTH('a)" using n by simp
  from assms [OF this] have "bit (lane (n div 8) v) (n mod 8) = bit (lane (n div 8) w) (n mod 8)"
    by simp
  then show "bit v n = bit w n" by (simp add: bit_lane)
qed

lemma lane_drop8 [lane_simps]: "lane k (drop_bit 8 w) = lane (Suc k) w"
  by (rule bit_word_eqI) (auto simp: bit_lane bit_simps add.assoc)

lemma lane_0_ucast: "(ucast w :: u8) = lane 0 w"
  by (simp add: lane_def)

section \<open>Little-endian loads and stores\<close>

text \<open>
  \<open>load_le m off n\<close> reads \<open>n\<close> bytes at offset \<open>off\<close> into a word, the byte at the lowest
  address in the least significant lane; \<open>store_le\<close> writes the \<open>n\<close> low lanes back. An
  access that leaves the buffer has no defined value in C; the callers' theorems state the
  bounds that keep every access inside.
\<close>

primrec load_le :: "bytes \<Rightarrow> nat \<Rightarrow> nat \<Rightarrow> 'a::len word" where
  "load_le m off 0 = 0"
| "load_le m off (Suc n) = load_le m off n OR push_bit (8 * n) (ucast (m ! (off + n)))"

primrec store_le :: "bytes \<Rightarrow> nat \<Rightarrow> nat \<Rightarrow> 'a::len word \<Rightarrow> bytes" where
  "store_le m off 0 w = m"
| "store_le m off (Suc n) w = (store_le m off n w)[off + n := lane n w]"

lemma load_le_numeral [lane_simps]:
  "load_le m off (numeral k) = load_le m off (pred_numeral k)
    OR push_bit (8 * pred_numeral k) (ucast (m ! (off + pred_numeral k)))"
  by (simp add: numeral_eq_Suc)

lemma store_le_numeral [lane_simps]:
  "store_le m off (numeral k) w = (store_le m off (pred_numeral k) w)[off + pred_numeral k := lane (pred_numeral k) w]"
  by (simp add: numeral_eq_Suc)

lemma length_store_le [simp]: "length (store_le m off n w) = length m"
  by (induction n) simp_all

lemma lane_load_le [lane_simps]:
  assumes "8 * n \<le> LENGTH('a)"
  shows "lane k (load_le m off n :: 'a::len word) = (if k < n then m ! (off + k) else 0)"
  using assms
proof (induction n)
  case 0
  then show ?case by (simp add: lane_0)
next
  case (Suc n)
  then show ?case by (simp add: lane_or lane_place less_Suc_eq)
qed

lemma nth_store_le:
  assumes "off + n \<le> length m"
  shows "store_le m off n w ! i = (if off \<le> i \<and> i < off + n then lane (i - off) w else m ! i)"
  using assms by (induction n) (auto simp: nth_list_update less_Suc_eq)

lemma load_store_same [lane_simps]:
  assumes "off + n \<le> length m" "8 * n = LENGTH('a)"
  shows "load_le (store_le m off n w) off n = (w :: 'a::len word)"
proof (rule word_eq_lanesI)
  fix k assume "8 * k < LENGTH('a)"
  with assms show "lane k (load_le (store_le m off n w) off n :: 'a word) = lane k w"
    by (simp add: lane_load_le nth_store_le)
qed

lemma load_store_disjoint [lane_simps]:
  assumes "off + n \<le> length m" "off' + n' \<le> off \<or> off + n \<le> off'" "8 * n' \<le> LENGTH('a)"
  shows "load_le (store_le m off n w) off' n' = (load_le m off' n' :: 'a::len word)"
proof (rule word_eq_lanesI)
  fix k assume "8 * k < LENGTH('a)"
  with assms show "lane k (load_le (store_le m off n w) off' n' :: 'a word) = lane k (load_le m off' n' :: 'a word)"
    by (auto simp: lane_load_le nth_store_le)
qed

definition GET2 :: "bytes \<Rightarrow> nat \<Rightarrow> u16" where "GET2 m off = load_le m off 2"
definition GET4 :: "bytes \<Rightarrow> nat \<Rightarrow> u32" where "GET4 m off = load_le m off 4"
definition GET8 :: "bytes \<Rightarrow> nat \<Rightarrow> u64" where "GET8 m off = load_le m off 8"
definition PUT2 :: "bytes \<Rightarrow> nat \<Rightarrow> u16 \<Rightarrow> bytes" where "PUT2 m off v = store_le m off 2 v"
definition PUT4 :: "bytes \<Rightarrow> nat \<Rightarrow> u32 \<Rightarrow> bytes" where "PUT4 m off v = store_le m off 4 v"
definition PUT8 :: "bytes \<Rightarrow> nat \<Rightarrow> u64 \<Rightarrow> bytes" where "PUT8 m off v = store_le m off 8 v"

lemmas getput_defs = GET2_def GET4_def GET8_def PUT2_def PUT4_def PUT8_def

lemma length_PUT [simp]:
  "length (PUT2 m off v2) = length m" "length (PUT4 m off v4) = length m"
  "length (PUT8 m off v8) = length m"
  by (simp_all add: getput_defs)

text \<open>\<open>memcpy\<close> and \<open>memset\<close> into a buffer, and the bytes a comparison reads.\<close>

definition blit :: "bytes \<Rightarrow> nat \<Rightarrow> bytes \<Rightarrow> bytes" where
  "blit m off bs = take off m @ bs @ drop (off + length bs) m"

definition bytes_at :: "bytes \<Rightarrow> nat \<Rightarrow> nat \<Rightarrow> bytes" where
  "bytes_at m off n = take n (drop off m)"

lemma length_blit [simp]: "off + length bs \<le> length m \<Longrightarrow> length (blit m off bs) = length m"
  by (simp add: blit_def)

lemma nth_blit:
  "off + length bs \<le> length m \<Longrightarrow> blit m off bs ! i = (if off \<le> i \<and> i < off + length bs then bs ! (i - off) else m ! i)"
  by (auto simp: blit_def nth_append)

lemma bytes_at_eqI:
  "length m = length m' \<Longrightarrow> (\<And>i. i < n \<Longrightarrow> m ! (off + i) = m' ! (off + i)) \<Longrightarrow> bytes_at m off n = bytes_at m' off n"
  by (auto simp: bytes_at_def list_eq_iff_nth_eq)

section \<open>Word values\<close>

lemma unat_word_of_nat: "n < 2 ^ LENGTH('a) \<Longrightarrow> unat (word_of_nat n :: 'a::len word) = n"
  by (simp add: unsigned_of_nat take_bit_nat_eq_self)

section \<open>Population count\<close>

lemma unat_drop_1_less [simp]: "w \<noteq> 0 \<Longrightarrow> unat (drop_bit (Suc 0) w) < unat (w :: 'a::len word)"
  by (simp only: unat_drop_bit_eq) (simp add: drop_bit_eq_div unat_gt_0)

text \<open>\<open>count_ones\<close> of \<open>src/ftape/lowlevel/ftape-rw.h\<close>: shift right until the mask is zero.\<close>

function count_ones :: "'a::len word \<Rightarrow> nat" where
  "count_ones w = (if w = 0 then 0
     else (if bit w 0 then 1 else 0) + count_ones (drop_bit 1 w))"
  by pat_completeness auto
termination by (relation "measure unat") simp_all

declare count_ones.simps [simp del]

lemma count_ones_0 [simp]: "count_ones 0 = 0"
  by (simp add: count_ones.simps)

lemma count_ones_card: "count_ones (w :: 'a::len word) = card {n. bit w n}"
proof (induction w rule: count_ones.induct)
  case (1 w)
  show ?case
  proof (cases "w = 0")
    case False
    let ?t = "{n. bit (drop_bit 1 w) n}"
    have split: "{n. bit w n} = (if bit w 0 then {0} else {}) \<union> Suc ` ?t"
      by (auto simp: bit_simps image_iff) (metis not0_implies_Suc)+
    have "finite ?t" by (rule finite_subset [of _ "{..<LENGTH('a)}"]) (auto dest: bit_imp_le_length)
    then have "card {n. bit w n} = (if bit w 0 then 1 else 0) + card ?t"
      by (subst split) (auto simp: card_insert_if card_image)
    with False 1 show ?thesis by (simp add: count_ones.simps [of w])
  qed (simp)
qed

lemma count_ones_le: "count_ones (w :: 'a::len word) \<le> LENGTH('a)"
proof -
  have "{n. bit w n} \<subseteq> {..<LENGTH('a)}" by (auto dest: bit_imp_le_length)
  from card_mono [OF _ this] show ?thesis by (simp add: count_ones_card)
qed

end
