(* ===== verification/Ft_Info.thy ===== *)
theory Ft_Info
  imports Ft_Prelude
begin

text \<open>
  The driver's record of one drive, \<open>ftape_info_t\<close> of \<open>src/ftape/lowlevel/ftape-ctl.h\<close>, with the
  fields the modelled components use, and the codes of \<open>src/include/linux/ftape-header-segment.h\<close>.

  Two fields of the source are pointers into the buffer that holds the header segment,
  \<open>bad_sector_map\<close> and \<open>bsm_hash_ptr\<close>. Here the buffer itself is a field, \<open>hseg_buf\<close>, and the
  pointers are byte offsets into it, with \<open>None\<close> for the null pointer. \<open>setup_error\<close> is the flag
  of the same name in the controller's record, \<open>last_started\<close> is its field \<open>last_segment\<close>; \<open>last_segment_skipped\<close>, \<open>ft_ignore_ecc_err\<close> and
  \<open>ft_soft_retries\<close> are global variables and module parameters of the source.
\<close>

datatype ft_format_type = fmt_normal | fmt_1100ft | fmt_var | fmt_425ft | fmt_big | fmt_unknown u8

definition ft_format_code :: "u8 \<Rightarrow> ft_format_type" where
  "ft_format_code b = (if b = 2 then fmt_normal else if b = 3 then fmt_1100ft else if b = 4 then fmt_var
     else if b = 5 then fmt_425ft else if b = 6 then fmt_big else fmt_unknown b)"

datatype qic_std_t = QIC_UNKNOWN | QIC_40 | QIC_80 | QIC_3010 | QIC_3020 | DITTO_MAX

datatype buffer_state_enum = waiting | reading | writing | formatting | verifying | deleting | buf_done | buf_error | fatal_error

datatype runner_status_enum = idle | running | do_abort | aborting | logical_eot | end_of_tape

text \<open>The statistics that the interrupt handler, the segment set-up and the error correction count.\<close>

record ft_history =
  id_am_errors :: nat
  id_crc_errors :: nat
  data_am_errors :: nat
  data_crc_errors :: nat
  overrun_errors :: nat
  no_data_errors :: nat
  retries :: nat
  rewinds :: nat
  crc_errors :: nat
  crc_failures :: nat
  ecc_failures :: nat
  hist_corrected :: nat
  defects :: nat

record location_record =
  loc_track :: int
  loc_segment :: int
  loc_sector :: int
  loc_bot :: bool
  loc_eot :: bool
  loc_known :: bool

record ftape_info =
  format_code :: ft_format_type
  qic_std :: qic_std_t
  ditto_max_ext :: bool
  tape_len :: u32
  segments_per_track :: u32
  tracks_per_tape :: u32
  segments_per_head :: int
  segments_per_cylinder :: int
  header_segment_1 :: int
  header_segment_2 :: int
  used_header_segment :: int
  first_data_segment :: int
  last_data_segment :: int
  hseg_buf :: bytes
  bad_sector_map :: "nat option"
  bsm_hash_ptr :: "nat option"
  last_reference :: int
  bsm_map :: u32
  driver_state :: buffer_state_enum
  old_segment_id :: int
  old_driver_state :: buffer_state_enum
  runner_status :: runner_status_enum
  location :: location_record
  history :: ft_history
  setup_error :: bool
  current_command :: int
  might_be_off_track :: bool
  tape_running :: bool
  last_segment_skipped :: int
  ft_ignore_ecc_err :: bool
  ft_soft_retries :: int
  formatted :: bool
  no_tape :: bool
  new_tape :: bool
  ft_failure :: bool
  ft_write_protected :: bool
  ft_last_write_failed :: bool
  data_rate :: int
  overrun_count_offset :: int
  last_started :: int
  ffw_overshoot :: int
  min_count :: int
  rew_overshoot :: int
  min_rewind :: int
  rew_eot_margin :: int
  start_offset :: int
  switch_segment :: int

end
