(* ===== verification/Ft_Bsm.thy ===== *)
theory Ft_Bsm
  imports Ft_Info "HOL-Library.Monad_Syntax"
begin

text \<open>
  The bad sector map of a cartridge, \<open>src/ftape/lowlevel/ftape-bsm.c\<close>. The header segment holds it
  either as an array of 32-bit maps, one per segment, or as an ascending list of three-byte sector
  numbers that ends with a zero entry. The list routines work on the bytes in place and keep a
  cached position; an access outside the header buffer, which the source does not check, is
  \<open>None\<close>.

  The second half shows that both representations implement a map from segments to sector maps:
  \<open>ftape_get_bad_sector_entry\<close> returns what was put last, in any order of accesses.
\<close>

unbundle bit_operations_syntax

section \<open>The routines\<close>

abbreviation EMPTY_SEGMENT :: u32 where "EMPTY_SEGMENT \<equiv> 0xffffffff"

definition get_sector :: "bytes \<Rightarrow> nat \<Rightarrow> u32 option" where
  "get_sector m p = (if p + 3 \<le> length m
     then Some (ucast (m ! p) + push_bit 8 (ucast (m ! (p + 1))) + push_bit 16 (ucast (m ! (p + 2))))
     else None)"

definition put_sector :: "bytes \<Rightarrow> nat \<Rightarrow> u32 \<Rightarrow> bytes option" where
  "put_sector m p sector = (if p + 3 \<le> length m
     then Some (m[p := ucast (sector AND 0xff),
                  p + 1 := ucast (drop_bit 8 sector AND 0xff),
                  p + 2 := ucast (drop_bit 16 sector AND 0xff)])
     else None)"

text \<open>The \<open>while\<close> loop of \<open>ftape_find_end_of_bsm_list\<close>, with \<open>ptr\<close> as an offset into the segment.\<close>

function find_end_from :: "bytes \<Rightarrow> nat \<Rightarrow> nat option" where
  "find_end_from m p =
    (if p + 2 < FT_SEGMENT_SIZE then
       (if m ! p \<noteq> 0 \<or> m ! (p + 1) \<noteq> 0 \<or> m ! (p + 2) \<noteq> 0 then find_end_from m (p + 3) else Some p)
     else None)"
  by pat_completeness auto
termination by (relation "measure (\<lambda>(m, p). FT_SEGMENT_SIZE - p)") auto

definition ftape_find_end_of_bsm_list :: "bytes \<Rightarrow> nat option" where
  "ftape_find_end_of_bsm_list address = find_end_from address 256"

definition cvt2map :: "u32 \<Rightarrow> u32" where
  "cvt2map sector = push_bit (unat (((sector AND 0x7fffff) - 1) mod 32)) 1"

definition cvt2segment :: "u32 \<Rightarrow> int" where
  "cvt2segment sector = uint (((sector AND 0x7fffff) - 1) div 32)"

definition list_format :: "ft_format_type \<Rightarrow> bool" where
  "list_format fmt \<longleftrightarrow> fmt = fmt_1100ft \<or> fmt = fmt_var \<or> fmt = fmt_big"

definition wide_format :: "ft_format_type \<Rightarrow> bool" where
  "wide_format fmt \<longleftrightarrow> fmt = fmt_var \<or> fmt = fmt_big"

text \<open>
  The loops of \<open>forward_seek_entry\<close>: skip to the first entry of \<open>segment_id\<close> or beyond, then
  collect the entries of \<open>segment_id\<close>.
\<close>

function forward_scan :: "bytes \<Rightarrow> int \<Rightarrow> nat \<Rightarrow> (nat \<times> u32) option" where
  "forward_scan m segment_id p =
    (case get_sector m p of
       None \<Rightarrow> None
     | Some sector \<Rightarrow> if sector \<noteq> 0 \<and> cvt2segment sector < segment_id
         then forward_scan m segment_id (p + 3) else Some (p, sector))"
  by pat_completeness auto
termination by (relation "measure (\<lambda>(m, i, p). length m - p)") (auto simp: get_sector_def split: if_splits)

function forward_collect :: "bytes \<Rightarrow> int \<Rightarrow> nat \<Rightarrow> u32 \<Rightarrow> nat \<Rightarrow> (u32 \<times> nat) option" where
  "forward_collect m segment_id p bmap count =
    (case get_sector m p of
       None \<Rightarrow> None
     | Some sector \<Rightarrow> if sector \<noteq> 0 \<and> cvt2segment sector = segment_id
         then forward_collect m segment_id (p + 3) (bmap OR cvt2map sector) (Suc count)
         else Some (bmap, count))"
  by pat_completeness auto
termination by (relation "measure (\<lambda>(m, i, p, x). length m - p)") (auto simp: get_sector_def split: if_splits)

text \<open>The new pointer, the map and the returned count.\<close>

definition forward_seek_entry :: "ft_format_type \<Rightarrow> bytes \<Rightarrow> int \<Rightarrow> nat \<Rightarrow> (nat \<times> u32 \<times> nat) option" where
  "forward_seek_entry fmt m segment_id ptr =
    do {
      (p, sector) \<leftarrow> forward_scan m segment_id ptr;
      if sector = 0 \<or> cvt2segment sector \<noteq> segment_id then Some (p, 0, 0)
      else if sector AND 0x800000 \<noteq> 0 \<and> wide_format fmt then Some (p, EMPTY_SEGMENT, 32)
      else do {
        (bmap, count) \<leftarrow> forward_collect m segment_id (p + 3) (cvt2map sector) 1;
        Some (p, bmap, count)
      }
    }"

text \<open>
  The loops of \<open>backwards_seek_entry\<close>. The second one also yields the segment of the last entry it
  read, which the source inspects after the loop.
\<close>

function backwards_scan :: "bytes \<Rightarrow> nat \<Rightarrow> int \<Rightarrow> nat \<Rightarrow> (nat \<times> u32) option" where
  "backwards_scan m base segment_id p =
    (case get_sector m (p - 3) of
       None \<Rightarrow> None
     | Some sector \<Rightarrow> if base < p - 3 \<and> segment_id < cvt2segment sector
         then backwards_scan m base segment_id (p - 3) else Some (p - 3, sector))"
  by pat_completeness auto
termination by (relation "measure (\<lambda>(m, b, i, p). p)") auto

function backwards_collect ::
  "bytes \<Rightarrow> nat \<Rightarrow> int \<Rightarrow> nat \<Rightarrow> u32 \<Rightarrow> nat \<Rightarrow> (nat \<times> int \<times> u32 \<times> nat) option" where
  "backwards_collect m base segment_id p bmap count =
    (if base < p then
       (case get_sector m (p - 3) of
          None \<Rightarrow> None
        | Some sector \<Rightarrow> if cvt2segment sector \<noteq> segment_id then Some (p - 3, cvt2segment sector, bmap, count)
            else backwards_collect m base segment_id (p - 3) (bmap OR cvt2map sector) (Suc count))
     else Some (p, segment_id, bmap, count))"
  by pat_completeness auto
termination by (relation "measure (\<lambda>(m, b, i, p, x). p)") auto

definition backwards_seek_entry :: "ft_format_type \<Rightarrow> bytes \<Rightarrow> nat \<Rightarrow> int \<Rightarrow> nat \<Rightarrow> (nat \<times> u32 \<times> nat) option" where
  "backwards_seek_entry fmt m base segment_id ptr =
    (if ptr \<le> base then Some (ptr, 0, 0)
     else do {
       (p, sector) \<leftarrow> backwards_scan m base segment_id ptr;
       if segment_id < cvt2segment sector then Some (p, 0, 0)
       else if cvt2segment sector < segment_id then Some (p + 3, 0, 0)
       else if sector AND 0x800000 \<noteq> 0 \<and> wide_format fmt then Some (p, EMPTY_SEGMENT, 32)
       else do {
         (q, segment, bmap, count) \<leftarrow> backwards_collect m base segment_id p (cvt2map sector) 1;
         Some (if segment < segment_id then q + 3 else q, bmap, count)
       }
     })"

declare find_end_from.simps [simp del] forward_scan.simps [simp del] forward_collect.simps [simp del]
  backwards_scan.simps [simp del] backwards_collect.simps [simp del]

text \<open>\<open>do { } while (get_sector(hi_ptr++) != 0)\<close>: the position behind the terminating entry.\<close>

function list_end :: "bytes \<Rightarrow> nat \<Rightarrow> nat option" where
  "list_end m p = (case get_sector m p of
     None \<Rightarrow> None
   | Some sector \<Rightarrow> if sector \<noteq> 0 then list_end m (p + 3) else Some (p + 3))"
  by pat_completeness auto
termination by (relation "measure (\<lambda>(m, p). length m - p)") (auto simp: get_sector_def split: if_splits)

definition memmove :: "bytes \<Rightarrow> nat \<Rightarrow> nat \<Rightarrow> nat \<Rightarrow> bytes option" where
  "memmove m dst src n = (if dst + n \<le> length m \<and> src + n \<le> length m
     then Some (take dst m @ take n (drop src m) @ drop (dst + n) m) else None)"

text \<open>\<open>while (new_map)\<close>: one entry for each bit that is set.\<close>

function put_bits :: "bytes \<Rightarrow> nat \<Rightarrow> int \<Rightarrow> int \<Rightarrow> u32 \<Rightarrow> bytes option" where
  "put_bits m p segment_id i new_map =
    (if new_map = 0 then Some m
     else if new_map AND 1 \<noteq> 0 then
       do { m' \<leftarrow> put_sector m p (word_of_int (1 + segment_id * 32 + i));
            put_bits m' (p + 3) segment_id (i + 1) (drop_bit 1 new_map) }
     else put_bits m p segment_id (i + 1) (drop_bit 1 new_map))"
  by pat_completeness auto
termination by (relation "measure (\<lambda>(m, p, s, i, w). unat w)") simp_all

declare list_end.simps [simp del] put_bits.simps [simp del]

definition put_list_entry :: "ft_format_type \<Rightarrow> bytes \<Rightarrow> nat \<Rightarrow> int \<Rightarrow> u32 \<Rightarrow> (nat \<times> bytes) option" where
  "put_list_entry fmt m base segment_id new_map =
    do {
      (ptr, bmap, count) \<leftarrow> forward_seek_entry fmt m segment_id base;
      let new_count = count_ones new_map;
      let new_count' = (if wide_format fmt \<and> new_count = 32 then 1 else new_count);
      let count' = (if wide_format fmt \<and> count = 32 then 1 else count);
      m' \<leftarrow> (if count' \<noteq> new_count' then
               do { hi_ptr \<leftarrow> list_end m ptr;
                    memmove m (ptr + 3 * new_count') (ptr + 3 * count') (hi_ptr - (ptr + 3 * count')) }
             else Some m);
      m'' \<leftarrow> (if new_count' = 1 \<and> new_map = EMPTY_SEGMENT
              then put_sector m' ptr (word_of_int (0x800001 + segment_id * 32))
              else put_bits m' ptr segment_id 0 new_map);
      Some (ptr, m'')
    }"

definition ftape_put_bad_sector_entry :: "ftape_info \<Rightarrow> int \<Rightarrow> u32 \<Rightarrow> ftape_info option" where
  "ftape_put_bad_sector_entry ft segment_id new_map =
    do {
      base \<leftarrow> bad_sector_map ft;
      let ft1 = ft\<lparr>last_reference := segment_id, bsm_map := new_map\<rparr>;
      if list_format (format_code ft) then
        do { (ptr, m) \<leftarrow> put_list_entry (format_code ft) (hseg_buf ft) base segment_id new_map;
             Some (ft1\<lparr>bsm_hash_ptr := Some ptr, hseg_buf := m\<rparr>) }
      else if 0 \<le> segment_id \<and> base + 4 * nat segment_id + 4 \<le> length (hseg_buf ft) then
        Some (ft1\<lparr>hseg_buf := PUT4 (hseg_buf ft) (base + 4 * nat segment_id) new_map\<rparr>)
      else None
    }"

definition ftape_get_bad_sector_entry :: "ftape_info \<Rightarrow> int \<Rightarrow> (ftape_info \<times> u32) option" where
  "ftape_get_bad_sector_entry ft segment_id =
    (if used_header_segment ft = -1 then Some (ft, 0)
     else do {
       base \<leftarrow> bad_sector_map ft;
       (case bsm_hash_ptr ft of
          Some ptr \<Rightarrow> do {
            (ptr', bmap) \<leftarrow>
              (if last_reference ft < segment_id then
                 do { (p, bmap, count) \<leftarrow> forward_seek_entry (format_code ft) (hseg_buf ft) segment_id ptr;
                      Some (p, bmap) }
               else if segment_id < last_reference ft then
                 do { (p, bmap, count) \<leftarrow> backwards_seek_entry (format_code ft) (hseg_buf ft) base segment_id ptr;
                      Some (p, bmap) }
               else Some (ptr, bsm_map ft));
            Some (ft\<lparr>bsm_hash_ptr := Some ptr', bsm_map := bmap, last_reference := segment_id\<rparr>, bmap) }
        | None \<Rightarrow> if 0 \<le> segment_id \<and> base + 4 * nat segment_id + 4 \<le> length (hseg_buf ft)
            then Some (ft, GET4 (hseg_buf ft) (base + 4 * nat segment_id)) else None)
     })"

definition ftape_extract_bad_sector_map :: "ftape_info \<Rightarrow> bytes \<Rightarrow> ftape_info" where
  "ftape_extract_bad_sector_map ft buffer =
    (let base = (if wide_format (format_code ft) then 256 else 256 + (2 * FT_SECTOR_SIZE - 256))
     in ft\<lparr>hseg_buf := buffer, bad_sector_map := Some base,
           bsm_hash_ptr := (if list_format (format_code ft) then Some base else None)\<rparr>)"

definition ftape_init_bsm :: "ftape_info \<Rightarrow> ftape_info" where
  "ftape_init_bsm ft = ft\<lparr>bad_sector_map := None, bsm_hash_ptr := None, last_reference := -1, bsm_map := 0\<rparr>"

text \<open>
  \<open>ftape_init_driver\<close> of \<open>src/ftape/lowlevel/ftape-ctl.c\<close>: the record is cleared and filled with the
  defaults. The header buffer and the global variables are not part of the record in the source.
\<close>

definition ftape_init_driver :: "ftape_info \<Rightarrow> ftape_info" where
  "ftape_init_driver ft = ftape_init_bsm (ft\<lparr>
     format_code := fmt_unknown 0, qic_std := QIC_UNKNOWN, ditto_max_ext := False, tape_len := 0,
     segments_per_track := 102, segments_per_head := 1020, segments_per_cylinder := 4, tracks_per_tape := 20,
     header_segment_1 := -1, header_segment_2 := -1, used_header_segment := -1,
     first_data_segment := -1, last_data_segment := -1, last_reference := -1,
     driver_state := waiting, old_segment_id := 0, old_driver_state := waiting, runner_status := idle,
     location := \<lparr>loc_track = -1, loc_segment = 0, loc_sector = 0, loc_bot = False, loc_eot = False, loc_known = False\<rparr>,
     history := \<lparr>id_am_errors = 0, id_crc_errors = 0, data_am_errors = 0, data_crc_errors = 0, overrun_errors = 0,
       no_data_errors = 0, retries = 0, rewinds = 0, crc_errors = 0, crc_failures = 0, ecc_failures = 0, hist_corrected = 0, defects = 0\<rparr>,
     current_command := 0, might_be_off_track := True, tape_running := False,
     formatted := False, no_tape := True, new_tape := True, ft_failure := True, ft_write_protected := True,
     ft_last_write_failed := False, data_rate := 500, overrun_count_offset := 0, last_started := 0, ffw_overshoot := 1,
     min_count := 8, rew_overshoot := 1, min_rewind := 2, rew_eot_margin := 4, start_offset := 1\<rparr>)"

section \<open>Entries of the list\<close>

lemma get_sector_put:
  assumes "put_sector m p v = Some m'"
  shows "get_sector m' p = Some (v AND 0xffffff)" "length m' = length m"
    "\<And>q. q + 3 \<le> p \<or> p + 3 \<le> q \<Longrightarrow> get_sector m' q = get_sector m q"
proof -
  have len: "p + 3 \<le> length m" and m': "m' = m[p := ucast (v AND 0xff), p + 1 := ucast (drop_bit 8 v AND 0xff),
      p + 2 := ucast (drop_bit 16 v AND 0xff)]"
    using assms by (auto simp: put_sector_def split: if_splits)
  have ff: "ucast (ucast (w AND 0xff) :: u8) = take_bit 8 w" for w :: u32
  proof -
    have "(0xff :: u32) = mask 8" by (simp add: mask_eq_exp_minus_1)
    then have "w AND 0xff = take_bit 8 w" by (simp only: take_bit_eq_mask)
    then show ?thesis by (auto simp: bit_simps intro!: bit_word_eqI)
  qed
  have "take_bit 8 v + push_bit 8 (take_bit 8 (drop_bit 8 v)) = take_bit 16 v"
    by (subst disjunctive_add) (auto simp: bit_simps intro!: bit_word_eqI)
  moreover have "take_bit 16 v + push_bit 16 (take_bit 8 (drop_bit 16 v)) = take_bit 24 v"
    by (subst disjunctive_add) (auto simp: bit_simps intro!: bit_word_eqI)
  moreover have "(0xffffff :: u32) = mask 24" by (simp add: mask_eq_exp_minus_1)
  then have "v AND 0xffffff = take_bit 24 v" by (simp only: take_bit_eq_mask)
  ultimately have "ucast (ucast (v AND 0xff) :: u8) + push_bit 8 (ucast (ucast (drop_bit 8 v AND 0xff) :: u8))
      + push_bit 16 (ucast (ucast (drop_bit 16 v AND 0xff) :: u8)) = v AND 0xffffff"
    by (simp only: ff)
  then show "get_sector m' p = Some (v AND 0xffffff)" using len by (simp add: get_sector_def m')
  show "length m' = length m" by (simp add: m')
  show "get_sector m' q = get_sector m q" if "q + 3 \<le> p \<or> p + 3 \<le> q" for q
    using that by (auto simp: get_sector_def m')
qed

lemma sector_mask: "n < 2 ^ 23 \<Longrightarrow> (word_of_nat n :: u32) AND 0x7fffff = word_of_nat n"
proof -
  assume "n < 2 ^ 23"
  then have "take_bit 23 (word_of_nat n :: u32) = word_of_nat n"
    by (simp add: word_unat_eq_iff unsigned_take_bit_eq unat_word_of_nat take_bit_nat_eq_self)
  moreover have "(0x7fffff :: u32) = mask 23" by (simp add: mask_eq_exp_minus_1)
  ultimately show ?thesis by (simp only: take_bit_eq_mask [symmetric])
qed

lemma cvt_sector:
  assumes "s * 32 + i < 2 ^ 23 - 1" "i < 32"
  shows "cvt2segment (word_of_nat (1 + s * 32 + i)) = int s"
    and "cvt2map (word_of_nat (1 + s * 32 + i)) = push_bit i 1"
    and "word_of_nat (1 + s * 32 + i) \<noteq> (0 :: u32)"
    and "(word_of_nat (1 + s * 32 + i) :: u32) AND 0x800000 = 0"
proof -
  have lt: "1 + s * 32 + i < 2 ^ 23" using assms by simp
  have m: "(word_of_nat (1 + s * 32 + i) :: u32) AND 0x7fffff = word_of_nat (1 + s * 32 + i)"
    by (rule sector_mask [OF lt])
  have e: "(word_of_nat (1 + s * 32 + i) :: u32) - 1 = word_of_nat (s * 32 + i)" by simp
  have u: "unat (word_of_nat (s * 32 + i) :: u32) = s * 32 + i" by (rule unat_word_of_nat) (use assms in simp)
  show "cvt2segment (word_of_nat (1 + s * 32 + i)) = int s"
    unfolding cvt2segment_def m e using assms(2) u by (simp add: uint_nat unat_div)
  show "cvt2map (word_of_nat (1 + s * 32 + i)) = push_bit i 1"
    unfolding cvt2map_def m e using assms(2) u by (simp add: unat_mod)
  have "unat (word_of_nat (1 + s * 32 + i) :: u32) = 1 + s * 32 + i"
    using lt by (simp add: unat_word_of_nat del: of_nat_add of_nat_Suc of_nat_mult)
  then show "word_of_nat (1 + s * 32 + i) \<noteq> (0 :: u32)" by (metis add_is_0 one_neq_zero unat_0)
  have "(word_of_nat (1 + s * 32 + i) :: u32) AND 0x800000
      = (word_of_nat (1 + s * 32 + i) AND 0x7fffff) AND 0x800000" by (simp only: m)
  also have "\<dots> = 0" by (simp add: and.assoc)
  finally show "(word_of_nat (1 + s * 32 + i) :: u32) AND 0x800000 = 0" .
qed

lemma cvt_flagged:
  assumes "s * 32 < 2 ^ 23 - 1"
  shows "cvt2segment (word_of_nat (0x800001 + s * 32)) = int s"
    and "word_of_nat (0x800001 + s * 32) \<noteq> (0 :: u32)"
    and "(word_of_nat (0x800001 + s * 32) :: u32) AND 0x800000 \<noteq> 0"
proof -
  have lt: "1 + s * 32 < 2 ^ 23" using assms by simp
  have split: "(word_of_nat (0x800001 + s * 32) :: u32) = 0x800000 OR word_of_nat (1 + s * 32)"
  proof -
    have "(0x800000 :: u32) AND word_of_nat (1 + s * 32) = 0x800000 AND (word_of_nat (1 + s * 32) AND 0x7fffff)"
      by (simp only: sector_mask [OF lt])
    also have "\<dots> = 0" by (simp add: and.left_commute)
    finally have "(0x800000 :: u32) OR word_of_nat (1 + s * 32) = 0x800000 + word_of_nat (1 + s * 32)"
      by (simp add: disjunctive_add_eq_or)
    then show ?thesis by simp
  qed
  have m: "(word_of_nat (0x800001 + s * 32) :: u32) AND 0x7fffff = word_of_nat (1 + s * 32)"
    unfolding split bit.conj_disj_distrib2 sector_mask [OF lt] by simp
  have "cvt2segment (word_of_nat (0x800001 + s * 32)) = cvt2segment (word_of_nat (1 + s * 32 + 0))"
    unfolding cvt2segment_def m by (simp only: add_0_right sector_mask [OF lt])
  then show "cvt2segment (word_of_nat (0x800001 + s * 32)) = int s"
    using cvt_sector(1) [of s 0] assms by simp
  show "(word_of_nat (0x800001 + s * 32) :: u32) AND 0x800000 \<noteq> 0"
    unfolding split by (simp add: bit.conj_disj_distrib2 or_eq_0_iff)
  then show "word_of_nat (0x800001 + s * 32) \<noteq> (0 :: u32)" by auto
qed


section \<open>The list as a data structure\<close>

text \<open>The entries of one segment, and of all segments below \<open>n\<close>, for a map \<open>M\<close> from segments to sector maps.\<close>

definition seg_entries :: "bool \<Rightarrow> u32 \<Rightarrow> nat \<Rightarrow> u32 list" where
  "seg_entries wide w s = (if wide \<and> w = EMPTY_SEGMENT then [word_of_nat (0x800001 + s * 32)]
     else map (\<lambda>i. word_of_nat (1 + s * 32 + i)) (filter (bit w) [0..<32]))"

definition entries :: "bool \<Rightarrow> (nat \<Rightarrow> u32) \<Rightarrow> nat \<Rightarrow> nat \<Rightarrow> u32 list" where
  "entries wide M a b = concat (map (\<lambda>s. seg_entries wide (M s) s) [a..<b])"

text \<open>\<open>list_at m base L\<close>: the list \<open>L\<close> with its terminating zero entry is in memory at \<open>base\<close>.\<close>

definition list_at :: "bytes \<Rightarrow> nat \<Rightarrow> u32 list \<Rightarrow> bool" where
  "list_at m base L \<longleftrightarrow> (\<forall>k \<le> length L. get_sector m (base + 3 * k) = Some ((L @ [0]) ! k))"

abbreviation max_segments :: nat where "max_segments \<equiv> 262143"

lemma seg_entriesD:
  assumes "e \<in> set (seg_entries wide w s)" "s < max_segments"
  shows "e \<noteq> 0 \<and> cvt2segment e = int s"
  using assms cvt_sector(1,3) [of s] cvt_flagged [of s] by (auto simp: seg_entries_def split: if_splits)

lemma entriesD:
  assumes "e \<in> set (entries wide M a b)" "b \<le> max_segments"
  shows "e \<noteq> 0 \<and> int a \<le> cvt2segment e \<and> cvt2segment e < int b"
  using assms seg_entriesD by (fastforce simp: entries_def)

lemma entries_split:
  assumes "a \<le> s" "s < b"
  shows "entries wide M a b = entries wide M a s @ seg_entries wide (M s) s @ entries wide M (Suc s) b"
proof -
  have "[a..<b] = [a..<s] @ s # [Suc s..<b]"
    using assms by (metis append_Cons append_Nil less_imp_le_nat upt_add_eq_append upt_conv_Cons le_add_diff_inverse)
  then show ?thesis by (simp add: entries_def)
qed

lemma entries_update: "s < a \<or> b \<le> s \<Longrightarrow> entries wide (M(s := v)) a b = entries wide M a b"
  by (auto simp: entries_def intro!: arg_cong [where f = concat])

text \<open>What the entries of one segment say: their number, and the union of their bits.\<close>

lemma length_filter_bit: "length (filter (bit w) [0..<32]) = count_ones (w :: u32)"
proof -
  have "set (filter (bit w) [0..<32]) = {n. bit w n}" by (auto dest: bit_imp_le_length)
  moreover have "distinct (filter (bit w) [0..<32])" by simp
  ultimately show ?thesis by (metis count_ones_card distinct_card)
qed

lemma count_ones_full: "count_ones (w :: u32) = 32 \<longleftrightarrow> w = EMPTY_SEGMENT"
proof
  assume "count_ones w = 32"
  then have "length (filter (bit w) [0..<32]) = length [0..<32::nat]" by (simp only: length_filter_bit) simp
  then have all: "\<forall>n\<in>set [0..<32]. bit w n" by (metis filter_True length_filter_less less_irrefl)
  have "w = - 1" by (rule bit_word_eqI) (use all in simp)
  then show "w = EMPTY_SEGMENT" by simp
next
  assume "w = EMPTY_SEGMENT"
  then have "w = - 1" by simp
  then have "filter (bit w) [0..<32] = [0..<32]" by (simp only: filter_id_conv) simp
  then show "count_ones w = 32" by (metis length_filter_bit length_upt minus_nat.diff_0)
qed

lemma fold_cvt2map:
  "bit (fold (\<lambda>e b. b OR cvt2map e) es w) i \<longleftrightarrow> bit w i \<or> (\<exists>e\<in>set es. bit (cvt2map e) i)"
  by (induction es arbitrary: w) (auto simp: bit_or_iff)

lemma seg_entries_map:
  assumes "s < max_segments" "\<not> (wide \<and> w = EMPTY_SEGMENT)"
  shows "fold (\<lambda>e b. b OR cvt2map e) (seg_entries wide w s) 0 = w"
proof (rule bit_word_eqI)
  fix i assume i: "i < LENGTH(32)"
  have "cvt2map (word_of_nat (1 + s * 32 + j)) = push_bit j 1" if "j < 32" for j
    using assms(1) that by (intro cvt_sector(2)) simp_all
  then have "bit (cvt2map (word_of_nat (1 + s * 32 + j))) i \<longleftrightarrow> j = i" if "j < 32" for j
    using i that by (auto simp: bit_simps simp del: of_nat_add of_nat_Suc of_nat_mult)
  then show "bit (fold (\<lambda>e b. b OR cvt2map e) (seg_entries wide w s) 0) i = bit w i"
    using i assms(2) by (auto simp: fold_cvt2map seg_entries_def simp del: of_nat_add of_nat_Suc of_nat_mult)
qed

lemma seg_entries_Nil: "seg_entries wide w s = [] \<longleftrightarrow> w = 0"
proof -
  have "filter (bit w) [0..<32] = [] \<longleftrightarrow> w = 0"
    by (auto simp: filter_empty_conv intro!: bit_word_eqI)
  then show ?thesis by (auto simp: seg_entries_def)
qed


section \<open>The loops on a list in memory\<close>

lemma list_at_nth: "list_at m base (A @ B) \<Longrightarrow> k < length A \<Longrightarrow> get_sector m (base + 3 * k) = Some (A ! k)"
  by (simp add: list_at_def nth_append)

lemma list_at_mid: "list_at m base (A @ B) \<Longrightarrow> get_sector m (base + 3 * length A) = Some (hd (B @ [0]))"
  by (cases B) (auto simp: list_at_def nth_append dest: spec [of _ "length A"])

lemma forward_scan_list:
  assumes at: "list_at m base (A @ B)" and A: "\<forall>a\<in>set A. a \<noteq> 0 \<and> cvt2segment a < sid"
    and B: "B = [] \<or> sid \<le> cvt2segment (hd B)"
  shows "k \<le> length A \<Longrightarrow> forward_scan m sid (base + 3 * k) = Some (base + 3 * length A, hd (B @ [0]))"
proof (induction "length A - k" arbitrary: k)
  case 0
  then have "k = length A" by simp
  then show ?case using list_at_mid [OF at] B by (cases B) (simp_all add: forward_scan.simps)
next
  case (Suc n)
  then have k: "k < length A" by simp
  have "forward_scan m sid (base + 3 * Suc k) = Some (base + 3 * length A, hd (B @ [0]))"
    using Suc(2) k by (intro Suc.hyps(1)) auto
  then show ?case
    using list_at_nth [OF at k] A k by (subst forward_scan.simps) (simp add: ac_simps)
qed

lemma forward_collect_list:
  assumes at: "list_at m base (A @ E @ C)" and E: "\<forall>e\<in>set E. e \<noteq> 0 \<and> cvt2segment e = sid"
    and C: "C = [] \<or> cvt2segment (hd C) \<noteq> sid"
  shows "k \<le> length E \<Longrightarrow> forward_collect m sid (base + 3 * (length A + k)) w c
    = Some (fold (\<lambda>e b. b OR cvt2map e) (drop k E) w, c + (length E - k))"
proof (induction "length E - k" arbitrary: k w c)
  case 0
  then have k: "k = length E" by simp
  have "get_sector m (base + 3 * length (A @ E)) = Some (hd (C @ [0]))"
    using at by (intro list_at_mid) simp
  then show ?case using C k by (cases C) (simp_all add: forward_collect.simps)
next
  case (Suc n)
  then have k: "k < length E" by simp
  have g: "get_sector m (base + 3 * (length A + k)) = Some (E ! k)"
    using list_at_nth [of m base "A @ E" C "length A + k"] at k by (simp add: nth_append)
  have "forward_collect m sid (base + 3 * (length A + Suc k)) (w OR cvt2map (E ! k)) (Suc c)
      = Some (fold (\<lambda>e b. b OR cvt2map e) (drop (Suc k) E) (w OR cvt2map (E ! k)), Suc c + (length E - Suc k))"
    using Suc(2) k by (intro Suc.hyps(1)) auto
  then show ?case
    using g E k by (subst forward_collect.simps) (simp add: ac_simps Suc_diff_Suc Cons_nth_drop_Suc [symmetric])
qed

lemma list_end_list:
  assumes at: "list_at m base (A @ B)" and B: "\<forall>b\<in>set B. b \<noteq> 0"
  shows "k \<le> length B \<Longrightarrow> list_end m (base + 3 * (length A + k)) = Some (base + 3 * (length (A @ B) + 1))"
proof (induction "length B - k" arbitrary: k)
  case 0
  then have k: "k = length B" by simp
  have "get_sector m (base + 3 * length (A @ B)) = Some (hd ([] @ [0]))" using at by (intro list_at_mid) simp
  then show ?case using k by (simp add: list_end.simps)
next
  case (Suc n)
  then have k: "k < length B" by simp
  have g: "get_sector m (base + 3 * (length A + k)) = Some (B ! k)"
    using list_at_nth [of m base "A @ B" "[]" "length A + k"] at k by (simp add: nth_append)
  have "list_end m (base + 3 * (length A + Suc k)) = Some (base + 3 * (length (A @ B) + 1))"
    using Suc(2) k by (intro Suc.hyps(1)) auto
  then show ?case using g B k by (subst list_end.simps) (simp add: ac_simps)
qed

text \<open>Going backwards from behind the entries of larger segments.\<close>

lemma backwards_scan_list:
  assumes at: "list_at m base (A @ B)" and A: "\<forall>a\<in>set A. cvt2segment a \<le> sid"
    and B: "\<forall>b\<in>set B. sid < cvt2segment b" and k0: "0 < length A + k"
  shows "k \<le> length B \<Longrightarrow> backwards_scan m base sid (base + 3 * (length A + k))
    = (if A = [] then Some (base, hd B) else Some (base + 3 * (length A - 1), last A))"
  using k0
proof (induction k)
  case 0
  then have "A \<noteq> []" by simp
  moreover have "get_sector m (base + 3 * (length A - 1)) = Some (last A)"
    using list_at_nth [OF at, of "length A - 1"] \<open>A \<noteq> []\<close> by (simp add: last_conv_nth)
  moreover have "base + 3 * length A - 3 = base + 3 * (length A - 1)" using \<open>A \<noteq> []\<close> by (cases A) auto
  moreover have "\<not> sid < cvt2segment (last A)" using A \<open>A \<noteq> []\<close> by (simp add: not_less)
  ultimately show ?case by (subst backwards_scan.simps) simp
next
  case (Suc k)
  have g: "get_sector m (base + 3 * (length A + k)) = Some (B ! k)"
    using list_at_nth [of m base "A @ B" "[]" "length A + k"] at Suc.prems(1) by (simp add: nth_append)
  have p: "base + 3 * (length A + Suc k) - 3 = base + 3 * (length A + k)" by simp
  have sid: "sid < cvt2segment (B ! k)" using B Suc.prems(1) by simp
  show ?case
  proof (cases "length A + k = 0")
    case True
    then have "A = []" "k = 0" by auto
    then show ?thesis using g Suc.prems(1) by (subst backwards_scan.simps, cases B) simp_all
  next
    case False
    then show ?thesis
      using Suc.IH Suc.prems(1) g sid by (subst backwards_scan.simps) (simp add: p)
  qed
qed


lemma backwards_collect_list:
  assumes at: "list_at m base (A @ E @ B)" and E: "\<forall>e\<in>set E. cvt2segment e = sid"
    and A: "A = [] \<or> cvt2segment (last A) < sid"
  shows "k \<le> length E \<Longrightarrow> \<exists>q segment. backwards_collect m base sid (base + 3 * (length A + k)) w c
    = Some (q, segment, fold (\<lambda>e b. b OR cvt2map e) (rev (take k E)) w, c + k)
    \<and> (if segment < sid then q + 3 else q) = base + 3 * length A"
proof (induction k arbitrary: w c)
  case 0
  show ?case
  proof (cases "A = []")
    case False
    have g: "get_sector m (base + 3 * (length A - 1)) = Some (last A)"
      using list_at_nth [OF at, of "length A - 1"] False by (simp add: last_conv_nth)
    have p: "base + 3 * length A - 3 = base + 3 * (length A - 1)" "base < base + 3 * length A"
        "3 * (length A - Suc 0) + 3 = 3 * length A" using False by (cases A; simp)+
    show ?thesis using A False g by (subst backwards_collect.simps) (simp add: p)
  qed (simp add: backwards_collect.simps)
next
  case (Suc k)
  have g: "get_sector m (base + 3 * (length A + k)) = Some (E ! k)"
    using list_at_nth [of m base "A @ E" B "length A + k"] at Suc.prems by (simp add: nth_append)
  have p: "base + 3 * (length A + Suc k) - 3 = base + 3 * (length A + k)" "base < base + 3 * (length A + Suc k)" by simp_all
  have "backwards_collect m base sid (base + 3 * (length A + Suc k)) w c
      = backwards_collect m base sid (base + 3 * (length A + k)) (w OR cvt2map (E ! k)) (Suc c)"
    using E Suc.prems g by (subst backwards_collect.simps) (simp only: p, simp)
  moreover have "rev (take (Suc k) E) = E ! k # rev (take k E)" using Suc.prems by (simp add: take_Suc_conv_app_nth)
  ultimately show ?case using Suc.IH [of "w OR cvt2map (E ! k)" "Suc c"] Suc.prems by simp
qed

text \<open>
  The two seek routines on the list: the count they return is the number of bad sectors, with 32
  for the single entry of a whole bad segment.
\<close>

lemma seg_entries_count:
  "length (seg_entries wide w s) = (if wide \<and> count_ones w = 32 then 1 else count_ones w)"
  by (simp add: seg_entries_def length_filter_bit count_ones_full)

lemma seg_entries_flag:
  assumes "s < max_segments" "w \<noteq> 0" "e \<in> set (seg_entries wide w s)"
  shows "wide \<Longrightarrow> e AND 0x800000 \<noteq> 0 \<longleftrightarrow> w = EMPTY_SEGMENT"
  using assms cvt_sector(4) [of s] cvt_flagged(3) [of s] by (auto simp: seg_entries_def split: if_splits)

lemma forward_seek_list:
  assumes fmt: "wide = wide_format fmt" and at: "list_at m base (entries wide M 0 n)"
    and s: "s < n" "n \<le> max_segments" and k: "k \<le> length (entries wide M 0 s)"
  shows "forward_seek_entry fmt m (int s) (base + 3 * k)
    = Some (base + 3 * length (entries wide M 0 s), M s, count_ones (M s))"
proof -
  let ?A = "entries wide M 0 s" and ?E = "seg_entries wide (M s) s" and ?C = "entries wide M (Suc s) n"
  have at': "list_at m base (?A @ ?E @ ?C)" using at s entries_split [of 0 s n] by simp
  have A: "\<forall>a\<in>set ?A. a \<noteq> 0 \<and> cvt2segment a < int s" using entriesD [of _ wide M 0 s] s by auto
  have E: "\<forall>e\<in>set ?E. e \<noteq> 0 \<and> cvt2segment e = int s" using seg_entriesD [of _ wide "M s" s] s by auto
  have C: "\<forall>c\<in>set ?C. c \<noteq> 0 \<and> int s < cvt2segment c" using entriesD [of _ wide M "Suc s" n] s by fastforce
  have "?E @ ?C = [] \<or> int s \<le> cvt2segment (hd (?E @ ?C))"
    using E C by (cases ?E; cases ?C) auto
  note scan = forward_scan_list [OF at' A this k]
  show ?thesis
  proof (cases "M s = 0")
    case True
    then have "?E = []" by (simp add: seg_entries_Nil)
    with True scan C show ?thesis by (cases ?C) (auto simp: forward_seek_entry_def)
  next
    case False
    then obtain e E' where e: "?E = e # E'" by (metis list.exhaust seg_entries_Nil)
    have eE: "e \<in> set ?E" by (simp add: e)
    have e0: "e \<noteq> 0" "cvt2segment e = int s" using E eE by auto
    have scan': "forward_scan m (int s) (base + 3 * k) = Some (base + 3 * length ?A, e)" using scan by (simp add: e)
    show ?thesis
    proof (cases "wide \<and> M s = EMPTY_SEGMENT")
      case True
      then have "e AND 0x800000 \<noteq> 0" using seg_entries_flag [OF _ False eE] s by auto
      with True scan' e0 fmt show ?thesis by (simp add: forward_seek_entry_def count_ones_full)
    next
      case nf: False
      have "\<not> (wide \<and> e AND 0x800000 \<noteq> 0)" using nf seg_entries_flag [OF _ False eE] s by auto
      moreover have "?C = [] \<or> cvt2segment (hd ?C) \<noteq> int s" using C by (cases ?C) auto
      note forward_collect_list [OF at', of "int s" 1 "cvt2map e" 1, OF _ this]
      then have "forward_collect m (int s) (base + 3 * length ?A + 3) (cvt2map e) 1
          = Some (fold (\<lambda>e b. b OR cvt2map e) E' (cvt2map e), length ?E)"
        using E by (simp add: e ac_simps)
      moreover have "fold (\<lambda>e b. b OR cvt2map e) E' (cvt2map e) = M s"
        using seg_entries_map [OF _ nf, of s] s by (simp add: e)
      moreover have "length ?E = count_ones (M s)" using nf by (auto simp: seg_entries_count count_ones_full)
      ultimately show ?thesis using scan' e0 fmt by (auto simp: forward_seek_entry_def)
    qed
  qed
qed

lemma backwards_seek_list:
  assumes fmt: "wide = wide_format fmt" and at: "list_at m base (entries wide M 0 n)"
    and s: "s < r" "r \<le> n" "n \<le> max_segments"
  shows "\<exists>c. backwards_seek_entry fmt m base (int s) (base + 3 * length (entries wide M 0 r))
    = Some (base + 3 * length (entries wide M 0 s), M s, c)"
proof -
  let ?A = "entries wide M 0 s" and ?E = "seg_entries wide (M s) s" and ?C = "entries wide M (Suc s) n"
  let ?D = "entries wide M (Suc s) r"
  have at': "list_at m base (?A @ ?E @ ?C)" using at s entries_split [of 0 s n] by simp
  have r: "length (entries wide M 0 r) = length ?A + length ?E + length ?D" using s entries_split [of 0 s r] by simp
  have le: "length ?D \<le> length ?C"
  proof (cases "r = n")
    case False
    then have "entries wide M (Suc s) n = ?D @ seg_entries wide (M r) r @ entries wide M (Suc r) n"
      using s by (intro entries_split) auto
    then show ?thesis by simp
  qed simp
  have A: "\<forall>a\<in>set ?A. cvt2segment a < int s" using entriesD [of _ wide M 0 s] s by auto
  have E: "\<forall>e\<in>set ?E. cvt2segment e = int s" using seg_entriesD [of _ wide "M s" s] s by auto
  have C: "\<forall>c\<in>set ?C. int s < cvt2segment c" using entriesD [of _ wide M "Suc s" n] s by fastforce
  show ?thesis
  proof (cases "entries wide M 0 r = []")
    case True
    then have "?A = []" "?E = []" using r by auto
    then show ?thesis using True by (simp add: backwards_seek_entry_def seg_entries_Nil)
  next
    case False
    have "backwards_scan m base (int s) (base + 3 * (length (?A @ ?E) + length ?D))
      = (if ?A @ ?E = [] then Some (base, hd ?C) else Some (base + 3 * (length (?A @ ?E) - 1), last (?A @ ?E)))"
      using at' A E C r False le by (intro backwards_scan_list) (auto simp: less_imp_le)
    then have scan: "backwards_scan m base (int s) (base + 3 * length (entries wide M 0 r))
      = (if ?A @ ?E = [] then Some (base, hd ?C) else Some (base + 3 * (length (?A @ ?E) - 1), last (?A @ ?E)))"
      by (simp only: r length_append)
    show ?thesis
    proof (cases "M s = 0")
      case True
      then have "?E = []" by (simp add: seg_entries_Nil)
      moreover have "?C \<noteq> []" if "?A = []" using that False r le \<open>?E = []\<close> by auto
      moreover have "base + 3 * (length ?A - 1) + 3 = base + 3 * length ?A" if "?A \<noteq> []" using that by (cases ?A) auto
      moreover have "cvt2segment (last ?A) < int s" if "?A \<noteq> []" using that A by simp
      ultimately show ?thesis
        using scan C True False by (cases "?A = []") (auto simp: backwards_seek_entry_def)
    next
      case nz: False
      then have ne: "?E \<noteq> []" by (simp add: seg_entries_Nil)
      then obtain E' e where e: "?E = E' @ [e]" by (metis append_butlast_last_id)
      have eE: "e \<in> set ?E" by (simp add: e)
      have scan': "backwards_scan m base (int s) (base + 3 * length (entries wide M 0 r))
          = Some (base + 3 * (length ?A + length E'), e)" using scan by (simp add: e)
      show ?thesis
      proof (cases "wide \<and> M s = EMPTY_SEGMENT")
        case True
        then have "e AND 0x800000 \<noteq> 0" using seg_entries_flag [OF _ nz eE] s by auto
        moreover have "E' = []" using True e by (simp add: seg_entries_def)
        ultimately show ?thesis using True scan' E eE fmt False by (simp add: backwards_seek_entry_def)
      next
        case nf: False
        have nfl: "\<not> (wide \<and> e AND 0x800000 \<noteq> 0)" using nf seg_entries_flag [OF _ nz eE] s by auto
        have "?A = [] \<or> cvt2segment (last ?A) < int s" using A last_in_set by blast
        from backwards_collect_list [OF at' E this, of "length E'" "cvt2map e" 1] obtain q segment where
          bc: "backwards_collect m base (int s) (base + 3 * (length ?A + length E')) (cvt2map e) 1
            = Some (q, segment, fold (\<lambda>e b. b OR cvt2map e) (rev E') (cvt2map e), 1 + length E')"
          "(if segment < int s then q + 3 else q) = base + 3 * length ?A" by (auto simp: e)
        have "fold (\<lambda>e b. b OR cvt2map e) (rev E') (cvt2map e) = fold (\<lambda>e b. b OR cvt2map e) ?E 0"
          by (rule bit_word_eqI) (auto simp: fold_cvt2map bit_or_iff e)
        also have "\<dots> = M s" using seg_entries_map [OF _ nf] s by simp
        finally show ?thesis
          using scan' bc nfl E eE fmt False by (auto simp: backwards_seek_entry_def)
      qed
    qed
  qed
qed


section \<open>Replacing the entries of a segment\<close>

lemma bits_step:
  fixes w :: u32
  shows "filter (bit w) [0..<32] = (if bit w 0 then [0] else []) @ map Suc (filter (bit (drop_bit 1 w)) [0..<32])"
proof -
  have "map Suc (filter (bit (drop_bit 1 w)) [0..<32]) = filter (bit w) (map Suc [0..<32])"
    by (auto simp: filter_map o_def bit_simps)
  also have "map Suc [0..<32] = [1..<32] @ [32]" using upt_Suc_append [of 1 32] by (simp add: map_Suc_upt)
  also have "filter (bit w) \<dots> = filter (bit w) [1..<32]" by (auto dest: bit_imp_le_length)
  finally show ?thesis by (subst upt_conv_Cons) simp_all
qed

definition bit_entries :: "int \<Rightarrow> int \<Rightarrow> u32 \<Rightarrow> u32 list" where
  "bit_entries sid i w = map (\<lambda>j. word_of_int (1 + sid * 32 + i + int j) AND 0xffffff) (filter (bit w) [0..<32])"

lemma bit_entries_step:
  "bit_entries sid i w = (if bit w 0 then [word_of_int (1 + sid * 32 + i) AND 0xffffff] else [])
    @ bit_entries sid (i + 1) (drop_bit 1 w)"
  unfolding bit_entries_def by (subst bits_step) (simp add: o_def algebra_simps)

text \<open>\<open>L\<close> has been written at \<open>p\<close>, everything else is as it was.\<close>

definition wrote :: "bytes \<Rightarrow> nat \<Rightarrow> u32 list \<Rightarrow> bytes \<Rightarrow> bool" where
  "wrote m p L m' \<longleftrightarrow> length m' = length m \<and> (\<forall>k < length L. get_sector m' (p + 3 * k) = Some (L ! k))
    \<and> (\<forall>q. q + 3 \<le> p \<or> p + 3 * length L \<le> q \<longrightarrow> get_sector m' q = get_sector m q)"

lemma wrote_Cons:
  assumes "put_sector m p v = Some m1" "e = v AND 0xffffff" "wrote m1 (p + 3) L m2"
  shows "wrote m p (e # L) m2"
proof -
  note g = get_sector_put [OF assms(1)]
  have "get_sector m2 (p + 3 * k) = Some ((e # L) ! k)" if "k < Suc (length L)" for k
    using that assms(2,3) g by (cases k) (auto simp: wrote_def add.assoc)
  with assms(3) g show ?thesis by (auto simp: wrote_def)
qed

lemma put_bits_list:
  "p + 3 * length (bit_entries sid i w) \<le> length m \<Longrightarrow>
    \<exists>m'. put_bits m p sid i w = Some m' \<and> wrote m p (bit_entries sid i w) m'"
proof (induction m p sid i w rule: put_bits.induct)
  case (1 m p sid i w)
  note step = bit_entries_step [of sid i w]
  consider "w = 0" | "w \<noteq> 0" "w AND 1 \<noteq> 0" "bit w 0" | "w \<noteq> 0" "w AND 1 = 0" "\<not> bit w 0"
    by (cases "bit w 0") (auto simp: and_one_eq mod2_eq_if bit_0)
  then show ?case
  proof cases
    case 1
    then show ?thesis by (simp add: put_bits.simps wrote_def bit_entries_def)
  next
    case 2
    let ?v = "word_of_int (1 + sid * 32 + i) :: u32"
    have L: "bit_entries sid i w = (?v AND 0xffffff) # bit_entries sid (i + 1) (drop_bit 1 w)"
      using 2(3) step by simp
    obtain m1 where m1: "put_sector m p ?v = Some m1"
      using "1.prems" L by (auto simp: put_sector_def)
    have "p + 3 + 3 * length (bit_entries sid (i + 1) (drop_bit 1 w)) \<le> length m1"
      using "1.prems" L get_sector_put(2) [OF m1] by simp
    from "1.IH"(1) [OF 2(1,2) m1 this] obtain m2 where
      "put_bits m1 (p + 3) sid (i + 1) (drop_bit 1 w) = Some m2"
      "wrote m1 (p + 3) (bit_entries sid (i + 1) (drop_bit 1 w)) m2" by blast
    with m1 2 wrote_Cons [OF m1 refl] show ?thesis unfolding L
      by (subst put_bits.simps) auto
  next
    case 3
    have L: "bit_entries sid i w = bit_entries sid (i + 1) (drop_bit 1 w)" using 3(3) step by simp
    from "1.IH"(2) [OF 3(1)] 3 "1.prems" show ?thesis unfolding L
      by (subst put_bits.simps) auto
  qed
qed

lemma seg_entries_written:
  assumes "s < max_segments" "\<not> (wide \<and> w = EMPTY_SEGMENT)"
  shows "bit_entries (int s) 0 w = seg_entries wide w s"
proof -
  have "word_of_int (1 + int s * 32 + 0 + int j) AND 0xffffff = (word_of_nat (1 + s * 32 + j) :: u32)" if "j < 32" for j
  proof -
    have lt: "1 + s * 32 + j < 2 ^ 23" using assms(1) that by simp
    have "(word_of_nat (1 + s * 32 + j) :: u32) AND 0xffffff = (word_of_nat (1 + s * 32 + j) AND 0x7fffff) AND 0xffffff"
      by (simp only: sector_mask [OF lt])
    also have "\<dots> = word_of_nat (1 + s * 32 + j) AND 0x7fffff" by (simp add: and.assoc)
    finally have "(word_of_nat (1 + s * 32 + j) :: u32) AND 0xffffff = word_of_nat (1 + s * 32 + j)"
      by (simp only: sector_mask [OF lt])
    moreover have "(1 + int s * 32 + 0 + int j) = int (1 + s * 32 + j)" by simp
    ultimately show ?thesis by (simp only: of_int_of_nat_eq)
  qed
  then show ?thesis using assms(2) by (auto simp: bit_entries_def seg_entries_def)
qed

lemma flag_written:
  assumes "s < max_segments"
  shows "word_of_int (0x800001 + int s * 32) AND 0xffffff = (word_of_nat (0x800001 + s * 32) :: u32)"
proof -
  have lt: "0x800001 + s * 32 < 2 ^ 24" using assms by simp
  then have "take_bit 24 (word_of_nat (0x800001 + s * 32) :: u32) = word_of_nat (0x800001 + s * 32)"
    by (simp add: word_unat_eq_iff unsigned_take_bit_eq unat_word_of_nat take_bit_nat_eq_self del: of_nat_add of_nat_mult)
  moreover have "(0xffffff :: u32) = mask 24" by (simp add: mask_eq_exp_minus_1)
  moreover have "0x800001 + int s * 32 = int (0x800001 + s * 32)" by simp
  ultimately show ?thesis by (simp only: of_int_of_nat_eq take_bit_eq_mask)
qed

lemma get_sector_memmove:
  assumes "memmove m dst src n = Some m'"
  shows "length m' = length m" "k + 3 \<le> n \<Longrightarrow> get_sector m' (dst + k) = get_sector m (src + k)"
    "q + 3 \<le> dst \<Longrightarrow> get_sector m' q = get_sector m q"
  using assms by (auto simp: memmove_def get_sector_def nth_append split: if_splits)


lemma list_atI:
  assumes "\<And>k. k < length A \<Longrightarrow> get_sector m (base + 3 * k) = Some (A ! k)"
    and "\<And>k. k < length E \<Longrightarrow> get_sector m (base + 3 * (length A + k)) = Some (E ! k)"
    and "\<And>k. k \<le> length C \<Longrightarrow> get_sector m (base + 3 * (length A + length E + k)) = Some ((C @ [0]) ! k)"
  shows "list_at m base (A @ E @ C)"
  unfolding list_at_def
proof (intro allI impI)
  fix k assume k: "k \<le> length (A @ E @ C)"
  consider "k < length A" | "length A \<le> k" "k < length A + length E" | "length A + length E \<le> k" by linarith
  then show "get_sector m (base + 3 * k) = Some (((A @ E @ C) @ [0]) ! k)"
  proof cases
    case 2
    then show ?thesis using assms(2) [of "k - length A"] by (auto simp: nth_append)
  next
    case 3
    then show ?thesis using assms(3) [of "k - length A - length E"] k by (auto simp: nth_append)
  qed (use assms(1) in \<open>simp add: nth_append\<close>)
qed

text \<open>Putting a segment's map replaces its entries in the list, wherever the list still fits.\<close>

lemma put_list_entry_list:
  assumes fmt: "wide = wide_format fmt" and at: "list_at m base (entries wide M 0 n)"
    and s: "s < n" "n \<le> max_segments"
    and fits: "base + 3 * (length (entries wide (M(s := v)) 0 n) + 1) \<le> length m"
  shows "\<exists>m'. put_list_entry fmt m base (int s) v = Some (base + 3 * length (entries wide M 0 s), m')
    \<and> list_at m' base (entries wide (M(s := v)) 0 n) \<and> length m' = length m"
proof -
  let ?A = "entries wide M 0 s" and ?E = "seg_entries wide (M s) s" and ?C = "entries wide M (Suc s) n"
  let ?V = "seg_entries wide v s"
  let ?p = "base + 3 * length ?A"
  have at': "list_at m base (?A @ ?E @ ?C)" using at s entries_split [of 0 s n] by simp
  have new: "entries wide (M(s := v)) 0 n = ?A @ ?V @ ?C"
    using entries_split [of 0 s n wide "M(s := v)"] s by (simp add: entries_update)
  have seek: "forward_seek_entry fmt m (int s) base = Some (?p, M s, count_ones (M s))"
    using forward_seek_list [OF fmt at s, of 0] by simp
  have tail: "get_sector m (base + 3 * (length ?A + length ?E + k)) = Some ((?C @ [0]) ! k)" if "k \<le> length ?C" for k
    using at' that unfolding list_at_def by (auto simp: nth_append dest: spec [of _ "length ?A + length ?E + k"])
  have nz: "\<forall>b\<in>set (?E @ ?C). b \<noteq> 0"
    using seg_entriesD [of _ wide "M s" s] entriesD [of _ wide M "Suc s" n] s by fastforce
  have hi: "list_end m ?p = Some (base + 3 * (length (?A @ ?E @ ?C) + 1))"
    using list_end_list [OF at' nz, of 0] by simp
  obtain m1 where m1: "(if length ?E \<noteq> length ?V then do { hi_ptr \<leftarrow> list_end m ?p;
        memmove m (?p + 3 * length ?V) (?p + 3 * length ?E) (hi_ptr - (?p + 3 * length ?E)) } else Some m) = Some m1"
    and len1: "length m1 = length m"
    and low: "\<And>k. k < length ?A \<Longrightarrow> get_sector m1 (base + 3 * k) = Some (?A ! k)"
    and high: "\<And>k. k \<le> length ?C \<Longrightarrow> get_sector m1 (base + 3 * (length ?A + length ?V + k)) = Some ((?C @ [0]) ! k)"
  proof (cases "length ?E = length ?V")
    case True
    then show ?thesis using that [of m] tail list_at_nth [OF at'] by auto
  next
    case False
    have sz: "base + 3 * (length (?A @ ?E @ ?C) + 1) - (?p + 3 * length ?E) = 3 * (length ?C + 1)" by simp
    have "get_sector m (base + 3 * (length ?A + length ?E + length ?C)) \<noteq> None" using tail by simp
    then have "?p + 3 * length ?E + 3 * (length ?C + 1) \<le> length m" by (simp add: get_sector_def split: if_splits)
    then obtain m1 where mm: "memmove m (?p + 3 * length ?V) (?p + 3 * length ?E) (3 * (length ?C + 1)) = Some m1"
      using fits new by (auto simp: memmove_def)
    note g = get_sector_memmove [OF mm]
    show ?thesis
    proof (rule that [of m1])
      show "get_sector m1 (base + 3 * (length ?A + length ?V + k)) = Some ((?C @ [0]) ! k)" if "k \<le> length ?C" for k
        using g(2) [of "3 * k"] tail [OF that] that by (simp add: add_mult_distrib2 add.assoc)
    qed (use g list_at_nth [OF at'] False hi mm sz in auto)
  qed
  have "\<exists>m2. (if length ?V = 1 \<and> v = EMPTY_SEGMENT then put_sector m1 ?p (word_of_int (0x800001 + int s * 32))
      else put_bits m1 ?p (int s) 0 v) = Some m2 \<and> wrote m1 ?p ?V m2"
  proof (cases "wide \<and> v = EMPTY_SEGMENT")
    case True
    then have V: "?V = [word_of_nat (0x800001 + s * 32)]" by (simp add: seg_entries_def)
    have sm: "s < max_segments" using s by simp
    obtain m2 where m2: "put_sector m1 ?p (word_of_int (0x800001 + int s * 32)) = Some m2"
      using fits new len1 V by (auto simp: put_sector_def)
    have "wrote m1 ?p ?V m2" unfolding V
      by (rule wrote_Cons [OF m2 flag_written [OF sm, symmetric]]) (simp add: wrote_def)
    then show ?thesis using True V m2 by simp
  next
    case False
    have "length ?V \<noteq> 1" if "v = EMPTY_SEGMENT" using that False
      by (auto simp: seg_entries_count count_ones_full [THEN iffD2])
    moreover have "bit_entries (int s) 0 v = ?V" using s by (intro seg_entries_written [OF _ False]) simp
    ultimately show ?thesis using put_bits_list [of ?p "int s" 0 v m1] fits new len1 by auto
  qed
  then obtain m2 where m2: "(if length ?V = 1 \<and> v = EMPTY_SEGMENT then put_sector m1 ?p (word_of_int (0x800001 + int s * 32))
      else put_bits m1 ?p (int s) 0 v) = Some m2" and wr: "wrote m1 ?p ?V m2" by blast
  have cnt: "(if wide_format fmt \<and> count_ones w = 32 then 1 else count_ones w) = length (seg_entries wide w s)" for w
    by (simp add: fmt seg_entries_count)
  have "put_list_entry fmt m base (int s) v = Some (?p, m2)"
    unfolding put_list_entry_def seek using m1 m2 by (simp only: bind.bind_lunit prod.case Let_def cnt)
  moreover have "list_at m2 base (?A @ ?V @ ?C)"
    using wr low high by (intro list_atI) (auto simp: wrote_def add_mult_distrib2 add.assoc)
  ultimately show ?thesis using wr len1 new by (auto simp: wrote_def)
qed


section \<open>A map from segments to sector maps\<close>

text \<open>
  The interface: a state that stands for a map \<open>M\<close>; \<open>get\<close> returns the entry, \<open>put\<close> replaces it where
  the new map fits, and both keep the representation, whatever cache they use.
\<close>

datatype bsm_op = Get nat | Put nat u32

fun bsm_spec :: "bsm_op list \<Rightarrow> (nat \<Rightarrow> u32) \<Rightarrow> (nat \<Rightarrow> u32) \<times> u32 list" where
  "bsm_spec [] M = (M, [])"
| "bsm_spec (Get s # ops) M = (let (M', out) = bsm_spec ops M in (M', M s # out))"
| "bsm_spec (Put s v # ops) M = bsm_spec ops (M(s := v))"

fun bsm_run :: "('s \<Rightarrow> int \<Rightarrow> ('s \<times> u32) option) \<Rightarrow> ('s \<Rightarrow> int \<Rightarrow> u32 \<Rightarrow> 's option) \<Rightarrow>
    bsm_op list \<Rightarrow> 's \<Rightarrow> ('s \<times> u32 list) option" where
  "bsm_run get put [] st = Some (st, [])"
| "bsm_run get put (Get s # ops) st =
    do { (st1, w) \<leftarrow> get st (int s); (st2, out) \<leftarrow> bsm_run get put ops st1; Some (st2, w # out) }"
| "bsm_run get put (Put s v # ops) st = do { st1 \<leftarrow> put st (int s) v; bsm_run get put ops st1 }"

fun admissible :: "nat \<Rightarrow> ((nat \<Rightarrow> u32) \<Rightarrow> bool) \<Rightarrow> bsm_op list \<Rightarrow> (nat \<Rightarrow> u32) \<Rightarrow> bool" where
  "admissible n fits [] M \<longleftrightarrow> True"
| "admissible n fits (Get s # ops) M \<longleftrightarrow> s < n \<and> admissible n fits ops M"
| "admissible n fits (Put s v # ops) M \<longleftrightarrow> s < n \<and> fits (M(s := v)) \<and> admissible n fits ops (M(s := v))"

locale bad_sector_store =
  fixes rep :: "'s \<Rightarrow> (nat \<Rightarrow> u32) \<Rightarrow> bool"
    and get :: "'s \<Rightarrow> int \<Rightarrow> ('s \<times> u32) option"
    and put :: "'s \<Rightarrow> int \<Rightarrow> u32 \<Rightarrow> 's option"
    and nsegs :: nat
    and fits :: "(nat \<Rightarrow> u32) \<Rightarrow> bool"
  assumes get_law: "rep st M \<Longrightarrow> s < nsegs \<Longrightarrow> \<exists>st'. get st (int s) = Some (st', M s) \<and> rep st' M"
    and put_law: "rep st M \<Longrightarrow> s < nsegs \<Longrightarrow> fits (M(s := v)) \<Longrightarrow>
      \<exists>st'. put st (int s) v = Some st' \<and> rep st' (M(s := v))"
begin

text \<open>Any sequence of accesses returns what the abstract map returns.\<close>

lemma run_refines:
  "rep st M \<Longrightarrow> admissible nsegs fits ops M \<Longrightarrow>
    \<exists>st'. bsm_run get put ops st = Some (st', snd (bsm_spec ops M)) \<and> rep st' (fst (bsm_spec ops M))"
proof (induction ops arbitrary: st M)
  case (Cons op ops)
  show ?case
  proof (cases op)
    case (Get s)
    with Cons.prems obtain st1 where "get st (int s) = Some (st1, M s)" "rep st1 M" using get_law by fastforce
    with Cons Get show ?thesis by (fastforce split: prod.splits)
  next
    case (Put s v)
    with Cons.prems obtain st1 where "put st (int s) v = Some st1" "rep st1 (M(s := v))" using put_law by fastforce
    moreover from this obtain st' where "bsm_run get put ops st1 = Some (st', snd (bsm_spec ops (M(s := v))))"
      "rep st' (fst (bsm_spec ops (M(s := v))))" using Cons.IH Cons.prems(2) Put by fastforce
    ultimately show ?thesis using Put by simp
  qed
qed simp

end

section \<open>The list format implements the map\<close>

text \<open>
  The cached position is the first entry of segment \<open>last_reference\<close> or beyond, and the cached map
  is that segment's map; after \<open>ftape_init_bsm\<close> and \<open>ftape_extract_bad_sector_map\<close> it is the start
  of the list.
\<close>

definition cache_ok :: "bool \<Rightarrow> nat \<Rightarrow> nat \<Rightarrow> ftape_info \<Rightarrow> (nat \<Rightarrow> u32) \<Rightarrow> bool" where
  "cache_ok wide base n ft M \<longleftrightarrow> last_reference ft = -1 \<and> bsm_hash_ptr ft = Some base
    \<or> (\<exists>r<n. last_reference ft = int r \<and> bsm_hash_ptr ft = Some (base + 3 * length (entries wide M 0 r))
         \<and> bsm_map ft = M r)"

definition list_rep :: "ft_format_type \<Rightarrow> nat \<Rightarrow> nat \<Rightarrow> nat \<Rightarrow> ftape_info \<Rightarrow> (nat \<Rightarrow> u32) \<Rightarrow> bool" where
  "list_rep fmt base lim n ft M \<longleftrightarrow> format_code ft = fmt \<and> list_format fmt \<and> used_header_segment ft \<noteq> -1
    \<and> bad_sector_map ft = Some base \<and> length (hseg_buf ft) = lim \<and> n \<le> max_segments
    \<and> list_at (hseg_buf ft) base (entries (wide_format fmt) M 0 n)
    \<and> cache_ok (wide_format fmt) base n ft M"

definition list_fits :: "ft_format_type \<Rightarrow> nat \<Rightarrow> nat \<Rightarrow> nat \<Rightarrow> (nat \<Rightarrow> u32) \<Rightarrow> bool" where
  "list_fits fmt base lim n M \<longleftrightarrow> base + 3 * (length (entries (wide_format fmt) M 0 n) + 1) \<le> lim"

lemma entries_mono: "r \<le> s \<Longrightarrow> length (entries wide M 0 r) \<le> length (entries wide M 0 s)"
proof -
  assume "r \<le> s"
  then have "[0..<s] = [0..<r] @ [r..<s]" by (metis le_add_diff_inverse upt_add_eq_append zero_le)
  then show ?thesis by (simp add: entries_def)
qed

lemma list_get:
  assumes rep: "list_rep fmt base lim n ft M" and s: "s < n"
  shows "\<exists>ft'. ftape_get_bad_sector_entry ft (int s) = Some (ft', M s) \<and> list_rep fmt base lim n ft' M"
proof -
  let ?w = "wide_format fmt" and ?q = "base + 3 * length (entries (wide_format fmt) M 0 s)"
  have r: "format_code ft = fmt" "used_header_segment ft \<noteq> -1" "bad_sector_map ft = Some base" "n \<le> max_segments"
      "list_at (hseg_buf ft) base (entries ?w M 0 n)" "cache_ok ?w base n ft M"
    using rep by (simp_all add: list_rep_def)
  have fwd: "forward_seek_entry fmt (hseg_buf ft) (int s) (base + 3 * k) = Some (?q, M s, count_ones (M s))"
    if "k \<le> length (entries ?w M 0 s)" for k
    using that by (intro forward_seek_list [OF refl r(5) s r(4)])
  have "ftape_get_bad_sector_entry ft (int s) = Some (ft\<lparr>bsm_hash_ptr := Some ?q, bsm_map := M s, last_reference := int s\<rparr>, M s)"
  proof (cases "last_reference ft = -1")
    case True
    then have "bsm_hash_ptr ft = Some base" using r(6) by (auto simp: cache_ok_def)
    with True fwd [of 0] r show ?thesis by (simp add: ftape_get_bad_sector_entry_def)
  next
    case False
    then obtain t where t: "t < n" "last_reference ft = int t"
        "bsm_hash_ptr ft = Some (base + 3 * length (entries ?w M 0 t))" "bsm_map ft = M t"
      using r(6) by (auto simp: cache_ok_def)
    consider "t < s" | "t = s" | "s < t" by linarith
    then show ?thesis
    proof cases
      case 1
      then show ?thesis using fwd [OF entries_mono] t r by (simp add: ftape_get_bad_sector_entry_def)
    next
      case 2
      then show ?thesis using t r by (simp add: ftape_get_bad_sector_entry_def)
    next
      case 3
      then show ?thesis using backwards_seek_list [OF refl r(5), of s t] t r
        by (auto simp: ftape_get_bad_sector_entry_def)
    qed
  qed
  moreover have "list_rep fmt base lim n (ft\<lparr>bsm_hash_ptr := Some ?q, bsm_map := M s, last_reference := int s\<rparr>) M"
    using rep s by (auto simp: list_rep_def cache_ok_def)
  ultimately show ?thesis by blast
qed

lemma list_put:
  assumes rep: "list_rep fmt base lim n ft M" and s: "s < n" and fits: "list_fits fmt base lim n (M(s := v))"
  shows "\<exists>ft'. ftape_put_bad_sector_entry ft (int s) v = Some ft' \<and> list_rep fmt base lim n ft' (M(s := v))"
proof -
  let ?w = "wide_format fmt"
  have r: "format_code ft = fmt" "list_format fmt" "bad_sector_map ft = Some base" "n \<le> max_segments"
      "list_at (hseg_buf ft) base (entries ?w M 0 n)" "length (hseg_buf ft) = lim"
    using rep by (simp_all add: list_rep_def)
  obtain m where m: "put_list_entry fmt (hseg_buf ft) base (int s) v = Some (base + 3 * length (entries ?w M 0 s), m)"
      "list_at m base (entries ?w (M(s := v)) 0 n)" "length m = length (hseg_buf ft)"
    using put_list_entry_list [OF refl r(5) s r(4)] fits r(6) by (auto simp: list_fits_def)
  have "ftape_put_bad_sector_entry ft (int s) v = Some (ft\<lparr>last_reference := int s, bsm_map := v,
      bsm_hash_ptr := Some (base + 3 * length (entries ?w M 0 s)), hseg_buf := m\<rparr>)"
    using r m by (simp add: ftape_put_bad_sector_entry_def)
  moreover have "list_rep fmt base lim n (ft\<lparr>last_reference := int s, bsm_map := v,
      bsm_hash_ptr := Some (base + 3 * length (entries ?w M 0 s)), hseg_buf := m\<rparr>) (M(s := v))"
    using rep m s by (auto simp: list_rep_def cache_ok_def entries_update intro!: exI [of _ s])
  ultimately show ?thesis by blast
qed

interpretation list_store: bad_sector_store "list_rep fmt base lim n" ftape_get_bad_sector_entry
  ftape_put_bad_sector_entry n "list_fits fmt base lim n"
  by unfold_locales (fact list_get list_put)+

section \<open>The array format implements the map\<close>

definition array_rep :: "nat \<Rightarrow> nat \<Rightarrow> ftape_info \<Rightarrow> (nat \<Rightarrow> u32) \<Rightarrow> bool" where
  "array_rep base n ft M \<longleftrightarrow> \<not> list_format (format_code ft) \<and> used_header_segment ft \<noteq> -1
    \<and> bad_sector_map ft = Some base \<and> bsm_hash_ptr ft = None \<and> base + 4 * n \<le> length (hseg_buf ft)
    \<and> (\<forall>s<n. GET4 (hseg_buf ft) (base + 4 * s) = M s)"

lemma array_get:
  assumes "array_rep base n ft M" "s < n"
  shows "\<exists>ft'. ftape_get_bad_sector_entry ft (int s) = Some (ft', M s) \<and> array_rep base n ft' M"
  using assms by (auto simp: array_rep_def ftape_get_bad_sector_entry_def)

lemma array_put:
  assumes rep: "array_rep base n ft M" and s: "s < n"
  shows "\<exists>ft'. ftape_put_bad_sector_entry ft (int s) v = Some ft' \<and> array_rep base n ft' (M(s := v))"
proof -
  have "GET4 (PUT4 (hseg_buf ft) (base + 4 * s) v) (base + 4 * t) = (M(s := v)) t" if "t < n" for t
  proof (cases "t = s")
    case False
    then have "base + 4 * t + 4 \<le> base + 4 * s \<or> base + 4 * s + 4 \<le> base + 4 * t" by arith
    then show ?thesis using rep s that False by (simp add: array_rep_def getput_defs load_store_disjoint)
  qed (use rep s in \<open>simp add: array_rep_def getput_defs load_store_same\<close>)
  then show ?thesis using rep s by (auto simp: array_rep_def ftape_put_bad_sector_entry_def)
qed

interpretation array_store: bad_sector_store "array_rep base n" ftape_get_bad_sector_entry
  ftape_put_bad_sector_entry n "\<lambda>_. True"
  by unfold_locales (use array_get array_put in blast)+

text \<open>Either of the two representations; a look-up leaves the geometry of the tape alone.\<close>

definition bsm_rep :: "ft_format_type \<Rightarrow> nat \<Rightarrow> nat \<Rightarrow> nat \<Rightarrow> ftape_info \<Rightarrow> (nat \<Rightarrow> u32) \<Rightarrow> bool" where
  "bsm_rep fmt base lim n ft M \<longleftrightarrow> list_rep fmt base lim n ft M \<or> array_rep base n ft M"

interpretation bsm_store: bad_sector_store "bsm_rep fmt base lim n" ftape_get_bad_sector_entry
  ftape_put_bad_sector_entry n "list_fits fmt base lim n"
  by unfold_locales (metis bsm_rep_def list_get array_get, metis bsm_rep_def list_put array_put)


section \<open>The theorems of the bad sector map\<close>

lemma get_sector_zero:
  assumes "get_sector m p = Some e"
  shows "e = 0 \<longleftrightarrow> m ! p = 0 \<and> m ! (p + 1) = 0 \<and> m ! (p + 2) = 0"
proof -
  let ?a = "ucast (m ! p) :: u32" and ?b = "push_bit 8 (ucast (m ! (p + 1))) :: u32" and ?c = "push_bit 16 (ucast (m ! (p + 2))) :: u32"
  have e: "e = ?a + ?b + ?c" using assms by (auto simp: get_sector_def split: if_splits)
  have "?a + ?b = ?a OR ?b" by (rule disjunctive_add) (auto simp: bit_simps dest: bit_imp_le_length)
  moreover have "(?a OR ?b) + ?c = (?a OR ?b) OR ?c"
    by (rule disjunctive_add) (auto simp: bit_simps dest: bit_imp_le_length)
  ultimately have e': "e = ?a OR ?b OR ?c" using e by (simp add: or.assoc)
  have "lane 0 e = m ! p" "lane 1 e = m ! (p + 1)" "lane 2 e = m ! (p + 2)"
    unfolding e' using lane_place [of 0, where 'a = 32] lane_place [of 1, where 'a = 32] lane_place [of 2, where 'a = 32]
    by (simp_all add: lane_or)
  then show ?thesis using e' by (auto simp: lane_0)
qed

lemma extract_list_rep:
  assumes "list_format (format_code ft)" "used_header_segment ft \<noteq> -1" "last_reference ft = -1" "n \<le> max_segments"
    and "list_at buffer (if wide_format (format_code ft) then 256 else 2048) (entries (wide_format (format_code ft)) M 0 n)"
  shows "list_rep (format_code ft) (if wide_format (format_code ft) then 256 else 2048) (length buffer) n
    (ftape_extract_bad_sector_map ft buffer) M"
  using assms by (simp add: list_rep_def cache_ok_def ftape_extract_bad_sector_map_def Let_def)

lemma length_entries: "length (entries wide M 0 n) \<le> 32 * n"
proof (induction n)
  case (Suc n)
  have "length (seg_entries wide (M n) n) \<le> 32"
    using count_ones_le [of "M n"] by (simp add: seg_entries_count)
  with Suc show ?case by (simp add: entries_def)
qed (simp add: entries_def)

lemma list_fits_small: "base \<le> 2048 \<Longrightarrow> n \<le> 100 \<Longrightarrow> list_fits fmt base 29696 n M"
  using length_entries [of "wide_format fmt" M n] by (simp add: list_fits_def)

text \<open>
  C7. The bad sector map in list format: on a freshly initialised driver that has decoded a header
  segment with the list for \<open>M\<close>, any sequence of \<open>ftape_get_bad_sector_entry\<close> and
  \<open>ftape_put_bad_sector_entry\<close> calls, in any order of segments, returns what a plain map from
  segments to sector maps returns, as long as the list fits into the header segment. The cached list
  position never makes a difference.
\<close>

theorem bsm_list_refines_map:
  assumes "list_format (format_code ft)" and "used_header_segment ft \<noteq> -1" and "last_reference ft = -1"
    and "n \<le> max_segments"
    and "list_at buffer (if wide_format (format_code ft) then 256 else 2048) (entries (wide_format (format_code ft)) M 0 n)"
    and "admissible n (list_fits (format_code ft) (if wide_format (format_code ft) then 256 else 2048) (length buffer) n) ops M"
  shows "\<exists>ft'. bsm_run ftape_get_bad_sector_entry ftape_put_bad_sector_entry ops (ftape_extract_bad_sector_map ft buffer)
    = Some (ft', snd (bsm_spec ops M))"
  using list_store.run_refines [OF extract_list_rep [OF assms(1-5)] assms(6)] by blast

definition blank_info :: "ft_format_type \<Rightarrow> ftape_info" where
  "blank_info fmt = \<lparr>format_code = fmt, qic_std = QIC_80, ditto_max_ext = False, tape_len = 0,
     segments_per_track = 100, tracks_per_tape = 28, segments_per_head = 600, segments_per_cylinder = 4,
     header_segment_1 = 0, header_segment_2 = 1, used_header_segment = 0, first_data_segment = 2,
     last_data_segment = 2799, hseg_buf = [], bad_sector_map = None, bsm_hash_ptr = None,
     last_reference = -1, bsm_map = 0, driver_state = waiting, old_segment_id = -1, old_driver_state = waiting,
     runner_status = idle, location = \<lparr>loc_track = -1, loc_segment = -1, loc_sector = 0, loc_bot = False,
       loc_eot = False, loc_known = False\<rparr>,
     history = \<lparr>id_am_errors = 0, id_crc_errors = 0, data_am_errors = 0, data_crc_errors = 0, overrun_errors = 0,
       no_data_errors = 0, retries = 0, rewinds = 0, crc_errors = 0, crc_failures = 0, ecc_failures = 0, hist_corrected = 0, defects = 0\<rparr>,
     setup_error = False, current_command = 0, might_be_off_track = True, tape_running = False, last_segment_skipped = -1, ft_ignore_ecc_err = False, ft_soft_retries = 6,
     formatted = True, no_tape = False, new_tape = False, ft_failure = False, ft_write_protected = False, ft_last_write_failed = False,
     data_rate = 500, overrun_count_offset = 0, last_started = 0, ffw_overshoot = 1, min_count = 8, rew_overshoot = 1, min_rewind = 2,
     rew_eot_margin = 4, start_offset = 1, switch_segment = 0\<rparr>"

lemma list_at_zeros: "base + 3 \<le> k \<Longrightarrow> list_at (replicate k 0) base (entries wide (\<lambda>_. 0) a b)"
proof -
  have "entries wide (\<lambda>_. 0) a b = []" by (auto simp: entries_def seg_entries_Nil)
  then show "base + 3 \<le> k \<Longrightarrow> ?thesis" by (simp add: list_at_def get_sector_def)
qed

theorem bsm_list_refines_map_witness:
  "\<exists>ft'. bsm_run ftape_get_bad_sector_entry ftape_put_bad_sector_entry
      [Put 7 3, Put 2 0xffffffff, Get 7, Get 2, Get 3] (ftape_extract_bad_sector_map (blank_info fmt_var) (replicate 29696 0))
    = Some (ft', [3, 0xffffffff, 0])"
proof -
  have adm: "admissible 10 (list_fits fmt_var 256 29696 10) [Put 7 3, Put 2 0xffffffff, Get 7, Get 2, Get 3] (\<lambda>_. 0)"
    by (simp add: list_fits_small)
  have "snd (bsm_spec [Put 7 3, Put 2 0xffffffff, Get 7, Get 2, Get 3] (\<lambda>_. 0)) = [3, 0xffffffff, 0 :: u32]" by code_simp
  with bsm_list_refines_map [of "blank_info fmt_var" 10 "replicate 29696 0" "\<lambda>_. 0"
      "[Put 7 3, Put 2 0xffffffff, Get 7, Get 2, Get 3]"] adm
  show ?thesis by (simp add: blank_info_def list_format_def wide_format_def list_at_zeros)
qed

text \<open>
  C25. The array format (one 32-bit map per segment behind the failed sector log) implements the
  same map for the \<open>n\<close> segments whose entries lie in the buffer.
\<close>

theorem bsm_array_refines_map:
  assumes "\<not> list_format (format_code ft)" and "used_header_segment ft \<noteq> -1" and "2048 + 4 * n \<le> length buffer"
    and "admissible n (\<lambda>_. True) ops (\<lambda>s. GET4 buffer (2048 + 4 * s))"
  shows "\<exists>ft'. bsm_run ftape_get_bad_sector_entry ftape_put_bad_sector_entry ops (ftape_extract_bad_sector_map ft buffer)
    = Some (ft', snd (bsm_spec ops (\<lambda>s. GET4 buffer (2048 + 4 * s))))"
proof -
  have "array_rep 2048 n (ftape_extract_bad_sector_map ft buffer) (\<lambda>s. GET4 buffer (2048 + 4 * s))"
    using assms by (auto simp: array_rep_def ftape_extract_bad_sector_map_def list_format_def wide_format_def Let_def)
  from array_store.run_refines [OF this assms(4)] show ?thesis by blast
qed

theorem bsm_array_refines_map_witness:
  "\<exists>ft'. bsm_run ftape_get_bad_sector_entry ftape_put_bad_sector_entry
      [Put 4 5, Put 3 1, Get 4] (ftape_extract_bad_sector_map (blank_info fmt_normal) (replicate 29696 0))
    = Some (ft', [5])"
  using bsm_array_refines_map [of "blank_info fmt_normal" 100 "replicate 29696 0" "[Put 4 5, Put 3 1, Get 4]"]
  by (simp add: blank_info_def list_format_def)

definition two_bad_sectors :: bytes where
  "two_bad_sectors = replicate 256 0 @ [97, 0, 0, 98, 0, 0, 0, 0, 0]"

lemma list_at_two_bad_sectors: "list_at two_bad_sectors 256 [97, 98]"
  by (auto simp: two_bad_sectors_def list_at_def get_sector_def nth_append le_Suc_eq)

text \<open>
  C34. \<open>ftape_extract_bad_sector_map\<close> resets the cached list position but not \<open>last_reference\<close>.
  When a header segment is decoded after the driver has already accessed segment 100, the first
  look-up of segment 3 searches backwards from the start of the list and reports no bad sectors,
  although the list says that sectors 0 and 1 of segment 3 are bad.
\<close>

theorem bsm_stale_reference:
  "\<exists>ft buffer ft'. last_reference ft = 100 \<and> list_format (format_code ft) \<and> used_header_segment ft \<noteq> -1
    \<and> list_at buffer 256 (entries True ((\<lambda>_. 0)(3 := 3)) 0 10)
    \<and> ftape_get_bad_sector_entry (ftape_extract_bad_sector_map ft buffer) 3 = Some (ft', 0)"
proof -
  let ?ft = "(blank_info fmt_var)\<lparr>last_reference := 100\<rparr>"
  let ?b = two_bad_sectors
  have "entries True ((\<lambda>_. 0)(3 := 3)) 0 10 = [97, 98]" by code_simp
  then have "list_at ?b 256 (entries True ((\<lambda>_. 0)(3 := 3)) 0 10)" by (simp add: list_at_two_bad_sectors)
  moreover have "\<exists>ft'. ftape_get_bad_sector_entry (ftape_extract_bad_sector_map ?ft ?b) 3 = Some (ft', 0)"
    by (simp add: ftape_get_bad_sector_entry_def ftape_extract_bad_sector_map_def blank_info_def list_format_def
        wide_format_def backwards_seek_entry_def)
  moreover have "last_reference ?ft = 100" "list_format (format_code ?ft)" "used_header_segment ?ft \<noteq> -1"
    by (simp_all add: blank_info_def list_format_def)
  ultimately show ?thesis by blast
qed

text \<open>
  \<open>ftape_find_end_of_bsm_list\<close> finds the terminating entry of a list that starts at byte 256,
  however long the list is, provided it ends inside the segment.
\<close>

theorem find_end_of_bsm_list_end:
  assumes "list_at buffer 256 L" and "\<forall>e\<in>set L. e \<noteq> 0" and "256 + 3 * (length L + 1) \<le> FT_SEGMENT_SIZE"
  shows "ftape_find_end_of_bsm_list buffer = Some (256 + 3 * length L)"
proof -
  have "find_end_from buffer (256 + 3 * k) = Some (256 + 3 * length L)" if "k \<le> length L" for k
    using that
  proof (induction "length L - k" arbitrary: k)
    case 0
    then have "k = length L" by simp
    moreover have "get_sector buffer (256 + 3 * length L) = Some 0" using assms(1) by (simp add: list_at_def)
    ultimately show ?case using assms(3) get_sector_zero [of buffer "256 + 3 * k"] by (subst find_end_from.simps) auto
  next
    case (Suc n)
    then have k: "k < length L" by simp
    have "get_sector buffer (256 + 3 * k) = Some (L ! k)" using assms(1) k by (simp add: list_at_def nth_append)
    moreover have "find_end_from buffer (256 + 3 * k + 3) = Some (256 + 3 * length L)"
      using Suc.hyps(1) [of "Suc k"] Suc(2) k by (simp add: ac_simps)
    ultimately show ?case using assms(2,3) k get_sector_zero [of buffer "256 + 3 * k"]
      by (subst find_end_from.simps) auto
  qed
  from this [of 0] show ?thesis by (simp add: ftape_find_end_of_bsm_list_def)
qed

theorem find_end_of_bsm_list_end_witness: "ftape_find_end_of_bsm_list two_bad_sectors = Some 262"
  using find_end_of_bsm_list_end [OF list_at_two_bad_sectors] by simp

end
