(* ===== verification/Ft_Segment.thy ===== *)
theory Ft_Segment
  imports Ft_Bsm
begin

text \<open>
  The transfer of one segment as \<open>src/ftape/lowlevel/ftape-rw.c\<close> prepares it: the buffer structure
  of \<open>src/ftape/lowlevel/fdc-io.h\<close>, the floppy coordinates of a segment, the sectors to skip on a
  retry, the next cluster of good sectors, and the tape position that follows from a sector id or
  from an end-of-tape mark.

  Unsigned C counters are integers; where the source can make one wrap around, \<open>u32_wrap\<close> writes
  it out.
\<close>

unbundle bit_operations_syntax

section \<open>Buffers\<close>

definition u32_wrap :: "int \<Rightarrow> int" where
  "u32_wrap x = x mod 2 ^ 32"

abbreviation FAKE_SEGMENT :: u32 where "FAKE_SEGMENT \<equiv> 0xfffffffe"

record buffer_struct =
  b_status :: buffer_state_enum
  b_bytes :: int
  b_dma_address :: int
  b_ptr :: int
  b_segment_id :: int
  b_bad_sector_map :: u32
  b_soft_error_map :: u32
  b_hard_error_map :: u32
  b_retry :: int
  b_short_start :: bool
  b_skip :: int
  b_data_offset :: int
  b_sector_offset :: int
  b_sector_count :: int
  b_remaining :: int
  b_next_segment :: int
  b_deleted :: bool
  b_head :: u8
  b_cyl :: u8
  b_sect :: u8

section \<open>Setting up a segment\<close>

definition ftape_set_state :: "ftape_info \<Rightarrow> buffer_state_enum \<Rightarrow> ftape_info \<times> buffer_state_enum" where
  "ftape_set_state ft new_state = (ft\<lparr>driver_state := new_state\<rparr>, driver_state ft)"

text \<open>\<open>while (mask)\<close>: shift the offset mask once for every bad sector in \<open>mask\<close>.\<close>

function drop_bad :: "u32 \<Rightarrow> u32 \<Rightarrow> u32" where
  "drop_bad bads offset_mask =
    (if bads = 0 then offset_mask
     else drop_bad (drop_bit 1 bads) (if bads AND 1 \<noteq> 0 then drop_bit 1 offset_mask else offset_mask))"
  by pat_completeness auto
termination by (relation "measure (\<lambda>(m, w). unat m)") simp_all

declare drop_bad.simps [simp del]

definition setup_segment ::
  "ftape_info \<Rightarrow> buffer_struct \<Rightarrow> int \<Rightarrow> int \<Rightarrow> int \<Rightarrow> bool \<Rightarrow> (ftape_info \<times> buffer_struct) option" where
  "setup_segment ft buff segment_id sector_offset sector_count retry =
    do {
      let buff1 = buff\<lparr>b_segment_id := segment_id, b_sector_offset := sector_offset, b_remaining := sector_count,
        b_head := word_of_int (segment_id div segments_per_head ft),
        b_cyl := word_of_int ((segment_id mod segments_per_head ft) div segments_per_cylinder ft),
        b_sect := word_of_int ((segment_id mod segments_per_cylinder ft) * 32 + 1),
        b_deleted := False\<rparr>;
      let offset_mask0 = push_bit (nat sector_offset) 1 - 1;
      (ft1, bad1) \<leftarrow> ftape_get_bad_sector_entry ft segment_id;
      let offset_mask = drop_bad (bad1 AND offset_mask0) offset_mask0;
      let data_offset = int (count_ones offset_mask);
      let buff2 = buff1\<lparr>b_data_offset := data_offset, b_ptr := b_dma_address buff1 + data_offset * 1024\<rparr>;
      let buff3 = (if retry then buff2\<lparr>b_soft_error_map := b_soft_error_map buff2 AND offset_mask\<rparr>
                   else buff2\<lparr>b_hard_error_map := 0, b_soft_error_map := 0\<rparr>);
      (ft2, bad2) \<leftarrow> ftape_get_bad_sector_entry ft1 segment_id;
      let bad3 = (if sector_offset > 0 then drop_bit (nat sector_offset) bad2 else bad2);
      let bad4 = (if bad3 = EMPTY_SEGMENT then FAKE_SEGMENT else bad3);
      Some (ft2\<lparr>setup_error := False\<rparr>, buff3\<lparr>b_bad_sector_map := bad4, b_next_segment := segment_id + 1\<rparr>)
    }"

definition ftape_setup_new_segment ::
  "ftape_info \<Rightarrow> buffer_struct \<Rightarrow> int \<Rightarrow> bool \<Rightarrow> (ftape_info \<times> buffer_struct) option" where
  "ftape_setup_new_segment ft buff segment_id skip =
    (let ft1 = (if driver_state ft \<noteq> old_driver_state ft
                then ft\<lparr>old_segment_id := -1, old_driver_state := driver_state ft\<rparr> else ft)
     in if segment_id = old_segment_id ft1 then
       (let buff1 = buff\<lparr>b_retry := b_retry buff + 1\<rparr>;
            ft2 = ft1\<lparr>history := (history ft1)\<lparr>retries := retries (history ft1) + 1\<rparr>\<rparr>;
            do_skip = (skip \<and> b_skip buff1 > 0);
            force = (do_skip \<and> ft_ignore_ecc_err ft2 \<and> b_skip buff1 > 1 \<and> b_skip buff1 < 31
                     \<and> last_segment_skipped ft2 \<noteq> segment_id);
            ft3 = (if force then ft2\<lparr>last_segment_skipped := segment_id\<rparr> else ft2);
            buff2 = (if force then buff1\<lparr>b_skip := 31\<rparr> else buff1);
            offset = (if do_skip then b_skip buff2 else 0);
            buff3 = buff2\<lparr>b_short_start := (b_short_start buff2 \<and> b_skip buff2 > 0)\<rparr>
        in setup_segment ft3 buff3 segment_id offset (32 - offset) True)
     else
       (let buff1 = buff\<lparr>b_short_start := False, b_retry := 0, b_skip := 0\<rparr>;
            ft2 = ft1\<lparr>old_segment_id := segment_id\<rparr>
        in setup_segment ft2 buff1 segment_id 0 32 False))"

section \<open>Clusters of good sectors\<close>

function skip_bad_sectors :: "u32 \<Rightarrow> int \<Rightarrow> int \<Rightarrow> u32 \<times> int \<times> int" where
  "skip_bad_sectors bmap sector_offset remaining =
    (if remaining > 0 \<and> bmap AND 1 \<noteq> 0
     then skip_bad_sectors (drop_bit 1 bmap) (sector_offset + 1) (remaining - 1)
     else (bmap, sector_offset, remaining))"
  by pat_completeness auto
termination by (relation "measure (\<lambda>(m, o', r). nat r)") auto

function cluster_size :: "u32 \<Rightarrow> int \<Rightarrow> int \<Rightarrow> int" where
  "cluster_size bmap sector_count remaining =
    (if sector_count < remaining \<and> bmap AND 1 = 0
     then cluster_size (drop_bit 1 bmap) (sector_count + 1) remaining else sector_count)"
  by pat_completeness auto
termination by (relation "measure (\<lambda>(m, c, r). nat (r - c))") auto

declare skip_bad_sectors.simps [simp del] cluster_size.simps [simp del]

definition ftape_calc_next_cluster :: "buffer_struct \<Rightarrow> buffer_struct \<times> int" where
  "ftape_calc_next_cluster buff =
    (case skip_bad_sectors (b_bad_sector_map buff) (b_sector_offset buff) (b_remaining buff) of
       (bmap, sector_offset, remaining) \<Rightarrow>
         let count = (if bmap = 0 then remaining else cluster_size bmap 0 remaining)
         in (buff\<lparr>b_bad_sector_map := bmap, b_sector_offset := sector_offset, b_remaining := remaining,
                  b_sector_count := count\<rparr>, count))"

section \<open>Where the tape is\<close>

text \<open>
  The position from a sector id in \<open>ftape_read_id\<close>, when the controller has found one (sector
  numbers start at 1; 0 means that no id was read).
\<close>

definition read_id_location :: "ftape_info \<Rightarrow> u8 \<Rightarrow> u8 \<Rightarrow> u8 \<Rightarrow> location_record" where
  "read_id_location ft fdc_head fdc_cyl fdc_sect =
    (location ft)\<lparr>loc_known := True,
      loc_segment := segments_per_head ft * uint fdc_head + segments_per_cylinder ft * uint fdc_cyl
        + (uint fdc_sect - 1) div 32,
      loc_sector := (uint fdc_sect - 1) mod 32, loc_eot := False, loc_bot := False\<rparr>"

text \<open>
  \<open>check_bot_eot\<close>: at an end mark the logical position follows from the track's direction. The
  segment number is computed with the unsigned \<open>segments_per_track\<close> and stored in an \<open>int\<close>.
\<close>

definition check_bot_eot :: "ftape_info \<Rightarrow> bool \<Rightarrow> bool \<Rightarrow> location_record" where
  "check_bot_eot ft bot_mark eot_mark =
    (let l = location ft in
     if bot_mark \<or> eot_mark then
       (let bot = (if loc_track l mod 2 = 0 then bot_mark else eot_mark)
        in l\<lparr>loc_bot := bot, loc_eot := \<not> bot,
             loc_segment := sint (word_of_int (loc_track l + (if bot then 0 else 1)) * segments_per_track ft - 1),
             loc_sector := -1, loc_known := True\<rparr>)
     else l\<lparr>loc_known := False\<rparr>)"

text \<open>\<open>ftape_handle_logical_eot\<close>: \<open>ready\<close> is what \<open>ftape_ready_wait\<close> yields, the drive status or an error.\<close>

definition ftape_handle_logical_eot :: "ftape_info \<Rightarrow> (bool \<times> bool) result \<Rightarrow> ftape_info \<times> unit result" where
  "ftape_handle_logical_eot ft ready =
    (let fin = (\<lambda>ft. if runner_status ft = end_of_tape then ft\<lparr>runner_status := idle\<rparr> else ft)
     in if runner_status ft = logical_eot then
       (case ready of
          Inl e \<Rightarrow> (ft, Inl e)
        | Inr (bot_mark, eot_mark) \<Rightarrow>
            if \<not> bot_mark \<and> \<not> eot_mark then (ft, Inl EIO)
            else (fin (ft\<lparr>runner_status := end_of_tape\<rparr>), Inr ()))
     else (fin ft, Inr ()))"

section \<open>Properties of the segment set-up\<close>

lemma and_1_bit: "w AND 1 \<noteq> 0 \<longleftrightarrow> bit (w :: u32) 0"
  by (auto simp: and_one_eq bit_0 mod2_eq_if)

lemma drop_bad_count: "drop_bad bads w = drop_bit (count_ones bads) w"
proof (induction bads w rule: drop_bad.induct)
  case (1 bads w)
  show ?case
  proof (cases "bads = 0")
    case False
    have "count_ones bads = (if bit bads 0 then 1 else 0) + count_ones (drop_bit 1 bads)"
      using False by (subst count_ones.simps) simp
    with 1 False show ?thesis
      by (subst drop_bad.simps) (simp add: and_1_bit drop_bit_drop_bit del: drop_bit_Suc)
  qed (simp add: drop_bad.simps)
qed

lemma count_ones_low_mask: "n \<le> 32 \<Longrightarrow> count_ones (mask n :: u32) = n"
  by (simp add: count_ones_card bit_mask_iff Collect_conj_eq lessThan_def [symmetric] min_def
      inf_absorb1 lessThan_subset_iff flip: atLeast0LessThan)

lemma low_mask: "push_bit n 1 - 1 = (mask n :: u32)"
  by (simp add: mask_eq_exp_minus_1)

text \<open>The offset of the data: the good sectors among the first \<open>k\<close>.\<close>

lemma data_offset_count:
  assumes "k \<le> 32"
  shows "count_ones (drop_bad (bad AND mask k) (mask k)) = card {i. i < k \<and> \<not> bit (bad :: u32) i}"
proof -
  let ?B = "{i. i < k \<and> bit bad i}"
  have c: "count_ones (bad AND mask k) = card ?B"
    using assms by (auto simp: count_ones_card bit_and_iff bit_mask_iff intro!: arg_cong [where f = card])
  have "card ?B \<le> k" using card_mono [of "{..<k}" ?B] by auto
  have "drop_bit (card ?B) (mask k :: u32) = mask (k - card ?B)"
    by (rule bit_word_eqI) (use assms in \<open>auto simp: bit_simps\<close>)
  then have "count_ones (drop_bad (bad AND mask k) (mask k)) = k - card ?B"
    using assms by (simp add: drop_bad_count c count_ones_low_mask)
  moreover have "{i. i < k \<and> \<not> bit bad i} = {..<k} - ?B" by auto
  then have "card {i. i < k \<and> \<not> bit bad i} = k - card ?B"
    using card_Diff_subset [of ?B "{..<k}"] by auto
  ultimately show ?thesis by simp
qed

lemma skip_bad_sectors_spec:
  assumes "skip_bad_sectors m off n = (m', off', n')" "0 \<le> n"
  shows "off \<le> off'" "off' + n' = off + n" "0 \<le> n'" "m' = drop_bit (nat (off' - off)) m"
    "\<forall>i < nat (off' - off). bit m i" "n' = 0 \<or> \<not> bit m' 0"
proof -
  have "off \<le> off' \<and> off' + n' = off + n \<and> 0 \<le> n' \<and> m' = drop_bit (nat (off' - off)) m
    \<and> (\<forall>i < nat (off' - off). bit m i) \<and> (n' = 0 \<or> \<not> bit m' 0)"
    using assms
  proof (induction m off n rule: skip_bad_sectors.induct)
    case (1 m off n)
    show ?case
    proof (cases "n > 0 \<and> m AND 1 \<noteq> 0")
      case True
      then have "skip_bad_sectors (drop_bit 1 m) (off + 1) (n - 1) = (m', off', n')"
        using "1.prems" by (subst (asm) skip_bad_sectors.simps) simp
      with 1 True have IH: "off + 1 \<le> off'" "off' + n' = off + n" "0 \<le> n'"
          "m' = drop_bit (nat (off' - off - 1)) (drop_bit 1 m)"
          "\<forall>i < nat (off' - off - 1). bit (drop_bit 1 m) i" "n' = 0 \<or> \<not> bit m' 0"
        by (auto simp: algebra_simps)
      have sz: "nat (off' - off) = Suc (nat (off' - off - 1))" using IH(1) by simp
      have "bit m i" if "i < nat (off' - off)" for i
        using that True IH(5) sz by (cases i) (auto simp: and_1_bit bit_simps)
      with IH show ?thesis by (simp add: sz drop_bit_drop_bit)
    next
      case False
      then have "(m, off, n) = (m', off', n')" using "1.prems" by (subst (asm) skip_bad_sectors.simps) auto
      with False 1 show ?thesis by (auto simp: and_1_bit)
    qed
  qed
  then show "off \<le> off'" "off' + n' = off + n" "0 \<le> n'" "m' = drop_bit (nat (off' - off)) m"
    "\<forall>i < nat (off' - off). bit m i" "n' = 0 \<or> \<not> bit m' 0" by auto
qed

lemma cluster_size_spec:
  assumes "c \<le> n"
  shows "c \<le> cluster_size m c n \<and> cluster_size m c n \<le> n
    \<and> (\<forall>i < nat (cluster_size m c n - c). \<not> bit m i)
    \<and> (cluster_size m c n = n \<or> bit m (nat (cluster_size m c n - c)))"
  using assms
proof (induction m c n rule: cluster_size.induct)
  case (1 m c n)
  show ?case
  proof (cases "c < n \<and> m AND 1 = 0")
    case True
    let ?r = "cluster_size (drop_bit 1 m) (c + 1) n"
    have eq: "cluster_size m c n = ?r" using True by (subst cluster_size.simps) simp
    have IH: "c + 1 \<le> ?r" "?r \<le> n" "\<forall>i < nat (?r - (c + 1)). \<not> bit (drop_bit 1 m) i"
        "?r = n \<or> bit (drop_bit 1 m) (nat (?r - (c + 1)))" using 1 True by auto
    have sz: "nat (?r - c) = Suc (nat (?r - (c + 1)))" using IH(1) by simp
    have b0: "\<not> bit m 0" using True and_1_bit by blast
    have "\<not> bit m i" if "i < nat (?r - c)" for i
      using that IH(3) sz b0 by (cases i) (auto simp: bit_simps)
    moreover have "?r = n \<or> bit m (nat (?r - c))" using IH(4) unfolding sz by (auto simp: bit_simps)
    ultimately show ?thesis unfolding eq using IH(1,2) by auto
  next
    case False
    then have "cluster_size m c n = c" by (subst cluster_size.simps) auto
    with False 1 and_1_bit [of m] show ?thesis by auto
  qed
qed


text \<open>
  On a retry with \<open>offset\<close> sectors to skip, \<open>setup_segment\<close> computes the position in the
  buffer from the good sectors alone: the data offset is the number of good sectors among the
  first \<open>offset\<close>, and the DMA pointer is that many sectors behind the start of the buffer.
\<close>

theorem setup_segment_data_offset:
  assumes "setup_segment ft buff segment_id offset n retry = Some (ft', buff')"
    and "0 \<le> offset" "offset < 32" and "ftape_get_bad_sector_entry ft segment_id = Some (ft1, bad)"
  shows "b_data_offset buff' = int (card {i. i < nat offset \<and> \<not> bit bad i})
    \<and> b_ptr buff' = b_dma_address buff + 1024 * b_data_offset buff'
    \<and> b_sector_offset buff' = offset \<and> b_remaining buff' = n \<and> \<not> setup_error ft'"
proof -
  have "nat offset \<le> 32" using assms(2,3) by simp
  note c = data_offset_count [OF this, of bad]
  show ?thesis
    using assms(1,4) c unfolding setup_segment_def low_mask
    by (cases "ftape_get_bad_sector_entry ft1 segment_id") (auto simp: Let_def)
qed

definition blank_buffer :: buffer_struct where
  "blank_buffer = \<lparr>b_status = waiting, b_bytes = 0, b_dma_address = 4096, b_ptr = 4096, b_segment_id = 0, b_bad_sector_map = 0,
       b_soft_error_map = 0, b_hard_error_map = 0, b_retry = 0, b_short_start = False, b_skip = 0, b_data_offset = 0,
       b_sector_offset = 0, b_sector_count = 0, b_remaining = 0, b_next_segment = 0, b_deleted = False,
       b_head = 0, b_cyl = 0, b_sect = 0\<rparr>"

theorem setup_segment_data_offset_witness:
  "\<exists>ft' buff'. setup_segment ((blank_info fmt_normal)\<lparr>used_header_segment := -1\<rparr>) blank_buffer 1 5 27 True
    = Some (ft', buff') \<and> b_data_offset buff' = 5 \<and> b_ptr buff' = 4096 + 5 * 1024"
proof -
  let ?ft = "(blank_info fmt_normal)\<lparr>used_header_segment := -1\<rparr>" and ?b = blank_buffer
  have get: "ftape_get_bad_sector_entry ?ft 1 = Some (?ft, 0)"
    by (simp add: ftape_get_bad_sector_entry_def)
  then obtain ft' buff' where s: "setup_segment ?ft ?b 1 5 27 True = Some (ft', buff')"
    by (auto simp: setup_segment_def Let_def)
  from setup_segment_data_offset [OF s _ _ get] s show ?thesis by (auto simp: blank_buffer_def)
qed

lemma calc_next_cluster_facts:
  assumes "b_bad_sector_map buff = drop_bit (nat (b_sector_offset buff)) bad"
    and "0 \<le> b_sector_offset buff" "0 \<le> b_remaining buff"
    and "ftape_calc_next_cluster buff = (buff', n)"
  shows "b_sector_offset buff' + b_remaining buff' = b_sector_offset buff + b_remaining buff
    \<and> b_sector_offset buff \<le> b_sector_offset buff' \<and> 0 \<le> n \<and> n \<le> b_remaining buff'
    \<and> (\<forall>i. nat (b_sector_offset buff) \<le> i \<longrightarrow> i < nat (b_sector_offset buff') \<longrightarrow> bit bad i)
    \<and> (\<forall>i. nat (b_sector_offset buff') \<le> i \<longrightarrow> i < nat (b_sector_offset buff' + n) \<longrightarrow> \<not> bit bad i)
    \<and> (n = b_remaining buff' \<or> bit bad (nat (b_sector_offset buff' + n)))
    \<and> b_bad_sector_map buff' = drop_bit (nat (b_sector_offset buff')) bad
    \<and> (n = 0 \<longrightarrow> b_remaining buff' = 0)"
proof -
  obtain m off r where sk: "skip_bad_sectors (b_bad_sector_map buff) (b_sector_offset buff) (b_remaining buff) = (m, off, r)"
    by (metis prod_cases3)
  let ?o = "b_sector_offset buff"
  note s = skip_bad_sectors_spec [OF sk assms(3)]
  have off: "nat off = nat ?o + nat (off - ?o)" using s(1) assms(2) by simp
  have m: "m = drop_bit (nat off) bad" using s(4) assms(1) off by (simp add: drop_bit_drop_bit add.commute)
  have cl: "0 \<le> n \<and> n \<le> r \<and> (\<forall>i < nat n. \<not> bit m i) \<and> (n = r \<or> bit m (nat n))"
    using assms(4) sk s(3) cluster_size_spec [of 0 r m]
    by (auto simp: ftape_calc_next_cluster_def Let_def split: if_splits)
  have b: "b_sector_offset buff' = off" "b_remaining buff' = r" "b_bad_sector_map buff' = m"
    using assms(4) sk by (auto simp: ftape_calc_next_cluster_def Let_def)
  have skipped: "bit bad i" if "nat ?o \<le> i" "i < nat off" for i
    using s(5) [rule_format, of "i - nat ?o"] that off assms(1) by (auto simp: bit_simps)
  have good: "\<not> bit bad i" if "nat off \<le> i" "i < nat (off + n)" for i
  proof -
    have "i - nat off < nat n" using that cl s(1) assms(2) by (simp add: nat_add_distrib less_diff_conv2)
    then show ?thesis using cl that by (auto simp: m bit_simps)
  qed
  have ends: "n = r \<or> bit bad (nat (off + n))"
    using cl s(1) assms(2) by (auto simp: m bit_simps nat_add_distrib)
  have "r = 0" if "n = 0" using that cl s(6) by auto
  with s b cl m skipped good ends show ?thesis by auto
qed

text \<open>
  C26. \<open>ftape_calc_next_cluster\<close> finds the next run of good sectors: what it skips is bad, the
  cluster itself is good in all its sectors, and it ends at a bad sector or at the end of the
  segment. The number of sectors behind and ahead of the position always adds up.
\<close>

theorem calc_next_cluster_spec:
  assumes "b_bad_sector_map buff = drop_bit (nat (b_sector_offset buff)) bad"
    and "0 \<le> b_sector_offset buff" "0 \<le> b_remaining buff"
    and "ftape_calc_next_cluster buff = (buff', n)"
  shows "b_sector_offset buff' + b_remaining buff' = b_sector_offset buff + b_remaining buff
    \<and> b_sector_offset buff \<le> b_sector_offset buff' \<and> 0 \<le> n \<and> n \<le> b_remaining buff'
    \<and> (\<forall>i. nat (b_sector_offset buff) \<le> i \<longrightarrow> i < nat (b_sector_offset buff') \<longrightarrow> bit bad i)
    \<and> (\<forall>i. nat (b_sector_offset buff') \<le> i \<longrightarrow> i < nat (b_sector_offset buff' + n) \<longrightarrow> \<not> bit bad i)
    \<and> (n = b_remaining buff' \<or> bit bad (nat (b_sector_offset buff' + n)))
    \<and> b_bad_sector_map buff' = drop_bit (nat (b_sector_offset buff')) bad
    \<and> (n = 0 \<longrightarrow> b_remaining buff' = 0)"
  using assms by (rule calc_next_cluster_facts)

theorem calc_next_cluster_spec_witness:
  "\<exists>buff'. ftape_calc_next_cluster (blank_buffer\<lparr>b_bad_sector_map := 0x13, b_remaining := 32\<rparr>) = (buff', 2)
    \<and> b_sector_offset buff' = 2 \<and> b_remaining buff' = 30 \<and> b_sector_offset buff' + b_remaining buff' = 32"
proof -
  let ?b = "blank_buffer\<lparr>b_bad_sector_map := 0x13, b_remaining := 32\<rparr>"
  have "ftape_calc_next_cluster ?b = (?b\<lparr>b_bad_sector_map := 4, b_sector_offset := 2, b_remaining := 30, b_sector_count := 2\<rparr>, 2)"
    by (simp add: ftape_calc_next_cluster_def blank_buffer_def skip_bad_sectors.simps cluster_size.simps)
  with calc_next_cluster_spec [OF _ _ _ this, of "0x13"] show ?thesis by (simp add: blank_buffer_def)
qed

section \<open>Floppy coordinates\<close>

text \<open>What \<open>ftape_decode_header_segment\<close> establishes of the geometry: enough for all coordinates to fit a byte.\<close>

definition geometry_ok :: "ftape_info \<Rightarrow> bool" where
  "geometry_ok ft \<longleftrightarrow> 0 < segments_per_cylinder ft \<and> segments_per_cylinder ft * 32 \<le> 255
    \<and> segments_per_cylinder ft dvd segments_per_head ft \<and> 0 < segments_per_head ft
    \<and> segments_per_head ft div segments_per_cylinder ft \<le> 256"

lemma coordinates_roundtrip:
  assumes g: "geometry_ok ft" and seg: "0 \<le> seg" "seg div segments_per_head ft < 256"
  shows "segments_per_head ft * uint (word_of_int (seg div segments_per_head ft) :: u8)
      + segments_per_cylinder ft * uint (word_of_int ((seg mod segments_per_head ft) div segments_per_cylinder ft) :: u8)
      + (uint (word_of_int ((seg mod segments_per_cylinder ft) * 32 + 1) :: u8) - 1) div 32 = seg"
    and "(uint (word_of_int ((seg mod segments_per_cylinder ft) * 32 + 1) :: u8) - 1) mod 32 = 0"
proof -
  let ?h = "segments_per_head ft" and ?c = "segments_per_cylinder ft"
  have pos: "0 < ?h" "0 < ?c" "?c * 32 \<le> 255" "?c dvd ?h" using g by (auto simp: geometry_ok_def)
  have u: "uint (word_of_int x :: u8) = x" if "0 \<le> x" "x < 256" for x
    using that by (simp add: uint_word_of_int)
  obtain k where k: "?h = ?c * k" using pos(4) by (metis dvdE)
  have k0: "0 < k" using pos k by (simp add: zero_less_mult_iff)
  have k256: "k \<le> 256" using g k pos(2) by (simp add: geometry_ok_def)
  have split: "seg mod ?h = ?c * (seg div ?c mod k) + seg mod ?c"
    unfolding k using k0 by (simp add: zmod_zmult2_eq)
  have cyl: "(seg mod ?h) div ?c = seg div ?c mod k" using pos(2) by (simp add: split)
  have cyl_range: "0 \<le> seg div ?c mod k" "seg div ?c mod k < 256" using k0 k256 by (auto intro: less_le_trans [OF pos_mod_bound])
  have "seg mod ?c < ?c" "0 \<le> seg mod ?c" using pos(2) by simp_all
  then have sect: "uint (word_of_int ((seg mod ?c) * 32 + 1) :: u8) = (seg mod ?c) * 32 + 1"
    using pos(3) by (intro u) auto
  have head: "uint (word_of_int (seg div ?h) :: u8) = seg div ?h"
    using seg pos(1) by (intro u) (auto simp: pos_imp_zdiv_nonneg_iff)
  show "(uint (word_of_int ((seg mod ?c) * 32 + 1) :: u8) - 1) mod 32 = 0" unfolding sect by simp
  have "?h * (seg div ?h) + (?c * (seg div ?c mod k) + seg mod ?c) = seg" unfolding split [symmetric] by simp
  then show "?h * uint (word_of_int (seg div ?h) :: u8) + ?c * uint (word_of_int ((seg mod ?h) div ?c) :: u8)
      + (uint (word_of_int ((seg mod ?c) * 32 + 1) :: u8) - 1) div 32 = seg"
    unfolding head sect cyl u [OF cyl_range] by simp
qed

lemma setup_segment_coordinates:
  assumes "geometry_ok ft" and "0 \<le> seg" and "seg div segments_per_head ft < 256"
    and "setup_segment ft buff seg offset n retry = Some (ft', buff')"
  shows "loc_segment (read_id_location ft (b_head buff') (b_cyl buff') (b_sect buff')) = seg
    \<and> loc_sector (read_id_location ft (b_head buff') (b_cyl buff') (b_sect buff')) = 0"
proof -
  have "b_head buff' = word_of_int (seg div segments_per_head ft)"
    "b_cyl buff' = word_of_int ((seg mod segments_per_head ft) div segments_per_cylinder ft)"
    "b_sect buff' = word_of_int ((seg mod segments_per_cylinder ft) * 32 + 1)"
    using assms(4) unfolding setup_segment_def by (auto simp: Let_def bind_eq_Some_conv)
  with coordinates_roundtrip [OF assms(1-3)] show ?thesis by (simp add: read_id_location_def)
qed

text \<open>
  C27. Round trip of the floppy coordinates: when the controller finds, at the head and cylinder
  that \<open>setup_segment\<close> computed for a segment, the sector where the segment starts, \<open>ftape_read_id\<close>
  computes the number of that segment again, with sector offset 0.
\<close>

theorem read_id_setup_segment:
  assumes "geometry_ok ft" and "0 \<le> seg" and "seg div segments_per_head ft < 256"
    and "setup_segment ft buff seg offset n retry = Some (ft', buff')"
  shows "loc_segment (read_id_location ft (b_head buff') (b_cyl buff') (b_sect buff')) = seg
    \<and> loc_sector (read_id_location ft (b_head buff') (b_cyl buff') (b_sect buff')) = 0"
  using assms by (rule setup_segment_coordinates)

theorem read_id_setup_segment_witness:
  "\<exists>ft' buff'. setup_segment ((blank_info fmt_normal)\<lparr>used_header_segment := -1\<rparr>) blank_buffer 1234 0 32 False
      = Some (ft', buff')
    \<and> loc_segment (read_id_location (blank_info fmt_normal) (b_head buff') (b_cyl buff') (b_sect buff')) = 1234"
proof -
  let ?ft = "(blank_info fmt_normal)\<lparr>used_header_segment := -1\<rparr>" and ?b = blank_buffer
  have "ftape_get_bad_sector_entry ?ft 1234 = Some (?ft, 0)"
    by (simp add: ftape_get_bad_sector_entry_def)
  then obtain ft' buff' where s: "setup_segment ?ft ?b 1234 0 32 False = Some (ft', buff')"
    by (auto simp: setup_segment_def Let_def)
  have "geometry_ok ?ft" by (simp add: geometry_ok_def blank_info_def)
  from read_id_setup_segment [OF this _ _ s] s show ?thesis
    by (simp add: blank_info_def read_id_location_def)
qed

end
