(* ===== verification/Ft_Header.thy ===== *)
theory Ft_Header
  imports Ft_Segment
begin

text \<open>
  Decoding the header segment of a cartridge, \<open>ftape_decode_header_segment\<close> of
  \<open>src/ftape/lowlevel/ftape-read.c\<close>: signature, Ditto 2GB decryption, segment numbers, tape
  geometry with the work-arounds for headers written by other software, the consistency check, and
  the bad sector map. The outcome \<open>None\<close> is a division by zero, which the source commits before it
  tests the divisor.
\<close>

unbundle bit_operations_syntax

section \<open>The routine\<close>

abbreviation FT_HSEG_MAGIC :: u32 where "FT_HSEG_MAGIC \<equiv> 0xaa55aa55"
abbreviation FT_D2G_MAGIC :: u32 where "FT_D2G_MAGIC \<equiv> 0x82288228"

definition ditto_decrypt :: "bytes \<Rightarrow> bytes" where
  "ditto_decrypt address =
    PUT4 (map (\<lambda>i. if 256 \<le> i \<and> i < 29 * FT_SECTOR_SIZE then NOT (address ! i - word_of_nat i) else address ! i)
      [0..<length address]) 0 FT_HSEG_MAGIC"

text \<open>The \<open>switch (ftape->format_code)\<close> that determines the tape length; \<open>None\<close> is the unknown format.\<close>

definition segments_per_1000_feet :: "qic_std_t \<Rightarrow> u32" where
  "segments_per_1000_feet std = (case std of QIC_UNKNOWN \<Rightarrow> 332 | QIC_40 \<Rightarrow> 332 | QIC_80 \<Rightarrow> 488
     | QIC_3010 \<Rightarrow> 730 | QIC_3020 \<Rightarrow> 1430 | DITTO_MAX \<Rightarrow> 1940)"

definition header_tape_len :: "ftape_info \<Rightarrow> u32 option" where
  "header_tape_len ft = (case format_code ft of
       fmt_425ft \<Rightarrow> Some 425
     | fmt_normal \<Rightarrow> Some (if tape_len ft = 0 then 205 else tape_len ft)
     | fmt_1100ft \<Rightarrow> Some 1100
     | fmt_big \<Rightarrow> Some ((1000 * segments_per_track ft + (segments_per_1000_feet (qic_std ft) - 1))
         div segments_per_1000_feet (qic_std ft))
     | fmt_var \<Rightarrow> Some ((1000 * segments_per_track ft + (segments_per_1000_feet (qic_std ft) - 1))
         div segments_per_1000_feet (qic_std ft))
     | fmt_unknown b \<Rightarrow> None)"

text \<open>
  The work-arounds, in the order of the source. A geometry is the driver record with the header's
  maximal floppy side, track and sector.
\<close>

type_synonym geometry = "ftape_info \<times> u32 \<times> u32 \<times> u32"

definition empty_geometry :: "geometry \<Rightarrow> geometry" where
  "empty_geometry g = (case g of (ft, side, track, sector) \<Rightarrow>
     if segments_per_track ft = 0 \<and> tracks_per_tape ft = 0 \<and> side = 0 \<and> track = 0 \<and> sector = 0 then
       (if last_data_segment ft = 2799
        then (ft\<lparr>segments_per_track := 100, tracks_per_tape := 28\<rparr>, 4, 149, 128)
        else (ft\<lparr>segments_per_track := 68, tracks_per_tape := 20\<rparr>, 1, 169, 128))
     else g)"

definition fix_geometry :: "bool \<Rightarrow> u32 \<Rightarrow> u32 \<Rightarrow> u32 \<Rightarrow> u32 \<Rightarrow> u32 \<Rightarrow> u32 \<times> u32 \<Rightarrow> geometry \<Rightarrow> geometry" where
  "fix_geometry fmt_ok spt tpt side track sector new g = (case g of (ft, side', track', sector') \<Rightarrow>
     if fmt_ok \<and> segments_per_track ft = spt \<and> tracks_per_tape ft = tpt
       \<and> side' = side \<and> track' = track \<and> sector' = sector
     then (ft, fst new, snd new, sector') else g)"

definition header_workarounds :: "geometry \<Rightarrow> geometry" where
  "header_workarounds g0 =
    (let g1 = empty_geometry g0;
         fmt = format_code (fst g1);
         g2 = fix_geometry True 150 28 7 149 128 (6, 149) g1;
         g3 = fix_geometry True 100 28 9 149 128 (4, 149) g2;
         g4 = fix_geometry True 150 28 9 149 128 (6, 149) g3;
         g5 = fix_geometry True 150 28 6 150 128 (6, 149) g4;
         g6 = fix_geometry True 150 28 6 254 128 (6, 149) g5;
         g7 = fix_geometry (wide_format fmt) (segments_per_track (fst g6)) 50 54 255 128 (54, 254) g6
     in fix_geometry (fmt = fmt_big) 1414 62 2 254 128 (85, 254) g7)"

text \<open>From the geometry on: \<open>segments_per_head\<close>, the side that is off by one, the consistency check.\<close>

definition verify_geometry :: "geometry \<Rightarrow> (ftape_info \<times> unit result) option" where
  "verify_geometry g = (case g of (ft0, side0, track, sector) \<Rightarrow>
     let sph = (sector div 32) * (track + 1);
         ft = ft0\<lparr>segments_per_head := sint sph\<rparr>
     in if sph = 0 then None
        else
          (let should_be = (segments_per_track ft * tracks_per_tape ft - 1) div sph;
               side = (if side0 - should_be = 1 then side0 - 1 else side0);
               spc = segments_per_cylinder ft
           in if spc = 0 \<or> should_be \<noteq> side
                \<or> word_of_int (segments_per_head ft div spc - 1) \<noteq> track
                \<or> word_of_int (spc * 32) \<noteq> sector
              then Some (ft, Inl EIO) else Some (ft, Inr ())))"

text \<open>The fields of the header that are copied into the record, with the Ditto-Max special case.\<close>

definition header_fields :: "ftape_info \<Rightarrow> bytes \<Rightarrow> ftape_info" where
  "header_fields ft0 address =
    (let ft1 = ft0\<lparr>format_code := ft_format_code (address ! 4)\<rparr>;
         ft2 = (if format_code ft1 \<noteq> fmt_big then
             ft1\<lparr>header_segment_1 := uint (GET2 address 6), header_segment_2 := uint (GET2 address 8),
                 first_data_segment := uint (GET2 address 10), last_data_segment := uint (GET2 address 12)\<rparr>
           else
             ft1\<lparr>header_segment_1 := sint (GET4 address 234), header_segment_2 := sint (GET4 address 238),
                 first_data_segment := sint (GET4 address 242), last_data_segment := sint (GET4 address 246)\<rparr>);
         ft3 = ft2\<lparr>segments_per_track := ucast (GET2 address 24), tracks_per_tape := ucast (address ! 26)\<rparr>
     in if tracks_per_tape ft3 > 50 \<and> ditto_max_ext ft3 then ft3\<lparr>qic_std := DITTO_MAX\<rparr> else ft3)"

definition ftape_decode_header_segment :: "ftape_info \<Rightarrow> bytes \<Rightarrow> (ftape_info \<times> bytes \<times> unit result) option" where
  "ftape_decode_header_segment ft0 address0 =
    (if GET4 address0 0 \<noteq> FT_D2G_MAGIC \<and> GET4 address0 0 \<noteq> FT_HSEG_MAGIC then Some (ft0, address0, Inl EIO)
     else
       (let address = (if GET4 address0 0 = FT_D2G_MAGIC then ditto_decrypt address0 else address0);
            ft = header_fields ft0 address
        in case header_tape_len ft of
             None \<Rightarrow> Some (ft, address, Inl EIO)
           | Some len \<Rightarrow>
               (case verify_geometry (header_workarounds (ft\<lparr>tape_len := len\<rparr>, ucast (address ! 27),
                    ucast (address ! 28), ucast (address ! 29))) of
                  None \<Rightarrow> None
                | Some (ft', Inl e) \<Rightarrow> Some (ft', address, Inl e)
                | Some (ft', Inr u) \<Rightarrow> Some (ftape_extract_bad_sector_map ft' address, address, Inr u))))"

section \<open>What a successful decode establishes\<close>

text \<open>The three floppy maxima fit a byte, through all work-arounds.\<close>

definition byte_geometry :: "ft_format_type \<Rightarrow> geometry \<Rightarrow> bool" where
  "byte_geometry fmt g \<longleftrightarrow> (case g of (ft, side, track, sector) \<Rightarrow> side \<le> 255 \<and> track \<le> 255 \<and> sector \<le> 255
     \<and> segments_per_cylinder ft = 4 \<and> format_code ft = fmt)"

lemma empty_geometry_byte: "byte_geometry fmt g \<Longrightarrow> byte_geometry fmt (empty_geometry g)"
  by (auto simp: byte_geometry_def empty_geometry_def split: prod.splits)

lemma fix_geometry_byte:
  "byte_geometry fmt g \<Longrightarrow> fst new \<le> 255 \<Longrightarrow> snd new \<le> 255 \<Longrightarrow>
    byte_geometry fmt (fix_geometry ok spt tpt side track sector new g)"
  by (auto simp: byte_geometry_def fix_geometry_def split: prod.splits)

lemma header_workarounds_byte: "byte_geometry fmt g \<Longrightarrow> byte_geometry fmt (header_workarounds g)"
  by (simp add: header_workarounds_def Let_def empty_geometry_byte fix_geometry_byte)

lemma verify_geometry_ok:
  assumes v: "verify_geometry g = Some (ft, Inr ())" and b: "byte_geometry fmt g"
  shows "geometry_ok ft \<and> format_code ft = fmt \<and> (\<forall>seg. 0 \<le> seg \<longrightarrow> seg < uint (segments_per_track ft * tracks_per_tape ft) \<longrightarrow>
    seg div segments_per_head ft < 256)"
proof -
  obtain ft0 side0 track sector where g: "g = (ft0, side0, track, sector)" by (metis prod_cases4)
  let ?sph = "(sector div 32) * (track + 1)" and ?N = "segments_per_track ft * tracks_per_tape ft"
  have bb: "side0 \<le> 255" "track \<le> 255" "sector \<le> 255" and spc0: "segments_per_cylinder ft0 = 4"
    using b by (auto simp: byte_geometry_def g)
  have v': "?sph \<noteq> 0" "ft = ft0\<lparr>segments_per_head := sint ?sph\<rparr>"
    and side: "(?N - 1) div ?sph = side0 \<or> (?N - 1) div ?sph = side0 - 1 \<and> side0 - (?N - 1) div ?sph = 1"
    and trk: "word_of_int (sint ?sph div 4 - 1) = track" and sct: "sector = 128"
    using v spc0 unfolding verify_geometry_def g by (auto simp: Let_def split: if_splits)
  define T where "T = uint track"
  have T: "0 \<le> T" "T \<le> 255" using bb(2) by (simp_all add: T_def word_le_def)
  have "uint ?sph = 4 * (T + 1)"
  proof -
    have "?sph = word_of_int (4 * (T + 1))" by (simp add: sct T_def)
    moreover have "uint (word_of_int (4 * (T + 1)) :: u32) = 4 * (T + 1)"
      unfolding uint_word_of_int using T by simp
    ultimately show ?thesis by (simp only:)
  qed
  moreover from this have "sint ?sph = 4 * (T + 1)" using T by (simp add: sint_uint signed_take_bit_int_eq_self)
  ultimately have sph: "uint ?sph = 4 * (T + 1)" "segments_per_head ft = 4 * (T + 1)" and spc: "segments_per_cylinder ft = 4"
    using v'(2) spc0 by simp_all
  have "geometry_ok ft" using T sph spc by (simp add: geometry_ok_def)
  have q: "uint ((?N - 1) div ?sph) = uint (?N - 1) div (4 * (T + 1))"
    by (simp only: uint_div_distrib sph)
  have s255: "uint ((?N - 1) div ?sph) \<le> 255"
  proof (cases "(?N - 1) div ?sph = side0")
    case False
    then have eq: "(?N - 1) div ?sph = side0 - 1" using side by blast
    have "side0 \<noteq> 0"
    proof
      assume "side0 = 0"
      then have "uint ((?N - 1) div ?sph) = 2 ^ 32 - 1" using eq by (simp add: unsigned_minus_1_eq_mask mask_eq_exp_minus_1)
      moreover have "uint (?N - 1) div (4 * (T + 1)) \<le> uint (?N - 1) div 4" using T by (intro zdiv_mono2) simp_all
      moreover have "uint (?N - 1) < 2 ^ 32" using uint_lt2p [of "?N - 1"] by simp
      ultimately show False unfolding q by simp
    qed
    then have "1 \<le> uint side0" using uint_ge_0 [of side0] uint_0_iff [of side0] by linarith
    then have "uint (side0 - 1) = uint side0 - 1" using uint_sub_lem [of 1 side0] by simp
    with eq bb(1) show ?thesis by (simp add: word_le_def)
  qed (use bb(1) in \<open>simp add: word_le_def\<close>)
  have "seg div segments_per_head ft < 256" if seg: "0 \<le> seg" "seg < uint ?N" for seg
  proof -
    have "uint (?N - 1) = uint ?N - 1" using seg uint_sub_lem [of 1 ?N] by simp
    then have "seg \<le> uint (?N - 1)" using seg by simp
    then have "seg div (4 * (T + 1)) \<le> uint (?N - 1) div (4 * (T + 1))" using T by (intro zdiv_mono1) simp_all
    with s255 show ?thesis unfolding q sph(2) by simp
  qed
  moreover have "format_code ft = fmt" using b v'(2) by (simp add: g byte_geometry_def)
  ultimately show ?thesis using \<open>geometry_ok ft\<close> by blast
qed


text \<open>
  C18. A header segment that decodes without error describes a consistent tape: for every segment
  of the cartridge the floppy coordinates fit their bytes, so that reading back a segment's first
  sector id yields the segment's number; and the bad sector map is installed at the place its
  format demands. The driver initialises \<open>segments_per_cylinder\<close> to 4 and never changes it.
\<close>

theorem decode_header_consistent:
  assumes dec: "ftape_decode_header_segment ft0 address0 = Some (ft, address, Inr ())"
    and spc: "segments_per_cylinder ft0 = 4"
    and seg: "0 \<le> seg" "seg < uint (segments_per_track ft * tracks_per_tape ft)"
    and su: "setup_segment ft buff seg offset n retry = Some (ft', buff')"
  shows "loc_segment (read_id_location ft (b_head buff') (b_cyl buff') (b_sect buff')) = seg
    \<and> format_code ft = ft_format_code (address ! 4)
    \<and> bad_sector_map ft = Some (if wide_format (format_code ft) then 256 else 2048)
    \<and> (bsm_hash_ptr ft \<noteq> None \<longleftrightarrow> list_format (format_code ft))"
proof -
  let ?fmt = "ft_format_code (address ! 4)"
  obtain ft4 ft5 where v: "verify_geometry (header_workarounds (ft4, ucast (address ! 27), ucast (address ! 28),
        ucast (address ! 29))) = Some (ft5, Inr ())"
    and ft4: "format_code ft4 = ?fmt" "segments_per_cylinder ft4 = 4"
    and ft: "ft = ftape_extract_bad_sector_map ft5 address"
  proof -
    have fld: "format_code (header_fields ft0 a) = ft_format_code (a ! 4)" "segments_per_cylinder (header_fields ft0 a) = 4" for a
      using spc by (simp_all add: header_fields_def Let_def)
    define a where "a = (if GET4 address0 0 = FT_D2G_MAGIC then ditto_decrypt address0 else address0)"
    have eq: "(case header_tape_len (header_fields ft0 a) of None \<Rightarrow> Some (header_fields ft0 a, a, Inl EIO)
      | Some len \<Rightarrow> (case verify_geometry (header_workarounds ((header_fields ft0 a)\<lparr>tape_len := len\<rparr>, ucast (a ! 27),
            ucast (a ! 28), ucast (a ! 29))) of None \<Rightarrow> None
          | Some (ft', Inl e) \<Rightarrow> Some (ft', a, Inl e)
          | Some (ft', Inr u) \<Rightarrow> Some (ftape_extract_bad_sector_map ft' a, a, Inr u))) = Some (ft, address, Inr ())"
      using dec unfolding ftape_decode_header_segment_def Let_def a_def [symmetric] by (simp split: if_splits)
    obtain len where len: "header_tape_len (header_fields ft0 a) = Some len" using eq by (auto split: option.splits)
    obtain ft' r where v: "verify_geometry (header_workarounds ((header_fields ft0 a)\<lparr>tape_len := len\<rparr>, ucast (a ! 27),
            ucast (a ! 28), ucast (a ! 29))) = Some (ft', r)" using eq len by (auto split: option.splits)
    have eq': "(case r of Inl e \<Rightarrow> Some (ft', a, Inl e)
          | Inr u \<Rightarrow> Some (ftape_extract_bad_sector_map ft' a, a, Inr u)) = Some (ft, address, Inr ())"
      using eq by (simp only: len option.case v prod.case)
    then have r: "r = Inr ()" by (cases r) simp_all
    have "Some (ftape_extract_bad_sector_map ft' a, a, Inr ()) = Some (ft, address, Inr () :: unit result)"
      using eq' unfolding r sum.case .
    then have a: "a = address" and ft: "ft = ftape_extract_bad_sector_map ft' address" by blast+
    show ?thesis by (rule that [OF v [unfolded r a]]) (use fld ft in simp_all)
  qed
  have u: "(ucast (x :: u8) :: u32) \<le> 255" for x
    using uint_lt2p [of x] by (simp add: word_le_def unsigned_ucast_eq take_bit_int_eq_self)
  have b: "byte_geometry ?fmt (header_workarounds (ft4, ucast (address ! 27), ucast (address ! 28), ucast (address ! 29)))"
    by (rule header_workarounds_byte) (simp add: byte_geometry_def u ft4)
  note geo = verify_geometry_ok [OF v b]
  have same: "geometry_ok ft" "segments_per_track ft = segments_per_track ft5" "tracks_per_tape ft = tracks_per_tape ft5"
      "segments_per_head ft = segments_per_head ft5"
    using geo unfolding ft by (simp_all add: ftape_extract_bad_sector_map_def Let_def geometry_ok_def)
  have "seg div segments_per_head ft < 256" using geo seg same by simp
  from setup_segment_coordinates [OF same(1) seg(1) this su] show ?thesis
    using geo by (auto simp: ft ftape_extract_bad_sector_map_def Let_def)
qed


text \<open>The beginning of a header segment of a 307 ft QIC-80 tape, with the number of sectors as a parameter.\<close>

definition sample_header :: "u8 \<Rightarrow> bytes" where
  "sample_header fsm = [0x55, 0xaa, 0x55, 0xaa, 2, 0, 0, 0, 1, 0, 2, 0, 0x67, 0x10, 0, 0, 0, 0, 0, 0, 0, 0, 0, 0,
     150, 0, 28, 6, 149, fsm, 0, 0]"

abbreviation unread_info :: ftape_info where
  "unread_info \<equiv> (blank_info fmt_normal)\<lparr>used_header_segment := -1\<rparr>"

abbreviation sample_info :: ftape_info where
  "sample_info \<equiv> unread_info\<lparr>last_data_segment := 4199, segments_per_track := 150, tracks_per_tape := 28\<rparr>"

lemma sample_header_words:
  "GET4 (sample_header x) 0 = FT_HSEG_MAGIC" "GET2 (sample_header x) 24 = 150" "GET2 (sample_header x) 6 = 0"
  "GET2 (sample_header x) 8 = 1" "GET2 (sample_header x) 10 = 2" "GET2 (sample_header x) 12 = 4199"
  by (simp_all add: GET2_def GET4_def sample_header_def load_le_numeral)

lemma sample_header_fields:
  "header_fields unread_info (sample_header x) = sample_info" "header_tape_len sample_info = Some 205"
  by (simp add: header_fields_def sample_header_words ft_format_code_def; simp add: sample_header_def blank_info_def)
    (simp add: header_tape_len_def blank_info_def)

lemma sample_header_decodes:
  "ftape_decode_header_segment unread_info (sample_header 128)
    = Some (ftape_extract_bad_sector_map (sample_info\<lparr>tape_len := 205, segments_per_head := 600\<rparr>) (sample_header 128),
        sample_header 128, Inr ())"
proof -
  have "verify_geometry (header_workarounds (sample_info\<lparr>tape_len := 205\<rparr>, 6, 149, 128))
    = Some (sample_info\<lparr>tape_len := 205, segments_per_head := 600\<rparr>, Inr ())"
    by (simp add: header_workarounds_def empty_geometry_def fix_geometry_def verify_geometry_def blank_info_def Let_def)
  moreover have "sample_header 128 ! 27 = 6" "sample_header 128 ! 28 = 149" "sample_header 128 ! 29 = 128"
    by (simp_all add: sample_header_def)
  ultimately show ?thesis
    by (simp add: ftape_decode_header_segment_def sample_header_words sample_header_fields Let_def)
qed

theorem decode_header_consistent_witness:
  "\<exists>ft ft' buff'. ftape_decode_header_segment unread_info (sample_header 128)
      = Some (ft, sample_header 128, Inr ())
    \<and> setup_segment ft blank_buffer 1234 0 32 False = Some (ft', buff')
    \<and> loc_segment (read_id_location ft (b_head buff') (b_cyl buff') (b_sect buff')) = 1234"
proof -
  let ?ft = "ftape_extract_bad_sector_map (sample_info\<lparr>tape_len := 205, segments_per_head := 600\<rparr>)
        (sample_header 128)"
  have "ftape_get_bad_sector_entry ?ft 1234 = Some (?ft, 0)"
    by (simp add: ftape_get_bad_sector_entry_def ftape_extract_bad_sector_map_def Let_def)
  then obtain ft' buff' where s: "setup_segment ?ft blank_buffer 1234 0 32 False = Some (ft', buff')"
    by (auto simp: setup_segment_def Let_def)
  have n: "1234 < uint (segments_per_track ?ft * tracks_per_tape ?ft)" "segments_per_cylinder unread_info = 4"
    by (simp_all add: ftape_extract_bad_sector_map_def Let_def blank_info_def)
  from decode_header_consistent [OF sample_header_decodes _ _ n(1) s] n(2) s sample_header_decodes show ?thesis by simp
qed

section \<open>The division by zero\<close>

lemma fix_geometry_sector: "snd (snd (snd (fix_geometry ok spt tpt side track sector new g))) = snd (snd (snd g))"
  by (simp add: fix_geometry_def split: prod.splits)

text \<open>The maximal track and sector fit a byte, so the product of the divisor does not wrap.\<close>

definition byte_maxima :: "geometry \<Rightarrow> bool" where
  "byte_maxima g \<longleftrightarrow> (case g of (ft, side, track, sector) \<Rightarrow> track \<le> 255 \<and> sector \<le> 255)"

lemma empty_geometry_maxima: "byte_maxima g \<Longrightarrow> byte_maxima (empty_geometry g)"
  by (auto simp: byte_maxima_def empty_geometry_def split: prod.splits)

lemma fix_geometry_maxima: "byte_maxima g \<Longrightarrow> snd new \<le> 255 \<Longrightarrow> byte_maxima (fix_geometry ok spt tpt side track sector new g)"
  by (auto simp: byte_maxima_def fix_geometry_def split: prod.splits)

lemma header_workarounds_maxima: "byte_maxima g \<Longrightarrow> byte_maxima (header_workarounds g)"
  by (simp add: header_workarounds_def Let_def empty_geometry_maxima fix_geometry_maxima)

lemma verify_geometry_divides:
  assumes "byte_maxima g"
  shows "verify_geometry g = None \<longleftrightarrow> snd (snd (snd g)) < 32"
proof -
  obtain ft side track sector where g: "g = (ft, side, track, sector)" by (metis prod_cases4)
  have le: "uint track \<le> 255" "uint sector \<le> 255" using assms by (simp_all add: g byte_maxima_def word_le_def)
  have t: "uint (track + 1) = uint track + 1"
    using le uint_ge_0 [of track] by (simp add: uint_word_ariths)
  have s: "uint (sector div 32) = uint sector div 32" by (simp add: uint_div_distrib)
  have "uint sector div 32 * (uint track + 1) \<le> 7 * 256"
    using le uint_ge_0 [of sector] uint_ge_0 [of track] by (intro mult_mono) linarith+
  then have "uint ((sector div 32) * (track + 1)) = uint sector div 32 * (uint track + 1)"
    using uint_ge_0 [of sector] uint_ge_0 [of track] by (simp only: uint_word_ariths(3) s t) (simp add: pos_imp_zdiv_nonneg_iff)
  then have "(sector div 32) * (track + 1) = 0 \<longleftrightarrow> uint sector div 32 * (uint track + 1) = 0" by (metis uint_0_iff)
  also have "\<dots> \<longleftrightarrow> uint sector < 32" using uint_ge_0 [of track] uint_ge_0 [of sector] by (auto simp: add_nonneg_eq_0_iff zdiv_eq_0_iff)
  finally show ?thesis by (simp add: verify_geometry_def g Let_def word_less_def)
qed

lemma header_workarounds_sector:
  "snd (snd (snd (header_workarounds (ft, side, track, sector)))) =
    (if segments_per_track ft = 0 \<and> tracks_per_tape ft = 0 \<and> side = 0 \<and> track = 0 \<and> sector = 0 then 128 else sector)"
  by (simp add: header_workarounds_def Let_def fix_geometry_sector empty_geometry_def)

lemma header_tape_len_known: "header_tape_len (header_fields ft a) = None \<longleftrightarrow> a ! 4 \<notin> {2, 3, 4, 5, 6}"
  by (auto simp: header_fields_def Let_def header_tape_len_def ft_format_code_def)

text \<open>
  C35. The number of sectors in the header is not checked before it is used as a divisor (the check for
  \<open>segments_per_head = 0\<close> comes after the division). \<open>ftape_decode_header_segment\<close> divides by zero exactly
  when the signature is valid, the format code is known and the header has less than 32 floppy
  sectors, unless all five fields of the geometry are zero, which the first work-around repairs; whatever
  the other bytes of the header and the state of the driver are.
\<close>

theorem decode_header_divides_by_zero:
  "ftape_decode_header_segment ft0 address0 = None \<longleftrightarrow>
    (let address = (if GET4 address0 0 = FT_D2G_MAGIC then ditto_decrypt address0 else address0) in
     (GET4 address0 0 = FT_D2G_MAGIC \<or> GET4 address0 0 = FT_HSEG_MAGIC) \<and> address ! 4 \<in> {2, 3, 4, 5, 6} \<and> address ! 29 < 32
     \<and> \<not> (GET2 address 24 = 0 \<and> address ! 26 = 0 \<and> address ! 27 = 0 \<and> address ! 28 = 0 \<and> address ! 29 = 0))"
proof -
  define a where "a = (if GET4 address0 0 = FT_D2G_MAGIC then ditto_decrypt address0 else address0)"
  have b: "(ucast (x :: u8) :: u32) \<le> 255" "(ucast x :: u32) < 32 \<longleftrightarrow> x < 32" "(ucast x :: u32) = 0 \<longleftrightarrow> x = 0" for x
    using uint_lt2p [of x] by (simp_all add: word_le_def word_less_def unsigned_ucast_eq take_bit_int_eq_self word_uint_eq_iff)
  have b': "(ucast (x :: u16) :: u32) = 0 \<longleftrightarrow> x = 0" for x
    using uint_lt2p [of x] by (simp add: unsigned_ucast_eq take_bit_int_eq_self word_uint_eq_iff)
  let ?g = "\<lambda>len. ((header_fields ft0 a)\<lparr>tape_len := len\<rparr>, ucast (a ! 27), ucast (a ! 28), ucast (a ! 29)) :: geometry"
  have max: "byte_maxima (header_workarounds (?g len))" for len
    by (rule header_workarounds_maxima) (simp add: byte_maxima_def b)
  have geo: "verify_geometry (header_workarounds (?g len)) = None \<longleftrightarrow>
      a ! 29 < 32 \<and> \<not> (GET2 a 24 = 0 \<and> a ! 26 = 0 \<and> a ! 27 = 0 \<and> a ! 28 = 0 \<and> a ! 29 = 0)" for len
    unfolding verify_geometry_divides [OF max] header_workarounds_sector
    by (simp add: b b' header_fields_def Let_def)
  have "ftape_decode_header_segment ft0 address0 = None \<longleftrightarrow>
      (GET4 address0 0 = FT_D2G_MAGIC \<or> GET4 address0 0 = FT_HSEG_MAGIC)
      \<and> (\<exists>len. header_tape_len (header_fields ft0 a) = Some len \<and> verify_geometry (header_workarounds (?g len)) = None)"
  proof (cases "header_tape_len (header_fields ft0 a)")
    case None
    then show ?thesis unfolding ftape_decode_header_segment_def Let_def a_def [symmetric] by simp
  next
    case (Some len)
    obtain v where v: "verify_geometry (header_workarounds (?g len)) = v" by blast
    have "(case v of None \<Rightarrow> None | Some (ft', Inl e) \<Rightarrow> Some (ft', a, Inl e)
        | Some (ft', Inr u) \<Rightarrow> Some (ftape_extract_bad_sector_map ft' a, a, Inr u)) = None \<longleftrightarrow> v = None"
      by (simp split: option.splits prod.splits sum.splits)
    moreover have "(\<exists>l. header_tape_len (header_fields ft0 a) = Some l \<and> verify_geometry (header_workarounds (?g l)) = None) \<longleftrightarrow> v = None"
      using Some v by simp
    ultimately show ?thesis unfolding ftape_decode_header_segment_def Let_def a_def [symmetric] Some option.case v by simp
  qed
  moreover have "(\<exists>len. header_tape_len (header_fields ft0 a) = Some len) \<longleftrightarrow> a ! 4 \<in> {2, 3, 4, 5, 6}"
    using header_tape_len_known [of ft0 a] by (cases "header_tape_len (header_fields ft0 a)") simp_all
  ultimately show ?thesis unfolding geo Let_def a_def [symmetric] by blast
qed

theorem decode_header_divides_by_zero_witness:
  "ftape_decode_header_segment unread_info (sample_header 0) = None"
proof -
  have "sample_header 0 ! 4 = 2" "sample_header 0 ! 26 = 28" "sample_header 0 ! 29 = 0" by (simp_all add: sample_header_def)
  then show ?thesis unfolding decode_header_divides_by_zero Let_def by (simp add: sample_header_words)
qed

end
