(* ===== verification/Ft_Command.thy ===== *)
theory Ft_Command
  imports Ft_Segment
begin

text \<open>
  The commands to the drive, \<open>src/ftape/lowlevel/ftape-io.c\<close>: a command is a number of step pulses, and the drive answers with bits on
  the line of track zero. Before a command is sent, the status of the drive is brought to what the command requires; the queries this takes are
  commands themselves, and a counter limits the recursion.

  The record holds the fields of \<open>ftape_info_t\<close> for commands, the cylinder, the threshold and the size of the fifo of the controller, the
  number of retries of the first buffer and the rest of the world \<open>'e\<close>. The argument \<open>drive_env\<close> tells how the world reacts: the seek of the
  controller from a cylinder to another, the sense of the line, sleeping, the clock in ticks with its rate, the two tests for pending signals,
  reading a sector id, waiting for the controller, its reset (given the cylinder it knows), setting its rate, precompensation, fifo and motor, and the value of a
  variable that was never set. A function that writes through the pointer \<open>status\<close> has its variable as the second
  component of the state. \<open>None\<close> stands for a loop that does not return and for a read behind the table of commands. The clock does not
  wrap around during a wait.
\<close>

unbundle bit_operations_syntax

section \<open>The table of commands\<close>

datatype command_types = cmd_unused | cmd_mode | cmd_motion | cmd_report

record qic117_command_table =
  cmd_mask :: u8
  cmd_state :: u8
  cmd_type :: command_types
  non_intr :: bool

definition cmd :: "u8 \<Rightarrow> u8 \<Rightarrow> command_types \<Rightarrow> bool \<Rightarrow> qic117_command_table" where
  "cmd m s t n = \<lparr>cmd_mask = m, cmd_state = s, cmd_type = t, non_intr = n\<rparr>"

definition qic117_cmds :: "qic117_command_table list" where
  "qic117_cmds =
    [cmd 0x00 0x00 cmd_mode False, cmd 0x00 0x00 cmd_motion True, cmd 0x00 0x00 cmd_report False, cmd 0x36 0x24 cmd_motion True,
     cmd 0x36 0x24 cmd_motion True, cmd 0x00 0x00 cmd_mode False, cmd 0x00 0x00 cmd_report False, cmd 0x01 0x01 cmd_report False,
     cmd 0x00 0x00 cmd_report False, cmd 0x00 0x00 cmd_report False, cmd 0x37 0x25 cmd_motion False, cmd 0x17 0x05 cmd_motion False,
     cmd 0x17 0x05 cmd_motion False, cmd 0x37 0x25 cmd_motion False, cmd 0x17 0x05 cmd_motion True, cmd 0x1f 0x05 cmd_mode False,
     cmd 0x1f 0x05 cmd_motion True, cmd 0x37 0x25 cmd_mode False, cmd 0x00 0x00 cmd_motion True, cmd 0x00 0x00 cmd_unused False,
     cmd 0x00 0x00 cmd_unused False, cmd 0x02 0x00 cmd_motion False, cmd 0x02 0x00 cmd_motion False, cmd 0x00 0x00 cmd_mode False,
     cmd 0x00 0x00 cmd_mode False, cmd 0x36 0x24 cmd_motion True, cmd 0x36 0x24 cmd_motion True, cmd 0x03 0x01 cmd_mode False,
     cmd 0x00 0x00 cmd_mode False, cmd 0x00 0x00 cmd_mode False, cmd 0x00 0x00 cmd_mode False, cmd 0x00 0x00 cmd_unused False,
     cmd 0x00 0x00 cmd_report False, cmd 0x04 0x04 cmd_report False, cmd 0x36 0x24 cmd_motion True, cmd 0x36 0x24 cmd_motion True,
     cmd 0x17 0x05 cmd_motion True, cmd 0x17 0x05 cmd_report False, cmd 0x17 0x05 cmd_mode False, cmd 0x00 0x00 cmd_unused False,
     cmd 0x00 0x00 cmd_unused False, cmd 0x00 0x00 cmd_unused False, cmd 0x00 0x00 cmd_unused False, cmd 0x00 0x00 cmd_unused False,
     cmd 0x00 0x00 cmd_unused False, cmd 0x00 0x00 cmd_unused False, cmd 0x00 0x00 cmd_mode False, cmd 0x00 0x00 cmd_mode False,
     cmd 0x00 0x00 cmd_unused False, cmd 0x00 0x00 cmd_unused False, cmd 0x03 0x01 cmd_mode False, cmd 0x00 0x00 cmd_report False,
     cmd 0x03 0x01 cmd_unused False, cmd 0x07 0x05 cmd_unused False, cmd 0x02 0x00 cmd_unused False, cmd 0x07 0x05 cmd_unused False]"

abbreviation QIC_NO_COMMAND :: nat where "QIC_NO_COMMAND \<equiv> 0"
abbreviation QIC_RESET :: nat where "QIC_RESET \<equiv> 1"
abbreviation QIC_REPORT_NEXT_BIT :: nat where "QIC_REPORT_NEXT_BIT \<equiv> 2"
abbreviation QIC_REPORT_DRIVE_STATUS :: nat where "QIC_REPORT_DRIVE_STATUS \<equiv> 6"
abbreviation QIC_REPORT_ERROR_CODE :: nat where "QIC_REPORT_ERROR_CODE \<equiv> 7"
abbreviation QIC_LOGICAL_FORWARD :: nat where "QIC_LOGICAL_FORWARD \<equiv> 10"
abbreviation QIC_SEEK_HEAD_TO_TRACK :: nat where "QIC_SEEK_HEAD_TO_TRACK \<equiv> 13"
abbreviation QIC_ENTER_FORMAT_MODE :: nat where "QIC_ENTER_FORMAT_MODE \<equiv> 15"
abbreviation QIC_STOP_TAPE :: nat where "QIC_STOP_TAPE \<equiv> 18"

abbreviation QIC_STATUS_READY :: u8 where "QIC_STATUS_READY \<equiv> 0x01"
abbreviation QIC_STATUS_ERROR :: u8 where "QIC_STATUS_ERROR \<equiv> 0x02"
abbreviation QIC_STATUS_CARTRIDGE_PRESENT :: u8 where "QIC_STATUS_CARTRIDGE_PRESENT \<equiv> 0x04"
abbreviation QIC_STATUS_NEW_CARTRIDGE :: u8 where "QIC_STATUS_NEW_CARTRIDGE \<equiv> 0x10"
abbreviation QIC_STATUS_REFERENCED :: u8 where "QIC_STATUS_REFERENCED \<equiv> 0x20"

abbreviation FT_SECOND :: u32 where "FT_SECOND \<equiv> 1000"

section \<open>The state\<close>

text \<open>What reading the next sector id yields: the command to the controller fails, an id is found, or the interrupt is not seen.\<close>

datatype id_outcome = No_Command errno | Found_Id u8 u8 u8 | No_Interrupt errno

record 'e drive_env =
  v_seek :: "int \<Rightarrow> int \<Rightarrow> 'e \<Rightarrow> ('e \<times> int) \<times> bool result"
  v_sense :: "'e \<Rightarrow> 'e \<times> bool result"
  v_sleep :: "u32 \<Rightarrow> 'e \<Rightarrow> 'e"
  v_jiffies :: "'e \<Rightarrow> nat"
  v_hz :: nat
  v_killed :: "'e \<Rightarrow> bool"
  v_signal :: "'e \<Rightarrow> bool"
  v_read_id :: "'e \<Rightarrow> 'e \<times> id_outcome"
  v_fdc_ready :: "'e \<Rightarrow> 'e \<times> unit result"
  v_reset :: "int \<Rightarrow> 'e \<Rightarrow> 'e \<times> int"
  v_fdc_rate :: "int \<Rightarrow> 'e \<Rightarrow> 'e \<times> unit result"
  v_precomp :: "int \<Rightarrow> 'e \<Rightarrow> 'e"
  v_fifo :: "int \<Rightarrow> 'e \<Rightarrow> 'e \<times> unit result"
  v_motor :: "bool \<Rightarrow> 'e \<Rightarrow> 'e"
  v_unset :: int

record ft_timeout_table =
  t_seek :: u32
  t_reset :: u32
  t_rewind :: u32
  t_head_seek :: u32
  t_stop :: u32
  t_pause :: u32

datatype wake_up_types = unknown_wake_up | no_wake_up | wake_up_colorado | wake_up_mountain | wake_up_insight

record 'e drive_state =
  d_ft :: ftape_info
  d_cylinder :: int
  d_level :: int
  d_diagnostic :: bool
  d_cant_format :: bool
  d_drive_status :: u8
  d_error_command :: u8
  d_error_code :: u8
  d_timeout :: ft_timeout_table
  d_first_time :: bool
  d_wind_time :: int
  d_vendor :: u32
  d_speed :: int
  d_wake_up :: wake_up_types
  d_drive_config :: u8
  d_tape_status :: u8
  d_max_rate :: int
  d_rate_supported :: bool
  d_bad_bus_timing :: bool
  d_init_needed :: bool
  d_last_segment :: int
  d_large_fifo :: bool
  d_threshold :: int
  d_head_retry :: int
  d_world :: 'e

type_synonym ('s, 'a) op = "'s \<Rightarrow> ('s \<times> 'a result) option"

text \<open>
  \<open>seq\<close> goes on unless there is an error (\<open>TRACE_CATCH\<close>), \<open>catch\<close> looks at the result; \<open>on_drive\<close> leaves the status variable alone,
  and \<open>local_status\<close> is a block with a status variable of its own.
\<close>

definition seq :: "('s, 'a) op \<Rightarrow> ('a \<Rightarrow> ('s, 'b) op) \<Rightarrow> ('s, 'b) op" where
  "seq m k s = Option.bind (m s) (\<lambda>(s1, r). case r of Inl e \<Rightarrow> Some (s1, Inl e) | Inr x \<Rightarrow> k x s1)"

definition catch :: "('s, 'a) op \<Rightarrow> ('a result \<Rightarrow> ('s, 'b) op) \<Rightarrow> ('s, 'b) op" where
  "catch m k s = Option.bind (m s) (\<lambda>(s1, r). k r s1)"

definition ok :: "'a \<Rightarrow> ('s, 'a) op" where "ok x s = Some (s, Inr x)"

definition fail :: "errno \<Rightarrow> ('s, 'a) op" where "fail e s = Some (s, Inl e)"

definition on_drive :: "('e drive_state, 'a) op \<Rightarrow> ('e drive_state \<times> int, 'a) op" where
  "on_drive m = (\<lambda>(s, v). map_option (\<lambda>(s1, r). ((s1, v), r)) (m s))"

definition local_status :: "('e drive_state \<times> int, unit) op \<Rightarrow> ('e drive_state, int) op" where
  "local_status m s = map_option (\<lambda>((s1, v), r). (s1, case r of Inl e \<Rightarrow> Inl e | Inr _ \<Rightarrow> Inr v)) (m (s, 0))"

lemma seq_mono [partial_function_mono]:
  assumes "\<And>s. mono_option (\<lambda>f. m f s)" "\<And>x s. mono_option (\<lambda>f. k f x s)"
  shows "mono_option (\<lambda>f. seq (m f) (k f) s)"
proof -
  have "mono_option (\<lambda>f. case r of Inl e \<Rightarrow> Some (s1, Inl e) | Inr x \<Rightarrow> k f x s1)" for s1 r
    using assms(2) by (cases r) (auto intro: partial_function_mono)
  then show ?thesis unfolding seq_def by (intro bind_mono assms(1)) (auto split: prod.split)
qed

section \<open>Pulses\<close>

definition ftape_sleep :: "'e drive_env \<Rightarrow> u32 \<Rightarrow> 'e drive_state \<Rightarrow> 'e drive_state" where
  "ftape_sleep D ms s = s\<lparr>d_world := v_sleep D ms (d_world s)\<rparr>"

text \<open>\<open>fdc_seek\<close> from the interrupt on; the flag tells whether the seek came to its end.\<close>

definition fdc_seek :: "'e drive_env \<Rightarrow> int \<Rightarrow> ('e drive_state, unit) op" where
  "fdc_seek D track s =
    (case v_seek D (d_cylinder s) track (d_world s) of ((w, cyl), r) \<Rightarrow>
       Some (s\<lparr>d_world := w, d_cylinder := cyl\<rparr>,
         case r of Inl e \<Rightarrow> Inl e | Inr seek_end \<Rightarrow> if \<not> seek_end then Inl EIO else if cyl \<noteq> track then Inl EIO else Inr ()))"

definition ft_send_to_drive :: "'e drive_env \<Rightarrow> int \<Rightarrow> ('e drive_state, unit) op" where
  "ft_send_to_drive D arg s =
    (let s1 = ftape_sleep D 3 s
     in if d_cylinder s1 \<ge> arg then fdc_seek D (d_cylinder s1 - arg) s1 else fdc_seek D (d_cylinder s1 + arg) s1)"

definition fdc_sense_drive_status :: "'e drive_env \<Rightarrow> ('e drive_state, bool) op" where
  "fdc_sense_drive_status D s = (case v_sense D (d_world s) of (w, r) \<Rightarrow> Some (s\<lparr>d_world := w\<rparr>, r))"

definition ftape_parameter :: "'e drive_env \<Rightarrow> int \<Rightarrow> ('e drive_state, unit) op" where
  "ftape_parameter D parameter = ft_send_to_drive D (parameter + 2)"

section \<open>Queries\<close>

text \<open>The argument \<open>send\<close> stands for \<open>ftape_command\<close>, which is defined with these functions below.\<close>

type_synonym 'e sender = "nat \<Rightarrow> ('e drive_state, unit) op"

partial_function (option) await_ack :: "'e drive_env \<Rightarrow> nat \<Rightarrow> ('e drive_state, unit) op" where
  "await_ack D t0 s =
    seq (fdc_sense_drive_status D) (\<lambda>ack s1.
      if ack then Some (s1, Inr ())
      else if word_of_nat ((v_jiffies D (d_world s1) - t0) * 1000000 div v_hz D) < (300000 :: u32) then await_ack D t0 s1
      else Some (s1, Inl EIO)) (ftape_sleep D 3 s)"

text \<open>The bits come least significant first; the stop bit ends the answer.\<close>

fun read_bits :: "'e drive_env \<Rightarrow> 'e sender \<Rightarrow> nat \<Rightarrow> nat \<Rightarrow> ('e drive_state \<times> int, unit) op" where
  "read_bits D send 0 i =
    seq (on_drive (send QIC_REPORT_NEXT_BIT)) (\<lambda>_. seq (on_drive (fdc_sense_drive_status D)) (\<lambda>b. if b then ok () else fail EIO))"
| "read_bits D send (Suc n) i =
    seq (on_drive (send QIC_REPORT_NEXT_BIT)) (\<lambda>_. seq (on_drive (fdc_sense_drive_status D)) (\<lambda>b (s, v).
      read_bits D send n (Suc i) (s, if b then v OR push_bit i 1 else v)))"

definition report_operation :: "'e drive_env \<Rightarrow> 'e sender \<Rightarrow> nat \<Rightarrow> nat \<Rightarrow> ('e drive_state \<times> int, unit) op" where
  "report_operation D send command result_length =
    seq (on_drive (send command)) (\<lambda>_ (s, v).
      seq (on_drive (await_ack D (v_jiffies D (d_world s)))) (\<lambda>_ (s1, _).
        seq (read_bits D send result_length 0) (\<lambda>_. catch (on_drive (send QIC_REPORT_NEXT_BIT)) (\<lambda>_. ok ())) (s1, 0)) (s, v))"

text \<open>The query of the status is repeated three times when it fails.\<close>

fun repeat_status :: "'e drive_env \<Rightarrow> 'e sender \<Rightarrow> nat \<Rightarrow> ('e drive_state \<times> int, unit) op" where
  "repeat_status D send n =
    catch (report_operation D send QIC_REPORT_DRIVE_STATUS 8) (\<lambda>r. case r of Inr _ \<Rightarrow> ok ()
      | Inl _ \<Rightarrow> (case n of 0 \<Rightarrow> fail EIO | Suc m \<Rightarrow> repeat_status D send m))"

definition note_status :: "('e drive_state \<times> int, unit) op" where
  "note_status = (\<lambda>(s, v). let b = word_of_int v :: u8 in
     if b = 0xff then Some ((s, v), Inl EIO)
     else Some (((if b AND QIC_STATUS_READY \<noteq> 0 then s\<lparr>d_ft := (d_ft s)\<lparr>current_command := int QIC_NO_COMMAND\<rparr>\<rparr> else s)\<lparr>d_drive_status := b\<rparr>, v), Inr ()))"

definition report_raw_drive_status :: "'e drive_env \<Rightarrow> 'e sender \<Rightarrow> ('e drive_state \<times> int, unit) op" where
  "report_raw_drive_status D send = seq (repeat_status D send 3) (\<lambda>_. note_status)"

definition report_error :: "'e drive_env \<Rightarrow> 'e sender \<Rightarrow> ('e drive_state, u8 \<times> u8) op" where
  "report_error D send =
    seq (local_status (report_operation D send QIC_REPORT_ERROR_CODE 16)) (\<lambda>code s.
      let e = word_of_int code; c = word_of_int (drop_bit 8 code)
      in Some (s\<lparr>d_error_command := c, d_error_code := e\<rparr>, Inr (e, c)))"

section \<open>Waiting for the drive\<close>

text \<open>
  The wait for the status \<open>ready\<close>. \<open>timeout\<close> is unsigned, as in the code, so that it counts as used up only when it is 0; the signal is
  looked at in the turn in which \<open>tries\<close> is 0. The poll delay and the timeout are in milliseconds.
\<close>

definition poll_limit_of :: "u32 \<Rightarrow> u32 \<times> int" where
  "poll_limit_of timeout = (if timeout \<le> FT_SECOND then (100, 20) else if timeout < 20 * FT_SECOND then (FT_SECOND, 2) else (5 * FT_SECOND, 1))"

partial_function (option) wait_loop ::
  "'e drive_env \<Rightarrow> 'e sender \<Rightarrow> u32 \<Rightarrow> u32 \<Rightarrow> u32 \<Rightarrow> int \<Rightarrow> ('e drive_state \<times> int, unit) op" where
  "wait_loop D send limit delay timeout tries sv =
    (let delay1 = (if delay < limit then delay + 100 else delay); t0 = v_jiffies D (d_world (fst sv))
     in seq (report_raw_drive_status D send) (\<lambda>_ (s1, v).
       if (word_of_int v :: u8) AND QIC_STATUS_READY \<noteq> 0 then Some ((s1, v), Inr ())
       else if tries = 0 \<and> v_killed D (d_world s1) then Some ((s1, v), Inl EINTR)
       else let timeout1 = timeout - word_of_nat ((v_jiffies D (d_world s1) - t0) * 1000 div v_hz D)
         in if timeout1 \<le> 0 then Some ((s1, v), Inl ETIME)
            else wait_loop D send limit delay1 (timeout1 - delay1) (tries - 1) (ftape_sleep D delay1 s1, v)) sv)"

definition ready_wait :: "'e drive_env \<Rightarrow> 'e sender \<Rightarrow> u32 \<Rightarrow> ('e drive_state \<times> int, unit) op" where
  "ready_wait D send timeout = (case poll_limit_of timeout of (limit, tries) \<Rightarrow> wait_loop D send limit 0 timeout tries)"

section \<open>Commands\<close>

text \<open>What the status of the drive lacks for a command.\<close>

definition difference :: "nat \<Rightarrow> int \<Rightarrow> u8" where
  "difference command v = (word_of_int v XOR cmd_state (qic117_cmds ! command)) AND cmd_mask (qic117_cmds ! command)"

partial_function (option) wait_until_ready :: "'e drive_env \<Rightarrow> 'e sender \<Rightarrow> nat \<Rightarrow> ('e drive_state \<times> int, unit) op" where
  "wait_until_ready D send command sv =
    (if difference command (snd sv) AND QIC_STATUS_READY = 0 then Some (sv, Inr ())
     else Option.bind (ready_wait D send (t_seek (d_timeout (fst sv))) sv) (\<lambda>(sv1, r).
       if r = Inl EINTR then Some (sv1, Inl EINTR) else wait_until_ready D send command sv1))"

partial_function (option) clear_errors :: "'e drive_env \<Rightarrow> 'e sender \<Rightarrow> nat \<Rightarrow> ('e drive_state \<times> int, unit) op" where
  "clear_errors D send command sv =
    (if difference command (snd sv) AND QIC_STATUS_ERROR = 0 then Some (sv, Inr ())
     else Option.bind (on_drive (report_error D send) sv) (\<lambda>(sv1, _).
       seq (report_raw_drive_status D send) (\<lambda>_ (s2, v2).
         if difference command v2 AND QIC_STATUS_ERROR \<noteq> 0 \<and> v_killed D (d_world s2) then Some ((s2, v2), Inl EINTR)
         else clear_errors D send command (s2, v2)) sv1))"

definition refuse :: "nat \<Rightarrow> ('e drive_state \<times> int, unit) op" where
  "refuse command = (\<lambda>(s, v).
     if difference command v \<noteq> 0 then
       Some ((if difference command v AND (QIC_STATUS_CARTRIDGE_PRESENT OR QIC_STATUS_NEW_CARTRIDGE OR QIC_STATUS_REFERENCED) \<noteq> 0
         then s\<lparr>d_ft := (d_ft s)\<lparr>ft_failure := True\<rparr>\<rparr> else s, v), Inl EIO)
     else if NOT (word_of_int v) AND QIC_STATUS_READY AND cmd_mask (qic117_cmds ! command) \<noteq> 0 then Some ((s, v), Inl EBUSY)
     else Some ((s, v), Inr ()))"

definition wait_for_motion :: "'e drive_env \<Rightarrow> 'e sender \<Rightarrow> nat \<Rightarrow> ('e drive_state \<times> int, unit) op" where
  "wait_for_motion D send command = (\<lambda>(s, v).
     (if cmd_type (qic117_cmds ! command) = cmd_motion \<and> non_intr (qic117_cmds ! nat (current_command (d_ft s))) then
       seq (report_raw_drive_status D send) (\<lambda>_ (s1, v1).
         (if (word_of_int v1 :: u8) AND QIC_STATUS_READY = 0 then catch (ready_wait D send (t_seek (d_timeout s1))) (\<lambda>_. ok ()) else ok ()) (s1, v1))
     else ok ()) (s, v))"

text \<open>A command or a current command outside the table is \<open>None\<close>.\<close>

definition check_cmd_restrictions :: "'e drive_env \<Rightarrow> 'e sender \<Rightarrow> nat \<Rightarrow> ('e drive_state, unit) op" where
  "check_cmd_restrictions D send command s =
    (if command \<ge> length qic117_cmds
       \<or> cmd_type (qic117_cmds ! command) = cmd_motion \<and> (current_command (d_ft s) < 0 \<or> current_command (d_ft s) \<ge> int (length qic117_cmds)) then None
     else map_option (\<lambda>((s1, _), r). (s1, r))
       (seq (wait_for_motion D send command) (\<lambda>_ (s1, v1).
          (if cmd_mask (qic117_cmds ! command) = 0 then ok ()
           else seq (if v1 = -1 then report_raw_drive_status D send else ok ()) (\<lambda>_.
             seq (wait_until_ready D send command) (\<lambda>_. seq (clear_errors D send command) (\<lambda>_. refuse command)))) (s1, v1)) (s, -1)))"

definition set_level :: "(int \<Rightarrow> int) \<Rightarrow> 'e drive_state \<Rightarrow> 'e drive_state" where
  "set_level g s = s\<lparr>d_level := g (d_level s)\<rparr>"

definition send_command :: "'e drive_env \<Rightarrow> nat \<Rightarrow> ('e drive_state, unit) op" where
  "send_command D command s =
    Option.bind (ft_send_to_drive D (int command) s) (\<lambda>(s1, r).
      if command \<ge> length qic117_cmds then None
      else let f = d_ft s1;
               f1 = (if cmd_type (qic117_cmds ! command) = cmd_motion \<and> command \<noteq> QIC_LOGICAL_FORWARD \<and> command \<noteq> QIC_STOP_TAPE
                 then f\<lparr>location := (location f)\<lparr>loc_known := False\<rparr>\<rparr> else f)
           in Some (set_level (\<lambda>n. n - 1) (s1\<lparr>d_ft := f1\<lparr>current_command := int command\<rparr>\<rparr>), r))"

definition command_body :: "'e drive_env \<Rightarrow> 'e sender \<Rightarrow> 'e sender" where
  "command_body D send command s =
    (if command > length qic117_cmds then Some (s, Inl EIO)
     else if d_level s + 1 > 5 then Some (s, Inl EIO)
     else let s1 = set_level (\<lambda>n. n + 1) s
       in if command = QIC_ENTER_FORMAT_MODE \<and> d_cant_format s1 then Some (s1, Inl EIO)
       else if d_diagnostic s1 \<or> command = QIC_REPORT_DRIVE_STATUS \<or> command = QIC_REPORT_NEXT_BIT then send_command D command s1
       else Option.bind (check_cmd_restrictions D send command s1) (\<lambda>(s2, r).
         case r of Inl e \<Rightarrow> Some (set_level (\<lambda>n. n - 1) s2, Inl e) | Inr _ \<Rightarrow> send_command D command s2))"

text \<open>The recursion is at most six calls deep, because the counter of the code is at most five.\<close>

fun command_at :: "'e drive_env \<Rightarrow> nat \<Rightarrow> 'e sender" where
  "command_at D 0 command s = Some (s, Inl EIO)"
| "command_at D (Suc n) command s = command_body D (command_at D n) command s"

definition ftape_command :: "'e drive_env \<Rightarrow> 'e sender" where
  "ftape_command D = command_at D 6"

definition ftape_ready_wait :: "'e drive_env \<Rightarrow> u32 \<Rightarrow> ('e drive_state \<times> int, unit) op" where
  "ftape_ready_wait D = ready_wait D (ftape_command D)"

definition ftape_report_operation :: "'e drive_env \<Rightarrow> nat \<Rightarrow> nat \<Rightarrow> ('e drive_state \<times> int, unit) op" where
  "ftape_report_operation D = report_operation D (ftape_command D)"

definition ftape_report_raw_drive_status :: "'e drive_env \<Rightarrow> ('e drive_state \<times> int, unit) op" where
  "ftape_report_raw_drive_status D = report_raw_drive_status D (ftape_command D)"

definition ftape_report_error :: "'e drive_env \<Rightarrow> ('e drive_state, u8 \<times> u8) op" where
  "ftape_report_error D = report_error D (ftape_command D)"

section \<open>The recursion of commands\<close>

text \<open>Two functions agree on the states with the property \<open>P\<close>, and stay in these states.\<close>

definition agree :: "('s \<Rightarrow> bool) \<Rightarrow> ('s, 'a) op \<Rightarrow> ('s, 'a) op \<Rightarrow> bool" where
  "agree P m m' \<longleftrightarrow> (\<forall>s. P s \<longrightarrow> m s = m' s \<and> (\<forall>s1 r. m s = Some (s1, r) \<longrightarrow> P s1))"

lemma agreeI: "(\<And>s. P s \<Longrightarrow> m s = m' s) \<Longrightarrow> (\<And>s s1 r. P s \<Longrightarrow> m s = Some (s1, r) \<Longrightarrow> P s1) \<Longrightarrow> agree P m m'"
  by (simp add: agree_def)

lemma agreeD: "agree P m m' \<Longrightarrow> P s \<Longrightarrow> m s = m' s" "agree P m m' \<Longrightarrow> P s \<Longrightarrow> m s = Some (s1, r) \<Longrightarrow> P s1"
  by (simp_all add: agree_def)

lemma agree_sym: "agree P m m' \<Longrightarrow> agree P m' m"
  by (simp add: agree_def)

lemma agree_fail [intro]: "agree P (fail e) (fail e)"
  by (simp add: agree_def fail_def)

lemma agree_ok [intro]: "agree P (ok x) (ok x)"
  by (simp add: agree_def ok_def)

lemma agree_catch:
  assumes m: "agree P m m'" and k: "\<And>r. agree P (k r) (k' r)"
  shows "agree P (catch m k) (catch m' k')"
proof (rule agreeI)
  fix s assume s: "P s"
  show "catch m k s = catch m' k' s"
    using agreeD(1) [OF m s] agreeD(2) [OF m s] agreeD(1) [OF k] by (cases "m' s") (auto simp: catch_def)
  show "P s1" if "catch m k s = Some (s1, r)" for s1 r
    using that agreeD(2) [OF m s] agreeD(2) [OF k] by (auto simp: catch_def bind_eq_Some_conv)
qed

lemma seq_catch: "seq m k = catch m (\<lambda>r. case r of Inl e \<Rightarrow> fail e | Inr x \<Rightarrow> k x)"
  by (auto simp: seq_def catch_def fail_def fun_eq_iff split: sum.split intro!: arg_cong2 [where f = Option.bind])

lemma agree_seq: "agree P m m' \<Longrightarrow> (\<And>x. agree P (k x) (k' x)) \<Longrightarrow> agree P (seq m k) (seq m' k')"
  unfolding seq_catch by (rule agree_catch) (auto split: sum.split)

lemma agree_on_drive: "agree P m m' \<Longrightarrow> agree (\<lambda>sv. P (fst sv)) (on_drive m) (on_drive m')"
  by (auto simp: agree_def on_drive_def)

lemma agree_local: "agree (\<lambda>sv. P (fst sv)) m m' \<Longrightarrow> agree P (local_status m) (local_status m')"
  by (fastforce simp: agree_def local_status_def)

lemma await_ack_level: "await_ack D t0 s = Some y \<Longrightarrow> d_level (fst y) = d_level s"
proof (induction rule: await_ack.raw_induct [rotated, consumes 1])
  case (1 f D t0 s y)
  show ?case using 1(2)
    by (auto simp: seq_def bind_eq_Some_conv fdc_sense_drive_status_def ftape_sleep_def split: prod.splits sum.splits if_splits dest: 1(1))
qed

text \<open>The states in which the counter is at least \<open>n\<close>.\<close>

abbreviation deep :: "int \<Rightarrow> 'e drive_state \<Rightarrow> bool" where "deep n \<equiv> \<lambda>s. n \<le> d_level s"

abbreviation deep_var :: "int \<Rightarrow> 'e drive_state \<times> int \<Rightarrow> bool" where "deep_var n \<equiv> \<lambda>sv. n \<le> d_level (fst sv)"

lemma agree_sense: "agree (deep n) (fdc_sense_drive_status D) (fdc_sense_drive_status D)"
  by (auto simp: agree_def fdc_sense_drive_status_def split: prod.splits)

lemma agree_case: "(\<And>v. agree (deep_var n) (h v) (h' v)) \<Longrightarrow> agree (deep_var n) (\<lambda>(s, v). h v (s, g v)) (\<lambda>(s, v). h' v (s, g v))"
  unfolding agree_def by auto

lemma agree_read_bits:
  assumes "\<And>c. agree (deep n) (send c) (send' c)"
  shows "agree (deep_var n) (read_bits D send k i) (read_bits D send' k i)"
proof (induction k arbitrary: i)
  case (Suc k)
  show ?case unfolding read_bits.simps by (intro agree_seq agree_on_drive assms agree_sense agree_case Suc)
qed (auto intro!: agree_seq agree_on_drive assms agree_sense)

lemma agree_report_operation:
  assumes "\<And>c. agree (deep n) (send c) (send' c)"
  shows "agree (deep_var n) (report_operation D send c k) (report_operation D send' c k)"
proof -
  have "agree (deep n) (await_ack D t) (await_ack D t)" for t
    using await_ack_level [of D t] by (fastforce simp: agree_def)
  then have tail: "agree (deep_var n)
      (\<lambda>(s1, _). seq (read_bits D send k 0) (\<lambda>_. catch (on_drive (send QIC_REPORT_NEXT_BIT)) (\<lambda>_. ok ())) (s1, 0))
      (\<lambda>(s1, _). seq (read_bits D send' k 0) (\<lambda>_. catch (on_drive (send' QIC_REPORT_NEXT_BIT)) (\<lambda>_. ok ())) (s1, 0))"
    by (intro agree_case agree_seq agree_catch agree_read_bits agree_on_drive agree_ok assms)
  show ?thesis unfolding report_operation_def
  proof (intro agree_seq agree_on_drive assms agreeI)
    fix s :: "'a drive_state \<times> int"
    assume s: "deep_var n s"
    let ?k = "\<lambda>send (s, v). seq (on_drive (await_ack D (v_jiffies D (d_world s)))) (\<lambda>_ (s1, _).
        seq (read_bits D send k 0) (\<lambda>_. catch (on_drive (send QIC_REPORT_NEXT_BIT)) (\<lambda>_. ok ())) (s1, 0)) (s, v)"
    have "agree (deep_var n) (seq (on_drive (await_ack D t)) (\<lambda>_ (s1, _). seq (read_bits D send k 0) (\<lambda>_. catch (on_drive (send QIC_REPORT_NEXT_BIT)) (\<lambda>_. ok ())) (s1, 0)))
      (seq (on_drive (await_ack D t)) (\<lambda>_ (s1, _). seq (read_bits D send' k 0) (\<lambda>_. catch (on_drive (send' QIC_REPORT_NEXT_BIT)) (\<lambda>_. ok ())) (s1, 0)))" for t
      by (intro agree_seq agree_on_drive tail \<open>\<And>t. agree (deep n) (await_ack D t) (await_ack D t)\<close>)
    note A = agreeD [OF this s]
    show "?k send s = ?k send' s" using A(1) by (cases s) simp
    show "deep_var n s1" if "?k send s = Some (s1, r)" for s1 r using A(2) that by (cases s) simp
  qed
qed

lemma agree_note: "agree (deep_var n) note_status note_status"
  by (auto simp: agree_def note_status_def Let_def split: if_splits)

lemma agree_status:
  assumes "\<And>c. agree (deep n) (send c) (send' c)"
  shows "agree (deep_var n) (report_raw_drive_status D send) (report_raw_drive_status D send')"
proof -
  have "agree (deep_var n) (repeat_status D send k) (repeat_status D send' k)" for k
  proof (induction k)
    case 0
    show ?case by (subst (1 2) repeat_status.simps) (auto intro!: agree_catch agree_report_operation assms split: sum.split)
  next
    case (Suc k)
    then show ?case by (subst (1 2) repeat_status.simps) (auto intro!: agree_catch agree_report_operation assms split: sum.split)
  qed
  then show ?thesis unfolding report_raw_drive_status_def by (intro agree_seq agree_note)
qed

lemma agree_error:
  assumes "\<And>c. agree (deep n) (send c) (send' c)"
  shows "agree (deep n) (report_error D send) (report_error D send')"
  unfolding report_error_def
  by (intro agree_seq agree_local agree_report_operation assms) (auto simp: agree_def Let_def)

lemma agree_partial:
  assumes "\<And>s y. f s = Some y \<Longrightarrow> P s \<Longrightarrow> f' s = Some y \<and> P (fst y)" "\<And>s y. f' s = Some y \<Longrightarrow> P s \<Longrightarrow> f s = Some y \<and> P (fst y)"
  shows "agree P f f'"
proof (rule agreeI)
  fix s assume s: "P s"
  show "f s = f' s" using assms [of s] s by (cases "f s"; cases "f' s") auto
  show "P s1" if "f s = Some (s1, r)" for s1 r using assms(1) [OF that s] by simp
qed

lemma wait_loop_deep:
  "wait_loop D send limit delay timeout tries sv = Some y \<Longrightarrow> agree (deep_var n) (report_raw_drive_status D send) (report_raw_drive_status D send')
    \<Longrightarrow> deep_var n sv \<Longrightarrow> wait_loop D send' limit delay timeout tries sv = Some y \<and> deep_var n (fst y)"
proof (induction rule: wait_loop.raw_induct [rotated, consumes 1])
  case (1 f D send limit delay timeout tries sv y)
  obtain s1 v1 r where raw: "report_raw_drive_status D send sv = Some ((s1, v1), r)"
    using 1(2) by (auto simp: seq_def bind_eq_Some_conv Let_def)
  note raw' = agreeD(1) [OF 1(3,4), unfolded raw, symmetric] and n1 = agreeD(2) [OF 1(3,4) raw]
  show ?case
  proof (cases r)
    case (Inl e)
    then show ?thesis using 1(2) raw raw' n1 by (subst wait_loop.simps) (auto simp: seq_def Let_def)
  next
    case (Inr u)
    then show ?thesis using 1(2) raw raw' n1
      by (subst wait_loop.simps) (auto simp: seq_def Let_def ftape_sleep_def split: if_splits dest: 1(1) [OF _ 1(3)])
  qed
qed

lemma agree_ready_wait:
  assumes "\<And>c. agree (deep n) (send c) (send' c)"
  shows "agree (deep_var n) (ready_wait D send t) (ready_wait D send' t)"
proof -
  note A = agree_status [of n send send' D, OF assms]
  have "agree (deep_var n) (wait_loop D send limit 0 t k) (wait_loop D send' limit 0 t k)" for limit k
    by (rule agree_partial) (use wait_loop_deep A agree_sym [OF A] in blast)+
  then show ?thesis by (simp add: ready_wait_def split: prod.split)
qed

lemma wait_until_ready_deep:
  "wait_until_ready D send c sv = Some y \<Longrightarrow> (\<And>t. agree (deep_var n) (ready_wait D send t) (ready_wait D send' t))
    \<Longrightarrow> deep_var n sv \<Longrightarrow> wait_until_ready D send' c sv = Some y \<and> deep_var n (fst y)"
proof (induction rule: wait_until_ready.raw_induct [rotated, consumes 1])
  case (1 f D send c sv y)
  show ?case
  proof (cases "difference c (snd sv) AND QIC_STATUS_READY = 0")
    case True
    then show ?thesis using 1(2,4) by (subst wait_until_ready.simps) auto
  next
    case False
    then obtain sv1 r where w: "ready_wait D send (t_seek (d_timeout (fst sv))) sv = Some (sv1, r)"
      using 1(2) by (auto simp: bind_eq_Some_conv)
    note w' = agreeD(1) [OF 1(3) 1(4), symmetric, of "t_seek (d_timeout (fst sv))"] and n1 = agreeD(2) [OF 1(3) 1(4) w]
    show ?thesis using 1(2) False w w' n1
      by (subst wait_until_ready.simps) (auto split: if_splits dest: 1(1) [OF _ 1(3)])
  qed
qed

lemma clear_errors_deep:
  "clear_errors D send c sv = Some y \<Longrightarrow> agree (deep_var n) (on_drive (report_error D send)) (on_drive (report_error D send'))
    \<Longrightarrow> agree (deep_var n) (report_raw_drive_status D send) (report_raw_drive_status D send')
    \<Longrightarrow> deep_var n sv \<Longrightarrow> clear_errors D send' c sv = Some y \<and> deep_var n (fst y)"
proof (induction rule: clear_errors.raw_induct [rotated, consumes 1])
  case (1 f D send c sv y)
  show ?case
  proof (cases "difference c (snd sv) AND QIC_STATUS_ERROR = 0")
    case True
    then show ?thesis using 1(2,5) by (subst clear_errors.simps) auto
  next
    case False
    then obtain sv1 r1 s2 v2 r2 where w: "on_drive (report_error D send) sv = Some (sv1, r1)" "report_raw_drive_status D send sv1 = Some ((s2, v2), r2)"
      using 1(2) by (auto simp: bind_eq_Some_conv seq_def)
    note n1 = agreeD(2) [OF 1(3,5) w(1)]
    note w' = agreeD(1) [OF 1(3,5), unfolded w(1), symmetric] agreeD(1) [OF 1(4) n1, unfolded w(2), symmetric] and n2 = agreeD(2) [OF 1(4) n1 w(2)]
    show ?thesis using 1(2) False w w' n2
      by (subst clear_errors.simps) (auto simp: seq_def split: if_splits sum.splits dest: 1(1) [OF _ 1(3,4)])
  qed
qed

lemma agree_pair: "(\<And>s v. agree P (m s v) (m' s v)) \<Longrightarrow> agree P (\<lambda>(s, v). m s v (s, v)) (\<lambda>(s, v). m' s v (s, v))"
  by (fastforce simp: agree_def)

lemma agree_if: "agree P m m' \<Longrightarrow> agree P k k' \<Longrightarrow> agree P (if b then m else k) (if b then m' else k')"
  by simp

lemma agree_check:
  assumes "\<And>c. agree (deep n) (send c) (send' c)"
  shows "agree (deep n) (check_cmd_restrictions D send command) (check_cmd_restrictions D send' command)"
proof -
  note S = agree_status [of n send send' D, OF assms] and R = agree_ready_wait [of n send send' D, OF assms] and E = agree_on_drive [OF agree_error [of n send send' D, OF assms]]
  have U: "agree (deep_var n) (wait_until_ready D send c) (wait_until_ready D send' c)" for c
    by (rule agree_partial) (use wait_until_ready_deep [OF _ R] wait_until_ready_deep [OF _ agree_sym [OF R]] in blast)+
  have C: "agree (deep_var n) (clear_errors D send c) (clear_errors D send' c)" for c
    by (rule agree_partial) (use clear_errors_deep [OF _ E S] clear_errors_deep [OF _ agree_sym [OF E] agree_sym [OF S]] in blast)+
  have F: "agree (deep_var n) (refuse c) (refuse c)" for c
    by (auto simp: agree_def refuse_def split: if_splits)
  have M: "agree (deep_var n) (wait_for_motion D send command) (wait_for_motion D send' command)"
    unfolding wait_for_motion_def by (intro agree_pair agree_if agree_seq agree_catch agree_ok S R)
  let ?m = "\<lambda>send. seq (wait_for_motion D send command) (\<lambda>_ (s1, v1).
          (if cmd_mask (qic117_cmds ! command) = 0 then ok ()
           else seq (if v1 = -1 then report_raw_drive_status D send else ok ()) (\<lambda>_.
             seq (wait_until_ready D send command) (\<lambda>_. seq (clear_errors D send command) (\<lambda>_. refuse command)))) (s1, v1))"
  have A: "agree (deep_var n) (?m send) (?m send')" by (intro agree_pair agree_if agree_seq agree_ok M S U C F)
  show ?thesis
  proof (rule agreeI)
    fix s :: "'a drive_state" assume "deep n s"
    then have s: "deep_var n (s, -1)" by simp
    show "check_cmd_restrictions D send command s = check_cmd_restrictions D send' command s"
      by (simp only: check_cmd_restrictions_def agreeD(1) [OF A s])
    show "deep n s1" if "check_cmd_restrictions D send command s = Some (s1, r)" for s1 r
      using that agreeD(2) [OF A s] by (auto simp: check_cmd_restrictions_def split: if_splits)
  qed
qed

lemma send_command_level: "send_command D c s = Some (s1, r) \<Longrightarrow> d_level s1 = d_level s - 1"
  by (auto simp: send_command_def ft_send_to_drive_def fdc_seek_def ftape_sleep_def set_level_def Let_def bind_eq_Some_conv split: prod.splits if_splits)

lemma agree_body:
  assumes "\<And>c. agree (deep (n + 1)) (send c) (send' c)"
  shows "agree (deep n) (command_body D send c) (command_body D send' c)"
proof (rule agreeI)
  fix s :: "'a drive_state" assume "deep n s"
  then have s: "deep (n + 1) (set_level (\<lambda>n. n + 1) s)" by (simp add: set_level_def)
  note A = agree_check [of "n + 1" send send' D c, OF assms]
  show "command_body D send c s = command_body D send' c s" using agreeD(1) [OF A s] by (simp add: command_body_def Let_def)
  show "deep n s1" if run: "command_body D send c s = Some (s1, r)" for s1 r
  proof -
    let ?s = "set_level (\<lambda>n. n + 1) s"
    have unit: "b = Inr () \<or> (\<exists>e. b = Inl e)" for b :: "unit result" by (cases b) auto
    have sent: "deep n s1" if "send_command D c s2 = Some (s1, r)" "deep (n + 1) s2" for s2
      using send_command_level [OF that(1)] that(2) by simp
    consider "s1 = s" | "s1 = ?s" | "send_command D c ?s = Some (s1, r)"
      | s2 r2 where "check_cmd_restrictions D send c ?s = Some (s2, r2)" "s1 = set_level (\<lambda>n. n - 1) s2 \<or> send_command D c s2 = Some (s1, r)"
      using run unit by (auto simp: command_body_def Let_def bind_eq_Some_conv split: if_split_asm sum.split_asm)
    then show ?thesis
    proof cases
      case 4
      then have "deep (n + 1) s2" using agreeD(2) [OF A s] by simp
      then show ?thesis using 4(2) sent [of s2] by (auto simp: set_level_def)
    qed (use s \<open>deep n s\<close> sent [of ?s] in simp_all)
  qed
qed

lemma command_at_agree: "agree (deep (6 - int k)) (command_at D k c) (command_at D (Suc k) c)"
proof (induction k arbitrary: c)
  case 0
  show ?case by (auto simp: agree_def command_body_def)
next
  case (Suc k)
  have "agree (deep (6 - int (Suc k))) (command_body D (command_at D k) c) (command_body D (command_at D (Suc k)) c)"
  proof (rule agree_body)
    have e: "6 - int (Suc k) + 1 = 6 - int k" by simp
    show "agree (deep (6 - int (Suc k) + 1)) (command_at D k c) (command_at D (Suc k) c)" for c unfolding e by (rule Suc)
  qed
  moreover have "command_at D (Suc m) c = command_body D (command_at D m) c" for m by (rule ext) simp
  ultimately show ?case by simp
qed

lemma ftape_command_cases:
  assumes "0 \<le> d_level s"
  shows "ftape_command D c s = command_body D (ftape_command D) c s"
    and "ftape_command D c s = Some (s1, r) \<Longrightarrow> 0 \<le> d_level s1"
proof -
  have e: "6 - int 5 = 0 + 1" "6 - int 6 = 0" by simp_all
  have six: "command_at D 6 = command_at D (Suc 5)" by (rule arg_cong [of 6 "Suc 5"]) simp
  have "agree (deep (0 + 1)) (command_at D 5 c) (command_at D 6 c)" for c
    using command_at_agree [of 5 D c] unfolding e six .
  then have A: "agree (deep 0) (command_body D (command_at D 5) c) (command_body D (command_at D 6) c)" by (rule agree_body)
  have "command_body D (command_at D 5) c s = command_body D (command_at D 6) c s" by (rule agreeD(1) [where P = "deep 0", OF A assms])
  then show "ftape_command D c s = command_body D (ftape_command D) c s" unfolding ftape_command_def six command_at.simps(2) .
  show "0 \<le> d_level s1" if "ftape_command D c s = Some (s1, r)"
    using agreeD(2) [OF command_at_agree [of 6 D c, unfolded e(2)] assms that [unfolded ftape_command_def]] .
qed

lemma length_cmds: "length qic117_cmds = 56" by (simp add: qic117_cmds_def)

text \<open>
  The recursion of \<open>ftape_command\<close> through the status queries ends: \<open>ftape_command\<close> as defined here, with six levels, satisfies the recursive
  equation of the code, in which every query and every wait sends its commands with \<open>ftape_command\<close> again, whatever the drive answers, and the
  counter \<open>qic_cmd_level\<close>, which cuts the recursion off, is never negative.
\<close>

theorem command_recursion:
  assumes "0 \<le> d_level s"
  shows "ftape_command D c s = command_body D (ftape_command D) c s \<and> (\<forall>s1 r. ftape_command D c s \<noteq> Some (s1, r) \<or> 0 \<le> d_level s1)"
  using ftape_command_cases [OF assms] by blast

text \<open>
  A drive that cannot format makes the driver mute: each refused command \<open>QIC_ENTER_FORMAT_MODE\<close> leaves the counter of the recursion one higher, and
  after five of them every command to the drive fails, until the record of the drive is initialised again.
\<close>

theorem refused_format_blocks_commands:
  assumes "d_level s = 0" "d_cant_format s"
  shows "(\<forall>n<5. ftape_command D QIC_ENTER_FORMAT_MODE (set_level (\<lambda>l. l + int n) s) = Some (set_level (\<lambda>l. l + int (Suc n)) s, Inl EIO))
    \<and> (\<forall>c. ftape_command D c (set_level (\<lambda>l. l + 5) s) = Some (set_level (\<lambda>l. l + 5) s, Inl EIO))"
proof -
  have refused: "ftape_command D QIC_ENTER_FORMAT_MODE t = Some (set_level (\<lambda>l. l + 1) t, Inl EIO)" if "0 \<le> d_level t" "d_level t < 5" "d_cant_format t" for t
    unfolding ftape_command_cases(1) [OF that(1)] command_body_def using that(2,3) by (simp add: set_level_def Let_def length_cmds)
  have mute: "ftape_command D c t = Some (t, Inl EIO)" if "d_level t = 5" for c t
  proof -
    have "0 \<le> d_level t" using that by simp
    then show ?thesis unfolding ftape_command_cases(1) [OF \<open>0 \<le> d_level t\<close>] command_body_def using that by simp
  qed
  show ?thesis
  proof (intro conjI allI impI)
    fix n :: nat assume n: "n < 5"
    have "set_level (\<lambda>l. l + 1) (set_level (\<lambda>l. l + int n) s) = set_level (\<lambda>l. l + int (Suc n)) s" by (simp add: set_level_def)
    then show "ftape_command D QIC_ENTER_FORMAT_MODE (set_level (\<lambda>l. l + int n) s) = Some (set_level (\<lambda>l. l + int (Suc n)) s, Inl EIO)"
      using refused [of "set_level (\<lambda>l. l + int n) s"] n assms by (simp only: set_level_def drive_state.simps) simp
  next
    fix c show "ftape_command D c (set_level (\<lambda>l. l + 5) s) = Some (set_level (\<lambda>l. l + 5) s, Inl EIO)"
      by (rule mute) (simp add: set_level_def assms)
  qed
qed

section \<open>The answers of a drive\<close>

text \<open>
  A drive that behaves as QIC-117 demands: it holds the levels the line will have, the pulses of \<open>QIC_REPORT_NEXT_BIT\<close> go to the next
  level, and those of any other command bring the answer to it.
\<close>

definition answers :: "'e drive_env \<Rightarrow> ('e \<Rightarrow> bool list) \<Rightarrow> (nat \<Rightarrow> bool list) \<Rightarrow> bool" where
  "answers D levels reply \<longleftrightarrow>
    (\<forall>w b bs. levels w = b # bs \<longrightarrow> (\<exists>w1. v_sense D w = (w1, Inr b) \<and> levels w1 = levels w)) \<and>
    (\<forall>ms w. levels (v_sleep D ms w) = levels w) \<and>
    (\<forall>cylinder track w. \<exists>w1. v_seek D cylinder track w = ((w1, track), Inr True) \<and>
      levels w1 = (if \<bar>track - cylinder\<bar> = int QIC_REPORT_NEXT_BIT then tl (levels w) else reply (nat \<bar>track - cylinder\<bar>)))"

definition answering_drive :: "(nat \<Rightarrow> bool list) \<Rightarrow> bool list drive_env" where
  "answering_drive reply = \<lparr>v_seek = \<lambda>cylinder track w. ((if \<bar>track - cylinder\<bar> = 2 then tl w else reply (nat \<bar>track - cylinder\<bar>), track), Inr True),
     v_sense = \<lambda>w. (w, Inr (w \<noteq> [] \<and> hd w)), v_sleep = \<lambda>ms w. w, v_jiffies = \<lambda>w. 0, v_hz = 100, v_killed = \<lambda>w. False, v_signal = \<lambda>w. False,
     v_read_id = \<lambda>w. (w, No_Interrupt ETIME), v_fdc_ready = \<lambda>w. (w, Inr ()), v_reset = \<lambda>cylinder w. (w, cylinder), v_fdc_rate = \<lambda>rate w. (w, Inr ()),
     v_precomp = \<lambda>ns w. w, v_fifo = \<lambda>n w. (w, Inr ()), v_motor = \<lambda>on w. w, v_unset = 0\<rparr>"

lemma answering_drive_answers: "answers (answering_drive reply) (\<lambda>w. w) reply"
  by (auto simp: answers_def answering_drive_def)

lemma answers_sense: "answers D levels reply \<Longrightarrow> levels (d_world s) = b # bs \<Longrightarrow>
    \<exists>w1. fdc_sense_drive_status D s = Some (s\<lparr>d_world := w1\<rparr>, Inr b) \<and> levels w1 = b # bs"
  by (fastforce simp: answers_def fdc_sense_drive_status_def)

lemma answers_pulses:
  assumes "answers D levels reply"
  shows "\<exists>s1. ft_send_to_drive D (int c) s = Some (s1, Inr ()) \<and> d_level s1 = d_level s \<and>
    levels (d_world s1) = (if c = QIC_REPORT_NEXT_BIT then tl (levels (d_world s)) else reply c)"
proof -
  have pulse: "\<exists>s1. fdc_seek D track t = Some (s1, Inr ()) \<and> d_level s1 = d_level t \<and>
      levels (d_world s1) = (if \<bar>track - d_cylinder t\<bar> = int QIC_REPORT_NEXT_BIT then tl (levels (d_world t)) else reply (nat \<bar>track - d_cylinder t\<bar>))" for track t
  proof -
    obtain w1 where "v_seek D (d_cylinder t) track (d_world t) = ((w1, track), Inr True)"
      "levels w1 = (if \<bar>track - d_cylinder t\<bar> = int QIC_REPORT_NEXT_BIT then tl (levels (d_world t)) else reply (nat \<bar>track - d_cylinder t\<bar>))"
      using assms unfolding answers_def by metis
    then show ?thesis by (simp add: fdc_seek_def)
  qed
  have slept: "levels (d_world (ftape_sleep D 3 s)) = levels (d_world s)" "d_level (ftape_sleep D 3 s) = d_level s"
    using assms by (simp_all add: answers_def ftape_sleep_def)
  let ?s = "ftape_sleep D 3 s"
  show ?thesis
    using pulse [of "d_cylinder ?s - int c" ?s] pulse [of "d_cylinder ?s + int c" ?s] slept
    by (auto simp: ft_send_to_drive_def Let_def)
qed

lemma answers_command:
  assumes D: "answers D levels reply" and level: "0 \<le> d_level s" "d_level s < 5"
    and c: "c < 56" "cmd_type (qic117_cmds ! c) = cmd_report" "cmd_mask (qic117_cmds ! c) = 0"
  shows "\<exists>s1. ftape_command D c s = Some (s1, Inr ()) \<and> d_level s1 = d_level s \<and>
    levels (d_world s1) = (if c = QIC_REPORT_NEXT_BIT then tl (levels (d_world s)) else reply c)"
proof -
  let ?s = "set_level (\<lambda>n. n + 1) s"
  have free: "check_cmd_restrictions D (ftape_command D) c ?s = Some (?s, Inr ())"
    using c by (simp add: check_cmd_restrictions_def length_cmds wait_for_motion_def seq_def ok_def)
  have not_format: "c \<noteq> QIC_ENTER_FORMAT_MODE" using c(2) by (auto simp: qic117_cmds_def cmd_def)
  have "ftape_command D c s = send_command D c ?s"
    unfolding ftape_command_cases(1) [OF level(1)] command_body_def using level c(1) not_format by (simp add: free length_cmds Let_def)
  then show ?thesis using answers_pulses [OF D, of c ?s] c by (auto simp: send_command_def length_cmds Let_def set_level_def)
qed

lemma next_bit:
  assumes D: "answers D levels reply" and level: "0 \<le> d_level s" "d_level s < 5"
  shows "\<exists>s1. ftape_command D QIC_REPORT_NEXT_BIT s = Some (s1, Inr ()) \<and> d_level s1 = d_level s \<and> levels (d_world s1) = tl (levels (d_world s))"
  using answers_command [OF assms, of QIC_REPORT_NEXT_BIT] by (simp add: qic117_cmds_def cmd_def)

lemma next_bit_sense:
  assumes D: "answers D levels reply" and level: "0 \<le> d_level s" "d_level s < 5" and line: "tl (levels (d_world s)) = b # bs"
  shows "\<exists>s1. seq (on_drive (ftape_command D QIC_REPORT_NEXT_BIT)) (\<lambda>_. seq (on_drive (fdc_sense_drive_status D)) k) (s, v) = k b (s1, v)
    \<and> d_level s1 = d_level s \<and> levels (d_world s1) = b # bs"
proof -
  obtain s1 where s1: "ftape_command D QIC_REPORT_NEXT_BIT s = Some (s1, Inr ())" "d_level s1 = d_level s" "levels (d_world s1) = b # bs"
    using next_bit [OF D level] line by auto
  then obtain w where "fdc_sense_drive_status D s1 = Some (s1\<lparr>d_world := w\<rparr>, Inr b)" "levels w = b # bs"
    using answers_sense [OF D] by blast
  with s1 show ?thesis by (intro exI [of _ "s1\<lparr>d_world := w\<rparr>"]) (simp add: seq_def on_drive_def)
qed

lemma read_bits_answer:
  assumes D: "answers D levels reply"
  shows "0 \<le> d_level s \<Longrightarrow> d_level s < 5 \<Longrightarrow> tl (levels (d_world s)) = bits @ True # rest \<Longrightarrow> v = horner_sum of_bool 2 seen \<Longrightarrow>
    \<exists>s1. read_bits D (ftape_command D) (length bits) (length seen) (s, v) = Some ((s1, horner_sum of_bool 2 (seen @ bits)), Inr ())
      \<and> d_level s1 = d_level s"
proof (induction bits arbitrary: s v seen)
  case Nil
  then show ?case using next_bit_sense [OF D Nil(1,2), of True rest "\<lambda>b. if b then ok () else fail EIO" v] by (auto simp: ok_def)
next
  case (Cons b bits)
  let ?v = "if b then v OR push_bit (length seen) 1 else v"
  have "tl (levels (d_world s)) = b # (bits @ True # rest)" using Cons.prems(3) by simp
  then obtain s1 where s1: "read_bits D (ftape_command D) (length (b # bits)) (length seen) (s, v)
      = read_bits D (ftape_command D) (length bits) (Suc (length seen)) (s1, ?v)" "d_level s1 = d_level s" "levels (d_world s1) = b # (bits @ True # rest)"
    using next_bit_sense [OF D Cons.prems(1,2), of b "bits @ True # rest"
        "\<lambda>b (s, v). read_bits D (ftape_command D) (length bits) (Suc (length seen)) (s, if b then v OR push_bit (length seen) 1 else v)" v]
    unfolding length_Cons read_bits.simps(2) by fastforce
  have "?v = horner_sum of_bool 2 (seen @ [b])"
    by (rule bit_eqI) (auto simp: Cons.prems(4) bit_horner_sum_bit_iff bit_or_iff bit_exp_iff nth_append)
  then have "\<exists>s2. read_bits D (ftape_command D) (length bits) (length (seen @ [b])) (s1, ?v)
      = Some ((s2, horner_sum of_bool 2 ((seen @ [b]) @ bits)), Inr ()) \<and> d_level s2 = d_level s1"
    using Cons.prems s1(2,3) by (intro Cons.IH) simp_all
  then show ?case using s1(1,2) by simp
qed

lemma report_answer:
  assumes "answers D levels reply" and "0 \<le> d_level s" "d_level s < 5"
    and "c < 56" "cmd_type (qic117_cmds ! c) = cmd_report" "cmd_mask (qic117_cmds ! c) = 0" "c \<noteq> QIC_REPORT_NEXT_BIT"
    and "reply c = True # bits @ True # rest"
  shows "\<exists>s1. ftape_report_operation D c (length bits) (s, v) = Some ((s1, horner_sum of_bool 2 bits), Inr ()) \<and> d_level s1 = d_level s"
proof -
  obtain s1 where s1: "ftape_command D c s = Some (s1, Inr ())" "d_level s1 = d_level s" "levels (d_world s1) = True # bits @ True # rest"
    using answers_command [OF assms(1-6)] assms(7,8) by auto
  have slept: "levels (d_world (ftape_sleep D 3 s1)) = True # bits @ True # rest" "d_level (ftape_sleep D 3 s1) = d_level s"
    using assms(1) s1 by (simp_all add: answers_def ftape_sleep_def)
  obtain w where w: "fdc_sense_drive_status D (ftape_sleep D 3 s1) = Some ((ftape_sleep D 3 s1)\<lparr>d_world := w\<rparr>, Inr True)" "levels w = True # bits @ True # rest"
    using answers_sense [OF assms(1) slept(1)] by blast
  let ?s = "(ftape_sleep D 3 s1)\<lparr>d_world := w\<rparr>"
  have ack: "await_ack D t s1 = Some (?s, Inr ())" for t by (subst await_ack.simps) (simp add: seq_def w)
  obtain s2 where s2: "read_bits D (ftape_command D) (length bits) 0 (?s, 0) = Some ((s2, horner_sum of_bool 2 bits), Inr ())" "d_level s2 = d_level s"
    using read_bits_answer [OF assms(1), of ?s bits rest 0 "[]"] assms(2,3) slept(2) w(2) by auto
  obtain s3 where "ftape_command D QIC_REPORT_NEXT_BIT s2 = Some (s3, Inr ())" "d_level s3 = d_level s"
    using next_bit [OF assms(1), of s2] s2(2) assms(2,3) by auto
  with s1(1) ack s2(1) show ?thesis by (simp add: ftape_report_operation_def report_operation_def seq_def catch_def on_drive_def ok_def)
qed

text \<open>
  The answer of a drive arrives: when the drive answers a query that needs no particular status as QIC-117 demands, with an acknowledge bit, the bits of the result
  and a stop bit, \<open>ftape_report_operation\<close> returns the number these bits denote, least significant bit first, and restores the level of commands.
\<close>

theorem report_operation_reads_answer:
  assumes "answers D levels reply" and "0 \<le> d_level s" "d_level s < 5"
    and "c < 56" "cmd_type (qic117_cmds ! c) = cmd_report" "cmd_mask (qic117_cmds ! c) = 0" "c \<noteq> QIC_REPORT_NEXT_BIT"
    and "reply c = True # bits @ True # rest"
  shows "\<exists>s1. ftape_report_operation D c (length bits) (s, v) = Some ((s1, horner_sum of_bool 2 bits), Inr ()) \<and> d_level s1 = d_level s"
  using report_answer [OF assms] .

lemma status_answer:
  assumes "answers D levels reply" "0 \<le> d_level s" "d_level s < 5" "reply QIC_REPORT_DRIVE_STATUS = True # bits @ True # rest" "length bits = 8"
  shows "\<exists>s1. repeat_status D (ftape_command D) 3 (s, v) = Some ((s1, horner_sum of_bool 2 bits), Inr ()) \<and> d_level s1 = d_level s"
proof -
  have "\<exists>s1. ftape_report_operation D QIC_REPORT_DRIVE_STATUS 8 (s, v) = Some ((s1, horner_sum of_bool 2 bits), Inr ()) \<and> d_level s1 = d_level s"
    using report_answer [OF assms(1-3), of QIC_REPORT_DRIVE_STATUS bits rest v] assms(4,5) by (simp add: qic117_cmds_def cmd_def)
  then show ?thesis by (subst repeat_status.simps) (auto simp: ftape_report_operation_def catch_def ok_def)
qed

lemma busy_answer:
  assumes "answers D levels reply" "0 \<le> d_level s" "d_level s < 5" "reply QIC_REPORT_DRIVE_STATUS = True # (False # bits) @ True # rest" "length bits = 7"
  shows "\<exists>s1 v1. report_raw_drive_status D (ftape_command D) (s, v) = Some ((s1, v1), Inr ()) \<and> d_level s1 = d_level s \<and> (word_of_int v1 :: u8) AND QIC_STATUS_READY = 0"
proof -
  let ?v = "horner_sum of_bool 2 (False # bits) :: int"
  obtain s1 where s1: "repeat_status D (ftape_command D) 3 (s, v) = Some ((s1, ?v), Inr ())" "d_level s1 = d_level s"
    using status_answer [OF assms(1-4), of v] assms(5) by auto
  have "\<not> bit ?v 0" by (simp add: bit_0)
  then have not_ready: "\<not> bit (word_of_int ?v :: u8) 0" by (simp add: bit_word_of_int_iff del: horner_sum_simps)
  then have masked: "(word_of_int ?v :: u8) AND QIC_STATUS_READY = 0" by (simp only: and_one_eq mod2_eq_if bit_0 if_False if_True not_not)
  have "(word_of_int ?v :: u8) \<noteq> 0xff"
  proof
    assume full: "(word_of_int ?v :: u8) = 0xff"
    show False using not_ready unfolding full by simp
  qed
  with masked s1 show ?thesis
    by (auto simp: report_raw_drive_status_def seq_def note_status_def Let_def simp del: horner_sum_simps)
qed

text \<open>While the polls take no measurable time, the wait of a timeout of whole seconds passes over zero: the delays grow to a second.\<close>

definition misses_zero :: "u32 \<Rightarrow> u32 \<Rightarrow> u32 \<Rightarrow> bool" where
  "misses_zero T delay timeout \<longleftrightarrow>
    (\<exists>i<10. delay = 100 * word_of_nat i \<and> timeout = T - 50 * word_of_nat (i * (i + 1))) \<or> delay = 1000 \<and> (\<exists>x. x mod 8 = 4 \<and> timeout = word_of_int x)"

lemma small_nonzero:
  assumes "x \<noteq> 0" "\<bar>x\<bar> < 4294967296"
  shows "word_of_int x \<noteq> (0 :: u32)"
proof
  assume "word_of_int x = (0 :: u32)"
  then have "(2 :: int) ^ 32 dvd x" by (simp add: word_of_int_eq_0_iff)
  with dvd_imp_le_int [OF assms(1), of "2 ^ 32"] assms(2) show False by simp
qed

lemma misses_zero_next:
  assumes T: "T = word_of_nat (1000 * k)" "2 \<le> k" "k < 20" and m: "misses_zero T delay timeout"
  shows "timeout \<noteq> 0"
    and "misses_zero T (if delay < 1000 then delay + 100 else delay) (timeout - (if delay < 1000 then delay + 100 else delay))"
proof -
  have eight: "word_of_int x \<noteq> (0 :: u32)" if "x mod 8 = 4" for x
  proof
    assume "word_of_int x = (0 :: u32)"
    then have "(2 :: int) ^ 32 dvd x" by (simp add: word_of_int_eq_0_iff)
    then have "(8 :: int) dvd x" by (rule dvd_trans [rotated]) simp
    then show False using that by (simp add: dvd_eq_mod_eq_0)
  qed
  consider i where "i < 10" "delay = 100 * word_of_nat i" "timeout = T - 50 * word_of_nat (i * (i + 1))"
    | x where "delay = 1000" "x mod 8 = 4" "timeout = word_of_int x"
    using m by (auto simp: misses_zero_def)
  then have "timeout \<noteq> 0 \<and> misses_zero T (if delay < 1000 then delay + 100 else delay) (timeout - (if delay < 1000 then delay + 100 else delay))"
  proof cases
    case 1
    have timeout: "timeout = word_of_int (1000 * int k - 50 * int (i * (i + 1)))" by (simp add: 1(3) T(1))
    have i: "i = 0 \<or> i = 1 \<or> i = 2 \<or> i = 3 \<or> i = 4 \<or> i = 5 \<or> i = 6 \<or> i = 7 \<or> i = 8 \<or> i = 9" using 1(1) by auto
    have finite: "\<forall>k\<in>set [2..<20]. \<forall>i\<in>set [0..<10]. 20 * k \<noteq> i * (i + 1)" by code_simp
    have members: "k \<in> set [2..<20]" "i \<in> set [0..<10]" unfolding set_upt using 1(1) T(2,3) by (simp_all only: atLeastLessThan_iff le0 simp_thms)
    have "20 * k \<noteq> i * (i + 1)" by (rule bspec [OF bspec [OF finite members(1)] members(2)])
    then have "20 * int k \<noteq> int (i * (i + 1))" by (metis of_nat_eq_iff of_nat_mult of_nat_numeral)
    moreover have "i * (i + 1) \<le> 9 * 10" using 1(1) by (intro mult_le_mono) simp_all
    then have "int (i * (i + 1)) \<le> int (9 * 10)" "0 \<le> int (i * (i + 1))" by (simp_all only: of_nat_le_iff of_nat_0_le_iff)
    ultimately have nz: "1000 * int k - 50 * int (i * (i + 1)) \<noteq> 0" "\<bar>1000 * int k - 50 * int (i * (i + 1))\<bar> < 4294967296"
      using T(3) by linarith+
    have "timeout \<noteq> 0" unfolding timeout by (rule small_nonzero [OF nz])
    moreover have small: "100 * word_of_nat i < (1000 :: u32)" using i by auto
    moreover have "misses_zero T (delay + 100) (timeout - (delay + 100))"
    proof (cases "i = 9")
      case True
      have "1000 * int k - 5500 = 4 + (125 * int k - 688) * 8" by simp
      then have "(1000 * int k - 5500) mod 8 = 4" by (simp only: mod_mult_self1) simp
      moreover have "timeout - 1000 = word_of_int (1000 * int k - 5500)" unfolding timeout using True by simp
      ultimately show ?thesis using 1(2) True by (auto simp: misses_zero_def)
    next
      case False
      have "timeout - (delay + 100) = T - 50 * word_of_nat (Suc i * (Suc i + 1))" by (simp add: 1(2,3) algebra_simps)
      then show ?thesis using False 1(1,2) unfolding misses_zero_def by (intro disjI1 exI [of _ "Suc i"]) (simp add: algebra_simps)
    qed
    ultimately show ?thesis using 1(2) by simp
  next
    case 2
    then have "(x - 1000) mod 8 = 4" by presburger
    with 2 eight show ?thesis by (auto simp: misses_zero_def intro!: exI [of _ "x - 1000"])
  qed
  then show "timeout \<noteq> 0" "misses_zero T (if delay < 1000 then delay + 100 else delay) (timeout - (if delay < 1000 then delay + 100 else delay))"
    by blast+
qed

lemma wait_loop_busy:
  assumes D: "answers D levels reply" "reply QIC_REPORT_DRIVE_STATUS = True # (False # bits) @ True # rest" "length bits = 7"
    and T: "T = word_of_nat (1000 * k)" "2 \<le> k" "k < 20"
    and still: "\<And>w w'. v_jiffies D w = v_jiffies D w'" "\<And>w. \<not> v_killed D w"
  shows "wait_loop E send limit delay timeout tries sv = Some y \<Longrightarrow> E = D \<Longrightarrow> send = ftape_command D \<Longrightarrow> limit = 1000 \<Longrightarrow> misses_zero T delay timeout
    \<Longrightarrow> 0 \<le> d_level (fst sv) \<Longrightarrow> d_level (fst sv) < 5 \<Longrightarrow> False"
proof (induction rule: wait_loop.raw_induct [rotated, consumes 1])
  case (1 f E send limit delay timeout tries sv y)
  let ?delay = "if delay < 1000 then delay + 100 else delay"
  obtain s v where sv: "sv = (s, v)" by (cases sv)
  obtain s1 v1 where busy: "report_raw_drive_status D (ftape_command D) (s, v) = Some ((s1, v1), Inr ())" "d_level s1 = d_level s"
      "(word_of_int v1 :: u8) AND QIC_STATUS_READY = 0"
    using busy_answer [OF D(1) _ _ D(2,3), of s v] 1(7,8) sv by auto
  have no_time: "v_jiffies D (d_world s1) - v_jiffies D (d_world s) = 0" using still(1) [of "d_world s1" "d_world s"] by simp
  have "f D (ftape_command D) 1000 ?delay (timeout - ?delay) (tries - 1) (ftape_sleep D ?delay s1, v1) = Some y"
    using 1(2) busy misses_zero_next(1) [OF T 1(6)] still(2) no_time unfolding sv 1(3-5) by (simp add: seq_def Let_def split: if_split_asm)
  then show False
    using 1(7,8) busy(2) misses_zero_next(2) [OF T 1(6)] by (intro 1(1)) (auto simp: sv ftape_sleep_def split: if_split_asm)
qed

text \<open>
  A wait need not end at its timeout: the remaining time is unsigned, and only zero counts as used up. When the drive answers at once and is never ready,
  a wait of 2 to 19 seconds passes over zero and never ends.
\<close>

theorem ready_wait_ignores_timeout:
  assumes "answers D levels reply" "reply QIC_REPORT_DRIVE_STATUS = True # (False # bits) @ True # rest" "length bits = 7"
    and "\<And>w w'. v_jiffies D w = v_jiffies D w'" "\<And>w. \<not> v_killed D w" and "2 \<le> k" "k < 20" and "0 \<le> d_level s" "d_level s < 5"
  shows "ftape_ready_wait D (word_of_nat (1000 * k)) (s, v) = None"
proof -
  let ?T = "word_of_nat (1000 * k) :: u32"
  have "k \<in> set [2..<20]" unfolding set_upt using assms(6,7) by (simp only: atLeastLessThan_iff)
  moreover have "\<forall>k\<in>set [2..<20]. FT_SECOND < (word_of_nat (1000 * k) :: u32) \<and> (word_of_nat (1000 * k) :: u32) < 20 * FT_SECOND" by simp
  ultimately have "FT_SECOND < ?T" "?T < 20 * FT_SECOND" by (metis (no_types, lifting))+
  then have "poll_limit_of ?T = (1000, 2)" unfolding poll_limit_of_def by (simp only: if_P if_not_P not_le)
  moreover have "wait_loop D (ftape_command D) 1000 0 ?T 2 (s, v) = None"
  proof (rule ccontr)
    assume "wait_loop D (ftape_command D) 1000 0 ?T 2 (s, v) \<noteq> None"
    then obtain y where y: "wait_loop D (ftape_command D) 1000 0 ?T 2 (s, v) = Some y" by blast
    have "misses_zero ?T 0 ?T" unfolding misses_zero_def by (intro disjI1 exI [of _ 0]) simp
    from wait_loop_busy [OF assms(1-3) refl assms(6,7,4,5) y refl refl refl this] assms(8,9) show False by simp
  qed
  ultimately show ?thesis by (simp add: ftape_ready_wait_def ready_wait_def del: of_nat_mult)
qed

section \<open>Examples\<close>

definition sample_drive :: "bool list drive_state" where
  "sample_drive = \<lparr>d_ft = blank_info fmt_normal, d_cylinder = 20, d_level = 0, d_diagnostic = False, d_cant_format = True, d_drive_status = 0,
     d_error_command = 0, d_error_code = 0, d_timeout = \<lparr>t_seek = 10000, t_reset = 20000, t_rewind = 300000, t_head_seek = 15000, t_stop = 5000, t_pause = 10000\<rparr>,
     d_first_time = True, d_wind_time = 0, d_vendor = -1, d_speed = 0, d_wake_up = unknown_wake_up, d_drive_config = 0, d_tape_status = 0, d_max_rate = 0,
     d_rate_supported = False, d_bad_bus_timing = False, d_init_needed = True, d_last_segment = 0, d_large_fifo = True, d_threshold = 8, d_head_retry = 0, d_world = []\<rparr>"

lemma command_recursion_witness:
  "ftape_command (answering_drive (\<lambda>_. [])) 8 sample_drive
    = command_body (answering_drive (\<lambda>_. [])) (ftape_command (answering_drive (\<lambda>_. []))) 8 sample_drive"
  using command_recursion [of sample_drive "answering_drive (\<lambda>_. [])" 8] by (simp add: sample_drive_def)

lemma refused_format_blocks_commands_witness:
  "ftape_command (answering_drive (\<lambda>_. [])) QIC_REPORT_DRIVE_STATUS (set_level (\<lambda>l. l + 5) sample_drive)
    = Some (set_level (\<lambda>l. l + 5) sample_drive, Inl EIO)"
  using refused_format_blocks_commands [of sample_drive "answering_drive (\<lambda>_. [])"] by (simp add: sample_drive_def)

lemma report_operation_reads_answer_witness:
  "\<exists>s1. ftape_report_operation (answering_drive (\<lambda>c. True # [True, False, True, False, False, True, False, False] @ [True])) QIC_REPORT_DRIVE_STATUS 8 (sample_drive, 7)
    = Some ((s1, 37), Inr ())"
proof -
  have eight: "length [True, False, True, False, False, True, False, False] = 8" by simp
  show ?thesis
  using report_operation_reads_answer [OF answering_drive_answers, of sample_drive QIC_REPORT_DRIVE_STATUS "\<lambda>c. True # [True, False, True, False, False, True, False, False] @ [True]"
      "[True, False, True, False, False, True, False, False]" "[]" 7, unfolded eight]
  by (auto simp: sample_drive_def qic117_cmds_def cmd_def)
qed

lemma ready_wait_ignores_timeout_witness:
  "ftape_ready_wait (answering_drive (\<lambda>c. True # (False # replicate 7 False) @ [True])) (word_of_nat (1000 * 10)) (sample_drive, 0) = None"
  using ready_wait_ignores_timeout [OF answering_drive_answers, of "\<lambda>c. True # (False # replicate 7 False) @ [True]" "replicate 7 False" "[]" 10 sample_drive 0]
  by (simp add: answering_drive_def sample_drive_def)

end
