(* ===== verification/Ft_Drive.thy ===== *)
theory Ft_Drive
  imports Ft_Command
begin

text \<open>
  What the driver does with the commands of \<open>Ft_Command\<close> (\<open>src/ftape/lowlevel/ftape-io.c\<close>, \<open>ftape-ctl.c\<close>): queries of the drive,
  its data rate, waking it up and resetting it, the door of the loader, winding, time-outs and the start-up with a cartridge.

  Data rates are in Kbps; they are at most 4000, and kept as \<open>int\<close>.
\<close>

unbundle bit_operations_syntax

lemma command_body_cases [consumes 1]:
  assumes "command_body D send c s = Some (s1, r)"
  obtains "s1 = s" | "s1 = set_level (\<lambda>n. n + 1) s" | "send_command D c (set_level (\<lambda>n. n + 1) s) = Some (s1, r)"
    | s2 r2 where "check_cmd_restrictions D send c (set_level (\<lambda>n. n + 1) s) = Some (s2, r2)"
        "s1 = set_level (\<lambda>n. n - 1) s2 \<or> send_command D c s2 = Some (s1, r)"
proof -
  have unit: "b = Inr () \<or> (\<exists>e. b = Inl e)" for b :: "unit result" by (cases b) auto
  show ?thesis using that assms unit by (auto simp: command_body_def Let_def bind_eq_Some_conv split: if_split_asm sum.split_asm)
qed

section \<open>Programs over the state\<close>

definition look :: "('s \<Rightarrow> ('s, 'a) op) \<Rightarrow> ('s, 'a) op" where "look k s = k s s"

definition modify :: "('s \<Rightarrow> 's) \<Rightarrow> ('s, unit) op" where "modify f s = Some (f s, Inr ())"

text \<open>\<open>ignore\<close> drops the result of a call; \<open>with_var\<close> is a block with a variable \<open>status\<close> that is not set at first.\<close>

definition ignore :: "('s, 'a) op \<Rightarrow> ('s, unit) op" where "ignore m = catch m (\<lambda>_. ok ())"

definition with_var :: "'e drive_env \<Rightarrow> ('e drive_state \<times> int, 'a) op \<Rightarrow> ('e drive_state, 'a) op" where
  "with_var D m s = map_option (\<lambda>((s1, _), r). (s1, r)) (m (s, v_unset D))"

definition status_bit :: "int \<Rightarrow> u8 \<Rightarrow> bool" where "status_bit v b \<longleftrightarrow> (word_of_int v :: u8) AND b \<noteq> 0"

definition modify_ft :: "(ftape_info \<Rightarrow> ftape_info) \<Rightarrow> 'e drive_state \<Rightarrow> 'e drive_state" where
  "modify_ft f s = s\<lparr>d_ft := f (d_ft s)\<rparr>"

definition query :: "'e drive_env \<Rightarrow> nat \<Rightarrow> nat \<Rightarrow> ('e drive_state, int) op" where
  "query D c n = local_status (ftape_report_operation D c n)"

definition to_world :: "('e \<Rightarrow> 'e \<times> unit result) \<Rightarrow> ('e drive_state, unit) op" where
  "to_world f s = (case f (d_world s) of (w, r) \<Rightarrow> Some (s\<lparr>d_world := w\<rparr>, r))"

definition fdc_reset :: "'e drive_env \<Rightarrow> 'e drive_state \<Rightarrow> 'e drive_state" where
  "fdc_reset D s = (case v_reset D (d_cylinder s) (d_world s) of (w, cylinder) \<Rightarrow> s\<lparr>d_world := w, d_cylinder := cylinder\<rparr>)"

definition fdc_motor :: "'e drive_env \<Rightarrow> bool \<Rightarrow> 'e drive_state \<Rightarrow> 'e drive_state" where
  "fdc_motor D on s = ftape_sleep D 10 (s\<lparr>d_world := v_motor D on (d_world s)\<rparr>)"

text \<open>What a program that succeeds has done.\<close>

named_theorems success

lemma seq_success [success]: "seq m k s = Some (s1, Inr y) \<longleftrightarrow> (\<exists>s0 x. m s = Some (s0, Inr x) \<and> k x s0 = Some (s1, Inr y))"
proof (cases "m s")
  case (Some z)
  then show ?thesis by (cases z, cases "snd z") (auto simp: seq_def)
qed (simp add: seq_def)

lemma catch_success [success]: "catch m k s = Some z \<longleftrightarrow> (\<exists>s0 r. m s = Some (s0, r) \<and> k r s0 = Some z)"
  by (auto simp: catch_def bind_eq_Some_conv)

lemma basic_success [success]:
  "ok x s = Some (s1, Inr y) \<longleftrightarrow> s1 = s \<and> y = x" "fail e s \<noteq> Some (s1, Inr y)" "look k s = Some z \<longleftrightarrow> k s s = Some z"
  "modify f s = Some (s1, Inr u) \<longleftrightarrow> s1 = f s"
  "on_drive m sv = Some (sv1, r) \<longleftrightarrow> m (fst sv) = Some (fst sv1, r) \<and> snd sv1 = snd sv"
  by (auto simp: ok_def fail_def look_def modify_def on_drive_def split: prod.split)

lemma case_success [success]:
  "(case r of Inl e \<Rightarrow> a e | Inr x \<Rightarrow> b x) s = Some z \<longleftrightarrow> (\<exists>e. r = Inl e \<and> a e s = Some z) \<or> (\<exists>x. r = Inr x \<and> b x s = Some z)"
  by (cases r) auto

lemma with_var_success [success]: "with_var D m s = Some (s1, r) \<longleftrightarrow> (\<exists>v. m (s, v_unset D) = Some ((s1, v), r))"
  by (auto simp: with_var_def)

section \<open>Queries\<close>

abbreviation QIC_STATUS_WRITE_PROTECT :: u8 where "QIC_STATUS_WRITE_PROTECT \<equiv> 0x08"
abbreviation QIC_STATUS_AT_BOT :: u8 where "QIC_STATUS_AT_BOT \<equiv> 0x40"
abbreviation QIC_STATUS_AT_EOT :: u8 where "QIC_STATUS_AT_EOT \<equiv> 0x80"

definition ftape_command_wait :: "'e drive_env \<Rightarrow> nat \<Rightarrow> u32 \<Rightarrow> ('e drive_state \<times> int, unit) op" where
  "ftape_command_wait D command timeout = seq (on_drive (ftape_command D command)) (\<lambda>_. ftape_ready_wait D timeout)"

definition ftape_parameter_wait :: "'e drive_env \<Rightarrow> int \<Rightarrow> u32 \<Rightarrow> ('e drive_state \<times> int, unit) op" where
  "ftape_parameter_wait D parm timeout = seq (on_drive (ftape_parameter D parm)) (\<lambda>_. ftape_ready_wait D timeout)"

text \<open>The result \<open>True\<close> is the value 1, which asks the caller to handle the error of the drive.\<close>

definition ftape_report_drive_status :: "'e drive_env \<Rightarrow> ('e drive_state \<times> int, bool) op" where
  "ftape_report_drive_status D =
    seq (ftape_report_raw_drive_status D) (\<lambda>_ (s, v).
      if status_bit v QIC_STATUS_NEW_CARTRIDGE \<or> \<not> status_bit v QIC_STATUS_CARTRIDGE_PRESENT then
        Some ((modify_ft (\<lambda>ft. ft\<lparr>ft_failure := True\<rparr>) s, v), Inl EIO)
      else Some ((s, v), Inr (status_bit v QIC_STATUS_READY \<and> status_bit v QIC_STATUS_ERROR)))"

datatype qic_model = prehistoric | pre_qic117c | post_qic117b | post_qic117d

record qic_config =
  c_model :: qic_model
  c_rate :: int
  c_std :: qic_std_t
  c_len :: int

definition qic_rates :: "int list" where "qic_rates = [250, 2000, 500, 1000]"

definition tape_standard :: "int \<Rightarrow> qic_std_t" where
  "tape_standard status = (let std = status AND 0x0f in
     if std = 1 then QIC_40 else if std = 2 then QIC_80 else if std = 4 then QIC_3010 else if std = 3 then QIC_3020 else QIC_UNKNOWN)"

definition tape_length :: "int \<Rightarrow> int" where
  "tape_length status = (let l = status AND 0x70 in
     if l = 0x10 then 0 else if l = 0x20 then 307 else if l = 0x30 then 0 else if l = 0x40 then 1100 else if l = 0x60 then 0 else -1)"

text \<open>
  The flag tells that the length of the tape is unknown: the code reports it as \<open>EIO\<close>, after it has stored the four results. \<open>Inl\<close> is
  \<open>EIO\<close> with nothing stored.
\<close>

definition ftape_report_configuration :: "'e drive_env \<Rightarrow> ('e drive_state, qic_config \<times> bool) op" where
  "ftape_report_configuration D =
    catch (query D 8 8) (\<lambda>r. case r of
      Inl _ \<Rightarrow> seq (modify (\<lambda>s. s\<lparr>d_drive_config := 0\<rparr>)) (\<lambda>_. ok (\<lparr>c_model = prehistoric, c_rate = 500, c_std = QIC_40, c_len = 205\<rparr>, False))
    | Inr config \<Rightarrow> seq (modify (\<lambda>s. s\<lparr>d_drive_config := word_of_int config\<rparr>)) (\<lambda>_.
        seq (look (\<lambda>s. if ditto_max_ext (d_ft s)
            then catch (query D 51 8) (\<lambda>r. case r of Inl _ \<Rightarrow> fail EIO | Inr ext \<Rightarrow> ok ((ext AND 7) * 1000))
            else ok (qic_rates ! nat (drop_bit 3 (config AND 0x18))))) (\<lambda>rate.
        catch (query D 33 8) (\<lambda>r. case r of
          Inl _ \<Rightarrow> seq (modify (\<lambda>s. s\<lparr>d_tape_status := 0\<rparr>)) (\<lambda>_.
            ok (\<lparr>c_model = pre_qic117c, c_rate = rate, c_std = (if config AND 0x80 \<noteq> 0 then QIC_80 else QIC_40),
              c_len = (if config AND 0x40 \<noteq> 0 then 307 else 0)\<rparr>, False))
        | Inr status \<Rightarrow> seq (modify (\<lambda>s. s\<lparr>d_tape_status := word_of_int status\<rparr>)) (\<lambda>_.
            ok (\<lparr>c_model = post_qic117b, c_rate = rate, c_std = tape_standard status, c_len = tape_length status\<rparr>, tape_length status = -1))))))"

definition ftape_report_rom_version :: "'e drive_env \<Rightarrow> ('e drive_state, int) op" where
  "ftape_report_rom_version D = catch (query D 9 8) (\<lambda>r. case r of Inl _ \<Rightarrow> fail EIO | Inr version \<Rightarrow> ok version)"

text \<open>The vendor: 16 bits, else 8 bits, else an undocumented query. Drives with the id 0x47 are told apart by a query in diagnostic mode.\<close>

abbreviation UNKNOWN_VENDOR :: u32 where "UNKNOWN_VENDOR \<equiv> -1"

definition raw_vendor_id :: "'e drive_env \<Rightarrow> ('e drive_state, u32) op" where
  "raw_vendor_id D =
    catch (query D 32 16) (\<lambda>r. case r of Inr i \<Rightarrow> ok (word_of_int i) | Inl _ \<Rightarrow>
      catch (query D 32 8) (\<lambda>r. case r of Inr i \<Rightarrow> ok (word_of_int i OR 0x10000) | Inl _ \<Rightarrow>
        catch (query D 24 8) (\<lambda>r. case r of Inr i \<Rightarrow> ok (word_of_int i OR 0x20000) | Inl _ \<Rightarrow> ok UNKNOWN_VENDOR)))"

definition primary_mode :: "'e drive_env \<Rightarrow> u32 \<Rightarrow> ('e drive_state, u32) op" where
  "primary_mode D i = catch (ftape_command D 30) (\<lambda>_. seq (modify (\<lambda>s. s\<lparr>d_diagnostic := False\<rparr>)) (\<lambda>_. ok i))"

definition ftape_report_vendor_id :: "'e drive_env \<Rightarrow> ('e drive_state, u32) op" where
  "ftape_report_vendor_id D =
    seq (raw_vendor_id D) (\<lambda>i. if i \<noteq> 0x47 then ok i else
      catch (ftape_report_rom_version D) (\<lambda>r. case r of Inl _ \<Rightarrow> ok i | Inr version \<Rightarrow>
        seq (ignore (ftape_command D 28)) (\<lambda>_. seq (ignore (ftape_command D 28)) (\<lambda>_. seq (modify (\<lambda>s. s\<lparr>d_diagnostic := True\<rparr>)) (\<lambda>_.
          catch (query D 9 8) (\<lambda>r. case r of
            Inl _ \<Rightarrow> seq (ignore (ftape_report_error D)) (\<lambda>_. primary_mode D i)
          | Inr sign \<Rightarrow>
              if sign = 0xa5 then catch (query D 37 8) (\<lambda>r. primary_mode D (if (\<exists>e. r = Inl e) \<and> version \<ge> 63 then 0x8880 else 0x47))
              else primary_mode D UNKNOWN_VENDOR))))))"

section \<open>Winding and time-outs\<close>

definition ftape_not_operational :: "int \<Rightarrow> bool" where
  "ftape_not_operational status \<longleftrightarrow>
    status_bit (status XOR uint QIC_STATUS_CARTRIDGE_PRESENT) (QIC_STATUS_ERROR OR QIC_STATUS_CARTRIDGE_PRESENT OR QIC_STATUS_NEW_CARTRIDGE)"

text \<open>\<open>ftape_seek_to_eot\<close> and \<open>ftape_seek_to_bot\<close> have the same loop.\<close>

partial_function (option) wind_loop :: "'e drive_env \<Rightarrow> nat \<Rightarrow> u8 \<Rightarrow> ('e drive_state \<times> int, unit) op" where
  "wind_loop D command mark sv =
    (if status_bit (snd sv) mark then Some (sv, Inr ())
     else if ftape_not_operational (snd sv) then Some (sv, Inl EIO)
     else seq (ftape_command_wait D command (t_rewind (d_timeout (fst sv)))) (\<lambda>_. wind_loop D command mark) sv)"

definition wind :: "'e drive_env \<Rightarrow> nat \<Rightarrow> u8 \<Rightarrow> ('e drive_state, unit) op" where
  "wind D command mark = with_var D (look (\<lambda>sv. seq (ftape_ready_wait D (t_pause (d_timeout (fst sv)))) (\<lambda>_. wind_loop D command mark)))"

definition ftape_seek_to_eot :: "'e drive_env \<Rightarrow> ('e drive_state, unit) op" where "ftape_seek_to_eot D = wind D 12 QIC_STATUS_AT_EOT"

definition ftape_seek_to_bot :: "'e drive_env \<Rightarrow> ('e drive_state, unit) op" where "ftape_seek_to_bot D = wind D 11 QIC_STATUS_AT_BOT"

definition transport_speed :: "qic_std_t \<Rightarrow> int \<Rightarrow> int" where
  "transport_speed std rate = (case std of
     QIC_40 \<Rightarrow> if rate = 250 then 250 else 500
   | QIC_80 \<Rightarrow> if rate = 500 then 340 else 680
   | QIC_3010 \<Rightarrow> if rate = 500 then 226 else 452
   | QIC_3020 \<Rightarrow> if rate = 1000 then 226 else 452
   | DITTO_MAX \<Rightarrow> if rate = 3000 then 510 else if rate = 4000 then 680 else 340
   | QIC_UNKNOWN \<Rightarrow> 500)"

text \<open>The time to wind to the end and back, in milliseconds, and the speed of an unknown drive that follows from it.\<close>

definition measure_winding :: "'e drive_env \<Rightarrow> ('e drive_state, unit) op" where
  "measure_winding D =
    seq (ignore (ftape_seek_to_bot D)) (\<lambda>_. look (\<lambda>s0. seq (ignore (ftape_seek_to_eot D)) (\<lambda>_. seq (ignore (ftape_seek_to_bot D)) (\<lambda>_.
      modify (\<lambda>s. s\<lparr>d_wind_time := max 1 (int ((v_jiffies D (d_world s) - v_jiffies D (d_world s0)) * (1000000 div v_hz D) div 1000)),
        d_first_time := False\<rparr>)))))"

definition set_timeouts :: "int \<Rightarrow> u32 \<Rightarrow> 'e drive_state \<Rightarrow> 'e drive_state" where
  "set_timeouts speed len s =
    (let length = (if len = 0 then 1500 else sint len);
         ff_speed = (if d_speed s = 0 then speed else d_speed s);
         rewind = word_of_int (length * 144 * 1000 div (10 * ff_speed))
     in s\<lparr>d_timeout := (d_timeout s)\<lparr>t_seek := word_of_int (length * 132 * 1000 div speed), t_rewind := rewind, t_reset := 20 * FT_SECOND + rewind\<rparr>\<rparr>)"

definition ftape_calc_timeouts :: "'e drive_env \<Rightarrow> qic_std_t \<Rightarrow> int \<Rightarrow> u32 \<Rightarrow> ('e drive_state, unit) op" where
  "ftape_calc_timeouts D std rate len =
    seq (look (\<lambda>s. if d_speed s \<noteq> 0 then ok () else
      seq (if d_first_time s then measure_winding D else ok ()) (\<lambda>_.
        if len \<noteq> 0 then modify (\<lambda>s. s\<lparr>d_speed := sint (24 * len * 1000 div word_of_int (d_wind_time s))\<rparr>) else ok ()))) (\<lambda>_.
    modify (set_timeouts (transport_speed std rate) len))"

section \<open>Data rates\<close>

definition qic_rate_code :: "int \<Rightarrow> int" where
  "qic_rate_code rate = (if rate = 250 then 0 else if rate = 500 then 2 else if rate = 1000 then 3 else if rate = 2000 then 1 else 2)"

definition select_rate :: "'e drive_env \<Rightarrow> int \<Rightarrow> ('e drive_state \<times> int, unit) op" where
  "select_rate D rate = look (\<lambda>sv. ftape_parameter_wait D (if ditto_max_ext (d_ft (fst sv)) then rate div 1000 else qic_rate_code rate) FT_SECOND)"

definition rate_command :: "'e drive_state \<Rightarrow> nat" where "rate_command s = (if ditto_max_ext (d_ft s) then 50 else 27)"

definition try_rate :: "'e drive_env \<Rightarrow> int \<Rightarrow> ('e drive_state, bool) op" where
  "try_rate D rate =
    look (\<lambda>s. catch (ftape_command D (rate_command s)) (\<lambda>r. case r of Inl _ \<Rightarrow> ok False | Inr _ \<Rightarrow>
      with_var D (catch (select_rate D rate) (\<lambda>r. case r of Inl _ \<Rightarrow> ok False | Inr _ \<Rightarrow>
        look (\<lambda>sv. if status_bit (snd sv) QIC_STATUS_ERROR then catch (on_drive (ftape_report_error D)) (\<lambda>_. ok False) else ok True)))))"

text \<open>The loops over the rates; the second component is the value of the variable when no rate is accepted.\<close>

definition test_rates :: "bool \<Rightarrow> int list \<times> int" where
  "test_rates ext = (if ext then ([4000, 3000, 2000, 1000], 0) else ([2000, 1000, 500, 250], 125))"

fun try_rates :: "'e drive_env \<Rightarrow> int list \<Rightarrow> int \<Rightarrow> ('e drive_state, bool \<times> int) op" where
  "try_rates D [] final = ok (False, final)"
| "try_rates D (rate # rates) final = seq (try_rate D rate) (\<lambda>accepted. if accepted then ok (True, rate) else try_rates D rates final)"

definition ftape_set_rate_test :: "'e drive_env \<Rightarrow> ('e drive_state, unit) op" where
  "ftape_set_rate_test D =
    look (\<lambda>s. case test_rates (ditto_max_ext (d_ft s)) of (rates, final) \<Rightarrow>
      seq (try_rates D rates final) (\<lambda>(supported, rate). modify (\<lambda>s. s\<lparr>d_rate_supported := supported, d_max_rate := rate\<rparr>)))"

definition write_precomp :: "qic_std_t \<Rightarrow> int \<Rightarrow> int" where
  "write_precomp std rate = (if std = QIC_40 \<or> std = QIC_80 then if rate = 250 then 250 else if rate = 1000 then 42 else 125 else 0)"

definition request_rate :: "'e drive_env \<Rightarrow> int \<Rightarrow> ('e drive_state, unit) op" where
  "request_rate D rate =
    look (\<lambda>s. seq (ignore (ftape_command D (rate_command s))) (\<lambda>_.
      with_var D (seq (ignore (select_rate D rate)) (\<lambda>_.
        look (\<lambda>sv. if status_bit (snd sv) QIC_STATUS_ERROR then ignore (on_drive (ftape_report_error D)) else ok ())))))"

definition ftape_set_data_rate :: "'e drive_env \<Rightarrow> int \<Rightarrow> qic_std_t \<Rightarrow> ('e drive_state, unit) op" where
  "ftape_set_data_rate D new_rate std =
    seq (look (\<lambda>s. if d_max_rate s = 0 then ftape_set_rate_test D else ok ())) (\<lambda>_.
    seq (look (\<lambda>s. if d_rate_supported s then request_rate D new_rate else ok ())) (\<lambda>_.
    seq (ftape_report_configuration D) (\<lambda>(cfg, unknown_len).
      if unknown_len then fail EIO
      else if std = QIC_40 \<and> c_rate cfg > 500 \<or> std = QIC_80 \<and> c_rate cfg > 1000 then fail EINVAL
      else catch (to_world (v_fdc_rate D (c_rate cfg))) (\<lambda>r. case r of Inl _ \<Rightarrow> fail EINVAL | Inr _ \<Rightarrow>
        seq (modify (\<lambda>s. (modify_ft (\<lambda>ft. ft\<lparr>data_rate := c_rate cfg\<rparr>) s)\<lparr>d_world := v_precomp D (write_precomp std (c_rate cfg)) (d_world s)\<rparr>)) (\<lambda>_.
          if c_rate cfg \<noteq> new_rate then fail EINVAL else ok ())))))"

text \<open>The threshold of the fifo of the controller; a failure of the controller leaves it as it is, and is not reported.\<close>

definition ftape_increase_threshold :: "'e drive_env \<Rightarrow> ('e drive_state, unit) op" where
  "ftape_increase_threshold D =
    look (\<lambda>s. if \<not> d_large_fifo s \<or> d_threshold s \<ge> 16 then fail EIO
      else seq (modify (\<lambda>s. s\<lparr>d_threshold := d_threshold s + 1\<rparr>)) (\<lambda>_.
        catch (to_world (v_fifo D (d_threshold s + 1))) (\<lambda>r. case r of Inr _ \<Rightarrow> ok ()
          | Inl _ \<Rightarrow> modify (\<lambda>s. fdc_reset D (s\<lparr>d_threshold := d_threshold s - 1\<rparr>)))))"

definition ftape_half_data_rate :: "'e drive_env \<Rightarrow> ('e drive_state, unit) op" where
  "ftape_half_data_rate D =
    look (\<lambda>s. if data_rate (d_ft s) < 500 then fail EPERM
      else catch (ftape_set_data_rate D (if data_rate (d_ft s) > 2000 then data_rate (d_ft s) - 1000 else data_rate (d_ft s) div 2) (qic_std (d_ft s)))
        (\<lambda>r. case r of Inl _ \<Rightarrow> fail EIO | Inr _ \<Rightarrow> look (\<lambda>s. ftape_calc_timeouts D (qic_std (d_ft s)) (data_rate (d_ft s)) (tape_len (d_ft s)))))"

text \<open>\<open>lower_rate\<close> is the step of both loops of \<open>ftape_calibrate_data_rate\<close>; a rate is at most 4000, so that five steps are enough.\<close>

definition lower_rate :: "int \<Rightarrow> int" where "lower_rate rate = (if rate > 2000 then rate - 1000 else rate div 2)"

function fdc_rate_loop :: "'e drive_env \<Rightarrow> int \<Rightarrow> 'e drive_state \<Rightarrow> 'e drive_state \<times> int" where
  "fdc_rate_loop D rate s =
    (case v_fdc_rate D rate (d_world s) of (w, r) \<Rightarrow>
       if (\<exists>e. r = Inl e) \<and> rate > 250 then fdc_rate_loop D (lower_rate rate) (s\<lparr>d_world := w\<rparr>) else (s\<lparr>d_world := w\<rparr>, rate))"
  by pat_completeness auto
termination by (relation "measure (\<lambda>(D, rate, s). nat rate)") (auto simp: lower_rate_def)

partial_function (option) drive_rate_loop :: "'e drive_env \<Rightarrow> qic_std_t \<Rightarrow> int \<Rightarrow> 'e drive_state \<Rightarrow> ('e drive_state \<times> (unit result \<times> int)) option" where
  "drive_rate_loop D std rate s =
    Option.bind (ftape_set_data_rate D rate std s) (\<lambda>(s1, r).
      if r = Inl EINVAL \<and> rate > 250 then drive_rate_loop D std (lower_rate rate) s1 else Some (s1, (r, rate)))"

definition ftape_calibrate_data_rate :: "'e drive_env \<Rightarrow> int \<Rightarrow> qic_std_t \<Rightarrow> ('e drive_state, unit) op" where
  "ftape_calibrate_data_rate D rate_limit std s =
    (let s0 = modify_ft (\<lambda>ft. ft\<lparr>qic_std := std\<rparr>) s
     in if std = QIC_UNKNOWN then Some (s0, Inl EIO)
     else case fdc_rate_loop D rate_limit s0 of (s1, rate) \<Rightarrow>
       Option.bind (drive_rate_loop D std rate s1) (\<lambda>(s2, (r, rate)).
         case r of Inl _ \<Rightarrow> Some (s2, Inl EIO) | Inr _ \<Rightarrow> Some (modify_ft (\<lambda>ft. ft\<lparr>data_rate := rate\<rparr>) s2, Inr ())))"

section \<open>Waking up, reset and the door\<close>

text \<open>A drive is selected by a command or by its motor.\<close>

definition wakeup_status :: "'e drive_env \<Rightarrow> bool \<Rightarrow> ('e drive_state, unit) op" where
  "wakeup_status D motor_on =
    catch (with_var D (ftape_report_raw_drive_status D)) (\<lambda>r. case r of Inr _ \<Rightarrow> ok ()
      | Inl e \<Rightarrow> seq (if motor_on then modify (fdc_motor D False) else ok ()) (\<lambda>_. fail e))"

definition ftape_wakeup_drive :: "'e drive_env \<Rightarrow> wake_up_types \<Rightarrow> ('e drive_state, unit) op" where
  "ftape_wakeup_drive D method = (case method of
     wake_up_colorado \<Rightarrow> seq (ftape_command D 46) (\<lambda>_. seq (ftape_parameter D 0) (\<lambda>_. wakeup_status D False))
   | wake_up_mountain \<Rightarrow> seq (ftape_command D 23) (\<lambda>_. seq (modify (ftape_sleep D 1)) (\<lambda>_. seq (ftape_parameter D 18) (\<lambda>_. wakeup_status D False)))
   | wake_up_insight \<Rightarrow> seq (modify (ftape_sleep D 100)) (\<lambda>_. seq (modify (fdc_motor D True)) (\<lambda>_. wakeup_status D True))
   | no_wake_up \<Rightarrow> wakeup_status D False
   | unknown_wake_up \<Rightarrow> fail ENODEV)"

definition ftape_put_drive_to_sleep :: "'e drive_env \<Rightarrow> wake_up_types \<Rightarrow> ('e drive_state, unit) op" where
  "ftape_put_drive_to_sleep D method = (case method of
     wake_up_colorado \<Rightarrow> ftape_command D 47
   | wake_up_mountain \<Rightarrow> ftape_command D 24
   | wake_up_insight \<Rightarrow> modify (fdc_motor D False)
   | no_wake_up \<Rightarrow> ok ()
   | unknown_wake_up \<Rightarrow> fail ENODEV)"

text \<open>
  One attempt to reset the drive: the drive has to become ready with the error code 27. The result is 0, or an error that the next attempt replaces.
\<close>

definition reset_attempt :: "'e drive_env \<Rightarrow> ('e drive_state, unit) op" where
  "reset_attempt D =
    seq (modify (\<lambda>s. ftape_sleep D 10 (fdc_reset D s))) (\<lambda>_.
    seq (ftape_command D QIC_RESET) (\<lambda>_.
    seq (modify (ftape_sleep D FT_SECOND)) (\<lambda>_.
    seq (look (\<lambda>s. ignore (ftape_wakeup_drive D (d_wake_up s)))) (\<lambda>_.
      with_var D (look (\<lambda>sv. catch (ftape_ready_wait D (t_reset (d_timeout (fst sv)))) (\<lambda>r. look (\<lambda>sv.
        if r = Inr () \<and> status_bit (snd sv) QIC_STATUS_ERROR then
          catch (on_drive (ftape_report_error D)) (\<lambda>r. case r of Inr (code, _) \<Rightarrow> if code = 27 then ok () else fail EIO | Inl _ \<Rightarrow> fail EIO)
        else fail EIO))))))))"

fun reset_attempts :: "'e drive_env \<Rightarrow> nat \<Rightarrow> errno \<Rightarrow> ('e drive_state, unit result) op" where
  "reset_attempts D 0 e = ok (Inl e)"
| "reset_attempts D (Suc n) e =
    catch (reset_attempt D) (\<lambda>r. case r of Inr _ \<Rightarrow> ok (Inr ()) | Inl e \<Rightarrow> look (\<lambda>s. if v_signal D (d_world s) then fail EINTR else reset_attempts D n e))"

definition ftape_reset_drive :: "'e drive_env \<Rightarrow> ('e drive_state, unit) op" where
  "ftape_reset_drive D =
    seq (reset_attempts D 2 EIO) (\<lambda>r.
    seq (if r = Inr () then look (\<lambda>s. ignore (ftape_set_data_rate D (data_rate (d_ft s)) (qic_std (d_ft s)))) else ok ()) (\<lambda>_.
    seq (modify (\<lambda>s. s\<lparr>d_init_needed := True\<rparr>)) (\<lambda>_ s. Some (s, r))))"

definition loader_status :: "'e drive_env \<Rightarrow> ('e drive_state \<times> int, unit) op" where
  "loader_status D = look (\<lambda>sv. seq (ftape_ready_wait D (t_pause (d_timeout (fst sv)))) (\<lambda>_. ftape_report_operation D 54 8))"

definition ftape_door_lock :: "'e drive_env \<Rightarrow> bool \<Rightarrow> ('e drive_state, unit) op" where
  "ftape_door_lock D flag =
    look (\<lambda>s. if \<not> ditto_max_ext (d_ft s) \<or> no_tape (d_ft s) then ok ()
      else with_var D (seq (loader_status D) (\<lambda>_. look (\<lambda>sv.
        if flag \<noteq> status_bit (snd sv) 0x20 then ftape_command_wait D 53 (t_pause (d_timeout (fst sv))) else ok ()))))"

text \<open>The turns of the wait for the door, at most eleven.\<close>

fun door_turns :: "'e drive_env \<Rightarrow> bool \<Rightarrow> nat \<Rightarrow> ('e drive_state \<times> int, unit) op" where
  "door_turns D flag n =
    seq (on_drive (modify (ftape_sleep D FT_SECOND))) (\<lambda>_. seq (loader_status D) (\<lambda>_.
      look (\<lambda>sv. case n of 0 \<Rightarrow> ok () | Suc m \<Rightarrow> if flag \<noteq> status_bit (snd sv) 0x10 then door_turns D flag m else ok ())))"

definition ftape_door_open :: "'e drive_env \<Rightarrow> bool \<Rightarrow> ('e drive_state, unit) op" where
  "ftape_door_open D flag =
    look (\<lambda>s. if \<not> ditto_max_ext (d_ft s) then ok ()
      else with_var D (seq (loader_status D) (\<lambda>_. look (\<lambda>sv.
        if status_bit (snd sv) 0x20 then fail EIO
        else seq (if flag \<noteq> status_bit (snd sv) 0x10 then seq (ignore (ftape_command_wait D 52 (t_pause (d_timeout (fst sv))))) (\<lambda>_. door_turns D flag 10) else ok ())
          (\<lambda>_. look (\<lambda>sv. if flag = status_bit (snd sv) 0x10 then ok () else fail EIO))))))"

definition ftape_set_partition :: "'e drive_env \<Rightarrow> int \<Rightarrow> ('e drive_state, unit) op" where
  "ftape_set_partition D part =
    look (\<lambda>s. if \<not> ditto_max_ext (d_ft s) then ok ()
      else with_var D (seq (loader_status D) (\<lambda>_. seq (on_drive (ftape_command D 55)) (\<lambda>_. look (\<lambda>sv.
        seq (ftape_parameter_wait D part (t_pause (d_timeout (fst sv)))) (\<lambda>_. look (\<lambda>sv.
          if status_bit (snd sv) QIC_STATUS_ERROR then
            seq (ignore (on_drive (ftape_report_error D))) (\<lambda>_. look (\<lambda>sv. seq (ignore (ftape_ready_wait D (t_reset (d_timeout (fst sv))))) (\<lambda>_. fail EIO)))
          else on_drive (modify (\<lambda>s. (modify_ft (\<lambda>ft. ft\<lparr>ft_failure := True\<rparr>) s)\<lparr>d_init_needed := True\<rparr>)))))))))"

definition ftape_seek_head_to_track :: "'e drive_env \<Rightarrow> u32 \<Rightarrow> ('e drive_state, unit) op" where
  "ftape_seek_head_to_track D track =
    seq (modify (modify_ft (\<lambda>ft. ft\<lparr>location := (location ft)\<lparr>loc_track := -1\<rparr>\<rparr>))) (\<lambda>_. look (\<lambda>s.
      if track \<ge> tracks_per_tape (d_ft s) then fail EINVAL
      else seq (ftape_command D QIC_SEEK_HEAD_TO_TRACK) (\<lambda>_.
        seq (with_var D (look (\<lambda>sv. ftape_parameter_wait D (uint track) (t_head_seek (d_timeout (fst sv)))))) (\<lambda>_.
          modify (modify_ft (\<lambda>ft. ft\<lparr>location := (location ft)\<lparr>loc_track := sint track\<rparr>, might_be_off_track := False\<rparr>))))))"

section \<open>Start-up\<close>

text \<open>The drive is asked for its status until it reports no error. A pending error is read, which clears it in the drive.\<close>

partial_function (option) status_loop :: "'e drive_env \<Rightarrow> ('e drive_state \<times> int, unit) op" where
  "status_loop D sv =
    (case ftape_ready_wait D (t_reset (d_timeout (fst sv))) sv of None \<Rightarrow> None
     | Some (sv1, Inl _) \<Rightarrow> Some (sv1, Inl EIO)
     | Some (sv1, Inr _) \<Rightarrow>
        seq (if status_bit (snd sv1) QIC_STATUS_ERROR then
               catch (on_drive (ftape_report_error D)) (\<lambda>r. case r of Inr _ \<Rightarrow> ok () | Inl _ \<Rightarrow> seq (ignore (on_drive (ftape_reset_drive D))) (\<lambda>_. fail EIO))
             else ok ())
          (\<lambda>_. seq (if status_bit (snd sv1) QIC_STATUS_NEW_CARTRIDGE then
               seq (ignore (on_drive (ftape_report_error D))) (\<lambda>_. on_drive (modify (modify_ft (\<lambda>ft. ft\<lparr>new_tape := True\<rparr>))))
             else ok ())
          (\<lambda>_ sv2. if v_signal D (d_world (fst sv2)) then Some (sv2, Inl EINTR)
             else if status_bit (snd sv2) QIC_STATUS_ERROR then status_loop D sv2 else Some (sv2, Inr ()))) sv1)"

definition ftape_get_drive_status :: "'e drive_env \<Rightarrow> ('e drive_state, unit) op" where
  "ftape_get_drive_status D =
    seq (modify (modify_ft (\<lambda>ft. ft\<lparr>no_tape := False, ft_write_protected := False, new_tape := False\<rparr>))) (\<lambda>_.
      with_var D (seq (status_loop D) (\<lambda>_. look (\<lambda>sv. on_drive (modify (modify_ft (\<lambda>ft.
        ft\<lparr>no_tape := \<not> status_bit (snd sv) QIC_STATUS_CARTRIDGE_PRESENT, ft_write_protected := status_bit (snd sv) QIC_STATUS_WRITE_PROTECT\<rparr>)))))))"

text \<open>\<open>ftape_activate_drive\<close> without the trace levels: the known method, then all four.\<close>

fun try_methods :: "'e drive_env \<Rightarrow> wake_up_types list \<Rightarrow> ('e drive_state, unit) op" where
  "try_methods D [] = seq (modify (\<lambda>s. s\<lparr>d_wake_up := unknown_wake_up\<rparr>)) (\<lambda>_. fail ENODEV)"
| "try_methods D (method # methods) =
    seq (modify (\<lambda>s. s\<lparr>d_wake_up := method\<rparr>)) (\<lambda>_. catch (ftape_wakeup_drive D method) (\<lambda>r. case r of Inr _ \<Rightarrow> ok () | Inl _ \<Rightarrow> try_methods D methods))"

definition ftape_activate_drive :: "'e drive_env \<Rightarrow> ('e drive_state, unit) op" where
  "ftape_activate_drive D =
    look (\<lambda>s. catch (if d_wake_up s \<noteq> unknown_wake_up then ftape_wakeup_drive D (d_wake_up s) else fail ENODEV) (\<lambda>r. case r of Inr _ \<Rightarrow> ok ()
      | Inl _ \<Rightarrow> try_methods D [no_wake_up, wake_up_colorado, wake_up_mountain, wake_up_insight]))"

text \<open>
  \<open>ftape_init_drive\<close> with a cartridge, up to \<open>ftape_new_cartridge\<close>, which empties the rings of buffers (\<open>ftape_zap_read_buffers\<close>). The drives whose
  hardware cannot write QIC-40 and QIC-80 are write protected.
\<close>

definition set_len :: "int \<Rightarrow> 'e drive_state \<Rightarrow> 'e drive_state" where
  "set_len len = modify_ft (\<lambda>ft. ft\<lparr>tape_len := word_of_int len\<rparr>)"

definition protect_old_cartridge :: "qic_std_t \<Rightarrow> 'e drive_state \<Rightarrow> 'e drive_state" where
  "protect_old_cartridge std s =
    (if d_vendor s = 0x011c6 \<and> (std = QIC_40 \<or> std = QIC_80) then modify_ft (\<lambda>ft. ft\<lparr>ft_write_protected := True\<rparr>) s else s)"

definition load_point :: "'e drive_env \<Rightarrow> ('e drive_state \<times> int, unit) op" where
  "load_point D =
    seq (ftape_report_raw_drive_status D) (\<lambda>_. look (\<lambda>sv.
      if \<not> status_bit (snd sv) QIC_STATUS_CARTRIDGE_PRESENT then ok ()
      else seq (if status_bit (snd sv) QIC_STATUS_AT_BOT then ok () else ignore (on_drive (ftape_seek_to_bot D))) (\<lambda>_. look (\<lambda>sv.
        if status_bit (snd sv) QIC_STATUS_REFERENCED then ok () else ftape_command_wait D 14 (t_reset (d_timeout (fst sv)))))))"

definition ftape_init_drive :: "'e drive_env \<Rightarrow> int \<Rightarrow> ('e drive_state, unit) op" where
  "ftape_init_drive D rate_limit =
    seq (modify (\<lambda>s. s\<lparr>d_init_needed := False\<rparr>)) (\<lambda>_.
    seq (with_var D (seq (load_point D) (\<lambda>_. look (\<lambda>sv.
      on_drive (modify (modify_ft (\<lambda>ft. ft\<lparr>formatted := status_bit (snd sv) QIC_STATUS_REFERENCED\<rparr>))))))) (\<lambda>_.
    seq (ftape_report_configuration D) (\<lambda>(cfg, unknown_len).
    seq (modify (set_len (c_len cfg))) (\<lambda>_.
      if unknown_len then fail EIO
      else look (\<lambda>s. if formatted (d_ft s) then
          seq (ftape_calibrate_data_rate D rate_limit (c_std cfg)) (\<lambda>_.
          seq (look (\<lambda>s. ftape_calc_timeouts D (c_std cfg) (data_rate (d_ft s)) (tape_len (d_ft s)))) (\<lambda>_.
          modify (protect_old_cartridge (c_std cfg))))
        else
          seq (modify (modify_ft (\<lambda>ft. ft\<lparr>data_rate := c_rate cfg\<rparr>))) (\<lambda>_. look (\<lambda>s. ftape_calc_timeouts D QIC_40 (c_rate cfg) (tape_len (d_ft s)))))))))"

end
