(* ===== verification/Ft_Motion.thy ===== *)
theory Ft_Motion
  imports Ft_Drive
begin

text \<open>
  The motion of the tape, \<open>src/ftape/lowlevel/ftape-rw.c\<close>: reading the id of the sector that passes the head, stopping, skipping
  segments fast or slowly, and \<open>ftape_start_tape\<close>, which brings the tape in front of a segment and keeps it running.
\<close>

unbundle bit_operations_syntax

lemma catch_mono [partial_function_mono]:
  assumes "\<And>s. mono_option (\<lambda>f. m f s)" "\<And>r s. mono_option (\<lambda>f. k f r s)"
  shows "mono_option (\<lambda>f. catch (m f) (k f) s)"
  unfolding catch_def by (intro bind_mono assms(1)) (auto split: prod.split intro: assms(2))

section \<open>Where the tape is\<close>

abbreviation known :: "'e drive_state \<Rightarrow> bool" where "known s \<equiv> loc_known (location (d_ft s))"
abbreviation segment :: "'e drive_state \<Rightarrow> int" where "segment s \<equiv> loc_segment (location (d_ft s))"

definition set_known :: "bool \<Rightarrow> 'e drive_state \<Rightarrow> 'e drive_state" where
  "set_known k = modify_ft (\<lambda>ft. ft\<lparr>location := (location ft)\<lparr>loc_known := k\<rparr>\<rparr>)"

definition set_running :: "bool \<Rightarrow> 'e drive_state \<Rightarrow> 'e drive_state" where
  "set_running b = modify_ft (\<lambda>ft. ft\<lparr>tape_running := b\<rparr>)"

definition note_marks :: "int \<Rightarrow> 'e drive_state \<Rightarrow> 'e drive_state" where
  "note_marks v = modify_ft (\<lambda>ft. ft\<lparr>location := check_bot_eot ft (status_bit v QIC_STATUS_AT_BOT) (status_bit v QIC_STATUS_AT_EOT)\<rparr>)"

text \<open>The tape stopped while an id was expected.\<close>

definition stopped :: "('e drive_state \<times> int, unit) op" where
  "stopped = (\<lambda>(s, v). Some ((note_marks v (set_running False s), v), Inr ()))"

abbreviation FT_FOREVER :: u32 where "FT_FOREVER \<equiv> -1"

definition no_id :: "'e drive_env \<Rightarrow> ('e drive_state, unit) op" where
  "no_id D = with_var D (catch (ftape_report_drive_status D) (\<lambda>r. look (\<lambda>sv. if (\<exists>b. r = Inr b) \<and> status_bit (snd sv) QIC_STATUS_READY then stopped else ok ())))"

definition ftape_read_id :: "'e drive_env \<Rightarrow> ('e drive_state, unit) op" where
  "ftape_read_id D s =
    (case v_read_id D (d_world s) of (w, out) \<Rightarrow>
      (let s1 = set_known False s\<lparr>d_world := w\<rparr>
       in case out of
         No_Command e \<Rightarrow> Some (s1, Inl e)
       | Found_Id fdc_head fdc_cyl fdc_sect \<Rightarrow>
           seq (if fdc_sect = 0 then no_id D
             else modify (modify_ft (\<lambda>ft. ft\<lparr>location := read_id_location ft fdc_head fdc_cyl fdc_sect\<rparr>)))
           (\<lambda>_ s2. Some (s2, if known s2 then Inr () else Inl EIO)) s1
       | No_Interrupt e \<Rightarrow>
           seq (if e = ETIME then with_var D (catch (ftape_ready_wait D FT_FOREVER) (\<lambda>r. if r = Inr () then stopped else ok ())) else ok ())
           (\<lambda>_ s2. Some (s2, if known s2 then Inr () else Inl EIO)) s1))"

section \<open>Starting and stopping\<close>

definition logical_forward :: "'e drive_env \<Rightarrow> ('e drive_state, unit) op" where
  "logical_forward D = seq (modify (set_running True)) (\<lambda>_. ftape_command D QIC_LOGICAL_FORWARD)"

definition stop_try :: "'e drive_env \<Rightarrow> ('e drive_state \<times> int, unit) op" where
  "stop_try D = look (\<lambda>sv. seq (ftape_command_wait D QIC_STOP_TAPE (t_stop (d_timeout (fst sv)))) (\<lambda>_. look (\<lambda>sv.
     if \<not> status_bit (snd sv) QIC_STATUS_READY then fail EIO else on_drive (modify (set_running False)))))"

fun stop_tries :: "'e drive_env \<Rightarrow> nat \<Rightarrow> ('e drive_state \<times> int, unit) op" where
  "stop_tries D n = catch (stop_try D) (\<lambda>r. case r of Inr _ \<Rightarrow> ok () | Inl e \<Rightarrow> (case n of 0 \<Rightarrow> fail e | Suc m \<Rightarrow> stop_tries D m))"

definition ftape_stop_tape :: "'e drive_env \<Rightarrow> ('e drive_state \<times> int, unit) op" where
  "ftape_stop_tape D = stop_tries D 3"

text \<open>
  \<open>ftape_dumb_stop\<close>: the first result is that of the status query, where only 0 counts as success. The theories of the buffers have their own model of
  this function, with the drive as a parameter.
\<close>

partial_function (option) halt_loop :: "'e drive_env \<Rightarrow> bool result \<Rightarrow> 'e drive_state \<times> int \<Rightarrow> (('e drive_state \<times> int) \<times> bool result) option" where
  "halt_loop D r sv =
    catch (if r = Inr False \<and> status_bit (snd sv) QIC_STATUS_READY then catch (on_drive (modify (\<lambda>s. set_running False (note_marks (snd sv) s)))) (\<lambda>_ sv. Some (sv, r))
       else if tape_running (d_ft (fst sv)) then seq (ftape_stop_tape D) (\<lambda>_. ok False)
       else seq (ftape_ready_wait D (t_pause (d_timeout (fst sv)))) (\<lambda>_. ok False))
     (\<lambda>r1 sv1. if tape_running (d_ft (fst sv1)) \<and> \<not> v_killed D (d_world (fst sv1)) then halt_loop D r1 sv1 else Some (sv1, r1)) sv"

definition halt_tape :: "'e drive_env \<Rightarrow> ('e drive_state, bool) op" where
  "halt_tape D =
    catch (to_world (v_fdc_ready D)) (\<lambda>r. seq (if r = Inr () then ok () else modify (fdc_reset D)) (\<lambda>_.
      with_var D (catch (ftape_report_drive_status D) (\<lambda>r. seq (on_drive (modify (set_known False))) (\<lambda>_. catch (halt_loop D r) (\<lambda>r.
        seq (on_drive (modify (\<lambda>s. modify_ft (\<lambda>ft. if runner_status ft = aborting \<or> runner_status ft = do_abort then ft\<lparr>runner_status := idle\<rparr> else ft)
          (set_known False s)))) (\<lambda>_ sv. Some (sv, r))))))))"

section \<open>Skipping\<close>

definition validate :: "ftape_info \<Rightarrow> int \<Rightarrow> bool" where
  "validate ft i =
    (loc_track (location ft) = -1 \<or>
     sint (word_of_int (loc_track (location ft) - 1) * segments_per_track ft) \<le> i \<and> i < sint (word_of_int (loc_track (location ft) + 2) * segments_per_track ft))"

definition off_track :: "'e drive_env \<Rightarrow> 'e drive_state \<Rightarrow> 'e drive_state" where
  "off_track D s = modify_ft (\<lambda>ft. ft\<lparr>ft_failure := True\<rparr>) (ftape_sleep D FT_SECOND s)"

text \<open>The number of segments to skip is sent four bits at a time, least significant first.\<close>

definition nibble_count :: "int \<Rightarrow> nat" where "nibble_count count = (if count > 255 then 3 else 2)"

fun nibbles :: "nat \<Rightarrow> int \<Rightarrow> int list" where
  "nibbles 0 count = []"
| "nibbles (Suc n) count = (count AND 15) # nibbles n (if count < 0 then - (- count div 16) else count div 16)"

fun send_parameters :: "'e drive_env \<Rightarrow> int list \<Rightarrow> ('e drive_state, unit) op" where
  "send_parameters D [] = ok ()"
| "send_parameters D (p # ps) = seq (ftape_parameter D p) (\<lambda>_. send_parameters D ps)"

text \<open>
  Fast seeking: \<open>slow\<close> is \<open>seek_forward\<close> without fast seeking, which leaves the begin of a track. The flag of a reverse seek from the end of a track,
  which the code returns through a pointer, depends on the state before.
\<close>

definition rew_eot_flag :: "'e drive_state \<Rightarrow> bool \<Rightarrow> bool" where
  "rew_eot_flag s backwards \<longleftrightarrow> known s \<and> loc_eot (location (d_ft s)) \<and> backwards"

definition skip_distance :: "'e drive_state \<Rightarrow> int \<Rightarrow> bool \<Rightarrow> int" where
  "skip_distance s count backwards =
    min 4095 (if known s \<and> loc_bot (location (d_ft s)) \<and> \<not> backwards then count - 1
      else if rew_eot_flag s backwards then count + rew_eot_margin (d_ft s) else count)"

definition skip_command :: "nat \<Rightarrow> bool \<Rightarrow> nat" where
  "skip_command n backwards = (if n = 3 then if backwards then 34 else 35 else if backwards then 25 else 26)"

definition fast_seek :: "'e drive_env \<Rightarrow> (int \<Rightarrow> ('e drive_state, unit) op) \<Rightarrow> int \<Rightarrow> bool \<Rightarrow> ('e drive_state, unit) op" where
  "fast_seek D slow count backwards =
    look (\<lambda>s. seq (if known s \<and> loc_bot (location (d_ft s)) \<and> \<not> backwards
        then ignore (slow (sint (word_of_int (loc_track (location (d_ft s))) * segments_per_track (d_ft s)))) else ok ()) (\<lambda>_.
      seq (ftape_command D (skip_command (nibble_count count) backwards)) (\<lambda>_.
      seq (send_parameters D (nibbles (nibble_count count) (skip_distance s count backwards - 1))) (\<lambda>_.
      seq (with_var D (look (\<lambda>sv. ftape_ready_wait D (t_rewind (d_timeout (fst sv)))))) (\<lambda>_.
      modify (set_running False))))))"

definition keep_sane :: "int \<Rightarrow> int" where
  "keep_sane n = (if n < -5 \<or> n > 20 then if n < 0 then -5 else 20 else n)"

definition adjust_forward :: "int \<Rightarrow> 'e drive_state \<Rightarrow> 'e drive_state" where
  "adjust_forward expected s =
    (if segment s < expected \<or> segment s > expected + 1
     then modify_ft (\<lambda>ft. ft\<lparr>ffw_overshoot := keep_sane (ffw_overshoot ft + (segment s - expected))\<rparr>) s else s)"

partial_function (option) id_loop :: "'e drive_env \<Rightarrow> int \<Rightarrow> bool \<Rightarrow> int \<Rightarrow> ('e drive_state, unit) op" where
  "id_loop D target fast_seeking failures s =
    (if segment s \<ge> target then Some (s, Inr ())
     else catch (ftape_read_id D) (\<lambda>r s1.
       if r \<noteq> Inr () \<or> \<not> known s1 \<or> v_signal D (d_world s1) then
         (if \<not> tape_running (d_ft s1) \<or> failures + 1 > 32 then Some (set_known False s1, Inl EIO)
          else if v_signal D (d_world s1) then Some (set_known False s1, Inl EINTR)
          else id_loop D target fast_seeking (failures + 1) (set_known False s1))
       else id_loop D target False failures (if fast_seeking then adjust_forward (target - 1) s1 else s1)) s)"

definition seek_with :: "'e drive_env \<Rightarrow> (int \<Rightarrow> bool \<Rightarrow> ('e drive_state, unit) op) \<Rightarrow> int \<Rightarrow> bool \<Rightarrow> ('e drive_state, unit) op" where
  "seek_with D skip target fast =
    look (\<lambda>s. if \<not> known s then fail EIO
      else if \<not> validate (d_ft s) target then seq (modify (off_track D)) (\<lambda>_. fail EIO)
      else
        let count = target - 1 - segment s - ffw_overshoot (d_ft s);
            fast_seeking = (fast \<and> count > min_count (d_ft s) + (if loc_bot (location (d_ft s)) then 1 else 0))
        in seq (if fast_seeking then ignore (skip count False) else ok ()) (\<lambda>_.
           seq (look (\<lambda>s. if tape_running (d_ft s) then ok () else ignore (logical_forward D))) (\<lambda>_.
           seq (id_loop D target fast_seeking 0) (\<lambda>_. look (\<lambda>s. if segment s > target then fail EIO else ok ())))))"

definition seek_slow :: "'e drive_env \<Rightarrow> int \<Rightarrow> ('e drive_state, unit) op" where
  "seek_slow D target = seek_with D (\<lambda>_ _. ok ()) target False"

definition seek_forward :: "'e drive_env \<Rightarrow> int \<Rightarrow> bool \<Rightarrow> ('e drive_state, unit) op" where
  "seek_forward D target fast = seek_with D (fast_seek D (seek_slow D)) target fast"

text \<open>
  Skipping backwards. \<open>plan_skip\<close> chooses the shortest rewind or a longer one, with the segment where it should end. The quotient that
  decides whether this is on another track divides by \<open>segments_per_track\<close>. A failed read of an id goes on with the test at the end of the loop.
\<close>

definition plan_skip :: "ftape_info \<Rightarrow> int \<Rightarrow> (bool \<times> int \<times> int) option" where
  "plan_skip ft target =
    (let seg = loc_segment (location ft); count = seg - target - rew_overshoot ft
     in if seg - target - (min_rewind ft - 1) < 1 \<or> count < 1 then
          if segments_per_track ft = 0 then None
          else let expected = seg - min_rewind ft
            in Some (True, 1, if word_of_int expected div segments_per_track ft \<noteq> word_of_int (loc_track (location ft))
               then sint (word_of_int (loc_track (location ft)) * segments_per_track ft) else expected)
        else Some (False, count, target))"

definition adjust_rewind :: "bool \<Rightarrow> int \<Rightarrow> bool \<Rightarrow> 'e drive_state \<Rightarrow> 'e drive_state" where
  "adjust_rewind short expected flag s =
    (let s1 = (if flag \<and> loc_eot (location (d_ft s)) then modify_ft (\<lambda>ft. ft\<lparr>rew_eot_margin := rew_eot_margin ft + (min_count ft - 1)\<rparr>) s else s);
         err = expected - segment s
     in if \<not> flag \<and> (segment s < expected \<or> segment s > expected + 1)
        then modify_ft (\<lambda>ft. if short then ft\<lparr>min_rewind := max (-5) (min_rewind ft + err)\<rparr> else ft\<lparr>rew_overshoot := keep_sane (rew_overshoot ft + err)\<rparr>) s1
        else s1)"

partial_function (option) skip_loop :: "'e drive_env \<Rightarrow> int \<Rightarrow> int \<Rightarrow> ('e drive_state \<times> int, unit) op" where
  "skip_loop D target failures sv =
    Option.bind (plan_skip (d_ft (fst sv)) (target - 1)) (\<lambda>(short, count, expected).
      seq (ignore (on_drive (fast_seek D (seek_slow D) count True))) (\<lambda>_.
      seq (ignore (on_drive (logical_forward D))) (\<lambda>_.
      catch (on_drive (ftape_read_id D)) (\<lambda>r sv1.
        if r \<noteq> Inr () \<or> \<not> known (fst sv1) \<or> v_signal D (d_world (fst sv1)) then
          (if \<not> tape_running (d_ft (fst sv1)) \<and> \<not> known (fst sv1) \<or> failures + 1 > 32 then Some (sv1, Inl EIO)
           else if v_signal D (d_world (fst sv1)) then Some (sv1, Inl EINTR)
           else seq (ftape_report_drive_status D) (\<lambda>_ sv2. if segment (fst sv2) > target then skip_loop D target (failures + 1) sv2 else Some (sv2, Inr ())) sv1)
        else (let s2 = adjust_rewind short expected (rew_eot_flag (fst sv) True) (fst sv1)
              in if segment s2 > target then skip_loop D target failures (s2, snd sv1) else Some ((s2, snd sv1), Inr ()))))) sv)"

definition skip_reverse :: "'e drive_env \<Rightarrow> int \<Rightarrow> ('e drive_state \<times> int, unit) op" where
  "skip_reverse D target =
    look (\<lambda>sv. if known (fst sv) \<and> \<not> validate (d_ft (fst sv)) target then seq (on_drive (modify (off_track D))) (\<lambda>_. fail EIO) else skip_loop D target 0)"

section \<open>Finding the position\<close>

fun id_tries :: "'e drive_env \<Rightarrow> nat \<Rightarrow> ('e drive_state \<times> int, unit) op" where
  "id_tries D n =
    look (\<lambda>sv. if known (fst sv) \<or> n = 0 then ok ()
      else catch (on_drive (ftape_read_id D)) (\<lambda>r. case r of Inr _ \<Rightarrow> ok () | Inl _ \<Rightarrow> look (\<lambda>sv.
        if v_signal D (d_world (fst sv)) then fail EINTR
        else seq (ftape_report_drive_status D) (\<lambda>_. look (\<lambda>sv.
          if \<not> status_bit (snd sv) QIC_STATUS_READY then id_tries D (n - 1)
          else seq (on_drive (modify (set_running False))) (\<lambda>_.
            if status_bit (snd sv) QIC_STATUS_ERROR then fail EIO
            else seq (on_drive (modify (note_marks (snd sv)))) (\<lambda>_. look (\<lambda>sv. if known (fst sv) then id_tries D (n - 1) else fail EIO))))))))"

text \<open>A drive that is ready has stopped: at the end of a track, or it has to be started.\<close>

definition start_ready_drive :: "'e drive_env \<Rightarrow> ('e drive_state \<times> int, unit) op" where
  "start_ready_drive D =
    seq (look (\<lambda>sv. if status_bit (snd sv) QIC_STATUS_ERROR then
        seq (ignore (on_drive (ftape_report_error D))) (\<lambda>_. seq (look (\<lambda>sv. ignore (ftape_ready_wait D (t_reset (d_timeout (fst sv)))))) (\<lambda>_.
          on_drive (modify (set_running False))))
      else ok ())) (\<lambda>_.
    seq (look (\<lambda>sv. on_drive (modify (note_marks (snd sv))))) (\<lambda>_. look (\<lambda>sv.
      if \<not> known (fst sv) then seq (ignore (on_drive (logical_forward D))) (\<lambda>_. on_drive (modify (set_known False)))
      else if loc_bot (location (d_ft (fst sv))) then if status_bit (snd sv) QIC_STATUS_READY then ignore (on_drive (logical_forward D)) else ok ()
      else if status_bit (snd sv) QIC_STATUS_READY then ok () else ignore (ftape_ready_wait D (t_reset (d_timeout (fst sv)))))))"

definition determine_position :: "'e drive_env \<Rightarrow> ('e drive_state, unit) op" where
  "determine_position D =
    with_var D (look (\<lambda>sv.
      seq (if \<not> tape_running (d_ft (fst sv)) then
          catch (ftape_ready_wait D (t_pause (d_timeout (fst sv)))) (\<lambda>r. case r of Inl _ \<Rightarrow> on_drive (modify (set_running True)) | Inr _ \<Rightarrow> ok ())
        else ignore (ftape_report_drive_status D)) (\<lambda>_.
      seq (look (\<lambda>sv. if status_bit (snd sv) QIC_STATUS_READY then start_ready_drive D else ok ())) (\<lambda>_.
      seq (id_tries D 32) (\<lambda>_. look (\<lambda>sv. if known (fst sv) then ok () else fail EIO))))))"

section \<open>Starting the tape at a segment\<close>

text \<open>
  On a retry, many overrun errors since the last adjustment raise the threshold of the fifo or lower the data rate. Then the retry does not count.
\<close>

definition forget_overruns :: "'e drive_state \<Rightarrow> 'e drive_state" where
  "forget_overruns = modify_ft (\<lambda>ft. ft\<lparr>overrun_count_offset := int (overrun_errors (history ft))\<rparr>)"

definition rate_too_high :: "ftape_info \<Rightarrow> bool" where
  "rate_too_high ft \<longleftrightarrow>
    qic_std ft = QIC_3020 \<and> data_rate ft > 1000 \<or> qic_std ft = DITTO_MAX \<and> data_rate ft > 2000
    \<or> qic_std ft \<noteq> QIC_3020 \<and> qic_std ft \<noteq> DITTO_MAX \<and> data_rate ft > 500"

definition uncount_retry :: "'e drive_state \<Rightarrow> 'e drive_state" where "uncount_retry s = s\<lparr>d_head_retry := d_head_retry s - 1\<rparr>"

definition slow_down :: "'e drive_env \<Rightarrow> ('e drive_state, unit) op" where
  "slow_down D =
    catch (ftape_half_data_rate D) (\<lambda>r. modify (\<lambda>s. forget_overruns ((if r = Inr () then uncount_retry s else s)\<lparr>d_bad_bus_timing := True\<rparr>)))"

definition watch_overruns :: "'e drive_env \<Rightarrow> int \<Rightarrow> ('e drive_state, unit) op" where
  "watch_overruns D segment_id =
    look (\<lambda>s. let overruns = int (overrun_errors (history (d_ft s))); offset = overrun_count_offset (d_ft s); dist = segment_id - d_last_segment s
      in if d_head_retry s \<le> 0 then ok ()
      else if overruns < offset \<or> dist < 0 \<or> dist > 50 then modify forget_overruns
      else if overruns - offset \<ge> drop_bit 3 dist + 3 then
        catch (ftape_increase_threshold D) (\<lambda>r. case r of Inr _ \<Rightarrow> modify (\<lambda>s. forget_overruns (uncount_retry s))
          | Inl _ \<Rightarrow> look (\<lambda>s. if rate_too_high (d_ft s) then slow_down D else ok ()))
      else ok ())"

text \<open>
  The segments the tape passes before the first sector can be read, unless it runs or stands at the begin of the track. A turn of the loop repositions a
  tape that is too far ahead, whatever comes of it, and then skips to the segment. \<open>Inr\<close> in the result of a turn ends the loop, with a result.
\<close>

definition head_start :: "'e drive_state \<Rightarrow> int" where
  "head_start s = (if tape_running (d_ft s) \<or> loc_bot (location (d_ft s)) then 0 else start_offset (d_ft s))"

definition reposition :: "'e drive_env \<Rightarrow> int \<Rightarrow> ('e drive_state \<times> int, unit) op" where
  "reposition D segment_id =
    seq (on_drive (modify (modify_ft (\<lambda>ft. ft\<lparr>history := (history ft)\<lparr>rewinds := rewinds (history ft) + 1\<rparr>\<rparr>)))) (\<lambda>_. look (\<lambda>sv.
      let ft = d_ft (fst sv)
      in if (word_of_int segment_id :: u32) mod segments_per_track ft < word_of_int (start_offset ft) then
        seq (ignore (ftape_command_wait D (if odd (loc_track (location ft)) then 12 else 11) (t_rewind (d_timeout (fst sv))))) (\<lambda>_.
          look (\<lambda>sv. on_drive (modify (note_marks (snd sv)))))
      else ignore (skip_reverse D (segment_id - start_offset ft))))"

definition approach :: "'e drive_env \<Rightarrow> int \<Rightarrow> bool \<Rightarrow> bool \<Rightarrow> ('e drive_state, unit) op" where
  "approach D segment_id short_start fast =
    (let target = segment_id - (if short_start then 0 else 1)
     in look (\<lambda>s. if \<not> known s then fail EIO
      else seq (if segment s < segment_id - head_start s then seek_forward D target fast else ok ()) (\<lambda>_.
        look (\<lambda>s. if segment s \<noteq> target then fail EIO else ok ()))))"

definition go_forward :: "'e drive_env \<Rightarrow> int \<Rightarrow> bool \<Rightarrow> int \<Rightarrow> ('e drive_state \<times> int, unit result) op" where
  "go_forward D segment_id short_start retry =
    seq (on_drive (look (\<lambda>s. approach D segment_id short_start (retry \<le> ft_soft_retries (d_ft s) div 2)))) (\<lambda>_. ok (Inr ()))"

definition start_turn :: "'e drive_env \<Rightarrow> int \<Rightarrow> bool \<Rightarrow> int \<Rightarrow> ('e drive_state \<times> int, unit result) op" where
  "start_turn D segment_id short_start retry =
    seq (on_drive (modify (modify_ft (\<lambda>ft. if start_offset ft < 5 then ft\<lparr>start_offset := start_offset ft + 1\<rparr> else ft)))) (\<lambda>_.
    catch (look (\<lambda>sv. if known (fst sv) then ok () else on_drive (determine_position D))) (\<lambda>r. look (\<lambda>sv.
      if r = Inr () \<and> segment (fst sv) \<ge> segment_id - head_start (fst sv) then
        catch (if tape_running (d_ft (fst sv)) then ftape_stop_tape D else ok ()) (\<lambda>r. case r of
          Inl e \<Rightarrow> ok (Inl e)
        | Inr _ \<Rightarrow> seq (on_drive (modify (set_running False))) (\<lambda>_. seq (reposition D segment_id) (\<lambda>_. go_forward D segment_id short_start retry)))
      else go_forward D segment_id short_start retry)))"

fun start_turns :: "'e drive_env \<Rightarrow> int \<Rightarrow> bool \<Rightarrow> nat \<Rightarrow> int \<Rightarrow> errno \<Rightarrow> ('e drive_state \<times> int, unit) op" where
  "start_turns D segment_id short_start n retry e =
    look (\<lambda>sv. if n = 0 \<or> ft_failure (d_ft (fst sv)) \<or> v_signal D (d_world (fst sv)) then fail e
      else catch (start_turn D segment_id short_start retry) (\<lambda>r. case r of
        Inr (Inr _) \<Rightarrow> ok () | Inr (Inl e) \<Rightarrow> fail e | Inl e \<Rightarrow> start_turns D segment_id short_start (n - 1) (retry + 1) e))"

declare stop_tries.simps [simp del] id_tries.simps [simp del] start_turns.simps [simp del]

definition choose_track :: "'e drive_env \<Rightarrow> u32 \<Rightarrow> ('e drive_state \<times> int, unit) op" where
  "choose_track D track =
    look (\<lambda>sv. if loc_track (location (d_ft (fst sv))) \<noteq> sint track \<or> might_be_off_track (d_ft (fst sv)) \<and> d_head_retry (fst sv) = 0
      then seq (ignore (ftape_ready_wait D (t_seek (d_timeout (fst sv))))) (\<lambda>_. ignore (on_drive (ftape_seek_head_to_track D track))) else ok ())"

definition ftape_start_tape :: "'e drive_env \<Rightarrow> int \<Rightarrow> bool \<Rightarrow> ('e drive_state, unit) op" where
  "ftape_start_tape D segment_id short_start s =
    (if segments_per_track (d_ft s) = 0 then None
     else seq (modify (set_running False)) (\<lambda>_. seq (watch_overruns D segment_id) (\<lambda>_.
       seq (modify (\<lambda>s. s\<lparr>d_last_segment := segment_id\<rparr>)) (\<lambda>_.
       seq (with_var D (seq (choose_track D (word_of_int segment_id div segments_per_track (d_ft s))) (\<lambda>_.
         look (\<lambda>sv. start_turns D segment_id short_start (nat (ft_soft_retries (d_ft (fst sv)) + 1)) 1 EIO)))) (\<lambda>_.
       modify (modify_ft (\<lambda>ft. ft\<lparr>runner_status := running\<rparr>)))))) s)"

section \<open>What motion keeps\<close>

text \<open>
  A property of the driver record that is not about the fields which motion writes freely, and which holds for the bounded values of the overshoots, is an
  invariant of all operations here.
\<close>

definition keeps :: "('s \<Rightarrow> ftape_info) \<Rightarrow> (ftape_info \<Rightarrow> bool) \<Rightarrow> ('s \<Rightarrow> ('s \<times> 'a) option) \<Rightarrow> bool" where
  "keeps g P m \<longleftrightarrow> (\<forall>s s1 r. m s = Some (s1, r) \<longrightarrow> P (g s) \<longrightarrow> P (g s1))"

abbreviation ft_of :: "'e drive_state \<times> int \<Rightarrow> ftape_info" where "ft_of sv \<equiv> d_ft (fst sv)"

named_theorems keeps_intros

lemma keepsI: "(\<And>s s1 r. m s = Some (s1, r) \<Longrightarrow> P (g s) \<Longrightarrow> P (g s1)) \<Longrightarrow> keeps g P m"
  by (simp add: keeps_def)

lemma keepsD: "keeps g P m \<Longrightarrow> m s = Some (s1, r) \<Longrightarrow> P (g s) \<Longrightarrow> P (g s1)"
  unfolding keeps_def by blast

lemma keeps_catch [keeps_intros]: "keeps g P m \<Longrightarrow> (\<And>r. keeps g P (k r)) \<Longrightarrow> keeps g P (catch m k)"
  by (auto simp: keeps_def catch_def bind_eq_Some_conv) blast

lemma keeps_ok [keeps_intros]: "keeps g P (ok x)"
  by (simp add: keeps_def ok_def)

lemma keeps_fail [keeps_intros]: "keeps g P (fail e)"
  by (simp add: keeps_def fail_def)

lemma keeps_sum [keeps_intros]: "(\<And>e. keeps g P (a e)) \<Longrightarrow> (\<And>x. keeps g P (b x)) \<Longrightarrow> keeps g P (case r of Inl e \<Rightarrow> a e | Inr x \<Rightarrow> b x)"
  by (cases r) auto

lemma keeps_prod [keeps_intros]: "(\<And>x y. keeps g P (a x y)) \<Longrightarrow> keeps g P (case r of (x, y) \<Rightarrow> a x y)"
  by (cases r) auto

lemma keeps_if [keeps_intros]: "keeps g P a \<Longrightarrow> keeps g P b \<Longrightarrow> keeps g P (if c then a else b)"
  by simp

lemma keeps_seq [keeps_intros]: "keeps g P m \<Longrightarrow> (\<And>x. keeps g P (k x)) \<Longrightarrow> keeps g P (seq m k)"
  unfolding seq_catch by (intro keeps_intros)

lemma keeps_look [keeps_intros]: "(\<And>s. keeps g P (k s)) \<Longrightarrow> keeps g P (look k)"
  by (auto simp: keeps_def look_def)

lemma keeps_ignore [keeps_intros]: "keeps g P m \<Longrightarrow> keeps g P (ignore m)"
  unfolding ignore_def by (intro keeps_intros)

lemma keeps_modify [keeps_intros]: "(\<And>s. P (g s) \<Longrightarrow> P (g (f s))) \<Longrightarrow> keeps g P (modify f)"
  by (auto simp: keeps_def modify_def)

lemma keeps_on_drive [keeps_intros]: "keeps d_ft P m \<Longrightarrow> keeps ft_of P (on_drive m)"
  by (auto simp: keeps_def on_drive_def)

lemma keeps_with_var [keeps_intros]: "keeps ft_of P m \<Longrightarrow> keeps d_ft P (with_var D m)"
  by (fastforce simp: keeps_def with_var_def)

lemma keeps_local [keeps_intros]: "keeps ft_of P m \<Longrightarrow> keeps d_ft P (local_status m)"
  by (fastforce simp: keeps_def local_status_def)

lemma keeps_world [keeps_intros]: "keeps d_ft P (to_world f)"
  by (auto simp: keeps_def to_world_def split: prod.splits)

lemma keeps_pair: "(\<And>s v. keeps ft_of P (m s v)) \<Longrightarrow> keeps ft_of P (\<lambda>(s, v). m s v (s, v))"
  by (fastforce simp: keeps_def)

locale motion_invariant =
  fixes P :: "ftape_info \<Rightarrow> bool"
  assumes P_command: "P ft \<Longrightarrow> P (ft\<lparr>current_command := c\<rparr>)" and P_failure: "P ft \<Longrightarrow> P (ft\<lparr>ft_failure := b\<rparr>)"
    and P_location: "P ft \<Longrightarrow> P (ft\<lparr>location := l\<rparr>)" and P_running: "P ft \<Longrightarrow> P (ft\<lparr>tape_running := b\<rparr>)"
    and P_off_track: "P ft \<Longrightarrow> P (ft\<lparr>might_be_off_track := b\<rparr>)" and P_rate: "P ft \<Longrightarrow> P (ft\<lparr>data_rate := n\<rparr>)"
    and P_runner: "P ft \<Longrightarrow> P (ft\<lparr>runner_status := q\<rparr>)" and P_offset: "P ft \<Longrightarrow> P (ft\<lparr>overrun_count_offset := n\<rparr>)"
    and P_history: "P ft \<Longrightarrow> P (ft\<lparr>history := h\<rparr>)" and P_start: "P ft \<Longrightarrow> P (ft\<lparr>start_offset := n\<rparr>)"
    and P_margin: "P ft \<Longrightarrow> P (ft\<lparr>rew_eot_margin := n\<rparr>)" and P_ffw: "P ft \<Longrightarrow> P (ft\<lparr>ffw_overshoot := keep_sane n\<rparr>)"
    and P_rew: "P ft \<Longrightarrow> P (ft\<lparr>rew_overshoot := keep_sane n\<rparr>)" and P_min: "P ft \<Longrightarrow> P (ft\<lparr>min_rewind := max (-5) n\<rparr>)"
begin

lemmas P_updates = P_command P_failure P_location P_running P_off_track P_rate P_runner P_offset P_history P_start P_margin P_ffw P_rew P_min

lemma send_keeps [keeps_intros]: "keeps d_ft P (ft_send_to_drive D n)"
  by (auto simp: keeps_def ft_send_to_drive_def fdc_seek_def ftape_sleep_def Let_def split: prod.splits)

lemma sense_keeps [keeps_intros]: "keeps d_ft P (fdc_sense_drive_status D)"
  by (auto simp: keeps_def fdc_sense_drive_status_def split: prod.splits)

lemma ack_keeps [keeps_intros]: "keeps d_ft P (await_ack D t)"
proof (rule keepsI)
  fix s s1 r assume run: "await_ack D t s = Some (s1, r)" and P: "P (d_ft s)"
  have "d_ft (fst y) = d_ft s" if "await_ack D t s = Some y" for D t s y
    using that
  proof (induction rule: await_ack.raw_induct [rotated, consumes 1])
    case (1 f D t0 s y)
    show ?case using 1(2)
      by (auto simp: seq_def bind_eq_Some_conv fdc_sense_drive_status_def ftape_sleep_def split: prod.splits sum.splits if_splits dest: 1(1))
  qed
  from this [OF run] P show "P (d_ft s1)" by simp
qed

lemma note_keeps [keeps_intros]: "keeps ft_of P note_status"
  by (auto simp: keeps_def note_status_def Let_def intro: P_updates split: if_splits)

lemma refuse_keeps [keeps_intros]: "keeps ft_of P (refuse c)"
  by (auto simp: keeps_def refuse_def intro: P_updates split: if_splits)

lemma bits_keeps: "(\<And>c. keeps d_ft P (send c)) \<Longrightarrow> keeps ft_of P (read_bits D send n i)"
proof (induction n arbitrary: i)
  case 0
  show ?case unfolding read_bits.simps by (intro keeps_intros 0)
next
  case (Suc n)
  have "keeps ft_of P (\<lambda>(s, v). read_bits D send n (Suc i) (s, if b then v OR push_bit i 1 else v))" for b
    using keepsD [OF Suc.IH [OF Suc.prems]] by (auto simp: keeps_def)
  then show ?case unfolding read_bits.simps by (intro keeps_intros Suc.prems)
qed

lemma report_keeps:
  assumes "\<And>c. keeps d_ft P (send c)"
  shows "keeps ft_of P (report_operation D send c n)"
proof -
  let ?m = "seq (read_bits D send n 0) (\<lambda>_. catch (on_drive (send QIC_REPORT_NEXT_BIT)) (\<lambda>_. ok ()))"
  have "keeps ft_of P ?m" by (intro keeps_intros bits_keeps assms)
  then have "P (d_ft s2)" if "?m (s1, 0) = Some ((s2, v2), r)" "P (d_ft s1)" for s1 s2 v2 r
    using keepsD [of ft_of P ?m "(s1, 0)" "(s2, v2)" r] that by simp
  then have tail: "keeps ft_of P (\<lambda>(s1, _). ?m (s1, 0))" by (fastforce simp: keeps_def)
  show ?thesis unfolding report_operation_def
    by (rule keeps_seq [OF keeps_on_drive [OF assms]], rule keeps_pair, rule keeps_seq [OF keeps_on_drive [OF ack_keeps] tail])
qed

lemma raw_status_keeps:
  assumes "\<And>c. keeps d_ft P (send c)"
  shows "keeps ft_of P (report_raw_drive_status D send)"
proof -
  have "keeps ft_of P (repeat_status D send n)" for n
  proof (induction n)
    case 0
    show ?case by (subst repeat_status.simps) (auto intro!: keeps_intros report_keeps assms split: sum.split)
  next
    case (Suc n)
    then show ?case by (subst repeat_status.simps) (auto intro!: keeps_intros report_keeps assms split: sum.split)
  qed
  then show ?thesis unfolding report_raw_drive_status_def by (intro keeps_intros)
qed

lemma error_keeps:
  assumes "\<And>c. keeps d_ft P (send c)"
  shows "keeps d_ft P (report_error D send)"
proof -
  have "keeps d_ft P (\<lambda>s. let e = word_of_int code; c = word_of_int (drop_bit 8 code) in Some (s\<lparr>d_error_command := c, d_error_code := e\<rparr>, Inr (e, c)))" for code
    by (simp add: keeps_def Let_def)
  then show ?thesis unfolding report_error_def by (intro keeps_intros report_keeps assms)
qed

lemma wait_loop_keeps:
  "wait_loop D send limit delay timeout tries sv = Some y \<Longrightarrow> keeps ft_of P (report_raw_drive_status D send) \<Longrightarrow> P (ft_of sv) \<Longrightarrow> P (ft_of (fst y))"
proof (induction rule: wait_loop.raw_induct [rotated, consumes 1])
  case (1 f D send limit delay timeout tries sv y)
  obtain s1 v1 r where raw: "report_raw_drive_status D send sv = Some ((s1, v1), r)"
    using 1(2) by (auto simp: seq_def bind_eq_Some_conv Let_def)
  have P1: "P (d_ft s1)" using keepsD [OF 1(3) raw 1(4)] by simp
  have ih: "P (ft_of (fst y))" if "f D send l d t k (ftape_sleep D ms s1, v1) = Some y" for l d t k ms
    by (rule 1(1) [OF that 1(3)]) (simp add: ftape_sleep_def P1)
  show ?case using 1(2) raw P1 by (auto simp: seq_def Let_def split: sum.splits if_splits dest: ih)
qed

lemma ready_wait_keeps:
  assumes "\<And>c. keeps d_ft P (send c)"
  shows "keeps ft_of P (ready_wait D send t)"
  unfolding ready_wait_def
proof (intro keeps_prod keepsI)
  fix limit tries sv sv1 r assume run: "wait_loop D send limit 0 t tries sv = Some (sv1, r)" and P: "P (ft_of sv)"
  from wait_loop_keeps [OF run raw_status_keeps [of send D, OF assms] P] show "P (ft_of sv1)" by simp
qed

lemma until_ready_keeps:
  "wait_until_ready D send c sv = Some y \<Longrightarrow> (\<And>t. keeps ft_of P (ready_wait D send t)) \<Longrightarrow> P (ft_of sv) \<Longrightarrow> P (ft_of (fst y))"
proof (induction rule: wait_until_ready.raw_induct [rotated, consumes 1])
  case (1 f D send c sv y)
  show ?case
  proof (cases "difference c (snd sv) AND QIC_STATUS_READY = 0")
    case True
    then show ?thesis using 1(2,4) by auto
  next
    case False
    then obtain sv1 r where w: "ready_wait D send (t_seek (d_timeout (fst sv))) sv = Some (sv1, r)"
      using 1(2) by (auto simp: bind_eq_Some_conv)
    show ?thesis using 1(2) False w keepsD [OF 1(3) w 1(4)] by (auto split: if_splits dest: 1(1) [OF _ 1(3)])
  qed
qed

lemma clear_keeps:
  "clear_errors D send c sv = Some y \<Longrightarrow> keeps ft_of P (on_drive (report_error D send)) \<Longrightarrow> keeps ft_of P (report_raw_drive_status D send)
    \<Longrightarrow> P (ft_of sv) \<Longrightarrow> P (ft_of (fst y))"
proof (induction rule: clear_errors.raw_induct [rotated, consumes 1])
  case (1 f D send c sv y)
  show ?case
  proof (cases "difference c (snd sv) AND QIC_STATUS_ERROR = 0")
    case True
    then show ?thesis using 1(2,5) by auto
  next
    case False
    then obtain sv1 r1 s2 v2 r2 where w: "on_drive (report_error D send) sv = Some (sv1, r1)" "report_raw_drive_status D send sv1 = Some ((s2, v2), r2)"
      using 1(2) by (auto simp: bind_eq_Some_conv seq_def)
    have "P (d_ft s2)" using keepsD [OF 1(4) w(2) keepsD [OF 1(3) w(1) 1(5)]] by simp
    then show ?thesis using 1(2) False w by (auto simp: seq_def split: if_splits sum.splits dest: 1(1) [OF _ 1(3,4)])
  qed
qed

lemma check_keeps:
  assumes "\<And>c. keeps d_ft P (send c)"
  shows "keeps d_ft P (check_cmd_restrictions D send c)"
proof (rule keepsI)
  fix s s1 r assume run: "check_cmd_restrictions D send c s = Some (s1, r)" and P: "P (d_ft s)"
  note A = assms raw_status_keeps [of send D, OF assms] ready_wait_keeps [of send D, OF assms]
  have E: "keeps ft_of P (on_drive (report_error D send))" by (intro keeps_intros error_keeps assms)
  have U: "keeps ft_of P (wait_until_ready D send c)" for c using until_ready_keeps [OF _ A(3)] by (fastforce simp: keeps_def)
  have C: "keeps ft_of P (clear_errors D send c)" for c using clear_keeps [OF _ E A(2)] by (fastforce simp: keeps_def)
  have M: "keeps ft_of P (wait_for_motion D send c)" unfolding wait_for_motion_def by (intro keeps_pair keeps_intros A)
  have "keeps ft_of P (seq (wait_for_motion D send c) (\<lambda>_ (s1, v1).
          (if cmd_mask (qic117_cmds ! c) = 0 then ok ()
           else seq (if v1 = -1 then report_raw_drive_status D send else ok ()) (\<lambda>_.
             seq (wait_until_ready D send c) (\<lambda>_. seq (clear_errors D send c) (\<lambda>_. refuse c)))) (s1, v1)))"
    by (intro keeps_pair keeps_intros A U C M)
  from keepsD [OF this, of "(s, -1)"] run P show "P (d_ft s1)" by (auto simp: check_cmd_restrictions_def split: if_splits)
qed

lemma body_keeps:
  assumes "\<And>c. keeps d_ft P (send c)"
  shows "keeps d_ft P (command_body D send c)"
proof (rule keepsI)
  fix s s1 r assume run: "command_body D send c s = Some (s1, r)" and P: "P (d_ft s)"
  have level: "P (d_ft (set_level f t)) = P (d_ft t)" for f t by (simp add: set_level_def)
  have sent: "P (d_ft t1)" if "send_command D c t = Some (t1, q)" "P (d_ft t)" for t t1 q
    using that keepsD [OF send_keeps, of D "int c" t] by (auto simp: send_command_def bind_eq_Some_conv level Let_def split: if_splits intro!: P_updates)
  let ?s = "set_level (\<lambda>n. n + 1) s"
  from run show "P (d_ft s1)"
  proof (cases rule: command_body_cases)
    case (4 s2 r2)
    then have "P (d_ft s2)" using keepsD [OF check_keeps [of send D c, OF assms], of ?s] P by (simp add: level)
    with 4(2) show ?thesis using sent by (auto simp: level)
  qed (use P sent [of ?s] in \<open>auto simp: level\<close>)
qed

lemma command_keeps [keeps_intros]: "keeps d_ft P (ftape_command D c)"
proof -
  have "keeps d_ft P (command_at D n c)" for n c
  proof (induction n arbitrary: c)
    case 0
    show ?case by (simp add: keeps_def)
  next
    case (Suc n)
    have "command_at D (Suc n) c = command_body D (command_at D n) c" by (rule ext) simp
    with body_keeps [of "command_at D n" D c, OF Suc.IH] show ?case by simp
  qed
  then show ?thesis by (simp only: ftape_command_def)
qed

lemma drive_keeps [keeps_intros]:
  "keeps ft_of P (ftape_report_operation D c n)" "keeps ft_of P (ftape_report_raw_drive_status D)"
  "keeps d_ft P (ftape_report_error D)" "keeps ft_of P (ftape_ready_wait D t)"
  unfolding ftape_report_operation_def ftape_report_raw_drive_status_def ftape_report_error_def ftape_ready_wait_def
  by (rule report_keeps raw_status_keeps error_keeps ready_wait_keeps, rule command_keeps)+

lemma parameter_keeps [keeps_intros]: "keeps d_ft P (ftape_parameter D n)"
  unfolding ftape_parameter_def by (intro keeps_intros)

lemma command_wait_keeps [keeps_intros]: "keeps ft_of P (ftape_command_wait D c t)"
  unfolding ftape_command_wait_def by (intro keeps_intros)

lemma parameter_wait_keeps [keeps_intros]: "keeps ft_of P (ftape_parameter_wait D n t)"
  unfolding ftape_parameter_wait_def by (intro keeps_intros)

lemma modify_ft_keeps: "(\<And>ft. P ft \<Longrightarrow> P (f ft)) \<Longrightarrow> keeps d_ft P (modify (modify_ft f))"
  by (intro keeps_intros) (simp add: modify_ft_def)

lemma drive_status_keeps [keeps_intros]: "keeps ft_of P (ftape_report_drive_status D)"
proof -
  have "keeps ft_of P (\<lambda>(s, v). if status_bit v QIC_STATUS_NEW_CARTRIDGE \<or> \<not> status_bit v QIC_STATUS_CARTRIDGE_PRESENT then
        Some ((modify_ft (\<lambda>ft. ft\<lparr>ft_failure := True\<rparr>) s, v), Inl EIO)
      else Some ((s, v), Inr (status_bit v QIC_STATUS_READY \<and> status_bit v QIC_STATUS_ERROR)))"
    by (auto simp: keeps_def modify_ft_def intro: P_updates split: if_splits)
  then show ?thesis unfolding ftape_report_drive_status_def by (rule keeps_seq [OF drive_keeps(2)])
qed

lemma query_keeps [keeps_intros]: "keeps d_ft P (query D c n)"
  unfolding query_def by (intro keeps_intros)

lemma configuration_keeps [keeps_intros]: "keeps d_ft P (ftape_report_configuration D)"
  unfolding ftape_report_configuration_def by (intro keeps_intros) simp_all

lemma wind_loop_keeps:
  "wind_loop D c b sv = Some y \<Longrightarrow> P (ft_of sv) \<Longrightarrow> P (ft_of (fst y))"
proof (induction rule: wind_loop.raw_induct [rotated, consumes 1])
  case (1 f D c b sv y)
  have "keeps ft_of P (f D c b)" using 1(1) by (fastforce simp: keeps_def)
  then have "keeps ft_of P (seq (ftape_command_wait D c t) (\<lambda>_. f D c b))" for t by (intro keeps_intros)
  then show ?case using 1(2,3) by (cases y) (auto split: if_splits dest: keepsD)
qed

lemma wind_keeps [keeps_intros]: "keeps d_ft P (ftape_seek_to_bot D)" "keeps d_ft P (ftape_seek_to_eot D)"
proof -
  have "keeps ft_of P (wind_loop D c b)" for c b using wind_loop_keeps by (fastforce simp: keeps_def)
  then show "keeps d_ft P (ftape_seek_to_bot D)" "keeps d_ft P (ftape_seek_to_eot D)"
    unfolding ftape_seek_to_bot_def ftape_seek_to_eot_def wind_def by (intro keeps_intros | assumption)+
qed

lemma timeouts_keeps [keeps_intros]: "keeps d_ft P (ftape_calc_timeouts D std rate len)"
  unfolding ftape_calc_timeouts_def measure_winding_def by (intro keeps_intros) (simp_all add: set_timeouts_def Let_def)

lemma set_rate_keeps [keeps_intros]: "keeps d_ft P (ftape_set_data_rate D rate std)"
proof -
  have attempt: "keeps d_ft P (try_rate D r)" for r unfolding try_rate_def select_rate_def by (intro keeps_intros)
  have tries: "keeps d_ft P (try_rates D rs r)" for rs r by (induction rs) (simp_all, (intro keeps_intros attempt | assumption)+)
  have test: "keeps d_ft P (ftape_set_rate_test D)" unfolding ftape_set_rate_test_def by (intro keeps_intros tries) simp
  have request: "keeps d_ft P (request_rate D r)" for r unfolding request_rate_def select_rate_def by (intro keeps_intros)
  show ?thesis unfolding ftape_set_data_rate_def by (intro keeps_intros test request) (simp add: modify_ft_def P_rate)
qed

lemma half_rate_keeps [keeps_intros]: "keeps d_ft P (ftape_half_data_rate D)"
  unfolding ftape_half_data_rate_def by (intro keeps_intros)

lemma reset_ft [simp]: "d_ft (fdc_reset D s) = d_ft s"
  by (simp add: fdc_reset_def split: prod.split)

lemma threshold_keeps [keeps_intros]: "keeps d_ft P (ftape_increase_threshold D)"
  unfolding ftape_increase_threshold_def by (intro keeps_intros) simp_all

lemma seek_head_keeps [keeps_intros]: "keeps d_ft P (ftape_seek_head_to_track D track)"
  unfolding ftape_seek_head_to_track_def by (intro keeps_intros modify_ft_keeps P_updates)

lemma set_keeps: "P (d_ft s) \<Longrightarrow> P (d_ft (set_known b s))" "P (d_ft s) \<Longrightarrow> P (d_ft (set_running b s))" "P (d_ft s) \<Longrightarrow> P (d_ft (note_marks v s))"
  "P (d_ft s) \<Longrightarrow> P (d_ft (off_track D s))"
  by (simp_all add: set_known_def set_running_def note_marks_def off_track_def modify_ft_def ftape_sleep_def P_updates)

lemma stopped_keeps [keeps_intros]: "keeps ft_of P stopped"
  by (auto simp: keeps_def stopped_def intro: set_keeps)

lemma read_id_keeps [keeps_intros]: "keeps d_ft P (ftape_read_id D)"
proof (rule keepsI)
  fix s s1 r assume run: "ftape_read_id D s = Some (s1, r)" and P: "P (d_ft s)"
  obtain w out where w: "v_read_id D (d_world s) = (w, out)" by force
  let ?s = "set_known False s\<lparr>d_world := w\<rparr>" and ?fin = "\<lambda>_ s2. Some (s2, if known s2 then Inr () else Inl EIO)"
  have s: "P (d_ft ?s)" using set_keeps(1) [OF P] by simp
  have last: "keeps d_ft P (?fin x)" for x by (simp add: keeps_def)
  have no: "keeps d_ft P (no_id D)" unfolding no_id_def by (intro keeps_intros)
  have A: "keeps d_ft P (seq (if fdc_sect = 0 then no_id D else modify (modify_ft (\<lambda>ft. ft\<lparr>location := read_id_location ft h c fdc_sect\<rparr>))) ?fin)" for h c fdc_sect
    by (intro keeps_intros last no modify_ft_keeps P_updates)
  have B: "keeps d_ft P (seq (if e = ETIME then with_var D (catch (ftape_ready_wait D FT_FOREVER) (\<lambda>r. if r = Inr () then stopped else ok ())) else ok ()) ?fin)" for e
    by (intro keeps_intros last)
  show "P (d_ft s1)" using run s keepsD [OF A _ s] keepsD [OF B _ s] by (cases out) (auto simp: ftape_read_id_def w Let_def)
qed

lemma forward_keeps [keeps_intros]: "keeps d_ft P (logical_forward D)"
  unfolding logical_forward_def by (intro keeps_intros set_keeps)

lemma stop_keeps [keeps_intros]: "keeps ft_of P (ftape_stop_tape D)"
proof -
  have attempt: "keeps ft_of P (stop_try D)" unfolding stop_try_def by (intro keeps_intros set_keeps)
  have "keeps ft_of P (stop_tries D n)" for n
    by (induction n) (subst stop_tries.simps, intro keeps_intros attempt, simp add: keeps_intros)+
  then show ?thesis by (simp only: ftape_stop_tape_def)
qed

lemma send_parameters_keeps [keeps_intros]: "keeps d_ft P (send_parameters D ps)"
  by (induction ps) (simp_all add: keeps_intros)

lemma fast_seek_keeps:
  assumes "\<And>n. keeps d_ft P (slow n)"
  shows "keeps d_ft P (fast_seek D slow count backwards)"
  unfolding fast_seek_def by (intro keeps_intros assms set_keeps)

lemma id_loop_keeps: "id_loop D target fast failures s = Some y \<Longrightarrow> P (d_ft s) \<Longrightarrow> P (d_ft (fst y))"
proof (induction rule: id_loop.raw_induct [rotated, consumes 1])
  case (1 f D target fast failures s y)
  have f: "keeps d_ft P (f D target b n)" for b n using 1(1) by (fastforce simp: keeps_def)
  have adjust: "P (d_ft (adjust_forward n t))" if "P (d_ft t)" for n t using that by (simp add: adjust_forward_def modify_ft_def P_updates)
  show ?case using 1(2,3)
    by (cases y) (auto simp: catch_def bind_eq_Some_conv Let_def split: if_splits dest!: keepsD [OF read_id_keeps] keepsD [OF f] intro: set_keeps adjust)
qed

lemma seek_with_keeps:
  assumes "\<And>n b. keeps d_ft P (skip n b)"
  shows "keeps d_ft P (seek_with D skip target fast)"
proof -
  have "keeps d_ft P (id_loop D t b n)" for t b n using id_loop_keeps by (fastforce simp: keeps_def)
  then show ?thesis unfolding seek_with_def Let_def by (intro keeps_intros set_keeps assms)
qed

lemma seek_keeps [keeps_intros]: "keeps d_ft P (seek_forward D target fast)" "keeps d_ft P (fast_seek D (seek_slow D) n b)"
proof -
  have slow: "keeps d_ft P (seek_slow D t)" for t unfolding seek_slow_def by (intro seek_with_keeps keeps_intros)
  show "keeps d_ft P (seek_forward D target fast)" "keeps d_ft P (fast_seek D (seek_slow D) n b)"
    unfolding seek_forward_def by (intro seek_with_keeps fast_seek_keeps slow)+
qed

lemma skip_loop_keeps: "skip_loop D target failures sv = Some y \<Longrightarrow> P (ft_of sv) \<Longrightarrow> P (ft_of (fst y))"
proof (induction rule: skip_loop.raw_induct [rotated, consumes 1])
  case (1 f D target failures sv y)
  have f: "keeps ft_of P (f D target n)" for n using 1(1) by (fastforce simp: keeps_def)
  have adjust: "P (d_ft (adjust_rewind a n b t))" if "P (d_ft t)" for a n b t
    using that by (simp add: adjust_rewind_def Let_def modify_ft_def P_updates)
  let ?next = "\<lambda>short expected (r :: unit result) sv1. if r \<noteq> Inr () \<or> \<not> known (fst sv1) \<or> v_signal D (d_world (fst sv1)) then
          (if \<not> tape_running (d_ft (fst sv1)) \<and> \<not> known (fst sv1) \<or> failures + 1 > 32 then Some (sv1, Inl EIO)
           else if v_signal D (d_world (fst sv1)) then Some (sv1, Inl EINTR)
           else seq (ftape_report_drive_status D) (\<lambda>_ sv2. if segment (fst sv2) > target then f D target (failures + 1) sv2 else Some (sv2, Inr ())) sv1)
        else (let s2 = adjust_rewind short expected (rew_eot_flag (fst sv) True) (fst sv1)
              in if segment s2 > target then f D target failures (s2, snd sv1) else Some ((s2, snd sv1), Inr ()))"
  have again: "keeps ft_of P (\<lambda>sv2. if segment (fst sv2) > target then f D target (failures + 1) sv2 else Some (sv2, Inr ()))" for x :: bool
    using f by (auto simp: keeps_def)
  have last: "keeps ft_of P (?next short expected r)" for short expected r
  proof (rule keepsI)
    fix sv1 sv2 q assume run: "?next short expected r sv1 = Some (sv2, q)" and P: "P (ft_of sv1)"
    let ?s = "adjust_rewind short expected (rew_eot_flag (fst sv) True) (fst sv1)"
    have "P (ft_of sv2)" if "f D target failures (?s, snd sv1) = Some (sv2, q)" using keepsD [OF f that] adjust [OF P] by simp
    then show "P (ft_of sv2)" using run P keepsD [OF keeps_seq [OF drive_status_keeps again]] adjust [OF P] by (auto simp: Let_def split: if_split_asm)
  qed
  obtain short count expected where plan: "plan_skip (d_ft (fst sv)) (target - 1) = Some (short, count, expected)"
    using 1(2) by (auto simp: bind_eq_Some_conv)
  have "keeps ft_of P (seq (ignore (on_drive (fast_seek D (seek_slow D) count True))) (\<lambda>_.
      seq (ignore (on_drive (logical_forward D))) (\<lambda>_. catch (on_drive (ftape_read_id D)) (?next short expected))))"
    by (intro keeps_intros last)
  from keepsD [OF this, of sv] show ?case using 1(2,3) plan by (cases y) auto
qed

lemma skip_keeps [keeps_intros]: "keeps ft_of P (skip_reverse D target)"
proof -
  have "keeps ft_of P (skip_loop D t n)" for t n using skip_loop_keeps by (fastforce simp: keeps_def)
  then show ?thesis unfolding skip_reverse_def by (intro keeps_intros set_keeps)
qed

lemma id_tries_keeps [keeps_intros]: "keeps ft_of P (id_tries D n)"
proof (induction n)
  case 0
  show ?case by (subst id_tries.simps) (simp add: keeps_intros)
next
  case (Suc n)
  have "keeps ft_of P (id_tries D (Suc n - 1))" using Suc by simp
  then show ?case by (subst id_tries.simps) (intro keeps_intros set_keeps)
qed

lemma determine_keeps [keeps_intros]: "keeps d_ft P (determine_position D)"
proof -
  have "keeps ft_of P (start_ready_drive D)" unfolding start_ready_drive_def by (intro keeps_intros set_keeps)
  then show ?thesis unfolding determine_position_def by (intro keeps_intros set_keeps)
qed

lemma overruns_keeps [keeps_intros]: "keeps d_ft P (watch_overruns D n)"
proof -
  have forget: "P (d_ft (forget_overruns s))" if "P (d_ft s)" for s using that by (simp add: forget_overruns_def modify_ft_def P_offset)
  have "keeps d_ft P (slow_down D)" unfolding slow_down_def by (intro keeps_intros forget) (simp add: uncount_retry_def)
  then show ?thesis unfolding watch_overruns_def Let_def by (intro keeps_intros forget) (simp_all add: uncount_retry_def)
qed

lemma approach_keeps [keeps_intros]: "keeps d_ft P (approach D n b f)"
  unfolding approach_def Let_def by (intro keeps_intros)

lemma reposition_keeps [keeps_intros]: "keeps ft_of P (reposition D n)"
  unfolding reposition_def Let_def by (intro keeps_intros modify_ft_keeps set_keeps P_updates)

lemma turn_keeps [keeps_intros]: "keeps ft_of P (start_turn D n b r)"
  unfolding start_turn_def go_forward_def by (intro keeps_intros modify_ft_keeps set_keeps) (simp add: P_start)

lemma turns_keeps [keeps_intros]: "keeps ft_of P (start_turns D i b n r e)"
proof (induction n arbitrary: r e)
  case 0
  show ?case by (subst start_turns.simps) (simp add: keeps_intros)
next
  case (Suc n)
  have "keeps ft_of P (start_turns D i b (Suc n - 1) r e)" for r e using Suc by simp
  then show ?case by (subst start_turns.simps) (intro keeps_intros)
qed

lemma start_tape_keeps: "keeps d_ft P (ftape_start_tape D i b)"
proof -
  have "keeps ft_of P (choose_track D t)" for t unfolding choose_track_def by (intro keeps_intros)
  then have "keeps d_ft P (seq (modify (set_running False)) (\<lambda>_. seq (watch_overruns D i) (\<lambda>_.
       seq (modify (\<lambda>s. s\<lparr>d_last_segment := i\<rparr>)) (\<lambda>_. seq (with_var D (seq (choose_track D t) (\<lambda>_.
         look (\<lambda>sv. start_turns D i b (nat (ft_soft_retries (d_ft (fst sv)) + 1)) 1 EIO)))) (\<lambda>_.
       modify (modify_ft (\<lambda>ft. ft\<lparr>runner_status := running\<rparr>)))))))" for t
    by (intro keeps_intros set_keeps modify_ft_keeps P_updates) simp_all
  from keepsD [OF this] show ?thesis by (auto simp: keeps_def ftape_start_tape_def split: if_splits)
qed

end

section \<open>Properties\<close>

text \<open>\<open>seek_forward\<close> and \<open>fast_seek\<close> call each other in the code; the call from \<open>fast_seek\<close> is one that does not seek fast.\<close>

lemma seek_slow_forward: "seek_slow D target = seek_forward D target False"
  by (simp add: seek_slow_def seek_forward_def seek_with_def Let_def cong: if_cong)

definition sane_overshoots :: "ftape_info \<Rightarrow> bool" where
  "sane_overshoots ft \<longleftrightarrow> ffw_overshoot ft \<in> {-5..20} \<and> rew_overshoot ft \<in> {-5..20} \<and> -5 \<le> min_rewind ft"

text \<open>What the rest of the driver relies on.\<close>

definition tape_layout :: "ftape_info \<Rightarrow> _" where
  "tape_layout ft = ((format_code ft, qic_std ft, tape_len ft, segments_per_track ft, tracks_per_tape ft, segments_per_head ft, segments_per_cylinder ft),
     (header_segment_1 ft, header_segment_2 ft, used_header_segment ft, first_data_segment ft, last_data_segment ft, hseg_buf ft),
     (bad_sector_map ft, bsm_hash_ptr ft, last_reference ft, bsm_map ft), driver_state ft, formatted ft, no_tape ft, new_tape ft, ft_write_protected ft)"

lemma keep_sane_range: "-5 \<le> keep_sane n" "keep_sane n \<le> 20"
  by (simp_all add: keep_sane_def)

interpretation overshoots: motion_invariant sane_overshoots
  by unfold_locales (simp_all add: sane_overshoots_def keep_sane_range)

interpretation layout: motion_invariant "\<lambda>ft. tape_layout ft = G" for G
  by unfold_locales (simp_all add: tape_layout_def)

text \<open>
  The distances that the driver learns about winding stay within their bounds whatever the drive does: an overshoot of a fast forward or a
  longer rewind is between -5 and 20 segments, and that of the shortest rewind is at least -5.
\<close>

theorem start_tape_overshoots_bounded:
  assumes "ftape_start_tape D i short s = Some (s1, r)" and "sane_overshoots (d_ft s)"
  shows "sane_overshoots (d_ft s1)"
  using keepsD [OF overshoots.start_tape_keeps assms] .

text \<open>
  Success of \<open>ftape_start_tape\<close> means that the tape runs in front of the segment, or in it for a short start: the last position that was read is the one wanted, and
  the interrupt handler may go on. Meanwhile nothing changes of what the driver knows about the cartridge, its header and its bad sectors.
\<close>

theorem start_tape_positions:
  assumes "ftape_start_tape D i short s = Some (s1, Inr ())"
  shows "loc_segment (location (d_ft s1)) = i - (if short then 0 else 1) \<and> runner_status (d_ft s1) = running \<and> tape_layout (d_ft s1) = tape_layout (d_ft s)"
proof -
  have approach: "segment t1 = i - (if short then 0 else 1)" if "approach D i short fast t = Some (t1, Inr ())" for fast t t1
    using that by (auto simp: approach_def Let_def success split: if_splits)
  have turn: "segment (fst t1) = i - (if short then 0 else 1)" if "start_turn D i short retry t = Some (t1, Inr (Inr ()))" for retry t t1
  proof -
    have forward: "segment (fst t2) = i - (if short then 0 else 1)" if "go_forward D i short retry t0 = Some (t2, Inr (Inr ()))" for t0 t2
      using that by (auto simp: go_forward_def success approach)
    have choice: "(if c then m else k) sv = Some z \<longleftrightarrow> c \<and> m sv = Some z \<or> \<not> c \<and> k sv = Some z" for c m k z and sv :: "'a drive_state \<times> int"
      by simp
    have "\<exists>t0. go_forward D i short retry t0 = Some (t1, Inr (Inr ()))"
      using that unfolding start_turn_def seq_success catch_success basic_success choice case_success by blast
    then show ?thesis using forward by blast
  qed
  have turns: "segment (fst t1) = i - (if short then 0 else 1)" if "start_turns D i short n retry e t = Some (t1, Inr ())" for n retry e t t1
    using that
  proof (induction n arbitrary: retry e t)
    case 0
    then show ?case by (subst (asm) start_turns.simps) (simp add: success)
  next
    case (Suc n)
    then show ?case
      by (subst (asm) start_turns.simps) (auto simp: success split: if_splits dest: turn)
  qed
  have "tape_layout (d_ft s1) = tape_layout (d_ft s)" using keepsD [OF layout.start_tape_keeps assms refl] .
  moreover have "segment s1 = i - (if short then 0 else 1) \<and> runner_status (d_ft s1) = running"
    using assms by (auto simp: ftape_start_tape_def success modify_ft_def split: if_splits dest: turns)
  ultimately show ?thesis by blast
qed

lemma nibble_step: "(c :: int) AND 15 = c mod 16"
  using take_bit_eq_mask [of 4 c] by (simp add: take_bit_eq_mod mask_eq_exp_minus_1)

lemma nibbles_value: "0 \<le> c \<Longrightarrow> horner_sum (\<lambda>x. x) 16 (nibbles n c) = c mod 16 ^ n"
proof (induction n arbitrary: c)
  case (Suc n)
  then have "horner_sum (\<lambda>x. x) 16 (nibbles (Suc n) c) = c mod 16 + 16 * (c div 16 mod 16 ^ n)"
    by (simp add: nibble_step pos_imp_zdiv_nonneg_iff)
  also have "\<dots> = c mod (16 * 16 ^ n)" by (simp add: zmod_zmult2_eq)
  finally show ?case by simp
qed simp

text \<open>
  The four-bit parameters of a fast seek denote the number of segments to skip, less one, with one exception: a reverse seek of at most 255 segments from the end of
  the track is sent with two parameters even when the margin added there makes it longer than 256, and then it is 256 segments too short.
\<close>

theorem skip_parameters_value:
  assumes "1 \<le> count" "0 \<le> rew_eot_margin (d_ft s)" "rew_eot_margin (d_ft s) < 256" and "1 \<le> skip_distance s count backwards"
  shows "horner_sum (\<lambda>x. x) 16 (nibbles (nibble_count count) (skip_distance s count backwards - 1)) + 1
    = skip_distance s count backwards
      - (if rew_eot_flag s backwards \<and> count \<le> 255 \<and> count + rew_eot_margin (d_ft s) > 256 then 256 else 0)"
proof -
  let ?d = "skip_distance s count backwards"
  have denotes: "horner_sum (\<lambda>x. x) 16 (nibbles n (?d - 1)) = (?d - 1) mod 16 ^ n" for n using assms(4) by (intro nibbles_value) simp
  show ?thesis
  proof (cases "count > 255")
    case True
    have "?d \<le> 4095" by (simp add: skip_distance_def)
    then show ?thesis using True assms(4) by (simp add: nibble_count_def denotes)
  next
    case False
    have long: "(x - 1) mod 256 = x - 257" if "256 < x" "x \<le> 512" for x :: int
    proof -
      have "x - 1 = (x - 257) + 256" by simp
      then have "(x - 1) mod 256 = (x - 257) mod 256" by (metis mod_add_self2)
      then show ?thesis using that by simp
    qed
    have flag: "?d = count + rew_eot_margin (d_ft s)" if "rew_eot_flag s backwards"
      using that False assms(3) by (auto simp: skip_distance_def rew_eot_flag_def)
    have plain: "?d \<le> 255" if "\<not> rew_eot_flag s backwards" using that False by (simp add: skip_distance_def)
    have two: "horner_sum (\<lambda>x. x) 16 (nibbles (nibble_count count) (?d - 1)) = (?d - 1) mod 256" using denotes [of 2] False by (simp add: nibble_count_def)
    show ?thesis unfolding two using False assms flag plain long [of ?d] by (cases "rew_eot_flag s backwards"; cases "?d > 256") simp_all
  qed
qed

section \<open>Examples\<close>

definition winding_drive :: "bool list drive_env" where
  "winding_drive = (answering_drive (\<lambda>_. []))\<lparr>v_read_id := \<lambda>w. (w, Found_Id 2 8 33)\<rparr>"

definition wound_state :: "bool list drive_state" where
  "wound_state = sample_drive\<lparr>d_diagnostic := True, d_ft := (blank_info fmt_normal)\<lparr>might_be_off_track := False, ft_soft_retries := 6, ffw_overshoot := 1, rew_overshoot := 1,
     min_rewind := 2, min_count := 8, rew_eot_margin := 4, start_offset := 1, ft_failure := False,
     location := \<lparr>loc_track = 12, loc_segment = 1225, loc_sector = 0, loc_bot = False, loc_eot = False, loc_known = True\<rparr>\<rparr>\<rparr>"

lemma skip_parameters_value_witness:
  "horner_sum (\<lambda>x. x) 16 (nibbles (nibble_count 300) (skip_distance wound_state 300 False - 1)) + 1 = (300 :: int)"
  using skip_parameters_value [of 300 wound_state False] by (simp add: wound_state_def skip_distance_def rew_eot_flag_def)

lemma wound_forward:
  assumes "d_level s = 0" "d_diagnostic s"
  shows "ftape_command winding_drive 10 s = Some (modify_ft (\<lambda>ft. ft\<lparr>current_command := 10\<rparr>) s\<lparr>d_cylinder := d_cylinder s + (if d_cylinder s \<ge> 10 then -10 else 10),
      d_world := []\<rparr>, Inr ())"
  using assms by (subst ftape_command_cases(1))
    (simp_all add: command_body_def length_cmds Let_def set_level_def send_command_def ft_send_to_drive_def fdc_seek_def ftape_sleep_def modify_ft_def
      winding_drive_def answering_drive_def qic117_cmds_def cmd_def)

lemma wound_id_loop:
  assumes "segments_per_head (d_ft s) = 600" "segments_per_cylinder (d_ft s) = 4" "segment s < 1233"
  shows "\<exists>s1. id_loop winding_drive 1233 False 0 s = Some (s1, Inr ()) \<and> segment s1 = 1233 \<and> known s1"
proof -
  have id: "ftape_read_id winding_drive s = Some (modify_ft (\<lambda>ft. ft\<lparr>location := read_id_location ft 2 8 33\<rparr>) (set_known False s), Inr ())"
    by (simp add: ftape_read_id_def winding_drive_def set_known_def modify_ft_def modify_def seq_def read_id_location_def)
  have at: "segment (modify_ft (\<lambda>ft. ft\<lparr>location := read_id_location ft 2 8 33\<rparr>) (set_known False s)) = 1233 \<and> known (modify_ft (\<lambda>ft. ft\<lparr>location := read_id_location ft 2 8 33\<rparr>) (set_known False s))"
    using assms by (simp add: read_id_location_def modify_ft_def set_known_def)
  have quiet: "\<not> v_signal winding_drive w" for w by (simp add: winding_drive_def answering_drive_def)
  show ?thesis
    using assms(3) by (subst id_loop.simps) (simp add: catch_def id at quiet id_loop.simps)
qed

lemma wound_start: "\<exists>s1. ftape_start_tape winding_drive 1234 False wound_state = Some (s1, Inr ())"
proof -
  define s where "s = (modify_ft (\<lambda>ft. ft\<lparr>current_command := 10\<rparr>) (modify_ft (\<lambda>ft. ft\<lparr>start_offset := 2, tape_running := True\<rparr>) wound_state))\<lparr>d_last_segment := 1234, d_cylinder := 10, d_world := []\<rparr>"
  obtain s1 where s1: "id_loop winding_drive 1233 False 0 s = Some (s1, Inr ())" "segment s1 = 1233" "known s1"
    using wound_id_loop [of s] by (auto simp: s_def wound_state_def modify_ft_def blank_info_def)
  have quiet: "\<not> v_signal winding_drive w" for w by (simp add: winding_drive_def answering_drive_def)
  have seek: "seek_forward winding_drive 1233 True (modify_ft (\<lambda>ft. ft\<lparr>start_offset := 2, tape_running := False\<rparr>) wound_state\<lparr>d_last_segment := 1234\<rparr>) = Some (s1, Inr ())"
    using s1
    by (simp add: seek_forward_def seek_with_def look_def s_def wound_state_def modify_ft_def set_running_def sample_drive_def blank_info_def validate_def seq_def ok_def ignore_def
        catch_def logical_forward_def modify_def wound_forward)
  show ?thesis
    using seek s1
    by (simp add: ftape_start_tape_def watch_overruns_def choose_track_def start_turns.simps [of _ _ _ 7] start_turn_def go_forward_def approach_def head_start_def look_def wound_state_def modify_ft_def set_running_def
       sample_drive_def blank_info_def seq_def ok_def ignore_def
        catch_def modify_def on_drive_def with_var_def quiet)
qed

lemma start_tape_positions_witness:
  "\<exists>s1. ftape_start_tape winding_drive 1234 False wound_state = Some (s1, Inr ()) \<and> segment s1 = 1233 \<and> tape_layout (d_ft s1) = tape_layout (d_ft wound_state)"
proof -
  obtain s1 where s1: "ftape_start_tape winding_drive 1234 False wound_state = Some (s1, Inr ())" using wound_start by blast
  show ?thesis using start_tape_positions [OF s1] s1 by auto
qed

lemma start_tape_overshoots_bounded_witness:
  "\<exists>s1. ftape_start_tape winding_drive 1234 False wound_state = Some (s1, Inr ()) \<and> sane_overshoots (d_ft s1)"
proof -
  obtain s1 where s1: "ftape_start_tape winding_drive 1234 False wound_state = Some (s1, Inr ())" using wound_start by blast
  have "sane_overshoots (d_ft wound_state)" by (simp add: sane_overshoots_def wound_state_def)
  from start_tape_overshoots_bounded [OF s1 this] s1 show ?thesis by blast
qed

end
