(* ===== verification/Fdc_Progress.thy ===== *)
theory Fdc_Progress
  imports Ft_Segment
begin

text \<open>
  The bookkeeping of the interrupt handler on one buffer, from \<open>src/ftape/lowlevel/fdc-isr.c\<close>: the
  cause of an interrupt, how many sectors were transferred, the position and the error maps after
  it, and the sector at which a retry resumes.
\<close>

unbundle bit_operations_syntax

section \<open>The cause of an interrupt\<close>

datatype ft_error_cause_t = no_error | id_am_error | id_crc_error | data_am_error | data_crc_error
  | no_data_error | overrun_error

definition decode_irq_cause :: "u8 list \<Rightarrow> ft_error_cause_t" where
  "decode_irq_cause st =
    (if st ! 0 AND 0xc0 = 0x40 then
       (if st ! 1 AND 0x01 \<noteq> 0 then (if st ! 2 AND 0x01 \<noteq> 0 then data_am_error else id_am_error)
        else if st ! 1 AND 0x20 \<noteq> 0 then (if st ! 2 AND 0x20 \<noteq> 0 then data_crc_error else id_crc_error)
        else if st ! 1 AND 0x04 \<noteq> 0 then no_data_error
        else if st ! 1 AND 0x10 \<noteq> 0 then overrun_error
        else no_error)
     else no_error)"

definition update_history :: "ft_history \<Rightarrow> ft_error_cause_t \<Rightarrow> ft_history" where
  "update_history h cause = (case cause of
       id_am_error \<Rightarrow> h\<lparr>id_am_errors := id_am_errors h + 1\<rparr>
     | id_crc_error \<Rightarrow> h\<lparr>id_crc_errors := id_crc_errors h + 1\<rparr>
     | data_am_error \<Rightarrow> h\<lparr>data_am_errors := data_am_errors h + 1\<rparr>
     | data_crc_error \<Rightarrow> h\<lparr>data_crc_errors := data_crc_errors h + 1\<rparr>
     | overrun_error \<Rightarrow> h\<lparr>overrun_errors := overrun_errors h + 1\<rparr>
     | no_data_error \<Rightarrow> h\<lparr>no_data_errors := no_data_errors h + 1\<rparr>
     | no_error \<Rightarrow> h)"

section \<open>Error maps\<close>

definition skip_bad_sector :: "buffer_struct \<Rightarrow> buffer_struct" where
  "skip_bad_sector buff =
    (if b_remaining buff > 0 then
       buff\<lparr>b_sector_offset := b_sector_offset buff + 1, b_data_offset := b_data_offset buff + 1,
            b_remaining := b_remaining buff - 1, b_ptr := b_ptr buff + 1024,
            b_bad_sector_map := drop_bit 1 (b_bad_sector_map buff)\<rparr>
     else buff\<lparr>b_sector_offset := b_sector_offset buff + 1\<rparr>)"

definition update_error_maps :: "int \<Rightarrow> buffer_struct \<Rightarrow> int \<Rightarrow> buffer_struct" where
  "update_error_maps soft_retries buff error_offset =
    (if error_offset \<ge> 32 then buff
     else if b_retry buff < soft_retries then
       buff\<lparr>b_soft_error_map := b_soft_error_map buff OR push_bit (nat error_offset) 1\<rparr>
     else
       (let hard = b_hard_error_map buff OR push_bit (nat error_offset) 1
        in buff\<lparr>b_hard_error_map := hard, b_soft_error_map := b_soft_error_map buff AND NOT hard, b_retry := -1\<rparr>))"

section \<open>How much was transferred\<close>

text \<open>The result bytes 3 and 5 are the cylinder and the sector behind the transfer.\<close>

definition get_fdc_transfer_size :: "buffer_struct \<Rightarrow> u8 list \<Rightarrow> int" where
  "get_fdc_transfer_size buff r =
    (if uint (r ! 3) - uint (b_cyl buff) \<noteq> 0 \<and> r ! 5 = 1 then b_sector_count buff
     else uint (r ! 5) - uint (b_sect buff) - b_sector_offset buff)"

definition get_ez_transfer_size :: "buffer_struct \<Rightarrow> u8 list \<Rightarrow> int" where
  "get_ez_transfer_size buff r =
    (let d = uint (r ! 3) - uint (b_cyl buff); cyl_dist = (if d < 0 then d + 255 else d)
     in cyl_dist * 128 + uint (r ! 5) - uint (b_sect buff) - b_sector_offset buff)"

text \<open>
  The unsigned count is returned as an \<open>int\<close>; the error \<open>-EAGAIN\<close> is the number -11, as in the source.
\<close>

abbreviation EAGAIN_result :: int where "EAGAIN_result \<equiv> -11"

definition get_transfer_size ::
  "bool \<Rightarrow> buffer_struct \<Rightarrow> u8 list \<Rightarrow> ft_error_cause_t \<Rightarrow> u32 \<Rightarrow> buffer_struct \<times> int" where
  "get_transfer_size ditto_ez buff r cause residue =
    (let fdc_count = u32_wrap (if ditto_ez then get_ez_transfer_size buff r else get_fdc_transfer_size buff r);
         ret = sint (word_of_int fdc_count :: u32)
     in if residue = -1 then (buff, ret)
        else
          (let dma_residue = uint ((residue + 1023) div 1024)
           in if u32_wrap (fdc_count + dma_residue) > b_sector_count buff then (buff\<lparr>b_sector_count := 0\<rparr>, EAGAIN_result)
              else if fdc_count = b_sector_count buff \<and> cause \<noteq> no_error then (buff\<lparr>b_sector_count := 0\<rparr>, EAGAIN_result)
              else (buff, ret)))"

section \<open>Progress\<close>

definition determine_verify_progress ::
  "int \<Rightarrow> bool \<Rightarrow> buffer_struct \<Rightarrow> ft_error_cause_t \<Rightarrow> u8 list \<Rightarrow> u32 \<Rightarrow> buffer_struct" where
  "determine_verify_progress soft_retries ditto_ez buff0 cause r residue =
    (case get_transfer_size ditto_ez buff0 r cause residue of (buff, res) \<Rightarrow>
       let sector_count = (if res = EAGAIN_result then 0 else res)
       in if cause = no_error \<and> u32_wrap sector_count = b_sector_count buff then
            buff\<lparr>b_sector_offset := 32, b_remaining := 0\<rparr>
          else
            (let off = u32_wrap (b_sector_offset buff + sector_count);
                 buff1 = buff\<lparr>b_sector_count := u32_wrap sector_count, b_sector_offset := off, b_remaining := u32_wrap (32 - off)\<rparr>;
                 buff2 = (if cause = overrun_error then
                            (if b_retry buff1 > 0 then buff1\<lparr>b_retry := b_retry buff1 - 1, b_short_start := False\<rparr> else buff1)
                          else buff1\<lparr>b_short_start := True, b_retry := soft_retries\<rparr>);
                 buff3 = buff2\<lparr>b_sector_offset := u32_wrap (b_sector_offset buff2 + 1),
                               b_remaining := u32_wrap (b_remaining buff2 - 1)\<rparr>;
                 buff4 = update_error_maps soft_retries buff3 (u32_wrap (b_sector_offset buff3 - 1))
             in if b_remaining buff4 > 0 then
                  buff4\<lparr>b_sector_offset := u32_wrap (b_sector_offset buff4 + 1), b_remaining := b_remaining buff4 - 1\<rparr>
                else buff4))"

text \<open>The variables influenced by the DMA operation, and the retry count after an error.\<close>

definition move_position :: "int \<Rightarrow> buffer_struct \<Rightarrow> buffer_struct" where
  "move_position n buff =
    (if n > 0 then
       buff\<lparr>b_sector_offset := u32_wrap (b_sector_offset buff + n), b_data_offset := u32_wrap (b_data_offset buff + n),
            b_ptr := b_ptr buff + u32_wrap (n * 1024), b_remaining := u32_wrap (b_remaining buff - n),
            b_bad_sector_map := drop_bit (nat n) (b_bad_sector_map buff)\<rparr>
     else buff)"

definition note_error :: "ft_error_cause_t \<Rightarrow> buffer_struct \<Rightarrow> buffer_struct" where
  "note_error cause buff =
    (if cause = overrun_error then
       (if b_retry buff > 0 then buff\<lparr>b_retry := b_retry buff - 1, b_short_start := False\<rparr> else buff)
     else buff\<lparr>b_short_start := True\<rparr>)"

definition determine_progress :: "int \<Rightarrow> buffer_struct \<Rightarrow> ft_error_cause_t \<Rightarrow> int \<Rightarrow> buffer_struct" where
  "determine_progress soft_retries buff0 cause transferred0 =
    (let transferred = (if cause \<noteq> no_error \<and> b_sector_count buff0 = u32_wrap transferred0
                        then transferred0 - 1 else transferred0);
         buff = (if cause \<noteq> no_error \<or> b_sector_count buff0 \<noteq> u32_wrap transferred0
                 then buff0\<lparr>b_sector_count := u32_wrap transferred\<rparr> else buff0);
         buff1 = move_position (b_sector_count buff) buff
     in if cause \<noteq> no_error then
          (let buff2 = skip_bad_sector (note_error cause buff1)
           in update_error_maps soft_retries buff2 (u32_wrap (b_sector_offset buff2 - 1)))
        else buff1)"

section \<open>Where to resume\<close>

text \<open>\<open>while ((map & (1 << i)) == 0) ++i\<close> and the same downwards; both run on maps with a suitable bit set.\<close>

function first_set :: "u32 \<Rightarrow> nat \<Rightarrow> nat" where
  "first_set bmap i = (if i < 32 \<and> bmap AND push_bit i 1 = 0 then first_set bmap (i + 1) else i)"
  by pat_completeness auto
termination by (relation "measure (\<lambda>(m, i). 32 - i)") auto

declare first_set.simps [simp del]

primrec last_set :: "u32 \<Rightarrow> nat \<Rightarrow> nat" where
  "last_set bmap 0 = 0"
| "last_set bmap (Suc i) = (if bmap AND push_bit (Suc i) 1 = 0 then last_set bmap i else Suc i)"

definition find_resume_point :: "buffer_struct \<Rightarrow> int" where
  "find_resume_point buff =
    (if b_sector_offset buff < 1 \<or> b_sector_offset buff > 32 then 0
     else
       (let bmask = (if b_sector_offset buff \<ge> 32 then 0xffffffff else push_bit (nat (b_sector_offset buff)) 1 - 1);
            soft = b_soft_error_map buff AND bmask;
            hard = b_hard_error_map buff AND bmask
        in if soft \<noteq> 0 then int (first_set soft 0)
           else if hard \<noteq> 0 then int (last_set hard (nat (b_sector_offset buff - 1))) + 1
           else b_sector_offset buff - 1))"

section \<open>The position invariant of a transfer\<close>

lemma u32_wrap_id [simp]: "0 \<le> x \<Longrightarrow> x < 2 ^ 32 \<Longrightarrow> u32_wrap x = x"
  by (simp add: u32_wrap_def)

text \<open>The good sectors of a segment in front of a position.\<close>

definition good_before :: "u32 \<Rightarrow> int \<Rightarrow> int" where
  "good_before bad k = int (card {i. i < nat k \<and> \<not> bit bad i})"

text \<open>
  What holds of the buffer whenever a transfer of a segment with the bad sector map \<open>bad\<close> is under
  way: the sectors behind and ahead add up, the map is that of the sectors ahead, and the data of
  the good sectors behind fill the front of the buffer.
\<close>

definition transfer_inv :: "u32 \<Rightarrow> buffer_struct \<Rightarrow> bool" where
  "transfer_inv bad b \<longleftrightarrow> 0 \<le> b_sector_offset b \<and> 0 \<le> b_remaining b \<and> b_sector_offset b + b_remaining b = 32
    \<and> b_bad_sector_map b = drop_bit (nat (b_sector_offset b)) bad
    \<and> b_data_offset b = good_before bad (b_sector_offset b)
    \<and> b_ptr b = b_dma_address b + 1024 * b_data_offset b"

text \<open>A cluster has been chosen: its sectors are good and belong to the segment.\<close>

definition cluster_inv :: "u32 \<Rightarrow> buffer_struct \<Rightarrow> bool" where
  "cluster_inv bad b \<longleftrightarrow> transfer_inv bad b \<and> 0 < b_sector_count b \<and> b_sector_count b \<le> b_remaining b
    \<and> (\<forall>i < nat (b_sector_count b). \<not> bit bad (nat (b_sector_offset b) + i))"

lemma good_before_nonneg [simp]: "0 \<le> good_before bad k"
  by (simp add: good_before_def)

lemma good_before_le: "0 \<le> k \<Longrightarrow> good_before bad k \<le> k"
  using card_mono [of "{..< nat k}" "{i. i < nat k \<and> \<not> bit bad i}"] by (simp add: good_before_def subset_iff)

lemma good_before_add:
  assumes "0 \<le> k" "0 \<le> n" "\<forall>i < nat n. \<not> bit bad (nat k + i)"
  shows "good_before bad (k + n) = good_before bad k + n"
proof -
  have "{i. i < nat (k + n) \<and> \<not> bit bad i} = {i. i < nat k \<and> \<not> bit bad i} \<union> {nat k ..< nat k + nat n}"
  proof (intro set_eqI)
    fix i
    show "(i \<in> {i. i < nat (k + n) \<and> \<not> bit bad i}) = (i \<in> {i. i < nat k \<and> \<not> bit bad i} \<union> {nat k ..< nat k + nat n})"
    proof (cases "i < nat k")
      case False
      then obtain j where "i = nat k + j" by (metis add_diff_inverse_nat)
      then show ?thesis using assms by (auto simp: nat_add_distrib)
    qed (use assms in \<open>auto simp: nat_add_distrib\<close>)
  qed
  moreover have "card ({i. i < nat k \<and> \<not> bit bad i} \<union> {nat k ..< nat k + nat n})
      = card {i. i < nat k \<and> \<not> bit bad i} + nat n"
    by (subst card_Un_disjoint) auto
  ultimately show ?thesis using assms(2) by (simp add: good_before_def)
qed

lemma good_before_skip:
  assumes "0 \<le> k" "k \<le> k'" "\<forall>i. nat k \<le> i \<longrightarrow> i < nat k' \<longrightarrow> bit bad i"
  shows "good_before bad k' = good_before bad k"
proof -
  have "{i. i < nat k' \<and> \<not> bit bad i} = {i. i < nat k \<and> \<not> bit bad i}"
    using assms(3) nat_mono [OF assms(2)] by (auto intro: order_less_le_trans) (meson not_le)
  then show ?thesis by (simp add: good_before_def)
qed

lemma update_error_maps_position [simp]:
  "b_sector_offset (update_error_maps r b k) = b_sector_offset b"
  "b_data_offset (update_error_maps r b k) = b_data_offset b"
  "b_ptr (update_error_maps r b k) = b_ptr b"
  "b_remaining (update_error_maps r b k) = b_remaining b"
  "b_bad_sector_map (update_error_maps r b k) = b_bad_sector_map b"
  "b_dma_address (update_error_maps r b k) = b_dma_address b"
  "b_status (update_error_maps r b k) = b_status b"
  "b_segment_id (update_error_maps r b k) = b_segment_id b"
  "b_next_segment (update_error_maps r b k) = b_next_segment b"
  by (simp_all add: update_error_maps_def Let_def)

text \<open>The part of \<open>determine_progress\<close> that moves the position over sectors that came through.\<close>

definition advance :: "int \<Rightarrow> buffer_struct \<Rightarrow> buffer_struct" where
  "advance n b = b\<lparr>b_sector_offset := b_sector_offset b + n, b_data_offset := b_data_offset b + n,
     b_ptr := b_ptr b + n * 1024, b_remaining := b_remaining b - n,
     b_bad_sector_map := drop_bit (nat n) (b_bad_sector_map b)\<rparr>"

lemma note_error_position [simp]:
  "b_sector_offset (note_error cause b) = b_sector_offset b" "b_data_offset (note_error cause b) = b_data_offset b"
  "b_ptr (note_error cause b) = b_ptr b" "b_remaining (note_error cause b) = b_remaining b"
  "b_bad_sector_map (note_error cause b) = b_bad_sector_map b" "b_dma_address (note_error cause b) = b_dma_address b"
  "b_soft_error_map (note_error cause b) = b_soft_error_map b" "b_hard_error_map (note_error cause b) = b_hard_error_map b"
  "b_status (note_error cause b) = b_status b" "b_segment_id (note_error cause b) = b_segment_id b"
  "b_next_segment (note_error cause b) = b_next_segment b"
  by (simp_all add: note_error_def)

lemma cluster_inv_bounds:
  assumes "cluster_inv bad b"
  shows "0 \<le> b_sector_offset b" "0 < b_sector_count b" "b_sector_count b \<le> b_remaining b"
    "b_sector_offset b + b_remaining b = 32" "0 \<le> b_data_offset b" "b_data_offset b \<le> b_sector_offset b"
    "b_sector_count b \<le> 32"
  using assms good_before_le [of "b_sector_offset b" bad] by (auto simp: cluster_inv_def transfer_inv_def)

lemma move_position_advance:
  assumes "cluster_inv bad b" "0 \<le> n" "n \<le> b_sector_count b"
  shows "move_position n (b\<lparr>b_sector_count := k\<rparr>) = advance n (b\<lparr>b_sector_count := k\<rparr>)"
  using assms(2,3) cluster_inv_bounds [OF assms(1)]
  by (cases "n = 0") (simp_all add: move_position_def advance_def)

lemma determine_progress_no_error:
  assumes "cluster_inv bad b"
  shows "determine_progress r b no_error (b_sector_count b) = advance (b_sector_count b) b"
  using cluster_inv_bounds [OF assms] move_position_advance [OF assms, of "b_sector_count b" "b_sector_count b"]
  by (simp add: determine_progress_def)

lemma determine_progress_error:
  assumes inv: "cluster_inv bad b" and t: "0 \<le> t" "t \<le> b_sector_count b" and c: "cause \<noteq> no_error"
  defines "m \<equiv> (if t = b_sector_count b then t - 1 else t)"
  shows "determine_progress r b cause t = update_error_maps r
    (advance 1 (note_error cause (advance m (b\<lparr>b_sector_count := m\<rparr>)))) (b_sector_offset b + m)"
proof -
  note bounds = cluster_inv_bounds [OF inv]
  have m: "0 \<le> m" "m < b_sector_count b" using t bounds(2) by (auto simp: m_def)
  let ?b1 = "advance m (b\<lparr>b_sector_count := m\<rparr>)"
  have b1: "move_position m (b\<lparr>b_sector_count := m\<rparr>) = ?b1" using m by (intro move_position_advance [OF inv]) auto
  have w: "u32_wrap t = t" "u32_wrap m = m" "(if b_sector_count b = t then t - 1 else t) = m"
    using t m bounds by (auto simp: m_def)
  have sk: "skip_bad_sector (note_error cause ?b1) = advance 1 (note_error cause ?b1)"
    using m bounds by (simp add: skip_bad_sector_def advance_def)
  have off: "u32_wrap (b_sector_offset (advance 1 (note_error cause ?b1)) - 1) = b_sector_offset b + m"
    using m bounds by (simp add: advance_def)
  show ?thesis
    unfolding determine_progress_def Let_def using c by (simp add: w b1 sk off)
qed

lemma advance_inv:
  assumes "transfer_inv bad b" "0 \<le> n" "n \<le> b_remaining b" "\<forall>i < nat n. \<not> bit bad (nat (b_sector_offset b) + i)"
  shows "transfer_inv bad (advance n b)"
  using assms good_before_add [of "b_sector_offset b" n bad]
  by (simp add: transfer_inv_def advance_def drop_bit_drop_bit nat_add_distrib add.commute)

lemma transfer_inv_cong:
  assumes "transfer_inv bad b" "b_sector_offset b' = b_sector_offset b" "b_data_offset b' = b_data_offset b"
    "b_ptr b' = b_ptr b" "b_remaining b' = b_remaining b" "b_bad_sector_map b' = b_bad_sector_map b"
    "b_dma_address b' = b_dma_address b"
  shows "transfer_inv bad b'"
  using assms by (simp add: transfer_inv_def)

lemma advance_fields [simp]:
  "b_sector_offset (advance n b) = b_sector_offset b + n" "b_remaining (advance n b) = b_remaining b - n"
  "b_soft_error_map (advance n b) = b_soft_error_map b" "b_hard_error_map (advance n b) = b_hard_error_map b"
  "b_dma_address (advance n b) = b_dma_address b" "b_status (advance n b) = b_status b"
  "b_segment_id (advance n b) = b_segment_id b" "b_next_segment (advance n b) = b_next_segment b"
  "b_sector_count (advance n b) = b_sector_count b"
  by (simp_all add: advance_def)

lemma calc_next_cluster_inv:
  assumes "transfer_inv bad b" and c: "ftape_calc_next_cluster b = (b', n)"
  shows "transfer_inv bad b'" and "0 < n \<Longrightarrow> cluster_inv bad b'" and "b_sector_count b' = n"
    and "n = 0 \<Longrightarrow> \<forall>i < 32. nat (b_sector_offset b) \<le> i \<longrightarrow> bit bad i"
    and "b_sector_offset b \<le> b_sector_offset b'" "0 \<le> n"
proof -
  have pre: "b_bad_sector_map b = drop_bit (nat (b_sector_offset b)) bad" "0 \<le> b_sector_offset b" "0 \<le> b_remaining b"
    using assms(1) by (auto simp: transfer_inv_def)
  note s = calc_next_cluster_facts [OF pre c]
  have keep: "b_data_offset b' = b_data_offset b" "b_ptr b' = b_ptr b" "b_dma_address b' = b_dma_address b" "b_sector_count b' = n"
    using c by (auto simp: ftape_calc_next_cluster_def Let_def split: prod.splits)
  have "good_before bad (b_sector_offset b') = good_before bad (b_sector_offset b)"
    using s pre(2) by (intro good_before_skip) auto
  with s keep assms(1) show inv: "transfer_inv bad b'" by (auto simp: transfer_inv_def)
  show "b_sector_count b' = n" "b_sector_offset b \<le> b_sector_offset b'" "0 \<le> n" using keep s by auto
  show "cluster_inv bad b'" if "0 < n"
  proof -
    have "\<not> bit bad (nat (b_sector_offset b') + i)" if "i < nat n" for i
      using s that pre(2) by (auto simp: nat_add_distrib)
    with inv s keep that show ?thesis by (auto simp: cluster_inv_def)
  qed
  show "\<forall>i < 32. nat (b_sector_offset b) \<le> i \<longrightarrow> bit bad i" if "n = 0"
    using s that inv by (auto simp: transfer_inv_def)
qed

lemma update_error_maps_marks:
  assumes "0 \<le> k" "k < 32"
  shows "b_soft_error_map (update_error_maps r b k) OR b_hard_error_map (update_error_maps r b k)
    = (b_soft_error_map b OR b_hard_error_map b) OR push_bit (nat k) 1"
  using assms by (auto simp: update_error_maps_def Let_def intro!: bit_word_eqI simp: bit_simps)

text \<open>
  After an interrupt the invariant holds at the position behind the sectors that came through and,
  after an error, behind the sector that failed; that sector is marked.
\<close>

lemma determine_progress_inv:
  fixes r :: int
  assumes inv: "cluster_inv bad b" and t: "0 \<le> t" "t \<le> b_sector_count b" and c: "cause = no_error \<longrightarrow> t = b_sector_count b"
  defines "b' \<equiv> determine_progress r b cause t"
  shows "transfer_inv bad b'" "b_sector_offset b < b_sector_offset b'"
    "b_soft_error_map b' OR b_hard_error_map b' = (b_soft_error_map b OR b_hard_error_map b)
      OR (if cause = no_error then 0 else push_bit (nat (b_sector_offset b' - 1)) 1)"
proof -
  note bounds = cluster_inv_bounds [OF inv]
  have tr: "transfer_inv bad b" and good: "\<forall>i < nat (b_sector_count b). \<not> bit bad (nat (b_sector_offset b) + i)"
    using inv by (auto simp: cluster_inv_def)
  have *: "transfer_inv bad b' \<and> b_sector_offset b < b_sector_offset b'
    \<and> b_soft_error_map b' OR b_hard_error_map b' = (b_soft_error_map b OR b_hard_error_map b)
      OR (if cause = no_error then 0 else push_bit (nat (b_sector_offset b' - 1)) 1)"
  proof (cases "cause = no_error")
    case True
    then have "b' = advance (b_sector_count b) b" using c determine_progress_no_error [OF inv] by (simp add: b'_def)
    then show ?thesis using True bounds advance_inv [OF tr _ _ good] by simp
  next
    case False
    define m where "m = (if t = b_sector_count b then t - 1 else t)"
    have m: "0 \<le> m" "m < b_sector_count b" using t bounds(2) by (auto simp: m_def)
    let ?b1 = "advance m (b\<lparr>b_sector_count := m\<rparr>)" and ?b3 = "advance 1 (note_error cause (advance m (b\<lparr>b_sector_count := m\<rparr>)))"
    have b': "b' = update_error_maps r ?b3 (b_sector_offset b + m)"
      unfolding b'_def m_def by (rule determine_progress_error [OF inv t False])
    have "transfer_inv bad (b\<lparr>b_sector_count := m\<rparr>)" by (rule transfer_inv_cong [OF tr]) simp_all
    then have "transfer_inv bad ?b1" using m bounds good by (intro advance_inv) auto
    then have "transfer_inv bad (note_error cause ?b1)" by (rule transfer_inv_cong) simp_all
    moreover have "\<not> bit bad (nat (b_sector_offset b + m) + i)" if "i < nat 1" for i
      using that m bounds(1) good by (simp add: nat_add_distrib)
    ultimately have "transfer_inv bad ?b3" using m bounds by (intro advance_inv) auto
    then have "transfer_inv bad b'" unfolding b' by (rule transfer_inv_cong) simp_all
    moreover have "b_sector_offset b' = b_sector_offset b + m + 1" by (simp add: b')
    ultimately show ?thesis
      using False m bounds update_error_maps_marks [of "b_sector_offset b + m" r ?b3] by (simp add: b')
  qed
  then show "transfer_inv bad b'" "b_sector_offset b < b_sector_offset b'"
    "b_soft_error_map b' OR b_hard_error_map b' = (b_soft_error_map b OR b_hard_error_map b)
      OR (if cause = no_error then 0 else push_bit (nat (b_sector_offset b' - 1)) 1)" by auto
qed

section \<open>The resume point\<close>

lemma and_push_bit_1: "w AND push_bit i 1 = 0 \<longleftrightarrow> \<not> bit (w :: u32) i"
proof -
  have "bit (w AND push_bit i 1) j \<longleftrightarrow> j = i \<and> bit w i" for j
    by (auto simp: bit_simps dest: bit_imp_le_length)
  then show ?thesis by (metis bit_0_eq bot_apply bot_bool_def bit_word_eqI)
qed

lemma first_set_spec:
  assumes "bit (w :: u32) k" "i \<le> k"
  shows "bit w (first_set w i) \<and> i \<le> first_set w i \<and> (\<forall>j. i \<le> j \<longrightarrow> j < first_set w i \<longrightarrow> \<not> bit w j)"
  using assms
proof (induction w i rule: first_set.induct)
  case (1 w i)
  have k: "k < 32" using bit_imp_le_length [OF "1.prems"(1)] by simp
  have unfold: "first_set w i = (if i < 32 \<and> \<not> bit w i then first_set w (i + 1) else i)"
    by (subst first_set.simps) (simp only: and_push_bit_1)
  show ?case
  proof (cases "bit w i")
    case True
    then show ?thesis by (simp add: unfold)
  next
    case False
    then have ik: "i < 32" "i + 1 \<le> k" using "1.prems" k by (cases "i = k"; simp)+
    have eq: "first_set w i = first_set w (i + 1)" using False ik by (simp add: unfold)
    have "bit w (first_set w (i + 1))" "i + 1 \<le> first_set w (i + 1)"
        "\<forall>j. i + 1 \<le> j \<longrightarrow> j < first_set w (i + 1) \<longrightarrow> \<not> bit w j"
      using "1.IH" [unfolded and_push_bit_1] "1.prems"(1) False ik by blast+
    then show ?thesis using False unfolding eq by (metis Suc_eq_plus1 Suc_leD le_antisym not_less_eq_eq)
  qed
qed

lemma last_set_spec:
  assumes "bit (w :: u32) k" "k \<le> i"
  shows "bit w (last_set w i) \<and> last_set w i \<le> i \<and> (\<forall>j. last_set w i < j \<longrightarrow> j \<le> i \<longrightarrow> \<not> bit w j)"
  using assms(2)
proof (induction i)
  case 0
  then show ?case using assms(1) by simp
next
  case (Suc i)
  show ?case
  proof (cases "bit w (Suc i)")
    case True
    then have "last_set w (Suc i) = Suc i" by (simp only: last_set.simps and_push_bit_1) simp
    with True show ?thesis by simp
  next
    case False
    then have eq: "last_set w (Suc i) = last_set w i" by (simp only: last_set.simps and_push_bit_1) simp
    have "k \<le> i" using False Suc.prems assms(1) le_Suc_eq by auto
    then show ?thesis using Suc.IH False unfolding eq by (metis le_Suc_eq)
  qed
qed


text \<open>
  C28. Where a retry resumes: when a sector in front of the position had a soft error, at the first
  such sector; otherwise, when one had a hard error, right behind the last one. In both cases no
  sector between the start of the segment (or the last hard error) and the resume point needs to be
  read again, and the resume point lies within the part of the segment already passed.
\<close>

theorem find_resume_point_spec:
  assumes "1 \<le> b_sector_offset b" "b_sector_offset b \<le> 32"
    and "\<exists>i < nat (b_sector_offset b). bit (b_soft_error_map b OR b_hard_error_map b) i"
  shows "0 \<le> find_resume_point b \<and> find_resume_point b \<le> b_sector_offset b
    \<and> (\<forall>i < nat (find_resume_point b). \<not> bit (b_soft_error_map b) i)
    \<and> (if \<exists>i < nat (b_sector_offset b). bit (b_soft_error_map b) i
       then find_resume_point b < b_sector_offset b \<and> bit (b_soft_error_map b) (nat (find_resume_point b))
       else 0 < find_resume_point b \<and> bit (b_hard_error_map b) (nat (find_resume_point b) - 1)
         \<and> (\<forall>i. nat (find_resume_point b) \<le> i \<longrightarrow> i < nat (b_sector_offset b) \<longrightarrow> \<not> bit (b_hard_error_map b) i))"
proof -
  let ?o = "nat (b_sector_offset b)"
  define bm :: u32 where "bm = (if b_sector_offset b \<ge> 32 then 0xffffffff else push_bit ?o 1 - 1)"
  have "bm = mask ?o"
  proof (cases "b_sector_offset b = 32")
    case True then show ?thesis by (simp add: bm_def mask_eq_exp_minus_1)
  qed (use assms(2) in \<open>simp add: bm_def low_mask del: push_bit_of_1\<close>)
  then have bm: "bit (w AND bm) i \<longleftrightarrow> bit w i \<and> i < ?o" for w i
    using assms(2) by (auto simp: bit_simps dest: bit_imp_le_length)
  have ne: "w AND bm \<noteq> 0 \<longleftrightarrow> (\<exists>i < ?o. bit w i)" for w by (metis bm bit_0_eq bot_apply bot_bool_def bit_word_eqI)
  have o: "?o > 0" "int ?o = b_sector_offset b" using assms by auto
  have f: "find_resume_point b = (if \<exists>i < ?o. bit (b_soft_error_map b) i then int (first_set (b_soft_error_map b AND bm) 0)
      else int (last_set (b_hard_error_map b AND bm) (?o - 1)) + 1)"
    using assms ne [of "b_soft_error_map b"] ne [of "b_hard_error_map b"]
    unfolding find_resume_point_def Let_def bm_def [symmetric] by (auto simp: nat_diff_distrib bit_simps)
  show ?thesis
  proof (cases "\<exists>i < ?o. bit (b_soft_error_map b) i")
    case True
    then obtain k where "bit (b_soft_error_map b AND bm) k" by (auto simp: bm)
    note l = first_set_spec [OF this, of 0]
    define l where "l = first_set (b_soft_error_map b AND bm) 0"
    have lb: "bit (b_soft_error_map b) l" "l < ?o" using l by (auto simp: l_def bm)
    have "\<not> bit (b_soft_error_map b) i" if "i < l" for i using l that lb(2) by (auto simp: l_def bm)
    moreover have "nat (find_resume_point b) = l" "find_resume_point b = int l"
      using True by (simp_all add: f l_def)
    ultimately show ?thesis using True lb o by auto
  next
    case False
    with assms(3) obtain k where "bit (b_hard_error_map b) k" "k < ?o" by (auto simp: bit_or_iff)
    then have k: "bit (b_hard_error_map b AND bm) k" "k < ?o" by (simp_all only: bm)
    then have "k \<le> ?o - 1" by simp
    note l = last_set_spec [OF k(1) this]
    define l where "l = last_set (b_hard_error_map b AND bm) (?o - 1)"
    have lb: "bit (b_hard_error_map b) l" "l < ?o" using l by (auto simp: l_def bm)
    have after: "\<not> bit (b_hard_error_map b) i" if "Suc l \<le> i" "i < ?o" for i
    proof -
      have "i \<le> ?o - 1" "l < i" using that by simp_all
      then have "\<not> bit (b_hard_error_map b AND bm) i" using l by (simp add: l_def)
      with that(2) show ?thesis by (simp only: bm) simp
    qed
    have "find_resume_point b = int l + 1" unfolding f using False by (simp only: l_def if_False)
    moreover from this have "nat (find_resume_point b) = Suc l" by simp
    moreover have "\<not> bit (b_soft_error_map b) i" if "i < Suc l" for i using False that lb(2) by auto
    ultimately show ?thesis using False lb after o by auto
  qed
qed

theorem find_resume_point_spec_witness:
  "find_resume_point (blank_buffer\<lparr>b_sector_offset := 9, b_hard_error_map := 0x14\<rparr>) \<le> 9
    \<and> 0 < find_resume_point (blank_buffer\<lparr>b_sector_offset := 9, b_hard_error_map := 0x14\<rparr>)"
proof -
  let ?b = "blank_buffer\<lparr>b_sector_offset := 9, b_hard_error_map := 0x14\<rparr>"
  have "\<exists>i < nat (b_sector_offset ?b). bit (b_soft_error_map ?b OR b_hard_error_map ?b) i"
    by (intro exI [of _ 2]) (simp add: blank_buffer_def bit_numeral_rec)
  from find_resume_point_spec [OF _ _ this] show ?thesis by (simp add: blank_buffer_def split: if_splits)
qed

text \<open>
  C16. One interrupt of a transfer keeps the position and the error maps right. When at most the
  sectors of the current cluster came through, the sectors behind and ahead of the new position add
  up to the segment, the data of all good sectors behind it fill the front of the buffer, in order
  and without a gap; the position has moved; the next cluster consists of good sectors, and there is
  none only if no good sector is left. The failing sector is marked as a soft or hard error, and no
  earlier mark is lost.
\<close>

theorem transfer_progress:
  assumes "cluster_inv bad b" and "0 \<le> t" "t \<le> b_sector_count b" and "cause = no_error \<longrightarrow> t = b_sector_count b"
    and "determine_progress r b cause t = b'" and "ftape_calc_next_cluster b' = (b'', n)"
  shows "transfer_inv bad b' \<and> transfer_inv bad b'' \<and> b_sector_offset b < b_sector_offset b''
    \<and> (if n = 0 then \<forall>i < 32. nat (b_sector_offset b') \<le> i \<longrightarrow> bit bad i else cluster_inv bad b'')
    \<and> b_soft_error_map b' OR b_hard_error_map b' = (b_soft_error_map b OR b_hard_error_map b)
      OR (if cause = no_error then 0 else push_bit (nat (b_sector_offset b' - 1)) 1)"
  using determine_progress_inv [OF assms(1-4), of r] calc_next_cluster_inv [of bad b' b'' n] assms(5,6)
  by (auto simp: less_le)

theorem transfer_progress_witness:
  "\<exists>b'. determine_progress 6 (blank_buffer\<lparr>b_bad_sector_map := 0x10, b_remaining := 32, b_sector_count := 4\<rparr>) data_crc_error 1 = b'
    \<and> transfer_inv 0x10 b' \<and> b_soft_error_map b' OR b_hard_error_map b' = 2"
proof -
  let ?b = "blank_buffer\<lparr>b_bad_sector_map := 0x10, b_remaining := 32, b_sector_count := 4\<rparr>"
  let ?b' = "determine_progress 6 ?b data_crc_error 1"
  have "cluster_inv 0x10 ?b"
    by (auto simp: cluster_inv_def transfer_inv_def good_before_def blank_buffer_def bit_numeral_rec less_Suc_eq numeral_eq_Suc)
  moreover obtain b'' n where "ftape_calc_next_cluster ?b' = (b'', n)" by fastforce
  moreover have "b_sector_offset ?b' = 2"
    by (simp add: determine_progress_def Let_def blank_buffer_def move_position_def note_error_def skip_bad_sector_def)
  ultimately show ?thesis
    using transfer_progress [of "0x10" ?b 1 data_crc_error 6 ?b' b'' n] by (simp add: blank_buffer_def)
qed

text \<open>
  A verify that ends without an error but with a DMA residue that contradicts the controller's
  result is not repeated, as \<open>get_transfer_size\<close> wants it (\<open>force retry\<close>): the sector count it has
  set to zero equals the count of zero that \<open>determine_verify_progress\<close> makes of its result, and the
  whole segment counts as verified, without a mark in the error maps.
\<close>

theorem verify_mismatch_accepted:
  assumes "residue \<noteq> -1"
    and "u32_wrap (u32_wrap (get_fdc_transfer_size b r) + uint ((residue + 1023) div 1024)) > b_sector_count b"
  shows "determine_verify_progress soft_retries False b no_error r residue
    = b\<lparr>b_sector_count := 0, b_sector_offset := 32, b_remaining := 0\<rparr>"
  using assms by (simp add: determine_verify_progress_def get_transfer_size_def Let_def)

theorem verify_mismatch_accepted_witness:
  "determine_verify_progress 6 False (blank_buffer\<lparr>b_remaining := 32, b_sector_count := 32\<rparr>) no_error [0, 0, 0, 1, 0, 1, 3] 1024
    = blank_buffer\<lparr>b_remaining := 0, b_sector_count := 0, b_sector_offset := 32\<rparr>"
  using verify_mismatch_accepted [of 1024 "blank_buffer\<lparr>b_remaining := 32, b_sector_count := 32\<rparr>" "[0, 0, 0, 1, 0, 1, 3]" 6]
  by (simp add: get_fdc_transfer_size_def blank_buffer_def u32_wrap_def)

end
