(* ===== verification/Fdc_Isr.thy ===== *)
theory Fdc_Isr
  imports Fdc_Progress
begin

text \<open>
  The floppy controller's interrupt handler, \<open>handle_fdc_busy\<close> and the routines it calls in
  \<open>src/ftape/lowlevel/fdc-isr.c\<close>, as a step function on the driver's state: the drive record, the
  controller record of \<open>src/ftape/lowlevel/fdc-io.h\<close> and the ring of segment buffers in it.

  What the handler learns from the hardware is the argument \<open>irq_input\<close>: the seven result bytes
  (\<open>None\<close> when the result phase fails), the DMA residue, whether the controller accepts the next
  transfer command, what becomes of the seek command that pauses the tape, and the values
  \<open>fdc_sense_interrupt_status\<close> delivers. The commands the handler issues are kept in \<open>fdc_cmd\<close>.
  \<open>drive_sel\<close> is a field of the drive's record in the source.
\<close>

unbundle bit_operations_syntax

section \<open>State\<close>

datatype fdc_mode_enum = fdc_idle | fdc_reading_data | fdc_seeking | fdc_writing_data | fdc_deleting
  | fdc_reading_id | fdc_recalibrating | fdc_formatting | fdc_verifying

datatype fdc_type = no_fdc | i8272 | i82077 | i82077AA | fc10 | i82078 | i82078_1 | DITTOEZ

text \<open>
  What the handler asks of the hardware: DMA transfers of a number of bytes from or to an address, a
  read or write command (operation, unit, cylinder, head, first and last sector), the formatting of
  a segment, a seek.
\<close>

datatype fdc_command = Setup_Dma int int | Terminate_Dma | Read_Write fdc_mode_enum u8 u8 u8 u8 u8
  | Format_Segment u8 | Seek_Track int

record fdc_info =
  fdc_mode :: fdc_mode_enum
  fdc_kind :: fdc_type
  fdc_unit :: u8
  drive_sel :: nat
  buffers :: "buffer_struct list"
  buffer_head :: nat
  buffer_tail :: nat
  fdc_head :: u8
  fdc_cyl :: u8
  fdc_sect :: u8
  current_cylinder :: int
  resetting :: bool
  expected_stray_interrupts :: int
  seek_result :: int
  seek_track :: int
  interrupt_seen :: int
  isr_active :: int
  stop_read_ahead :: bool
  no_data_error_count :: int
  hide_interrupt :: bool
  fdc_cmd :: "fdc_command list"
  gap3 :: u8
  ffb :: u8

record isr_state =
  ft :: ftape_info
  fdc :: fdc_info

text \<open>
  \<open>__fdc_command\<close>: a controller that is not ready refuses a command before \<open>fdc->mode\<close> is changed; one
  that stops taking bytes leaves the mode of the command behind.
\<close>

datatype cmd_outcome = Cmd_taken | Cmd_busy | Cmd_timeout

record irq_input =
  irq_busy :: bool
  irq_result :: "u8 list option"
  irq_residue :: u32
  irq_setup_ok :: bool
  irq_pause :: cmd_outcome
  irq_sense :: "(int \<times> int) list"
  irq_waiting :: bool

text \<open>
  \<open>HEAD\<close> is the buffer at \<open>buffer_head\<close>; the \<open>next\<close> pointers link the buffers to a ring.
\<close>

definition HEAD :: "isr_state \<Rightarrow> buffer_struct" where
  "HEAD s = buffers (fdc s) ! buffer_head (fdc s)"

definition set_HEAD :: "(buffer_struct \<Rightarrow> buffer_struct) \<Rightarrow> isr_state \<Rightarrow> isr_state" where
  "set_HEAD f s = s\<lparr>fdc := (fdc s)\<lparr>buffers := (buffers (fdc s))[buffer_head (fdc s) := f (HEAD s)]\<rparr>\<rparr>"

definition next_HEAD :: "isr_state \<Rightarrow> isr_state" where
  "next_HEAD s = s\<lparr>fdc := (fdc s)\<lparr>buffer_head := (buffer_head (fdc s) + 1) mod length (buffers (fdc s))\<rparr>\<rparr>"

definition set_runner :: "runner_status_enum \<Rightarrow> isr_state \<Rightarrow> isr_state" where
  "set_runner r s = s\<lparr>ft := (ft s)\<lparr>runner_status := r\<rparr>\<rparr>"

definition set_mode :: "fdc_mode_enum \<Rightarrow> isr_state \<Rightarrow> isr_state" where
  "set_mode m s = s\<lparr>fdc := (fdc s)\<lparr>fdc_mode := m\<rparr>\<rparr>"

definition issue :: "fdc_command \<Rightarrow> isr_state \<Rightarrow> isr_state" where
  "issue c s = s\<lparr>fdc := (fdc s)\<lparr>fdc_cmd := fdc_cmd (fdc s) @ [c]\<rparr>\<rparr>"

definition set_status :: "buffer_state_enum \<Rightarrow> buffer_struct \<Rightarrow> buffer_struct" where
  "set_status st b = b\<lparr>b_status := st\<rparr>"

section \<open>Issuing commands\<close>

text \<open>
  \<open>fdc_setup_read_write\<close> of \<open>src/ftape/lowlevel/fdc-io.c\<close>: \<open>ok\<close> says that the controller took the
  command (and the perpendicular mode could be set). The second component is the success.
\<close>

definition fdc_setup_read_write :: "isr_state \<Rightarrow> buffer_struct \<Rightarrow> fdc_mode_enum \<Rightarrow> bool \<Rightarrow> isr_state \<times> bool" where
  "fdc_setup_read_write s buff operation ok =
    (let op = (if operation = fdc_verifying \<and> (fdc_kind (fdc s) \<in> {no_fdc, i8272, DITTOEZ})
               then fdc_reading_data else operation)
     in if op \<notin> {fdc_verifying, fdc_reading_data, fdc_deleting, fdc_writing_data} then
          (s\<lparr>ft := (ft s)\<lparr>setup_error := True\<rparr>\<rparr>, False)
        else
          (let s1 = (if op = fdc_verifying then s
                     else issue (Setup_Dma (b_ptr buff) (1024 * b_sector_count buff)) s);
               first = word_of_int (uint (b_sect buff) + b_sector_offset buff);
               last = first + word_of_int (b_sector_count buff) - 1
           in if ok then
                (set_mode op (issue (Read_Write op (fdc_unit (fdc s)) (b_cyl buff) (b_head buff) first last)
                   (s1\<lparr>ft := (ft s1)\<lparr>setup_error := False\<rparr>\<rparr>)), True)
              else (set_mode fdc_idle (issue Terminate_Dma (s1\<lparr>ft := (ft s1)\<lparr>setup_error := True\<rparr>\<rparr>)), False)))"

definition fdc_setup_formatting :: "isr_state \<Rightarrow> buffer_struct \<Rightarrow> bool \<Rightarrow> isr_state \<times> bool" where
  "fdc_setup_formatting s buff ok =
    (let s1 = issue (Setup_Dma (b_ptr buff) (32 * 4)) s
     in if ok then
          (set_mode fdc_formatting (issue (Format_Segment (fdc_unit (fdc s))) (s1\<lparr>ft := (ft s1)\<lparr>setup_error := False\<rparr>\<rparr>)), True)
        else (set_mode fdc_idle (issue Terminate_Dma (s1\<lparr>ft := (ft s1)\<lparr>setup_error := True\<rparr>\<rparr>)), False))"

text \<open>The numbers of \<open>QIC_PAUSE\<close> and \<open>QIC_MICRO_STEP_PAUSE\<close> are those of \<open>src/include/linux/qic117.h\<close>.\<close>

definition schedule_pause_tape :: "isr_state \<Rightarrow> bool \<Rightarrow> fdc_mode_enum \<Rightarrow> isr_state" where
  "schedule_pause_tape s retry mode =
    (let s' = s\<lparr>fdc := (fdc s)\<lparr>hide_interrupt := True\<rparr>\<rparr>
     in if retry \<and> mode \<in> {fdc_reading_data, fdc_reading_id, fdc_verifying}
        then s'\<lparr>ft := (ft s')\<lparr>current_command := 4, might_be_off_track := True\<rparr>\<rparr>
        else s'\<lparr>ft := (ft s')\<lparr>current_command := 3\<rparr>\<rparr>)"

definition calc_steps :: "fdc_info \<Rightarrow> int \<Rightarrow> int" where
  "calc_steps fd cmd = (if current_cylinder fd > cmd then current_cylinder fd - cmd else current_cylinder fd + cmd)"

definition pause_tape :: "isr_state \<Rightarrow> cmd_outcome \<Rightarrow> isr_state" where
  "pause_tape s outcome =
    (let steps = calc_steps (fdc s) (current_command (ft s));
         s1 = s\<lparr>ft := (ft s)\<lparr>history := (history (ft s))\<lparr>rewinds := rewinds (history (ft s)) + 1\<rparr>\<rparr>,
                fdc := (fdc s)\<lparr>seek_track := uint (word_of_int steps :: u8)\<rparr>\<rparr>
     in case outcome of
          Cmd_busy \<Rightarrow> s1
        | Cmd_timeout \<Rightarrow> set_mode fdc_seeking s1
        | Cmd_taken \<Rightarrow>
            set_mode fdc_seeking (issue (Seek_Track (seek_track (fdc s1)))
              (s1\<lparr>ft := (ft s1)\<lparr>location := (location (ft s1))\<lparr>loc_known := False\<rparr>, tape_running := False\<rparr>,
                  fdc := (fdc s1)\<lparr>seek_result := 0\<rparr>\<rparr>)))"

section \<open>Continuing a transfer\<close>

definition retry_sector :: "isr_state \<Rightarrow> fdc_mode_enum \<Rightarrow> int \<Rightarrow> isr_state" where
  "retry_sector s mode skip =
    set_HEAD (\<lambda>b. b\<lparr>b_status := buf_error, b_skip := skip\<rparr>) (set_runner aborting (schedule_pause_tape s True mode))"

text \<open>The buffer is finished and the runner stops with an error.\<close>

definition abort_buffer :: "isr_state \<Rightarrow> isr_state" where
  "abort_buffer s = set_mode fdc_idle (set_runner aborting (next_HEAD (set_HEAD (set_status buf_error) s)))"

definition runner_mismatch :: "isr_state \<Rightarrow> bool \<Rightarrow> bool" where
  "runner_mismatch s wr \<longleftrightarrow> runner_status (ft s) \<noteq> running \<or> (wr \<and> b_status (HEAD s) \<noteq> writing)
     \<or> (\<not> wr \<and> b_status (HEAD s) \<noteq> reading \<and> b_status (HEAD s) \<noteq> verifying)"

definition resume_status :: "buffer_state_enum \<Rightarrow> bool \<Rightarrow> buffer_state_enum" where
  "resume_status st wr = (if st \<in> {reading, verifying, writing, deleting} then st else if wr then writing else reading)"

text \<open>The next segment goes into the buffer that is now at the head.\<close>

definition start_next_segment :: "isr_state \<Rightarrow> fdc_mode_enum \<Rightarrow> bool \<Rightarrow> bool \<Rightarrow> int \<Rightarrow> isr_state option" where
  "start_next_segment s1 mode wr ok nxt = do {
     (ft2, b2) \<leftarrow> ftape_setup_new_segment (ft s1) (HEAD s1) nxt False;
     let s2 = set_HEAD (\<lambda>_. b2) (s1\<lparr>ft := ft2\<rparr>);
     let s3 = (if stop_read_ahead (fdc s2)
               then set_HEAD (\<lambda>b. b\<lparr>b_next_segment := 0\<rparr>) (s2\<lparr>fdc := (fdc s2)\<lparr>stop_read_ahead := False\<rparr>\<rparr>) else s2);
     let (b4, n) = ftape_calc_next_cluster (HEAD s3);
     let s4 = set_HEAD (\<lambda>_. b4) s3;
     if n = 0 then Some (set_mode fdc_idle (set_runner do_abort s4))
     else
       (case fdc_setup_read_write s4 b4 mode ok of (s5, okay) \<Rightarrow>
          if \<not> okay then Some (set_mode fdc_idle (set_runner do_abort s5))
          else Some (set_HEAD (set_status (resume_status (driver_state (ft s5)) wr)) s5))
   }"

text \<open>The current segment is complete: stop, or go on with the next one.\<close>

definition finish_segment :: "isr_state \<Rightarrow> fdc_mode_enum \<Rightarrow> bool \<Rightarrow> bool \<Rightarrow> isr_state option" where
  "finish_segment s mode wr ok =
    (let h = HEAD s;
         eot = ((b_segment_id h + 1) mod uint (segments_per_track (ft s)) = 0);
         nxt = b_next_segment h;
         s1 = next_HEAD (set_HEAD (\<lambda>b. b\<lparr>b_bytes := b_ptr b - b_dma_address b, b_status := buf_done\<rparr>) s)
     in if eot then Some (set_mode fdc_idle (set_runner logical_eot s1))
        else if nxt \<le> 0 then Some (set_runner idle (schedule_pause_tape s1 False mode))
        else if b_status (HEAD s1) \<noteq> waiting then Some (set_runner idle (schedule_pause_tape s1 False mode))
        else if wr \<and> nxt \<noteq> b_segment_id (HEAD s1) then Some (set_mode fdc_idle (set_runner do_abort s1))
        else start_next_segment s1 mode wr ok nxt)"

definition continue_xfer :: "isr_state \<Rightarrow> fdc_mode_enum \<Rightarrow> int \<Rightarrow> bool \<Rightarrow> isr_state option" where
  "continue_xfer s mode skip ok =
    (let wr = (mode = fdc_writing_data \<or> mode = fdc_deleting)
     in if u32_wrap skip > 0 \<and> runner_mismatch s wr then Some (abort_buffer s)
        else if b_remaining (HEAD s) > 0 then
          (case ftape_calc_next_cluster (HEAD s) of (b1, n) \<Rightarrow>
             let s1 = set_HEAD (\<lambda>_. b1) s
             in if n > 0 then
                  (case fdc_setup_read_write s1 b1 mode ok of (s2, okay) \<Rightarrow>
                     if okay then Some s2
                     else Some (abort_buffer (set_HEAD (\<lambda>b. b\<lparr>b_bytes := b_ptr b - b_dma_address b\<rparr>) s2)))
                else finish_segment s1 mode wr ok)
        else finish_segment s mode wr ok)"

section \<open>Formatting\<close>

text \<open>\<open>determine_fmt_progress\<close>; the flag is the result \<open>>= 0\<close>.\<close>

definition determine_fmt_progress :: "isr_state \<Rightarrow> ft_error_cause_t \<Rightarrow> u32 \<Rightarrow> isr_state \<times> bool" where
  "determine_fmt_progress s cause residue =
    (if residue \<noteq> -1 \<and> residue \<noteq> 0 then (set_HEAD (set_status buf_error) (set_runner do_abort s), False)
     else if cause \<noteq> no_error then
       (set_HEAD (set_status buf_error) (set_runner do_abort (set_mode fdc_idle s)), False)
     else
       (set_HEAD (\<lambda>b. b\<lparr>b_ptr := b_ptr b + 32 * 4, b_bytes := u32_wrap (b_bytes b - 32 * 4),
          b_remaining := u32_wrap (b_remaining b - 32), b_segment_id := b_segment_id b + 1\<rparr>) s, True))"

definition format_setup_error :: "isr_state \<Rightarrow> isr_state" where
  "format_setup_error s = set_HEAD (set_status buf_error) (set_mode fdc_idle (set_runner do_abort s))"

definition continue_formatting :: "isr_state \<Rightarrow> bool \<Rightarrow> isr_state" where
  "continue_formatting s ok =
    (let start = (\<lambda>s. case fdc_setup_formatting s (HEAD s) ok of (s', okay) \<Rightarrow>
           if okay then set_HEAD (set_status formatting) s' else format_setup_error s')
     in if b_remaining (HEAD s) = 0 then
          (let nxt = b_next_segment (HEAD s)
           in if nxt = 0 then set_mode fdc_idle (set_runner logical_eot (set_HEAD (set_status buf_done) s))
              else
                (let s1 = next_HEAD (set_HEAD (set_status buf_done) s)
                 in if b_status (HEAD s1) \<noteq> waiting \<or> nxt \<noteq> b_segment_id (HEAD s1) then format_setup_error s1
                    else start s1))
        else start s)"

section \<open>The handler\<close>

definition count_error :: "ft_error_cause_t \<Rightarrow> isr_state \<Rightarrow> isr_state" where
  "count_error cause s = s\<lparr>ft := (ft s)\<lparr>history := update_history (history (ft s)) cause\<rparr>\<rparr>"

definition stopping :: "isr_state \<Rightarrow> bool" where
  "stopping s \<longleftrightarrow> runner_status (ft s) = aborting \<or> runner_status (ft s) = do_abort"

definition set_no_data :: "int \<Rightarrow> isr_state \<Rightarrow> isr_state" where
  "set_no_data n s = s\<lparr>fdc := (fdc s)\<lparr>no_data_error_count := n\<rparr>\<rparr>"

definition verify_step :: "isr_state \<Rightarrow> u8 list \<Rightarrow> ft_error_cause_t \<Rightarrow> irq_input \<Rightarrow> isr_state option" where
  "verify_step s r cause inp =
    (let progress = set_HEAD (\<lambda>b. determine_verify_progress (ft_soft_retries (ft s)) (fdc_kind (fdc s) = DITTOEZ) b cause r
           (irq_residue inp));
         mode = fdc_mode (fdc s)
     in if stopping s then Some s
        else if cause = no_error then
          (let s1 = progress (set_no_data 0 s)
           in if r ! 2 AND 0x40 \<noteq> 0
              then continue_xfer (set_HEAD (\<lambda>b. b\<lparr>b_remaining := 0, b_hard_error_map := EMPTY_SEGMENT\<rparr>) s1) mode 1 (irq_setup_ok inp)
              else continue_xfer s1 mode 0 (irq_setup_ok inp))
        else
          (let n0 = no_data_error_count (fdc s);
               again = (cause = no_data_error \<and> n0 + 1 \<ge> 2);
               retry = (cause = overrun_error \<or> again);
               s1 = progress (if cause = no_data_error then set_no_data (n0 + 1) s else s);
               s2 = (if cause = no_data_error \<and> \<not> again then s1 else set_no_data 0 s1);
               skip = (if retry then find_resume_point (HEAD s2) else b_sector_offset (HEAD s2))
           in do { s3 \<leftarrow> (if retry \<and> skip < 32 then Some (retry_sector s2 mode skip)
                          else continue_xfer s2 mode skip (irq_setup_ok inp));
                   Some (count_error cause s3) }))"

text \<open>A fake segment (all sectors bad) counts as done whatever happened to its first sector.\<close>

definition read_step :: "isr_state \<Rightarrow> u8 list \<Rightarrow> ft_error_cause_t \<Rightarrow> irq_input \<Rightarrow> isr_state option" where
  "read_step s r cause inp =
    (let mode = fdc_mode (fdc s); ok = irq_setup_ok inp
     in if stopping s then Some s
        else
          (case get_transfer_size (fdc_kind (fdc s) = DITTOEZ) (HEAD s) r cause (irq_residue inp) of (b1, transferred) \<Rightarrow>
             let s1 = set_HEAD (\<lambda>_. b1) s
             in if b_bad_sector_map (HEAD s1) = FAKE_SEGMENT
                then continue_xfer (set_HEAD (\<lambda>b. b\<lparr>b_remaining := 0\<rparr>) s1) mode 1 ok
                else if transferred = EAGAIN_result then Some (retry_sector s1 mode 0)
                else
                      (let progress = set_HEAD (\<lambda>b. determine_progress (ft_soft_retries (ft s)) b cause transferred)
                       in if cause = no_error then
                            (if r ! 2 AND 0x40 \<noteq> 0 then
                               (let off = b_sector_offset (HEAD s1);
                                    s2 = set_HEAD (\<lambda>b. b\<lparr>b_deleted := True, b_remaining := 0,
                                       b_soft_error_map := b_soft_error_map b OR ucast (push_bit (nat off) (- 1 :: u64)),
                                       b_next_segment := b_segment_id b + 1\<rparr>) s1;
                                    s3 = (if b_segment_id (HEAD s2) = 0
                                          then s2\<lparr>fdc := (fdc s2)\<lparr>stop_read_ahead := True\<rparr>\<rparr> else s2)
                                in continue_xfer s3 mode (32 - off) ok)
                             else continue_xfer (progress s1) mode 0 ok)
                          else
                            (let retry = (b_soft_error_map (HEAD s1) \<noteq> 0 \<or> b_hard_error_map (HEAD s1) \<noteq> 0);
                                 s2 = progress s1;
                                 skip = (if retry then find_resume_point (HEAD s2) else b_sector_offset (HEAD s2))
                             in do { s3 \<leftarrow> (if retry \<and> skip < 32 then Some (retry_sector s2 mode skip)
                                            else continue_xfer s2 mode skip ok);
                                     Some (count_error cause s3) }))))"

definition write_step :: "isr_state \<Rightarrow> u8 list \<Rightarrow> ft_error_cause_t \<Rightarrow> irq_input \<Rightarrow> isr_state option" where
  "write_step s r cause inp =
    (let mode = fdc_mode (fdc s); ok = irq_setup_ok inp
     in if stopping s then Some s
        else
          (case get_transfer_size (fdc_kind (fdc s) = DITTOEZ) (HEAD s) r cause (irq_residue inp) of (b1, transferred) \<Rightarrow>
             let s1 = set_HEAD (\<lambda>_. b1) s
             in if b_bad_sector_map (HEAD s1) = FAKE_SEGMENT
                then continue_xfer (set_HEAD (\<lambda>b. b\<lparr>b_remaining := 0\<rparr>) s1) mode 1 ok
                else if transferred = EAGAIN_result then Some (retry_sector s1 mode 0)
                else
                      (let s2 = set_HEAD (\<lambda>b. determine_progress (ft_soft_retries (ft s)) b cause transferred) s1
                       in if cause = no_error then continue_xfer s2 mode 0 ok
                          else if cause = data_crc_error then Some (set_mode fdc_idle s2)
                          else Some (count_error cause (retry_sector s2 mode (find_resume_point (HEAD s2)))))))"

text \<open>The switch over the controller's mode, and the end of \<open>handle_fdc_busy\<close>.\<close>

definition mode_step :: "isr_state \<Rightarrow> u8 list \<Rightarrow> irq_input \<Rightarrow> isr_state option" where
  "mode_step s r inp =
    (let cause = decode_irq_cause r;
         fmode = (if fdc_mode (fdc s) = fdc_reading_data \<and> driver_state (ft s) = verifying
                  then fdc_verifying else fdc_mode (fdc s))
     in case fmode of
          fdc_verifying \<Rightarrow> verify_step s r cause inp
        | fdc_reading_data \<Rightarrow> read_step s r cause inp
        | fdc_reading_id \<Rightarrow>
            Some (set_mode fdc_idle
              (if cause = no_error then s\<lparr>fdc := (fdc s)\<lparr>fdc_cyl := r ! 3, fdc_head := r ! 4, fdc_sect := r ! 5\<rparr>\<rparr>
               else s\<lparr>fdc := (fdc s)\<lparr>fdc_cyl := 0, fdc_head := 0, fdc_sect := 0\<rparr>\<rparr>))
        | fdc_deleting \<Rightarrow> write_step s r cause inp
        | fdc_writing_data \<Rightarrow> write_step s r cause inp
        | fdc_formatting \<Rightarrow>
            (case determine_fmt_progress s cause (irq_residue inp) of (s', good) \<Rightarrow>
               Some (if cause = no_error then (if good then continue_formatting s' (irq_setup_ok inp) else s')
                     else count_error cause s'))
        | fdc_idle \<Rightarrow> Some (set_mode fdc_idle s)
        | fdc_seeking \<Rightarrow> Some (set_mode fdc_idle s)
        | fdc_recalibrating \<Rightarrow> Some (set_mode fdc_idle s))"

definition cease_operation :: "isr_state \<Rightarrow> isr_state" where
  "cease_operation s =
    (if runner_status (ft s) = do_abort
     then set_runner aborting (s\<lparr>fdc := (fdc s)\<lparr>expected_stray_interrupts := expected_stray_interrupts (fdc s) + 1\<rparr>\<rparr>)
     else s)"

definition handle_fdc_busy :: "isr_state \<Rightarrow> irq_input \<Rightarrow> isr_state option" where
  "handle_fdc_busy s inp =
    (case irq_result inp of
       None \<Rightarrow> Some s
     | Some r \<Rightarrow> map_option cease_operation (mode_step s r inp))"

text \<open>
  The other branch of \<open>fdc_isr\<close>: sense interrupt status until nothing is pending. Each pair is an
  \<open>st0\<close>/\<open>pcn\<close> value; the end of the list is a failing command, \<open>st0 = 0x80\<close> says that no interrupt
  is pending, and after ten rounds the handler gives up. While the controller is being reset, up to
  four results (one per drive) are consumed at once.
\<close>

fun fdc_reset_senses :: "fdc_info \<Rightarrow> nat \<Rightarrow> int \<Rightarrow> int \<Rightarrow> (int \<times> int) list \<Rightarrow> fdc_info \<times> (int \<times> int) list" where
  "fdc_reset_senses fd i st0 pcn senses =
    (if st0 = 0x80 then (fd, senses)
     else
       (let fd' = (if i = drive_sel fd then fd\<lparr>current_cylinder := pcn\<rparr> else fd)
        in case senses of
             [] \<Rightarrow> (fd', [])
           | (st0', pcn') # rest \<Rightarrow> if i + 1 < 4 then fdc_reset_senses fd' (i + 1) st0' pcn' rest else (fd', rest)))"

definition handle_fdc_seek :: "fdc_info \<Rightarrow> int \<Rightarrow> int \<Rightarrow> fdc_info" where
  "handle_fdc_seek fd st0 pcn =
    (let fd' = fd\<lparr>current_cylinder := pcn\<rparr> in if hide_interrupt fd then fd' else fd'\<lparr>seek_result := st0\<rparr>)"

definition handle_stray_interrupt :: "fdc_info \<Rightarrow> int \<Rightarrow> bool \<Rightarrow> fdc_info" where
  "handle_stray_interrupt fd pcn waiting_task =
    (let fd' = fd\<lparr>current_cylinder := pcn\<rparr>
     in if waiting_task then fd'
        else if expected_stray_interrupts fd' = 0 then fd'
        else fd'\<lparr>expected_stray_interrupts := expected_stray_interrupts fd' - 1\<rparr>)"

function sense_loop :: "fdc_info \<Rightarrow> nat \<Rightarrow> (int \<times> int) list \<Rightarrow> bool \<Rightarrow> fdc_info" where
  "sense_loop fd count senses waiting_task =
    (case senses of
       [] \<Rightarrow> fd\<lparr>fdc_mode := fdc_idle\<rparr>
     | (st0, pcn) # rest \<Rightarrow>
         if st0 = 0x80 then fd\<lparr>fdc_mode := fdc_idle\<rparr>
         else if count + 1 > 10 then fd\<lparr>fdc_mode := fdc_idle\<rparr>
         else if resetting fd then
           (case fdc_reset_senses fd 0 st0 pcn rest of (fd', rest') \<Rightarrow>
              sense_loop (fd'\<lparr>resetting := False, fdc_mode := fdc_idle\<rparr>) (count + 1) rest' waiting_task)
         else if fdc_mode fd = fdc_seeking \<or> fdc_mode fd = fdc_recalibrating then
           sense_loop ((handle_fdc_seek fd st0 pcn)\<lparr>fdc_mode := fdc_idle\<rparr>) (count + 1) rest waiting_task
         else sense_loop ((handle_stray_interrupt fd pcn waiting_task)\<lparr>fdc_mode := fdc_idle\<rparr>) (count + 1) rest waiting_task)"
  by pat_completeness auto
termination by (relation "measure (\<lambda>(fd, count, s, w). 11 - count)") auto

declare sense_loop.simps [simp del] fdc_reset_senses.simps [simp del]

definition fdc_isr :: "isr_state \<Rightarrow> irq_input \<Rightarrow> isr_state option" where
  "fdc_isr s inp =
    (if isr_active (fdc s) \<noteq> 0 then Some s
     else do {
       let s1 = s\<lparr>fdc := (fdc s)\<lparr>hide_interrupt := False\<rparr>\<rparr>;
       s2 \<leftarrow> (if irq_busy inp then handle_fdc_busy s1 inp
              else Some (s1\<lparr>fdc := sense_loop (fdc s1) 0 (irq_sense inp) (irq_waiting inp)\<rparr>));
       Some (if hide_interrupt (fdc s2) then pause_tape s2 (irq_pause inp)
             else s2\<lparr>fdc := (fdc s2)\<lparr>interrupt_seen := interrupt_seen (fdc s2) + 1\<rparr>\<rparr>)
     })"

section \<open>Which buffers the handler touches\<close>

definition same_head :: "isr_state \<Rightarrow> isr_state \<Rightarrow> bool" where
  "same_head s s' \<longleftrightarrow> buffer_head (fdc s') = buffer_head (fdc s) \<and> length (buffers (fdc s')) = length (buffers (fdc s))
    \<and> (\<forall>i. i \<noteq> buffer_head (fdc s) \<longrightarrow> buffers (fdc s') ! i = buffers (fdc s) ! i)"

definition ring_frame :: "isr_state \<Rightarrow> isr_state \<Rightarrow> bool" where
  "ring_frame s s' \<longleftrightarrow> length (buffers (fdc s')) = length (buffers (fdc s))
    \<and> (buffer_head (fdc s') = buffer_head (fdc s) \<or> buffer_head (fdc s') = (buffer_head (fdc s) + 1) mod length (buffers (fdc s)))
    \<and> (\<forall>i. i \<noteq> buffer_head (fdc s) \<longrightarrow> i \<noteq> buffer_head (fdc s') \<longrightarrow> buffers (fdc s') ! i = buffers (fdc s) ! i)"

lemma same_head_refl [simp]: "same_head s s"
  by (simp add: same_head_def)

lemma same_head_frame: "same_head s s' \<Longrightarrow> ring_frame s s'"
  by (simp add: same_head_def ring_frame_def)

lemma ring_frame_before: "same_head s t \<Longrightarrow> ring_frame t s' \<Longrightarrow> ring_frame s s'"
  by (auto simp: same_head_def ring_frame_def)

lemma ring_frame_next: "same_head (next_HEAD s) s' \<Longrightarrow> ring_frame s s'"
  by (auto simp: same_head_def ring_frame_def next_HEAD_def)

text \<open>What is put on top of a state with one of the small updates stays in the frame.\<close>

lemma same_head_set_HEAD: "same_head s t \<Longrightarrow> same_head s (set_HEAD f t)"
  by (auto simp: same_head_def set_HEAD_def)

lemma same_head_other [simp]:
  "same_head s (set_runner r t) = same_head s t" "same_head s (set_mode m t) = same_head s t"
  "same_head s (issue c t) = same_head s t" "same_head s (t\<lparr>ft := x\<rparr>) = same_head s t"
  "same_head s (count_error cause t) = same_head s t" "same_head s (set_no_data k t) = same_head s t"
  "same_head s (schedule_pause_tape t b mode) = same_head s t"
  "same_head s (t\<lparr>fdc := (fdc t)\<lparr>stop_read_ahead := b\<rparr>\<rparr>) = same_head s t"
  "same_head s (pause_tape t oc) = same_head s t"
  by (auto simp: same_head_def set_runner_def set_mode_def issue_def count_error_def set_no_data_def schedule_pause_tape_def
      pause_tape_def Let_def split: cmd_outcome.splits)

lemma same_head_setup:
  "fdc_setup_read_write t b m ok = (t', okay) \<Longrightarrow> same_head s t \<Longrightarrow> same_head s t'"
  "fdc_setup_formatting t b ok = (t', okay) \<Longrightarrow> same_head s t \<Longrightarrow> same_head s t'"
  by (auto simp: fdc_setup_read_write_def fdc_setup_formatting_def Let_def split: if_splits)

lemma start_next_segment_frame:
  assumes "start_next_segment s mode wr ok nxt = Some s'"
  shows "same_head s s'"
proof -
  obtain ft2 b2 where st: "ftape_setup_new_segment (ft s) (HEAD s) nxt False = Some (ft2, b2)"
    using assms by (auto simp: start_next_segment_def bind_eq_Some_conv)
  define s2 where "s2 = set_HEAD (\<lambda>_. b2) (s\<lparr>ft := ft2\<rparr>)"
  define s3 where "s3 = (if stop_read_ahead (fdc s2)
    then set_HEAD (\<lambda>b. b\<lparr>b_next_segment := 0\<rparr>) (s2\<lparr>fdc := (fdc s2)\<lparr>stop_read_ahead := False\<rparr>\<rparr>) else s2)"
  obtain b4 n where c: "ftape_calc_next_cluster (HEAD s3) = (b4, n)" by fastforce
  define s4 where "s4 = set_HEAD (\<lambda>_. b4) s3"
  obtain s5 okay where r: "fdc_setup_read_write s4 b4 mode ok = (s5, okay)" by fastforce
  have s4: "same_head s s4" by (simp add: s4_def s3_def s2_def same_head_set_HEAD)
  then have "same_head s s5" by (rule same_head_setup(1) [OF r])
  moreover have "start_next_segment s mode wr ok nxt = (if n = 0 then Some (set_mode fdc_idle (set_runner do_abort s4))
      else if okay then Some (set_HEAD (set_status (resume_status (driver_state (ft s5)) wr)) s5)
      else Some (set_mode fdc_idle (set_runner do_abort s5)))"
    unfolding start_next_segment_def st option.case bind.bind_lunit prod.case Let_def s2_def [symmetric]
      s3_def [symmetric] c s4_def [symmetric] r by simp
  ultimately show ?thesis using assms s4 by (auto simp: same_head_set_HEAD split: if_splits)
qed

section \<open>Reading a segment to its end\<close>

named_theorems isr_simps \<open>what the small updates of the state leave alone\<close>

definition ring_ok :: "isr_state \<Rightarrow> bool" where
  "ring_ok s \<longleftrightarrow> buffer_head (fdc s) < length (buffers (fdc s))"

lemma HEAD_set_HEAD [isr_simps]: "ring_ok s \<Longrightarrow> HEAD (set_HEAD f s) = f (HEAD s)"
  by (simp add: HEAD_def set_HEAD_def ring_ok_def)

lemma HEAD_frame [isr_simps]:
  "HEAD (set_runner r s) = HEAD s" "HEAD (set_mode m s) = HEAD s" "HEAD (issue c s) = HEAD s"
  "HEAD (s\<lparr>ft := x\<rparr>) = HEAD s" "HEAD (count_error cause s) = HEAD s" "HEAD (set_no_data k s) = HEAD s"
  by (simp_all add: HEAD_def set_runner_def set_mode_def issue_def count_error_def set_no_data_def)

lemma ring_ok_frame [isr_simps]:
  "ring_ok (set_HEAD f s) = ring_ok s" "ring_ok (set_runner r s) = ring_ok s" "ring_ok (set_mode m s) = ring_ok s"
  "ring_ok (issue c s) = ring_ok s" "ring_ok (s\<lparr>ft := x\<rparr>) = ring_ok s"
  "ring_ok (count_error cause s) = ring_ok s" "ring_ok (set_no_data k s) = ring_ok s"
  by (simp_all add: ring_ok_def set_HEAD_def set_runner_def set_mode_def issue_def count_error_def set_no_data_def)

lemma set_HEAD_frame [isr_simps]:
  "ft (set_HEAD f s) = ft s" "fdc_mode (fdc (set_HEAD f s)) = fdc_mode (fdc s)" "fdc_kind (fdc (set_HEAD f s)) = fdc_kind (fdc s)"
  "buffer_head (fdc (set_HEAD f s)) = buffer_head (fdc s)" "length (buffers (fdc (set_HEAD f s))) = length (buffers (fdc s))"
  "fdc_cmd (fdc (set_HEAD f s)) = fdc_cmd (fdc s)" "isr_active (fdc (set_HEAD f s)) = isr_active (fdc s)"
  "hide_interrupt (fdc (set_HEAD f s)) = hide_interrupt (fdc s)" "fdc_unit (fdc (set_HEAD f s)) = fdc_unit (fdc s)"
  "buffers (fdc (set_HEAD f s)) = (buffers (fdc s))[buffer_head (fdc s) := f (HEAD s)]"
  by (simp_all add: set_HEAD_def)

lemma calc_next_cluster_frame:
  assumes "ftape_calc_next_cluster b = (b', n)"
  shows "b_status b' = b_status b" "b_segment_id b' = b_segment_id b" "b_next_segment b' = b_next_segment b"
    "b_soft_error_map b' = b_soft_error_map b" "b_hard_error_map b' = b_hard_error_map b"
    "b_dma_address b' = b_dma_address b" "b_cyl b' = b_cyl b" "b_sect b' = b_sect b" "b_head b' = b_head b"
    "b_sector_count b' = n" "b_ptr b' = b_ptr b" "b_data_offset b' = b_data_offset b"
  using assms by (auto simp: ftape_calc_next_cluster_def Let_def split: prod.splits)

text \<open>
  A controller that answers every command with success: it reports the next cylinder and sector 1,
  as the comment above \<open>get_fdc_transfer_size\<close> says, and the DMA has no residue.
\<close>

definition irq_complete :: "isr_state \<Rightarrow> irq_input" where
  "irq_complete s = \<lparr>irq_busy = True, irq_result = Some [0, 0, 0, b_cyl (HEAD s) + 1, b_head (HEAD s), 1, 3], irq_residue = 0,
     irq_setup_ok = True, irq_pause = Cmd_taken, irq_sense = [], irq_waiting = False\<rparr>"

fun run_complete :: "nat \<Rightarrow> isr_state \<Rightarrow> isr_state option" where
  "run_complete 0 s = Some s"
| "run_complete (Suc n) s = Option.bind (fdc_isr s (irq_complete s)) (run_complete n)"

definition reading_segment :: "u32 \<Rightarrow> isr_state \<Rightarrow> bool" where
  "reading_segment bad s \<longleftrightarrow> ring_ok s \<and> isr_active (fdc s) = 0 \<and> fdc_mode (fdc s) = fdc_reading_data
    \<and> fdc_kind (fdc s) \<noteq> DITTOEZ \<and> driver_state (ft s) = reading \<and> runner_status (ft s) = running
    \<and> b_status (HEAD s) = reading \<and> cluster_inv bad (HEAD s)"

lemma transfer_size_complete:
  assumes "cluster_inv bad b"
  shows "get_transfer_size False b [0, 0, 0, b_cyl b + 1, b_head b, 1, 3] no_error 0 = (b, b_sector_count b)"
proof -
  have "b_cyl b + 1 \<noteq> b_cyl b" by simp
  then have "uint (b_cyl b + 1) - uint (b_cyl b) \<noteq> 0" by (metis eq_iff_diff_eq_0 word_uint_eqI)
  then show ?thesis
    using cluster_inv_bounds [OF assms]
    by (simp add: get_transfer_size_def get_fdc_transfer_size_def Let_def sint_sbintrunc' signed_take_bit_int_eq_self)
qed

lemma decode_complete [simp]: "decode_irq_cause (0 # r) = no_error"
  by (simp add: decode_irq_cause_def)

lemma not_fake:
  assumes "transfer_inv bad b" "bad \<noteq> FAKE_SEGMENT"
  shows "b_bad_sector_map b \<noteq> FAKE_SEGMENT"
proof (cases "b_sector_offset b = 0")
  case True
  then show ?thesis using assms by (simp add: transfer_inv_def)
next
  case False
  then have "\<not> bit (b_bad_sector_map b) 31"
    using assms(1) by (auto simp: transfer_inv_def bit_simps dest: bit_imp_le_length)
  moreover have "bit (FAKE_SEGMENT :: u32) 31" by (simp add: bit_numeral_rec)
  ultimately show ?thesis by metis
qed

lemma set_HEAD_set_HEAD [isr_simps]: "ring_ok s \<Longrightarrow> set_HEAD f (set_HEAD g s) = set_HEAD (f \<circ> g) s"
  by (simp add: set_HEAD_def HEAD_def ring_ok_def)

lemma set_HEAD_same: "ring_ok s \<Longrightarrow> f (HEAD s) = HEAD s \<Longrightarrow> set_HEAD f s = s"
  by (simp add: set_HEAD_def HEAD_def)

lemma set_HEAD_cong: "f (HEAD s) = g (HEAD s) \<Longrightarrow> set_HEAD f s = set_HEAD g s"
  by (simp add: set_HEAD_def)

lemma read_step_complete:
  assumes "reading_segment bad s" "bad \<noteq> FAKE_SEGMENT"
  shows "read_step s [0, 0, 0, b_cyl (HEAD s) + 1, b_head (HEAD s), 1, 3] no_error (irq_complete s)
    = continue_xfer (set_HEAD (\<lambda>b. advance (b_sector_count b) b) s) fdc_reading_data 0 True"
proof -
  have inv: "cluster_inv bad (HEAD s)" and ring: "ring_ok s" and st: "\<not> stopping s" "fdc_mode (fdc s) = fdc_reading_data"
      "fdc_kind (fdc s) \<noteq> DITTOEZ"
    using assms(1) by (auto simp: reading_segment_def stopping_def)
  have "b_bad_sector_map (HEAD s) \<noteq> FAKE_SEGMENT" "b_sector_count (HEAD s) \<noteq> EAGAIN_result"
    using inv not_fake assms(2) cluster_inv_bounds(2) [OF inv] by (auto simp: cluster_inv_def)
  moreover have "set_HEAD (\<lambda>_. HEAD s) s = s" using ring by (simp add: set_HEAD_same)
  ultimately show ?thesis
    using st transfer_size_complete [OF inv] determine_progress_no_error [OF inv]
    by (simp add: read_step_def irq_complete_def Let_def cong: set_HEAD_cong)
qed

lemma handle_busy_complete:
  assumes "reading_segment bad s" "bad \<noteq> FAKE_SEGMENT"
  shows "handle_fdc_busy s (irq_complete s) = map_option cease_operation
    (continue_xfer (set_HEAD (\<lambda>b. advance (b_sector_count b) b) s) fdc_reading_data 0 True)"
proof -
  have m: "fdc_mode (fdc s) = fdc_reading_data" "driver_state (ft s) \<noteq> verifying"
    using assms(1) by (auto simp: reading_segment_def)
  have r: "irq_result (irq_complete s) = Some [0, 0, 0, b_cyl (HEAD s) + 1, b_head (HEAD s), 1, 3]" by (simp add: irq_complete_def)
  show ?thesis
    using m read_step_complete [OF assms] by (simp add: handle_fdc_busy_def mode_step_def r Let_def)
qed

text \<open>The DMA areas among the commands, and that they follow one another without a gap.\<close>

fun dma_areas :: "fdc_command list \<Rightarrow> (int \<times> int) list" where
  "dma_areas [] = []"
| "dma_areas (Setup_Dma a n # cs) = (a, n) # dma_areas cs"
| "dma_areas (c # cs) = dma_areas cs"

fun consecutive :: "int \<Rightarrow> (int \<times> int) list \<Rightarrow> int \<Rightarrow> bool" where
  "consecutive a [] z \<longleftrightarrow> a = z"
| "consecutive a ((p, n) # xs) z \<longleftrightarrow> p = a \<and> consecutive (a + n) xs z"

lemma dma_areas_append [simp]: "dma_areas (xs @ ys) = dma_areas xs @ dma_areas ys"
  by (induction xs rule: dma_areas.induct) simp_all

text \<open>The tape stops behind the segment: at the end of a track, on request, or for lack of a free buffer.\<close>

definition stops :: "isr_state \<Rightarrow> bool" where
  "stops s \<longleftrightarrow> (b_segment_id (HEAD s) + 1) mod uint (segments_per_track (ft s)) = 0 \<or> b_next_segment (HEAD s) \<le> 0
    \<or> b_status (buffers (fdc s) ! ((buffer_head (fdc s) + 1) mod length (buffers (fdc s)))) \<noteq> waiting"

definition segment_done :: "buffer_struct \<Rightarrow> buffer_struct" where
  "segment_done b = b\<lparr>b_bytes := b_ptr b - b_dma_address b, b_status := buf_done\<rparr>"

lemma finish_segment_stops:
  assumes "ring_ok s" "stops s" "\<not> hide_interrupt (fdc s)"
  obtains s' where "finish_segment s mode wr ok = Some s'"
    "buffers (fdc s') = (buffers (fdc s))[buffer_head (fdc s) := segment_done (HEAD s)]"
    "fdc_cmd (fdc s') = fdc_cmd (fdc s)" "buffer_head (fdc s') = (buffer_head (fdc s) + 1) mod length (buffers (fdc s))"
proof -
  let ?h = "buffer_head (fdc s)" and ?n = "length (buffers (fdc s))"
  let ?s1 = "next_HEAD (set_HEAD segment_done s)"
  have s1: "buffers (fdc ?s1) = (buffers (fdc s))[?h := segment_done (HEAD s)]" "fdc_cmd (fdc ?s1) = fdc_cmd (fdc s)"
      "ft ?s1 = ft s" "HEAD ?s1 = (buffers (fdc s))[?h := segment_done (HEAD s)] ! ((?h + 1) mod ?n)"
      "buffer_head (fdc ?s1) = (?h + 1) mod ?n"
    by (simp_all add: next_HEAD_def set_HEAD_def HEAD_def)
  have w: "b_status (HEAD ?s1) \<noteq> waiting" if "b_status (buffers (fdc s) ! ((?h + 1) mod ?n)) \<noteq> waiting"
    using that assms(1) by (cases "(?h + 1) mod ?n = ?h") (simp_all add: s1 segment_done_def ring_ok_def)
  have fin: "finish_segment s mode wr ok = Some (if (b_segment_id (HEAD s) + 1) mod uint (segments_per_track (ft s)) = 0
      then set_mode fdc_idle (set_runner logical_eot ?s1) else set_runner idle (schedule_pause_tape ?s1 False mode))"
  proof -
    have "finish_segment s mode wr ok = Some (set_mode fdc_idle (set_runner logical_eot ?s1))"
      if "(b_segment_id (HEAD s) + 1) mod uint (segments_per_track (ft s)) = 0"
      using that by (simp add: finish_segment_def Let_def segment_done_def [abs_def])
    moreover have "finish_segment s mode wr ok = Some (set_runner idle (schedule_pause_tape ?s1 False mode))"
      if "(b_segment_id (HEAD s) + 1) mod uint (segments_per_track (ft s)) \<noteq> 0"
        "b_next_segment (HEAD s) \<le> 0 \<or> b_status (HEAD ?s1) \<noteq> waiting"
      using that(2) by (elim disjE) (simp_all add: that(1) finish_segment_def Let_def segment_done_def [abs_def])
    moreover have "(b_segment_id (HEAD s) + 1) mod uint (segments_per_track (ft s)) = 0 \<or> b_next_segment (HEAD s) \<le> 0
        \<or> b_status (HEAD ?s1) \<noteq> waiting"
      using assms(2) w unfolding stops_def by blast
    ultimately show ?thesis by auto
  qed
  show ?thesis
    by (rule that [OF fin]) (simp_all add: s1 set_mode_def set_runner_def schedule_pause_tape_def)
qed

text \<open>The buffer behind \<open>HEAD\<close>. When the tape goes on, the next segment is set up in it, and the look-up of its bad sectors returns.\<close>

definition next_buffer :: "isr_state \<Rightarrow> buffer_struct" where
  "next_buffer s = buffers (fdc s) ! ((buffer_head (fdc s) + 1) mod length (buffers (fdc s)))"

definition next_looked_up :: "isr_state \<Rightarrow> bool" where
  "next_looked_up s \<longleftrightarrow> stops s \<or> ftape_setup_new_segment (ft s) (next_buffer s) (b_next_segment (HEAD s)) False \<noteq> None"

lemma get_entry_flag:
  "ftape_get_bad_sector_entry (d\<lparr>setup_error := x\<rparr>) i = map_option (\<lambda>(d1, w). (d1\<lparr>setup_error := x\<rparr>, w)) (ftape_get_bad_sector_entry d i)"
proof -
  have swap: "d\<lparr>setup_error := x, bsm_hash_ptr := p, bsm_map := m, last_reference := i\<rparr> = d\<lparr>bsm_hash_ptr := p, bsm_map := m, last_reference := i, setup_error := x\<rparr>" for p m
    by simp
  show ?thesis
    by (cases "bad_sector_map d") (auto simp: swap ftape_get_bad_sector_entry_def map_option_bind comp_def case_prod_unfold split: option.split)
qed

lemma setup_segment_flag: "setup_segment (d\<lparr>setup_error := x\<rparr>) b i offset n again = setup_segment d b i offset n again"
proof (cases "ftape_get_bad_sector_entry d i")
  case None
  then show ?thesis by (simp add: setup_segment_def get_entry_flag Let_def)
next
  case (Some r)
  then obtain d1 w where r: "ftape_get_bad_sector_entry d i = Some (d1, w)" by (cases r) auto
  show ?thesis
    by (cases "ftape_get_bad_sector_entry d1 i") (auto simp: setup_segment_def get_entry_flag Let_def r)
qed

lemma setup_new_segment_flag: "ftape_setup_new_segment (d\<lparr>setup_error := x\<rparr>) b i skip = ftape_setup_new_segment d b i skip"
proof -
  have flag: "d\<lparr>setup_error := x, old_driver_state := q\<rparr> = d\<lparr>old_driver_state := q\<rparr>\<lparr>setup_error := x\<rparr>"
    "d\<lparr>setup_error := x, old_segment_id := i\<rparr> = d\<lparr>old_segment_id := i\<rparr>\<lparr>setup_error := x\<rparr>"
    "d\<lparr>setup_error := x, history := h\<rparr> = d\<lparr>history := h\<rparr>\<lparr>setup_error := x\<rparr>"
    "d\<lparr>setup_error := x, last_segment_skipped := i\<rparr> = d\<lparr>last_segment_skipped := i\<rparr>\<lparr>setup_error := x\<rparr>" for d :: ftape_info and i q h by simp_all
  have branch: "(if c then d1\<lparr>setup_error := x\<rparr> else d2\<lparr>setup_error := x\<rparr>) = (if c then d1 else d2)\<lparr>setup_error := x\<rparr>" for c and d1 d2 :: ftape_info by simp
  show ?thesis
    unfolding ftape_setup_new_segment_def Let_def by (simp add: flag branch setup_segment_flag split del: if_split cong: if_cong)
qed

lemma setup_segment_id: "setup_segment d b i offset n again = Some (d1, b1) \<Longrightarrow> b_segment_id b1 = i"
  by (auto simp: setup_segment_def Let_def bind_eq_Some_conv)

lemma setup_new_segment_id:
  assumes "ftape_setup_new_segment d b i skip = Some (d1, b1)"
  shows "b_segment_id b1 = i"
proof -
  have either: "(if c then m else k) = Some z \<Longrightarrow> m = Some z \<or> k = Some z" for c and m k :: "(ftape_info \<times> buffer_struct) option" and z by (cases c) simp_all
  show ?thesis using either [OF assms [unfolded ftape_setup_new_segment_def Let_def]] by (elim disjE) (rule setup_segment_id, assumption)+
qed

lemma setup_read_ok:
  "fdc_setup_read_write s b fdc_reading_data True = (set_mode fdc_reading_data
     (issue (Read_Write fdc_reading_data (fdc_unit (fdc s)) (b_cyl b) (b_head b) (word_of_int (uint (b_sect b) + b_sector_offset b))
        (word_of_int (uint (b_sect b) + b_sector_offset b) + word_of_int (b_sector_count b) - 1))
      ((issue (Setup_Dma (b_ptr b) (1024 * b_sector_count b)) s)\<lparr>ft := (ft s)\<lparr>setup_error := False\<rparr>\<rparr>)), True)"
  by (simp add: fdc_setup_read_write_def issue_def Let_def)

text \<open>What is set up ahead: the first cluster of the next segment, unless the segment has no good sector.\<close>

definition ahead_area :: "isr_state \<Rightarrow> (int \<times> int) list \<Rightarrow> bool" where
  "ahead_area s xs \<longleftrightarrow> xs = [] \<or> xs = [(b_ptr (HEAD s), 1024 * b_sector_count (HEAD s))]"

lemma ring_ok_next: "ring_ok s \<Longrightarrow> ring_ok (next_HEAD s)"
  by (auto simp: ring_ok_def next_HEAD_def intro!: mod_less_divisor)

lemma start_next_read:
  assumes "ring_ok s" "ftape_setup_new_segment (ft s) (HEAD s) nxt False \<noteq> None"
  obtains s' xs where "start_next_segment s fdc_reading_data False True nxt = Some s'" "same_head s s'"
    "dma_areas (fdc_cmd (fdc s')) = dma_areas (fdc_cmd (fdc s)) @ xs" "ahead_area s' xs" "b_segment_id (HEAD s') = nxt"
proof -
  obtain d b2 where st: "ftape_setup_new_segment (ft s) (HEAD s) nxt False = Some (d, b2)" using assms(2) by auto
  define s2 where "s2 = set_HEAD (\<lambda>_. b2) (s\<lparr>ft := d\<rparr>)"
  define s3 where "s3 = (if stop_read_ahead (fdc s2)
    then set_HEAD (\<lambda>b. b\<lparr>b_next_segment := 0\<rparr>) (s2\<lparr>fdc := (fdc s2)\<lparr>stop_read_ahead := False\<rparr>\<rparr>) else s2)"
  obtain b4 n where c: "ftape_calc_next_cluster (HEAD s3) = (b4, n)" by fastforce
  define s4 where "s4 = set_HEAD (\<lambda>_. b4) s3"
  let ?s5 = "fst (fdc_setup_read_write s4 b4 fdc_reading_data True)"
  define s' where "s' = (if n = 0 then set_mode fdc_idle (set_runner do_abort s4)
    else set_HEAD (set_status (resume_status (driver_state (ft ?s5)) False)) ?s5)"
  have run: "start_next_segment s fdc_reading_data False True nxt = Some s'"
    unfolding start_next_segment_def st option.case bind.bind_lunit prod.case Let_def s2_def [symmetric]
      s3_def [symmetric] c s4_def [symmetric] s'_def setup_read_ok by simp
  have r: "ring_ok s2" "HEAD s2 = b2" using assms(1) by (simp_all add: s2_def isr_simps)
  then have r3: "ring_ok s3" "b_segment_id (HEAD s3) = b_segment_id b2" "fdc_cmd (fdc s3) = fdc_cmd (fdc s)"
    by (simp_all add: s3_def s2_def isr_simps ring_ok_def HEAD_def set_HEAD_def)
  have r4: "ring_ok s4" "HEAD s4 = b4" "fdc_cmd (fdc s4) = fdc_cmd (fdc s)" using r3 by (simp_all add: s4_def isr_simps)
  have b4: "b_segment_id b4 = nxt" using calc_next_cluster_frame [OF c] r3(2) setup_new_segment_id [OF st] by simp
  have five: "ring_ok ?s5" "HEAD ?s5 = b4" "dma_areas (fdc_cmd (fdc ?s5)) = dma_areas (fdc_cmd (fdc s)) @ [(b_ptr b4, 1024 * b_sector_count b4)]"
    using r4 by (simp_all add: setup_read_ok isr_simps) (simp add: set_mode_def issue_def)
  show ?thesis
  proof (cases "n = 0")
    case True
    then show ?thesis
      by (intro that [OF run start_next_segment_frame [OF run], of "[]"])
        (simp_all add: s'_def isr_simps r4 b4 ahead_area_def, simp add: set_mode_def set_runner_def r4)
  next
    case False
    have "HEAD s' = set_status (resume_status (driver_state (ft ?s5)) False) b4" using False five by (simp add: s'_def isr_simps)
    then show ?thesis using False five b4
      by (intro that [OF run start_next_segment_frame [OF run], of "[(b_ptr b4, 1024 * b_sector_count b4)]"])
        (simp_all add: ahead_area_def set_status_def, simp add: s'_def isr_simps)
  qed
qed

lemma finish_segment_read:
  assumes "ring_ok s" "next_looked_up s" "\<not> hide_interrupt (fdc s)" "b_status (HEAD s) \<noteq> waiting"
  obtains s' xs where "finish_segment s fdc_reading_data False True = Some s'"
    "buffers (fdc s') ! buffer_head (fdc s) = segment_done (HEAD s)"
    "buffer_head (fdc s') = (buffer_head (fdc s) + 1) mod length (buffers (fdc s))"
    "dma_areas (fdc_cmd (fdc s')) = dma_areas (fdc_cmd (fdc s)) @ xs" "ahead_area s' xs"
    "stops s \<Longrightarrow> xs = []" "\<not> stops s \<Longrightarrow> b_segment_id (HEAD s') = b_next_segment (HEAD s)"
proof (cases "stops s")
  case True
  obtain s' where s': "finish_segment s fdc_reading_data False True = Some s'"
    "buffers (fdc s') = (buffers (fdc s))[buffer_head (fdc s) := segment_done (HEAD s)]" "fdc_cmd (fdc s') = fdc_cmd (fdc s)"
    "buffer_head (fdc s') = (buffer_head (fdc s) + 1) mod length (buffers (fdc s))"
    by (rule finish_segment_stops [OF assms(1) True assms(3)])
  with True assms(1) show ?thesis by (intro that [OF s'(1), of "[]"]) (simp_all add: ring_ok_def ahead_area_def)
next
  case False
  let ?h = "buffer_head (fdc s)" and ?n = "length (buffers (fdc s))"
  let ?s1 = "next_HEAD (set_HEAD segment_done s)"
  have w: "b_status (next_buffer s) = waiting" using False by (simp add: stops_def next_buffer_def)
  have s1: "buffers (fdc ?s1) = (buffers (fdc s))[?h := segment_done (HEAD s)]" "fdc_cmd (fdc ?s1) = fdc_cmd (fdc s)"
      "ft ?s1 = ft s" "buffer_head (fdc ?s1) = (?h + 1) mod ?n"
    by (simp_all add: next_HEAD_def set_HEAD_def HEAD_def)
  have ne: "(?h + 1) mod ?n \<noteq> ?h" using w assms(4) by (metis HEAD_def next_buffer_def)
  have hd: "HEAD ?s1 = next_buffer s" using ne by (simp add: HEAD_def [of ?s1] s1 next_buffer_def)
  have ring1: "ring_ok ?s1" using assms(1) by (simp add: ring_ok_next isr_simps)
  have "ftape_setup_new_segment (ft ?s1) (HEAD ?s1) (b_next_segment (HEAD s)) False \<noteq> None"
    using assms(2) False by (simp add: hd s1 next_looked_up_def)
  from start_next_read [OF ring1 this] obtain s' xs where
    s': "start_next_segment ?s1 fdc_reading_data False True (b_next_segment (HEAD s)) = Some s'" "same_head ?s1 s'"
      "dma_areas (fdc_cmd (fdc s')) = dma_areas (fdc_cmd (fdc ?s1)) @ xs" "ahead_area s' xs"
      "b_segment_id (HEAD s') = b_next_segment (HEAD s)" .
  have "finish_segment s fdc_reading_data False True = start_next_segment ?s1 fdc_reading_data False True (b_next_segment (HEAD s))"
    using False w hd by (simp add: finish_segment_def stops_def Let_def segment_done_def [abs_def])
  then show ?thesis using s' ne assms(1) False
    by (intro that [of s' xs]) (simp_all add: s1 same_head_def ring_ok_def)
qed

lemma looked_up_cong:
  assumes "ring_ok s" "buffers (fdc s') = (buffers (fdc s))[buffer_head (fdc s) := b]"
    "buffer_head (fdc s') = buffer_head (fdc s)" "ft s' = ft s \<or> ft s' = (ft s)\<lparr>setup_error := False\<rparr>"
    "b_segment_id b = b_segment_id (HEAD s)" "b_next_segment b = b_next_segment (HEAD s)"
    "b_status b \<noteq> waiting" "b_status (HEAD s) \<noteq> waiting"
  shows "next_looked_up s' = next_looked_up s" "stops s' = stops s"
proof -
  have hd: "HEAD s' = b" using assms(1-3) by (simp add: HEAD_def ring_ok_def)
  have spt: "segments_per_track (ft s') = segments_per_track (ft s)" using assms(4) by auto
  have nb: "next_buffer s' = (if (buffer_head (fdc s) + 1) mod length (buffers (fdc s)) = buffer_head (fdc s) then b else next_buffer s)"
    using assms(1-3) by (simp add: next_buffer_def ring_ok_def)
  have same: "next_buffer s' = next_buffer s \<or> b_status (next_buffer s') \<noteq> waiting \<and> b_status (next_buffer s) \<noteq> waiting"
    using nb assms(7,8) by (auto simp: next_buffer_def HEAD_def)
  show st: "stops s' = stops s"
    using same assms(5,6) unfolding stops_def next_buffer_def [symmetric] hd spt by auto
  have "next_buffer s' = next_buffer s" if "\<not> stops s"
    using that same unfolding stops_def next_buffer_def [symmetric] by blast
  then show "next_looked_up s' = next_looked_up s"
    using st assms(4,6) hd by (auto simp: next_looked_up_def setup_new_segment_flag)
qed

text \<open>The handler goes on with the next cluster, or finishes the segment.\<close>

lemma continue_read:
  assumes ring: "ring_ok s" and inv: "transfer_inv bad (HEAD s)"
  obtains (cluster) b n where "ftape_calc_next_cluster (HEAD s) = (b, n)" "0 < n"
      "continue_xfer s fdc_reading_data 0 True = Some (fst (fdc_setup_read_write (set_HEAD (\<lambda>_. b) s) b fdc_reading_data True))"
    | (finish) b where "continue_xfer s fdc_reading_data 0 True = finish_segment (set_HEAD (\<lambda>_. b) s) fdc_reading_data False True"
      "\<forall>i < 32. nat (b_sector_offset (HEAD s)) \<le> i \<longrightarrow> bit bad i" "b = HEAD s \<or> ftape_calc_next_cluster (HEAD s) = (b, 0)"
proof (cases "b_remaining (HEAD s) > 0")
  case True
  obtain b n where c: "ftape_calc_next_cluster (HEAD s) = (b, n)" by fastforce
  have "0 \<le> n" using calc_next_cluster_inv(6) [OF inv c] .
  show ?thesis
  proof (cases "n = 0")
    case True
    with \<open>b_remaining (HEAD s) > 0\<close> c have "continue_xfer s fdc_reading_data 0 True
      = finish_segment (set_HEAD (\<lambda>_. b) s) fdc_reading_data False True"
      by (simp add: continue_xfer_def Let_def)
    then show ?thesis using c True calc_next_cluster_inv(4) [OF inv c] by (intro finish [of b]) auto
  next
    case False
    with \<open>0 \<le> n\<close> True c show ?thesis
      by (intro cluster [of b n]) (simp_all add: continue_xfer_def Let_def setup_read_ok)
  qed
next
  case False
  then have "b_sector_offset (HEAD s) = 32" using inv by (simp add: transfer_inv_def)
  moreover have "continue_xfer s fdc_reading_data 0 True
      = finish_segment (set_HEAD (\<lambda>_. HEAD s) s) fdc_reading_data False True"
    using False ring by (simp add: continue_xfer_def Let_def set_HEAD_same)
  ultimately show ?thesis by (intro finish [of "HEAD s"]) auto
qed

lemma good_before_finished:
  assumes "transfer_inv bad b" "\<forall>i < 32. nat (b_sector_offset b) \<le> i \<longrightarrow> bit bad i"
  shows "b_data_offset b = good_before bad 32"
  using assms good_before_skip [of "b_sector_offset b" 32 bad] by (auto simp: transfer_inv_def)

lemma complete_step:
  assumes rs: "reading_segment bad s" "bad \<noteq> FAKE_SEGMENT" and st: "next_looked_up s"
  obtains (cluster) s' where "fdc_isr s (irq_complete s) = Some s'" "reading_segment bad s'" "next_looked_up s'" "stops s' = stops s"
      "length (buffers (fdc s')) = length (buffers (fdc s))" "b_next_segment (HEAD s') = b_next_segment (HEAD s)"
      "buffer_head (fdc s') = buffer_head (fdc s)" "b_sector_offset (HEAD s) < b_sector_offset (HEAD s')"
      "b_soft_error_map (HEAD s') = b_soft_error_map (HEAD s)" "b_hard_error_map (HEAD s') = b_hard_error_map (HEAD s)"
      "b_dma_address (HEAD s') = b_dma_address (HEAD s)" "b_segment_id (HEAD s') = b_segment_id (HEAD s)"
      "dma_areas (fdc_cmd (fdc s')) = dma_areas (fdc_cmd (fdc s)) @ [(b_ptr (HEAD s'), 1024 * b_sector_count (HEAD s'))]"
      "b_ptr (HEAD s') = b_ptr (HEAD s) + 1024 * b_sector_count (HEAD s)"
    | (finish) s' b xs where "fdc_isr s (irq_complete s) = Some s'" "buffers (fdc s') ! buffer_head (fdc s) = b"
      "buffer_head (fdc s') = (buffer_head (fdc s) + 1) mod length (buffers (fdc s))"
      "b_status b = buf_done" "b_bytes b = 1024 * good_before bad 32" "b_segment_id b = b_segment_id (HEAD s)"
      "b_soft_error_map b = b_soft_error_map (HEAD s)" "b_hard_error_map b = b_hard_error_map (HEAD s)"
      "dma_areas (fdc_cmd (fdc s')) = dma_areas (fdc_cmd (fdc s)) @ xs" "ahead_area s' xs"
      "stops s \<Longrightarrow> xs = []" "\<not> stops s \<Longrightarrow> b_segment_id (HEAD s') = b_next_segment (HEAD s)"
      "b_ptr (HEAD s) + 1024 * b_sector_count (HEAD s) = b_dma_address (HEAD s) + 1024 * good_before bad 32"
proof -
  let ?s = "s\<lparr>fdc := (fdc s)\<lparr>hide_interrupt := False\<rparr>\<rparr>"
  have h: "HEAD ?s = HEAD s" "irq_complete ?s = irq_complete s" by (simp_all add: HEAD_def irq_complete_def)
  have rs': "reading_segment bad ?s" "ring_ok ?s" using rs h(1) by (simp_all add: reading_segment_def ring_ok_def)
  let ?s1 = "set_HEAD (\<lambda>b. advance (b_sector_count b) b) ?s"
  have inv: "cluster_inv bad (HEAD s)" using rs by (simp add: reading_segment_def)
  have s1: "ring_ok ?s1" "HEAD ?s1 = advance (b_sector_count (HEAD s)) (HEAD s)" using rs'(2) by (simp_all add: isr_simps h)
  have inv1: "transfer_inv bad (HEAD ?s1)"
    using determine_progress_inv(1) [OF inv, of "b_sector_count (HEAD s)" no_error 0] determine_progress_no_error [OF inv]
      cluster_inv_bounds [OF inv] by (simp add: s1)
  note busy = handle_busy_complete [OF rs'(1) rs(2), unfolded h]
  have isr: "fdc_isr s (irq_complete s) = Option.bind (handle_fdc_busy ?s (irq_complete s))
      (\<lambda>s2. Some (if hide_interrupt (fdc s2) then pause_tape s2 Cmd_taken
         else s2\<lparr>fdc := (fdc s2)\<lparr>interrupt_seen := interrupt_seen (fdc s2) + 1\<rparr>\<rparr>))"
    using rs(1) by (simp add: fdc_isr_def reading_segment_def irq_complete_def Let_def cong: if_cong)
  show ?thesis
  proof (cases rule: continue_read [OF s1(1) inv1, case_names Cluster Finish])
    case (Cluster b n)
    let ?s3 = "set_HEAD (\<lambda>_. b) ?s1"
    let ?s4 = "fst (fdc_setup_read_write ?s3 b fdc_reading_data True)"
    let ?s5 = "?s4\<lparr>fdc := (fdc ?s4)\<lparr>interrupt_seen := interrupt_seen (fdc ?s4) + 1\<rparr>\<rparr>"
    note c = calc_next_cluster_inv [OF inv1 Cluster(1)] and fr = calc_next_cluster_frame [OF Cluster(1)]
    have fts: "ft ?s4 = (ft s)\<lparr>setup_error := False\<rparr>"
      by (simp add: setup_read_ok set_mode_def issue_def isr_simps)
    have fdcs: "fdc_mode (fdc ?s4) = fdc_reading_data" "hide_interrupt (fdc ?s4) = False" "fdc_kind (fdc ?s4) = fdc_kind (fdc s)"
        "isr_active (fdc ?s4) = isr_active (fdc s)" "buffers (fdc ?s4) = (buffers (fdc s))[buffer_head (fdc s) := b]"
        "buffer_head (fdc ?s4) = buffer_head (fdc s)"
        "dma_areas (fdc_cmd (fdc ?s4)) = dma_areas (fdc_cmd (fdc s)) @ [(b_ptr b, 1024 * b_sector_count b)]"
      by (simp_all add: setup_read_ok set_mode_def issue_def isr_simps)
    have run: "runner_status (ft s) = running" using rs(1) by (simp add: reading_segment_def)
    have res: "fdc_isr s (irq_complete s) = Some ?s5"
      using run by (simp add: isr busy Cluster(3) fts fdcs cease_operation_def)
    have hd: "HEAD ?s5 = b" using rs'(2) by (simp add: HEAD_def fdcs ring_ok_def)
    have "reading_segment bad ?s5"
      using rs(1) c(2) [OF Cluster(2)] fr(1) s1(2) by (simp add: reading_segment_def hd fts fdcs ring_ok_def)
    moreover have "next_looked_up ?s5 = next_looked_up s" "stops ?s5 = stops s"
      by (rule looked_up_cong [where b = b]; use rs(1) fr s1(2) in \<open>simp_all add: fts fdcs reading_segment_def\<close>)+
    ultimately show ?thesis
      using c(5) cluster_inv_bounds(2) [OF inv] fr s1(2) 
      by (intro cluster [OF res]) (simp_all add: hd fdcs st, simp_all add: advance_def)
  next
    case (Finish b)
    let ?s3 = "set_HEAD (\<lambda>_. b) ?s1"
    have b: "transfer_inv bad b" "b_data_offset b = good_before bad 32" "b_ptr b = b_ptr (HEAD ?s1)" "b_dma_address b = b_dma_address (HEAD s)"
        "b_segment_id b = b_segment_id (HEAD s)" "b_next_segment b = b_next_segment (HEAD s)"
        "b_soft_error_map b = b_soft_error_map (HEAD s)" "b_hard_error_map b = b_hard_error_map (HEAD s)"
        "b_status b = b_status (HEAD s)"
      using Finish(3) calc_next_cluster_inv(1) [OF inv1] calc_next_cluster_frame [of "HEAD ?s1" b 0] inv1
        good_before_finished [OF inv1 Finish(2)] by (auto simp: s1(2))
    have s3: "ring_ok ?s3" "HEAD ?s3 = b" "\<not> hide_interrupt (fdc ?s3)" "fdc_cmd (fdc ?s3) = fdc_cmd (fdc s)"
        "buffers (fdc ?s3) = (buffers (fdc s))[buffer_head (fdc s) := b]" "buffer_head (fdc ?s3) = buffer_head (fdc s)" "ft ?s3 = ft s"
      using rs'(2) by (simp_all add: isr_simps)
    have same: "next_looked_up ?s3 = next_looked_up s" "stops ?s3 = stops s"
      by (rule looked_up_cong [where b = b]; use rs(1) b in \<open>simp_all add: s3 reading_segment_def\<close>)+
    have "b_status (HEAD ?s3) \<noteq> waiting" using rs(1) b by (simp add: s3 reading_segment_def)
    then obtain s4 xs where
      s4: "finish_segment ?s3 fdc_reading_data False True = Some s4"
        "buffers (fdc s4) ! buffer_head (fdc ?s3) = segment_done (HEAD ?s3)"
        "buffer_head (fdc s4) = (buffer_head (fdc ?s3) + 1) mod length (buffers (fdc ?s3))"
        "dma_areas (fdc_cmd (fdc s4)) = dma_areas (fdc_cmd (fdc ?s3)) @ xs" "ahead_area s4 xs"
        "stops ?s3 \<Longrightarrow> xs = []" "\<not> stops ?s3 \<Longrightarrow> b_segment_id (HEAD s4) = b_next_segment (HEAD ?s3)"
      using finish_segment_read [OF s3(1) _ s3(3)] st same(1) by blast
    let ?s5 = "let t = cease_operation s4 in if hide_interrupt (fdc t) then pause_tape t Cmd_taken
       else t\<lparr>fdc := (fdc t)\<lparr>interrupt_seen := interrupt_seen (fdc t) + 1\<rparr>\<rparr>"
    have res: "fdc_isr s (irq_complete s) = Some ?s5" by (simp add: isr busy Finish(1) s4(1) Let_def)
    have bufs: "buffers (fdc ?s5) = buffers (fdc s4)" "dma_areas (fdc_cmd (fdc ?s5)) = dma_areas (fdc_cmd (fdc s4))"
        "buffer_head (fdc ?s5) = buffer_head (fdc s4)"
      by (simp_all add: pause_tape_def set_mode_def issue_def Let_def cease_operation_def set_runner_def)
    then have hd5: "HEAD ?s5 = HEAD s4" by (simp add: HEAD_def)
    then have "ahead_area ?s5 xs" using s4(5) by (simp add: ahead_area_def)
    have "b_ptr (HEAD ?s1) = b_ptr (HEAD s) + 1024 * b_sector_count (HEAD s)" unfolding s1(2) by (simp add: advance_def)
    with b have ptr: "b_ptr (HEAD s) + 1024 * b_sector_count (HEAD s) = b_dma_address (HEAD s) + 1024 * good_before bad 32"
      by (simp add: transfer_inv_def)
    show ?thesis
      by (rule finish [OF res, of "segment_done b" xs])
        (use b ptr s4 same \<open>ahead_area ?s5 xs\<close> in \<open>simp_all only: bufs hd5, simp_all add: s3 segment_done_def transfer_inv_def\<close>)
  qed
qed

text \<open>
  C6. A segment that is read without errors comes out whole. From any point of the transfer, a
  controller that completes each command makes the interrupt handler pass over all remaining good
  sectors in at most 32 interrupts; the buffer is then done, with 1024 bytes for every good sector
  of the segment, the DMA areas of its clusters follow one another without gap or overlap up to the
  end of the data, and the error maps are those it started with. \<open>HEAD\<close> is then the next buffer of the ring.
  When the tape goes on, the last interrupt also sets up the next segment in that buffer, and the DMA area of its
  first cluster is all that is added; when it stops, nothing is. The next segment's look-up in the bad sector map has to return.
\<close>

theorem read_segment_completes:
  assumes "reading_segment bad s" and "bad \<noteq> FAKE_SEGMENT" and "next_looked_up s"
  shows "\<exists>n s' areas ahead. n \<le> 32 \<and> run_complete n s = Some s'
    \<and> (let b = buffers (fdc s') ! buffer_head (fdc s) in
        b_status b = buf_done \<and> b_bytes b = 1024 * good_before bad 32 \<and> b_segment_id b = b_segment_id (HEAD s)
        \<and> b_soft_error_map b = b_soft_error_map (HEAD s) \<and> b_hard_error_map b = b_hard_error_map (HEAD s))
    \<and> buffer_head (fdc s') = (buffer_head (fdc s) + 1) mod length (buffers (fdc s))
    \<and> dma_areas (fdc_cmd (fdc s')) = dma_areas (fdc_cmd (fdc s)) @ areas @ ahead
    \<and> consecutive (b_ptr (HEAD s) + 1024 * b_sector_count (HEAD s)) areas (b_dma_address (HEAD s) + 1024 * good_before bad 32)
    \<and> (if stops s then ahead = [] else b_segment_id (HEAD s') = b_next_segment (HEAD s) \<and> ahead_area s' ahead)"
proof -
  have "\<exists>n s' areas ahead. int n \<le> 32 - b_sector_offset (HEAD s) \<and> run_complete n s = Some s'
    \<and> (let b = buffers (fdc s') ! buffer_head (fdc s) in
        b_status b = buf_done \<and> b_bytes b = 1024 * good_before bad 32 \<and> b_segment_id b = b_segment_id (HEAD s)
        \<and> b_soft_error_map b = b_soft_error_map (HEAD s) \<and> b_hard_error_map b = b_hard_error_map (HEAD s))
    \<and> buffer_head (fdc s') = (buffer_head (fdc s) + 1) mod length (buffers (fdc s))
    \<and> dma_areas (fdc_cmd (fdc s')) = dma_areas (fdc_cmd (fdc s)) @ areas @ ahead
    \<and> consecutive (b_ptr (HEAD s) + 1024 * b_sector_count (HEAD s)) areas (b_dma_address (HEAD s) + 1024 * good_before bad 32)
    \<and> (if stops s then ahead = [] else b_segment_id (HEAD s') = b_next_segment (HEAD s) \<and> ahead_area s' ahead)"
    (is "\<exists>n s' areas ahead. ?P s n s' areas ahead")
    using assms(1,3)
  proof (induction "nat (32 - b_sector_offset (HEAD s))" arbitrary: s rule: less_induct)
    case less
    have inv: "cluster_inv bad (HEAD s)" and ring: "buffer_head (fdc s) < length (buffers (fdc s))"
      using less.prems by (auto simp: reading_segment_def ring_ok_def)
    note bounds = cluster_inv_bounds [OF inv]
    show ?case
    proof (cases rule: complete_step [OF less.prems(1) assms(2) less.prems(2), case_names Cluster Finish])
      case (Cluster s1)
      have inv1: "cluster_inv bad (HEAD s1)" using Cluster(2) by (simp add: reading_segment_def)
      have "nat (32 - b_sector_offset (HEAD s1)) < nat (32 - b_sector_offset (HEAD s))"
        using Cluster(8) bounds cluster_inv_bounds [OF inv1] by simp
      from less.hyps [OF this Cluster(2,3)] obtain n s' areas ahead where ih: "?P s1 n s' areas ahead" by blast
      have "?P s (Suc n) s' ((b_ptr (HEAD s1), 1024 * b_sector_count (HEAD s1)) # areas) ahead"
        using ih Cluster by (simp add: Let_def)
      then show ?thesis by blast
    next
      case (Finish s1 b xs)
      have "?P s (Suc 0) s1 [] xs" using Finish ring bounds by (simp add: Let_def)
      then show ?thesis by blast
    qed
  qed
  moreover have "n \<le> 32" if "int n \<le> 32 - b_sector_offset (HEAD s)" for n
    using that assms(1) by (auto simp: reading_segment_def cluster_inv_def transfer_inv_def)
  ultimately show ?thesis by blast
qed

text \<open>A ring of two buffers in the middle of reading a segment whose sector 4 is bad.\<close>

definition sample_state :: isr_state where
  "sample_state = \<lparr>ft = (blank_info fmt_normal)\<lparr>driver_state := reading, runner_status := running, segments_per_track := 68,
       used_header_segment := -1\<rparr>,
     fdc = \<lparr>fdc_mode = fdc_reading_data, fdc_kind = i82077, fdc_unit = 0, drive_sel = 0,
       buffers = [blank_buffer\<lparr>b_status := reading, b_bad_sector_map := 0x10, b_remaining := 32, b_sector_count := 4,
         b_segment_id := 10, b_next_segment := 11\<rparr>, blank_buffer],
       buffer_head = 0, buffer_tail = 0, fdc_head = 0, fdc_cyl = 0, fdc_sect = 0, current_cylinder = 0, resetting = False,
       expected_stray_interrupts = 0, seek_result = 0, seek_track = 0, interrupt_seen = 0, isr_active = 0,
       stop_read_ahead = False, no_data_error_count = 0, hide_interrupt = False, fdc_cmd = [], gap3 = 0, ffb = 0\<rparr>\<rparr>"

lemma sample_reading: "reading_segment 0x10 sample_state"
  by (auto simp: reading_segment_def sample_state_def ring_ok_def HEAD_def cluster_inv_def transfer_inv_def good_before_def
      blank_buffer_def blank_info_def bit_numeral_rec less_Suc_eq numeral_eq_Suc)


theorem read_segment_completes_witness:
  "\<not> stops sample_state \<and> (\<exists>n s'. n \<le> 32 \<and> run_complete n sample_state = Some s'
    \<and> b_status (buffers (fdc s') ! 0) = buf_done \<and> b_bytes (buffers (fdc s') ! 0) = 1024 * 31
    \<and> buffer_head (fdc s') = 1 \<and> b_segment_id (buffers (fdc s') ! 1) = 11)"
proof -
  have "{i :: nat. i < 32 \<and> \<not> bit (0x10 :: u32) i} = {0 ..< 32} - {4}"
    by (auto simp: bit_numeral_rec less_Suc_eq numeral_eq_Suc)
  then have good: "good_before 0x10 32 = 31" by (simp add: good_before_def)
  have ahead: "\<not> stops sample_state" by (simp add: stops_def sample_state_def HEAD_def blank_buffer_def)
  have "ftape_setup_new_segment (ft sample_state) (next_buffer sample_state) 11 False \<noteq> None"
    by (simp add: ftape_setup_new_segment_def setup_segment_def ftape_get_bad_sector_entry_def Let_def sample_state_def blank_info_def)
  then have "next_looked_up sample_state" by (simp add: next_looked_up_def HEAD_def) (simp add: sample_state_def)
  from read_segment_completes [OF sample_reading _ this] obtain n s' where r: "n \<le> 32" "run_complete n sample_state = Some s'"
      "b_status (buffers (fdc s') ! 0) = buf_done" "b_bytes (buffers (fdc s') ! 0) = 1024 * 31" "buffer_head (fdc s') = 1"
      "b_segment_id (HEAD s') = 11"
    using good ahead by (auto simp: Let_def sample_state_def HEAD_def)
  then show ?thesis using ahead by (auto simp: HEAD_def)
qed

section \<open>The frame of the handler\<close>

lemma finish_segment_frame:
  assumes "finish_segment s mode wr ok = Some s'"
  shows "ring_frame s s'"
proof -
  define s1 where "s1 = set_HEAD (\<lambda>b. b\<lparr>b_bytes := b_ptr b - b_dma_address b, b_status := buf_done\<rparr>) s"
  have "same_head (next_HEAD s1) s'"
    using assms unfolding finish_segment_def Let_def s1_def [symmetric]
    by (auto split: if_splits dest: start_next_segment_frame)
  moreover have "same_head s s1" by (simp add: s1_def same_head_set_HEAD)
  ultimately show ?thesis using ring_frame_before ring_frame_next by blast
qed

lemma abort_buffer_frame: "same_head s t \<Longrightarrow> ring_frame s (abort_buffer t)"
  unfolding abort_buffer_def 
  by (rule ring_frame_before [where t = "set_HEAD (set_status buf_error) t"]) (auto intro: ring_frame_next same_head_set_HEAD)

lemma continue_xfer_frame:
  assumes "continue_xfer t mode skip ok = Some s'" "same_head s t"
  shows "ring_frame s s'"
proof -
  obtain b1 n where c: "ftape_calc_next_cluster (HEAD t) = (b1, n)" by fastforce
  obtain s2 okay where r: "fdc_setup_read_write (set_HEAD (\<lambda>_. b1) t) b1 mode ok = (s2, okay)" by fastforce
  have s1: "same_head s (set_HEAD (\<lambda>_. b1) t)" using assms(2) by (rule same_head_set_HEAD)
  then have "same_head s s2" by (rule same_head_setup(1) [OF r])
  with s1 show ?thesis
    using assms by (auto simp: continue_xfer_def Let_def c r same_head_frame split: if_splits
        intro: abort_buffer_frame same_head_set_HEAD ring_frame_before [OF _ finish_segment_frame])
qed

lemma retry_sector_frame: "same_head s t \<Longrightarrow> ring_frame s (retry_sector t mode skip)"
  by (simp add: retry_sector_def same_head_frame same_head_set_HEAD)

lemma ring_frame_other [simp]:
  "ring_frame s (set_mode m t) = ring_frame s t" "ring_frame s (count_error cause t) = ring_frame s t"
  by (simp_all add: ring_frame_def set_mode_def count_error_def)

lemma set_HEAD_frame_self: "same_head s t \<Longrightarrow> ring_frame s (set_HEAD f t)"
  by (intro same_head_frame same_head_set_HEAD)

lemmas step_frames = retry_sector_frame same_head_set_HEAD set_HEAD_frame_self

lemma verify_step_frame: "verify_step s r cause inp = Some s' \<Longrightarrow> ring_frame s s'"
  unfolding verify_step_def Let_def
  by (auto split: if_splits simp: bind_eq_Some_conv simp: same_head_frame intro!: step_frames elim!: continue_xfer_frame)

lemma read_step_frame:
  assumes "read_step s r cause inp = Some s'"
  shows "ring_frame s s'"
proof -
  obtain b1 t where g: "get_transfer_size (fdc_kind (fdc s) = DITTOEZ) (HEAD s) r cause (irq_residue inp) = (b1, t)" by fastforce
  show ?thesis
    using assms unfolding read_step_def Let_def g prod.case
    by (auto split: if_splits simp: bind_eq_Some_conv simp: same_head_frame intro!: step_frames elim!: continue_xfer_frame)
qed

lemma write_step_frame:
  assumes "write_step s r cause inp = Some s'"
  shows "ring_frame s s'"
proof -
  obtain b1 t where g: "get_transfer_size (fdc_kind (fdc s) = DITTOEZ) (HEAD s) r cause (irq_residue inp) = (b1, t)" by fastforce
  show ?thesis
    using assms unfolding write_step_def Let_def g prod.case
    by (auto split: if_splits simp: same_head_frame intro!: step_frames elim!: continue_xfer_frame)
qed

lemma formatting_frame:
  assumes "same_head s t"
  shows "ring_frame s (continue_formatting t ok)"
proof -
  have err: "same_head u v \<Longrightarrow> same_head u (format_setup_error v)" for u v
    by (simp add: format_setup_error_def same_head_set_HEAD)
  have start: "same_head u (case fdc_setup_formatting v b ok of (v', okay) \<Rightarrow>
      if okay then set_HEAD (set_status formatting) v' else format_setup_error v')" if "same_head u v" for u v b
    using that by (auto split: prod.split intro: err same_head_set_HEAD dest: same_head_setup(2))
  define t1 where "t1 = set_HEAD (set_status buf_done) t"
  have t1: "same_head s t1" using assms by (simp add: t1_def same_head_set_HEAD)
  have nxt: "ring_frame s v" if "same_head (next_HEAD t1) v" for v
    using ring_frame_before [OF t1 ring_frame_next [OF that]] .
  show ?thesis
  proof (cases "b_remaining (HEAD t) = 0")
    case True
    then show ?thesis
    proof (cases "b_next_segment (HEAD t) = 0")
      case False
      with True show ?thesis
        unfolding continue_formatting_def Let_def t1_def [symmetric] by (auto intro!: nxt start err)
    qed (use t1 in \<open>simp add: continue_formatting_def Let_def t1_def [symmetric] same_head_frame\<close>)
  next
    case False
    then show ?thesis using assms unfolding continue_formatting_def Let_def by (auto intro!: same_head_frame start)
  qed
qed

lemma determine_fmt_progress_frame: "determine_fmt_progress s cause residue = (s', g) \<Longrightarrow> same_head s s'"
  by (auto simp: determine_fmt_progress_def same_head_set_HEAD split: if_splits)

lemma mode_step_frame:
  assumes "mode_step s r inp = Some s'"
  shows "ring_frame s s'"
proof -
  have id: "ring_frame s (s\<lparr>fdc := (fdc s)\<lparr>fdc_cyl := a, fdc_head := b, fdc_sect := c\<rparr>\<rparr>)" for a b c
    by (simp add: ring_frame_def)
  show ?thesis
    using assms unfolding mode_step_def Let_def
    by (auto simp: same_head_frame split: fdc_mode_enum.splits if_splits prod.splits
        intro!: id formatting_frame dest!: determine_fmt_progress_frame
        dest: verify_step_frame read_step_frame write_step_frame)
qed

lemma handle_fdc_busy_frame:
  assumes "handle_fdc_busy s inp = Some s'"
  shows "ring_frame s s'"
proof -
  have "ring_frame s (cease_operation t) = ring_frame s t" for t
    by (simp add: cease_operation_def ring_frame_def set_runner_def)
  with assms mode_step_frame [of s] show ?thesis
    by (auto simp: handle_fdc_busy_def same_head_frame split: option.splits)
qed

lemma fdc_reset_senses_buffers:
  "fdc_reset_senses fd i st0 pcn ss = (fd', ss') \<Longrightarrow> buffers fd' = buffers fd \<and> buffer_head fd' = buffer_head fd"
  by (induction fd i st0 pcn ss rule: fdc_reset_senses.induct)
    (subst (asm) (2) fdc_reset_senses.simps, auto simp: Let_def split: if_splits list.splits prod.splits)

lemma sense_loop_buffers: "buffers (sense_loop fd c ss w) = buffers fd \<and> buffer_head (sense_loop fd c ss w) = buffer_head fd"
proof (induction fd c ss w rule: sense_loop.induct)
  case (1 fd c ss w)
  then show ?case
    by (subst (1 2) sense_loop.simps)
      (auto simp: handle_fdc_seek_def handle_stray_interrupt_def Let_def split: list.splits prod.splits dest: fdc_reset_senses_buffers)
qed

text \<open>
  C17. The interrupt handler works on the buffer at the head of the ring and, when that one is
  finished, on its successor, and on no other: whatever the hardware reports, the ring keeps its
  size, the head stays or moves on by one, and every other buffer is left as it was.
\<close>

theorem fdc_isr_frame:
  assumes "fdc_isr s inp = Some s'"
  shows "length (buffers (fdc s')) = length (buffers (fdc s))
    \<and> (buffer_head (fdc s') = buffer_head (fdc s) \<or> buffer_head (fdc s') = (buffer_head (fdc s) + 1) mod length (buffers (fdc s)))
    \<and> (\<forall>i. i \<noteq> buffer_head (fdc s) \<longrightarrow> i \<noteq> buffer_head (fdc s') \<longrightarrow> buffers (fdc s') ! i = buffers (fdc s) ! i)"
proof -
  let ?s = "s\<lparr>fdc := (fdc s)\<lparr>hide_interrupt := False\<rparr>\<rparr>"
  have p: "buffers (fdc (pause_tape t oc)) = buffers (fdc t)" "buffer_head (fdc (pause_tape t oc)) = buffer_head (fdc t)" for t oc
    by (simp_all add: pause_tape_def set_mode_def issue_def Let_def split: cmd_outcome.split)
  have "ring_frame s s'"
    using assms handle_fdc_busy_frame [of ?s inp] sense_loop_buffers [of "fdc ?s" 0 "irq_sense inp" "irq_waiting inp"]
    by (auto simp: fdc_isr_def Let_def bind_eq_Some_conv ring_frame_def p split: if_splits)
  then show ?thesis by (simp add: ring_frame_def)
qed

theorem fdc_isr_frame_witness:
  "\<exists>s'. fdc_isr (set_mode fdc_reading_id sample_state) (irq_complete sample_state) = Some s'
    \<and> buffers (fdc s') ! 1 = blank_buffer \<and> length (buffers (fdc s')) = 2"
proof -
  let ?s = "set_mode fdc_reading_id sample_state"
  obtain s' where s': "fdc_isr ?s (irq_complete sample_state) = Some s'" "buffer_head (fdc s') = 0"
    by (simp add: fdc_isr_def handle_fdc_busy_def mode_step_def irq_complete_def cease_operation_def Let_def
        sample_state_def set_mode_def blank_info_def)
  show ?thesis using s' fdc_isr_frame [OF s'(1)] by (auto simp: sample_state_def set_mode_def)
qed

end
