(* ===== verification/Ft_Field.thy ===== *)
theory Ft_Field
  imports Ft_Prelude
begin

text \<open>
  The Galois field arithmetic of \<open>src/ftape/lowlevel/ftape-ecc.c\<close>: the three tables as the
  source has them, every arithmetic routine over them, and the proof that they compute in the
  field \<open>GF(2)[r] / (r^8 + r^7 + r^2 + r + 1)\<close>. The bytes are made a type \<open>gf\<close> of class
  \<^verbatim>\<open>field\<close> whose operations are the source's own routines, so that the library's ring and
  field automation applies to everything the error correction computes.
\<close>

unbundle bit_operations_syntax

section \<open>The tables and routines of the source\<close>

definition gfpow :: "u8 list" where
  "gfpow =
   [0x01, 0x02, 0x04, 0x08, 0x10, 0x20, 0x40, 0x80,
    0x87, 0x89, 0x95, 0xad, 0xdd, 0x3d, 0x7a, 0xf4,
    0x6f, 0xde, 0x3b, 0x76, 0xec, 0x5f, 0xbe, 0xfb,
    0x71, 0xe2, 0x43, 0x86, 0x8b, 0x91, 0xa5, 0xcd,
    0x1d, 0x3a, 0x74, 0xe8, 0x57, 0xae, 0xdb, 0x31,
    0x62, 0xc4, 0x0f, 0x1e, 0x3c, 0x78, 0xf0, 0x67,
    0xce, 0x1b, 0x36, 0x6c, 0xd8, 0x37, 0x6e, 0xdc,
    0x3f, 0x7e, 0xfc, 0x7f, 0xfe, 0x7b, 0xf6, 0x6b,
    0xd6, 0x2b, 0x56, 0xac, 0xdf, 0x39, 0x72, 0xe4,
    0x4f, 0x9e, 0xbb, 0xf1, 0x65, 0xca, 0x13, 0x26,
    0x4c, 0x98, 0xb7, 0xe9, 0x55, 0xaa, 0xd3, 0x21,
    0x42, 0x84, 0x8f, 0x99, 0xb5, 0xed, 0x5d, 0xba,
    0xf3, 0x61, 0xc2, 0x03, 0x06, 0x0c, 0x18, 0x30,
    0x60, 0xc0, 0x07, 0x0e, 0x1c, 0x38, 0x70, 0xe0,
    0x47, 0x8e, 0x9b, 0xb1, 0xe5, 0x4d, 0x9a, 0xb3,
    0xe1, 0x45, 0x8a, 0x93, 0xa1, 0xc5, 0x0d, 0x1a,
    0x34, 0x68, 0xd0, 0x27, 0x4e, 0x9c, 0xbf, 0xf9,
    0x75, 0xea, 0x53, 0xa6, 0xcb, 0x11, 0x22, 0x44,
    0x88, 0x97, 0xa9, 0xd5, 0x2d, 0x5a, 0xb4, 0xef,
    0x59, 0xb2, 0xe3, 0x41, 0x82, 0x83, 0x81, 0x85,
    0x8d, 0x9d, 0xbd, 0xfd, 0x7d, 0xfa, 0x73, 0xe6,
    0x4b, 0x96, 0xab, 0xd1, 0x25, 0x4a, 0x94, 0xaf,
    0xd9, 0x35, 0x6a, 0xd4, 0x2f, 0x5e, 0xbc, 0xff,
    0x79, 0xf2, 0x63, 0xc6, 0x0b, 0x16, 0x2c, 0x58,
    0xb0, 0xe7, 0x49, 0x92, 0xa3, 0xc1, 0x05, 0x0a,
    0x14, 0x28, 0x50, 0xa0, 0xc7, 0x09, 0x12, 0x24,
    0x48, 0x90, 0xa7, 0xc9, 0x15, 0x2a, 0x54, 0xa8,
    0xd7, 0x29, 0x52, 0xa4, 0xcf, 0x19, 0x32, 0x64,
    0xc8, 0x17, 0x2e, 0x5c, 0xb8, 0xf7, 0x69, 0xd2,
    0x23, 0x46, 0x8c, 0x9f, 0xb9, 0xf5, 0x6d, 0xda,
    0x33, 0x66, 0xcc, 0x1f, 0x3e, 0x7c, 0xf8, 0x77,
    0xee, 0x5b, 0xb6, 0xeb, 0x51, 0xa2, 0xc3, 0x01]"

definition gflog :: "u8 list" where
  "gflog =
   [0xff, 0x00, 0x01, 0x63, 0x02, 0xc6, 0x64, 0x6a,
    0x03, 0xcd, 0xc7, 0xbc, 0x65, 0x7e, 0x6b, 0x2a,
    0x04, 0x8d, 0xce, 0x4e, 0xc8, 0xd4, 0xbd, 0xe1,
    0x66, 0xdd, 0x7f, 0x31, 0x6c, 0x20, 0x2b, 0xf3,
    0x05, 0x57, 0x8e, 0xe8, 0xcf, 0xac, 0x4f, 0x83,
    0xc9, 0xd9, 0xd5, 0x41, 0xbe, 0x94, 0xe2, 0xb4,
    0x67, 0x27, 0xde, 0xf0, 0x80, 0xb1, 0x32, 0x35,
    0x6d, 0x45, 0x21, 0x12, 0x2c, 0x0d, 0xf4, 0x38,
    0x06, 0x9b, 0x58, 0x1a, 0x8f, 0x79, 0xe9, 0x70,
    0xd0, 0xc2, 0xad, 0xa8, 0x50, 0x75, 0x84, 0x48,
    0xca, 0xfc, 0xda, 0x8a, 0xd6, 0x54, 0x42, 0x24,
    0xbf, 0x98, 0x95, 0xf9, 0xe3, 0x5e, 0xb5, 0x15,
    0x68, 0x61, 0x28, 0xba, 0xdf, 0x4c, 0xf1, 0x2f,
    0x81, 0xe6, 0xb2, 0x3f, 0x33, 0xee, 0x36, 0x10,
    0x6e, 0x18, 0x46, 0xa6, 0x22, 0x88, 0x13, 0xf7,
    0x2d, 0xb8, 0x0e, 0x3d, 0xf5, 0xa4, 0x39, 0x3b,
    0x07, 0x9e, 0x9c, 0x9d, 0x59, 0x9f, 0x1b, 0x08,
    0x90, 0x09, 0x7a, 0x1c, 0xea, 0xa0, 0x71, 0x5a,
    0xd1, 0x1d, 0xc3, 0x7b, 0xae, 0x0a, 0xa9, 0x91,
    0x51, 0x5b, 0x76, 0x72, 0x85, 0xa1, 0x49, 0xeb,
    0xcb, 0x7c, 0xfd, 0xc4, 0xdb, 0x1e, 0x8b, 0xd2,
    0xd7, 0x92, 0x55, 0xaa, 0x43, 0x0b, 0x25, 0xaf,
    0xc0, 0x73, 0x99, 0x77, 0x96, 0x5c, 0xfa, 0x52,
    0xe4, 0xec, 0x5f, 0x4a, 0xb6, 0xa2, 0x16, 0x86,
    0x69, 0xc5, 0x62, 0xfe, 0x29, 0x7d, 0xbb, 0xcc,
    0xe0, 0xd3, 0x4d, 0x8c, 0xf2, 0x1f, 0x30, 0xdc,
    0x82, 0xab, 0xe7, 0x56, 0xb3, 0x93, 0x40, 0xd8,
    0x34, 0xb0, 0xef, 0x26, 0x37, 0x0c, 0x11, 0x44,
    0x6f, 0x78, 0x19, 0x9a, 0x47, 0x74, 0xa7, 0xc1,
    0x23, 0x53, 0x89, 0xfb, 0x14, 0x5d, 0xf8, 0x97,
    0x2e, 0x4b, 0xb9, 0x60, 0x0f, 0xed, 0x3e, 0xe5,
    0xf6, 0x87, 0xa5, 0x17, 0x3a, 0xa3, 0x3c, 0xb7]"

definition gfmul_c0 :: "u8 list" where
  "gfmul_c0 =
   [0x00, 0xc0, 0x07, 0xc7, 0x0e, 0xce, 0x09, 0xc9,
    0x1c, 0xdc, 0x1b, 0xdb, 0x12, 0xd2, 0x15, 0xd5,
    0x38, 0xf8, 0x3f, 0xff, 0x36, 0xf6, 0x31, 0xf1,
    0x24, 0xe4, 0x23, 0xe3, 0x2a, 0xea, 0x2d, 0xed,
    0x70, 0xb0, 0x77, 0xb7, 0x7e, 0xbe, 0x79, 0xb9,
    0x6c, 0xac, 0x6b, 0xab, 0x62, 0xa2, 0x65, 0xa5,
    0x48, 0x88, 0x4f, 0x8f, 0x46, 0x86, 0x41, 0x81,
    0x54, 0x94, 0x53, 0x93, 0x5a, 0x9a, 0x5d, 0x9d,
    0xe0, 0x20, 0xe7, 0x27, 0xee, 0x2e, 0xe9, 0x29,
    0xfc, 0x3c, 0xfb, 0x3b, 0xf2, 0x32, 0xf5, 0x35,
    0xd8, 0x18, 0xdf, 0x1f, 0xd6, 0x16, 0xd1, 0x11,
    0xc4, 0x04, 0xc3, 0x03, 0xca, 0x0a, 0xcd, 0x0d,
    0x90, 0x50, 0x97, 0x57, 0x9e, 0x5e, 0x99, 0x59,
    0x8c, 0x4c, 0x8b, 0x4b, 0x82, 0x42, 0x85, 0x45,
    0xa8, 0x68, 0xaf, 0x6f, 0xa6, 0x66, 0xa1, 0x61,
    0xb4, 0x74, 0xb3, 0x73, 0xba, 0x7a, 0xbd, 0x7d,
    0x47, 0x87, 0x40, 0x80, 0x49, 0x89, 0x4e, 0x8e,
    0x5b, 0x9b, 0x5c, 0x9c, 0x55, 0x95, 0x52, 0x92,
    0x7f, 0xbf, 0x78, 0xb8, 0x71, 0xb1, 0x76, 0xb6,
    0x63, 0xa3, 0x64, 0xa4, 0x6d, 0xad, 0x6a, 0xaa,
    0x37, 0xf7, 0x30, 0xf0, 0x39, 0xf9, 0x3e, 0xfe,
    0x2b, 0xeb, 0x2c, 0xec, 0x25, 0xe5, 0x22, 0xe2,
    0x0f, 0xcf, 0x08, 0xc8, 0x01, 0xc1, 0x06, 0xc6,
    0x13, 0xd3, 0x14, 0xd4, 0x1d, 0xdd, 0x1a, 0xda,
    0xa7, 0x67, 0xa0, 0x60, 0xa9, 0x69, 0xae, 0x6e,
    0xbb, 0x7b, 0xbc, 0x7c, 0xb5, 0x75, 0xb2, 0x72,
    0x9f, 0x5f, 0x98, 0x58, 0x91, 0x51, 0x96, 0x56,
    0x83, 0x43, 0x84, 0x44, 0x8d, 0x4d, 0x8a, 0x4a,
    0xd7, 0x17, 0xd0, 0x10, 0xd9, 0x19, 0xde, 0x1e,
    0xcb, 0x0b, 0xcc, 0x0c, 0xc5, 0x05, 0xc2, 0x02,
    0xef, 0x2f, 0xe8, 0x28, 0xe1, 0x21, 0xe6, 0x26,
    0xf3, 0x33, 0xf4, 0x34, 0xfd, 0x3d, 0xfa, 0x3a]"

definition mod255 :: "int \<Rightarrow> u8" where
  "mod255 v = (if v > 0 then (if v < 255 then word_of_int v else word_of_int (v - 255))
     else word_of_int (v + 255))"

definition gfadd :: "u8 \<Rightarrow> u8 \<Rightarrow> u8" where
  "gfadd a b = a XOR b"

definition gfadd_long :: "'l::len word \<Rightarrow> 'l word \<Rightarrow> 'l word" where
  "gfadd_long a b = a XOR b"

definition gfmul :: "u8 \<Rightarrow> u8 \<Rightarrow> u8" where
  "gfmul a b = (if a \<noteq> 0 \<and> b \<noteq> 0
     then gfpow ! unat (mod255 (uint (gflog ! unat a) + uint (gflog ! unat b))) else 0)"

definition gfmul_exp :: "u8 \<Rightarrow> int \<Rightarrow> u8" where
  "gfmul_exp a b = (if a \<noteq> 0 then gfpow ! unat (mod255 (uint (gflog ! unat a) + b)) else 0)"

text \<open>
  \<open>gfmul_exp_long\<close> treats an \<open>unsigned long\<close> as a vector of bytes. \<open>sizeof(long)\<close> is the
  width of the word type; \<open>exp_lane k a b\<close> is the \<open>k\<close>-th conditional expression of the
  source, \<open>((t = a >> 8*k & 0xff) ? gfpow[mod255(gflog[t] + b)] << 8*k : 0)\<close>.
\<close>

definition exp_lane :: "nat \<Rightarrow> 'l::len word \<Rightarrow> int \<Rightarrow> 'l word" where
  "exp_lane k a b = (let t = lane k a in
     if t \<noteq> 0 then push_bit (8 * k) (ucast (gfpow ! unat (mod255 (uint (gflog ! unat t) + b)))) else 0)"

definition gfmul_exp_long :: "'l::len word \<Rightarrow> int \<Rightarrow> 'l word" where
  "gfmul_exp_long a b =
    (if LENGTH('l) = 32 then
       exp_lane 3 a b OR exp_lane 2 a b OR exp_lane 1 a b OR exp_lane 0 a b
     else if LENGTH('l) = 64 then
       exp_lane 7 a b OR exp_lane 6 a b OR exp_lane 5 a b OR exp_lane 4 a b OR
       exp_lane 3 a b OR exp_lane 2 a b OR exp_lane 1 a b OR exp_lane 0 a b
     else -1)"

definition gfdiv :: "u8 \<Rightarrow> u8 \<Rightarrow> u8" where
  "gfdiv a b = (if b = 0 then 0xff else if a = 0 then 0
     else gfpow ! unat (mod255 (uint (gflog ! unat a) - uint (gflog ! unat b))))"

section \<open>Multiplication by \<open>r\<close> and the tables\<close>

text \<open>
  Multiplying a polynomial by \<open>r\<close> shifts it left and reduces it by \<open>f(r)\<close> when the degree
  reaches 8. Everything else is stated over this one reference operation.
\<close>

definition xtime :: "u8 \<Rightarrow> u8" where
  "xtime a = push_bit 1 a XOR (if bit a 7 then 0x87 else 0)"

lemma xtime_xor: "xtime (a XOR b) = xtime a XOR xtime b"
  by (rule bit_word_eqI) (auto simp: xtime_def bit_simps)

lemma xtime_0 [simp]: "xtime 0 = 0"
  by (simp add: xtime_def)

lemma xtimes_xor: "(xtime ^^ n) (a XOR b) = (xtime ^^ n) a XOR (xtime ^^ n) b"
  by (induction n) (simp_all add: xtime_xor)

lemma xtimes_0 [simp]: "(xtime ^^ n) 0 = 0"
  by (induction n) simp_all

lemma table_lengths [simp]: "length gfpow = 256" "length gflog = 256" "length gfmul_c0 = 256"
  by (simp_all add: gfpow_def gflog_def gfmul_c0_def)

lemma gfpow_table: "map xtime (butlast gfpow) = tl gfpow"
  by code_simp

lemma gflog_table: "map (\<lambda>e. gfpow ! unat e) (tl gflog) = map word_of_nat [1..<256]"
  by code_simp

lemma gflog_range: "list_all (\<lambda>e. e < 255) (tl gflog)"
  by code_simp

lemma gflog_gfpow_table: "map (\<lambda>a. gflog ! unat a) (butlast gfpow) = map word_of_nat [0..<255]"
  by code_simp

lemma gfmul_c0_table: "gfmul_c0 = map (\<lambda>a. gfmul 0xc0 (word_of_nat a)) [0..<256]"
  by code_simp

lemma gfpow_Suc: "i < 255 \<Longrightarrow> gfpow ! Suc i = xtime (gfpow ! i)"
  using arg_cong [OF gfpow_table, of "\<lambda>xs. xs ! i"] by (simp add: nth_butlast nth_tl)

lemma gfpow_0 [simp]: "gfpow ! 0 = 1"
  by (simp add: gfpow_def)

lemma gfpow_xtimes: "i < 256 \<Longrightarrow> gfpow ! i = (xtime ^^ i) 1"
  by (induction i) (simp_all add: gfpow_Suc)

lemma xtimes_255_1: "(xtime ^^ 255) 1 = 1"
proof -
  have "gfpow ! 255 = 1" by (simp add: gfpow_def)
  then show ?thesis by (simp only: gfpow_xtimes)
qed

text \<open>The discrete logarithm as a natural number.\<close>

definition glog :: "u8 \<Rightarrow> nat" where
  "glog a = unat (gflog ! unat a)"

lemma uint_gflog: "uint (gflog ! unat a) = int (glog a)"
  by (simp add: glog_def)

lemma glog:
  assumes "a \<noteq> 0"
  shows glog_less: "glog a < 255" and xtimes_glog: "(xtime ^^ glog a) 1 = a"
proof -
  obtain i where i: "unat a = Suc i" using assms by (metis not0_implies_Suc unat_eq_zero)
  have lt: "i < 255" using unsigned_less [of a, where 'a = nat] i by simp
  have a: "a = word_of_nat (Suc i)" by (simp flip: i)
  have "tl gflog ! i < 255" using gflog_range lt by (simp add: list_all_length)
  then show less: "glog a < 255"
    using lt by (simp add: glog_def i nth_tl word_less_nat_alt)
  have "gfpow ! unat (tl gflog ! i) = word_of_nat (Suc i)"
    using arg_cong [OF gflog_table, of "\<lambda>xs. xs ! i"] lt by (simp add: nth_map [of _ "tl gflog"])
  then have "gfpow ! glog a = word_of_nat (Suc i)"
    using lt by (simp add: glog_def i nth_tl)
  then have "gfpow ! glog a = a" by (simp only: a)
  with less show "(xtime ^^ glog a) 1 = a" by (simp flip: gfpow_xtimes)
qed

lemma xtimes_255: "(xtime ^^ 255) a = a"
proof (cases "a = 0")
  case False
  have "(xtime ^^ 255) ((xtime ^^ glog a) 1) = (xtime ^^ glog a) ((xtime ^^ 255) 1)"
    by (metis add.commute funpow_add o_apply)
  then show ?thesis by (simp only: xtimes_255_1 xtimes_glog [OF False])
qed simp

lemma xtimes_mod255: "(xtime ^^ (n mod 255)) a = (xtime ^^ n) a"
proof (induction n rule: less_induct)
  case (less n)
  show ?case
  proof (cases "n < 255")
    case False
    then have "(xtime ^^ n) a = (xtime ^^ (n - 255)) ((xtime ^^ 255) a)"
      by (metis funpow_add le_add_diff_inverse2 not_less o_apply)
    with less [of "n - 255"] False show ?thesis by (simp add: xtimes_255 le_mod_geq)
  qed simp
qed

lemma gfpow_mod255:
  assumes "-255 \<le> v" "v \<le> 509"
  shows "gfpow ! unat (mod255 v) = (xtime ^^ nat (v mod 255)) 1"
proof -
  have "uint (mod255 v) = (if v > 0 then if v < 255 then v else v - 255 else v + 255)"
    using assms by (simp add: mod255_def uint_word_of_int del: of_int_diff of_int_add)
  then have "int (unat (mod255 v) mod 255) = v mod 255"
    using assms by (simp add: zmod_int) presburger
  then have "unat (mod255 v) mod 255 = nat (v mod 255)" by linarith
  moreover have "unat (mod255 v) < 256" using unsigned_less [of "mod255 v", where 'a = nat] by simp
  ultimately show ?thesis by (metis gfpow_xtimes xtimes_mod255)
qed

text \<open>Multiplying by a non-zero constant is a power of the linear map \<open>xtime\<close>.\<close>

lemma gfmul_exp_xtimes:
  assumes "-255 \<le> b" "b \<le> 255"
  shows "gfmul_exp a b = (xtime ^^ nat (b mod 255)) a"
proof (cases "a = 0")
  case False
  note less = glog_less [OF False]
  have "gfmul_exp a b = (xtime ^^ nat ((int (glog a) + b) mod 255)) 1"
    using False assms less by (simp add: gfmul_exp_def uint_gflog gfpow_mod255)
  also have "nat ((int (glog a) + b) mod 255) = (nat (b mod 255) + glog a) mod 255"
  proof -
    have "int ((nat (b mod 255) + glog a) mod 255) = (int (glog a) + b) mod 255"
      by (simp add: zmod_int mod_simps ac_simps)
    then show ?thesis by linarith
  qed
  also have "(xtime ^^ \<dots>) 1 = (xtime ^^ nat (b mod 255)) a"
    using xtimes_glog [OF False] by (simp add: xtimes_mod255 funpow_add)
  finally show ?thesis .
qed (simp add: gfmul_exp_def)

lemma gfmul_eq_exp: "b \<noteq> 0 \<Longrightarrow> gfmul a b = gfmul_exp a (int (glog b))"
  by (simp add: gfmul_def gfmul_exp_def uint_gflog)

lemma gfmul_xtimes: "b \<noteq> 0 \<Longrightarrow> gfmul a b = (xtime ^^ glog b) a"
  using glog_less [of b] by (simp add: gfmul_eq_exp gfmul_exp_xtimes)

lemma gfmul_0 [simp]: "gfmul 0 b = 0" "gfmul a 0 = 0"
  by (simp_all add: gfmul_def)

lemma gfmul_1: "gfmul a 1 = a"
proof -
  have "glog 1 = 0" by (simp add: glog_def gflog_def)
  then show ?thesis by (simp add: gfmul_xtimes)
qed

lemma gfmul_commute: "gfmul a b = gfmul b a"
  by (auto simp: gfmul_def add.commute)

lemma gfmul_xor_left: "gfmul (a XOR b) c = gfmul a c XOR gfmul b c"
  by (cases "c = 0") (simp_all add: gfmul_xtimes xtimes_xor)

lemma gfmul_nonzero: "a \<noteq> 0 \<Longrightarrow> b \<noteq> 0 \<Longrightarrow> gfmul a b \<noteq> 0"
proof
  assume a: "a \<noteq> 0" and b: "b \<noteq> 0" and 0: "gfmul a b = 0"
  let ?n = "255 * (glog b + glog a + 1) - (glog b + glog a)"
  have "(xtime ^^ (glog b + glog a)) 1 = 0"
    using 0 xtimes_glog [OF a] by (simp add: gfmul_xtimes [OF b] funpow_add)
  then have "(xtime ^^ (?n + (glog b + glog a))) 1 = 0"
    by (simp only: funpow_add o_apply xtimes_0)
  moreover have "?n + (glog b + glog a) = 255 * (glog b + glog a + 1)" by simp
  ultimately have "(xtime ^^ (255 * (glog b + glog a + 1) mod 255)) 1 = 0"
    by (simp only: xtimes_mod255)
  then show False by simp
qed

lemma gfmul_assoc: "gfmul (gfmul a b) c = gfmul a (gfmul b c)"
proof (cases "b = 0 \<or> c = 0")
  case False
  then have "gfmul b c \<noteq> 0" by (simp add: gfmul_nonzero)
  have "(xtime ^^ glog (gfmul b c)) 1 = (xtime ^^ (glog c + glog b)) 1"
    using False \<open>gfmul b c \<noteq> 0\<close> by (simp add: xtimes_glog gfmul_xtimes [of c] funpow_add)
  then have ext: "(xtime ^^ glog (gfmul b c)) a = (xtime ^^ (glog c + glog b)) a"
  proof (cases "a = 0")
    case False
    have *: "(xtime ^^ n) a = (xtime ^^ glog a) ((xtime ^^ n) 1)" for n
      using xtimes_glog [OF False] by (metis add.commute funpow_add o_apply)
    assume "(xtime ^^ glog (gfmul b c)) 1 = (xtime ^^ (glog c + glog b)) 1"
    then show ?thesis by (simp only: *)
  qed simp
  show ?thesis
    using False \<open>gfmul b c \<noteq> 0\<close> ext by (simp add: gfmul_xtimes funpow_add)
qed auto

section \<open>The field \<open>gf\<close>\<close>

typedef gf = "UNIV :: u8 set" morphisms byte GF ..

lemma GF_byte [simp]: "GF (byte x) = x" by (rule byte_inverse)
lemma byte_GF [simp]: "byte (GF a) = a" by (simp add: GF_inverse)
lemma GF_eq_iff [simp]: "GF a = GF b \<longleftrightarrow> a = b" by (simp add: GF_inject)

instantiation gf :: field
begin
definition zero_gf where "0 = GF 0"
definition one_gf where "1 = GF 1"
definition plus_gf where "x + y = GF (gfadd (byte x) (byte y))"
definition minus_gf where "x - y = GF (gfadd (byte x) (byte y))" for x y :: gf
definition uminus_gf where "- x = x" for x :: gf
definition times_gf where "x * y = GF (gfmul (byte x) (byte y))"
definition inverse_gf where "inverse x = (if byte x = 0 then 0 else GF (gfdiv 1 (byte x)))"
definition divide_gf where "x div y = x * inverse y" for x y :: gf

instance
proof
  fix a b c :: gf
  show "a * b * c = a * (b * c)" by (simp add: times_gf_def gfmul_assoc)
  show "a * b = b * a" by (simp add: times_gf_def gfmul_commute)
  show "a + b + c = a + (b + c)" by (simp add: plus_gf_def gfadd_def xor.assoc)
  show "a + b = b + a" by (simp add: plus_gf_def gfadd_def xor.commute)
  show "0 + a = a" by (simp add: plus_gf_def gfadd_def zero_gf_def)
  show "- a + a = 0" by (simp add: plus_gf_def gfadd_def zero_gf_def uminus_gf_def)
  show "a - b = a + - b" by (simp add: plus_gf_def minus_gf_def uminus_gf_def)
  show "(a + b) * c = a * c + b * c"
    by (simp add: plus_gf_def times_gf_def gfadd_def gfmul_xor_left)
  show "1 * a = a" by (simp add: times_gf_def one_gf_def gfmul_1 gfmul_commute [of 1])
  show "(0 :: gf) \<noteq> 1" by (simp add: zero_gf_def one_gf_def)
  show "a div b = a * inverse b" by (rule divide_gf_def)
  show "inverse (0 :: gf) = 0" by (simp add: inverse_gf_def zero_gf_def)
  assume "a \<noteq> 0"
  then have nz: "byte a \<noteq> 0" by (metis GF_byte zero_gf_def)
  have l1: "uint (gflog ! unat (1 :: u8)) = 0" by (simp add: gflog_def)
  have "gfdiv 1 (byte a) = gfmul_exp 1 (- int (glog (byte a)))"
    using nz by (simp add: gfdiv_def gfmul_exp_def uint_gflog [of "byte a"] l1 [simplified])
  also have "\<dots> = (xtime ^^ nat (- int (glog (byte a)) mod 255)) 1"
    using glog_less [OF nz] by (simp add: gfmul_exp_xtimes)
  finally have "gfmul (gfdiv 1 (byte a)) (byte a)
      = (xtime ^^ (glog (byte a) + nat (- int (glog (byte a)) mod 255))) 1"
    by (simp add: gfmul_xtimes [OF nz] funpow_add)
  also have "(glog (byte a) + nat (- int (glog (byte a)) mod 255)) mod 255 = 0"
  proof -
    have "int ((glog (byte a) + nat (- int (glog (byte a)) mod 255)) mod 255) = 0"
      by (simp add: zmod_int mod_simps)
    then show ?thesis by linarith
  qed
  then have "(xtime ^^ (glog (byte a) + nat (- int (glog (byte a)) mod 255))) 1 = 1"
    by (metis xtimes_mod255 funpow_0)
  finally show "inverse a * a = 1"
    using nz by (simp add: inverse_gf_def times_gf_def one_gf_def)
qed

end

section \<open>Transfer of the source's routines to the field\<close>

named_theorems gf_transfer

lemma GF_0 [simp, gf_transfer]: "GF 0 = 0" by (simp add: zero_gf_def)
lemma GF_1 [gf_transfer]: "GF 1 = 1" by (simp add: one_gf_def)
lemma GF_add [gf_transfer]: "GF (gfadd a b) = GF a + GF b" by (simp add: plus_gf_def)
lemma GF_xor [gf_transfer]: "GF (a XOR b) = GF a + GF b" by (simp add: plus_gf_def gfadd_def)
lemma GF_mul [gf_transfer]: "GF (gfmul a b) = GF a * GF b" by (simp add: times_gf_def)

lemma GF_eq_0 [simp]: "GF a = 0 \<longleftrightarrow> a = 0" by (metis GF_0 GF_eq_iff)
lemma GF_0_eq [simp]: "0 = GF a \<longleftrightarrow> a = 0" by (metis GF_0 GF_eq_iff)

text \<open>Addition and subtraction coincide.\<close>

lemma gf_uminus [simp]: "- x = (x :: gf)" by (rule uminus_gf_def)
lemma gf_add_self [simp]: "x + x = (0 :: gf)" using add.left_inverse [of x] by simp
lemma gf_add_self2 [simp]: "x + (x + y) = (y :: gf)" by (simp flip: add.assoc)
lemma gf_minus: "x - y = x + (y :: gf)" by (simp add: minus_gf_def plus_gf_def)
lemma gf_add_eq_0: "x + y = 0 \<longleftrightarrow> x = (y :: gf)" by (simp flip: gf_minus)
lemma gf_2: "(2 :: gf) = 0" by (simp only: one_add_one [symmetric] gf_add_self)

definition rr :: gf where "rr = GF 2"

lemma xtime_gfmul: "xtime a = gfmul a 2"
proof -
  have "glog 2 = 1" by (simp add: glog_def gflog_def)
  then show ?thesis by (simp add: gfmul_xtimes)
qed

lemma GF_xtimes [gf_transfer]: "GF ((xtime ^^ n) a) = GF a * rr ^ n"
  by (induction n) (simp_all add: xtime_gfmul GF_mul rr_def)

lemma GF_gfpow: "i < 256 \<Longrightarrow> GF (gfpow ! i) = rr ^ i"
  by (simp add: gfpow_xtimes gf_transfer)

lemma rr_255: "rr ^ 255 = 1"
  using xtimes_255 [of 1] by (metis GF_xtimes GF_1 mult_1)

lemma rr_nonzero [simp]: "rr \<noteq> 0" by (simp add: rr_def)

lemma GF_glog: "a \<noteq> 0 \<Longrightarrow> GF a = rr ^ glog a"
  using xtimes_glog [of a] by (metis GF_xtimes GF_1 mult_1)

lemma rr_power_mod: "rr ^ (n mod 255) = rr ^ n"
  by (metis GF_xtimes GF_1 mult_1 xtimes_mod255)

lemma rr_powi_mod: "rr ^ nat (v mod 255) = rr powi v"
proof -
  have "rr powi v = rr powi (255 * (v div 255) + v mod 255)" by simp
  also have "\<dots> = (rr powi 255) powi (v div 255) * rr powi (v mod 255)"
    by (simp only: power_int_add rr_nonzero power_int_mult simp_thms)
  also have "rr powi 255 = 1" using rr_255 by (simp add: power_int_def)
  also have "rr powi (v mod 255) = rr ^ nat (v mod 255)" by (simp add: power_int_def)
  finally show ?thesis by simp
qed

lemma GF_gfpow_mod255:
  "-255 \<le> v \<Longrightarrow> v \<le> 509 \<Longrightarrow> GF (gfpow ! unat (mod255 v)) = rr powi v"
  by (simp add: gfpow_mod255 GF_xtimes GF_1 rr_powi_mod)

lemma GF_mul_exp [gf_transfer]:
  "-255 \<le> b \<Longrightarrow> b \<le> 255 \<Longrightarrow> GF (gfmul_exp a b) = GF a * rr powi b"
  by (simp add: gfmul_exp_xtimes GF_xtimes rr_powi_mod)

lemma GF_div [gf_transfer]:
  assumes "b \<noteq> 0"
  shows "GF (gfdiv a b) = GF a / GF b"
proof (cases "a = 0")
  case False
  have "GF (gfdiv a b) = rr powi (int (glog a) - int (glog b))"
    using False assms glog_less [OF False] glog_less [OF assms]
    by (simp add: gfdiv_def uint_gflog GF_gfpow_mod255)
  also have "\<dots> = rr ^ glog a / rr ^ glog b"
    by (simp add: power_int_diff)
  finally show ?thesis using False assms by (simp add: GF_glog)
qed (simp add: gfdiv_def assms GF_0)

lemma glog_gfpow: "i < 255 \<Longrightarrow> glog (gfpow ! i) = i"
  using arg_cong [OF gflog_gfpow_table, of "\<lambda>xs. xs ! i"]
  by (simp add: nth_butlast glog_def unat_of_nat)

lemma rr_power_inject:
  assumes "i < 255" "j < 255"
  shows "rr ^ i = rr ^ j \<longleftrightarrow> i = j"
proof
  assume "rr ^ i = rr ^ j"
  then have "GF (gfpow ! i) = GF (gfpow ! j)" using assms by (simp add: GF_gfpow)
  then have "glog (gfpow ! i) = glog (gfpow ! j)" by simp
  then show "i = j" using assms by (simp add: glog_gfpow)
qed simp

lemma gfmul_c0_nth [gf_transfer]: "GF (gfmul_c0 ! unat a) = GF 0xc0 * GF a"
proof -
  have "unat a < 256" using unsigned_less [of a, where 'a = nat] by simp
  then have "gfmul_c0 ! unat a = gfmul 0xc0 a" by (subst gfmul_c0_table) simp
  then show ?thesis by (simp add: GF_mul)
qed

section \<open>The routines compute polynomial multiplication modulo \<open>f(r)\<close>\<close>

text \<open>
  The reference: schoolbook multiplication of two polynomials over \<open>Z_2\<close>, reduced modulo
  \<open>f(r)\<close> after each shift (\<open>a\<close> times the \<open>k\<close> low terms of \<open>b\<close>).
\<close>

primrec pmul_upto :: "nat \<Rightarrow> u8 \<Rightarrow> u8 \<Rightarrow> u8" where
  "pmul_upto 0 a b = 0"
| "pmul_upto (Suc k) a b = pmul_upto k a b XOR (if bit b k then (xtime ^^ k) a else 0)"

definition pmul :: "u8 \<Rightarrow> u8 \<Rightarrow> u8" where
  "pmul a b = pmul_upto 8 a b"

lemma xtimes_1_push: "k < 8 \<Longrightarrow> (xtime ^^ k) 1 = push_bit k 1"
proof (induction k)
  case (Suc k)
  then have "\<not> bit (push_bit k 1 :: u8) 7" by (auto simp: bit_simps)
  with Suc show ?case by (simp add: xtime_def push_bit_push_bit flip: push_bit_double)
qed simp

lemma gfmul_take_bit: "k \<le> 8 \<Longrightarrow> gfmul a (take_bit k b) = pmul_upto k a b"
proof (induction k)
  case (Suc k)
  have "take_bit (Suc k) b = take_bit k b XOR (if bit b k then push_bit k 1 else 0)"
    by (rule bit_word_eqI) (auto simp: bit_simps less_Suc_eq)
  moreover have "GF (gfmul a (push_bit k 1)) = GF ((xtime ^^ k) a)"
    using Suc.prems
    by (simp only: GF_mul GF_xtimes GF_1 mult_1 xtimes_1_push [symmetric] less_eq_Suc_le)
  then have "gfmul a (push_bit k 1) = (xtime ^^ k) a" by simp
  ultimately show ?case
    using Suc by (simp add: gfmul_commute [of a] gfmul_xor_left)
qed simp

text \<open>
  C23. The table-driven product \<open>gfmul\<close> is the product of polynomials over \<open>Z_2\<close> modulo \<open>f(r)\<close>,
  for all 65536 pairs of bytes.
\<close>

theorem gfmul_pmul: "gfmul a b = pmul a b"
  using gfmul_take_bit [of 8 a b] by (simp add: pmul_def take_bit_word_eq_self)

section \<open>Vectors of bytes in a machine word\<close>

lemma lane_exp_lane [lane_simps]:
  fixes a :: "'l::len word"
  assumes "8 * k + 8 \<le> LENGTH('l)"
  shows "lane j (exp_lane k a b) = (if j = k then gfmul_exp (lane k a) b else 0)"
  using assms by (simp add: exp_lane_def Let_def lane_place lane_0 gfmul_exp_def)

lemma less_8_cases: "(k :: nat) < 8 \<longleftrightarrow> k = 0 \<or> k = 1 \<or> k = 2 \<or> k = 3 \<or> k = 4 \<or> k = 5 \<or> k = 6 \<or> k = 7"
  by auto

lemma less_4_cases: "(k :: nat) < 4 \<longleftrightarrow> k = 0 \<or> k = 1 \<or> k = 2 \<or> k = 3"
  by auto

text \<open>The word-parallel product acts on every byte as \<open>gfmul_exp\<close> does.\<close>

lemma lane_gfmul_exp_long [lane_simps]:
  fixes a :: "'l::len word"
  assumes "LENGTH('l) = 32 \<or> LENGTH('l) = 64" and "8 * k < LENGTH('l)"
  shows "lane k (gfmul_exp_long a b) = gfmul_exp (lane k a) b"
  using assms(1)
proof
  assume L: "LENGTH('l) = 32"
  with assms(2) have "k < 4" by simp
  with L show ?thesis
    unfolding less_4_cases by (auto simp: gfmul_exp_long_def lane_or lane_exp_lane)
next
  assume L: "LENGTH('l) = 64"
  with assms(2) have "k < 8" by simp
  with L show ?thesis
    unfolding less_8_cases by (auto simp: gfmul_exp_long_def lane_or lane_exp_lane)
qed

text \<open>
  C24. Word-parallel arithmetic: \<open>gfmul_exp_long\<close> multiplies each byte of a long of four or eight
  bytes by \<open>r ^ b\<close>, for positive and negative exponents, without any carry between the bytes.
\<close>

theorem gfmul_exp_long_bytes:
  fixes a :: "'l::len word"
  assumes "LENGTH('l) = 32 \<or> LENGTH('l) = 64" and "k < LENGTH('l) div 8"
    and "-255 \<le> b" "b \<le> 255"
  shows "GF (lane k (gfmul_exp_long a b)) = GF (lane k a) * rr powi b"
  using assms by (subst lane_gfmul_exp_long) (auto simp: GF_mul_exp)

theorem gfmul_exp_long_bytes_witness:
  "GF (lane 3 (gfmul_exp_long (0xff0012345678 :: 64 word) (-7))) = GF (lane 3 (0xff0012345678 :: 64 word)) * rr powi (-7)"
  using gfmul_exp_long_bytes [where 'l = 64 and k = 3 and b = "-7" and a = "0xff0012345678"] by simp

end
