(* ===== verification/Ft_Ecc.thy ===== *)
theory Ft_Ecc
  imports Ft_Field
begin

text \<open>
  The Reed-Solomon error correction of \<open>src/ftape/lowlevel/ftape-ecc.c\<close>. A segment is an
  array of rows (sectors) of 1024 bytes; every column of it is a code word of the code with
  generator \<open>g(x) = (x - r^-1)(x - 1)(x - r)\<close>, its last three bytes being the parity. This
  theory holds the routines of the source. \<open>Ft_Ecc_Column\<close> proves what they do to one column and
  \<open>Ft_Ecc_Segment\<close> what they do to a whole segment.

  The routines that work on an \<open>unsigned long\<close> are polymorphic in the word type, whose width is
  \<open>8 * sizeof(long)\<close>. The little-endian branch of the source is modelled.
\<close>

unbundle bit_operations_syntax

section \<open>Matrices and the linear systems\<close>

type_synonym Matrix = "nat \<Rightarrow> nat \<Rightarrow> u8"

definition mat_set :: "Matrix \<Rightarrow> nat \<Rightarrow> nat \<Rightarrow> u8 \<Rightarrow> Matrix" where
  "mat_set A i j v = A(i := (A i)(j := v))"

text \<open>
  Table look-up at an index computed in \<open>int\<close>. The callers keep the index in \<open>0..255\<close>.
\<close>

definition gfpow_at :: "int \<Rightarrow> u8" where
  "gfpow_at i = gfpow ! nat i"

definition gfinv3 :: "int \<Rightarrow> int \<Rightarrow> int \<Rightarrow> Matrix \<Rightarrow> Matrix option" where
  "gfinv3 l0 l1 l2 Ainv =
    (let t20 = gfpow_at (l2 - l0);
         t10 = gfpow_at (l1 - l0);
         t21 = gfpow_at (l2 - l1);
         t12 = gfpow_at (l1 - l2 + 255);
         t01 = gfpow_at (l0 - l1 + 255);
         t02 = gfpow_at (l0 - l2 + 255);
         det = gfadd t20 (gfadd t10 (gfadd t21 (gfadd t12 (gfadd t01 t02))))
     in if det = 0 then None
        else
         (let log_det = 255 - uint (gflog ! unat det);
              A00 = mat_set Ainv 0 0 (gfmul_exp (gfadd (gfpow_at l1) (gfpow_at l2)) log_det);
              A01 = mat_set A00 0 1 (gfmul_exp (gfadd t21 t12) log_det);
              A02 = mat_set A01 0 2 (gfmul_exp (gfadd (gfpow_at (255 - l1)) (gfpow_at (255 - l2))) log_det);
              A10 = mat_set A02 1 0 (gfmul_exp (gfadd (gfpow_at l0) (gfpow_at l2)) log_det);
              A11 = mat_set A10 1 1 (gfmul_exp (gfadd t20 t02) log_det);
              A12 = mat_set A11 1 2 (gfmul_exp (gfadd (gfpow_at (255 - l0)) (gfpow_at (255 - l2))) log_det);
              A20 = mat_set A12 2 0 (gfmul_exp (gfadd (gfpow_at l0) (gfpow_at l1)) log_det);
              A21 = mat_set A20 2 1 (gfmul_exp (gfadd t10 t01) log_det);
              A22 = mat_set A21 2 2 (gfmul_exp (gfadd (gfpow_at (255 - l0)) (gfpow_at (255 - l1))) log_det)
          in Some A22))"

definition gfinv2 :: "int \<Rightarrow> int \<Rightarrow> Matrix \<Rightarrow> Matrix option" where
  "gfinv2 l0 l1 Ainv =
    (let t1 = gfpow_at (255 - l0);
         t2 = gfpow_at (255 - l1);
         det = gfadd t1 t2
     in if det = 0 then None
        else
         (let log_det = 255 - uint (gflog ! unat det);
              A00 = mat_set (mat_set Ainv 1 0 (gfpow_at log_det)) 0 0 (gfpow_at log_det);
              A01 = mat_set A00 0 1 (gfmul_exp t2 log_det);
              A11 = mat_set A01 1 1 (gfmul_exp t1 log_det)
          in Some A11))"

definition gfmat_mul :: "nat \<Rightarrow> Matrix \<Rightarrow> (nat \<Rightarrow> u8) \<Rightarrow> (nat \<Rightarrow> u8) \<Rightarrow> (nat \<Rightarrow> u8)" where
  "gfmat_mul n A s b =
    fold (\<lambda>i b. b(i := fold (\<lambda>j dot_prod. gfadd dot_prod (gfmul (A i j) (s j))) [0..<n] 0)) [0..<n] b"

section \<open>Parity and syndromes\<close>

text \<open>\<open>sizeof(long)\<close> in bytes, and the columns \<open>for (col = 0; col < FT_SECTOR_SIZE; col += sizeof(long))\<close>.\<close>

definition sizeof_long :: "'l::len itself \<Rightarrow> nat" where
  "sizeof_long t = LENGTH('l) div 8"

definition long_columns :: "'l::len itself \<Rightarrow> nat list" where
  "long_columns t = map (\<lambda>k. k * sizeof_long t) [0..<FT_SECTOR_SIZE div sizeof_long t]"

definition c0_lane :: "nat \<Rightarrow> 'l::len word \<Rightarrow> 'l word" where
  "c0_lane k t = push_bit (8 * k) (ucast (gfmul_c0 ! unat (lane k t)))"

text \<open>
  Each byte of \<open>t1\<close> times \<open>0xc0\<close>. The driver is built for longs of 4 or 8 bytes only; for any
  other width the source prints an error and gives up.
\<close>

definition mul_c0_long :: "'l::len word \<Rightarrow> 'l word" where
  "mul_c0_long t1 =
    (if LENGTH('l) = 32 then c0_lane 3 t1 OR c0_lane 2 t1 OR c0_lane 1 t1 OR c0_lane 0 t1
     else if LENGTH('l) = 64 then
       c0_lane 7 t1 OR c0_lane 6 t1 OR c0_lane 5 t1 OR c0_lane 4 t1 OR
       c0_lane 3 t1 OR c0_lane 2 t1 OR c0_lane 1 t1 OR c0_lane 0 t1
     else 0)"

fun parity_step :: "'l::len word \<Rightarrow> 'l word \<times> 'l word \<times> 'l word \<Rightarrow> 'l word \<times> 'l word \<times> 'l word" where
  "parity_step d (p0, p1, p2) =
    (let t1 = gfadd_long d p0; t2 = mul_c0_long t1
     in (gfadd_long t2 p1, gfadd_long t2 p2, t1))"

text \<open>
  \<open>set_parity\<close> reads the longs at \<open>data\<close>, \<open>data + FT_SECTOR_SIZE\<close>, ... and yields the three
  words its callers receive through \<open>p\<close>.
\<close>

definition set_parity :: "bytes \<Rightarrow> nat \<Rightarrow> nat \<Rightarrow> 'l::len word \<times> 'l word \<times> 'l word" where
  "set_parity mem data nblocks =
    fold (\<lambda>i. parity_step (load_le mem (data + i * FT_SECTOR_SIZE) (sizeof_long TYPE('l))))
      [0..<nblocks] (0, 0, 0)"

text \<open>\<open>None\<close> is the return value 1 (all syndromes zero), \<open>Some\<close> the value 0 with \<open>s[0..2]\<close> written.\<close>

definition compute_syndromes :: "bytes \<Rightarrow> nat \<Rightarrow> nat \<Rightarrow> ('l::len word \<times> 'l word \<times> 'l word) option" where
  "compute_syndromes mem data nblocks =
    (case set_parity mem data nblocks of (p0, p1, p2) \<Rightarrow>
      if p0 OR p1 OR p2 \<noteq> 0 then
        Some (gfmul_exp_long (gfadd_long p0 (gfmul_exp_long (gfadd_long p1 (gfmul_exp_long p2 (-1))) (-1)))
                (- int nblocks),
              gfadd_long (gfadd_long p2 p1) p0,
              gfmul_exp_long (gfadd_long p0 (gfmul_exp_long (gfadd_long p1 (gfmul_exp_long p2 1)) 1))
                (int nblocks))
      else None)"

section \<open>Correcting one column\<close>

text \<open>
  The arrays the decoder mutates: the segment's bytes and correction map, and the caller's
  \<open>bad_loc\<close> and \<open>Ainv\<close>, which \<open>correct_block\<close> extends when it locates an error itself.
\<close>

record ecc_state =
  ec_data :: bytes
  ec_map :: u32
  ec_loc :: "nat \<Rightarrow> int"
  ec_Ainv :: Matrix

text \<open>
  The \<open>switch (nbad)\<close>: the new number of locations and the error magnitudes, or \<open>None\<close> where
  the source returns -1.
\<close>

definition block_magnitudes ::
  "int \<Rightarrow> nat \<Rightarrow> (nat \<Rightarrow> u8) \<Rightarrow> ecc_state \<Rightarrow> ecc_state \<times> (nat \<times> (nat \<Rightarrow> u8)) option" where
  "block_magnitudes nblocks nbad s st =
    (if nbad = 0 then
       (if s 0 = 0 then (st, None)
        else
         (let t1 = gfdiv (s 1) (s 0);
              st' = st\<lparr>ec_loc := (ec_loc st)(0 := uint (gflog ! unat t1))\<rparr>
          in if ec_loc st' 0 \<ge> nblocks then (st', None)
             else (st', Some (1, (\<lambda>_. 0)(0 := s 1)))))
     else if nbad = 1 then
       (let t1 = gfadd (gfmul_exp (s 1) (ec_loc st 0)) (s 2);
            t2 = gfadd (gfmul_exp (s 0) (ec_loc st 0)) (s 1)
        in if t1 = 0 \<and> t2 = 0 then
             (let st' = st\<lparr>ec_Ainv := mat_set (ec_Ainv st) 0 0 (gfpow_at (ec_loc st 0))\<rparr>
              in (st', Some (1, gfmat_mul 1 (ec_Ainv st') s (\<lambda>_. 0))))
           else if t1 = 0 \<or> t2 = 0 then (st, None)
           else
            (let st' = st\<lparr>ec_loc := (ec_loc st)(1 := uint (gflog ! unat (gfdiv t1 t2)))\<rparr>
             in if ec_loc st' 1 \<ge> nblocks then (st', None)
                else (case gfinv2 (ec_loc st' 0) (ec_loc st' 1) (ec_Ainv st') of
                        None \<Rightarrow> (st', None)
                      | Some A \<Rightarrow> (st'\<lparr>ec_Ainv := A\<rparr>, Some (2, gfmat_mul 2 A s (\<lambda>_. 0))))))
     else if nbad = 2 \<or> nbad = 3 then (st, Some (nbad, gfmat_mul nbad (ec_Ainv st) s (\<lambda>_. 0)))
     else (st, None))"

text \<open>
  One iteration of the correction loop at the column that starts at \<open>data\<close>: the byte, the map,
  the count and the three check bytes.
\<close>

fun correct_byte ::
  "nat \<Rightarrow> (nat \<Rightarrow> u8) \<Rightarrow> nat \<Rightarrow> ecc_state \<times> int \<times> u8 \<times> u8 \<times> u8 \<Rightarrow> ecc_state \<times> int \<times> u8 \<times> u8 \<times> u8" where
  "correct_byte data error_mag i (st, ncorrected, c0, c1, c2) =
    (let e = error_mag i in
     if e \<noteq> 0 then
       (let l = ec_loc st i;
            pos = data + nat l * FT_SECTOR_SIZE;
            log_error_mag = uint (gflog ! unat e)
        in (st\<lparr>ec_data := (ec_data st)[pos := gfadd (ec_data st ! pos) e],
               ec_map := ec_map st OR push_bit (nat l) 1\<rparr>,
            ncorrected + 1,
            gfadd c0 (gfpow ! unat (mod255 (log_error_mag - l))),
            gfadd c1 e,
            gfadd c2 (gfpow ! unat (mod255 (log_error_mag + l)))))
     else (st, ncorrected, c0, c1, c2))"

definition correct_block ::
  "nat \<Rightarrow> int \<Rightarrow> nat \<Rightarrow> (nat \<Rightarrow> u8) \<Rightarrow> ecc_state \<Rightarrow> ecc_state \<times> int" where
  "correct_block data nblocks nbad s st =
    (case block_magnitudes nblocks nbad s st of
       (st', None) \<Rightarrow> (st', -1)
     | (st', Some (nbad', error_mag)) \<Rightarrow>
         (case fold (correct_byte data error_mag) [0..<nbad'] (st', 0, s 0, s 1, s 2) of
            (st'', ncorrected, c0, c1, c2) \<Rightarrow>
              if c0 \<noteq> 0 \<or> c1 \<noteq> 0 \<or> c2 \<noteq> 0 then (st'', -1) else (st'', ncorrected)))"

section \<open>Whole segments\<close>

record memory_segment =
  marked_bad :: u32
  read_bad :: u32
  blocks :: nat
  ms_data :: bytes
  corrected :: u32

datatype ecc_result = ECC_OK | ECC_CORRECTED | ECC_FAILED

definition BAD_CHECK :: "u32 \<Rightarrow> nat \<Rightarrow> bool" where
  "BAD_CHECK entry sector \<longleftrightarrow> entry AND push_bit sector 1 \<noteq> 0"

fun store_parity :: "bytes \<Rightarrow> nat \<Rightarrow> 'l::len word \<times> 'l word \<times> 'l word \<Rightarrow> bytes" where
  "store_parity mem p (p0, p1, p2) =
    (let n = sizeof_long TYPE('l) in
     store_le (store_le (store_le mem p n p0) (p + FT_SECTOR_SIZE) n p1) (p + 2 * FT_SECTOR_SIZE) n p2)"

definition ftape_ecc_set_segment_parity :: "'l::len itself \<Rightarrow> memory_segment \<Rightarrow> memory_segment" where
  "ftape_ecc_set_segment_parity t mseg =
    mseg\<lparr>ms_data := fold (\<lambda>i mem. store_parity mem ((blocks mseg - 3) * FT_SECTOR_SIZE + i)
        (set_parity mem i (blocks mseg - 3) :: 'l word \<times> 'l word \<times> 'l word))
      (long_columns t) (ms_data mseg)\<rparr>"

text \<open>The erasures recorded in \<open>read_bad\<close>, in ascending order; \<open>None\<close> for more than three.\<close>

definition find_erasures :: "memory_segment \<Rightarrow> nat list option" where
  "find_erasures mseg =
    (if read_bad mseg = 0 then Some []
     else fold (\<lambda>i acc. case acc of None \<Rightarrow> None
         | Some locs \<Rightarrow> if BAD_CHECK (read_bad mseg) i then
             (if length locs \<ge> 3 then None else Some (locs @ [i])) else Some locs)
       [0..<blocks mseg] (Some []))"

text \<open>The loop over the bytes of one long: \<open>None\<close> is the early return of \<open>ECC_FAILED\<close>.\<close>

primrec correct_lanes ::
  "nat \<Rightarrow> nat \<Rightarrow> int \<Rightarrow> nat \<Rightarrow> 'l::len word \<times> 'l word \<times> 'l word \<Rightarrow> ecc_state \<times> int
    \<Rightarrow> ecc_state \<times> int option" where
  "correct_lanes 0 data nblocks nerasures ss r = (fst r, Some (snd r))"
| "correct_lanes (Suc n) data nblocks nerasures ss r =
    (case ss of (ss0, ss1, ss2) \<Rightarrow> case r of (st, ncorrected) \<Rightarrow>
      let s = (\<lambda>_. 0)(0 := ucast ss0, 1 := ucast ss1, 2 := ucast ss2);
          ss' = (drop_bit 8 ss0, drop_bit 8 ss1, drop_bit 8 ss2)
      in if s 0 OR s 1 OR s 2 \<noteq> 0 then
           (case correct_block data nblocks nerasures s st of
              (st', result) \<Rightarrow> if result < 0 then (st', None)
                else correct_lanes n (Suc data) nblocks nerasures ss' (st', ncorrected + result))
         else correct_lanes n (Suc data) nblocks nerasures ss' (st, ncorrected))"

text \<open>
  The \<open>do ... while\<close> over the columns that are left, skipping those whose syndromes are zero.
\<close>

primrec correct_columns ::
  "'l::len itself \<Rightarrow> nat list \<Rightarrow> nat \<Rightarrow> nat \<Rightarrow> ecc_state \<times> int \<Rightarrow> ecc_state \<times> int option" where
  "correct_columns t [] nblocks nerasures r = (fst r, Some (snd r))"
| "correct_columns t (col # cols) nblocks nerasures r =
    (case compute_syndromes (ec_data (fst r)) col nblocks :: ('l word \<times> 'l word \<times> 'l word) option of
       None \<Rightarrow> correct_columns t cols nblocks nerasures r
     | Some ss \<Rightarrow>
         (case correct_lanes (sizeof_long t) col (int nblocks) nerasures ss r of
            (st', None) \<Rightarrow> (st', None)
          | (st', Some n) \<Rightarrow> correct_columns t cols nblocks nerasures (st', n)))"

definition ftape_ecc_correct_data :: "'l::len itself \<Rightarrow> memory_segment \<Rightarrow> memory_segment \<times> ecc_result" where
  "ftape_ecc_correct_data t mseg0 =
    (let mseg = mseg0\<lparr>corrected := 0\<rparr>;
         bad_cols = dropWhile (\<lambda>col. (compute_syndromes (ms_data mseg) col (blocks mseg)
             :: ('l word \<times> 'l word \<times> 'l word) option) = None) (long_columns t)
     in if bad_cols = [] then (mseg, ECC_OK)
        else case find_erasures mseg of
          None \<Rightarrow> (mseg, ECC_FAILED)
        | Some locs \<Rightarrow>
            (let nerasures = length locs;
                 erasure_loc = (\<lambda>i. if i < nerasures then int (locs ! i) else 0);
                 Ainv0 = (\<lambda>_ _. 0);
                 inv = (if nerasures = 2 then gfinv2 (erasure_loc 0) (erasure_loc 1) Ainv0
                        else if nerasures = 3 then
                          gfinv3 (erasure_loc 0) (erasure_loc 1) (erasure_loc 2) Ainv0
                        else Some Ainv0)
             in case inv of
                  None \<Rightarrow> (mseg, ECC_FAILED)
                | Some Ainv \<Rightarrow>
                    (case correct_columns t bad_cols (blocks mseg) nerasures
                       (\<lparr>ec_data = ms_data mseg, ec_map = 0, ec_loc = erasure_loc, ec_Ainv = Ainv\<rparr>, 0) of
                       (st, None) \<Rightarrow>
                         (mseg\<lparr>ms_data := ec_data st, corrected := ec_map st\<rparr>, ECC_FAILED)
                     | (st, Some ncorrected) \<Rightarrow>
                         (mseg\<lparr>ms_data := ec_data st, corrected := ec_map st\<rparr>,
                          if ncorrected \<noteq> 0 then ECC_CORRECTED else ECC_OK))))"

end
