(* ===== verification/Ft_Ecc_Column.thy ===== *)
theory Ft_Ecc_Column
  imports Ft_Ecc
begin

text \<open>
  One column of a segment. The linear feed-back register of \<open>set_parity\<close> computes a remainder, so
  that \<open>compute_syndromes\<close> evaluates the column at the three roots of the generator; \<open>gfinv2\<close> and
  \<open>gfinv3\<close> solve the linear systems of two and three known locations; and \<open>correct_block\<close> restores
  the column whenever its unknown errors are few enough.
\<close>

unbundle bit_operations_syntax

section \<open>The code, algebraically\<close>

text \<open>The column that starts at byte \<open>c\<close>, over \<open>n\<close> rows, as a polynomial evaluated at \<open>x\<close>.\<close>

definition col_eval :: "bytes \<Rightarrow> nat \<Rightarrow> nat \<Rightarrow> gf \<Rightarrow> gf" where
  "col_eval mem c n x = (\<Sum>i<n. GF (mem ! (c + i * FT_SECTOR_SIZE)) * x ^ i)"

definition cc :: gf where "cc = GF 0xc0"

lemma inverse_rr: "inverse rr = GF 0xc3"
proof -
  have "rr * GF 0xc3 = 1"
    unfolding rr_def times_gf_def one_gf_def byte_GF GF_eq_iff by code_simp
  then show ?thesis by (simp add: inverse_unique)
qed

text \<open>
  The linear feed-back register of \<open>set_parity\<close> divides by \<open>g(x)\<close>. The only fact it needs of a
  root \<open>x\<close> of \<open>g(x) = x^3 + r^105 x^2 + r^105 x + 1\<close> is this equation.
\<close>

locale parity_root =
  fixes x :: gf
  assumes root: "x ^ 3 + cc * x ^ 2 + cc * x + 1 = 0"
begin

lemma feedback: "x * (cc + cc * x + x ^ 2) = 1"
proof -
  have "x * (cc + cc * x + x ^ 2) + 1 = 0"
    using root by (simp add: algebra_simps power2_eq_square power3_eq_cube)
  then show ?thesis by (simp add: gf_add_eq_0)
qed

lemma register_step:
  assumes "e = x ^ n * (p0 + p1 * x + p2 * x ^ 2)"
  shows "e + m * x ^ n = x ^ Suc n * ((cc * (m + p0) + p1) + (cc * (m + p0) + p2) * x + (m + p0) * x ^ 2)"
proof -
  have "x ^ Suc n * ((cc * (m + p0) + p1) + (cc * (m + p0) + p2) * x + (m + p0) * x ^ 2)
      = x ^ n * (x * (cc + cc * x + x ^ 2) * (m + p0) + p1 * x + p2 * x ^ 2)"
    by (simp add: algebra_simps power2_eq_square)
  also have "\<dots> = e + m * x ^ n"
    unfolding feedback assms by (simp add: algebra_simps)
  finally show ?thesis by simp
qed

end

lemma lane_c0_lane [lane_simps]:
  fixes t :: "'l::len word"
  assumes "8 * k + 8 \<le> LENGTH('l)"
  shows "lane j (c0_lane k t) = (if j = k then gfmul_c0 ! unat (lane k t) else 0)"
  using assms by (simp add: c0_lane_def lane_place)

abbreviation long_ok :: "'l::len itself \<Rightarrow> bool" where
  "long_ok t \<equiv> LENGTH('l) = 32 \<or> LENGTH('l) = 64"

lemma sizeof_long_lane: "long_ok TYPE('l::len) \<Longrightarrow> 8 * k < LENGTH('l) \<longleftrightarrow> k < sizeof_long TYPE('l)"
  by (auto simp: sizeof_long_def)

lemma sizeof_long_cases: "long_ok TYPE('l::len) \<Longrightarrow> sizeof_long TYPE('l) = 4 \<or> sizeof_long TYPE('l) = 8"
  by (auto simp: sizeof_long_def)

lemma lane_mul_c0_long [lane_simps]:
  fixes t :: "'l::len word"
  assumes "long_ok TYPE('l)" and "k < sizeof_long TYPE('l)"
  shows "GF (lane k (mul_c0_long t)) = cc * GF (lane k t)"
proof -
  have "lane k (mul_c0_long t) = gfmul_c0 ! unat (lane k t)"
    using assms(1)
  proof
    assume L: "LENGTH('l) = 32"
    with assms(2) have "k < 4" by (simp add: sizeof_long_def)
    with L show ?thesis
      unfolding less_4_cases by (auto simp: mul_c0_long_def lane_or lane_c0_lane)
  next
    assume L: "LENGTH('l) = 64"
    with assms(2) have "k < 8" by (simp add: sizeof_long_def)
    with L show ?thesis
      unfolding less_8_cases by (auto simp: mul_c0_long_def lane_or lane_c0_lane)
  qed
  then show ?thesis by (simp add: gfmul_c0_nth cc_def)
qed

lemma set_parity_Suc:
  "(set_parity mem data (Suc n) :: 'l::len word \<times> 'l word \<times> 'l word) =
    parity_step (load_le mem (data + n * FT_SECTOR_SIZE) (sizeof_long TYPE('l))) (set_parity mem data n)"
  by (simp add: set_parity_def)

context parity_root
begin

lemma set_parity_remainder:
  assumes ok: "long_ok TYPE('l::len)" and k: "k < sizeof_long TYPE('l)"
  shows "set_parity mem data n = (p0, p1, p2 :: 'l word) \<Longrightarrow>
    col_eval mem (data + k) n x = x ^ n * (GF (lane k p0) + GF (lane k p1) * x + GF (lane k p2) * x ^ 2)"
proof (induction n arbitrary: p0 p1 p2)
  case 0
  then show ?case by (simp add: set_parity_def col_eval_def lane_0 GF_0)
next
  case (Suc n)
  obtain q0 q1 q2 :: "'l word" where q: "set_parity mem data n = (q0, q1, q2)"
    by (metis prod_cases3)
  let ?d = "load_le mem (data + n * FT_SECTOR_SIZE) (sizeof_long TYPE('l)) :: 'l word"
  let ?m = "GF (mem ! (data + k + n * FT_SECTOR_SIZE))"
  have d: "GF (lane k ?d) = ?m"
    using ok k by (auto simp: lane_load_le sizeof_long_def ac_simps)
  from Suc.prems q have p: "p0 = mul_c0_long (?d XOR q0) XOR q1" "p1 = mul_c0_long (?d XOR q0) XOR q2"
      "p2 = ?d XOR q0"
    by (auto simp: set_parity_Suc gfadd_long_def Let_def)
  show ?case
    using register_step [OF Suc.IH [OF q], of ?m] ok k d
    by (simp add: p lane_xor GF_xor lane_mul_c0_long col_eval_def ac_simps)
qed

end

lemma gf_byte_eq_iff: "x = y \<longleftrightarrow> byte x = byte y"
  by (metis GF_byte)

lemma cc_roots: "rr ^ 3 + cc * rr ^ 2 + cc * rr + 1 = 0"
  "(1 :: gf) ^ 3 + cc * 1 ^ 2 + cc * 1 + 1 = 0"
  "inverse rr ^ 3 + cc * inverse rr ^ 2 + cc * inverse rr + 1 = 0"
proof -
  have "GF 2 * (GF 2 * GF 2) + cc * (GF 2 * GF 2) + cc * GF 2 + 1 = 0"
    unfolding cc_def times_gf_def plus_gf_def one_gf_def zero_gf_def byte_GF GF_eq_iff by code_simp
  then show "rr ^ 3 + cc * rr ^ 2 + cc * rr + 1 = 0"
    by (simp add: rr_def power2_eq_square power3_eq_cube mult.assoc)
  show "(1 :: gf) ^ 3 + cc * 1 ^ 2 + cc * 1 + 1 = 0"
    by (simp add: add.commute [of 1] add.assoc)
  have "GF 0xc3 * (GF 0xc3 * GF 0xc3) + cc * (GF 0xc3 * GF 0xc3) + cc * GF 0xc3 + 1 = 0"
    unfolding cc_def times_gf_def plus_gf_def one_gf_def zero_gf_def byte_GF GF_eq_iff by code_simp
  then show "inverse rr ^ 3 + cc * inverse rr ^ 2 + cc * inverse rr + 1 = 0"
    by (simp add: inverse_rr power2_eq_square power3_eq_cube mult.assoc)
qed

interpretation root_rr: parity_root rr by unfold_locales (rule cc_roots)
interpretation root_1: parity_root 1 by unfold_locales (rule cc_roots)
interpretation root_inv: parity_root "inverse rr" by unfold_locales (rule cc_roots)

lemma rr_distinct: "rr \<noteq> 1" "inverse rr \<noteq> 1" "rr \<noteq> inverse rr"
  by (simp_all add: inverse_rr one_gf_def) (simp_all add: rr_def)

text \<open>A quadratic with three distinct zeros is zero.\<close>

lemma quadratic_3_zeros:
  fixes x y z :: gf
  assumes d: "x \<noteq> y" "x \<noteq> z" "y \<noteq> z"
    and zx: "p0 + p1 * x + p2 * x ^ 2 = 0" and zy: "p0 + p1 * y + p2 * y ^ 2 = 0"
    and zz: "p0 + p1 * z + p2 * z ^ 2 = 0"
  shows "p0 = 0 \<and> p1 = 0 \<and> p2 = 0"
proof -
  have "(x - y) * (p1 + p2 * (x + y)) = (p0 + p1 * x + p2 * x ^ 2) - (p0 + p1 * y + p2 * y ^ 2)"
    by (simp add: algebra_simps power2_eq_square)
  then have a: "p1 + p2 * (x + y) = 0" using d zx zy by simp
  have "(x - z) * (p1 + p2 * (x + z)) = (p0 + p1 * x + p2 * x ^ 2) - (p0 + p1 * z + p2 * z ^ 2)"
    by (simp add: algebra_simps power2_eq_square)
  then have b: "p1 + p2 * (x + z) = 0" using d zx zz by simp
  have "p2 * (y - z) = (p1 + p2 * (x + y)) - (p1 + p2 * (x + z))" by (simp add: algebra_simps)
  then have "p2 = 0" using a b d by simp
  with a zx show ?thesis by simp
qed

text \<open>The column's polynomial vanishes at the three roots: the column is a code word.\<close>

definition codeword :: "bytes \<Rightarrow> nat \<Rightarrow> nat \<Rightarrow> bool" where
  "codeword mem c n \<longleftrightarrow>
    col_eval mem c n (inverse rr) = 0 \<and> col_eval mem c n 1 = 0 \<and> col_eval mem c n rr = 0"

lemma set_parity_zero_iff:
  assumes "long_ok TYPE('l::len)" "k < sizeof_long TYPE('l)"
    and p: "set_parity mem data n = (p0, p1, p2 :: 'l word)"
  shows "codeword mem (data + k) n \<longleftrightarrow> lane k p0 = 0 \<and> lane k p1 = 0 \<and> lane k p2 = 0"
proof -
  note rem = root_inv.set_parity_remainder [OF assms] root_1.set_parity_remainder [OF assms]
    root_rr.set_parity_remainder [OF assms]
  show ?thesis
    using quadratic_3_zeros [of rr 1 "inverse rr" "GF (lane k p0)" "GF (lane k p1)" "GF (lane k p2)"]
      rr_distinct
    by (auto simp: codeword_def rem GF_0)
qed

lemma word_0_lanes:
  assumes "long_ok TYPE('l::len)"
  shows "(w :: 'l word) = 0 \<longleftrightarrow> (\<forall>k < sizeof_long TYPE('l). lane k w = 0)"
proof
  assume *: "\<forall>k < sizeof_long TYPE('l). lane k w = 0"
  show "w = 0"
    by (rule word_eq_lanesI) (simp add: * lane_0 sizeof_long_lane [OF assms])
qed (simp add: lane_0)

lemma compute_syndromes_None:
  assumes "long_ok TYPE('l::len)"
  shows "(compute_syndromes mem data n :: ('l word \<times> 'l word \<times> 'l word) option) = None
    \<longleftrightarrow> (\<forall>k < sizeof_long TYPE('l). codeword mem (data + k) n)"
proof -
  obtain p0 p1 p2 :: "'l word" where p: "set_parity mem data n = (p0, p1, p2)" by (metis prod_cases3)
  have "(compute_syndromes mem data n :: ('l word \<times> 'l word \<times> 'l word) option) = None
      \<longleftrightarrow> p0 = 0 \<and> p1 = 0 \<and> p2 = 0"
    by (simp add: compute_syndromes_def p or_eq_0_iff)
  then show ?thesis
    unfolding word_0_lanes [OF assms] using set_parity_zero_iff [OF assms _ p] by blast
qed

lemma compute_syndromes_Some:
  assumes ok: "long_ok TYPE('l::len)" and k: "k < sizeof_long TYPE('l)" and n: "n \<le> 255"
    and s: "compute_syndromes mem data n = Some (s0, s1, s2 :: 'l word)"
  shows "GF (lane k s0) = col_eval mem (data + k) n (inverse rr)"
    and "GF (lane k s1) = col_eval mem (data + k) n 1"
    and "GF (lane k s2) = col_eval mem (data + k) n rr"
proof -
  obtain p0 p1 p2 :: "'l word" where p: "set_parity mem data n = (p0, p1, p2)" by (metis prod_cases3)
  note rem = root_inv.set_parity_remainder [OF ok k p] root_1.set_parity_remainder [OF ok k p]
    root_rr.set_parity_remainder [OF ok k p]
  have lt: "8 * k < LENGTH('l)" using ok k by (simp add: sizeof_long_lane)
  have pow: "rr powi (- int n) = inverse rr ^ n" "rr powi int n = rr ^ n" "rr powi -1 = inverse rr" "rr powi 1 = rr"
    by (simp_all add: power_int_minus power_inverse)
  note * = lane_xor lane_gfmul_exp_long [OF ok lt] GF_xor GF_mul_exp pow gfadd_long_def
  from s p have ss: "s0 = gfmul_exp_long (gfadd_long p0 (gfmul_exp_long (gfadd_long p1 (gfmul_exp_long p2 (-1))) (-1))) (- int n)"
    "s1 = gfadd_long (gfadd_long p2 p1) p0"
    "s2 = gfmul_exp_long (gfadd_long p0 (gfmul_exp_long (gfadd_long p1 (gfmul_exp_long p2 1)) 1)) (int n)"
    by (auto simp: compute_syndromes_def split: if_splits)
  show "GF (lane k s0) = col_eval mem (data + k) n (inverse rr)"
    using n by (simp add: ss(1) * rem algebra_simps power2_eq_square)
  show "GF (lane k s1) = col_eval mem (data + k) n 1"
    by (simp add: ss(2) * rem algebra_simps)
  show "GF (lane k s2) = col_eval mem (data + k) n rr"
    using n by (simp add: ss(3) * rem algebra_simps power2_eq_square)
qed

section \<open>Solving for the error magnitudes\<close>

definition X :: "int \<Rightarrow> gf" where "X l = rr powi l"

lemma X_nonzero [simp]: "X l \<noteq> 0" by (simp add: X_def)

lemma X_of_nat: "X (int l) = rr ^ l" "inverse (X (int l)) = inverse rr ^ l"
  by (simp_all add: X_def power_inverse)

lemma X_add: "X (a + b) = X a * X b" by (simp add: X_def power_int_add)
lemma X_diff: "X (a - b) = X a * inverse (X b)" by (simp add: X_def power_int_diff divide_inverse)
lemma X_255 [simp]: "X 255 = 1" using rr_255 by (simp add: X_def power_int_def)

lemma GF_gfpow_at: "0 \<le> i \<Longrightarrow> i \<le> 255 \<Longrightarrow> GF (gfpow_at i) = X i"
  by (simp add: gfpow_at_def GF_gfpow X_def power_int_def)

lemma X_inject: "0 \<le> a \<Longrightarrow> a < 255 \<Longrightarrow> 0 \<le> b \<Longrightarrow> b < 255 \<Longrightarrow> X a = X b \<longleftrightarrow> a = b"
  using rr_power_inject [of "nat a" "nat b"] by (auto simp: X_def power_int_def)

lemma GF_glog_X: "a \<noteq> 0 \<Longrightarrow> GF a = X (uint (gflog ! unat a))"
  by (simp add: uint_gflog X_of_nat GF_glog)

lemma uint_gflog_bounds: "(a :: u8) \<noteq> 0 \<Longrightarrow> 0 \<le> uint (gflog ! unat a) \<and> uint (gflog ! unat a) < 255"
  using glog_less [of a] by (simp add: uint_gflog)

lemma GF_mul_exp_log:
  assumes "d \<noteq> 0"
  shows "GF (gfmul_exp a (255 - uint (gflog ! unat d))) = GF a * inverse (GF d)"
    and "GF (gfpow_at (255 - uint (gflog ! unat d))) = inverse (GF d)"
  using uint_gflog_bounds [OF assms] GF_glog_X [OF assms]
  by (simp_all add: GF_mul_exp GF_gfpow_at X_diff flip: X_def)

lemma GF_mul_exp_X: "-255 \<le> b \<Longrightarrow> b \<le> 255 \<Longrightarrow> GF (gfmul_exp a b) = GF a * X b"
  by (simp add: GF_mul_exp X_def)

lemma mat_set_apply [simp]: "mat_set A i j v i' j' = (if i' = i \<and> j' = j then v else A i' j')"
  by (simp add: mat_set_def)

lemma gfmat_mul_nth:
  assumes "i < n"
  shows "GF (gfmat_mul n A s b i) = (\<Sum>j<n. GF (A i j) * GF (s j))"
proof -
  have dot: "GF (fold (\<lambda>j d. gfadd d (gfmul (A i j) (s j))) [0..<m] 0) = (\<Sum>j<m. GF (A i j) * GF (s j))" for i m
    by (induction m) (simp_all add: GF_0 GF_add GF_mul)
  have "fold (\<lambda>i b. b(i := f i)) [0..<m] b i = (if i < m then f i else b i)" for f :: "nat \<Rightarrow> u8" and m b
    by (induction m) auto
  with assms show ?thesis by (simp add: gfmat_mul_def dot)
qed

lemma sum_lessThan_2: "(\<Sum>j<2. f j) = f 0 + f (1 :: nat)" by (simp add: numeral_2_eq_2)
lemma sum_lessThan_3: "(\<Sum>j<3. f j) = f 0 + f 1 + f (2 :: nat)" by (simp add: numeral_3_eq_3 numeral_2_eq_2)

text \<open>The two-erasure system: \<open>u\<close>, \<open>v\<close> are the inverses of the locators.\<close>

lemma solve2:
  fixes u v e0 e1 :: gf
  assumes "u + v \<noteq> 0"
  shows "inverse (u + v) * (e0 * u + e1 * v) + v * inverse (u + v) * (e0 + e1) = e0"
    and "inverse (u + v) * (e0 * u + e1 * v) + u * inverse (u + v) * (e0 + e1) = e1"
proof -
  have "inverse (u + v) * (e0 * u + e1 * v) + v * inverse (u + v) * (e0 + e1)
      = (inverse (u + v) * (u + v)) * e0"
    by (simp add: algebra_simps)
  then show "inverse (u + v) * (e0 * u + e1 * v) + v * inverse (u + v) * (e0 + e1) = e0"
    using assms by simp
  have "inverse (u + v) * (e0 * u + e1 * v) + u * inverse (u + v) * (e0 + e1)
      = (inverse (u + v) * (u + v)) * e1"
    by (simp add: algebra_simps)
  then show "inverse (u + v) * (e0 * u + e1 * v) + u * inverse (u + v) * (e0 + e1) = e1"
    using assms by simp
qed

lemma gfinv2_solves:
  assumes l: "0 \<le> l0" "l0 < 255" "0 \<le> l1" "l1 < 255" "l0 \<noteq> l1"
    and s: "GF (s 0) = e0 * inverse (X l0) + e1 * inverse (X l1)" "GF (s 1) = e0 + e1"
  obtains A where "gfinv2 l0 l1 Ainv = Some A"
    and "GF (gfmat_mul 2 A s b 0) = e0" and "GF (gfmat_mul 2 A s b 1) = e1"
proof -
  let ?t1 = "gfpow_at (255 - l0)" and ?t2 = "gfpow_at (255 - l1)"
  have t: "GF ?t1 = inverse (X l0)" "GF ?t2 = inverse (X l1)"
    using l by (simp_all add: GF_gfpow_at X_diff)
  have "X l0 \<noteq> X l1" using l by (simp add: X_inject)
  then have d2: "GF ?t1 + GF ?t2 \<noteq> 0" by (simp add: t gf_add_eq_0)
  then have d: "gfadd ?t1 ?t2 \<noteq> 0" by (metis GF_add GF_eq_0)
  then obtain A where A: "gfinv2 l0 l1 Ainv = Some A"
    by (simp add: gfinv2_def Let_def)
  have "GF (gfmat_mul 2 A s b 0) = e0" "GF (gfmat_mul 2 A s b 1) = e1"
    using A d solve2 [OF d2, of e0 e1]
    by (auto simp: gfinv2_def Let_def gfmat_mul_nth sum_lessThan_2 GF_mul_exp_log GF_add s t
        simp del: One_nat_def)
  with A that show ?thesis by blast
qed

text \<open>The three-erasure system: \<open>a\<close>, \<open>b\<close>, \<open>c\<close> are the locators, \<open>a'\<close>, \<open>b'\<close>, \<open>c'\<close> their inverses.\<close>

lemma solve3_coeff:
  fixes a b c a' b' c' :: gf
  shows "(b + c) * a' + (c * b' + b * c') + (b' + c') * a
      = c * a' + (b * a' + (c * b' + (b * c' + (a * b' + a * c'))))"
    and "(b + c) * b' + (c * b' + b * c') + (b' + c') * b = 0"
  by (simp_all add: algebra_simps)

lemma solve3_det:
  fixes a b c a' b' c' :: gf
  assumes "a * a' = 1" "b * b' = 1" "c * c' = 1"
  shows "(c * a' + (b * a' + (c * b' + (b * c' + (a * b' + a * c'))))) * (a * b * c)
      = (a + b) * (a + c) * (b + c)"
proof -
  have "(c * a' + (b * a' + (c * b' + (b * c' + (a * b' + a * c'))))) * (a * b * c)
      = (a * a') * (b * c * c + b * b * c) + (b * b') * (a * c * c + a * a * c)
        + (c * c') * (a * b * b + a * a * b)"
    by (simp add: algebra_simps)
  then show ?thesis by (simp add: assms algebra_simps)
qed

lemma solve3:
  fixes a b c a' b' c' e0 e1 e2 D :: gf
  assumes "D \<noteq> 0" and D: "D = c * a' + (b * a' + (c * b' + (b * c' + (a * b' + a * c'))))"
  shows "(b + c) * inverse D * (e0 * a' + e1 * b' + e2 * c') + (c * b' + b * c') * inverse D * (e0 + e1 + e2)
     + (b' + c') * inverse D * (e0 * a + e1 * b + e2 * c) = e0"
proof -
  have "(b + c) * inverse D * (e0 * a' + e1 * b' + e2 * c') + (c * b' + b * c') * inverse D * (e0 + e1 + e2)
     + (b' + c') * inverse D * (e0 * a + e1 * b + e2 * c)
    = inverse D * (e0 * ((b + c) * a' + (c * b' + b * c') + (b' + c') * a)
        + e1 * ((b + c) * b' + (c * b' + b * c') + (b' + c') * b)
        + e2 * ((c + b) * c' + (b * c' + c * b') + (c' + b') * c))"
    by (simp add: algebra_simps)
  also have "\<dots> = inverse D * (e0 * D)"
    unfolding solve3_coeff(2) unfolding solve3_coeff(1) unfolding D by simp
  finally show ?thesis using assms(1) by simp
qed

lemma gfinv3_solves:
  assumes l: "0 \<le> l0" "l0 < l1" "l1 < l2" "l2 < 255"
    and s: "GF (s 0) = e0 * inverse (X l0) + e1 * inverse (X l1) + e2 * inverse (X l2)"
      "GF (s 1) = e0 + e1 + e2" "GF (s 2) = e0 * X l0 + e1 * X l1 + e2 * X l2"
  obtains A where "gfinv3 l0 l1 l2 Ainv = Some A"
    and "GF (gfmat_mul 3 A s b 0) = e0" and "GF (gfmat_mul 3 A s b 1) = e1" and "GF (gfmat_mul 3 A s b 2) = e2"
proof -
  let ?D = "gfadd (gfpow_at (l2 - l0)) (gfadd (gfpow_at (l1 - l0)) (gfadd (gfpow_at (l2 - l1))
    (gfadd (gfpow_at (l1 - l2 + 255)) (gfadd (gfpow_at (l0 - l1 + 255)) (gfpow_at (l0 - l2 + 255))))))"
  let ?a = "X l0" and ?b = "X l1" and ?c = "X l2"
  note [simp] = X_add X_diff
  have t: "GF (gfpow_at (l2 - l0)) = ?c * inverse ?a" "GF (gfpow_at (l1 - l0)) = ?b * inverse ?a"
    "GF (gfpow_at (l2 - l1)) = ?c * inverse ?b" "GF (gfpow_at (l1 - l2 + 255)) = ?b * inverse ?c"
    "GF (gfpow_at (l0 - l1 + 255)) = ?a * inverse ?b" "GF (gfpow_at (l0 - l2 + 255)) = ?a * inverse ?c"
    "GF (gfpow_at l0) = ?a" "GF (gfpow_at l1) = ?b" "GF (gfpow_at l2) = ?c"
    "GF (gfpow_at (255 - l0)) = inverse ?a" "GF (gfpow_at (255 - l1)) = inverse ?b"
    "GF (gfpow_at (255 - l2)) = inverse ?c"
    using l by (simp_all add: GF_gfpow_at)
  have GD: "GF ?D = ?c * inverse ?a + (?b * inverse ?a + (?c * inverse ?b + (?b * inverse ?c + (?a * inverse ?b + ?a * inverse ?c))))"
    by (simp only: GF_add t)
  have ne: "?a \<noteq> ?b" "?a \<noteq> ?c" "?b \<noteq> ?c" using l by (simp_all add: X_inject)
  have "GF ?D * (?a * ?b * ?c) = (?a + ?b) * (?a + ?c) * (?b + ?c)"
    unfolding GD by (rule solve3_det) simp_all
  moreover have "(?a + ?b) * (?a + ?c) * (?b + ?c) \<noteq> 0" using ne by (simp add: gf_add_eq_0)
  ultimately have nz: "GF ?D \<noteq> 0" by (metis mult_zero_left)
  then have d: "?D \<noteq> 0" by (metis GF_eq_0)
  then obtain A where A: "gfinv3 l0 l1 l2 Ainv = Some A"
    by (simp add: gfinv3_def Let_def)
  note entry = gfinv3_def Let_def gfmat_mul_nth sum_lessThan_3 GF_mul_exp_log [OF d] GF_add s t
  have "GF (gfmat_mul 3 A s b 0) = e0"
    using A d solve3 [OF nz GD, of e0 e1 e2] by (auto simp: entry simp del: One_nat_def)
  moreover have "GF (gfmat_mul 3 A s b 1) = e1"
  proof -
    have "GF ?D = ?c * inverse ?b + (?a * inverse ?b + (?c * inverse ?a + (?a * inverse ?c + (?b * inverse ?a + ?b * inverse ?c))))"
      unfolding GD by (simp add: ac_simps)
    from solve3 [OF nz this, of e1 e0 e2] A d show ?thesis by (auto simp: entry add_ac simp del: One_nat_def)
  qed
  moreover have "GF (gfmat_mul 3 A s b 2) = e2"
  proof -
    have "GF ?D = ?b * inverse ?c + (?a * inverse ?c + (?b * inverse ?a + (?a * inverse ?b + (?c * inverse ?a + ?c * inverse ?b))))"
      unfolding GD by (simp add: ac_simps)
    from solve3 [OF nz this, of e2 e0 e1] A d show ?thesis by (auto simp: entry add_ac simp del: One_nat_def)
  qed
  ultimately show ?thesis using A that by blast
qed

section \<open>Error patterns\<close>

text \<open>
  \<open>e l\<close> is the error in row \<open>l\<close> of a column of \<open>n\<close> rows; \<open>s\<close> holds its three syndromes.
\<close>

definition syndromes_of :: "(nat \<Rightarrow> u8) \<Rightarrow> nat \<Rightarrow> (nat \<Rightarrow> gf) \<Rightarrow> bool" where
  "syndromes_of s n e \<longleftrightarrow> GF (s 0) = (\<Sum>l<n. e l * inverse rr ^ l) \<and> GF (s 1) = (\<Sum>l<n. e l)
    \<and> GF (s 2) = (\<Sum>l<n. e l * rr ^ l)"

text \<open>The magnitudes \<open>mag\<close> at the locations of \<open>st\<close> describe exactly the error \<open>e\<close>.\<close>

definition located :: "nat \<Rightarrow> (nat \<Rightarrow> gf) \<Rightarrow> ecc_state \<Rightarrow> nat \<Rightarrow> (nat \<Rightarrow> u8) \<Rightarrow> bool" where
  "located n e st nb mag \<longleftrightarrow> inj_on (ec_loc st) {..<nb}
    \<and> (\<forall>i<nb. 0 \<le> ec_loc st i \<and> ec_loc st i < int n \<and> GF (mag i) = e (nat (ec_loc st i)))
    \<and> (\<forall>l<n. e l \<noteq> 0 \<longrightarrow> (\<exists>i<nb. ec_loc st i = int l))"

lemma locatedI:
  assumes R: "nb = length R" "distinct R" "set R \<subseteq> {..<n}" "\<forall>l<n. e l \<noteq> 0 \<longrightarrow> l \<in> set R"
    and at: "\<forall>i<length R. ec_loc st i = int (R ! i) \<and> GF (mag i) = e (R ! i)"
  shows "located n e st nb mag"
  unfolding located_def R(1)
proof (intro conjI allI impI)
  show "inj_on (ec_loc st) {..<length R}"
    using R(2) at by (auto simp: inj_on_def nth_eq_iff_index_eq)
  fix i assume i: "i < length R"
  then have "R ! i < n" using R(3) nth_mem by blast
  with i at show "0 \<le> ec_loc st i" "ec_loc st i < int n" "GF (mag i) = e (nat (ec_loc st i))"
    by simp_all
next
  fix l assume "l < n" "e l \<noteq> 0"
  then have "l \<in> set R" using R(4) by blast
  then show "\<exists>i<length R. ec_loc st i = int l" using at by (metis in_set_conv_nth)
qed

lemma syndromes_support:
  assumes "syndromes_of s n e" "distinct R" "set R \<subseteq> {..<n}" "\<forall>l<n. e l \<noteq> 0 \<longrightarrow> l \<in> set R"
  shows "GF (s 0) = (\<Sum>l\<leftarrow>R. e l * inverse (X (int l)))" and "GF (s 1) = (\<Sum>l\<leftarrow>R. e l)"
    and "GF (s 2) = (\<Sum>l\<leftarrow>R. e l * X (int l))"
proof -
  have sum: "(\<Sum>l<n. e l * f l) = (\<Sum>l\<leftarrow>R. e l * f l)" for f
  proof -
    have "(\<Sum>l<n. e l * f l) = (\<Sum>l\<in>set R. e l * f l)"
      using assms(3,4) by (intro sum.mono_neutral_right) auto
    then show ?thesis using assms(2) by (simp add: sum.distinct_set_conv_list)
  qed
  show "GF (s 0) = (\<Sum>l\<leftarrow>R. e l * inverse (X (int l)))" "GF (s 2) = (\<Sum>l\<leftarrow>R. e l * X (int l))"
    "GF (s 1) = (\<Sum>l\<leftarrow>R. e l)"
    using assms(1) sum [of "\<lambda>l. inverse rr ^ l"] sum [of "\<lambda>l. rr ^ l"] sum [of "\<lambda>l. 1"]
    by (simp_all add: syndromes_of_def X_of_nat power_inverse)
qed

text \<open>A byte whose value is the locator of row \<open>l\<close> has logarithm \<open>l\<close>.\<close>

lemma one_div_inverse: "1 / inverse x = (x :: gf)"
  by (simp add: divide_inverse)

lemma gflog_of_locator:
  assumes "GF t = X (int l)" "l < 255"
  shows "uint (gflog ! unat t) = int l"
proof -
  have "t \<noteq> 0" using assms by (metis GF_0 X_nonzero)
  with assms uint_gflog_bounds [OF this] show ?thesis
    by (metis GF_glog_X X_inject of_nat_0_le_iff of_nat_less_iff of_nat_numeral)
qed

text \<open>No erasure, one error.\<close>

lemma magnitudes_0:
  assumes s: "syndromes_of s n e" and n: "n \<le> 254" and l: "l < n" "e l \<noteq> 0"
    and only: "\<forall>k<n. e k \<noteq> 0 \<longrightarrow> k = l"
  shows "\<exists>st' mag. block_magnitudes (int n) 0 s st = (st', Some (1, mag)) \<and> located n e st' 1 mag
    \<and> ec_data st' = ec_data st \<and> ec_map st' = ec_map st"
proof -
  note [simp del] = One_nat_def
  have ss: "GF (s 0) = e l * inverse (X (int l))" "GF (s 1) = e l"
  proof -
    have "\<forall>k<n. e k \<noteq> 0 \<longrightarrow> k \<in> set [l]" using only by simp
    with syndromes_support [OF s, of "[l]"] l(1)
    show "GF (s 0) = e l * inverse (X (int l))" "GF (s 1) = e l" by simp_all
  qed
  have "GF (s 0) \<noteq> 0" using ss l by simp
  then have nz: "s 0 \<noteq> 0" by simp
  have "GF (gfdiv (s 1) (s 0)) = X (int l)" using nz l by (simp add: GF_div ss one_div_inverse)
  then have log: "uint (gflog ! unat (gfdiv (s 1) (s 0))) = int l"
    using n l by (intro gflog_of_locator) simp_all
  let ?st = "st\<lparr>ec_loc := (ec_loc st)(0 := int l)\<rparr>"
  have "block_magnitudes (int n) 0 s st = (?st, Some (1, (\<lambda>_. 0)(0 := s 1)))"
    using nz log l by (simp add: block_magnitudes_def Let_def)
  moreover have "located n e ?st 1 ((\<lambda>_. 0)(0 := s 1))"
    using l(1) only ss by (intro locatedI [where R = "[l]"]) auto
  ultimately show ?thesis by fastforce
qed

text \<open>One erasure at row \<open>L\<close>, no other error.\<close>

lemma magnitudes_1_0:
  assumes s: "syndromes_of s n e" and n: "n \<le> 254" and L: "L < n" "ec_loc st 0 = int L"
    and only: "\<forall>k<n. e k \<noteq> 0 \<longrightarrow> k = L"
  shows "\<exists>st' mag. block_magnitudes (int n) 1 s st = (st', Some (1, mag)) \<and> located n e st' 1 mag
    \<and> ec_data st' = ec_data st \<and> ec_map st' = ec_map st \<and> ec_loc st' 0 = ec_loc st 0"
proof -
  note [simp del] = One_nat_def
  have ss: "GF (s 0) = e L * inverse (X (int L))" "GF (s 1) = e L" "GF (s 2) = e L * X (int L)"
    using syndromes_support [OF s, of "[L]"] only L by auto
  have t: "gfadd (gfmul_exp (s 1) (int L)) (s 2) = 0" "gfadd (gfmul_exp (s 0) (int L)) (s 1) = 0"
  proof -
    have "GF (gfadd (gfmul_exp (s 1) (int L)) (s 2)) = 0" "GF (gfadd (gfmul_exp (s 0) (int L)) (s 1)) = 0"
      using n L by (simp_all add: GF_add GF_mul_exp_X ss mult.assoc)
    then show "gfadd (gfmul_exp (s 1) (int L)) (s 2) = 0" "gfadd (gfmul_exp (s 0) (int L)) (s 1) = 0"
      by (simp_all only: GF_eq_0)
  qed
  have "GF (gfmat_mul 1 (mat_set (ec_Ainv st) 0 0 (gfpow_at (int L))) s (\<lambda>_. 0) 0) = e L"
    using n L by (simp add: gfmat_mul_nth GF_gfpow_at ss)
  then have "located n e (st\<lparr>ec_Ainv := mat_set (ec_Ainv st) 0 0 (gfpow_at (int L))\<rparr>) 1
      (gfmat_mul 1 (mat_set (ec_Ainv st) 0 0 (gfpow_at (int L))) s (\<lambda>_. 0))"
    using L only by (intro locatedI [where R = "[L]"]) auto
  then show ?thesis
    using t L by (auto simp: block_magnitudes_def Let_def)
qed

text \<open>One erasure at row \<open>L\<close> and one error at row \<open>l\<close>.\<close>

lemma magnitudes_1_1:
  assumes s: "syndromes_of s n e" and n: "n \<le> 254" and L: "L < n" "ec_loc st 0 = int L"
    and l: "l < n" "l \<noteq> L" "e l \<noteq> 0" and only: "\<forall>k<n. e k \<noteq> 0 \<longrightarrow> k = L \<or> k = l"
  shows "\<exists>st' mag. block_magnitudes (int n) 1 s st = (st', Some (2, mag)) \<and> located n e st' 2 mag
    \<and> ec_data st' = ec_data st \<and> ec_map st' = ec_map st \<and> ec_loc st' 0 = ec_loc st 0"
proof -
  note [simp del] = One_nat_def
  let ?L = "X (int L)" and ?l = "X (int l)"
  have ss: "GF (s 0) = e L * inverse ?L + e l * inverse ?l" "GF (s 1) = e L + e l"
      "GF (s 2) = e L * ?L + e l * ?l"
    using syndromes_support [OF s, of "[L, l]"] only L l by auto
  let ?t1 = "gfadd (gfmul_exp (s 1) (int L)) (s 2)" and ?t2 = "gfadd (gfmul_exp (s 0) (int L)) (s 1)"
  have "?L \<noteq> ?l" using n L l by (simp add: X_inject)
  then have d: "?L + ?l \<noteq> 0" by (simp add: gf_add_eq_0)
  have t1: "GF ?t1 = e l * (?L + ?l)" using n L by (simp add: GF_add GF_mul_exp_X ss algebra_simps)
  have "GF ?t2 = e l * (inverse ?l * ?L + inverse ?l * ?l)"
    using n L by (simp add: GF_add GF_mul_exp_X ss algebra_simps)
  then have t2: "GF ?t2 = e l * (?L + ?l) * inverse ?l" by (simp add: distrib_left mult_ac)
  have "GF ?t1 \<noteq> 0" "GF ?t2 \<noteq> 0" using t1 t2 d l by simp_all
  then have nz: "?t1 \<noteq> 0" "?t2 \<noteq> 0" by simp_all
  have "GF (gfdiv ?t1 ?t2) = ?l" using nz(2) d l by (simp add: GF_div t1 t2 one_div_inverse)
  then have log: "uint (gflog ! unat (gfdiv ?t1 ?t2)) = int l"
    using n l by (intro gflog_of_locator) simp_all
  have r: "0 \<le> int L" "int L < 255" "0 \<le> int l" "int l < 255" "int L \<noteq> int l" using n L l by auto
  obtain A where A: "gfinv2 (int L) (int l) (ec_Ainv st) = Some A" "GF (gfmat_mul 2 A s (\<lambda>_. 0) 0) = e L"
      "GF (gfmat_mul 2 A s (\<lambda>_. 0) 1) = e l"
    by (rule gfinv2_solves [OF r ss(1,2)])
  let ?st = "st\<lparr>ec_loc := (ec_loc st)(1 := int l), ec_Ainv := A\<rparr>"
  have "block_magnitudes (int n) 1 s st = (?st, Some (2, gfmat_mul 2 A s (\<lambda>_. 0)))"
    using nz log A(1) L l by (simp add: block_magnitudes_def Let_def)
  moreover have "located n e ?st 2 (gfmat_mul 2 A s (\<lambda>_. 0))"
    using L l only A(2,3)
    by (intro locatedI [where R = "[L, l]"]) (auto simp: less_Suc_eq One_nat_def)
  ultimately show ?thesis by fastforce
qed

text \<open>
  What the decoder relies on between columns: the erasures \<open>R\<close> are recorded in order and the
  matrix is the inverse the erasures call for. What the code can correct: with \<open>k\<close> erasures, at
  most \<open>(3 - k) div 2\<close> further errors in the column.
\<close>

definition prepared :: "nat \<Rightarrow> nat list \<Rightarrow> ecc_state \<Rightarrow> bool" where
  "prepared n R st \<longleftrightarrow> length R \<le> 3 \<and> sorted_wrt (<) R \<and> set R \<subseteq> {..<n}
    \<and> (\<forall>i<length R. ec_loc st i = int (R ! i))
    \<and> (length R = 2 \<longrightarrow> (\<exists>B. gfinv2 (int (R ! 0)) (int (R ! 1)) B = Some (ec_Ainv st)))
    \<and> (length R = 3 \<longrightarrow>
        (\<exists>B. gfinv3 (int (R ! 0)) (int (R ! 1)) (int (R ! 2)) B = Some (ec_Ainv st)))"

definition correctable :: "nat \<Rightarrow> nat list \<Rightarrow> (nat \<Rightarrow> gf) \<Rightarrow> bool" where
  "correctable n R e \<longleftrightarrow> card {l. l < n \<and> e l \<noteq> 0 \<and> l \<notin> set R} \<le> (3 - length R) div 2"

lemma correctable_cases:
  assumes "correctable n R e"
  obtains "\<forall>l<n. e l \<noteq> 0 \<longrightarrow> l \<in> set R"
  | l where "length R \<le> 1" "l < n" "e l \<noteq> 0" "l \<notin> set R"
      "\<forall>k<n. e k \<noteq> 0 \<longrightarrow> k \<in> set R \<or> k = l"
proof -
  let ?S = "{l. l < n \<and> e l \<noteq> 0 \<and> l \<notin> set R}"
  have le: "card ?S \<le> (3 - length R) div 2" using assms by (simp add: correctable_def)
  show thesis
  proof (cases "?S = {}")
    case True
    then show thesis using that(1) by blast
  next
    case False
    then have "0 < card ?S" by (simp add: card_gt_0_iff)
    with le have 1: "length R \<le> 1" "card ?S = 1" by linarith+
    from 1(2) obtain l where S: "?S = {l}" by (rule card_1_singletonE)
    then have "l < n \<and> e l \<noteq> 0 \<and> l \<notin> set R" by blast
    moreover have "\<forall>k<n. e k \<noteq> 0 \<longrightarrow> k \<in> set R \<or> k = l" using S by blast
    ultimately show thesis using that(2) [OF 1(1)] by blast
  qed
qed

text \<open>Two erasures, and three.\<close>

lemma magnitudes_2:
  assumes prep: "prepared n [a, b] st" and only: "\<forall>l<n. e l \<noteq> 0 \<longrightarrow> l \<in> set [a, b]"
    and s: "syndromes_of s n e" and n: "n \<le> 254"
  shows "located n e st 2 (gfmat_mul 2 (ec_Ainv st) s (\<lambda>_. 0))"
proof -
  note [simp del] = One_nat_def
  have ab: "a < b" "b < n" "ec_loc st 0 = int a" "ec_loc st 1 = int b"
    using prep by (auto simp: prepared_def less_Suc_eq One_nat_def)
  have ss: "GF (s 0) = e a * inverse (X (int a)) + e b * inverse (X (int b))" "GF (s 1) = e a + e b"
    using syndromes_support [OF s _ _ only] ab by simp_all
  obtain B where B: "gfinv2 (int a) (int b) B = Some (ec_Ainv st)"
    using prep by (auto simp: prepared_def)
  have r: "0 \<le> int a" "int a < 255" "0 \<le> int b" "int b < 255" "int a \<noteq> int b" using ab n by auto
  obtain A where A: "gfinv2 (int a) (int b) B = Some A" "GF (gfmat_mul 2 A s (\<lambda>_. 0) 0) = e a"
      "GF (gfmat_mul 2 A s (\<lambda>_. 0) 1) = e b"
    by (rule gfinv2_solves [OF r ss])
  show ?thesis
    using ab only A B by (intro locatedI [where R = "[a, b]"]) (auto simp: less_Suc_eq One_nat_def)
qed

lemma magnitudes_3:
  assumes prep: "prepared n [a, b, c] st" and only: "\<forall>l<n. e l \<noteq> 0 \<longrightarrow> l \<in> set [a, b, c]"
    and s: "syndromes_of s n e" and n: "n \<le> 254"
  shows "located n e st 3 (gfmat_mul 3 (ec_Ainv st) s (\<lambda>_. 0))"
proof -
  note [simp del] = One_nat_def
  have abc: "a < b" "b < c" "c < n" "ec_loc st 0 = int a" "ec_loc st 1 = int b" "ec_loc st 2 = int c"
    using prep by (auto simp: prepared_def less_Suc_eq One_nat_def numeral_2_eq_2)
  have ss: "GF (s 0) = e a * inverse (X (int a)) + e b * inverse (X (int b)) + e c * inverse (X (int c))"
      "GF (s 1) = e a + e b + e c" "GF (s 2) = e a * X (int a) + e b * X (int b) + e c * X (int c)"
    using syndromes_support [OF s _ _ only] abc by (simp_all add: add.assoc)
  obtain B where B: "gfinv3 (int a) (int b) (int c) B = Some (ec_Ainv st)"
    using prep by (auto simp: prepared_def)
  have r: "0 \<le> int a" "int a < int b" "int b < int c" "int c < 255" using abc n by auto
  obtain A where A: "gfinv3 (int a) (int b) (int c) B = Some A" "GF (gfmat_mul 3 A s (\<lambda>_. 0) 0) = e a"
      "GF (gfmat_mul 3 A s (\<lambda>_. 0) 1) = e b" "GF (gfmat_mul 3 A s (\<lambda>_. 0) 2) = e c"
    by (rule gfinv3_solves [OF r ss])
  show ?thesis
    using abc only A B
    by (intro locatedI [where R = "[a, b, c]"]) (auto simp: less_Suc_eq One_nat_def numeral_2_eq_2)
qed

lemma block_magnitudes_located:
  assumes prep: "prepared n R st" and cor: "correctable n R e" and s: "syndromes_of s n e"
    and n: "n \<le> 254" and nz: "s 0 \<noteq> 0 \<or> s 1 \<noteq> 0 \<or> s 2 \<noteq> 0"
  shows "\<exists>st' nb mag. block_magnitudes (int n) (length R) s st = (st', Some (nb, mag))
    \<and> located n e st' nb mag \<and> ec_data st' = ec_data st \<and> ec_map st' = ec_map st \<and> prepared n R st'"
proof -
  consider "R = []" | L where "R = [L]" | a b where "R = [a, b]" | a b c where "R = [a, b, c]"
    using prep by (auto simp: prepared_def numeral_3_eq_3 le_Suc_eq length_Suc_conv)
  then show ?thesis
  proof cases
    case 1
    have "\<not> (\<forall>l<n. e l = 0)"
    proof
      assume "\<forall>l<n. e l = 0"
      then have "GF (s 0) = 0" "GF (s 1) = 0" "GF (s 2) = 0" using s by (simp_all add: syndromes_of_def)
      with nz show False by simp
    qed
    with cor obtain l where l: "l < n" "e l \<noteq> 0" "\<forall>k<n. e k \<noteq> 0 \<longrightarrow> k = l"
      unfolding 1 by (cases rule: correctable_cases) (metis empty_iff list.set(1))+
    from magnitudes_0 [OF s n l, of st] 1 show ?thesis by (fastforce simp: prepared_def)
  next
    case (2 L)
    then have L: "L < n" "ec_loc st 0 = int L" using prep by (auto simp: prepared_def)
    from cor show ?thesis
    proof (cases rule: correctable_cases)
      case 1
      then have "\<forall>k<n. e k \<noteq> 0 \<longrightarrow> k = L" using 2 by auto
      from magnitudes_1_0 [OF s n L this] 2 L show ?thesis by (fastforce simp: prepared_def)
    next
      case (2 l)
      then have "l \<noteq> L" "\<forall>k<n. e k \<noteq> 0 \<longrightarrow> k = L \<or> k = l" using \<open>R = [L]\<close> by auto
      from magnitudes_1_1 [OF s n L \<open>l < n\<close> this(1) \<open>e l \<noteq> 0\<close> this(2)] \<open>R = [L]\<close> L show ?thesis
        by (fastforce simp: prepared_def)
    qed
  next
    case (3 a b)
    have "\<forall>l<n. e l \<noteq> 0 \<longrightarrow> l \<in> set [a, b]"
      using cor unfolding 3 by (cases rule: correctable_cases) simp_all
    from magnitudes_2 [OF _ this s n, of st] 3 prep show ?thesis
      by (simp add: block_magnitudes_def numeral_2_eq_2)
  next
    case (4 a b c)
    have "\<forall>l<n. e l \<noteq> 0 \<longrightarrow> l \<in> set [a, b, c]"
      using cor unfolding 4 by (cases rule: correctable_cases) simp_all
    from magnitudes_3 [OF _ this s n, of st] 4 prep show ?thesis
      by (simp add: block_magnitudes_def numeral_3_eq_3)
  qed
qed

section \<open>Applying the correction\<close>

lemma GF_mod255_locator:
  assumes "e \<noteq> 0" "0 \<le> l" "l \<le> 255"
  shows "GF (gfpow ! unat (mod255 (uint (gflog ! unat e) - l))) = GF e * inverse (X l)"
    and "GF (gfpow ! unat (mod255 (uint (gflog ! unat e) + l))) = GF e * X l"
proof -
  let ?g = "uint (gflog ! unat e)"
  have "-255 \<le> ?g - l" "?g - l \<le> 509" "-255 \<le> ?g + l" "?g + l \<le> 509"
    using assms(2,3) uint_gflog_bounds [OF assms(1)] by linarith+
  then show "GF (gfpow ! unat (mod255 (?g - l))) = GF e * inverse (X l)"
    "GF (gfpow ! unat (mod255 (?g + l))) = GF e * X l"
    unfolding GF_glog_X [OF assms(1)] by (simp_all add: GF_gfpow_mod255 X_diff X_add flip: X_def)
qed

text \<open>The correction loop, field by field: what it keeps, the check bytes, the bytes of the segment.\<close>

lemma correct_bytes_frame:
  assumes "fold (correct_byte c mag) [0..<k] (st, m, c0, c1, c2) = (st', m', d0, d1, d2)"
  shows "ec_loc st' = ec_loc st \<and> ec_Ainv st' = ec_Ainv st
    \<and> length (ec_data st') = length (ec_data st) \<and> m \<le> m'"
  using assms
proof (induction k arbitrary: st' m' d0 d1 d2)
  case (Suc k)
  obtain st1 m1 b0 b1 b2 where f: "fold (correct_byte c mag) [0..<k] (st, m, c0, c1, c2) = (st1, m1, b0, b1, b2)"
    by (metis prod_cases5)
  from Suc.prems Suc.IH [OF f] show ?case
    by (auto simp: f Let_def split: if_splits)
qed simp

lemma correct_bytes_check:
  assumes "fold (correct_byte c mag) [0..<k] (st, m, c0, c1, c2) = (st', m', d0, d1, d2)"
    and "\<forall>i<k. 0 \<le> ec_loc st i \<and> ec_loc st i \<le> 255"
  shows "GF d0 = GF c0 + (\<Sum>i<k. GF (mag i) * inverse (X (ec_loc st i)))
    \<and> GF d1 = GF c1 + (\<Sum>i<k. GF (mag i)) \<and> GF d2 = GF c2 + (\<Sum>i<k. GF (mag i) * X (ec_loc st i))"
  using assms
proof (induction k arbitrary: st' m' d0 d1 d2)
  case (Suc k)
  obtain st1 m1 b0 b1 b2 where f: "fold (correct_byte c mag) [0..<k] (st, m, c0, c1, c2) = (st1, m1, b0, b1, b2)"
    by (metis prod_cases5)
  have loc: "ec_loc st1 = ec_loc st" using correct_bytes_frame [OF f] by simp
  have IH: "GF b0 = GF c0 + (\<Sum>i<k. GF (mag i) * inverse (X (ec_loc st i)))"
      "GF b1 = GF c1 + (\<Sum>i<k. GF (mag i))" "GF b2 = GF c2 + (\<Sum>i<k. GF (mag i) * X (ec_loc st i))"
    using Suc.IH [OF f] Suc.prems(2) by simp_all
  have l: "0 \<le> ec_loc st k" "ec_loc st k \<le> 255" using Suc.prems(2) by auto
  show ?case
  proof (cases "mag k = 0")
    case True
    with Suc.prems(1) IH show ?thesis by (simp add: f)
  next
    case False
    with Suc.prems(1) IH show ?thesis
      by (auto simp: f Let_def loc GF_add GF_mod255_locator [OF False l] add.assoc)
  qed
qed simp

lemma correct_bytes_data:
  assumes "fold (correct_byte c mag) [0..<k] (st, m, c0, c1, c2) = (st', m', d0, d1, d2)"
    and pos: "\<And>i. pos i = c + nat (ec_loc st i) * FT_SECTOR_SIZE"
    and "inj_on pos {..<k}" and "\<forall>i<k. pos i < length (ec_data st)"
  shows "(\<forall>i<k. ec_data st' ! pos i = gfadd (ec_data st ! pos i) (mag i))
    \<and> (\<forall>p. p \<notin> pos ` {..<k} \<longrightarrow> ec_data st' ! p = ec_data st ! p)"
  using assms(1,3,4)
proof (induction k arbitrary: st' m' d0 d1 d2)
  case (Suc k)
  obtain st1 m1 b0 b1 b2 where f: "fold (correct_byte c mag) [0..<k] (st, m, c0, c1, c2) = (st1, m1, b0, b1, b2)"
    by (metis prod_cases5)
  have fr: "ec_loc st1 = ec_loc st" "length (ec_data st1) = length (ec_data st)"
    using correct_bytes_frame [OF f] by simp_all
  have IH: "\<forall>i<k. ec_data st1 ! pos i = gfadd (ec_data st ! pos i) (mag i)"
      "\<forall>p. p \<notin> pos ` {..<k} \<longrightarrow> ec_data st1 ! p = ec_data st ! p"
    using Suc.IH [OF f] Suc.prems(2,3) by (auto simp: lessThan_Suc)
  have new: "pos k \<notin> pos ` {..<k}" "pos k < length (ec_data st1)"
    using Suc.prems(2,3) by (auto simp: lessThan_Suc fr)
  have st': "ec_data st' = (ec_data st1)[pos k := gfadd (ec_data st1 ! pos k) (mag k)]"
    using Suc.prems(1) new(2) by (auto simp: f Let_def fr pos gfadd_def split: if_splits)
  show ?case
  proof (intro conjI allI impI)
    fix i assume "i < Suc k"
    show "ec_data st' ! pos i = gfadd (ec_data st ! pos i) (mag i)"
    proof (cases "i = k")
      case False
      then have "i < k" using \<open>i < Suc k\<close> by simp
      then have "pos i \<noteq> pos k" using new(1) by (metis imageI lessThan_iff)
      with IH(1) \<open>i < k\<close> show ?thesis by (simp add: st')
    qed (use new IH(2) in \<open>simp add: st'\<close>)
  qed (use IH(2) in \<open>auto simp: st' lessThan_Suc\<close>)
qed simp

section \<open>One column\<close>

text \<open>Changing rows of a column adds the changes to its polynomial.\<close>

lemma col_eval_diff:
  "col_eval mem c n x + col_eval mem' c n x
    = (\<Sum>l<n. (GF (mem ! (c + l * FT_SECTOR_SIZE)) + GF (mem' ! (c + l * FT_SECTOR_SIZE))) * x ^ l)"
  by (simp add: col_eval_def distrib_right sum.distrib)

definition column_error :: "bytes \<Rightarrow> bytes \<Rightarrow> nat \<Rightarrow> nat \<Rightarrow> gf" where
  "column_error mem0 mem c l = GF (mem0 ! (c + l * FT_SECTOR_SIZE)) + GF (mem ! (c + l * FT_SECTOR_SIZE))"

lemma syndromes_of_column_error:
  assumes "codeword mem0 c n" and "GF (s 0) = col_eval mem c n (inverse rr)"
    and "GF (s 1) = col_eval mem c n 1" and "GF (s 2) = col_eval mem c n rr"
  shows "syndromes_of s n (column_error mem0 mem c)"
proof -
  have eq: "col_eval mem c n x = (\<Sum>l<n. column_error mem0 mem c l * x ^ l)"
    if "col_eval mem0 c n x = 0" for x
    using col_eval_diff [of mem0 c n x mem] that by (simp add: column_error_def)
  show ?thesis
    using assms eq [of 1] eq [of rr] eq [of "inverse rr"]
    by (simp add: syndromes_of_def codeword_def)
qed

lemma located_sum:
  assumes "located n e st nb mag"
  shows "(\<Sum>i<nb. GF (mag i) * f (nat (ec_loc st i))) = (\<Sum>l<n. e l * f l)"
proof -
  let ?g = "\<lambda>i. nat (ec_loc st i)"
  have loc: "\<forall>i<nb. 0 \<le> ec_loc st i \<and> ec_loc st i < int n \<and> GF (mag i) = e (?g i)"
      "inj_on (ec_loc st) {..<nb}" and sup: "\<forall>l<n. e l \<noteq> 0 \<longrightarrow> (\<exists>i<nb. ec_loc st i = int l)"
    using assms by (auto simp: located_def)
  have inj: "inj_on ?g {..<nb}" using loc by (auto simp: inj_on_def nat_eq_iff2)
  have "(\<Sum>i<nb. GF (mag i) * f (?g i)) = (\<Sum>i<nb. e (?g i) * f (?g i))"
    using loc(1) by (intro sum.cong) auto
  also have "\<dots> = (\<Sum>l\<in>?g ` {..<nb}. e l * f l)" by (simp add: sum.reindex [OF inj])
  also have "\<dots> = (\<Sum>l<n. e l * f l)"
  proof (rule sum.mono_neutral_left)
    show "?g ` {..<nb} \<subseteq> {..<n}" using loc(1) by auto
    have "e l = 0" if "l < n" "l \<notin> ?g ` {..<nb}" for l
      using sup that by (metis imageI lessThan_iff nat_int)
    then show "\<forall>l\<in>{..<n} - ?g ` {..<nb}. e l * f l = 0" by auto
  qed simp
  finally show ?thesis .
qed

lemma column_pos_inj:
  assumes "inj_on (ec_loc st) {..<k}" "\<forall>i<k. 0 \<le> ec_loc st i"
  shows "inj_on (\<lambda>i. c + nat (ec_loc st i) * FT_SECTOR_SIZE) {..<k}"
  using assms by (auto simp: inj_on_def nat_eq_iff2)

lemma row_in_segment:
  assumes "c < FT_SECTOR_SIZE" "l < n"
  shows "c + l * FT_SECTOR_SIZE < n * FT_SECTOR_SIZE"
proof -
  have "Suc l * FT_SECTOR_SIZE \<le> n * FT_SECTOR_SIZE" using assms(2) by (intro mult_le_mono1) simp
  with assms(1) show ?thesis by simp
qed

lemma located_check:
  assumes loc: "located n e st nb mag" and syn: "syndromes_of s n e" and n: "n \<le> 254"
    and f: "fold (correct_byte c mag) [0..<nb] (st, m, s 0, s 1, s 2) = (st', m', d0, d1, d2)"
  shows "d0 = 0 \<and> d1 = 0 \<and> d2 = 0"
proof -
  have rng: "\<forall>i<nb. 0 \<le> ec_loc st i \<and> ec_loc st i < int n" using loc by (auto simp: located_def)
  have X_nat: "X (ec_loc st i) = rr ^ nat (ec_loc st i)" if "i < nb" for i
    using rng that X_of_nat [of "nat (ec_loc st i)"] by auto
  have "\<forall>i<nb. 0 \<le> ec_loc st i \<and> ec_loc st i \<le> 255" using rng n by auto
  note chk = correct_bytes_check [OF f this]
  have "GF d0 = 0 \<and> GF d1 = 0 \<and> GF d2 = 0"
    using chk syn located_sum [OF loc, of "\<lambda>l. inverse rr ^ l"] located_sum [OF loc, of "\<lambda>l. rr ^ l"]
      located_sum [OF loc, of "\<lambda>_. 1"]
    by (simp add: syndromes_of_def X_nat power_inverse)
  then show ?thesis by simp
qed

lemma located_data:
  assumes loc: "located n (column_error mem0 (ec_data st) c) st nb mag" and c: "c < FT_SECTOR_SIZE"
    and len: "length (ec_data st) = n * FT_SECTOR_SIZE" and p: "p < n * FT_SECTOR_SIZE"
    and f: "fold (correct_byte c mag) [0..<nb] (st, m, c0, c1, c2) = (st', m', d0, d1, d2)"
  shows "ec_data st' ! p = (if p mod FT_SECTOR_SIZE = c then mem0 ! p else ec_data st ! p)"
proof -
  let ?e = "column_error mem0 (ec_data st) c" and ?pos = "\<lambda>i. c + nat (ec_loc st i) * FT_SECTOR_SIZE"
  have rng: "\<forall>i<nb. 0 \<le> ec_loc st i \<and> ec_loc st i < int n \<and> GF (mag i) = ?e (nat (ec_loc st i))"
      "inj_on (ec_loc st) {..<nb}" "\<forall>l<n. ?e l \<noteq> 0 \<longrightarrow> (\<exists>i<nb. ec_loc st i = int l)"
    using loc by (auto simp: located_def)
  have inj: "inj_on ?pos {..<nb}" using rng by (intro column_pos_inj) auto
  have in': "\<forall>i<nb. ?pos i < length (ec_data st)"
  proof (intro allI impI)
    fix i assume "i < nb"
    then have "nat (ec_loc st i) < n" using rng(1) by (simp add: nat_less_iff)
    then show "?pos i < length (ec_data st)" using row_in_segment [OF c] len by simp
  qed
  note dat = correct_bytes_data [OF f refl inj in']
  show ?thesis
  proof (cases "p mod FT_SECTOR_SIZE = c")
    case True
    define l where "l = p div FT_SECTOR_SIZE"
    have pl: "p = c + l * FT_SECTOR_SIZE" using True by (simp add: l_def mod_div_mult_eq flip: True)
    have l: "l < n" using p by (simp add: l_def less_mult_imp_div_less)
    have "GF (ec_data st' ! p) = GF (ec_data st ! p) + ?e l"
    proof (cases "\<exists>i<nb. ec_loc st i = int l")
      case True
      then obtain i where "i < nb" "ec_loc st i = int l" by blast
      then show ?thesis using dat rng(1) by (auto simp: pl GF_add)
    next
      case False
      then have "p \<notin> ?pos ` {..<nb}" "?e l = 0" using rng l by (auto simp: pl)
      with dat show ?thesis by simp
    qed
    then have "GF (ec_data st' ! p) = GF (mem0 ! p)" by (simp add: column_error_def pl ac_simps)
    with True show ?thesis by simp
  next
    case False
    then have "p \<notin> ?pos ` {..<nb}" using c by auto
    with dat False show ?thesis by simp
  qed
qed

text \<open>
  A column within the capability of the code is restored, nothing else is touched, and the
  decoder is ready for the next column.
\<close>

lemma correct_block_restores:
  assumes prep: "prepared n R st" and cw: "codeword mem0 c n" and c: "c < FT_SECTOR_SIZE"
    and len: "length (ec_data st) = n * FT_SECTOR_SIZE" and n: "n \<le> 254"
    and cor: "correctable n R (column_error mem0 (ec_data st) c)"
    and s: "GF (s 0) = col_eval (ec_data st) c n (inverse rr)" "GF (s 1) = col_eval (ec_data st) c n 1"
      "GF (s 2) = col_eval (ec_data st) c n rr"
    and nz: "s 0 \<noteq> 0 \<or> s 1 \<noteq> 0 \<or> s 2 \<noteq> 0"
  obtains st' r where "correct_block c (int n) (length R) s st = (st', r)" "0 \<le> r" "prepared n R st'"
    "length (ec_data st') = n * FT_SECTOR_SIZE"
    "\<forall>p < n * FT_SECTOR_SIZE. ec_data st' ! p = (if p mod FT_SECTOR_SIZE = c then mem0 ! p else ec_data st ! p)"
proof -
  have syn: "syndromes_of s n (column_error mem0 (ec_data st) c)"
    using syndromes_of_column_error [OF cw s] .
  obtain st1 nb mag where bm: "block_magnitudes (int n) (length R) s st = (st1, Some (nb, mag))"
    and loc: "located n (column_error mem0 (ec_data st) c) st1 nb mag"
    and same: "ec_data st1 = ec_data st" and prep1: "prepared n R st1"
    using block_magnitudes_located [OF prep cor syn n nz] by blast
  obtain st2 m d0 d1 d2 where
    f: "fold (correct_byte c mag) [0..<nb] (st1, 0, s 0, s 1, s 2) = (st2, m, d0, d1, d2)"
    by (metis prod_cases5)
  note fr = correct_bytes_frame [OF f]
  have cb: "correct_block c (int n) (length R) s st = (st2, m)"
    using located_check [OF loc syn n f] by (simp add: correct_block_def bm f del: One_nat_def)
  have "prepared n R st2" using prep1 fr by (simp add: prepared_def)
  moreover have "\<forall>p < n * FT_SECTOR_SIZE. ec_data st2 ! p = (if p mod FT_SECTOR_SIZE = c then mem0 ! p else ec_data st ! p)"
    using located_data [OF _ c _ _ f, of n mem0] loc len by (simp add: same)
  ultimately show ?thesis using that [OF cb] fr len by (simp add: same)
qed

text \<open>
  The minimum distance of the code: an error the code can correct that leaves all three
  syndromes zero is no error.
\<close>

lemma zero_syndromes:
  assumes R: "sorted_wrt (<) R" "length R \<le> 3" "set R \<subseteq> {..<n}" and n: "n \<le> 254"
    and only: "\<forall>l<n. e l \<noteq> 0 \<longrightarrow> l \<in> set R" and s: "syndromes_of (\<lambda>_. 0) n e" and l: "l < n"
  shows "e l = 0"
proof -
  have d: "distinct R" using R(1) by (simp add: strict_sorted_iff)
  note sup = syndromes_support [OF s d R(3) only]
  consider "R = []" | a where "R = [a]" | a b where "R = [a, b]" | a b c where "R = [a, b, c]"
    using R(2) by (auto simp: numeral_3_eq_3 le_Suc_eq length_Suc_conv)
  then have "\<forall>k\<in>set R. e k = 0"
  proof cases
    case 2
    then show ?thesis using sup(2) by simp
  next
    case (3 a b)
    have r: "0 \<le> int a" "int a < 255" "0 \<le> int b" "int b < 255" "int a \<noteq> int b" using 3 R n by auto
    have ss: "GF ((\<lambda>_. 0) 0) = e a * inverse (X (int a)) + e b * inverse (X (int b))" "GF ((\<lambda>_. 0) 1) = e a + e b"
      using sup 3 by simp_all
    obtain A where "gfinv2 (int a) (int b) (\<lambda>_ _. 0) = Some A" "GF (gfmat_mul 2 A (\<lambda>_. 0) (\<lambda>_. 0) 0) = e a"
        "GF (gfmat_mul 2 A (\<lambda>_. 0) (\<lambda>_. 0) 1) = e b"
      by (rule gfinv2_solves [OF r ss])
    then show ?thesis using 3 by (simp add: gfmat_mul_nth)
  next
    case (4 a b c)
    have r: "0 \<le> int a" "int a < int b" "int b < int c" "int c < 255" using 4 R n by auto
    have ss: "GF ((\<lambda>_. 0) 0) = e a * inverse (X (int a)) + e b * inverse (X (int b)) + e c * inverse (X (int c))"
        "GF ((\<lambda>_. 0) 1) = e a + e b + e c" "GF ((\<lambda>_. 0) 2) = e a * X (int a) + e b * X (int b) + e c * X (int c)"
      using sup 4 by (simp_all add: add.assoc)
    obtain A where "gfinv3 (int a) (int b) (int c) (\<lambda>_ _. 0) = Some A" "GF (gfmat_mul 3 A (\<lambda>_. 0) (\<lambda>_. 0) 0) = e a"
        "GF (gfmat_mul 3 A (\<lambda>_. 0) (\<lambda>_. 0) 1) = e b" "GF (gfmat_mul 3 A (\<lambda>_. 0) (\<lambda>_. 0) 2) = e c"
      by (rule gfinv3_solves [OF r ss])
    then show ?thesis using 4 by (simp add: gfmat_mul_nth)
  qed simp
  then show ?thesis using only l by blast
qed

lemma correctable_zero:
  assumes prep: "prepared n R st" and cor: "correctable n R e" and n: "n \<le> 254"
    and s: "syndromes_of (\<lambda>_. 0) n e" and l: "l < n"
  shows "e l = 0"
  using cor
proof (cases rule: correctable_cases)
  case 1
  with prep n s l show ?thesis by (intro zero_syndromes [of R]) (auto simp: prepared_def)
next
  case (2 k)
  let ?R = "sorted_list_of_set (insert k (set R))"
  have "card (insert k (set R)) \<le> Suc (card (set R))" by (simp add: card_insert_if del: card.insert_remove)
  then have "length ?R \<le> 3"
    using 2(1) card_length [of R] sorted_list_of_set.length_sorted_key_list_of_set [of "insert k (set R)"] by linarith
  moreover have set: "set ?R = insert k (set R)" by (rule set_sorted_list_of_set) simp
  then have "set ?R \<subseteq> {..<n}" using prep 2(2) by (simp only: prepared_def) auto
  moreover have "sorted_wrt (<) ?R" by (rule strict_sorted_list_of_set)
  moreover have "\<forall>l<n. e l \<noteq> 0 \<longrightarrow> l \<in> set ?R" unfolding set using 2(5) by blast
  ultimately show ?thesis using n s l by (intro zero_syndromes [of ?R])
qed

end
