(* ===== verification/Ft_Ecc_Segment.thy ===== *)
theory Ft_Ecc_Segment
  imports Ft_Ecc_Column
begin

text \<open>
  Whole segments: the loops over the columns. The decoder restores a segment whose damage is
  within the capability of the code, a decoder run that reports success leaves code words in all
  columns and has marked every row it changed, and the encoder turns every segment into code words
  without touching its data rows.
\<close>

unbundle bit_operations_syntax

section \<open>Decoding whole segments\<close>

lemma column_at [simp]: "c < FT_SECTOR_SIZE \<Longrightarrow> (c + l * FT_SECTOR_SIZE) mod FT_SECTOR_SIZE = c"
  by simp

text \<open>Two segments that agree on a column have the same polynomial and the same errors there.\<close>

lemma column_cong:
  assumes "c < FT_SECTOR_SIZE" and "\<forall>p < n * FT_SECTOR_SIZE. p mod FT_SECTOR_SIZE = c \<longrightarrow> mem ! p = mem' ! p"
  shows "col_eval mem c n x = col_eval mem' c n x" and "codeword mem c n \<longleftrightarrow> codeword mem' c n"
    and "correctable n R (column_error mem0 mem c) \<longleftrightarrow> correctable n R (column_error mem0 mem' c)"
proof -
  have eq: "mem ! (c + l * FT_SECTOR_SIZE) = mem' ! (c + l * FT_SECTOR_SIZE)" if "l < n" for l
    using assms row_in_segment [OF assms(1) that] by simp
  then show ce: "col_eval mem c n x = col_eval mem' c n x" for x by (simp add: col_eval_def)
  then show "codeword mem c n \<longleftrightarrow> codeword mem' c n" by (simp add: codeword_def)
  have "{l. l < n \<and> column_error mem0 mem c l \<noteq> 0 \<and> l \<notin> set R}
      = {l. l < n \<and> column_error mem0 mem' c l \<noteq> 0 \<and> l \<notin> set R}"
    using eq by (auto simp: column_error_def)
  then show "correctable n R (column_error mem0 mem c) \<longleftrightarrow> correctable n R (column_error mem0 mem' c)"
    by (simp add: correctable_def)
qed

lemma correctable_codeword:
  assumes prep: "prepared n R st" and cor: "correctable n R (column_error mem0 mem c)" and n: "n \<le> 254"
    and cw: "codeword mem0 c n" "codeword mem c n" and p: "p < n * FT_SECTOR_SIZE" "p mod FT_SECTOR_SIZE = c"
  shows "mem ! p = mem0 ! p"
proof -
  have "syndromes_of (\<lambda>_. 0) n (column_error mem0 mem c)"
    using cw by (intro syndromes_of_column_error) (simp_all add: codeword_def)
  moreover have l: "p div FT_SECTOR_SIZE < n" using p by (simp add: less_mult_imp_div_less)
  ultimately have "column_error mem0 mem c (p div FT_SECTOR_SIZE) = 0"
    using correctable_zero [OF prep cor n] by blast
  moreover have "c + p div FT_SECTOR_SIZE * FT_SECTOR_SIZE = p" using p(2) mod_div_mult_eq [of p FT_SECTOR_SIZE] by simp
  ultimately show ?thesis by (simp add: column_error_def gf_add_eq_0)
qed

text \<open>
  What decoding the columns \<open>C\<close> towards \<open>mem0\<close> has achieved: those columns are restored, the
  others are as they were in \<open>mem\<close>, and the decoder can go on.
\<close>

definition restored :: "nat \<Rightarrow> nat list \<Rightarrow> bytes \<Rightarrow> bytes \<Rightarrow> nat set \<Rightarrow> ecc_state \<Rightarrow> bool" where
  "restored n R mem0 mem C st \<longleftrightarrow> prepared n R st \<and> length (ec_data st) = n * FT_SECTOR_SIZE
    \<and> (\<forall>p < n * FT_SECTOR_SIZE. ec_data st ! p = (if p mod FT_SECTOR_SIZE \<in> C then mem0 ! p else mem ! p))"

definition damaged :: "nat \<Rightarrow> nat list \<Rightarrow> bytes \<Rightarrow> bytes \<Rightarrow> bool" where
  "damaged n R mem0 mem \<longleftrightarrow> n \<le> 254 \<and> (\<forall>c < FT_SECTOR_SIZE. codeword mem0 c n \<and>
    correctable n R (column_error mem0 mem c))"

lemma restored_column:
  assumes "restored n R mem0 mem C st" "c < FT_SECTOR_SIZE" "c \<notin> C"
  shows "col_eval (ec_data st) c n x = col_eval mem c n x"
    and "codeword (ec_data st) c n \<longleftrightarrow> codeword mem c n"
    and "correctable n R (column_error mem0 (ec_data st) c) \<longleftrightarrow> correctable n R (column_error mem0 mem c)"
  using assms column_cong [of c n "ec_data st" mem] by (auto simp: restored_def)

lemma restored_clean:
  assumes st: "restored n R mem0 mem C st" and dam: "damaged n R mem0 mem"
    and C': "\<forall>c\<in>C' - C. c < FT_SECTOR_SIZE \<and> codeword mem c n"
  shows "restored n R mem0 mem (C \<union> C') st"
proof -
  have "mem ! p = mem0 ! p" if "p < n * FT_SECTOR_SIZE" "p mod FT_SECTOR_SIZE \<in> C' - C" for p
    using that st dam C' correctable_codeword [of n R st mem0 mem "p mod FT_SECTOR_SIZE" p]
    by (auto simp: restored_def damaged_def)
  with st show ?thesis by (auto simp: restored_def)
qed

lemma correct_lane_step:
  fixes ss0 ss1 ss2 :: "'l::len word"
  assumes st: "restored n R mem0 mem C st" and dam: "damaged n R mem0 mem" and c: "c < FT_SECTOR_SIZE" "c \<notin> C"
    and s: "GF (lane 0 ss0) = col_eval mem c n (inverse rr)" "GF (lane 0 ss1) = col_eval mem c n 1"
      "GF (lane 0 ss2) = col_eval mem c n rr"
  obtains st' r' where "restored n R mem0 mem (insert c C) st'"
    "correct_lanes (Suc k) c (int n) (length R) (ss0, ss1, ss2) (st, r)
      = correct_lanes k (Suc c) (int n) (length R) (drop_bit 8 ss0, drop_bit 8 ss1, drop_bit 8 ss2) (st', r')"
proof (cases "lane 0 ss0 = 0 \<and> lane 0 ss1 = 0 \<and> lane 0 ss2 = 0")
  case True
  then have "codeword mem c n" using s by (simp add: codeword_def)
  then have "restored n R mem0 mem (insert c C) st"
    using restored_clean [OF st dam, of "{c}"] c by simp
  with that [of st r] True show ?thesis by (simp add: lane_0_ucast Let_def)
next
  case False
  let ?s = "(\<lambda>_. 0)(0 := lane 0 ss0, 1 := lane 0 ss1, 2 := lane 0 ss2) :: nat \<Rightarrow> u8"
  have prep: "prepared n R st" and len: "length (ec_data st) = n * FT_SECTOR_SIZE" and n: "n \<le> 254"
    and cw: "codeword mem0 c n" and cor: "correctable n R (column_error mem0 (ec_data st) c)"
    using st dam c restored_column [OF st c] by (auto simp: restored_def damaged_def)
  have syn: "GF (?s 0) = col_eval (ec_data st) c n (inverse rr)" "GF (?s 1) = col_eval (ec_data st) c n 1"
      "GF (?s 2) = col_eval (ec_data st) c n rr" "?s 0 \<noteq> 0 \<or> ?s 1 \<noteq> 0 \<or> ?s 2 \<noteq> 0"
    using s False restored_column [OF st c] by auto
  obtain st' r' where cb: "correct_block c (int n) (length R) ?s st = (st', r')" "0 \<le> r'" "prepared n R st'"
      "length (ec_data st') = n * FT_SECTOR_SIZE"
      "\<forall>p < n * FT_SECTOR_SIZE. ec_data st' ! p = (if p mod FT_SECTOR_SIZE = c then mem0 ! p else ec_data st ! p)"
    by (rule correct_block_restores [OF prep cw c(1) len n cor syn])
  have "restored n R mem0 mem (insert c C) st'"
    using cb(3-5) st by (simp add: restored_def)
  moreover have "correct_lanes (Suc k) c (int n) (length R) (ss0, ss1, ss2) (st, r)
      = correct_lanes k (Suc c) (int n) (length R) (drop_bit 8 ss0, drop_bit 8 ss1, drop_bit 8 ss2) (st', r + r')"
    using cb(1,2) False by (auto simp: lane_0_ucast Let_def or_eq_0_iff)
  ultimately show ?thesis using that by blast
qed

lemma correct_lanes_restores:
  fixes ss0 ss1 ss2 :: "'l::len word"
  assumes "restored n R mem0 mem C st" and dam: "damaged n R mem0 mem" and "c + k \<le> FT_SECTOR_SIZE"
    and "C \<inter> {c..<c + k} = {}"
    and "\<forall>j<k. GF (lane j ss0) = col_eval mem (c + j) n (inverse rr) \<and>
      GF (lane j ss1) = col_eval mem (c + j) n 1 \<and> GF (lane j ss2) = col_eval mem (c + j) n rr"
  shows "\<exists>st' r'. correct_lanes k c (int n) (length R) (ss0, ss1, ss2) (st, r) = (st', Some r')
    \<and> restored n R mem0 mem (C \<union> {c..<c + k}) st'"
  using assms(1,3-5)
proof (induction k arbitrary: c C st r ss0 ss1 ss2)
  case (Suc k)
  have c: "c < FT_SECTOR_SIZE" "c \<notin> C" using Suc.prems(2,3) by auto
  obtain st1 r1 where st1: "restored n R mem0 mem (insert c C) st1"
    and step: "correct_lanes (Suc k) c (int n) (length R) (ss0, ss1, ss2) (st, r)
      = correct_lanes k (Suc c) (int n) (length R) (drop_bit 8 ss0, drop_bit 8 ss1, drop_bit 8 ss2) (st1, r1)"
    using correct_lane_step [OF Suc.prems(1) dam c] Suc.prems(4) by (metis add_0_right zero_less_Suc)
  have lanes: "\<forall>j<k. GF (lane j (drop_bit 8 ss0)) = col_eval mem (Suc c + j) n (inverse rr) \<and>
      GF (lane j (drop_bit 8 ss1)) = col_eval mem (Suc c + j) n 1 \<and>
      GF (lane j (drop_bit 8 ss2)) = col_eval mem (Suc c + j) n rr"
    using Suc.prems(4) by (auto simp: lane_drop8 dest: spec [of _ "Suc _"])
  have "insert c C \<inter> {Suc c..<Suc c + k} = {}" using Suc.prems(3) by auto
  from Suc.IH [OF st1 _ this lanes, of r1] Suc.prems(2) obtain st' r' where
    "correct_lanes k (Suc c) (int n) (length R) (drop_bit 8 ss0, drop_bit 8 ss1, drop_bit 8 ss2) (st1, r1) = (st', Some r')"
    "restored n R mem0 mem (insert c C \<union> {Suc c..<Suc c + k}) st'"
    by auto
  moreover have "insert c C \<union> {Suc c..<Suc c + k} = C \<union> {c..<c + Suc k}" by auto
  ultimately show ?case using step by metis
qed simp

lemma correct_columns_restores:
  assumes ok: "long_ok TYPE('l::len)" and dam: "damaged n R mem0 mem" and "restored n R mem0 mem C st"
    and "\<forall>col\<in>set cols. col + sizeof_long TYPE('l) \<le> FT_SECTOR_SIZE"
    and "sorted_wrt (\<lambda>a b. a + sizeof_long TYPE('l) \<le> b) cols"
    and "\<forall>col\<in>set cols. C \<inter> {col..<col + sizeof_long TYPE('l)} = {}"
  shows "\<exists>st' r'. correct_columns TYPE('l) cols n (length R) (st, r) = (st', Some r')
    \<and> restored n R mem0 mem (C \<union> (\<Union>col\<in>set cols. {col..<col + sizeof_long TYPE('l)})) st'"
  using assms(3-6)
proof (induction cols arbitrary: C st r)
  case (Cons col cols)
  let ?k = "sizeof_long TYPE('l)" and ?D = "C \<union> {col..<col + sizeof_long TYPE('l)}"
  have col: "col + ?k \<le> FT_SECTOR_SIZE" "C \<inter> {col..<col + ?k} = {}" using Cons.prems(2,4) by auto
  have n: "n \<le> 255" using dam by (simp add: damaged_def)
  have new: "col + j < FT_SECTOR_SIZE" "col + j \<notin> C" if "j < ?k" for j
    using col that by (auto simp: disjoint_iff)
  note old = restored_column [OF Cons.prems(1) new]
  have "\<exists>st1 r1. restored n R mem0 mem ?D st1 \<and>
    correct_columns TYPE('l) (col # cols) n (length R) (st, r) = correct_columns TYPE('l) cols n (length R) (st1, r1)"
  proof (cases "compute_syndromes (ec_data st) col n :: ('l word \<times> 'l word \<times> 'l word) option")
    case None
    then have "\<forall>k<?k. codeword (ec_data st) (col + k) n" by (simp only: compute_syndromes_None [OF ok])
    then have "\<forall>k<?k. codeword mem (col + k) n"
      by (simp add: old)
    then have "restored n R mem0 mem ?D st"
      using col by (intro restored_clean [OF Cons.prems(1) dam]) (auto simp: nat_le_iff_add)
    with None show ?thesis by auto
  next
    case (Some ss)
    obtain s0 s1 s2 where ss: "ss = (s0, s1, s2)" by (metis prod_cases3)
    have "\<forall>j<?k. GF (lane j s0) = col_eval mem (col + j) n (inverse rr) \<and>
      GF (lane j s1) = col_eval mem (col + j) n 1 \<and> GF (lane j s2) = col_eval mem (col + j) n rr"
      using compute_syndromes_Some [OF ok _ n Some [unfolded ss]] by (simp add: old)
    from correct_lanes_restores [OF Cons.prems(1) dam col this, of r] obtain st' r' where
      "correct_lanes ?k col (int n) (length R) (s0, s1, s2) (st, r) = (st', Some r')" "restored n R mem0 mem ?D st'"
      by blast
    with Some show ?thesis by (intro exI [of _ st'] exI [of _ r']) (simp add: ss)
  qed
  then obtain st1 r1 where st1: "restored n R mem0 mem ?D st1"
    and step: "correct_columns TYPE('l) (col # cols) n (length R) (st, r) = correct_columns TYPE('l) cols n (length R) (st1, r1)"
    by blast
  have "\<forall>c\<in>set cols. ?D \<inter> {c..<c + ?k} = {}" using Cons.prems(3,4) by fastforce
  from Cons.IH [OF st1 _ _ this, of r1] Cons.prems(2,3) step show ?case
    by (simp add: Un_assoc)
qed simp

lemma long_columns_tile:
  assumes "long_ok TYPE('l::len)"
  shows "\<forall>col\<in>set (long_columns TYPE('l)). col + sizeof_long TYPE('l) \<le> FT_SECTOR_SIZE"
    and "sorted_wrt (\<lambda>a b. a + sizeof_long TYPE('l) \<le> b) (long_columns TYPE('l))"
    and "(\<Union>col\<in>set (long_columns TYPE('l)). {col..<col + sizeof_long TYPE('l)}) = {..<FT_SECTOR_SIZE}"
proof -
  let ?k = "sizeof_long TYPE('l)"
  have k: "?k = 4 \<or> ?k = 8" using assms by (rule sizeof_long_cases)
  show "\<forall>col\<in>set (long_columns TYPE('l)). col + ?k \<le> FT_SECTOR_SIZE"
    using k by (auto simp: long_columns_def)
  show "sorted_wrt (\<lambda>a b. a + ?k \<le> b) (long_columns TYPE('l))"
    using k by (auto simp: long_columns_def sorted_wrt_map sorted_wrt_iff_nth_less)
  have "\<exists>j < FT_SECTOR_SIZE div ?k. j * ?k \<le> c \<and> c < j * ?k + ?k" if "c < FT_SECTOR_SIZE" for c
    using k that by (intro exI [of _ "c div ?k"]) auto
  then show "(\<Union>col\<in>set (long_columns TYPE('l)). {col..<col + ?k}) = {..<FT_SECTOR_SIZE}"
    using k by (fastforce simp: long_columns_def)
qed

text \<open>The erasures are the rows whose bit is set in \<open>read_bad\<close>.\<close>

lemma find_erasures_filter:
  "find_erasures mseg = (let R = filter (BAD_CHECK (read_bad mseg)) [0..<blocks mseg]
     in if length R \<le> 3 then Some R else None)"
proof (cases "read_bad mseg = 0")
  case True
  then have "filter (BAD_CHECK (read_bad mseg)) [0..<blocks mseg] = []"
    by (simp add: BAD_CHECK_def filter_empty_conv)
  with True show ?thesis by (simp add: find_erasures_def)
next
  case False
  let ?f = "\<lambda>i acc. case acc of None \<Rightarrow> None | Some locs \<Rightarrow> if BAD_CHECK (read_bad mseg) i then
    (if length locs \<ge> 3 then None else Some (locs @ [i])) else Some locs"
  have "fold ?f [0..<k] (Some []) = (let R = filter (BAD_CHECK (read_bad mseg)) [0..<k]
      in if length R \<le> 3 then Some R else None)" for k
    by (induction k) (auto simp: Let_def)
  with False show ?thesis by (simp add: find_erasures_def)
qed

lemma erasures_sorted: "sorted_wrt (<) (filter P [0..<n])" "set (filter P [0..<n]) \<subseteq> {..<n}"
  by (auto intro: sorted_wrt_filter)

lemma inverse_exists:
  assumes "sorted_wrt (<) R" "length R \<le> 3" "set R \<subseteq> {..<n}" "n \<le> 254"
  shows "\<exists>A. (if length R = 2 then gfinv2 (int (R ! 0)) (int (R ! 1)) (\<lambda>_ _. 0)
    else if length R = 3 then gfinv3 (int (R ! 0)) (int (R ! 1)) (int (R ! 2)) (\<lambda>_ _. 0)
    else Some (\<lambda>_ _. 0)) = Some A"
proof -
  consider "length R < 2" | a b where "R = [a, b]" | a b c where "R = [a, b, c]"
    using assms(2) by (auto simp: numeral_3_eq_3 le_Suc_eq length_Suc_conv)
  then show ?thesis
  proof cases
    case (2 a b)
    then have r: "0 \<le> int a" "int a < 255" "0 \<le> int b" "int b < 255" "int a \<noteq> int b" using assms by auto
    have s: "GF ((\<lambda>_. 0) 0) = 0 * inverse (X (int a)) + 0 * inverse (X (int b))" "GF ((\<lambda>_. 0) 1) = 0 + 0"
      by simp_all
    obtain A where "gfinv2 (int a) (int b) (\<lambda>_ _. 0) = Some A" by (rule gfinv2_solves [OF r s])
    then show ?thesis using 2 by simp
  next
    case (3 a b c)
    then have r: "0 \<le> int a" "int a < int b" "int b < int c" "int c < 255" using assms by auto
    have s: "GF ((\<lambda>_. 0) 0) = 0 * inverse (X (int a)) + 0 * inverse (X (int b)) + 0 * inverse (X (int c))"
      "GF ((\<lambda>_. 0) 1) = 0 + 0 + 0" "GF ((\<lambda>_. 0) 2) = 0 * X (int a) + 0 * X (int b) + 0 * X (int c)"
      by simp_all
    obtain A where "gfinv3 (int a) (int b) (int c) (\<lambda>_ _. 0) = Some A" by (rule gfinv3_solves [OF r s])
    then show ?thesis using 3 by simp
  qed simp
qed

text \<open>The state in which the column loop starts, and how the driver's entry point uses its result.\<close>

lemma correct_data_start:
  assumes R: "R = filter (BAD_CHECK (read_bad mseg)) [0..<blocks mseg]" "length R \<le> 3" and n: "blocks mseg \<le> 254"
    and bad: "dropWhile (\<lambda>col. (compute_syndromes (ms_data mseg) col (blocks mseg)
      :: ('l::len word \<times> 'l word \<times> 'l word) option) = None) (long_columns TYPE('l)) = cols" "cols \<noteq> []"
  obtains st where "prepared (blocks mseg) R st" "ec_data st = ms_data mseg" "ec_map st = 0"
    "ftape_ecc_correct_data TYPE('l) mseg =
      (case correct_columns TYPE('l) cols (blocks mseg) (length R) (st, 0) of
         (st', None) \<Rightarrow> (mseg\<lparr>ms_data := ec_data st', corrected := ec_map st'\<rparr>, ECC_FAILED)
       | (st', Some k) \<Rightarrow> (mseg\<lparr>ms_data := ec_data st', corrected := ec_map st'\<rparr>,
           if k \<noteq> 0 then ECC_CORRECTED else ECC_OK))"
proof -
  have srt: "sorted_wrt (<) R" "set R \<subseteq> {..<blocks mseg}" unfolding R by (rule erasures_sorted)+
  let ?loc = "\<lambda>i. if i < length R then int (R ! i) else 0"
  obtain A where A: "(if length R = 2 then gfinv2 (int (R ! 0)) (int (R ! 1)) (\<lambda>_ _. 0)
    else if length R = 3 then gfinv3 (int (R ! 0)) (int (R ! 1)) (int (R ! 2)) (\<lambda>_ _. 0)
    else Some (\<lambda>_ _. 0)) = Some A"
    using inverse_exists [OF srt(1) R(2) srt(2) n] by blast
  let ?st = "\<lparr>ec_data = ms_data mseg, ec_map = 0, ec_loc = ?loc, ec_Ainv = A\<rparr>"
  have A': "(if length R = 2 then gfinv2 (?loc 0) (?loc 1) (\<lambda>_ _. 0)
    else if length R = 3 then gfinv3 (?loc 0) (?loc 1) (?loc 2) (\<lambda>_ _. 0) else Some (\<lambda>_ _. 0)) = Some A"
    unfolding A [symmetric] by simp
  have "prepared (blocks mseg) R ?st"
    unfolding prepared_def
  proof (intro conjI)
    show "length R = 2 \<longrightarrow> (\<exists>B. gfinv2 (int (R ! 0)) (int (R ! 1)) B = Some (ec_Ainv ?st))"
      using A by (intro impI exI [of _ "\<lambda>_ _. 0"]) simp
    show "length R = 3 \<longrightarrow> (\<exists>B. gfinv3 (int (R ! 0)) (int (R ! 1)) (int (R ! 2)) B = Some (ec_Ainv ?st))"
      using A by (intro impI exI [of _ "\<lambda>_ _. 0"]) simp
  qed (use R(2) srt in simp_all)
  moreover have fe: "find_erasures (mseg\<lparr>corrected := 0\<rparr>) = Some R"
    using R by (simp add: find_erasures_filter Let_def)
  have "ftape_ecc_correct_data TYPE('l) mseg =
      (case correct_columns TYPE('l) cols (blocks mseg) (length R) (?st, 0) of
         (st', None) \<Rightarrow> (mseg\<lparr>ms_data := ec_data st', corrected := ec_map st'\<rparr>, ECC_FAILED)
       | (st', Some k) \<Rightarrow> (mseg\<lparr>ms_data := ec_data st', corrected := ec_map st'\<rparr>,
           if k \<noteq> 0 then ECC_CORRECTED else ECC_OK))"
    unfolding ftape_ecc_correct_data_def Let_def fe option.case A'
    using bad by (cases "correct_columns TYPE('l) cols (blocks mseg) (length R) (?st, 0)")
      (simp split: option.split)
  ultimately show ?thesis using that [of ?st] by simp
qed

subsection \<open>The decoder restores what the code can restore\<close>

text \<open>The rows of column \<open>c\<close> that differ from \<open>mem0\<close> although the drive read their sector without complaint.\<close>

definition silent_errors :: "bytes \<Rightarrow> memory_segment \<Rightarrow> nat \<Rightarrow> nat set" where
  "silent_errors mem0 mseg c = {l. l < blocks mseg \<and> \<not> BAD_CHECK (read_bad mseg) l
     \<and> ms_data mseg ! (c + l * FT_SECTOR_SIZE) \<noteq> mem0 ! (c + l * FT_SECTOR_SIZE)}"

definition erasures :: "memory_segment \<Rightarrow> nat list" where
  "erasures mseg = filter (BAD_CHECK (read_bad mseg)) [0..<blocks mseg]"

lemma correctable_silent_errors:
  "correctable (blocks mseg) (erasures mseg) (column_error mem0 (ms_data mseg) c)
    \<longleftrightarrow> card (silent_errors mem0 mseg c) \<le> (3 - length (erasures mseg)) div 2"
proof -
  have "{l. l < blocks mseg \<and> column_error mem0 (ms_data mseg) c l \<noteq> 0 \<and> l \<notin> set (erasures mseg)}
    = silent_errors mem0 mseg c"
    by (auto simp: silent_errors_def erasures_def column_error_def gf_add_eq_0)
  then show ?thesis by (simp add: correctable_def)
qed

lemma long_columns_clean:
  assumes ok: "long_ok TYPE('l::len)"
  shows "\<forall>col\<in>set (long_columns TYPE('l)). compute_syndromes mem col n
      = (None :: ('l word \<times> 'l word \<times> 'l word) option) \<longleftrightarrow> (\<forall>c\<in>{col..<col + sizeof_long TYPE('l)}. codeword mem c n)"
proof (intro ballI)
  fix col
  have "{col..<col + sizeof_long TYPE('l)} = (\<lambda>k. col + k) ` {..<sizeof_long TYPE('l)}"
    by (simp add: image_add_atLeastLessThan lessThan_atLeast0 add.commute)
  then show "compute_syndromes mem col n
      = (None :: ('l word \<times> 'l word \<times> 'l word) option) \<longleftrightarrow> (\<forall>c\<in>{col..<col + sizeof_long TYPE('l)}. codeword mem c n)"
    by (auto simp: compute_syndromes_None [OF ok])
qed

lemma correct_data_damaged:
  assumes ok: "long_ok TYPE('l::len)" and len: "length (ms_data mseg) = blocks mseg * FT_SECTOR_SIZE"
    and R: "length (erasures mseg) \<le> 3" and len0: "length mem0 = blocks mseg * FT_SECTOR_SIZE"
    and dam: "damaged (blocks mseg) (erasures mseg) mem0 (ms_data mseg)"
  shows "\<exists>mseg' r. ftape_ecc_correct_data TYPE('l) mseg = (mseg', r) \<and> r \<noteq> ECC_FAILED
    \<and> ms_data mseg' = mem0 \<and> blocks mseg' = blocks mseg"
proof -
  let ?n = "blocks mseg" and ?R = "erasures mseg" and ?k = "sizeof_long TYPE('l)"
  let ?clean = "\<lambda>col. (compute_syndromes (ms_data mseg) col ?n :: ('l word \<times> 'l word \<times> 'l word) option) = None"
  define pre where "pre = takeWhile ?clean (long_columns TYPE('l))"
  define cols where "cols = dropWhile ?clean (long_columns TYPE('l))"
  define C where "C = (\<Union>col\<in>set pre. {col..<col + ?k})"
  have n: "?n \<le> 254" using dam by (simp add: damaged_def)
  have split: "long_columns TYPE('l) = pre @ cols" by (simp add: pre_def cols_def)
  note tile = long_columns_tile [OF ok, unfolded split set_append]
  have CC: "C \<union> (\<Union>col\<in>set cols. {col..<col + ?k}) = {..<FT_SECTOR_SIZE}"
    using tile(3) by (simp add: C_def)
  have all: "ms_data st = mem0" if "length (ms_data st) = ?n * FT_SECTOR_SIZE"
      "\<forall>p < ?n * FT_SECTOR_SIZE. ms_data st ! p = mem0 ! p" for st :: memory_segment
    using that len0 by (intro nth_equalityI) auto
  have "\<forall>c\<in>C. codeword (ms_data mseg) c ?n"
    using long_columns_clean [OF ok, of "ms_data mseg" ?n] set_takeWhileD
    by (fastforce simp: C_def pre_def)
  then have clean: "\<forall>c\<in>C - {}. c < FT_SECTOR_SIZE \<and> codeword (ms_data mseg) c ?n" using CC by blast
  have srt: "sorted_wrt (<) ?R" "set ?R \<subseteq> {..<?n}" unfolding erasures_def by (rule erasures_sorted)+
  have start: "restored ?n ?R mem0 (ms_data mseg) C st"
    if "prepared ?n ?R st" "ec_data st = ms_data mseg" for st
    using restored_clean [OF _ dam clean, of st] that len by (simp add: restored_def)
  show ?thesis
  proof (cases "cols = []")
    case True
    then have CC': "C = {..<FT_SECTOR_SIZE}" using CC by simp
    obtain A where "prepared ?n ?R \<lparr>ec_data = ms_data mseg, ec_map = 0,
        ec_loc = (\<lambda>i. if i < length ?R then int (?R ! i) else 0), ec_Ainv = A\<rparr>"
      using inverse_exists [OF srt(1) R srt(2) n] srt R unfolding prepared_def by (auto split: if_splits)
    from start [OF this] have "ms_data mseg = mem0"
      using CC' by (intro all len) (simp add: restored_def)
    moreover have "ftape_ecc_correct_data TYPE('l) mseg = (mseg\<lparr>corrected := 0\<rparr>, ECC_OK)"
      using True by (simp add: ftape_ecc_correct_data_def cols_def Let_def)
    ultimately show ?thesis by simp
  next
    case False
    obtain st where st: "prepared ?n ?R st" "ec_data st = ms_data mseg"
      and eq: "ftape_ecc_correct_data TYPE('l) mseg =
      (case correct_columns TYPE('l) cols ?n (length ?R) (st, 0) of
         (st', None) \<Rightarrow> (mseg\<lparr>ms_data := ec_data st', corrected := ec_map st'\<rparr>, ECC_FAILED)
       | (st', Some k) \<Rightarrow> (mseg\<lparr>ms_data := ec_data st', corrected := ec_map st'\<rparr>,
           if k \<noteq> 0 then ECC_CORRECTED else ECC_OK))"
      by (rule correct_data_start [OF erasures_def R n cols_def [symmetric] False])
    have sep: "\<forall>col\<in>set cols. C \<inter> {col..<col + ?k} = {}"
      using tile(2) by (fastforce simp: C_def sorted_wrt_append)
    have bnd: "\<forall>col\<in>set cols. col + ?k \<le> FT_SECTOR_SIZE" using tile(1) by simp
    have srtc: "sorted_wrt (\<lambda>a b. a + ?k \<le> b) cols" using tile(2) by (simp add: sorted_wrt_append)
    from correct_columns_restores [OF ok dam start [OF st] bnd srtc sep, of 0] obtain st' r' where
      cc: "correct_columns TYPE('l) cols ?n (length ?R) (st, 0) = (st', Some r')"
      "restored ?n ?R mem0 (ms_data mseg) {..<FT_SECTOR_SIZE} st'"
      unfolding CC by blast
    have "ms_data (mseg\<lparr>ms_data := ec_data st', corrected := ec_map st'\<rparr>) = mem0"
      using cc(2) by (intro all) (simp_all add: restored_def)
    then show ?thesis by (simp add: eq cc(1))
  qed
qed

subsection \<open>The encoder\<close>

lemma set_parity_cong:
  assumes "i + sizeof_long TYPE('l::len) \<le> FT_SECTOR_SIZE"
    and "\<forall>p < m * FT_SECTOR_SIZE. mem ! p = mem' ! p"
    and len: "length mem = length mem'" "m * FT_SECTOR_SIZE \<le> length mem" and ok: "long_ok TYPE('l)"
  shows "(set_parity mem i m :: 'l word \<times> 'l word \<times> 'l word) = set_parity mem' i m"
proof -
  have "load_le mem (i + j * FT_SECTOR_SIZE) (sizeof_long TYPE('l))
      = (load_le mem' (i + j * FT_SECTOR_SIZE) (sizeof_long TYPE('l)) :: 'l word)" if "j < m" for j
  proof (rule word_eq_lanesI)
    fix k assume "8 * k < LENGTH('l)"
    then have k: "k < sizeof_long TYPE('l)" using ok by (simp add: sizeof_long_lane)
    then have "i + k + j * FT_SECTOR_SIZE < m * FT_SECTOR_SIZE"
      using assms(1) that by (intro row_in_segment) auto
    then have "mem ! (i + j * FT_SECTOR_SIZE + k) = mem' ! (i + j * FT_SECTOR_SIZE + k)"
      using assms(2) by (simp add: ac_simps)
    then show "lane k (load_le mem (i + j * FT_SECTOR_SIZE) (sizeof_long TYPE('l)) :: 'l word)
      = lane k (load_le mem' (i + j * FT_SECTOR_SIZE) (sizeof_long TYPE('l)) :: 'l word)"
      using ok k by (auto simp: lane_load_le sizeof_long_def)
  qed
  then show ?thesis
    unfolding set_parity_def by (intro fold_cong) auto
qed

text \<open>Where \<open>store_parity\<close> writes: the three rows from row \<open>m\<close> on, at the columns of the long.\<close>

lemma nth_store_parity:
  fixes p0 p1 p2 :: "'l::len word"
  assumes "i + sizeof_long TYPE('l) \<le> FT_SECTOR_SIZE" "(m + 3) * FT_SECTOR_SIZE \<le> length mem"
  shows "\<And>p. p < m * FT_SECTOR_SIZE \<Longrightarrow> store_parity mem (m * FT_SECTOR_SIZE + i) (p0, p1, p2) ! p = mem ! p"
    and "\<And>c r. c < FT_SECTOR_SIZE \<Longrightarrow> r < 3 \<Longrightarrow> store_parity mem (m * FT_SECTOR_SIZE + i) (p0, p1, p2) ! (c + (m + r) * FT_SECTOR_SIZE)
      = (if i \<le> c \<and> c < i + sizeof_long TYPE('l) then lane (c - i) (if r = 0 then p0 else if r = 1 then p1 else p2)
         else mem ! (c + (m + r) * FT_SECTOR_SIZE))"
    and "length (store_parity mem (m * FT_SECTOR_SIZE + i) (p0, p1, p2)) = length mem"
proof -
  have len: "m * FT_SECTOR_SIZE + i + sizeof_long TYPE('l) \<le> length mem"
    "m * FT_SECTOR_SIZE + i + FT_SECTOR_SIZE + sizeof_long TYPE('l) \<le> length mem"
    "m * FT_SECTOR_SIZE + i + 2 * FT_SECTOR_SIZE + sizeof_long TYPE('l) \<le> length mem"
    using assms by simp_all
  show "store_parity mem (m * FT_SECTOR_SIZE + i) (p0, p1, p2) ! p = mem ! p" if "p < m * FT_SECTOR_SIZE" for p
    using len that by (simp add: Let_def nth_store_le)
  show "length (store_parity mem (m * FT_SECTOR_SIZE + i) (p0, p1, p2)) = length mem" by (simp add: Let_def)
  show "store_parity mem (m * FT_SECTOR_SIZE + i) (p0, p1, p2) ! (c + (m + r) * FT_SECTOR_SIZE)
      = (if i \<le> c \<and> c < i + sizeof_long TYPE('l) then lane (c - i) (if r = 0 then p0 else if r = 1 then p1 else p2)
         else mem ! (c + (m + r) * FT_SECTOR_SIZE))" if c: "c < FT_SECTOR_SIZE" and r: "r < 3" for c r
  proof -
    consider "r = 0" | "r = 1" | "r = 2" using r by linarith
    then show ?thesis
      using len c assms(1) by cases (auto simp: Let_def nth_store_le distrib_right)
  qed
qed


lemma col_eval_add3:
  "col_eval mem c (m + 3) x = col_eval mem c m x + x ^ m * (GF (mem ! (c + (m + 0) * FT_SECTOR_SIZE))
    + GF (mem ! (c + (m + 1) * FT_SECTOR_SIZE)) * x + GF (mem ! (c + (m + 2) * FT_SECTOR_SIZE)) * x ^ 2)"
  by (simp add: col_eval_def numeral_3_eq_3 numeral_2_eq_2 algebra_simps)

lemma col_eval_cong:
  assumes "c < FT_SECTOR_SIZE" "\<forall>p < n * FT_SECTOR_SIZE. mem ! p = mem' ! p"
  shows "col_eval mem c n x = col_eval mem' c n x"
  using column_cong(1) [OF assms(1), of n mem mem'] assms(2) by blast

lemma store_parity_codeword:
  assumes ok: "long_ok TYPE('l::len)" and i: "i + sizeof_long TYPE('l) \<le> FT_SECTOR_SIZE"
    and len: "(m + 3) * FT_SECTOR_SIZE \<le> length mem" and k: "k < sizeof_long TYPE('l)"
  shows "codeword (store_parity mem (m * FT_SECTOR_SIZE + i)
    (set_parity mem i m :: 'l word \<times> 'l word \<times> 'l word)) (i + k) (m + 3)"
proof -
  obtain p0 p1 p2 :: "'l word" where p: "set_parity mem i m = (p0, p1, p2)" by (metis prod_cases3)
  let ?mem = "store_parity mem (m * FT_SECTOR_SIZE + i) (p0, p1, p2)"
  note st = nth_store_parity [OF i len, where ?p0.0 = p0 and ?p1.0 = p1 and ?p2.0 = p2]
  have c: "i + k < FT_SECTOR_SIZE" using i k by simp
  have old: "col_eval ?mem (i + k) m x = col_eval mem (i + k) m x" for x
    using st(1) by (intro col_eval_cong [OF c]) blast
  have "col_eval ?mem (i + k) (m + 3) x = col_eval mem (i + k) m x
      + x ^ m * (GF (lane k p0) + GF (lane k p1) * x + GF (lane k p2) * x ^ 2)" for x
    unfolding col_eval_add3 old using st(2) [OF c, of 0] st(2) [OF c, of 1] st(2) [OF c, of 2] k by simp
  then show ?thesis
    using root_inv.set_parity_remainder [OF ok k p] root_1.set_parity_remainder [OF ok k p]
      root_rr.set_parity_remainder [OF ok k p]
    by (simp add: p codeword_def)
qed

text \<open>What the encoder has achieved once it has been over the columns \<open>C\<close>.\<close>

definition encoded :: "nat \<Rightarrow> bytes \<Rightarrow> nat set \<Rightarrow> bytes \<Rightarrow> bool" where
  "encoded m mem C mem' \<longleftrightarrow> length mem' = length mem \<and> (\<forall>p < m * FT_SECTOR_SIZE. mem' ! p = mem ! p)
    \<and> (\<forall>c\<in>C. codeword mem' c (m + 3))"

lemma encoded_step:
  assumes ok: "long_ok TYPE('l::len)" and i: "i + sizeof_long TYPE('l) \<le> FT_SECTOR_SIZE"
    and len: "length mem = (m + 3) * FT_SECTOR_SIZE" and en: "encoded m mem C mem'" and C: "C \<subseteq> {..<FT_SECTOR_SIZE}"
  shows "encoded m mem (C \<union> {i..<i + sizeof_long TYPE('l)}) (store_parity mem' (m * FT_SECTOR_SIZE + i)
    (set_parity mem' i m :: 'l word \<times> 'l word \<times> 'l word))"
proof -
  obtain p0 p1 p2 :: "'l word" where p: "set_parity mem' i m = (p0, p1, p2)" by (metis prod_cases3)
  let ?mem = "store_parity mem' (m * FT_SECTOR_SIZE + i) (p0, p1, p2)" and ?k = "sizeof_long TYPE('l)"
  have len': "(m + 3) * FT_SECTOR_SIZE \<le> length mem'" using len en by (simp add: encoded_def)
  note st = nth_store_parity [OF i len', where ?p0.0 = p0 and ?p1.0 = p1 and ?p2.0 = p2]
  have "codeword ?mem c (m + 3)" if c: "c \<in> C \<union> {i..<i + ?k}" for c
  proof (cases "c \<in> {i..<i + ?k}")
    case True
    then show ?thesis
      using store_parity_codeword [OF ok i len', of "c - i"] by (simp add: p less_diff_conv2)
  next
    case False
    then have cC: "c \<in> C" "c < FT_SECTOR_SIZE" using c C by auto
    have "?mem ! q = mem' ! q" if q: "q < (m + 3) * FT_SECTOR_SIZE" "q mod FT_SECTOR_SIZE = c" for q
    proof (cases "q < m * FT_SECTOR_SIZE")
      case big: False
      have "q = c + (m + (q div FT_SECTOR_SIZE - m)) * FT_SECTOR_SIZE" "q div FT_SECTOR_SIZE - m < 3"
        using q big by (auto simp: not_less less_eq_div_iff_mult_less_eq [symmetric] mod_div_mult_eq less_mult_imp_div_less
            intro: less_diff_conv2 [THEN iffD2])
      then show ?thesis using st(2) [OF cC(2)] False by (metis atLeastLessThan_iff)
    qed (use st(1) in blast)
    then have "codeword ?mem c (m + 3) \<longleftrightarrow> codeword mem' c (m + 3)"
      by (intro column_cong(2) [OF cC(2)]) blast
    with en cC show ?thesis by (simp add: encoded_def)
  qed
  with en st(1,3) show ?thesis by (simp add: encoded_def p)
qed

lemma encoded_columns:
  assumes ok: "long_ok TYPE('l::len)" and len: "length mem = (m + 3) * FT_SECTOR_SIZE"
    and "\<forall>i\<in>set cols. i + sizeof_long TYPE('l) \<le> FT_SECTOR_SIZE" "encoded m mem C mem'" "C \<subseteq> {..<FT_SECTOR_SIZE}"
  shows "encoded m mem (C \<union> (\<Union>i\<in>set cols. {i..<i + sizeof_long TYPE('l)}))
    (fold (\<lambda>i mem. store_parity mem (m * FT_SECTOR_SIZE + i) (set_parity mem i m :: 'l word \<times> 'l word \<times> 'l word)) cols mem')"
  using assms(3-)
proof (induction cols arbitrary: C mem')
  case (Cons i cols)
  have i: "i + sizeof_long TYPE('l) \<le> FT_SECTOR_SIZE" using Cons.prems(1) by simp
  have "C \<union> {i..<i + sizeof_long TYPE('l)} \<subseteq> {..<FT_SECTOR_SIZE}" using i Cons.prems(3) by auto
  from Cons.IH [OF _ encoded_step [OF ok i len Cons.prems(2,3)] this] Cons.prems(1) show ?case
    by (simp add: Un_assoc)
qed simp

lemma set_segment_parity_encoded:
  assumes ok: "long_ok TYPE('l::len)" and n: "3 \<le> blocks mseg"
    and len: "length (ms_data mseg) = blocks mseg * FT_SECTOR_SIZE"
  shows "encoded (blocks mseg - 3) (ms_data mseg) {..<FT_SECTOR_SIZE}
    (ms_data (ftape_ecc_set_segment_parity TYPE('l) mseg))"
proof -
  have "length (ms_data mseg) = (blocks mseg - 3 + 3) * FT_SECTOR_SIZE" using n len by simp
  from encoded_columns [OF ok this long_columns_tile(1) [OF ok], of "{}" "ms_data mseg"] show ?thesis
    using long_columns_tile(3) [OF ok] by (simp add: encoded_def ftape_ecc_set_segment_parity_def)
qed

subsection \<open>What a successful decoder run leaves behind\<close>

lemma col_eval_update:
  assumes "c < FT_SECTOR_SIZE" "l < n" "n * FT_SECTOR_SIZE \<le> length mem"
  shows "col_eval (mem[c + l * FT_SECTOR_SIZE := gfadd (mem ! (c + l * FT_SECTOR_SIZE)) e]) c n x
    = col_eval mem c n x + GF e * x ^ l"
proof -
  let ?p = "c + l * FT_SECTOR_SIZE" and ?mem = "mem[c + l * FT_SECTOR_SIZE := gfadd (mem ! (c + l * FT_SECTOR_SIZE)) e]"
  have p: "?p < length mem" using row_in_segment [OF assms(1,2)] assms(3) by simp
  have "GF (?mem ! (c + i * FT_SECTOR_SIZE)) * x ^ i
      = GF (mem ! (c + i * FT_SECTOR_SIZE)) * x ^ i + (if i = l then GF e * x ^ l else 0)" for i
    using p by (simp add: nth_list_update GF_add distrib_right)
  then show ?thesis using assms(2) by (simp add: col_eval_def sum.distrib sum.delta)
qed

text \<open>
  Along the correction loop the three check bytes stay apart from the column's syndromes by the
  same amount, and only bytes of the column's marked rows change.
\<close>

definition patched :: "nat \<Rightarrow> nat \<Rightarrow> ecc_state \<Rightarrow> ecc_state \<Rightarrow> bool" where
  "patched c n st st' \<longleftrightarrow> length (ec_data st') = length (ec_data st)
    \<and> (\<forall>q. bit (ec_map st) q \<longrightarrow> bit (ec_map st') q)
    \<and> (\<forall>p. ec_data st' ! p \<noteq> ec_data st ! p \<longrightarrow> p mod FT_SECTOR_SIZE = c \<and> bit (ec_map st') (p div FT_SECTOR_SIZE))"

lemma patched_refl [simp]: "patched c n st st"
  by (simp add: patched_def)

lemma patched_trans: "patched c n st st' \<Longrightarrow> patched c n st' st'' \<Longrightarrow> patched c n st st''"
  unfolding patched_def by metis

lemma correct_byte_patched:
  assumes "correct_byte c mag i (st, m, c0, c1, c2) = (st', m', d0, d1, d2)"
    and c: "c < FT_SECTOR_SIZE" and len: "length (ec_data st) = n * FT_SECTOR_SIZE" and n: "n \<le> 32"
    and l: "0 \<le> ec_loc st i" "ec_loc st i < int n"
  shows "patched c n st st'
    \<and> GF d0 + col_eval (ec_data st') c n (inverse rr) = GF c0 + col_eval (ec_data st) c n (inverse rr)
    \<and> GF d1 + col_eval (ec_data st') c n 1 = GF c1 + col_eval (ec_data st) c n 1
    \<and> GF d2 + col_eval (ec_data st') c n rr = GF c2 + col_eval (ec_data st) c n rr"
proof (cases "mag i = 0")
  case True
  with assms(1) show ?thesis by simp
next
  case False
  define k where "k = nat (ec_loc st i)"
  have k: "ec_loc st i = int k" "k < n" using l by (auto simp: k_def)
  have l': "0 \<le> ec_loc st i" "ec_loc st i \<le> 255" using l n by auto
  have st': "ec_data st' = (ec_data st)[c + k * FT_SECTOR_SIZE := gfadd (ec_data st ! (c + k * FT_SECTOR_SIZE)) (mag i)]"
      "ec_map st' = ec_map st OR push_bit k 1"
    and d: "GF d0 = GF c0 + GF (mag i) * inverse (X (int k))" "GF d1 = GF c1 + GF (mag i)"
      "GF d2 = GF c2 + GF (mag i) * X (int k)"
    using assms(1) False by (auto simp: Let_def k GF_add GF_mod255_locator [OF False l', unfolded k])
  have ev: "col_eval (ec_data st') c n x = col_eval (ec_data st) c n x + GF (mag i) * x ^ k" for x
    unfolding st' using len by (intro col_eval_update [OF c k(2)]) simp
  have "p mod FT_SECTOR_SIZE = c \<and> p div FT_SECTOR_SIZE = k" if "ec_data st' ! p \<noteq> ec_data st ! p" for p
  proof -
    have "p = c + k * FT_SECTOR_SIZE" using that by (metis st'(1) nth_list_update_neq)
    then show ?thesis using c by simp
  qed
  then have "patched c n st st'"
    using k(2) n by (auto simp: patched_def st' bit_or_iff bit_exp_iff possible_bit_word)
  then show ?thesis
    by (simp add: d ev X_def power_inverse algebra_simps)
qed

lemma correct_bytes_patched:
  assumes "fold (correct_byte c mag) [0..<k] (st, m, c0, c1, c2) = (st', m', d0, d1, d2)"
    and c: "c < FT_SECTOR_SIZE" and len: "length (ec_data st) = n * FT_SECTOR_SIZE" and n: "n \<le> 32"
    and "\<forall>i<k. 0 \<le> ec_loc st i \<and> ec_loc st i < int n"
  shows "patched c n st st'
    \<and> GF d0 + col_eval (ec_data st') c n (inverse rr) = GF c0 + col_eval (ec_data st) c n (inverse rr)
    \<and> GF d1 + col_eval (ec_data st') c n 1 = GF c1 + col_eval (ec_data st) c n 1
    \<and> GF d2 + col_eval (ec_data st') c n rr = GF c2 + col_eval (ec_data st) c n rr"
  using assms(1,5)
proof (induction k arbitrary: st' m' d0 d1 d2)
  case (Suc k)
  obtain st1 m1 b0 b1 b2 where f: "fold (correct_byte c mag) [0..<k] (st, m, c0, c1, c2) = (st1, m1, b0, b1, b2)"
    by (metis prod_cases5)
  have fr: "ec_loc st1 = ec_loc st" "length (ec_data st1) = length (ec_data st)"
    using correct_bytes_frame [OF f] by simp_all
  have step: "correct_byte c mag k (st1, m1, b0, b1, b2) = (st', m', d0, d1, d2)"
    using Suc.prems(1) by (simp add: f del: correct_byte.simps)
  from Suc.IH [OF f] Suc.prems(2) correct_byte_patched [OF step c _ n] len show ?case
    by (auto simp: fr intro: patched_trans)
qed simp

definition locations_ok :: "nat \<Rightarrow> nat \<Rightarrow> ecc_state \<Rightarrow> bool" where
  "locations_ok n k st \<longleftrightarrow> (\<forall>i<k. 0 \<le> ec_loc st i \<and> ec_loc st i < int n)"

lemma block_magnitudes_locations:
  assumes "block_magnitudes (int n) nbad s st = (st', Some (nbad', mag))" and "locations_ok n nbad st"
  shows "locations_ok n nbad' st'" "locations_ok n nbad st'" "ec_data st' = ec_data st" "ec_map st' = ec_map st"
proof -
  have "locations_ok n nbad' st' \<and> locations_ok n nbad st' \<and> ec_data st' = ec_data st \<and> ec_map st' = ec_map st"
    using assms unfolding block_magnitudes_def
    by (auto simp: Let_def locations_ok_def less_Suc_eq numeral_2_eq_2 split: if_splits option.splits)
  then show "locations_ok n nbad' st'" "locations_ok n nbad st'" "ec_data st' = ec_data st" "ec_map st' = ec_map st"
    by auto
qed

lemma correct_block_sound:
  assumes cb: "correct_block c (int n) nbad s st = (st', r)" "0 \<le> r"
    and loc: "locations_ok n nbad st"
    and c: "c < FT_SECTOR_SIZE" and len: "length (ec_data st) = n * FT_SECTOR_SIZE" and n: "n \<le> 32"
    and s: "GF (s 0) = col_eval (ec_data st) c n (inverse rr)" "GF (s 1) = col_eval (ec_data st) c n 1"
      "GF (s 2) = col_eval (ec_data st) c n rr"
  shows "patched c n st st' \<and> codeword (ec_data st') c n \<and> locations_ok n nbad st'"
proof -
  note [simp del] = One_nat_def
  obtain st1 x where bm: "block_magnitudes (int n) nbad s st = (st1, x)" by (metis surj_pair)
  with cb obtain nbad' mag where x: "x = Some (nbad', mag)"
    by (cases x) (auto simp: correct_block_def)
  obtain st2 m b0 b1 b2 where f: "fold (correct_byte c mag) [0..<nbad'] (st1, 0, s 0, s 1, s 2) = (st2, m, b0, b1, b2)"
    by (metis prod_cases5)
  with cb bm x have z: "b0 = 0" "b1 = 0" "b2 = 0" "st' = st2"
    by (auto simp: correct_block_def split: if_splits)
  note bl = block_magnitudes_locations [OF bm [unfolded x] loc]
  have locs: "\<forall>i<nbad'. 0 \<le> ec_loc st1 i \<and> ec_loc st1 i < int n" using bl(1) by (simp add: locations_ok_def)
  have len1: "length (ec_data st1) = n * FT_SECTOR_SIZE" using bl(3) len by simp
  note p = correct_bytes_patched [OF f c len1 n locs]
  have "locations_ok n nbad st'" using bl(2) correct_bytes_frame [OF f] by (simp add: z locations_ok_def)
  with p show ?thesis using s bl(3,4) by (simp add: z codeword_def patched_def)
qed


text \<open>
  The invariant of the column loops: the columns \<open>C\<close> are code words now, and every byte that
  differs from the segment as it was read lies in one of them, in a row of the correction map.
\<close>

definition checked :: "nat \<Rightarrow> nat \<Rightarrow> bytes \<Rightarrow> nat set \<Rightarrow> ecc_state \<Rightarrow> bool" where
  "checked n nera mem C st \<longleftrightarrow> locations_ok n nera st \<and> n \<le> 32 \<and> length mem = n * FT_SECTOR_SIZE
    \<and> length (ec_data st) = n * FT_SECTOR_SIZE
    \<and> (\<forall>c\<in>C. c < FT_SECTOR_SIZE \<longrightarrow> codeword (ec_data st) c n)
    \<and> (\<forall>p < n * FT_SECTOR_SIZE. ec_data st ! p \<noteq> mem ! p \<longrightarrow>
         p mod FT_SECTOR_SIZE \<in> C \<and> bit (ec_map st) (p div FT_SECTOR_SIZE))"

lemma checked_patched:
  assumes ch: "checked n nera mem C st" and p: "patched c n st st'" and cw: "codeword (ec_data st') c n"
    and loc: "locations_ok n nera st'" and c: "c < FT_SECTOR_SIZE"
  shows "checked n nera mem (insert c C) st'"
proof -
  have "codeword (ec_data st') d n" if "d \<in> C" "d < FT_SECTOR_SIZE" "d \<noteq> c" for d
  proof -
    have "codeword (ec_data st') d n \<longleftrightarrow> codeword (ec_data st) d n"
      using p that by (intro column_cong(2) [OF that(2)]) (auto simp: patched_def)
    then show ?thesis using ch that by (simp add: checked_def)
  qed
  moreover have "q mod FT_SECTOR_SIZE \<in> insert c C \<and> bit (ec_map st') (q div FT_SECTOR_SIZE)"
    if "q < n * FT_SECTOR_SIZE" "ec_data st' ! q \<noteq> mem ! q" for q
    using ch p that unfolding checked_def patched_def by (metis insert_iff)
  ultimately show ?thesis using ch p cw loc by (auto simp: checked_def patched_def)
qed

lemma checked_clean:
  assumes "checked n nera mem C st" "\<forall>c\<in>D. codeword (ec_data st) c n"
  shows "checked n nera mem (C \<union> D) st"
  using assms by (auto simp: checked_def)

text \<open>The columns ahead keep the syndromes they had before the columns behind were corrected.\<close>

lemma patched_col_eval:
  assumes "patched c n st st'" "d < FT_SECTOR_SIZE" "d \<noteq> c"
  shows "col_eval (ec_data st') d n x = col_eval (ec_data st) d n x"
  using assms by (intro column_cong(1)) (auto simp: patched_def)

lemma correct_lanes_checked:
  fixes ss0 ss1 ss2 :: "'l::len word"
  assumes "correct_lanes k c (int n) nera (ss0, ss1, ss2) (st, r) = (st', Some r')"
    and "checked n nera mem C st" and "c + k \<le> FT_SECTOR_SIZE"
    and "\<forall>j<k. GF (lane j ss0) = col_eval (ec_data st) (c + j) n (inverse rr) \<and>
      GF (lane j ss1) = col_eval (ec_data st) (c + j) n 1 \<and> GF (lane j ss2) = col_eval (ec_data st) (c + j) n rr"
  shows "checked n nera mem (C \<union> {c..<c + k}) st'"
  using assms
proof (induction k arbitrary: c C st r ss0 ss1 ss2)
  case (Suc k)
  note [simp del] = One_nat_def
  let ?s = "(\<lambda>_. 0)(0 := lane 0 ss0, 1 := lane 0 ss1, 2 := lane 0 ss2) :: nat \<Rightarrow> u8"
  have c: "c < FT_SECTOR_SIZE" using Suc.prems(3) by simp
  have s: "GF (?s 0) = col_eval (ec_data st) c n (inverse rr)" "GF (?s 1) = col_eval (ec_data st) c n 1"
      "GF (?s 2) = col_eval (ec_data st) c n rr"
    using Suc.prems(4) [rule_format, of 0] by simp_all
  have loc: "locations_ok n nera st" and len: "length (ec_data st) = n * FT_SECTOR_SIZE" and n: "n \<le> 32"
    using Suc.prems(2) by (simp_all add: checked_def)
  obtain st1 r1 where step: "correct_lanes k (Suc c) (int n) nera
      (drop_bit 8 ss0, drop_bit 8 ss1, drop_bit 8 ss2) (st1, r1) = (st', Some r')"
    and st1: "checked n nera mem (insert c C) st1"
    and old: "\<forall>d < FT_SECTOR_SIZE. d \<noteq> c \<longrightarrow> (\<forall>x. col_eval (ec_data st1) d n x = col_eval (ec_data st) d n x)"
  proof (cases "?s 0 = 0 \<and> ?s 1 = 0 \<and> ?s 2 = 0")
    case True
    then have "codeword (ec_data st) c n" using s by (simp add: codeword_def)
    then have "checked n nera mem (insert c C) st" using checked_clean [OF Suc.prems(2), of "{c}"] by simp
    moreover have "correct_lanes k (Suc c) (int n) nera
      (drop_bit 8 ss0, drop_bit 8 ss1, drop_bit 8 ss2) (st, r) = (st', Some r')"
      using Suc.prems(1) True by (simp add: lane_0_ucast Let_def)
    ultimately show ?thesis using that by blast
  next
    case False
    obtain st1 q where cb: "correct_block c (int n) nera ?s st = (st1, q)" by (metis surj_pair)
    with Suc.prems(1) False have q: "0 \<le> q" "correct_lanes k (Suc c) (int n) nera
      (drop_bit 8 ss0, drop_bit 8 ss1, drop_bit 8 ss2) (st1, r + q) = (st', Some r')"
      by (auto simp: lane_0_ucast Let_def or_eq_0_iff split: if_splits)
    note so = correct_block_sound [OF cb q(1) loc c len n s]
    then have "checked n nera mem (insert c C) st1" using checked_patched [OF Suc.prems(2)] c by blast
    then show ?thesis using that q(2) so patched_col_eval by blast
  qed
  have "\<forall>j<k. GF (lane j (drop_bit 8 ss0)) = col_eval (ec_data st1) (Suc c + j) n (inverse rr) \<and>
      GF (lane j (drop_bit 8 ss1)) = col_eval (ec_data st1) (Suc c + j) n 1 \<and>
      GF (lane j (drop_bit 8 ss2)) = col_eval (ec_data st1) (Suc c + j) n rr"
    using Suc.prems(3,4) old by (auto simp: lane_drop8 dest: spec [of _ "Suc _"])
  from Suc.IH [OF step st1 _ this] Suc.prems(3)
  have "checked n nera mem (insert c C \<union> {Suc c..<Suc c + k}) st'" by simp
  moreover have "insert c C \<union> {Suc c..<Suc c + k} = C \<union> {c..<c + Suc k}" by auto
  ultimately show ?case by metis
qed simp

lemma correct_columns_checked:
  assumes ok: "long_ok TYPE('l::len)"
    and "correct_columns TYPE('l) cols n nera (st, r) = (st', Some r')"
    and "checked n nera mem C st" "\<forall>col\<in>set cols. col + sizeof_long TYPE('l) \<le> FT_SECTOR_SIZE"
  shows "checked n nera mem (C \<union> (\<Union>col\<in>set cols. {col..<col + sizeof_long TYPE('l)})) st'"
  using assms(2-)
proof (induction cols arbitrary: C st r)
  case (Cons col cols)
  let ?k = "sizeof_long TYPE('l)" and ?D = "C \<union> {col..<col + sizeof_long TYPE('l)}"
  have n: "n \<le> 255" using Cons.prems(2) by (simp add: checked_def)
  have col: "col + ?k \<le> FT_SECTOR_SIZE" using Cons.prems(3) by simp
  have "\<exists>st1 r1. correct_columns TYPE('l) cols n nera (st1, r1) = (st', Some r') \<and> checked n nera mem ?D st1"
  proof (cases "compute_syndromes (ec_data st) col n :: ('l word \<times> 'l word \<times> 'l word) option")
    case None
    then have "\<forall>k<?k. codeword (ec_data st) (col + k) n" by (simp only: compute_syndromes_None [OF ok])
    then have "checked n nera mem ?D st"
      by (intro checked_clean [OF Cons.prems(2)]) (auto simp: nat_le_iff_add)
    with None Cons.prems(1) show ?thesis by auto
  next
    case (Some ss)
    obtain s0 s1 s2 where ss: "ss = (s0, s1, s2)" by (metis prod_cases3)
    obtain st1 q where cl: "correct_lanes ?k col (int n) nera (s0, s1, s2) (st, r) = (st1, q)" by (metis surj_pair)
    then obtain r1 where q: "q = Some r1" "correct_columns TYPE('l) cols n nera (st1, r1) = (st', Some r')"
      using Cons.prems(1) Some ss by (auto split: option.splits)
    have "checked n nera mem ?D st1"
      using compute_syndromes_Some [OF ok _ n Some [unfolded ss]]
      by (intro correct_lanes_checked [OF cl [unfolded q(1)] Cons.prems(2) col]) simp
    then show ?thesis using q(2) by blast
  qed
  then obtain st1 r1 where "correct_columns TYPE('l) cols n nera (st1, r1) = (st', Some r')" "checked n nera mem ?D st1"
    by blast
  from Cons.IH [OF this] Cons.prems(3) show ?case by (simp add: Un_assoc)
qed simp

lemma correct_data_checked:
  assumes ok: "long_ok TYPE('l::len)" and n: "blocks mseg \<le> 32"
    and len: "length (ms_data mseg) = blocks mseg * FT_SECTOR_SIZE"
    and res: "ftape_ecc_correct_data TYPE('l) mseg = (mseg', r)" "r \<noteq> ECC_FAILED"
  shows "(\<forall>c < FT_SECTOR_SIZE. codeword (ms_data mseg') c (blocks mseg))
    \<and> length (ms_data mseg') = length (ms_data mseg)
    \<and> (\<forall>p < length (ms_data mseg). ms_data mseg' ! p \<noteq> ms_data mseg ! p \<longrightarrow> bit (corrected mseg') (p div FT_SECTOR_SIZE))"
proof -
  let ?n = "blocks mseg" and ?R = "erasures mseg" and ?k = "sizeof_long TYPE('l)"
  let ?clean = "\<lambda>col. (compute_syndromes (ms_data mseg) col ?n :: ('l word \<times> 'l word \<times> 'l word) option) = None"
  define pre where "pre = takeWhile ?clean (long_columns TYPE('l))"
  define cols where "cols = dropWhile ?clean (long_columns TYPE('l))"
  define C where "C = (\<Union>col\<in>set pre. {col..<col + ?k})"
  have split: "long_columns TYPE('l) = pre @ cols" by (simp add: pre_def cols_def)
  note tile = long_columns_tile [OF ok, unfolded split set_append]
  have CC: "C \<union> (\<Union>col\<in>set cols. {col..<col + ?k}) = {..<FT_SECTOR_SIZE}"
    using tile(3) by (simp add: C_def)
  have clean: "\<forall>c\<in>C. codeword (ms_data mseg) c ?n"
    using long_columns_clean [OF ok, of "ms_data mseg" ?n] set_takeWhileD
    by (fastforce simp: C_def pre_def)
  show ?thesis
  proof (cases "cols = []")
    case True
    then have "ftape_ecc_correct_data TYPE('l) mseg = (mseg\<lparr>corrected := 0\<rparr>, ECC_OK)"
      by (simp add: ftape_ecc_correct_data_def cols_def Let_def)
    with res True CC clean show ?thesis by auto
  next
    case False
    have R: "length ?R \<le> 3"
    proof (rule ccontr)
      assume "\<not> length ?R \<le> 3"
      then have "find_erasures (mseg\<lparr>corrected := 0\<rparr>) = None"
        by (simp add: find_erasures_filter erasures_def Let_def)
      with res False show False by (auto simp: ftape_ecc_correct_data_def cols_def Let_def split: if_splits)
    qed
    have n': "?n \<le> 254" using n by simp
    obtain st where st: "prepared ?n ?R st" "ec_data st = ms_data mseg"
      and eq: "ftape_ecc_correct_data TYPE('l) mseg =
      (case correct_columns TYPE('l) cols ?n (length ?R) (st, 0) of
         (st', None) \<Rightarrow> (mseg\<lparr>ms_data := ec_data st', corrected := ec_map st'\<rparr>, ECC_FAILED)
       | (st', Some k) \<Rightarrow> (mseg\<lparr>ms_data := ec_data st', corrected := ec_map st'\<rparr>,
           if k \<noteq> 0 then ECC_CORRECTED else ECC_OK))"
      by (rule correct_data_start [OF erasures_def R n' cols_def [symmetric] False])
    obtain st' k where cc: "correct_columns TYPE('l) cols ?n (length ?R) (st, 0) = (st', Some k)"
      and m': "mseg' = mseg\<lparr>ms_data := ec_data st', corrected := ec_map st'\<rparr>"
      using res eq by (auto split: prod.splits option.splits)
    have "checked ?n (length ?R) (ms_data mseg) C st"
      using st n len clean by (auto simp: checked_def prepared_def locations_ok_def subset_eq)
    from correct_columns_checked [OF ok cc this] tile(1)
    have "checked ?n (length ?R) (ms_data mseg) {..<FT_SECTOR_SIZE} st'" by (simp add: CC)
    then show ?thesis using len by (simp add: checked_def m')
  qed
qed

section \<open>The theorems of the error correction\<close>

text \<open>
  A segment of zeros is made of code words; the examples below use it with one byte or whole
  sectors overwritten.
\<close>

lemma codeword_zeros: "c < FT_SECTOR_SIZE \<Longrightarrow> m = n * FT_SECTOR_SIZE \<Longrightarrow> codeword (replicate m 0) c n"
  using row_in_segment [of c _ n] by (simp add: codeword_def col_eval_def)

text \<open>
  C1. Error correction restores the segment: when the sectors the drive reported as bad are at
  most three and every column has, outside those sectors, at most \<open>(3 - erasures) div 2\<close> wrong
  bytes, \<open>ftape_ecc_correct_data\<close> does not fail and the segment's bytes are afterwards those of
  the code words that had been written.
\<close>

theorem correct_data_restores:
  assumes "long_ok TYPE('l::len)" and "blocks mseg \<le> FT_SECTORS_PER_SEGMENT"
    and "length (ms_data mseg) = blocks mseg * FT_SECTOR_SIZE" and "length mem0 = blocks mseg * FT_SECTOR_SIZE"
    and "\<forall>c < FT_SECTOR_SIZE. codeword mem0 c (blocks mseg)"
    and "length (erasures mseg) \<le> 3"
    and "\<forall>c < FT_SECTOR_SIZE. card (silent_errors mem0 mseg c) \<le> (3 - length (erasures mseg)) div 2"
  shows "\<exists>mseg' r. ftape_ecc_correct_data TYPE('l) mseg = (mseg', r) \<and> r \<noteq> ECC_FAILED
    \<and> ms_data mseg' = mem0 \<and> blocks mseg' = blocks mseg"
  using assms by (intro correct_data_damaged) (simp_all add: damaged_def correctable_silent_errors)

definition zeros_hit :: memory_segment where
  "zeros_hit = \<lparr>marked_bad = 0, read_bad = 2, blocks = 32,
     ms_data = (replicate 32768 0)[1500 := 7, 5000 := 9], corrected = 0\<rparr>"

lemma erasures_zeros_hit: "erasures zeros_hit = [1]"
proof -
  have "filter (BAD_CHECK 2) [0..<32] = [1]" by code_simp
  then show ?thesis by (simp add: erasures_def zeros_hit_def)
qed

lemma silent_errors_zeros_hit: "c < FT_SECTOR_SIZE \<Longrightarrow> card (silent_errors (replicate 32768 0) zeros_hit c) \<le> 1"
proof -
  assume c: "c < FT_SECTOR_SIZE"
  have row: "x = 1" if "c + x * FT_SECTOR_SIZE = 1500" for x using c arg_cong [OF that, of "\<lambda>n. n div FT_SECTOR_SIZE"] by simp
  have "BAD_CHECK 2 1" by code_simp
  with c have "silent_errors (replicate 32768 0) zeros_hit c \<subseteq> {4}"
    by (auto simp: silent_errors_def zeros_hit_def nth_list_update dest: row split: if_splits)
  then show ?thesis using card_mono [of "{4::nat}"] by fastforce
qed

theorem correct_data_restores_witness:
  "\<exists>mseg' r. ftape_ecc_correct_data TYPE(64) zeros_hit = (mseg', r) \<and> r \<noteq> ECC_FAILED
    \<and> ms_data mseg' = replicate 32768 0 \<and> blocks mseg' = blocks zeros_hit"
proof (rule correct_data_restores)
  show "\<forall>c < FT_SECTOR_SIZE. card (silent_errors (replicate 32768 0) zeros_hit c) \<le> (3 - length (erasures zeros_hit)) div 2"
    using silent_errors_zeros_hit by (simp add: erasures_zeros_hit)
qed (simp_all add: erasures_zeros_hit, simp_all add: zeros_hit_def codeword_zeros)

text \<open>
  C13. The encoder: \<open>ftape_ecc_set_segment_parity\<close> leaves the data sectors as they are and makes
  a code word of every column, by writing the last three sectors only.
\<close>

theorem set_segment_parity_codewords:
  assumes "long_ok TYPE('l::len)" and "3 \<le> blocks mseg"
    and "length (ms_data mseg) = blocks mseg * FT_SECTOR_SIZE"
  defines "mseg' \<equiv> ftape_ecc_set_segment_parity TYPE('l) mseg"
  shows "(\<forall>c < FT_SECTOR_SIZE. codeword (ms_data mseg') c (blocks mseg))
    \<and> take ((blocks mseg - 3) * FT_SECTOR_SIZE) (ms_data mseg') = take ((blocks mseg - 3) * FT_SECTOR_SIZE) (ms_data mseg)
    \<and> mseg' = mseg\<lparr>ms_data := ms_data mseg'\<rparr> \<and> length (ms_data mseg') = length (ms_data mseg)"
proof -
  have e: "encoded (blocks mseg - 3) (ms_data mseg) {..<FT_SECTOR_SIZE} (ms_data mseg')"
    unfolding mseg'_def using assms(1-3) by (rule set_segment_parity_encoded)
  then have "take ((blocks mseg - 3) * FT_SECTOR_SIZE) (ms_data mseg') = take ((blocks mseg - 3) * FT_SECTOR_SIZE) (ms_data mseg)"
    using assms(3) by (intro nth_equalityI) (simp_all add: encoded_def)
  with e show ?thesis using assms(2) by (simp add: encoded_def mseg'_def ftape_ecc_set_segment_parity_def)
qed

theorem set_segment_parity_codewords_witness:
  "codeword (ms_data (ftape_ecc_set_segment_parity TYPE(32) zeros_hit)) 476 32"
  using set_segment_parity_codewords [where 'l = 32, of zeros_hit] by (simp add: zeros_hit_def)

text \<open>
  C22. A decoder run that does not report \<open>ECC_FAILED\<close> leaves a code word in every column,
  whatever the damage was; and every sector with a changed byte is marked in the segment's
  \<open>corrected\<close> map, which tells the driver to write it back.
\<close>

theorem correct_data_sound:
  assumes "long_ok TYPE('l::len)" and "blocks mseg \<le> FT_SECTORS_PER_SEGMENT"
    and "length (ms_data mseg) = blocks mseg * FT_SECTOR_SIZE"
    and "ftape_ecc_correct_data TYPE('l) mseg = (mseg', r)" "r \<noteq> ECC_FAILED"
  shows "(\<forall>c < FT_SECTOR_SIZE. codeword (ms_data mseg') c (blocks mseg))
    \<and> length (ms_data mseg') = length (ms_data mseg)
    \<and> (\<forall>p < length (ms_data mseg). ms_data mseg' ! p \<noteq> ms_data mseg ! p \<longrightarrow>
        bit (corrected mseg') (p div FT_SECTOR_SIZE))"
  using assms by (rule correct_data_checked)

definition zeros :: memory_segment where
  "zeros = \<lparr>marked_bad = 0, read_bad = 0, blocks = 32, ms_data = replicate 32768 0, corrected = 0\<rparr>"

text \<open>On a segment all of whose columns are code words, the decoder finds nothing to do.\<close>

lemma correct_data_clean:
  assumes ok: "long_ok TYPE('l::len)" and cw: "\<forall>c < FT_SECTOR_SIZE. codeword (ms_data mseg) c (blocks mseg)"
  shows "ftape_ecc_correct_data TYPE('l) mseg = (mseg\<lparr>corrected := 0\<rparr>, ECC_OK)"
proof -
  have "\<forall>col\<in>set (long_columns TYPE('l)). compute_syndromes (ms_data mseg) col (blocks mseg)
      = (None :: ('l word \<times> 'l word \<times> 'l word) option)"
    using long_columns_clean [OF ok, of "ms_data mseg" "blocks mseg"] long_columns_tile(1) [OF ok] cw by fastforce
  then show ?thesis by (simp add: ftape_ecc_correct_data_def Let_def dropWhile_eq_Nil_conv [THEN iffD2])
qed

theorem correct_data_sound_witness:
  "codeword (ms_data (fst (ftape_ecc_correct_data TYPE(64) zeros))) 17 32"
proof -
  have "ftape_ecc_correct_data TYPE(64) zeros = (zeros\<lparr>corrected := 0\<rparr>, ECC_OK)"
    by (rule correct_data_clean) (simp_all add: zeros_def codeword_zeros)
  from correct_data_sound [OF _ _ _ this] this show ?thesis by (simp add: zeros_def)
qed

text \<open>
  Round trip: reading back what the encoder wrote, undamaged, is \<open>ECC_OK\<close> with every byte as
  it was written.
\<close>

theorem set_parity_correct_data_roundtrip:
  assumes "long_ok TYPE('l::len)" and "3 \<le> blocks mseg"
    and "length (ms_data mseg) = blocks mseg * FT_SECTOR_SIZE"
  shows "ftape_ecc_correct_data TYPE('l) (ftape_ecc_set_segment_parity TYPE('l) mseg)
    = ((ftape_ecc_set_segment_parity TYPE('l) mseg)\<lparr>corrected := 0\<rparr>, ECC_OK)"
proof (rule correct_data_clean [OF assms(1)])
  have "blocks (ftape_ecc_set_segment_parity TYPE('l) mseg) = blocks mseg - 3 + 3"
    using assms(2) by (simp add: ftape_ecc_set_segment_parity_def)
  then show "\<forall>c < FT_SECTOR_SIZE. codeword (ms_data (ftape_ecc_set_segment_parity TYPE('l) mseg)) c
      (blocks (ftape_ecc_set_segment_parity TYPE('l) mseg))"
    using set_segment_parity_encoded [OF assms] by (simp add: encoded_def)
qed

theorem set_parity_correct_data_roundtrip_witness:
  "snd (ftape_ecc_correct_data TYPE(64) (ftape_ecc_set_segment_parity TYPE(64) zeros_hit)) = ECC_OK"
  using set_parity_correct_data_roundtrip [where 'l = 64, of zeros_hit] by (simp add: zeros_hit_def)

end
