(* ===== verification/Ft_Write.thy ===== *)
theory Ft_Write
  imports Fdc_Isr Ft_Ecc_Segment
begin

text \<open>
  The write path of the low-level driver, \<open>src/ftape/lowlevel/ftape-write.c\<close>, with the buffer operations of the
  internal controller (\<open>src/ftape/internal/fdc-internal.c\<close>) and of \<open>src/ftape/lowlevel/ftape-buffer.c\<close>: the memory
  of the buffers in the ring, the deblock buffer that is exchanged with it, the error correction code of a
  segment that is queued, the queueing of a segment with its retries, and the recovery from a hard
  write error, which moves the data in the ring towards the end of the tape.

  A memory area is its bus address and its contents. What the drive and the interrupt handler do while the
  driver waits is the argument \<open>write_env\<close>; interrupts change the state at these points only. The two loops
  that wait without a bound, \<open>ftape_wait_segment\<close> and \<open>ftape_loop_until_writes_done\<close>, are partial functions: \<open>None\<close>
  when they do not return, or when a bad sector map is read outside its buffer. Taking
  the deblock buffer also counts the users of the module, which is not part of the state.
\<close>

section \<open>The memory of the buffers\<close>

record write_state =
  w_isr :: isr_state
  w_mem :: "(int \<times> bytes) list"
  w_deblock :: "int \<times> bytes"
  w_held :: bool

definition w_buf :: "write_state \<Rightarrow> nat \<Rightarrow> buffer_struct" where
  "w_buf s i = buffers (fdc (w_isr s)) ! i"

definition set_buf :: "nat \<Rightarrow> (buffer_struct \<Rightarrow> buffer_struct) \<Rightarrow> write_state \<Rightarrow> write_state" where
  "set_buf i f s = s\<lparr>w_isr := (w_isr s)\<lparr>fdc := (fdc (w_isr s))\<lparr>buffers := (buffers (fdc (w_isr s)))[i := f (w_buf s i)]\<rparr>\<rparr>\<rparr>"

definition w_ft :: "write_state \<Rightarrow> ftape_info" where
  "w_ft s = ft (w_isr s)"

definition set_ft :: "ftape_info \<Rightarrow> write_state \<Rightarrow> write_state" where
  "set_ft f s = s\<lparr>w_isr := (w_isr s)\<lparr>ft := f\<rparr>\<rparr>"

text \<open>
  \<open>fdc_int_read_buffer\<close> and \<open>fdc_int_write_buffer\<close> exchange the memory of a buffer with the deblock buffer
  instead of copying. \<open>w_held\<close> tells whether the caller's pointer to the deblock buffer is set: it is the destination
  of the first and the source of the second, which resets it and refuses any other source.
\<close>

definition swap_deblock :: "nat \<Rightarrow> bool \<Rightarrow> write_state \<Rightarrow> write_state" where
  "swap_deblock i held s =
    set_buf i (\<lambda>b. b\<lparr>b_dma_address := fst (w_deblock s)\<rparr>)
      (s\<lparr>w_mem := (w_mem s)[i := w_deblock s], w_deblock := w_mem s ! i, w_held := held\<rparr>)"

definition fdc_int_read_buffer :: "nat \<Rightarrow> write_state \<Rightarrow> write_state" where
  "fdc_int_read_buffer i s = swap_deblock i True s"

definition fdc_int_write_buffer :: "nat \<Rightarrow> write_state \<Rightarrow> write_state \<times> unit result" where
  "fdc_int_write_buffer i s = (if \<not> w_held s then (s, Inl EINVAL) else (swap_deblock i False s, Inr ()))"

text \<open>The error correction code covers the first \<open>blocks\<close> sectors of the buffer.\<close>

definition gen_ecc :: "'l::len itself \<Rightarrow> nat \<Rightarrow> bytes \<Rightarrow> bytes" where
  "gen_ecc t n m =
    ms_data (ftape_ecc_set_segment_parity t \<lparr>marked_bad = 0, read_bad = 0, blocks = n, ms_data = take (n * FT_SECTOR_SIZE) m, corrected = 0\<rparr>)
      @ drop (n * FT_SECTOR_SIZE) m"

definition fdc_int_copy_and_gen_ecc :: "'l::len itself \<Rightarrow> nat \<Rightarrow> u32 \<Rightarrow> write_state \<Rightarrow> write_state \<times> int result" where
  "fdc_int_copy_and_gen_ecc t i bsm s =
    (let bads = count_ones bsm
     in case fdc_int_write_buffer i s of
       (s1, Inl e) \<Rightarrow> (s1, Inl e)
     | (s1, Inr _) \<Rightarrow>
         if bads + 3 \<ge> FT_SECTORS_PER_SEGMENT then (s1, Inr 0)
         else let n = FT_SECTORS_PER_SEGMENT - bads; (addr, m) = w_mem s1 ! i
              in (set_buf i (\<lambda>b. b\<lparr>b_bytes := int n * 1024\<rparr>) (s1\<lparr>w_mem := (w_mem s1)[i := (addr, gen_ecc t n m)]\<rparr>),
                  Inr ((int n - 3) * 1024)))"

section \<open>Queueing a segment\<close>

text \<open>
  What the drive, the interrupt handler and the signals contribute: the wait of \<open>ftape_dumb_stop\<close> for the
  controller and the drive, \<open>ftape_stop_tape\<close>, the drive status at the logical end of a track, the start of the
  tape, one wait for an interrupt (\<open>fdc_interrupt_wait\<close>), the report of the drive after an error, the
  error of a transfer command and whether a signal is pending.
\<close>

datatype ft_write_mode_t = FT_WR_ASYNC | FT_WR_MULTI | FT_WR_SINGLE | FT_WR_DELETE

record write_env =
  e_halt :: "write_state \<Rightarrow> write_state \<times> unit result"
  e_stop_tape :: "write_state \<Rightarrow> write_state \<times> unit result"
  e_ready :: "write_state \<Rightarrow> (bool \<times> bool) result"
  e_start_tape :: "int \<Rightarrow> bool \<Rightarrow> write_state \<Rightarrow> write_state \<times> unit result"
  e_interrupt :: "write_state \<Rightarrow> write_state \<times> unit result"
  e_report :: "write_state \<Rightarrow> write_state \<times> unit result"
  e_setup_error :: "write_state \<Rightarrow> errno option"
  e_signal :: "write_state \<Rightarrow> bool"

definition w_head :: "write_state \<Rightarrow> nat" where "w_head s = buffer_head (fdc (w_isr s))"

definition w_tail :: "write_state \<Rightarrow> nat" where "w_tail s = buffer_tail (fdc (w_isr s))"

definition set_fdc :: "(fdc_info \<Rightarrow> fdc_info) \<Rightarrow> write_state \<Rightarrow> write_state" where
  "set_fdc g s = s\<lparr>w_isr := (w_isr s)\<lparr>fdc := g (fdc (w_isr s))\<rparr>\<rparr>"

definition ftape_reset_buffer :: "write_state \<Rightarrow> write_state" where
  "ftape_reset_buffer s = set_ft ((w_ft s)\<lparr>old_segment_id := -1\<rparr>) (set_fdc (\<lambda>c. c\<lparr>buffer_head := 0, buffer_tail := 0\<rparr>) s)"

definition fdc_zap_buffers :: "fdc_info \<Rightarrow> fdc_info" where
  "fdc_zap_buffers c = c\<lparr>buffers := map (\<lambda>b. b\<lparr>b_status := waiting, b_bytes := 0, b_skip := 0, b_retry := 0\<rparr>) (buffers c)\<rparr>"

definition terminate_dma :: "fdc_info \<Rightarrow> fdc_info" where
  "terminate_dma c = c\<lparr>fdc_cmd := fdc_cmd c @ [Terminate_Dma]\<rparr>"

definition ftape_zap_read_buffers :: "write_state \<Rightarrow> write_state" where
  "ftape_zap_read_buffers s = ftape_reset_buffer (set_fdc (\<lambda>c. terminate_dma (fdc_zap_buffers c)) s)"

definition ftape_zap_write_buffers :: "write_state \<Rightarrow> write_state" where
  "ftape_zap_write_buffers s =
    (if buffers (fdc (w_isr s)) = [] then s
     else ftape_reset_buffer (set_fdc (\<lambda>c. terminate_dma (c\<lparr>buffers := map (set_status buf_done) (buffers c)\<rparr>)) s))"

definition ftape_dumb_stop :: "write_env \<Rightarrow> write_state \<Rightarrow> write_state \<times> unit result" where
  "ftape_dumb_stop E s =
    (case e_halt E s of (s1, r) \<Rightarrow>
       let f = (w_ft s1)\<lparr>location := (location (w_ft s1))\<lparr>loc_known := False\<rparr>\<rparr>
       in (set_ft (if runner_status f \<in> {aborting, do_abort} then f\<lparr>runner_status := idle\<rparr> else f) s1, r))"

definition ftape_abort_operation :: "write_env \<Rightarrow> write_state \<Rightarrow> write_state \<times> unit result" where
  "ftape_abort_operation E s =
    (let s1 = (if runner_status (w_ft s) = running then set_ft ((w_ft s)\<lparr>runner_status := do_abort\<rparr>) s else s);
         (s2, r2) = ftape_dumb_stop E s1;
         (s3, r3) = (if runner_status (w_ft s2) \<noteq> idle then
             (case e_stop_tape E s2 of (s', r) \<Rightarrow>
                (set_ft ((w_ft s')\<lparr>location := (location (w_ft s'))\<lparr>loc_known := False\<rparr>, runner_status := idle\<rparr>) s', r))
           else (s2, r2));
         s4 = ftape_zap_read_buffers s3
     in (set_ft (fst (ftape_set_state (w_ft s4) waiting)) s4, r3))"

partial_function (option) ftape_wait_segment ::
  "write_env \<Rightarrow> buffer_state_enum \<Rightarrow> write_state \<Rightarrow> (write_state \<times> unit result) option" where
  "ftape_wait_segment E st s =
    (if e_signal E s then Some (s, Inl EINTR)
     else if b_status (w_buf s (w_tail s)) \<noteq> st then
       Some (if b_status (w_buf s (w_tail s)) \<noteq> buf_error then (s, Inr ()) else e_report E s)
     else (case e_interrupt E s of (s1, r) \<Rightarrow>
       (case r of Inl e \<Rightarrow> Some (s1, Inl e)
        | Inr _ \<Rightarrow> if setup_error (w_ft s1) then Some (s1, Inl EIO) else ftape_wait_segment E st s1)))"

text \<open>
  \<open>ftape_start_writing\<close> starts the transfer of the segment at \<open>HEAD\<close>; \<open>None\<close> when the bad sector map
  is read outside its buffer.
\<close>

definition wanted_state :: "ft_write_mode_t \<Rightarrow> buffer_state_enum" where
  "wanted_state mode = (if mode = FT_WR_DELETE then deleting else writing)"

definition go_writing :: "write_env \<Rightarrow> ft_write_mode_t \<Rightarrow> write_state \<Rightarrow> write_state \<times> unit result" where
  "go_writing E mode s =
    (let op = (if mode = FT_WR_DELETE then fdc_deleting else fdc_writing_data);
         (i, ok) = fdc_setup_read_write (w_isr s) (w_buf s (w_head s)) op (e_setup_error E s = None);
         s1 = s\<lparr>w_isr := i\<rparr>
     in (set_ft (fst (ftape_set_state (w_ft s1) (wanted_state mode))) s1,
         if ok then Inr () else Inl (case e_setup_error E s of None \<Rightarrow> EIO | Some e \<Rightarrow> e)))"

definition ftape_start_writing :: "write_env \<Rightarrow> ft_write_mode_t \<Rightarrow> write_state \<Rightarrow> (write_state \<times> unit result) option" where
  "ftape_start_writing E mode s =
    (let h = w_head s; segment_id = b_segment_id (w_buf s h)
     in if driver_state (w_ft s) \<noteq> wanted_state mode then Some (s, Inr ())
     else if b_status (w_buf s h) \<noteq> waiting then Some (s, Inr ())
     else do {
       (f, b) \<leftarrow> ftape_setup_new_segment (w_ft s) (w_buf s h) segment_id True;
       let b1 = (if mode = FT_WR_SINGLE then b\<lparr>b_next_segment := 0\<rparr> else b);
       let b2 = set_status (driver_state f) (fst (ftape_calc_next_cluster b1));
       let s1 = set_buf h (\<lambda>_. b2) (set_ft f s);
       Some (if runner_status (w_ft s1) = idle then
           (case e_start_tape E segment_id (b_short_start (w_buf s1 h)) s1 of
              (s2, Inl e) \<Rightarrow> (s2, Inl e)
            | (s2, Inr _) \<Rightarrow> go_writing E mode s2)
         else go_writing E mode s1)
     })"

text \<open>
  One turn of the loop in \<open>ftape_loop_until_writes_done\<close>: the result when it returns, or \<open>None\<close> to go on.
\<close>

definition write_failed :: "write_state \<times> unit result \<Rightarrow> write_state \<times> unit result" where
  "write_failed = (\<lambda>(s, r). case r of Inl e \<Rightarrow> (set_ft ((w_ft s)\<lparr>ft_last_write_failed := True\<rparr>) s, Inl e) | Inr u \<Rightarrow> (s, Inr u))"

definition handle_eot :: "write_env \<Rightarrow> write_state \<Rightarrow> write_state \<times> unit result" where
  "handle_eot E s = (case ftape_handle_logical_eot (w_ft s) (e_ready E s) of (f, r) \<Rightarrow> (set_ft f s, r))"

definition write_mode :: "write_state \<Rightarrow> ft_write_mode_t" where
  "write_mode s = (if driver_state (w_ft s) = deleting then FT_WR_DELETE else FT_WR_MULTI)"

definition writes_error :: "write_env \<Rightarrow> write_state \<Rightarrow> (write_state \<times> unit result option) option" where
  "writes_error E s =
    (let s1 = (if runner_status (w_ft s) = aborting then fst (ftape_dumb_stop E s) else s)
     in if runner_status (w_ft s1) \<noteq> idle then Some (s1, Some (Inl EIO))
     else if b_hard_error_map (w_buf s1 (w_head s1)) \<noteq> 0 then Some (s1, Some (Inl EIO))
     else do {
       let s2 = set_buf (w_head s1) (set_status waiting) s1;
       (s3, _) \<leftarrow> ftape_start_writing E (write_mode s2) s2;
       Some (s3, None)
     })"

definition writes_wait :: "write_env \<Rightarrow> write_state \<Rightarrow> (write_state \<times> unit result option) option" where
  "writes_wait E s =
    (case (if b_status (w_buf s (w_head s)) = driver_state (w_ft s) then write_failed (e_interrupt E s) else (s, Inr ())) of
       (s1, Inl e) \<Rightarrow> Some (s1, Some (Inl e))
     | (s1, Inr _) \<Rightarrow>
         if b_status (w_buf s1 (w_head s1)) = buf_error then writes_error E s1 else Some (s1, None))"

definition writes_turn :: "write_env \<Rightarrow> write_state \<Rightarrow> (write_state \<times> unit result option) option" where
  "writes_turn E s =
    (if driver_state (w_ft s) \<notin> {writing, deleting} \<or> b_status (w_buf s (w_head s)) = buf_done then
       Some (set_ft (fst (ftape_set_state (w_ft s) waiting)) s, Some (Inr ()))
     else (case write_failed (handle_eot E s) of
         (s1, Inl e) \<Rightarrow> Some (s1, Some (Inl e))
       | (s1, Inr _) \<Rightarrow> do {
           (s2, r) \<leftarrow> (if runner_status (w_ft s1) = idle then map_option write_failed (ftape_start_writing E (write_mode s1) s1)
                       else Some (s1, Inr ()));
           (s3, out) \<leftarrow> (case r of Inl e \<Rightarrow> Some (s2, Some (Inl e)) | Inr _ \<Rightarrow> writes_wait E s2);
           Some (s3, if out = None \<and> e_signal E s3 then Some (Inl EINTR) else out)
         }))"

partial_function (option) ftape_loop_until_writes_done :: "write_env \<Rightarrow> write_state \<Rightarrow> (write_state \<times> unit result) option" where
  "ftape_loop_until_writes_done E s =
    Option.bind (writes_turn E s) (\<lambda>(s', out). case out of Some r \<Rightarrow> Some (s', r) | None \<Rightarrow> ftape_loop_until_writes_done E s')"

text \<open>
  \<open>write_segment\<close> in its parts: the change to the writing state, the buffer at \<open>TAIL\<close>, the copy, the start of the tape.
  It goes on after the errors that \<open>check_tail\<close> finds (\<open>EAGAIN\<close>, \<open>EIO\<close>), but not after one of the copy (\<open>EINVAL\<close>).
\<close>

definition prepare_writing :: "write_env \<Rightarrow> ft_write_mode_t \<Rightarrow> write_state \<Rightarrow> (write_state \<times> unit result) option" where
  "prepare_writing E mode s =
    (let d = driver_state (w_ft s); wanted = wanted_state mode
     in if d = wanted then Some (s, Inr ())
     else do {
       (s1, r1) \<leftarrow> (if d = deleting \<or> wanted = deleting then ftape_loop_until_writes_done E s else Some (s, Inr ()));
       Some (case r1 of Inl e \<Rightarrow> (s1, Inl e)
         | Inr _ \<Rightarrow> (case ftape_abort_operation E s1 of
               (s2, Inl e) \<Rightarrow> (s2, Inl e)
             | (s2, Inr _) \<Rightarrow> let s3 = ftape_zap_write_buffers s2 in (set_ft (fst (ftape_set_state (w_ft s3) wanted)) s3, Inr ())))
     })"

definition await_buffer :: "write_env \<Rightarrow> ft_write_mode_t \<Rightarrow> write_state \<Rightarrow> (write_state \<times> unit result) option" where
  "await_buffer E mode s = do {
     (s1, r) \<leftarrow> ftape_wait_segment E (wanted_state mode) s;
     Some (case r of Inl _ \<Rightarrow> ftape_dumb_stop E s1 | Inr _ \<Rightarrow> (s1, Inr ()))
   }"

definition check_tail :: "write_state \<Rightarrow> write_state \<times> int result" where
  "check_tail s =
    (let i = w_tail s; b = w_buf s i; retry = (set_buf i (set_status waiting) s, Inl EAGAIN)
     in case b_status b of
       buf_done \<Rightarrow> (set_ft ((w_ft s)\<lparr>history := (history (w_ft s))\<lparr>defects := defects (history (w_ft s)) + count_ones (b_hard_error_map b)\<rparr>\<rparr>) s, Inr 0)
     | waiting \<Rightarrow> (s, Inl EAGAIN)
     | buf_error \<Rightarrow> if b_hard_error_map b \<noteq> 0 then (s, Inl EIO) else retry
     | _ \<Rightarrow> retry)"

definition stop_runner :: "write_env \<Rightarrow> ft_write_mode_t \<Rightarrow> write_state \<Rightarrow> write_state \<times> unit result" where
  "stop_runner E mode s =
    (if runner_status (w_ft s) = aborting then
       ftape_dumb_stop E (if b_status (w_buf s (w_head s)) = wanted_state mode then set_buf (w_head s) (set_status buf_done) s else s)
     else handle_eot E s)"

definition fill_tail :: "'l::len itself \<Rightarrow> int \<Rightarrow> write_state \<Rightarrow> int result \<Rightarrow> (write_state \<times> int result) option" where
  "fill_tail t segment_id s r =
    (let i = w_tail s
     in if b_status (w_buf s i) \<noteq> buf_done then Some (s, r)
     else do {
       (f, bsm) \<leftarrow> ftape_get_bad_sector_entry (w_ft s) segment_id;
       Some (case fdc_int_copy_and_gen_ecc t i bsm (set_ft f s) of
           (s1, Inl e) \<Rightarrow> (s1, Inl e)
         | (s1, Inr bytes_written) \<Rightarrow>
             let s2 = set_buf i (\<lambda>b. b\<lparr>b_segment_id := segment_id, b_status := waiting\<rparr>) s1
             in (set_fdc (\<lambda>c. c\<lparr>buffer_tail := (i + 1) mod length (buffers c)\<rparr>) s2, Inr bytes_written))
     })"

definition start_runner :: "write_env \<Rightarrow> ft_write_mode_t \<Rightarrow> write_state \<times> int result \<Rightarrow> (write_state \<times> int result) option" where
  "start_runner E mode = (\<lambda>(s, r).
    if runner_status (w_ft s) \<noteq> running
      \<and> (b_status (w_buf s (w_tail s)) = waiting \<and> w_head s = w_tail s \<or> mode \<noteq> FT_WR_ASYNC)
    then do {
      (s1, r1) \<leftarrow> ftape_start_writing E mode s;
      Some (s1, case r1 of Inl e \<Rightarrow> Inl e | Inr _ \<Rightarrow> r)
    }
    else Some (s, r))"

definition write_segment :: "'l::len itself \<Rightarrow> write_env \<Rightarrow> int \<Rightarrow> ft_write_mode_t \<Rightarrow> write_state \<Rightarrow> (write_state \<times> int result) option" where
  "write_segment t E segment_id mode s = do {
     (s1, r1) \<leftarrow> prepare_writing E mode s;
     (s2, r2) \<leftarrow> (case r1 of Inl e \<Rightarrow> Some (s1, Inl e) | Inr _ \<Rightarrow> await_buffer E mode s1);
     case r2 of Inl e \<Rightarrow> Some (s2, Inl e)
     | Inr _ \<Rightarrow> do {
         let (s3, r3) = check_tail s2;
         (case stop_runner E mode s3 of
            (s4, Inl e) \<Rightarrow> Some (s4, Inl e)
          | (s4, Inr _) \<Rightarrow> do {
              (s5, r5) \<leftarrow> fill_tail t segment_id s4 r3;
              if r5 = Inl EINVAL then Some (s5, r5) else start_runner E mode (s5, r5)
            })
       }
   }"

text \<open>\<open>ftape_write_segment\<close> tries again at most 100 times. (The flag that the tape has been written to is not kept.)\<close>

fun write_retries :: "'l::len itself \<Rightarrow> write_env \<Rightarrow> int \<Rightarrow> ft_write_mode_t \<Rightarrow> nat \<Rightarrow> write_state \<Rightarrow> (write_state \<times> int result) option" where
  "write_retries t E segment_id mode left s = do {
     (s1, r) \<leftarrow> write_segment t E segment_id mode s;
     if r = Inl EAGAIN then
       (case left of 0 \<Rightarrow> Some (s1, Inl EIO)
        | Suc k \<Rightarrow> if e_signal E s1 then Some (s1, Inl EINTR) else write_retries t E segment_id mode k s1)
     else Some (s1, r)
   }"

definition ftape_write_segment :: "'l::len itself \<Rightarrow> write_env \<Rightarrow> int \<Rightarrow> ft_write_mode_t \<Rightarrow> write_state \<Rightarrow> (write_state \<times> int result) option" where
  "ftape_write_segment t E segment_id mode s =
    (if (word_of_int segment_id :: u32) \<ge> tracks_per_tape (w_ft s) * segments_per_track (w_ft s) then Some (s, Inl ENOSPC)
     else write_retries t E segment_id mode 100 s)"

section \<open>Recovery from a hard write error\<close>

definition data_size :: "u32 \<Rightarrow> int" where
  "data_size bsm = int FT_SEGMENT_SIZE - int (count_ones bsm) * int FT_SECTOR_SIZE"

text \<open>The buffers behind \<open>head\<close> in the order of the ring.\<close>

definition ring_after :: "nat \<Rightarrow> nat \<Rightarrow> nat list" where
  "ring_after h n = map (\<lambda>k. (h + k) mod n) [1..<n]"

fun shift_segments :: "'l::len itself \<Rightarrow> nat list \<Rightarrow> write_state \<Rightarrow> bytes \<Rightarrow> (write_state \<times> bytes) option" where
  "shift_segments t [] s scratch = Some (s, scratch)"
| "shift_segments t (i # is) s scratch =
    (if b_status (w_buf s i) \<noteq> waiting then Some (s, scratch)
     else do {
       let s1 = fdc_int_read_buffer i s;
       (ft1, bsm) \<leftarrow> ftape_get_bad_sector_entry (w_ft s1) (b_segment_id (w_buf s1 i));
       let s2 = set_ft ft1 s1;
       let size = data_size bsm;
       if size \<le> 0 then shift_segments t is s2 scratch
       else do {
         let m1 = blit (snd (w_deblock s2)) FT_SECTOR_SIZE (take (nat size) (snd (w_deblock s2)));
         let m2 = blit m1 0 scratch;
         let s3 = s2\<lparr>w_deblock := (fst (w_deblock s2), m2)\<rparr>;
         shift_segments t is (fst (fdc_int_copy_and_gen_ecc t i bsm s3)) (bytes_at m2 (nat size) FT_SECTOR_SIZE)
       }
     })"

text \<open>The state and the sector that is left over; \<open>None\<close> when the failing segment has no data.\<close>

definition ftape_hard_error_recovery :: "'l::len itself \<Rightarrow> write_state \<Rightarrow> (write_state \<times> bytes result) option" where
  "ftape_hard_error_recovery t s = do {
     let h = buffer_head (fdc (w_isr s));
     let segment_id = b_segment_id (w_buf s h);
     (ft1, bsm) \<leftarrow> ftape_get_bad_sector_entry (w_ft s) segment_id;
     let old_size = data_size bsm;
     if count_ones (b_hard_error_map (w_buf s h)) \<noteq> 1 then Some (set_ft ft1 s, Inl EIO)
     else do {
       let ft2 = ft1\<lparr>history := (history ft1)\<lparr>defects := defects (history ft1) + 1\<rparr>\<rparr>;
       let bsm' = bsm OR b_hard_error_map (w_buf s h);
       ft3 \<leftarrow> ftape_put_bad_sector_entry ft2 segment_id bsm';
       let size = old_size - int FT_SECTOR_SIZE;
       if size < 0 then None
       else do {
         let s1 = fdc_int_read_buffer h (set_ft ft3 s);
         let scratch = bytes_at (snd (w_deblock s1)) (nat size) FT_SECTOR_SIZE;
         let s2 = fst (fdc_int_copy_and_gen_ecc t h bsm' s1);
         let s3 = set_buf h (set_status waiting) s2;
         (s4, scratch') \<leftarrow> shift_segments t (ring_after h (length (buffers (fdc (w_isr s))))) s3 scratch;
         Some (set_ft ((w_ft s4)\<lparr>old_segment_id := -1\<rparr>) s4, Inr scratch')
       }
     }
   }"

section \<open>The recovery keeps the data\<close>

text \<open>A buffer has room for a whole segment of 32 sectors.\<close>

definition ring_mem_ok :: "nat \<Rightarrow> write_state \<Rightarrow> bool" where
  "ring_mem_ok n s \<longleftrightarrow> length (w_mem s) = n \<and> length (buffers (fdc (w_isr s))) = n
    \<and> (\<forall>i < n. length (snd (w_mem s ! i)) = 32768) \<and> length (snd (w_deblock s)) = 32768"

text \<open>What a step on the memory leaves alone: the ring, and which segments its buffers stand for.\<close>

definition same_ring :: "write_state \<Rightarrow> write_state \<Rightarrow> bool" where
  "same_ring s s' \<longleftrightarrow> length (buffers (fdc (w_isr s'))) = length (buffers (fdc (w_isr s)))
    \<and> buffer_head (fdc (w_isr s')) = buffer_head (fdc (w_isr s)) \<and> buffer_tail (fdc (w_isr s')) = buffer_tail (fdc (w_isr s))
    \<and> (\<forall>i < length (buffers (fdc (w_isr s))). b_status (w_buf s' i) = b_status (w_buf s i) \<and> b_segment_id (w_buf s' i) = b_segment_id (w_buf s i)
        \<and> b_hard_error_map (w_buf s' i) = b_hard_error_map (w_buf s i))"

lemma same_ring_refl: "same_ring s s"
  by (simp add: same_ring_def)

lemma same_ring_trans: "same_ring r s \<Longrightarrow> same_ring s s' \<Longrightarrow> same_ring r s'"
  by (simp add: same_ring_def)

lemma set_buf_same_ring:
  assumes "\<And>b. b_status (f b) = b_status b \<and> b_segment_id (f b) = b_segment_id b \<and> b_hard_error_map (f b) = b_hard_error_map b"
  shows "same_ring s (set_buf i f s)"
proof -
  have "b_status (bs[i := f (bs ! i)] ! j) = b_status (bs ! j) \<and> b_segment_id (bs[i := f (bs ! i)] ! j) = b_segment_id (bs ! j)
      \<and> b_hard_error_map (bs[i := f (bs ! i)] ! j) = b_hard_error_map (bs ! j)" for bs j
    using assms by (cases "i < length bs"; cases "i = j") (auto simp: not_less list_update_beyond)
  then show ?thesis by (simp add: same_ring_def set_buf_def w_buf_def)
qed

lemma set_buf_simps [simp]:
  "w_mem (set_buf i f s) = w_mem s" "w_deblock (set_buf i f s) = w_deblock s" "w_ft (set_buf i f s) = w_ft s" "w_held (set_buf i f s) = w_held s"
  by (simp_all add: set_buf_def w_ft_def)

lemma same_ring_mem [simp]: "same_ring (s\<lparr>w_mem := m\<rparr>) s' = same_ring s s'" "same_ring (s\<lparr>w_deblock := d\<rparr>) s' = same_ring s s'"
  "w_ft (s\<lparr>w_mem := m\<rparr>) = w_ft s" "w_ft (s\<lparr>w_deblock := d\<rparr>) = w_ft s" "w_ft (s\<lparr>w_held := c\<rparr>) = w_ft s"
  by (simp_all add: same_ring_def w_buf_def w_ft_def)

lemma set_fdc_simps [simp]: "w_mem (set_fdc g s) = w_mem s" "w_held (set_fdc g s) = w_held s" "w_deblock (set_fdc g s) = w_deblock s" "w_ft (set_fdc g s) = w_ft s"
  by (simp_all add: set_fdc_def w_ft_def)

lemma swap_mem: "w_mem (swap_deblock i held s) = (w_mem s)[i := w_deblock s]" "w_deblock (swap_deblock i held s) = w_mem s ! i"
  "w_held (swap_deblock i held s) = held"
  by (simp_all add: swap_deblock_def)

lemma swap_frame: "w_ft (swap_deblock i held s) = w_ft s" "same_ring s (swap_deblock i held s)"
proof -
  let ?s = "s\<lparr>w_mem := (w_mem s)[i := w_deblock s], w_deblock := w_mem s ! i, w_held := held\<rparr>"
  show "w_ft (swap_deblock i held s) = w_ft s" by (simp add: swap_deblock_def)
  have "same_ring ?s (swap_deblock i held s)" unfolding swap_deblock_def by (rule set_buf_same_ring) simp
  then show "same_ring s (swap_deblock i held s)" by (simp add: same_ring_def w_buf_def)
qed

lemmas read_buffer_mem = swap_mem [where held = True, folded fdc_int_read_buffer_def]
lemmas read_buffer_frame = swap_frame [where held = True, folded fdc_int_read_buffer_def]

lemma set_ft_simps [simp]:
  "w_mem (set_ft f s) = w_mem s" "w_held (set_ft f s) = w_held s" "w_deblock (set_ft f s) = w_deblock s" "w_ft (set_ft f s) = f" "same_ring s (set_ft f s)"
  "w_buf (set_ft f s) i = w_buf s i"
  by (simp_all add: set_ft_def w_ft_def same_ring_def w_buf_def)

lemma gen_ecc_ok:
  assumes "long_ok TYPE('l::len)" "3 \<le> n" "n * FT_SECTOR_SIZE \<le> length m"
  shows "length (gen_ecc TYPE('l) n m) = length m"
    "take ((n - 3) * FT_SECTOR_SIZE) (gen_ecc TYPE('l) n m) = take ((n - 3) * FT_SECTOR_SIZE) m"
    "c < FT_SECTOR_SIZE \<Longrightarrow> codeword (gen_ecc TYPE('l) n m) c n"
proof -
  let ?mseg = "\<lparr>marked_bad = 0, read_bad = 0, blocks = n, ms_data = take (n * FT_SECTOR_SIZE) m, corrected = 0\<rparr>"
  let ?d = "ms_data (ftape_ecc_set_segment_parity TYPE('l) ?mseg)"
  have "encoded (n - 3) (take (n * FT_SECTOR_SIZE) m) {..<FT_SECTOR_SIZE} ?d"
    using set_segment_parity_encoded [OF assms(1), of ?mseg] assms(2,3) by simp
  then have d: "length ?d = n * FT_SECTOR_SIZE" "\<forall>p < (n - 3) * FT_SECTOR_SIZE. ?d ! p = m ! p" "\<forall>c < FT_SECTOR_SIZE. codeword ?d c n"
    using assms(2,3) by (auto simp: encoded_def)
  show len: "length (gen_ecc TYPE('l) n m) = length m" using d(1) assms(3) by (simp add: gen_ecc_def)
  have le: "(n - 3) * FT_SECTOR_SIZE \<le> n * FT_SECTOR_SIZE" by simp
  show "take ((n - 3) * FT_SECTOR_SIZE) (gen_ecc TYPE('l) n m) = take ((n - 3) * FT_SECTOR_SIZE) m"
    using d(1,2) le assms(3) by (intro nth_equalityI) (auto simp: gen_ecc_def nth_append)
  have "col_eval (gen_ecc TYPE('l) n m) c n x = col_eval ?d c n x" if "c < FT_SECTOR_SIZE" for x
    using that d(1) by (intro col_eval_cong) (auto simp: gen_ecc_def nth_append)
  then show "c < FT_SECTOR_SIZE \<Longrightarrow> codeword (gen_ecc TYPE('l) n m) c n" using d(3) by (simp add: codeword_def)
qed

lemma count_ones_32: "count_ones (w :: u32) \<le> 32"
  using count_ones_le [of w] by simp

text \<open>Queueing the deblock buffer: the data of the segment are those of the deblock buffer, and the sectors form code words.\<close>

lemma copy_and_gen_ecc_ok:
  fixes bsm :: u32
  assumes "long_ok TYPE('l::len)" "ring_mem_ok n s" "i < n" "w_held s"
  defines "s' \<equiv> fst (fdc_int_copy_and_gen_ecc TYPE('l) i bsm s)"
  shows "ring_mem_ok n s'" "w_ft s' = w_ft s" "same_ring s s'" "w_deblock s' = w_mem s ! i"
    "j \<noteq> i \<Longrightarrow> w_mem s' ! j = w_mem s ! j"
    "take (nat (data_size bsm)) (snd (w_mem s' ! i)) = take (nat (data_size bsm)) (snd (w_deblock s))"
    "0 < data_size bsm \<Longrightarrow> c < FT_SECTOR_SIZE \<Longrightarrow> codeword (snd (w_mem s' ! i)) c (32 - count_ones bsm)"
    "\<not> w_held s'"
proof -
  let ?s1 = "swap_deblock i False s" and ?n = "32 - count_ones bsm"
  have len: "length (w_mem s) = n" "length (buffers (fdc (w_isr s))) = n" "length (snd (w_deblock s)) = 32768"
    "\<And>k. k < n \<Longrightarrow> length (snd (w_mem s ! k)) = 32768"
    using assms(2) by (auto simp: ring_mem_ok_def)
  have s1: "w_mem ?s1 = (w_mem s)[i := w_deblock s]" "w_deblock ?s1 = w_mem s ! i" "w_ft ?s1 = w_ft s" "same_ring s ?s1" "\<not> w_held ?s1"
    using swap_mem swap_frame by simp_all
  have wr: "fdc_int_write_buffer i s = (?s1, Inr ())" using assms(4) by (simp add: fdc_int_write_buffer_def)
  have ok1: "ring_mem_ok n ?s1" using s1 len assms(3) by (auto simp: ring_mem_ok_def same_ring_def nth_list_update)
  have size: "nat (data_size bsm) = (?n - 3) * FT_SECTOR_SIZE" by (simp add: data_size_def)
  have "ring_mem_ok n s' \<and> w_ft s' = w_ft s \<and> same_ring s s' \<and> w_deblock s' = w_mem s ! i \<and> (\<forall>j. j \<noteq> i \<longrightarrow> w_mem s' ! j = w_mem s ! j)
    \<and> take (nat (data_size bsm)) (snd (w_mem s' ! i)) = take (nat (data_size bsm)) (snd (w_deblock s))
    \<and> (0 < data_size bsm \<longrightarrow> (\<forall>c < FT_SECTOR_SIZE. codeword (snd (w_mem s' ! i)) c ?n)) \<and> \<not> w_held s'"
  proof (cases "count_ones bsm + 3 \<ge> 32")
    case True
    then have "s' = ?s1" by (simp add: s'_def fdc_int_copy_and_gen_ecc_def Let_def wr)
    with s1 ok1 True size len assms(3) show ?thesis by (simp add: data_size_def)
  next
    case False
    obtain addr m where m: "w_deblock s = (addr, m)" by (cases "w_deblock s")
    have e: "?n * FT_SECTOR_SIZE \<le> length m" "3 \<le> ?n" using len(3) False m by simp_all
    note g = gen_ecc_ok [OF assms(1) e(2,1)]
    let ?s2 = "?s1\<lparr>w_mem := (w_mem s)[i := (addr, gen_ecc TYPE('l) ?n m)]\<rparr>"
    have s': "s' = set_buf i (\<lambda>b. b\<lparr>b_bytes := int ?n * 1024\<rparr>) ?s2"
      using False s1 m len(1) assms(3) by (simp add: s'_def fdc_int_copy_and_gen_ecc_def Let_def wr)
    have mem: "w_mem s' = (w_mem s)[i := (addr, gen_ecc TYPE('l) ?n m)]" "w_deblock s' = w_mem s ! i" "w_ft s' = w_ft s" "\<not> w_held s'"
      using s1 by (simp_all add: s')
    have "same_ring ?s2 s'" unfolding s' by (rule set_buf_same_ring) simp
    then have "same_ring ?s1 s'" by simp
    with s1(4) have "same_ring s s'" by (rule same_ring_trans)
    moreover from this have "ring_mem_ok n s'" using mem len g(1) assms(3) m by (auto simp: ring_mem_ok_def same_ring_def nth_list_update)
    ultimately show ?thesis using mem g(2,3) size m len(1) assms(3) by simp
  qed
  then show "ring_mem_ok n s'" "w_ft s' = w_ft s" "same_ring s s'" "w_deblock s' = w_mem s ! i"
    "j \<noteq> i \<Longrightarrow> w_mem s' ! j = w_mem s ! j"
    "take (nat (data_size bsm)) (snd (w_mem s' ! i)) = take (nat (data_size bsm)) (snd (w_deblock s))"
    "0 < data_size bsm \<Longrightarrow> c < FT_SECTOR_SIZE \<Longrightarrow> codeword (snd (w_mem s' ! i)) c (32 - count_ones bsm)"
    "\<not> w_held s'"
    by blast+
qed

text \<open>The data of the buffers \<open>is\<close>, in their order, and the buffers that wait behind the failing one.\<close>

definition seg_data :: "write_state \<Rightarrow> (nat \<Rightarrow> u32) \<Rightarrow> nat \<Rightarrow> bytes" where
  "seg_data s M i = take (nat (data_size (M (nat (b_segment_id (w_buf s i)))))) (snd (w_mem s ! i))"

definition pending :: "write_state \<Rightarrow> (nat \<Rightarrow> u32) \<Rightarrow> nat list \<Rightarrow> bytes" where
  "pending s M is = concat (map (seg_data s M) is)"

definition waiting_run :: "write_state \<Rightarrow> nat list \<Rightarrow> nat list" where
  "waiting_run s is = takeWhile (\<lambda>i. b_status (w_buf s i) = waiting) is"

definition valid_ecc :: "write_state \<Rightarrow> (nat \<Rightarrow> u32) \<Rightarrow> nat \<Rightarrow> bool" where
  "valid_ecc s M i \<longleftrightarrow> (let bsm = M (nat (b_segment_id (w_buf s i))) in 0 < data_size bsm \<longrightarrow>
     (\<forall>c < FT_SECTOR_SIZE. codeword (snd (w_mem s ! i)) c (32 - count_ones bsm)))"

text \<open>Moving one segment up by a sector.\<close>

lemma shift_sector:
  assumes "length m = 32768" "length scratch = FT_SECTOR_SIZE" "sz = (k + 1) * FT_SECTOR_SIZE" "sz \<le> FT_SEGMENT_SIZE"
  defines "m2 \<equiv> blit (blit m FT_SECTOR_SIZE (take sz m)) 0 scratch"
  shows "length m2 = 32768" "take sz m2 @ bytes_at m2 sz FT_SECTOR_SIZE = scratch @ take sz m"
proof -
  have "m2 = scratch @ take sz m @ drop (FT_SECTOR_SIZE + sz) m"
    using assms(1-4) by (simp add: m2_def blit_def)
  then show "length m2 = 32768" "take sz m2 @ bytes_at m2 sz FT_SECTOR_SIZE = scratch @ take sz m"
    using assms(1-4) append_take_drop_id [of "k * FT_SECTOR_SIZE" "take sz m"]
    by (simp_all add: bytes_at_def take_drop min_def)
qed

lemma seg_data_cong: "w_mem s' ! i = w_mem s ! i \<Longrightarrow> b_segment_id (w_buf s' i) = b_segment_id (w_buf s i) \<Longrightarrow> seg_data s' M i = seg_data s M i"
  by (simp add: seg_data_def)

lemma valid_ecc_cong: "w_mem s' ! i = w_mem s ! i \<Longrightarrow> b_segment_id (w_buf s' i) = b_segment_id (w_buf s i) \<Longrightarrow> valid_ecc s' M i = valid_ecc s M i"
  by (simp add: valid_ecc_def)

lemma pending_cong:
  "(\<And>j. j \<in> set is \<Longrightarrow> w_mem s' ! j = w_mem s ! j \<and> b_segment_id (w_buf s' j) = b_segment_id (w_buf s j)) \<Longrightarrow> pending s' M is = pending s M is"
  unfolding pending_def using seg_data_cong by (metis (no_types, lifting) map_cong)

lemma shift_segments_ok:
  assumes "long_ok TYPE('l::len)" "ring_mem_ok n s" "\<forall>i\<in>set is. i < n \<and> 0 \<le> b_segment_id (w_buf s i) \<and> b_segment_id (w_buf s i) < int N"
    "distinct is" "bsm_rep fmt base lim N (w_ft s) M" "length scratch = FT_SECTOR_SIZE"
  shows "\<exists>s' scratch'. shift_segments TYPE('l) is s scratch = Some (s', scratch') \<and> length scratch' = FT_SECTOR_SIZE
    \<and> pending s' M (waiting_run s is) @ scratch' = scratch @ pending s M (waiting_run s is)
    \<and> ring_mem_ok n s' \<and> same_ring s s' \<and> bsm_rep fmt base lim N (w_ft s') M
    \<and> (\<forall>j. j \<notin> set (waiting_run s is) \<longrightarrow> w_mem s' ! j = w_mem s ! j) \<and> (\<forall>i\<in>set (waiting_run s is). valid_ecc s' M i)"
  using assms(2-6)
proof (induction "is" arbitrary: s scratch)
  case Nil
  then show ?case using same_ring_refl by (simp add: pending_def waiting_run_def)
next
  case (Cons i "is")
  show ?case
  proof (cases "b_status (w_buf s i) = waiting")
    case False
    with Cons.prems show ?thesis using same_ring_refl by (simp add: pending_def waiting_run_def)
  next
    case True
    let ?id = "nat (b_segment_id (w_buf s i))" and ?s1 = "fdc_int_read_buffer i s"
    have i: "i < n" "?id < N" "int ?id = b_segment_id (w_buf s i)" using Cons.prems(2) by auto
    have s1: "w_mem ?s1 = (w_mem s)[i := w_deblock s]" "w_deblock ?s1 = w_mem s ! i" "w_ft ?s1 = w_ft s" "same_ring s ?s1"
      using read_buffer_mem read_buffer_frame by simp_all
    have id1: "b_segment_id (w_buf ?s1 i) = b_segment_id (w_buf s i)"
      using s1(4) i(1) Cons.prems(1) by (simp add: same_ring_def ring_mem_ok_def)
    obtain ft1 where ft1: "ftape_get_bad_sector_entry (w_ft ?s1) (b_segment_id (w_buf ?s1 i)) = Some (ft1, M ?id)" "bsm_rep fmt base lim N ft1 M"
      using bsm_store.get_law [OF Cons.prems(4) i(2)] i(3) id1 s1(3) by auto
    let ?s2 = "set_ft ft1 ?s1" and ?size = "data_size (M ?id)"
    have ring2: "same_ring s ?s2" using s1(4) set_ft_simps(5) by (rule same_ring_trans)
    have mem2: "w_mem ?s2 = (w_mem s)[i := w_deblock s]" "w_deblock ?s2 = w_mem s ! i" "bsm_rep fmt base lim N (w_ft ?s2) M"
      using s1 ft1(2) by simp_all
    have ok2: "ring_mem_ok n ?s2" using Cons.prems(1) ring2 mem2 i(1) by (auto simp: ring_mem_ok_def same_ring_def nth_list_update)
    \<comment> \<open>what remains is done on a state that differs in the memory of buffer \<open>i\<close> only\<close>
    have rest: ?thesis
      if st: "ring_mem_ok n t" "same_ring s t" "bsm_rep fmt base lim N (w_ft t) M" "\<And>j. j \<noteq> i \<Longrightarrow> w_mem t ! j = w_mem s ! j"
        and sc: "length sc = FT_SECTOR_SIZE" "seg_data t M i @ sc = scratch @ seg_data s M i" "valid_ecc t M i"
        and eq: "shift_segments TYPE('l) (i # is) s scratch = shift_segments TYPE('l) is t sc" for t sc
    proof -
      have bufs: "b_status (w_buf t j) = b_status (w_buf s j)" "b_segment_id (w_buf t j) = b_segment_id (w_buf s j)" if "j < n" for j
        using st(2) that Cons.prems(1) by (auto simp: same_ring_def ring_mem_ok_def)
      have run: "waiting_run t is = waiting_run s is"
        unfolding waiting_run_def using Cons.prems(2) bufs by (intro takeWhile_cong) auto
      have sub: "set (waiting_run s is) \<subseteq> set is" unfolding waiting_run_def by (rule set_takeWhileD [THEN conjunct1, THEN subsetI]) 
      from Cons.IH [of t sc] obtain s' scratch' where s': "shift_segments TYPE('l) is t sc = Some (s', scratch')"
        "length scratch' = FT_SECTOR_SIZE" "pending s' M (waiting_run s is) @ scratch' = sc @ pending t M (waiting_run s is)"
        "ring_mem_ok n s'" "same_ring t s'" "bsm_rep fmt base lim N (w_ft s') M"
        "\<forall>j. j \<notin> set (waiting_run s is) \<longrightarrow> w_mem s' ! j = w_mem t ! j" "\<forall>j\<in>set (waiting_run s is). valid_ecc s' M j"
        using st sc(1) Cons.prems(2,3) bufs by (auto simp: run)
      have ids: "b_segment_id (w_buf s' j) = b_segment_id (w_buf t j)" if "j < n" for j
        using s'(5) that st(1) by (simp add: same_ring_def ring_mem_ok_def)
      have "i \<notin> set (waiting_run s is)" using sub Cons.prems(3) by auto
      then have here: "w_mem s' ! i = w_mem t ! i" using s'(7) by simp
      have "j \<noteq> i \<and> j < n" if "j \<in> set (waiting_run s is)" for j using that sub Cons.prems(2,3) by auto
      then have "pending t M (waiting_run s is) = pending s M (waiting_run s is)"
        using st(4) bufs by (intro pending_cong) simp
      moreover have "seg_data s' M i = seg_data t M i" by (rule seg_data_cong [OF here ids [OF i(1)]])
      moreover have "valid_ecc s' M i" using sc(3) valid_ecc_cong [OF here ids [OF i(1)]] by simp
      moreover have "waiting_run s (i # is) = i # waiting_run s is" using True by (simp add: waiting_run_def)
      moreover have "pending s' M (i # waiting_run s is) @ scratch' = scratch @ pending s M (i # waiting_run s is)"
        using s'(3) calculation(1,2) sc(2) by (simp add: pending_def)
      moreover have "same_ring s s'" by (rule same_ring_trans [OF st(2) s'(5)])
      moreover have "\<forall>j. j \<notin> set (i # waiting_run s is) \<longrightarrow> w_mem s' ! j = w_mem s ! j" using s'(7) st(4) by simp
      ultimately show ?thesis using s'(1,2,4,6,8) eq by auto
    qed
    show ?thesis
    proof (cases "?size \<le> 0")
      case zero: True
      have "shift_segments TYPE('l) (i # is) s scratch = shift_segments TYPE('l) is ?s2 scratch"
        using True ft1(1) zero by (simp add: Let_def)
      moreover have "seg_data s' M i = []" if "b_segment_id (w_buf s' i) = b_segment_id (w_buf s i)" for s'
        using zero that by (simp add: seg_data_def)
      moreover have "valid_ecc ?s2 M i" using zero id1 by (simp add: valid_ecc_def Let_def)
      ultimately show ?thesis using rest [of ?s2 scratch] ok2 ring2 mem2 Cons.prems(5) id1 by simp
    next
      case False
      let ?m2 = "blit (blit (snd (w_deblock ?s2)) FT_SECTOR_SIZE (take (nat ?size) (snd (w_deblock ?s2)))) 0 scratch"
      let ?s3 = "?s2\<lparr>w_deblock := (fst (w_deblock ?s2), ?m2)\<rparr>"
      let ?t = "fst (fdc_int_copy_and_gen_ecc TYPE('l) i (M ?id) ?s3)" and ?sc = "bytes_at ?m2 (nat ?size) FT_SECTOR_SIZE"
      obtain k where k: "nat ?size = (k + 1) * FT_SECTOR_SIZE" "nat ?size \<le> FT_SEGMENT_SIZE"
      proof
        show "nat ?size = (28 - count_ones (M ?id) + 1) * FT_SECTOR_SIZE" "nat ?size \<le> FT_SEGMENT_SIZE"
          using False by (simp_all add: data_size_def)
      qed
      have len: "length (snd (w_deblock ?s2)) = 32768" using ok2 by (simp add: ring_mem_ok_def)
      note sh = shift_sector [OF len Cons.prems(5) k]
      have ok3: "ring_mem_ok n ?s3" using ok2 sh(1) by (simp add: ring_mem_ok_def)
      have ring3: "same_ring s ?s3" using ring2 by (simp add: same_ring_def w_buf_def)
            have pos: "0 \<le> ?size" and held: "w_held ?s3" using False read_buffer_mem(3) by simp_all
      note g = copy_and_gen_ecc_ok [OF assms(1) ok3 i(1) held]
      have t: "ring_mem_ok n ?t" "same_ring s ?t" "w_ft ?t = ft1" "\<And>j. j \<noteq> i \<Longrightarrow> w_mem ?t ! j = w_mem s ! j"
        using g(1-3,5) same_ring_trans [OF ring3 g(3)] mem2(1) by simp_all
      have idt: "b_segment_id (w_buf ?t i) = b_segment_id (w_buf s i)" using t(2) i(1) Cons.prems(1) by (simp add: same_ring_def ring_mem_ok_def)
      have "seg_data ?t M i @ ?sc = scratch @ seg_data s M i"
        using g(6) pos sh(2) idt mem2(2) by (simp add: seg_data_def)
      moreover have "length ?sc = FT_SECTOR_SIZE" using sh(1) k(2) by (simp add: bytes_at_def)
      moreover have "valid_ecc ?t M i" using g(7) pos idt by (simp add: valid_ecc_def Let_def)
      moreover have "shift_segments TYPE('l) (i # is) s scratch = shift_segments TYPE('l) is ?t ?sc"
        using True ft1(1) False by (simp add: Let_def)
      ultimately show ?thesis using rest [of ?t ?sc] t ft1(2) by simp
    qed
  qed
qed

lemma ring_after_set: "h < n \<Longrightarrow> set (ring_after h n) = {..<n} - {h}" "h < n \<Longrightarrow> distinct (ring_after h n)"
proof -
  assume h: "h < n"
  have mod: "(h + k) mod n = (if h + k < n then h + k else h + k - n)" if "k < n" for k using that h by (simp add: mod_if)
  show "distinct (ring_after h n)"
    unfolding ring_after_def using h by (auto simp: distinct_map inj_on_def mod split: if_splits)
  show "set (ring_after h n) = {..<n} - {h}"
  proof
    show "set (ring_after h n) \<subseteq> {..<n} - {h}" using h by (auto simp: ring_after_def mod)
    show "{..<n} - {h} \<subseteq> set (ring_after h n)"
    proof
      fix j assume "j \<in> {..<n} - {h}"
      then have "j = (h + (if h < j then j - h else n + j - h)) mod n" "(if h < j then j - h else n + j - h) \<in> {1..<n}"
        using h by (auto simp: mod)
      then show "j \<in> set (ring_after h n)" unfolding ring_after_def set_map set_upt by blast
    qed
  qed
qed

lemma count_ones_or: "a AND b = 0 \<Longrightarrow> count_ones (a OR b) = count_ones a + count_ones (b :: u32)"
proof -
  assume ab: "a AND b = 0"
  have "finite {k. bit (w :: u32) k}" for w by (rule finite_subset [of _ "{..<32}"]) (auto dest: bit_imp_le_length)
  moreover have "{k. bit a k} \<inter> {k. bit b k} = {k. bit (a AND b) k}" by (auto simp: bit_and_iff)
  then have "{k. bit a k} \<inter> {k. bit b k} = {}" using ab by simp
  moreover have "{k. bit (a OR b) k} = {k. bit a k} \<union> {k. bit b k}" by (auto simp: bit_or_iff)
  ultimately show ?thesis by (simp add: count_ones_card card_Un_disjoint)
qed

lemma bsm_rep_frame [simp]:
  "bsm_rep fmt base lim N (f\<lparr>history := x\<rparr>) M = bsm_rep fmt base lim N f M"
  "bsm_rep fmt base lim N (f\<lparr>old_segment_id := y\<rparr>) M = bsm_rep fmt base lim N f M"
  by (simp_all add: bsm_rep_def list_rep_def array_rep_def cache_ok_def)

lemma set_status_buf:
  assumes "i < length (buffers (fdc (w_isr s)))"
  shows "w_buf (set_buf h (set_status waiting) s) i = (if i = h then set_status waiting (w_buf s i) else w_buf s i)"
  using assms by (simp add: w_buf_def set_buf_def)

text \<open>The failing segment gives up its last sector.\<close>

lemma head_gives_up_sector:
  fixes ft3 :: ftape_info
  assumes "long_ok TYPE('l::len)" "ring_mem_ok n s" "h < n" "M seg AND hard = 0" "count_ones hard = 1" "0 < data_size (M seg)"
    "seg = nat (b_segment_id (w_buf s h))"
  defines "sz \<equiv> nat (data_size (M seg) - int FT_SECTOR_SIZE)" and "M' \<equiv> M(seg := M seg OR hard)"
  defines "t \<equiv> set_buf h (set_status waiting) (fst (fdc_int_copy_and_gen_ecc TYPE('l) h (M seg OR hard) (fdc_int_read_buffer h (set_ft ft3 s))))"
  shows "ring_mem_ok n t" "w_ft t = ft3" "\<forall>j<n. b_segment_id (w_buf t j) = b_segment_id (w_buf s j) \<and> (j \<noteq> h \<longrightarrow> b_status (w_buf t j) = b_status (w_buf s j))"
    "b_status (w_buf t h) = waiting" "\<forall>j. j \<noteq> h \<longrightarrow> w_mem t ! j = w_mem s ! j" "valid_ecc t M' h"
    "seg_data t M' h @ bytes_at (snd (w_mem s ! h)) sz FT_SECTOR_SIZE = seg_data s M h" "sz + FT_SECTOR_SIZE \<le> FT_SEGMENT_SIZE"
proof -
  let ?s1 = "fdc_int_read_buffer h (set_ft ft3 s)" let ?s2 = "fst (fdc_int_copy_and_gen_ecc TYPE('l) h (M seg OR hard) ?s1)"
  have ones: "data_size (M seg OR hard) = data_size (M seg) - int FT_SECTOR_SIZE" using count_ones_or [OF assms(4)] assms(5) by (simp add: data_size_def)
  have ge: "int FT_SECTOR_SIZE \<le> data_size (M seg)" "data_size (M seg) \<le> int FT_SEGMENT_SIZE" using assms(6) by (simp_all add: data_size_def)
  then have pos: "0 \<le> data_size (M seg OR hard)" "nat (data_size (M seg OR hard)) = sz" using ones by (simp_all add: sz_def)
  show bound: "sz + FT_SECTOR_SIZE \<le> FT_SEGMENT_SIZE" using ge by (simp add: sz_def)
  have s1: "w_mem ?s1 = (w_mem s)[h := w_deblock s]" "w_deblock ?s1 = w_mem s ! h" "w_ft ?s1 = ft3" "same_ring s ?s1"
    using read_buffer_mem read_buffer_frame same_ring_trans [OF set_ft_simps(5) read_buffer_frame(2)] by simp_all
  have ok1: "ring_mem_ok n ?s1" using assms(2,3) s1 by (auto simp: ring_mem_ok_def same_ring_def nth_list_update)
  have held: "w_held ?s1" by (simp add: read_buffer_mem)
  note g = copy_and_gen_ecc_ok [OF assms(1) ok1 assms(3) held, where bsm = "M seg OR hard"]
  have ring: "same_ring s ?s2" by (rule same_ring_trans [OF s1(4) g(3)])
  have len: "length (buffers (fdc (w_isr s))) = n" "length (buffers (fdc (w_isr ?s2))) = n" using assms(2) g(1) by (simp_all add: ring_mem_ok_def)
  have ids: "\<forall>j<n. b_segment_id (w_buf t j) = b_segment_id (w_buf s j)"
    using ring len by (auto simp: t_def set_status_buf set_status_def same_ring_def)
  show "\<forall>j<n. b_segment_id (w_buf t j) = b_segment_id (w_buf s j) \<and> (j \<noteq> h \<longrightarrow> b_status (w_buf t j) = b_status (w_buf s j))"
    using ids ring len by (auto simp: t_def set_status_buf same_ring_def)
  show "b_status (w_buf t h) = waiting" using len assms(3) by (simp add: t_def set_status_buf set_status_def)
  show "ring_mem_ok n t" using g(1) by (simp add: t_def ring_mem_ok_def) (simp add: set_buf_def)
  show "w_ft t = ft3" using g(2) s1(3) by (simp add: t_def)
  show mem: "\<forall>j. j \<noteq> h \<longrightarrow> w_mem t ! j = w_mem s ! j" using g(5) s1(1) by (simp add: t_def)
  have id: "nat (b_segment_id (w_buf t h)) = seg" using ids assms(3,7) by simp
  show "valid_ecc t M' h" using g(7) id by (simp add: valid_ecc_def M'_def t_def Let_def)
  have "seg_data t M' h = take sz (snd (w_mem s ! h))" using g(6) s1(2) id pos(2) by (simp add: seg_data_def M'_def t_def)
  moreover have "seg_data s M h = take (sz + FT_SECTOR_SIZE) (snd (w_mem s ! h))"
    using ge assms(7) by (simp add: seg_data_def sz_def nat_diff_distrib)
  ultimately show "seg_data t M' h @ bytes_at (snd (w_mem s ! h)) sz FT_SECTOR_SIZE = seg_data s M h"
    by (simp add: bytes_at_def take_add)
qed

text \<open>The failing segment and the segments behind it.\<close>

lemma shift_behind_head:
  fixes ft3 :: ftape_info
  assumes "long_ok TYPE('l::len)" "ring_mem_ok n s" "h < n" "M seg AND hard = 0" "count_ones hard = 1" "0 < data_size (M seg)"
    "seg = nat (b_segment_id (w_buf s h))" "\<forall>i<n. 0 \<le> b_segment_id (w_buf s i) \<and> b_segment_id (w_buf s i) < int N"
    "\<forall>i<n. i \<noteq> h \<longrightarrow> b_segment_id (w_buf s i) \<noteq> b_segment_id (w_buf s h)" "bsm_rep fmt base lim N ft3 (M(seg := M seg OR hard))"
    "run = h # waiting_run s (ring_after h n)"
  shows "\<exists>s' scratch. shift_segments TYPE('l) (ring_after h n)
      (set_buf h (set_status waiting) (fst (fdc_int_copy_and_gen_ecc TYPE('l) h (M seg OR hard) (fdc_int_read_buffer h (set_ft ft3 s)))))
      (bytes_at (snd (w_mem s ! h)) (nat (data_size (M seg) - int FT_SECTOR_SIZE)) FT_SECTOR_SIZE) = Some (s', scratch)
    \<and> length scratch = FT_SECTOR_SIZE \<and> pending s' (M(seg := M seg OR hard)) run @ scratch = pending s M run
    \<and> bsm_rep fmt base lim N (w_ft s') (M(seg := M seg OR hard)) \<and> ring_mem_ok n s'
    \<and> (\<forall>i\<in>set run. b_status (w_buf s' i) = waiting \<and> valid_ecc s' (M(seg := M seg OR hard)) i)"
proof -
  let ?M = "M(seg := M seg OR hard)" and ?is = "ring_after h n"
  let ?size = "nat (data_size (M seg) - int FT_SECTOR_SIZE)" and ?m = "snd (w_mem s ! h)"
  let ?t = "set_buf h (set_status waiting) (fst (fdc_int_copy_and_gen_ecc TYPE('l) h (M seg OR hard) (fdc_int_read_buffer h (set_ft ft3 s))))"
  let ?sc = "bytes_at ?m ?size FT_SECTOR_SIZE"
  note t = head_gives_up_sector(1-5) [where M = M and seg = seg and hard = hard and ?ft3.0 = ft3, OF assms(1-7)]
    head_gives_up_sector(6,7) [where M = M and seg = seg and hard = hard and ?ft3.0 = ft3, OF assms(1-7)]
    head_gives_up_sector(8) [where M = M and seg = seg and hard = hard, OF assms(1-7)]
  have ring: "set ?is = {..<n} - {h}" "distinct ?is" using ring_after_set assms(3) by auto
  have "length ?sc = FT_SECTOR_SIZE" using t(8) assms(2,3) by (simp add: bytes_at_def ring_mem_ok_def)
  then obtain s' scratch where s': "shift_segments TYPE('l) ?is ?t ?sc = Some (s', scratch)" "length scratch = FT_SECTOR_SIZE"
      "pending s' ?M (waiting_run ?t ?is) @ scratch = ?sc @ pending ?t ?M (waiting_run ?t ?is)"
      "same_ring ?t s'" "bsm_rep fmt base lim N (w_ft s') ?M"
      "\<forall>j. j \<notin> set (waiting_run ?t ?is) \<longrightarrow> w_mem s' ! j = w_mem ?t ! j" "\<forall>i\<in>set (waiting_run ?t ?is). valid_ecc s' ?M i" "ring_mem_ok n s'"
    using shift_segments_ok [OF assms(1) t(1), of ?is N fmt base lim ?M ?sc] t(2,3) assms(10) ring assms(8) by auto
  let ?run = "waiting_run s ?is"
  have bufs: "b_status (w_buf ?t j) = b_status (w_buf s j)" if "j \<in> set ?is" for j using t(3) ring(1) that by auto
  have ids: "b_segment_id (w_buf ?t j) = b_segment_id (w_buf s j)" if "j < n" for j using t(3) that by auto
  have run: "waiting_run ?t ?is = ?run" unfolding waiting_run_def using bufs by (intro takeWhile_cong) auto
  have inrun: "j < n \<and> j \<noteq> h \<and> b_status (w_buf s j) = waiting" if "j \<in> set ?run" for j
    using that ring(1) set_takeWhileD [of j _ ?is] unfolding waiting_run_def by fastforce
  have other: "seg_data ?t ?M j = seg_data s M j" if "j \<in> set ?run" for j
  proof -
    have "nat (b_segment_id (w_buf s j)) \<noteq> seg" using inrun [OF that] assms(3,7,8,9) by (metis eq_nat_nat_iff)
    then show ?thesis using inrun [OF that] ids t(5) by (simp add: seg_data_def)
  qed
  have "h \<notin> set ?run" using inrun by blast
  then have mem_h: "w_mem s' ! h = w_mem ?t ! h" using s'(6) run by simp
  have st: "b_status (w_buf s' j) = b_status (w_buf ?t j) \<and> b_segment_id (w_buf s' j) = b_segment_id (w_buf ?t j)" if "j < n" for j
    using s'(4) that t(1) by (simp only: same_ring_def ring_mem_ok_def)
  have id_h: "b_segment_id (w_buf s' h) = b_segment_id (w_buf ?t h)" using st assms(3) by simp
  have head: "seg_data s' ?M h = seg_data ?t ?M h" "valid_ecc s' ?M h"
    using seg_data_cong [OF mem_h id_h] valid_ecc_cong [OF mem_h id_h] t(6) by blast+
  have "pending ?t ?M ?run = pending s M ?run" unfolding pending_def using other by (metis (no_types, lifting) map_cong)
  then have data: "pending s' ?M (h # ?run) @ scratch = pending s M (h # ?run)"
    using s'(3) run head(1) t(7) by (simp add: pending_def)
  moreover have "\<forall>i\<in>set run. b_status (w_buf s' i) = waiting \<and> valid_ecc s' ?M i"
    using s'(7) run head(2) st t(3,4) inrun assms(3,11) by auto
  ultimately show ?thesis using s'(1,2,5,8) assms(11) by blast
qed

lemma hard_error_recovery_ok:
  assumes "long_ok TYPE('l::len)" and "ring_mem_ok n s" and "buffer_head (fdc (w_isr s)) = h" and "h < n"
    and "bsm_rep fmt base lim N (w_ft s) M" and "\<forall>i<n. 0 \<le> b_segment_id (w_buf s i) \<and> b_segment_id (w_buf s i) < int N"
    and "\<forall>i<n. i \<noteq> h \<longrightarrow> b_segment_id (w_buf s i) \<noteq> b_segment_id (w_buf s h)"
    and "seg = nat (b_segment_id (w_buf s h))" and "hard = b_hard_error_map (w_buf s h)" and "count_ones hard = 1" and "M seg AND hard = 0"
    and "0 < data_size (M seg)" and "list_fits fmt base lim N (M(seg := M seg OR hard))" and "run = h # waiting_run s (ring_after h n)"
  shows "\<exists>s' scratch. ftape_hard_error_recovery TYPE('l) s = Some (s', Inr scratch) \<and> length scratch = FT_SECTOR_SIZE
    \<and> pending s' (M(seg := M seg OR hard)) run @ scratch = pending s M run
    \<and> bsm_rep fmt base lim N (w_ft s') (M(seg := M seg OR hard)) \<and> ring_mem_ok n s'
    \<and> (\<forall>i\<in>set run. b_status (w_buf s' i) = waiting \<and> valid_ecc s' (M(seg := M seg OR hard)) i)"
proof -
  let ?M = "M(seg := M seg OR hard)" and ?is = "ring_after h n"
  have len: "length (buffers (fdc (w_isr s))) = n" using assms(2) by (simp add: ring_mem_ok_def)
  have seg: "seg < N" "int seg = b_segment_id (w_buf s h)" using assms(4,6,8) by auto
  obtain ft1 where ft1: "ftape_get_bad_sector_entry (w_ft s) (int seg) = Some (ft1, M seg)" "bsm_rep fmt base lim N ft1 M"
    using bsm_store.get_law [OF assms(5) seg(1)] by blast
  let ?ft2 = "ft1\<lparr>history := (history ft1)\<lparr>defects := defects (history ft1) + 1\<rparr>\<rparr>"
  have "bsm_rep fmt base lim N ?ft2 M" using ft1(2) by simp
  then obtain ft3 where ft3: "ftape_put_bad_sector_entry ?ft2 (int seg) (M seg OR hard) = Some ft3" "bsm_rep fmt base lim N ft3 ?M"
    using bsm_store.put_law [OF _ seg(1) assms(13)] by blast
  let ?t = "set_buf h (set_status waiting) (fst (fdc_int_copy_and_gen_ecc TYPE('l) h (M seg OR hard) (fdc_int_read_buffer h (set_ft ft3 s))))"
  let ?sc = "bytes_at (snd (w_mem s ! h)) (nat (data_size (M seg) - int FT_SECTOR_SIZE)) FT_SECTOR_SIZE"
  obtain s' scratch where s': "shift_segments TYPE('l) (ring_after h n) ?t ?sc = Some (s', scratch)" "length scratch = FT_SECTOR_SIZE"
      "pending s' ?M run @ scratch = pending s M run" "bsm_rep fmt base lim N (w_ft s') ?M"
      "\<forall>i\<in>set run. b_status (w_buf s' i) = waiting \<and> valid_ecc s' ?M i" "ring_mem_ok n s'"
    using shift_behind_head [OF assms(1,2,4,11,10,12,8,6,7) ft3(2) assms(14)] by blast
  have enough: "\<not> data_size (M seg) < 1024" using assms(12) by (simp add: data_size_def)
  let ?s = "set_ft ((w_ft s')\<lparr>old_segment_id := -1\<rparr>) s'"
  have "ftape_hard_error_recovery TYPE('l) s = Some (?s, Inr scratch)"
    using ft1(1) ft3(1) s'(1) enough assms(3,8-12) seg(2) len by (simp add: ftape_hard_error_recovery_def Let_def read_buffer_mem)
  moreover have "pending ?s ?M run @ scratch = pending s M run" using s'(3) pending_cong [of run ?s s' ?M] by simp
  moreover have "\<forall>i\<in>set run. b_status (w_buf ?s i) = waiting \<and> valid_ecc ?s ?M i" using s'(5) by (simp add: valid_ecc_def)
  moreover have "ring_mem_ok n ?s" using s'(6) by (simp add: ring_mem_ok_def) (simp add: set_ft_def)
  ultimately show ?thesis using s'(2,4) by auto
qed

text \<open>
  The ring of \<open>n\<close> buffers after a write that failed in one sector, good so far, of the segment at its head; \<open>M\<close> is the bad
  sector map and \<open>run\<close> are the buffers that are still to be written.
\<close>

definition failing_ring ::
  "ft_format_type \<Rightarrow> nat \<Rightarrow> nat \<Rightarrow> nat \<Rightarrow> (nat \<Rightarrow> u32) \<Rightarrow> nat \<Rightarrow> nat \<Rightarrow> u32 \<Rightarrow> nat list \<Rightarrow> write_state \<Rightarrow> bool" where
  "failing_ring fmt base lim N M n seg hard run s \<longleftrightarrow> (let h = w_head s in
     ring_mem_ok n s \<and> h < n \<and> bsm_rep fmt base lim N (w_ft s) M
     \<and> (\<forall>i<n. 0 \<le> b_segment_id (w_buf s i) \<and> b_segment_id (w_buf s i) < int N)
     \<and> (\<forall>i<n. i \<noteq> h \<longrightarrow> b_segment_id (w_buf s i) \<noteq> b_segment_id (w_buf s h))
     \<and> seg = nat (b_segment_id (w_buf s h)) \<and> hard = b_hard_error_map (w_buf s h) \<and> count_ones hard = 1 \<and> M seg AND hard = 0
     \<and> 0 < data_size (M seg) \<and> list_fits fmt base lim N (M(seg := M seg OR hard)) \<and> run = h # waiting_run s (ring_after h n))"

lemma failing_ring_recovery:
  assumes "long_ok TYPE('l::len)" "failing_ring fmt base lim N M n seg hard run s"
  shows "\<exists>s' scratch. ftape_hard_error_recovery TYPE('l) s = Some (s', Inr scratch) \<and> length scratch = FT_SECTOR_SIZE
    \<and> pending s' (M(seg := M seg OR hard)) run @ scratch = pending s M run
    \<and> bsm_rep fmt base lim N (w_ft s') (M(seg := M seg OR hard)) \<and> ring_mem_ok n s'
    \<and> (\<forall>i\<in>set run. b_status (w_buf s' i) = waiting \<and> valid_ecc s' (M(seg := M seg OR hard)) i)"
proof -
  let ?h = "w_head s"
  have head: "buffer_head (fdc (w_isr s)) = ?h" by (simp add: w_head_def)
  have fr: "ring_mem_ok n s" "?h < n" "bsm_rep fmt base lim N (w_ft s) M"
    "\<forall>i<n. 0 \<le> b_segment_id (w_buf s i) \<and> b_segment_id (w_buf s i) < int N"
    "\<forall>i<n. i \<noteq> ?h \<longrightarrow> b_segment_id (w_buf s i) \<noteq> b_segment_id (w_buf s ?h)"
    "seg = nat (b_segment_id (w_buf s ?h))" "hard = b_hard_error_map (w_buf s ?h)" "count_ones hard = 1" "M seg AND hard = 0"
    "0 < data_size (M seg)" "list_fits fmt base lim N (M(seg := M seg OR hard))" "run = ?h # waiting_run s (ring_after ?h n)"
    using assms(2) unfolding failing_ring_def Let_def by blast+
  show ?thesis by (rule hard_error_recovery_ok [OF assms(1) fr(1) head fr(2-)])
qed

text \<open>
  C5. Recovery from a hard write error loses nothing: with one failing sector that was good so far,
  \<open>ftape_hard_error_recovery\<close> marks it as bad, and the data of the failing segment and of all segments that wait
  behind it in the ring, followed by the sector it hands out, are what the data were before, in the same
  order and sector by sector; every queued segment has valid error correction codes again and waits to
  be written.
\<close>

theorem hard_error_recovery_keeps_data:
  assumes "long_ok TYPE('l::len)" and "failing_ring fmt base lim N M n seg hard run s"
  shows "\<exists>s' scratch. ftape_hard_error_recovery TYPE('l) s = Some (s', Inr scratch) \<and> length scratch = FT_SECTOR_SIZE
    \<and> pending s' (M(seg := M seg OR hard)) run @ scratch = pending s M run
    \<and> bsm_rep fmt base lim N (w_ft s') (M(seg := M seg OR hard))
    \<and> (\<forall>i\<in>set run. b_status (w_buf s' i) = waiting \<and> valid_ecc s' (M(seg := M seg OR hard)) i)"
  using failing_ring_recovery [OF assms] by blast

section \<open>Queueing keeps the order of the data\<close>

lemma wait_segment_ready:
  assumes "\<not> e_signal E s" "b_status (w_buf s (w_tail s)) = buf_done" "st \<noteq> buf_done"
  shows "ftape_wait_segment E st s = Some (s, Inr ())"
  using assms by (subst ftape_wait_segment.simps) simp

text \<open>A look-up of bad sectors leaves all but its own cache alone.\<close>

definition same_drive :: "ftape_info \<Rightarrow> ftape_info \<Rightarrow> bool" where
  "same_drive f f' \<longleftrightarrow> driver_state f' = driver_state f \<and> runner_status f' = runner_status f \<and> tracks_per_tape f' = tracks_per_tape f
    \<and> segments_per_track f' = segments_per_track f \<and> first_data_segment f' = first_data_segment f \<and> last_data_segment f' = last_data_segment f"

lemma get_entry_drive: "ftape_get_bad_sector_entry f seg = Some (f', m) \<Longrightarrow> same_drive f f'"
  by (auto simp: ftape_get_bad_sector_entry_def same_drive_def Let_def bind_eq_Some_conv split: if_splits option.splits prod.splits)

lemma copy_result:
  assumes "w_held s"
  shows "fdc_int_copy_and_gen_ecc t i bsm s = (fst (fdc_int_copy_and_gen_ecc t i bsm s), Inr (max 0 (data_size bsm)))"
  using assms by (auto simp: fdc_int_copy_and_gen_ecc_def fdc_int_write_buffer_def Let_def data_size_def split: prod.splits)

lemma set_ft_same: "set_ft (w_ft s) s = s"
  by (simp add: set_ft_def w_ft_def)

lemma handle_eot_frame:
  assumes "runner_status (w_ft s) \<in> {idle, running}"
  shows "handle_eot E s = (s, Inr ())"
proof -
  have "runner_status (w_ft s) \<noteq> logical_eot \<and> runner_status (w_ft s) \<noteq> end_of_tape" using assms by auto
  then show ?thesis by (simp add: handle_eot_def ftape_handle_logical_eot_def set_ft_same)
qed

text \<open>
  The driver writes, and the buffers \<open>run\<close> hold data that are not written yet; \<open>free_buffers\<close> are done, from \<open>TAIL\<close> on.
\<close>

definition queue_ok :: "ft_format_type \<Rightarrow> nat \<Rightarrow> nat \<Rightarrow> nat \<Rightarrow> (nat \<Rightarrow> u32) \<Rightarrow> nat \<Rightarrow> nat list \<Rightarrow> write_state \<Rightarrow> bool" where
  "queue_ok fmt base lim N M n run s \<longleftrightarrow> ring_mem_ok n s \<and> w_tail s < n \<and> bsm_rep fmt base lim N (w_ft s) M
    \<and> driver_state (w_ft s) = writing \<and> runner_status (w_ft s) = running
    \<and> set run \<subseteq> {..<n} \<and> (\<forall>j\<in>set run. b_status (w_buf s j) \<noteq> buf_done)"

definition free_buffers :: "nat \<Rightarrow> nat \<Rightarrow> write_state \<Rightarrow> bool" where
  "free_buffers n k s \<longleftrightarrow> k \<le> n \<and> (\<forall>j<k. b_status (w_buf s ((w_tail s + j) mod n)) = buf_done)"

lemma free_buffers_tail: "free_buffers n (Suc k) s \<Longrightarrow> w_tail s < n \<Longrightarrow> b_status (w_buf s (w_tail s)) = buf_done"
  by (auto simp: free_buffers_def dest!: spec [of _ 0])

text \<open>Filling the buffer at \<open>TAIL\<close> leaves the others that were free.\<close>

lemma free_buffers_next:
  assumes "free_buffers n (Suc k) s" "w_tail s < n" "w_tail s' = (w_tail s + 1) mod n"
    "\<forall>j<n. j \<noteq> w_tail s \<longrightarrow> b_status (w_buf s' j) = b_status (w_buf s j)"
  shows "free_buffers n k s'"
proof -
  have n: "Suc k \<le> n" using assms(1) by (simp add: free_buffers_def)
  have "b_status (w_buf s' ((w_tail s' + j) mod n)) = buf_done" if j: "j < k" for j
  proof -
    let ?j = "(w_tail s + Suc j) mod n"
    have "(w_tail s' + j) mod n = ?j" using assms(3) by (simp add: mod_simps)
    moreover have "?j \<noteq> w_tail s" "?j < n" using assms(2) j n by (auto simp: mod_if)
    moreover have "b_status (w_buf s ?j) = buf_done" using assms(1) j unfolding free_buffers_def by blast
    ultimately show ?thesis using assms(4) by simp
  qed
  then show ?thesis using n by (simp add: free_buffers_def)
qed

text \<open>The buffer at \<open>TAIL\<close> takes the data of the deblock buffer; the other buffers keep theirs.\<close>

lemma fill_tail_step:
  assumes "long_ok TYPE('l::len)" "ring_mem_ok n s" "w_tail s < n" "b_status (w_buf s (w_tail s)) = buf_done"
    "bsm_rep fmt base lim N (w_ft s) M" "seg < N" "w_held s"
  shows "\<exists>s'. fill_tail TYPE('l) (int seg) s r = Some (s', Inr (max 0 (data_size (M seg))))
    \<and> ring_mem_ok n s' \<and> bsm_rep fmt base lim N (w_ft s') M \<and> w_tail s' = (w_tail s + 1) mod n \<and> w_head s' = w_head s
    \<and> b_status (w_buf s' (w_tail s)) = waiting \<and> valid_ecc s' M (w_tail s) \<and> \<not> w_held s' \<and> same_drive (w_ft s) (w_ft s')
    \<and> seg_data s' M (w_tail s) = take (nat (data_size (M seg))) (snd (w_deblock s))
    \<and> (\<forall>j<n. j \<noteq> w_tail s \<longrightarrow> w_mem s' ! j = w_mem s ! j \<and> b_segment_id (w_buf s' j) = b_segment_id (w_buf s j) \<and> b_status (w_buf s' j) = b_status (w_buf s j))"
proof -
  let ?i = "w_tail s"
  obtain f where f: "ftape_get_bad_sector_entry (w_ft s) (int seg) = Some (f, M seg)" "bsm_rep fmt base lim N f M"
    using bsm_store.get_law [OF assms(5,6)] by blast
  let ?s0 = "set_ft f s" let ?s1 = "fst (fdc_int_copy_and_gen_ecc TYPE('l) ?i (M seg) ?s0)"
  let ?g = "\<lambda>b. b\<lparr>b_segment_id := int seg, b_status := waiting\<rparr>"
  let ?s' = "set_fdc (\<lambda>c. c\<lparr>buffer_tail := (?i + 1) mod length (buffers c)\<rparr>) (set_buf ?i ?g ?s1)"
  have ok0: "ring_mem_ok n ?s0" using assms(2) by (simp add: ring_mem_ok_def) (simp add: set_ft_def)
  have held: "w_held ?s0" using assms(7) by simp
  note g = copy_and_gen_ecc_ok [OF assms(1) ok0 assms(3) held, where bsm = "M seg"]
  have len: "length (buffers (fdc (w_isr s))) = n" "length (buffers (fdc (w_isr ?s1))) = n" using assms(2) g(1) by (simp_all add: ring_mem_ok_def)
  have ring: "same_ring s ?s1" using set_ft_simps(5) g(3) by (rule same_ring_trans)
  have buf: "w_buf ?s' j = (if j = ?i then ?g (w_buf ?s1 j) else w_buf ?s1 j)" if "j < n" for j
    using that len by (simp add: w_buf_def set_buf_def set_fdc_def)
  have frame: "w_mem ?s' = w_mem ?s1" "w_ft ?s' = f" "\<not> w_held ?s'" using g(2,8) by simp_all
  have "\<forall>j<n. j \<noteq> ?i \<longrightarrow> w_mem ?s' ! j = w_mem s ! j \<and> b_segment_id (w_buf ?s' j) = b_segment_id (w_buf s j) \<and> b_status (w_buf ?s' j) = b_status (w_buf s j)"
    using buf frame(1) g(5) ring len by (simp add: same_ring_def)
  moreover have "seg_data ?s' M ?i = take (nat (data_size (M seg))) (snd (w_deblock s))" "valid_ecc ?s' M ?i"
    using g(6,7) buf [OF assms(3)] frame(1) by (simp_all add: seg_data_def valid_ecc_def Let_def)
  moreover have "fill_tail TYPE('l) (int seg) s r = Some (?s', Inr (max 0 (data_size (M seg))))"
    using f(1) assms(4) copy_result [OF held, of "TYPE('l)" ?i "M seg"]
    by (auto simp: fill_tail_def Let_def split: prod.splits)
  moreover have "ring_mem_ok n ?s'" using g(1) by (simp add: ring_mem_ok_def set_fdc_def set_buf_def)
  moreover have "w_tail ?s' = (?i + 1) mod n" "w_head ?s' = w_head s"
    using ring len by (simp_all add: w_tail_def w_head_def set_fdc_def set_buf_def same_ring_def)
  moreover have "b_status (w_buf ?s' ?i) = waiting" using buf [OF assms(3)] by simp
  moreover have "bsm_rep fmt base lim N (w_ft ?s') M" "same_drive (w_ft s) (w_ft ?s')" using f(2) frame(2) get_entry_drive [OF f(1)] by simp_all
  ultimately show ?thesis using frame(3) by (intro exI conjI)
qed

text \<open>One segment is appended to the data that wait.\<close>

lemma write_segment_ok:
  assumes "long_ok TYPE('l::len)" "queue_ok fmt base lim N M n run s" "free_buffers n (Suc k) s" "seg < N" "\<not> e_signal E s" "mode \<noteq> FT_WR_DELETE"
    "(of_nat seg :: u32) < tracks_per_tape (w_ft s) * segments_per_track (w_ft s)" "w_held s"
  shows "\<exists>s'. ftape_write_segment TYPE('l) E (int seg) mode s = Some (s', Inr (max 0 (data_size (M seg))))
    \<and> pending s' M (run @ [w_tail s]) = pending s M run @ take (nat (data_size (M seg))) (snd (w_deblock s))
    \<and> queue_ok fmt base lim N M n (run @ [w_tail s]) s' \<and> free_buffers n k s' \<and> w_tail s' = (w_tail s + 1) mod n \<and> w_head s' = w_head s
    \<and> b_status (w_buf s' (w_tail s)) = waiting \<and> valid_ecc s' M (w_tail s) \<and> \<not> w_held s' \<and> same_drive (w_ft s) (w_ft s')
    \<and> (\<forall>j\<in>set run. b_status (w_buf s' j) = b_status (w_buf s j) \<and> valid_ecc s' M j = valid_ecc s M j)"
proof -
  have q: "ring_mem_ok n s" "w_tail s < n" "bsm_rep fmt base lim N (w_ft s) M" "driver_state (w_ft s) = writing" "runner_status (w_ft s) = running"
    "set run \<subseteq> {..<n}" "\<forall>j\<in>set run. b_status (w_buf s j) \<noteq> buf_done"
    using assms(2) by (auto simp: queue_ok_def)
  have tail: "b_status (w_buf s (w_tail s)) = buf_done" by (rule free_buffers_tail [OF assms(3) q(2)])
  let ?f = "(w_ft s)\<lparr>history := (history (w_ft s))\<lparr>defects := defects (history (w_ft s)) + count_ones (b_hard_error_map (w_buf s (w_tail s)))\<rparr>\<rparr>"
  let ?s = "set_ft ?f s"
  have t: "w_tail ?s = w_tail s" "w_head ?s = w_head s" by (simp_all add: w_tail_def w_head_def set_ft_def)
  have ok: "ring_mem_ok n ?s" using q(1) by (simp add: ring_mem_ok_def) (simp add: set_ft_def)
  obtain s' where fill: "fill_tail TYPE('l) (int seg) ?s (Inr 0) = Some (s', Inr (max 0 (data_size (M seg))))"
      "ring_mem_ok n s'" "bsm_rep fmt base lim N (w_ft s') M" "w_tail s' = (w_tail s + 1) mod n" "w_head s' = w_head s"
      "b_status (w_buf s' (w_tail s)) = waiting" "valid_ecc s' M (w_tail s)" "\<not> w_held s'" "same_drive ?f (w_ft s')"
      "seg_data s' M (w_tail s) = take (nat (data_size (M seg))) (snd (w_deblock s))"
      "\<forall>j<n. j \<noteq> w_tail s \<longrightarrow> w_mem s' ! j = w_mem s ! j \<and> b_segment_id (w_buf s' j) = b_segment_id (w_buf s j) \<and> b_status (w_buf s' j) = b_status (w_buf s j)"
    using fill_tail_step [OF assms(1) ok, of fmt base lim N M seg "Inr 0"] q assms(4,8) t tail by auto
  have drive: "same_drive (w_ft s) (w_ft s')" using fill(9) by (simp add: same_drive_def)
  have run: "ftape_write_segment TYPE('l) E (int seg) mode s = Some (s', Inr (max 0 (data_size (M seg))))"
    proof -
    have "prepare_writing E mode s = Some (s, Inr ())" using q(4) assms(6) by (simp add: prepare_writing_def wanted_state_def)
    moreover have "await_buffer E mode s = Some (s, Inr ())"
      using wait_segment_ready [OF assms(5) tail] assms(6) by (simp add: await_buffer_def wanted_state_def)
    moreover have "check_tail s = (?s, Inr 0)" using tail by (simp add: check_tail_def)
    moreover have "stop_runner E mode ?s = (?s, Inr ())" using q(5) handle_eot_frame [of ?s E] by (simp add: stop_runner_def)
    moreover have "start_runner E mode (s', Inr (max 0 (data_size (M seg)))) = Some (s', Inr (max 0 (data_size (M seg))))"
      using drive q(5) by (simp add: start_runner_def same_drive_def)
    ultimately have "write_segment TYPE('l) E (int seg) mode s = Some (s', Inr (max 0 (data_size (M seg))))"
      using fill(1) by (simp add: write_segment_def)
    then show ?thesis using assms(7) by (simp add: ftape_write_segment_def not_le)
  qed
  have old: "j \<noteq> w_tail s \<and> j < n" if "j \<in> set run" for j using that q(6,7) tail by auto
  have "pending s' M run = pending s M run" using old fill(11) by (intro pending_cong) simp
  then have data: "pending s' M (run @ [w_tail s]) = pending s M run @ take (nat (data_size (M seg))) (snd (w_deblock s))"
    using fill(10) by (simp add: pending_def)
  have "\<forall>j\<in>set run. b_status (w_buf s' j) = b_status (w_buf s j) \<and> valid_ecc s' M j = valid_ecc s M j"
    using old fill(11) by (intro ballI conjI valid_ecc_cong) simp_all
  moreover from this have "queue_ok fmt base lim N M n (run @ [w_tail s]) s'"
    using q fill(2-6) drive by (simp add: queue_ok_def same_drive_def)
  moreover have "free_buffers n k s'"
    using free_buffers_next [OF assms(3) q(2) fill(4)] fill(11) by blast
  ultimately show ?thesis using run data fill(4-8) drive by blast
qed

text \<open>
  C14. Queueing keeps the order of the data: when the driver writes and the buffer at \<open>TAIL\<close> is free,
  \<open>ftape_write_segment\<close> takes the data of the deblock buffer, as many bytes as the segment has good data sectors, to
  the end of the data that wait in the ring, behind valid error correction codes, moves \<open>TAIL\<close> on and
  returns that number of bytes.
\<close>

theorem write_segment_appends:
  assumes "long_ok TYPE('l::len)" and "queue_ok fmt base lim N M n run s" and "free_buffers n (Suc k) s" and "seg < N" and "\<not> e_signal E s"
    and "mode \<noteq> FT_WR_DELETE" and "(of_nat seg :: u32) < tracks_per_tape (w_ft s) * segments_per_track (w_ft s)" and "w_held s"
  shows "\<exists>s'. ftape_write_segment TYPE('l) E (int seg) mode s = Some (s', Inr (max 0 (data_size (M seg))))
    \<and> pending s' M (run @ [w_tail s]) = pending s M run @ take (nat (data_size (M seg))) (snd (w_deblock s))
    \<and> queue_ok fmt base lim N M n (run @ [w_tail s]) s' \<and> w_tail s' = (w_tail s + 1) mod n \<and> w_head s' = w_head s
    \<and> b_status (w_buf s' (w_tail s)) = waiting \<and> valid_ecc s' M (w_tail s)
    \<and> (\<forall>j\<in>set run. b_status (w_buf s' j) = b_status (w_buf s j) \<and> valid_ecc s' M j = valid_ecc s M j)"
  using write_segment_ok [OF assms] by blast

definition queueing :: write_state where
  "queueing = \<lparr>w_isr = sample_state\<lparr>ft := (ftape_extract_bad_sector_map (blank_info fmt_normal) (replicate 29696 0))\<lparr>driver_state := writing, runner_status := running\<rparr>,
       fdc := (fdc sample_state)\<lparr>buffers := [blank_buffer\<lparr>b_status := writing, b_segment_id := 5\<rparr>, blank_buffer\<lparr>b_status := buf_done\<rparr>],
         buffer_head := 0, buffer_tail := 1\<rparr>\<rparr>,
     w_mem = [(4096, replicate 32768 1), (65536, replicate 32768 2)], w_deblock = (262144, replicate 32768 4), w_held = True\<rparr>"

definition quiet_env :: write_env where
  "quiet_env = \<lparr>e_halt = (\<lambda>s. (s, Inr ())), e_stop_tape = (\<lambda>s. (s, Inr ())), e_ready = (\<lambda>_. Inr (True, False)),
     e_start_tape = (\<lambda>_ _ s. (s, Inr ())), e_interrupt = (\<lambda>s. (s, Inl ETIME)), e_report = (\<lambda>s. (s, Inr ())),
     e_setup_error = (\<lambda>_. None), e_signal = (\<lambda>_. False)\<rparr>"

lemma queueing_ok: "queue_ok fmt_normal 2048 29696 100 (\<lambda>_. 0) 2 [0] queueing \<and> free_buffers 2 1 queueing
  \<and> w_tail queueing = 1 \<and> w_deblock queueing = (262144, replicate 32768 4) \<and> w_held queueing"
proof -
  have two: "i < 2 \<longleftrightarrow> i = 0 \<or> i = 1" for i :: nat by auto
  have ok: "ring_mem_ok 2 queueing" by (auto simp: ring_mem_ok_def queueing_def two)
  have tail: "w_tail queueing = 1" "w_deblock queueing = (262144, replicate 32768 4)" "w_held queueing" by (simp_all add: w_tail_def queueing_def)
  have bufs: "b_status (w_buf queueing 1) = buf_done" "b_status (w_buf queueing 0) = writing" by (simp_all add: w_buf_def queueing_def)
  have rep: "bsm_rep fmt_normal 2048 29696 100 (w_ft queueing) (\<lambda>_. 0)"
    by (simp add: bsm_rep_def array_rep_def w_ft_def queueing_def ftape_extract_bad_sector_map_def blank_info_def list_format_def
        wide_format_def getput_defs load_le_def)
  have "driver_state (w_ft queueing) = writing" "runner_status (w_ft queueing) = running" by (simp_all add: w_ft_def queueing_def)
  then show ?thesis using ok rep tail bufs by (simp add: queue_ok_def free_buffers_def)
qed

theorem write_segment_appends_witness:
  "\<exists>s'. ftape_write_segment TYPE(32) quiet_env (int 6) FT_WR_ASYNC queueing = Some (s', Inr 29696)
    \<and> pending s' (\<lambda>_. 0) [0, 1] = pending queueing (\<lambda>_. 0) [0] @ replicate 29696 4"
proof -
  have "(of_nat 6 :: u32) < tracks_per_tape (w_ft queueing) * segments_per_track (w_ft queueing)"
    by (simp add: w_ft_def queueing_def ftape_extract_bad_sector_map_def blank_info_def Let_def)
  then show ?thesis
    using write_segment_appends [of fmt_normal 2048 29696 100 "\<lambda>_. 0" 2 "[0]" queueing 0 6 quiet_env FT_WR_ASYNC, where 'l = 32] queueing_ok
    by (auto simp: data_size_def quiet_env_def)
qed

definition failed_write :: write_state where
  "failed_write = \<lparr>w_isr = sample_state\<lparr>ft := ftape_extract_bad_sector_map (blank_info fmt_normal) (replicate 29696 0),
       fdc := (fdc sample_state)\<lparr>buffers := [blank_buffer\<lparr>b_status := buf_error, b_segment_id := 5, b_hard_error_map := 8\<rparr>,
         blank_buffer\<lparr>b_segment_id := 6\<rparr>, blank_buffer\<lparr>b_status := buf_done, b_segment_id := 7\<rparr>]\<rparr>\<rparr>,
     w_mem = [(4096, replicate 32768 1), (65536, replicate 32768 2), (131072, replicate 32768 3)],
     w_deblock = (262144, replicate 32768 4), w_held = True\<rparr>"

lemma failed_write_ring: "failing_ring fmt_normal 2048 29696 100 (\<lambda>_. 0) 3 5 8 [0, 1] failed_write"
proof -
  have buf: "w_buf failed_write 0 = blank_buffer\<lparr>b_status := buf_error, b_segment_id := 5, b_hard_error_map := 8\<rparr>"
    "w_buf failed_write 1 = blank_buffer\<lparr>b_segment_id := 6\<rparr>" "w_buf failed_write 2 = blank_buffer\<lparr>b_status := buf_done, b_segment_id := 7\<rparr>"
    by (simp_all add: w_buf_def failed_write_def numeral_2_eq_2)
  have three: "i < 3 \<longleftrightarrow> i = 0 \<or> i = 1 \<or> i = 2" for i :: nat by auto
  have ok: "ring_mem_ok 3 failed_write" by (auto simp: ring_mem_ok_def failed_write_def three)
  have run: "[0, 1] = 0 # waiting_run failed_write (ring_after 0 3)"
    using buf by (simp add: waiting_run_def ring_after_def upt_rec blank_buffer_def numeral_2_eq_2)
  have rep: "bsm_rep fmt_normal 2048 29696 100 (w_ft failed_write) (\<lambda>_. 0)"
    by (simp add: bsm_rep_def array_rep_def w_ft_def failed_write_def ftape_extract_bad_sector_map_def blank_info_def list_format_def
        wide_format_def getput_defs load_le_def)
  have ids: "\<forall>i<3. 0 \<le> b_segment_id (w_buf failed_write i) \<and> b_segment_id (w_buf failed_write i) < int 100"
    "\<forall>i<3. i \<noteq> 0 \<longrightarrow> b_segment_id (w_buf failed_write i) \<noteq> b_segment_id (w_buf failed_write 0)"
    using buf by (auto simp: three blank_buffer_def)
  have eight: "(8 :: u32) = push_bit 3 1" by simp
  have "{k. bit (8 :: u32) k} = {3}" unfolding eight by (simp only: bit_simps) auto
  then have one: "count_ones (8 :: u32) = 1" by (simp add: count_ones_card)
  have head: "w_head failed_write = 0" by (simp add: w_head_def failed_write_def sample_state_def)
  have b: "5 = nat (b_segment_id (w_buf failed_write 0))" "8 = b_hard_error_map (w_buf failed_write 0)"
    using buf by (simp_all add: blank_buffer_def)
  show ?thesis unfolding failing_ring_def head Let_def using ok rep ids one run b by (simp add: list_fits_small data_size_def)
qed

theorem hard_error_recovery_keeps_data_witness:
  "\<exists>s' scratch. ftape_hard_error_recovery TYPE(32) failed_write = Some (s', Inr scratch) \<and> length scratch = 1024
    \<and> pending s' ((\<lambda>_. 0)(5 := 8)) [0, 1] @ scratch = pending failed_write (\<lambda>_. 0) [0, 1]"
  using hard_error_recovery_keeps_data [OF _ failed_write_ring, where 'l = 32] by auto

end
