(* ===== verification/Ft_Read.thy ===== *)
theory Ft_Read
  imports Ft_Ecc_Segment Ft_Segment
begin

text \<open>
  What \<open>src/ftape/lowlevel/ftape-read.c\<close> does with a segment that has been read: the error maps, which
  count all sectors of the segment, are converted to maps of the sectors in the buffer, which holds
  the good ones only, and the error correction runs over the buffer.
\<close>

unbundle bit_operations_syntax

section \<open>Error maps of the sectors in the buffer\<close>

text \<open>
  The two nested loops of \<open>convert_sector_map\<close>: while bad sectors remain, the bit of a good sector is
  taken over at the next position, that of a bad one is dropped.
\<close>

function convert_loop :: "u32 \<Rightarrow> u32 \<Rightarrow> u32 \<Rightarrow> nat \<Rightarrow> u32" where
  "convert_loop bad_map src_map dst_map i =
    (if bad_map = 0 then (if src_map \<noteq> 0 then dst_map OR push_bit i src_map else dst_map)
     else if bad_map AND 1 = 0 then
       convert_loop (drop_bit 1 bad_map) (drop_bit 1 src_map)
         (if src_map AND 1 \<noteq> 0 then dst_map OR push_bit i 1 else dst_map) (i + 1)
     else convert_loop (drop_bit 1 bad_map) (drop_bit 1 src_map) dst_map i)"
  by pat_completeness auto
termination by (relation "measure (\<lambda>(b, s, d, i). unat b)") simp_all

declare convert_loop.simps [simp del]

definition convert_sector_map :: "ftape_info \<Rightarrow> buffer_struct \<Rightarrow> (ftape_info \<times> u32) option" where
  "convert_sector_map ft buff = do {
     (ft', bad_map) \<leftarrow> ftape_get_bad_sector_entry ft (b_segment_id buff);
     Some (ft', convert_loop bad_map (b_soft_error_map buff OR b_hard_error_map buff) 0 0)
   }"

section \<open>Correcting a segment\<close>

text \<open>
  \<open>buff_data\<close> is the part of the buffer's memory (\<open>buff->virtual\<close>) that holds the segment; the result is the number of bytes of
  user data, or \<open>EAGAIN\<close>.
\<close>

definition ftape_ecc_correct ::
  "'l::len itself \<Rightarrow> ftape_info \<Rightarrow> buffer_struct \<Rightarrow> bytes \<Rightarrow> (ftape_info \<times> bytes \<times> int result) option" where
  "ftape_ecc_correct t ft buff buff_data = do {
     (ft1, bads) \<leftarrow> convert_sector_map ft buff;
     let mseg = \<lparr>marked_bad = 0, read_bad = bads, blocks = nat (b_bytes buff div 1024), ms_data = buff_data, corrected = 0\<rparr>;
     if blocks mseg \<le> 3 then Some (ft1, buff_data, Inr 0)
     else
       (let ft2 = ft1\<lparr>history := (history ft1)\<lparr>crc_errors := crc_errors (history ft1) + count_ones bads\<rparr>\<rparr>;
            (mseg', result) = ftape_ecc_correct_data t mseg;
            ft3 = (if bads \<noteq> 0 \<or> corrected mseg' \<noteq> 0
                   then ft2\<lparr>history := (history ft2)\<lparr>hist_corrected := hist_corrected (history ft2) + count_ones (corrected mseg')\<rparr>\<rparr>
                   else ft2);
            fail_crc = (\<lambda>ft. ft\<lparr>history := (history ft)\<lparr>crc_failures := crc_failures (history ft) + 1\<rparr>\<rparr>);
            size = (int (blocks mseg) - 3) * 1024
        in Some (if result = ECC_CORRECTED \<or> result = ECC_OK then
                   (if (bads XOR corrected mseg') AND corrected mseg' \<noteq> 0 then fail_crc ft3 else ft3, ms_data mseg', Inr size)
                 else if ft_ignore_ecc_err ft3 then (fail_crc ft3, ms_data mseg', Inr size)
                 else (ft3\<lparr>history := (history ft3)\<lparr>ecc_failures := ecc_failures (history ft3) + 1\<rparr>\<rparr>, ms_data mseg', Inl EAGAIN)))
   }"

section \<open>Sectors and their places in the buffer\<close>

text \<open>The place of sector \<open>k\<close> in the buffer: the good sectors in front of it.\<close>

definition place :: "u32 \<Rightarrow> nat \<Rightarrow> nat" where
  "place bad k = card {i. i < k \<and> \<not> bit bad i}"

lemma place_0 [simp]: "place bad 0 = 0" "place 0 k = k"
  by (simp_all add: place_def)

lemma place_Suc: "place bad (Suc k) = place bad k + (if bit bad k then 0 else 1)"
proof -
  have "{i. i < Suc k \<and> \<not> bit bad i} = {i. i < k \<and> \<not> bit bad i} \<union> (if bit bad k then {} else {k})"
    by (auto simp: less_Suc_eq)
  then show ?thesis by (simp add: place_def card_insert_if)
qed

lemma place_shift: "place bad (Suc k) = (if bit bad 0 then 0 else 1) + place (drop_bit 1 bad) k"
  by (induction k) (simp_all add: place_Suc bit_drop_bit_eq del: drop_bit_Suc)

lemma place_mono: "k \<le> l \<Longrightarrow> place bad k \<le> place bad l"
  by (induction l) (auto simp: place_Suc le_Suc_eq)

lemma place_less: "k < l \<Longrightarrow> \<not> bit bad k \<Longrightarrow> place bad k < place bad l"
  using place_mono [of "Suc k" l bad] by (simp add: place_Suc)

lemma place_inj: "\<not> bit bad k \<Longrightarrow> \<not> bit bad l \<Longrightarrow> place bad k = place bad l \<Longrightarrow> k = l"
  using place_less [of k l bad] place_less [of l k bad] by (metis less_irrefl linorder_neqE_nat)

lemma place_le: "place bad k \<le> k"
  by (induction k) (auto simp: place_Suc)

lemma split_first: "(\<exists>k. P k) \<longleftrightarrow> P 0 \<or> (\<exists>k. P (Suc k))"
  by (metis not0_implies_Suc)

lemma bit_convert_loop:
  assumes "j < 32"
  shows "bit (convert_loop bad src dst i) j \<longleftrightarrow> bit dst j \<or> (\<exists>k. \<not> bit bad k \<and> bit src k \<and> j = i + place bad k)"
proof (induction bad src dst i rule: convert_loop.induct)
  case (1 bad src dst i)
  show ?case
  proof (cases "bad = 0")
    case True
    have "bit (push_bit i src) j \<longleftrightarrow> (\<exists>k. bit src k \<and> j = i + k)"
      using assms by (auto simp: bit_push_bit_iff)
    with True show ?thesis by (subst convert_loop.simps) (simp add: bit_or_iff)
  next
    case False
    have 0: "bit bad 0 \<longleftrightarrow> bad AND 1 \<noteq> 0" "bit src 0 \<longleftrightarrow> src AND 1 \<noteq> 0" using and_1_bit by blast+
    have push: "bit (dst OR push_bit i 1) j \<longleftrightarrow> bit dst j \<or> j = i" using assms by (auto simp: bit_or_iff bit_push_bit_iff bit_1_iff simp del: push_bit_of_1)
    show ?thesis
    proof (cases "bit bad 0")
      case True
      then have "convert_loop bad src dst i = convert_loop (drop_bit 1 bad) (drop_bit 1 src) dst i"
        using False by (subst convert_loop.simps) (simp add: 0)
      moreover have "bit (convert_loop (drop_bit 1 bad) (drop_bit 1 src) dst i) j \<longleftrightarrow> bit dst j
          \<or> (\<exists>k. \<not> bit (drop_bit 1 bad) k \<and> bit (drop_bit 1 src) k \<and> j = i + place (drop_bit 1 bad) k)"
        using 1(2) False True 0 by blast
      ultimately show ?thesis
        using True by (subst split_first) (simp add: place_shift bit_drop_bit_eq del: drop_bit_Suc)
    next
      case good: False
      have b0: "bad AND 1 = 0" using good 0(1) by blast
      let ?d = "if src AND 1 \<noteq> 0 then dst OR push_bit i 1 else dst"
      have "convert_loop bad src dst i = convert_loop (drop_bit 1 bad) (drop_bit 1 src) ?d (i + 1)"
        using b0 False by (subst convert_loop.simps) (simp only: if_False if_True refl)
      moreover have "bit (convert_loop (drop_bit 1 bad) (drop_bit 1 src) ?d (i + 1)) j \<longleftrightarrow> bit ?d j
          \<or> (\<exists>k. \<not> bit (drop_bit 1 bad) k \<and> bit (drop_bit 1 src) k \<and> j = i + 1 + place (drop_bit 1 bad) k)"
        using 1(1) False good 0 by blast
      ultimately show ?thesis
        using good push 0(2) by (subst split_first) (simp add: place_shift bit_drop_bit_eq del: drop_bit_Suc push_bit_of_1)
    qed
  qed
qed


lemma BAD_CHECK_bit: "BAD_CHECK w k \<longleftrightarrow> bit w k"
proof -
  have "bit (w AND push_bit k 1) j \<longleftrightarrow> j = k \<and> bit w k" for j
    by (auto simp: bit_simps dest: bit_imp_le_length)
  then show ?thesis unfolding BAD_CHECK_def by (metis bit_0_eq bot_apply bot_bool_def bit_word_eqI)
qed

text \<open>The places are numbered from 0: every place below that of the end belongs to a good sector.\<close>

lemma place_onto:
  assumes "p < place bad n"
  obtains k where "k < n" "\<not> bit bad k" "place bad k = p"
  using assms
proof (induction n arbitrary: thesis)
  case (Suc n)
  show ?case
  proof (cases "p < place bad n")
    case True
    then show ?thesis using Suc.IH Suc.prems(1) less_Suc_eq by metis
  next
    case False
    then have "\<not> bit bad n" "place bad n = p" using Suc.prems(2) by (auto simp: place_Suc split: if_splits)
    then show ?thesis by (intro Suc.prems(1) [of n]) simp_all
  qed
qed simp

text \<open>
  Sets of sectors in the buffer correspond to sets of good sectors of the segment: what holds of the
  place of a good sector is counted by its sectors.
\<close>

lemma card_places: "card {p. p < place bad 32 \<and> P p} = card {k. k < 32 \<and> \<not> bit bad k \<and> P (place bad k)}"
proof -
  have "bij_betw (place bad) {k. k < 32 \<and> \<not> bit bad k \<and> P (place bad k)} {p. p < place bad 32 \<and> P p}"
    unfolding bij_betw_def
  proof
    show "inj_on (place bad) {k. k < 32 \<and> \<not> bit bad k \<and> P (place bad k)}"
      by (intro inj_onI) (auto dest: place_inj)
    show "place bad ` {k. k < 32 \<and> \<not> bit bad k \<and> P (place bad k)} = {p. p < place bad 32 \<and> P p}"
    proof
      show "{p. p < place bad 32 \<and> P p} \<subseteq> place bad ` {k. k < 32 \<and> \<not> bit bad k \<and> P (place bad k)}"
      proof
        fix p assume p: "p \<in> {p. p < place bad 32 \<and> P p}"
        then obtain k where "k < 32" "\<not> bit bad k" "place bad k = p" using place_onto [of p bad 32] by auto
        with p show "p \<in> place bad ` {k. k < 32 \<and> \<not> bit bad k \<and> P (place bad k)}" by auto
      qed
    qed (auto intro: place_less)
  qed
  from bij_betw_same_card [OF this] show ?thesis by simp
qed

text \<open>The converted map has a bit for the place of every good sector with an error, and no other.\<close>

lemma bit_convert:
  assumes "k < 32" "\<not> bit bad k"
  shows "bit (convert_loop bad src 0 0) (place bad k) \<longleftrightarrow> bit src k"
proof -
  have "place bad k < 32" using place_le [of bad k] assms(1) by simp
  then show ?thesis using place_inj [OF assms(2)] assms(2) by (auto simp: bit_convert_loop)
qed

definition marked_sectors :: "u32 \<Rightarrow> buffer_struct \<Rightarrow> nat set" where
  "marked_sectors bad b = {k. k < 32 \<and> \<not> bit bad k \<and> bit (b_soft_error_map b OR b_hard_error_map b) k}"

definition wrong_unmarked :: "u32 \<Rightarrow> buffer_struct \<Rightarrow> bytes \<Rightarrow> bytes \<Rightarrow> nat \<Rightarrow> nat set" where
  "wrong_unmarked bad b mem0 mem c = {k. k < 32 \<and> \<not> bit bad k \<and> \<not> bit (b_soft_error_map b OR b_hard_error_map b) k
     \<and> mem ! (c + place bad k * FT_SECTOR_SIZE) \<noteq> mem0 ! (c + place bad k * FT_SECTOR_SIZE)}"

lemma converted_erasures:
  fixes bad :: u32
  defines "maps \<equiv> \<lambda>b. convert_loop bad (b_soft_error_map b OR b_hard_error_map b) 0 0"
  defines "mseg \<equiv> \<lambda>b mem. \<lparr>marked_bad = 0, read_bad = maps b, blocks = place bad 32, ms_data = mem, corrected = 0\<rparr>"
  shows "length (erasures (mseg b mem)) = card (marked_sectors bad b)"
    and "card (silent_errors mem0 (mseg b mem) c) = card (wrong_unmarked bad b mem0 mem c)"
proof -
  have bits: "BAD_CHECK (maps b) (place bad k) \<longleftrightarrow> bit (b_soft_error_map b OR b_hard_error_map b) k"
    if "k < 32" "\<not> bit bad k" for k
    using that by (simp add: BAD_CHECK_bit maps_def bit_convert)
  have "length (erasures (mseg b mem)) = card {p. p < place bad 32 \<and> BAD_CHECK (maps b) p}"
    by (simp add: erasures_def mseg_def distinct_length_filter Int_def conj_commute atLeast0LessThan)
  also have "\<dots> = card (marked_sectors bad b)"
    unfolding card_places marked_sectors_def using bits by (intro arg_cong [where f = card]) auto
  finally show "length (erasures (mseg b mem)) = card (marked_sectors bad b)" .
  have "silent_errors mem0 (mseg b mem) c = {p. p < place bad 32 \<and> (\<not> BAD_CHECK (maps b) p
      \<and> mem ! (c + p * FT_SECTOR_SIZE) \<noteq> mem0 ! (c + p * FT_SECTOR_SIZE))}"
    by (auto simp: silent_errors_def mseg_def)
  then show "card (silent_errors mem0 (mseg b mem) c) = card (wrong_unmarked bad b mem0 mem c)"
    unfolding wrong_unmarked_def using bits by (simp only: card_places) (intro arg_cong [where f = card], auto)
qed


lemma ecc_correct_ok:
  assumes "long_ok TYPE('l::len)" and "ftape_get_bad_sector_entry ft (b_segment_id buff) = Some (ft1, bad)"
    and "3 < place bad 32" and "b_bytes buff = 1024 * int (place bad 32)"
    and "length mem = place bad 32 * FT_SECTOR_SIZE" and "length mem0 = place bad 32 * FT_SECTOR_SIZE"
    and "\<forall>c < FT_SECTOR_SIZE. codeword mem0 c (place bad 32)"
    and "card (marked_sectors bad buff) \<le> 3"
    and "\<forall>c < FT_SECTOR_SIZE. card (wrong_unmarked bad buff mem0 mem c) \<le> (3 - card (marked_sectors bad buff)) div 2"
  shows "\<exists>ft'. ftape_ecc_correct TYPE('l) ft buff mem = Some (ft', mem0, Inr ((int (place bad 32) - 3) * 1024))"
proof -
  let ?maps = "convert_loop bad (b_soft_error_map buff OR b_hard_error_map buff) 0 0"
  let ?mseg = "\<lparr>marked_bad = 0, read_bad = ?maps, blocks = place bad 32, ms_data = mem, corrected = 0\<rparr>"
  note e = converted_erasures [where bad = bad and b = buff and mem = mem]
  have n: "place bad 32 \<le> 32" by (rule place_le)
  have "damaged (blocks ?mseg) (erasures ?mseg) mem0 (ms_data ?mseg)"
    unfolding damaged_def correctable_silent_errors using n assms(7,9) e by simp
  then obtain mseg' r where ecc: "ftape_ecc_correct_data TYPE('l) ?mseg = (mseg', r)" "r \<noteq> ECC_FAILED" "ms_data mseg' = mem0"
    using correct_data_damaged [of ?mseg mem0, where 'l = 'l] assms(1,5,6,8) e(1) by auto
  have r: "r = ECC_CORRECTED \<or> r = ECC_OK" using ecc(2) by (cases r) auto
  have "convert_sector_map ft buff = Some (ft1, ?maps)" using assms(2) by (simp add: convert_sector_map_def)
  then show ?thesis using assms(3,4) ecc r by (simp add: ftape_ecc_correct_def Let_def nat_mult_distrib)
qed

text \<open>
  The whole read path behind the interrupt handler restores a segment: the buffer holds the good
  sectors of a segment in their order, the error maps mark at most three of them, and every column
  has few enough further wrong bytes. Then \<open>ftape_ecc_correct\<close> succeeds, the buffer holds what had
  been written, and the result is the number of data bytes, the sectors less the three parity
  sectors. The bad sector map and the error maps count all 32 sectors of the segment; that they are
  translated to places in the buffer correctly is part of the claim.
\<close>

theorem ecc_correct_restores_segment:
  assumes "long_ok TYPE('l::len)" and "ftape_get_bad_sector_entry ft (b_segment_id buff) = Some (ft1, bad)"
    and "3 < place bad 32" and "b_bytes buff = 1024 * int (place bad 32)"
    and "length mem = place bad 32 * FT_SECTOR_SIZE" and "length mem0 = place bad 32 * FT_SECTOR_SIZE"
    and "\<forall>c < FT_SECTOR_SIZE. codeword mem0 c (place bad 32)"
    and "card (marked_sectors bad buff) \<le> 3"
    and "\<forall>c < FT_SECTOR_SIZE. card (wrong_unmarked bad buff mem0 mem c) \<le> (3 - card (marked_sectors bad buff)) div 2"
  shows "\<exists>ft'. ftape_ecc_correct TYPE('l) ft buff mem = Some (ft', mem0, Inr ((int (place bad 32) - 3) * 1024))"
  by (rule ecc_correct_ok [OF assms])

lemma bit_two_int: "bit (2 :: int) k \<longleftrightarrow> k = 1"
  by (auto simp: bit_numeral_rec bit_1_iff split: nat.split)

theorem ecc_correct_restores_segment_witness:
  "\<exists>ft'. ftape_ecc_correct TYPE(64) ((blank_info fmt_normal)\<lparr>used_header_segment := -1\<rparr>)
      (blank_buffer\<lparr>b_bytes := 32768, b_hard_error_map := 2\<rparr>) ((replicate 32768 0)[1500 := 7])
    = Some (ft', replicate 32768 0, Inr 29696)"
proof -
  let ?ft = "(blank_info fmt_normal)\<lparr>used_header_segment := -1\<rparr>" and ?b = "blank_buffer\<lparr>b_bytes := 32768, b_hard_error_map := 2\<rparr>"
  let ?m = "(replicate 32768 0)[1500 := 7] :: bytes"
  have get: "ftape_get_bad_sector_entry ?ft (b_segment_id ?b) = Some (?ft, 0)"
    by (simp add: ftape_get_bad_sector_entry_def)
  have "marked_sectors 0 ?b = {1}" by (auto simp: marked_sectors_def blank_buffer_def bit_two_int)
  moreover have "wrong_unmarked 0 ?b (replicate 32768 0) ?m c = {}" if "c < FT_SECTOR_SIZE" for c
  proof -
    have row: "x = 1" if "c + x * FT_SECTOR_SIZE = 1500" for x
      using \<open>c < FT_SECTOR_SIZE\<close> arg_cong [OF that, of "\<lambda>n. n div FT_SECTOR_SIZE"] by simp
    show ?thesis using that by (auto simp: wrong_unmarked_def blank_buffer_def bit_two_int nth_list_update dest: row split: if_splits)
  qed
  ultimately show ?thesis
    using ecc_correct_restores_segment [OF _ get, of ?m "replicate 32768 0", where 'l = 64]
    by (simp add: blank_buffer_def codeword_zeros)
qed

end
