(* ===== verification/Ft_Fetch.thy ===== *)
theory Ft_Fetch
  imports Ft_Write Ft_Read Ft_Header
begin

text \<open>
  The read path of the low-level driver, \<open>src/ftape/lowlevel/ftape-read.c\<close>: the search of the ring for a segment that has been read
  ahead, its correction and the exchange with the deblock buffer, the restart of the tape, and the search for a header segment.

  The state and the environment are those of \<open>Ft_Write\<close>; the pointer \<open>*address\<close> of the caller is set when \<open>w_held\<close> is. The loops are
  partial functions: \<open>None\<close> when they do not return, or when a bad sector map is read outside its buffer. The flag that the tape has
  been used is not kept.
\<close>

section \<open>Reading a segment\<close>

datatype ft_read_mode_t = FT_RD_SINGLE | FT_RD_AHEAD

text \<open>The segment takes up the first sectors of the buffer.\<close>

definition fdc_int_correct_and_copy :: "'l::len itself \<Rightarrow> nat \<Rightarrow> write_state \<Rightarrow> (write_state \<times> int result) option" where
  "fdc_int_correct_and_copy t i s = do {
     let (addr, m) = w_mem s ! i;
     let n = nat (b_bytes (w_buf s i) div 1024) * FT_SECTOR_SIZE;
     (f, d, r) \<leftarrow> ftape_ecc_correct t (w_ft s) (w_buf s i) (take n m);
     let s1 = set_ft f (s\<lparr>w_mem := (w_mem s)[i := (addr, d @ drop n m)]\<rparr>);
     Some (case r of Inl e \<Rightarrow> (s1\<lparr>w_held := False\<rparr>, Inl e) | Inr k \<Rightarrow> (fdc_int_read_buffer i s1, Inr k))
   }"

definition fdc_put_deblock_buffer :: "write_state \<Rightarrow> write_state" where
  "fdc_put_deblock_buffer s = s\<lparr>w_held := False\<rparr>"

definition enter_state :: "buffer_state_enum \<Rightarrow> write_state \<Rightarrow> write_state" where
  "enter_state st s = set_ft (fst (ftape_set_state (w_ft s) st)) s"

text \<open>The buffer at \<open>TAIL\<close> is given back.\<close>

definition release_tail :: "write_state \<Rightarrow> write_state" where
  "release_tail s =
    set_fdc (\<lambda>c. c\<lparr>buffer_tail := (buffer_tail c + 1) mod length (buffers c)\<rparr>) (set_buf (w_tail s) (set_status waiting) s)"

text \<open>
  The search of the full buffers: those with another segment are given back, and so is one that the error correction fails on, which
  counts as a retry. The result is the number of bytes when the segment was found.
\<close>

definition check_cached :: "'l::len itself \<Rightarrow> int \<Rightarrow> write_state \<Rightarrow> (write_state \<times> int option result) option" where
  "check_cached t segment_id s =
    (if b_segment_id (w_buf s (w_tail s)) \<noteq> segment_id then Some (s, Inr None)
     else if b_deleted (w_buf s (w_tail s)) then Some (s, Inl ENODATA)
     else map_option (\<lambda>(s1, r). (s1, case r of Inl e \<Rightarrow> Inl e | Inr n \<Rightarrow> Inr (Some n))) (fdc_int_correct_and_copy t (w_tail s) s))"

partial_function (option) search_cache ::
  "'l::len itself \<Rightarrow> write_env \<Rightarrow> int \<Rightarrow> int \<Rightarrow> write_state \<Rightarrow> (write_state \<times> int \<times> int option result) option" where
  "search_cache t E segment_id retry s =
    (if b_status (w_buf s (w_tail s)) \<noteq> buf_done then Some (s, retry, Inr None)
     else if e_signal E s then Some (s, retry, Inl EINTR)
     else Option.bind (check_cached t segment_id s) (\<lambda>(s1, r).
       case r of
         Inl e \<Rightarrow> if e = EAGAIN then search_cache t E segment_id (retry + 1) (release_tail s1) else Some (s1, retry, Inl e)
       | Inr None \<Rightarrow> search_cache t E segment_id retry (release_tail s1)
       | Inr (Some n) \<Rightarrow> Some (release_tail s1, retry, Inr (Some n))))"

text \<open>
  The wait for a buffer that is being read: a signal ends the call; after any other failure, or when the buffer is for another segment,
  the operation is aborted.
\<close>

definition await_reading :: "write_env \<Rightarrow> int \<Rightarrow> write_state \<Rightarrow> (write_state \<times> unit result) option" where
  "await_reading E segment_id s =
    (let b = w_buf s (w_tail s); restart = (\<lambda>s. (enter_state reading (fst (ftape_abort_operation E s)), Inr ()))
     in if b_status b \<noteq> reading then Some (s, Inr ())
     else if b_segment_id b \<noteq> segment_id then Some (restart s)
     else do {
       (s1, r) \<leftarrow> ftape_wait_segment E reading s;
       Some (case r of Inr _ \<Rightarrow> (s1, Inr ()) | Inl e \<Rightarrow> if e = EINTR then (s1, Inl EINTR) else restart s1)
     })"

definition count_defects :: "nat \<Rightarrow> write_state \<Rightarrow> write_state" where
  "count_defects n s = set_ft ((w_ft s)\<lparr>history := (history (w_ft s))\<lparr>defects := defects (history (w_ft s)) + n\<rparr>\<rparr>) s"

definition stop_reading :: "write_env \<Rightarrow> write_state \<Rightarrow> write_state \<times> unit result" where
  "stop_reading E s =
    (let h = w_head s; b = w_buf s h;
         s1 = (if b_status b = buf_error then count_defects (count_ones (b_hard_error_map b)) s else s);
         (s2, r) = (if runner_status (w_ft s) = aborting then
             ftape_dumb_stop E (if b_status b \<in> {buf_error, reading} then set_buf h (set_status waiting) s1 else s)
           else handle_eot E s)
     in case r of Inl e \<Rightarrow> (fdc_put_deblock_buffer s2, Inl e) | Inr _ \<Rightarrow> (s2, Inr ()))"

text \<open>An empty buffer at \<open>TAIL\<close> makes \<open>HEAD\<close> the buffer for the segment; the tape is started when it stands.\<close>

definition start_transfer :: "write_env \<Rightarrow> buffer_state_enum \<Rightarrow> fdc_mode_enum \<Rightarrow> write_state \<Rightarrow> write_state" where
  "start_transfer E st operation s =
    (let s1 = set_buf (w_head s) (set_status st) s
     in s1\<lparr>w_isr := fst (fdc_setup_read_write (w_isr s1) (w_buf s1 (w_head s1)) operation (e_setup_error E s1 = None))\<rparr>)"

definition restart_reading :: "write_env \<Rightarrow> int \<Rightarrow> ft_read_mode_t \<Rightarrow> write_state \<Rightarrow> (write_state \<times> unit result) option" where
  "restart_reading E segment_id mode s =
    (if b_status (w_buf s (w_tail s)) \<noteq> waiting then Some (s, Inr ())
     else do {
       let h = w_head s;
       (f, b) \<leftarrow> ftape_setup_new_segment (w_ft s) (w_buf s h) segment_id True;
       let b1 = (if mode = FT_RD_SINGLE then b\<lparr>b_next_segment := 0\<rparr> else b);
       let s1 = set_buf h (\<lambda>_. fst (ftape_calc_next_cluster b1)) (set_ft f s);
       Some (case (if runner_status (w_ft s1) = idle then e_start_tape E segment_id (b_short_start (w_buf s1 h)) s1 else (s1, Inr ())) of
           (s2, Inl e) \<Rightarrow> (s2, Inl e)
         | (s2, Inr _) \<Rightarrow> (start_transfer E reading fdc_reading_data s2, Inr ()))
     })"

text \<open>One turn of the outer loop: the result when it returns, or \<open>None\<close> to go on.\<close>

definition read_turn :: "'l::len itself \<Rightarrow> write_env \<Rightarrow> int \<Rightarrow> ft_read_mode_t \<Rightarrow> int \<Rightarrow> write_state \<Rightarrow> (write_state \<times> int \<times> int result option) option" where
  "read_turn t E segment_id mode retry s =
    (if e_signal E s then Some (s, retry, Some (Inl EINTR))
     else do {
       (s1, retry1, found) \<leftarrow> search_cache t E segment_id retry s;
       case found of Inl e \<Rightarrow> Some (s1, retry1, Some (Inl e))
       | Inr got \<Rightarrow> do {
           (s2, r2) \<leftarrow> (if got = None then await_reading E segment_id s1 else Some (s1, Inr ()));
           case r2 of Inl e \<Rightarrow> Some (s2, retry1, Some (Inl e))
           | Inr _ \<Rightarrow> (case stop_reading E s2 of
               (s3, Inl e) \<Rightarrow> Some (s3, retry1, Some (Inl e))
             | (s3, Inr _) \<Rightarrow> (case got of
                   Some n \<Rightarrow> Some (s3, retry1, Some (Inr n))
                 | None \<Rightarrow>
                     if retry1 > ft_soft_retries (w_ft s3) then Some (count_defects 1 s3, retry1, Some (Inl EIO))
                     else do {
                       (s4, r4) \<leftarrow> restart_reading E segment_id mode s3;
                       Some (s4, retry1, case r4 of Inl e \<Rightarrow> Some (Inl e) | Inr _ \<Rightarrow> None)
                     }))
         }
     })"

partial_function (option) read_turns :: "'l::len itself \<Rightarrow> write_env \<Rightarrow> int \<Rightarrow> ft_read_mode_t \<Rightarrow> int \<Rightarrow> write_state \<Rightarrow> (write_state \<times> int result) option" where
  "read_turns t E segment_id mode retry s =
    Option.bind (read_turn t E segment_id mode retry s) (\<lambda>(s1, retry1, out).
      case out of Some r \<Rightarrow> Some (s1, r) | None \<Rightarrow> read_turns t E segment_id mode retry1 s1)"

definition ftape_read_segment :: "'l::len itself \<Rightarrow> write_env \<Rightarrow> int \<Rightarrow> ft_read_mode_t \<Rightarrow> write_state \<Rightarrow> (write_state \<times> int result) option" where
  "ftape_read_segment t E segment_id mode s0 =
    (let s = s0\<lparr>w_held := False\<rparr>
     in case (if driver_state (w_ft s) = reading then (s, Inr ()) else ftape_abort_operation E s) of
       (s1, Inl e) \<Rightarrow> Some (s1, Inl e)
     | (s1, Inr _) \<Rightarrow> read_turns t E segment_id mode 0 (if driver_state (w_ft s) = reading then s1 else enter_state reading s1))"

section \<open>Reading the header segment\<close>

abbreviation HEADER_SEGMENT_BOUNDARY :: nat where "HEADER_SEGMENT_BOUNDARY \<equiv> 68"

text \<open>
  \<open>try_header\<close> decodes the segment in the deblock buffer into \<open>hseg_buf\<close>. The loop tries the segments in turn, \<open>left\<close> of them; the
  first failure makes it look for the second header segment. It returns the last result.
\<close>

definition try_header :: "write_env \<Rightarrow> write_state \<Rightarrow> (write_state \<times> unit result \<times> bool) option" where
  "try_header E s =
    (if \<not> w_held s then Some (s, Inl EIO, False)
     else (case ftape_abort_operation E s of
         (s1, Inl e) \<Rightarrow> Some (s1, Inl e, False)
       | (s1, Inr _) \<Rightarrow> do {
           (f, address, r) \<leftarrow> ftape_decode_header_segment (w_ft s1) (take FT_SEGMENT_SIZE (snd (w_deblock s1)));
           Some (set_ft (f\<lparr>hseg_buf := address\<rparr>) s1, r, True)
         }))"

fun header_loop :: "'l::len itself \<Rightarrow> write_env \<Rightarrow> nat \<Rightarrow> int \<Rightarrow> bool \<Rightarrow> unit result \<Rightarrow> write_state \<Rightarrow> (write_state \<times> unit result) option" where
  "header_loop t E 0 seg failed res s = Some (s, res)"
| "header_loop t E (Suc left) seg failed res s = do {
     (s1, r1) \<leftarrow> ftape_read_segment t E seg FT_RD_SINGLE s;
     let res1 = (case r1 of Inl e \<Rightarrow> Inl e | Inr _ \<Rightarrow> Inr ());
     if b_deleted (w_buf s1 (w_tail s1)) then header_loop t E left (seg + 1) failed res1 s1
     else if res1 \<noteq> Inr () then if failed then Some (s1, res1) else header_loop t E left (seg + 1) True res1 s1
     else do {
       (s2, r2, decoded) \<leftarrow> try_header E s1;
       case r2 of
         Inl e \<Rightarrow> if decoded \<and> \<not> failed then header_loop t E left (seg + 1) True (Inl e) s2 else Some (s2, Inl e)
       | Inr _ \<Rightarrow> Some (set_ft ((w_ft s2)\<lparr>used_header_segment := seg\<rparr>) s2, Inr ())
     }
   }"

text \<open>The drive reports whether the cartridge is referenced, or an error; the buffer for the header segment is cleared first.\<close>

definition ftape_read_header_segment :: "'l::len itself \<Rightarrow> write_env \<Rightarrow> bool result \<Rightarrow> write_state \<Rightarrow> (write_state \<times> unit result) option" where
  "ftape_read_header_segment t E referenced s =
    (let s0 = set_ft ((w_ft s)\<lparr>used_header_segment := -1\<rparr>) s
     in case referenced of
       Inl e \<Rightarrow> Some (s0, Inl e)
     | Inr ok \<Rightarrow>
         if \<not> ok then Some (s0, Inl EIO)
         else do {
           (s1, r) \<leftarrow> header_loop t E HEADER_SEGMENT_BOUNDARY 0 False (Inr ()) (set_ft ((w_ft s0)\<lparr>hseg_buf := replicate FT_SEGMENT_SIZE 0\<rparr>) (s0\<lparr>w_held := False\<rparr>));
           Some (fdc_put_deblock_buffer s1, r)
         })"

section \<open>The search of the ring\<close>

lemma release_tail_simps [simp]:
  "w_mem (release_tail s) = w_mem s" "w_deblock (release_tail s) = w_deblock s" "w_held (release_tail s) = w_held s"
  "w_ft (release_tail s) = w_ft s" "length (buffers (fdc (w_isr (release_tail s)))) = length (buffers (fdc (w_isr s)))"
  "w_tail (release_tail s) = (w_tail s + 1) mod length (buffers (fdc (w_isr s)))" "w_head (release_tail s) = w_head s"
  by (simp_all add: release_tail_def set_buf_def set_fdc_def w_tail_def w_head_def w_ft_def)

lemma release_tail_buf:
  assumes "w_tail s < length (buffers (fdc (w_isr s)))"
  shows "w_buf (release_tail s) i = (if i = w_tail s then set_status waiting (w_buf s i) else w_buf s i)"
  using assms by (simp add: release_tail_def set_buf_def set_fdc_def w_buf_def w_tail_def)

text \<open>The place \<open>j\<close> buffers behind \<open>TAIL\<close>.\<close>

definition behind_tail :: "write_state \<Rightarrow> nat \<Rightarrow> nat" where
  "behind_tail s j = (w_tail s + j) mod length (buffers (fdc (w_isr s)))"

lemma behind_tail_simps:
  assumes "w_tail s < length (buffers (fdc (w_isr s)))"
  shows "behind_tail s 0 = w_tail s" "behind_tail (release_tail s) k = behind_tail s (Suc k)" "behind_tail s k < length (buffers (fdc (w_isr s)))"
proof -
  show "behind_tail (release_tail s) k = behind_tail s (Suc k)" by (simp add: behind_tail_def mod_add_left_eq [of "Suc (w_tail s)", symmetric] mod_simps)
  have "0 < length (buffers (fdc (w_isr s)))" using assms by (cases "length (buffers (fdc (w_isr s)))") simp_all
  then show "behind_tail s k < length (buffers (fdc (w_isr s)))" unfolding behind_tail_def by (rule mod_less_divisor)
qed (use assms in \<open>simp add: behind_tail_def\<close>)

lemma shift_mod_inj:
  assumes "t < n" "j < n" "k < n"
  shows "(t + j) mod n = (t + k) mod n \<longleftrightarrow> j = (k :: nat)"
proof -
  have "(t + i) mod n = (if t + i < n then t + i else t + i - n)" if "i < n" for i using that assms(1) by (simp add: mod_if)
  then show ?thesis using assms by auto
qed

lemma behind_tail_inj:
  assumes "w_tail s < length (buffers (fdc (w_isr s)))" "j < length (buffers (fdc (w_isr s)))" "k < length (buffers (fdc (w_isr s)))"
  shows "behind_tail s j = behind_tail s k \<longleftrightarrow> j = k"
  unfolding behind_tail_def by (rule shift_mod_inj [OF assms])

lemma releases_simps [simp]:
  "w_mem ((release_tail ^^ j) s) = w_mem s" "w_deblock ((release_tail ^^ j) s) = w_deblock s" "w_held ((release_tail ^^ j) s) = w_held s"
  "w_ft ((release_tail ^^ j) s) = w_ft s" "length (buffers (fdc (w_isr ((release_tail ^^ j) s)))) = length (buffers (fdc (w_isr s)))"
  "w_head ((release_tail ^^ j) s) = w_head s"
  by (induction j) simp_all

lemma releases_tail:
  assumes "w_tail s < length (buffers (fdc (w_isr s)))"
  shows "w_tail ((release_tail ^^ j) s) = behind_tail s j"
proof (induction j)
  case (Suc j)
  then show ?case by (simp add: behind_tail_def mod_simps)
qed (use behind_tail_simps(1) [OF assms] in simp)

lemma releases_buf:
  assumes "w_tail s < length (buffers (fdc (w_isr s)))" "j \<le> length (buffers (fdc (w_isr s)))" "k < length (buffers (fdc (w_isr s)))"
  shows "w_buf ((release_tail ^^ j) s) (behind_tail s k) = (if k < j then set_status waiting (w_buf s (behind_tail s k)) else w_buf s (behind_tail s k))"
  using assms(2)
proof (induction j)
  case (Suc j)
  let ?s = "(release_tail ^^ j) s"
  have "w_tail ?s = behind_tail s j" by (rule releases_tail [OF assms(1)])
  moreover have "w_tail ?s < length (buffers (fdc (w_isr ?s)))" using calculation behind_tail_simps(3) [OF assms(1)] by simp
  ultimately show ?case
    using release_tail_buf [of ?s] behind_tail_inj [OF assms(1,3), of j] Suc by (auto simp: less_Suc_eq)
qed simp

text \<open>Buffers that hold other segments are given back, one after the other.\<close>

lemma search_skips:
  assumes "\<forall>s. \<not> e_signal E s" "w_tail s < length (buffers (fdc (w_isr s)))" "j \<le> length (buffers (fdc (w_isr s)))"
    "\<forall>k<j. b_status (w_buf s (behind_tail s k)) = buf_done \<and> b_segment_id (w_buf s (behind_tail s k)) \<noteq> seg"
  shows "search_cache t E seg retry s = search_cache t E seg retry ((release_tail ^^ j) s)"
  using assms(3,4)
proof (induction j)
  case (Suc j)
  let ?s = "(release_tail ^^ j) s"
  have "w_buf ?s (w_tail ?s) = w_buf s (behind_tail s j)" "w_tail ?s = behind_tail s j"
    using releases_buf [OF assms(2), of j j] releases_tail [OF assms(2)] Suc.prems by auto
  then have "search_cache t E seg retry ?s = search_cache t E seg retry (release_tail ?s)"
    using Suc.prems assms(1) by (subst search_cache.simps) (simp add: check_cached_def)
  then show ?case using Suc by simp
qed simp

lemma search_finds:
  assumes "\<forall>s. \<not> e_signal E s" "w_tail s < length (buffers (fdc (w_isr s)))" "j < length (buffers (fdc (w_isr s)))"
    "\<forall>k<j. b_status (w_buf s (behind_tail s k)) = buf_done \<and> b_segment_id (w_buf s (behind_tail s k)) \<noteq> seg"
    "b_status (w_buf s (behind_tail s j)) = buf_done" "b_segment_id (w_buf s (behind_tail s j)) = seg" "\<not> b_deleted (w_buf s (behind_tail s j))"
    "fdc_int_correct_and_copy t (behind_tail s j) ((release_tail ^^ j) s) = Some (s', Inr n)"
  shows "search_cache t E seg retry s = Some (release_tail s', retry, Inr (Some n))"
proof -
  let ?s = "(release_tail ^^ j) s"
  have "w_buf ?s (w_tail ?s) = w_buf s (behind_tail s j)" "w_tail ?s = behind_tail s j"
    using releases_buf [OF assms(2), of j j] releases_tail [OF assms(2)] assms(3) by auto
  then have "search_cache t E seg retry ?s = Some (release_tail s', retry, Inr (Some n))"
    using assms(1,5-8) by (subst search_cache.simps) (simp add: check_cached_def)
  then show ?thesis by (rule trans [OF search_skips [OF assms(1,2) less_imp_le [OF assms(3)] assms(4)]])
qed

section \<open>A segment in the ring\<close>

lemma bad_sector_entry_state:
  assumes "ftape_get_bad_sector_entry f s = Some (f', bad)"
  shows "runner_status f' = runner_status f" "driver_state f' = driver_state f"
  using assms by (auto simp: ftape_get_bad_sector_entry_def bind_eq_Some_conv split: if_splits option.splits)

lemma ecc_correct_state:
  assumes "ftape_ecc_correct t f b d = Some (f', d', r)"
  shows "runner_status f' = runner_status f" "driver_state f' = driver_state f"
proof -
  obtain f1 bads where c: "convert_sector_map f b = Some (f1, bads)"
    using assms by (cases "convert_sector_map f b") (auto simp: ftape_ecc_correct_def)
  define m where "m = \<lparr>marked_bad = 0, read_bad = bads, blocks = nat (b_bytes b div 1024), ms_data = d, corrected = 0\<rparr>"
  obtain m' res where e: "ftape_ecc_correct_data t m = (m', res)" by fastforce
  have "runner_status f' = runner_status f1 \<and> driver_state f' = driver_state f1"
  proof (cases "blocks m \<le> 3")
    case True
    then show ?thesis using assms c by (simp add: ftape_ecc_correct_def m_def)
  next
    case False
    then show ?thesis using assms c e by (auto simp: ftape_ecc_correct_def Let_def m_def [symmetric] split: if_splits)
  qed
  moreover have "runner_status f1 = runner_status f" "driver_state f1 = driver_state f"
    using c bad_sector_entry_state by (auto simp: convert_sector_map_def bind_eq_Some_conv)
  ultimately show "runner_status f' = runner_status f" "driver_state f' = driver_state f" by simp_all
qed

text \<open>
  The buffer \<open>i\<close> holds the good sectors of a segment whose damage the error correction can repair: \<open>mem0\<close> is what had been written.
\<close>

definition holds_segment :: "u32 \<Rightarrow> bytes \<Rightarrow> nat \<Rightarrow> write_state \<Rightarrow> bool" where
  "holds_segment bad mem0 i s \<longleftrightarrow> (let b = w_buf s i; m = snd (w_mem s ! i); n = place bad 32 in
     3 < n \<and> b_bytes b = 1024 * int n \<and> n * FT_SECTOR_SIZE \<le> length m \<and> length mem0 = n * FT_SECTOR_SIZE
     \<and> (\<forall>c < FT_SECTOR_SIZE. codeword mem0 c n) \<and> card (marked_sectors bad b) \<le> 3
     \<and> (\<forall>c < FT_SECTOR_SIZE. card (wrong_unmarked bad b mem0 (take (n * FT_SECTOR_SIZE) m) c) \<le> (3 - card (marked_sectors bad b)) div 2))"

lemma correct_and_copy_ok:
  assumes "long_ok TYPE('l::len)" "i < length (w_mem s)" "holds_segment bad mem0 i s"
    "ftape_get_bad_sector_entry (w_ft s) (b_segment_id (w_buf s i)) = Some (ft1, bad)"
  obtains s' where "fdc_int_correct_and_copy TYPE('l) i s = Some (s', Inr ((int (place bad 32) - 3) * 1024))"
    "w_held s'" "take (place bad 32 * FT_SECTOR_SIZE) (snd (w_deblock s')) = mem0" "runner_status (w_ft s') = runner_status (w_ft s)"
    "\<And>k. k \<noteq> i \<Longrightarrow> w_buf s' k = w_buf s k" "w_tail s' = w_tail s" "w_head s' = w_head s"
    "length (buffers (fdc (w_isr s'))) = length (buffers (fdc (w_isr s)))"
proof -
  let ?n = "place bad 32" and ?m = "snd (w_mem s ! i)"
  note h = assms(3) [unfolded holds_segment_def Let_def]
  have bytes: "nat (b_bytes (w_buf s i) div 1024) = ?n" using h by simp
  have "length (take (?n * FT_SECTOR_SIZE) ?m) = ?n * FT_SECTOR_SIZE" using h by simp
  then obtain f where f: "ftape_ecc_correct TYPE('l) (w_ft s) (w_buf s i) (take (?n * FT_SECTOR_SIZE) ?m) = Some (f, mem0, Inr ((int ?n - 3) * 1024))"
    using ecc_correct_ok [OF assms(1,4)] h by blast
  let ?s = "set_ft f (s\<lparr>w_mem := (w_mem s)[i := (fst (w_mem s ! i), mem0 @ drop (?n * FT_SECTOR_SIZE) ?m)]\<rparr>)"
  have run: "fdc_int_correct_and_copy TYPE('l) i s = Some (fdc_int_read_buffer i ?s, Inr ((int ?n - 3) * 1024))"
    using f unfolding fdc_int_correct_and_copy_def Let_def bytes by (simp add: case_prod_beta)
  show ?thesis
  proof (rule that [OF run])
    show "take (?n * FT_SECTOR_SIZE) (snd (w_deblock (fdc_int_read_buffer i ?s))) = mem0"
      using h assms(2) by (simp add: fdc_int_read_buffer_def swap_mem set_ft_def)
    show "runner_status (w_ft (fdc_int_read_buffer i ?s)) = runner_status (w_ft s)"
      using ecc_correct_state(1) [OF f] by (simp add: fdc_int_read_buffer_def swap_deblock_def set_buf_def w_ft_def set_ft_def)
  qed (simp_all add: fdc_int_read_buffer_def swap_deblock_def set_buf_def set_ft_def w_buf_def w_tail_def w_head_def)
qed

text \<open>The state in which the segment \<open>seg\<close> waits in the ring, behind \<open>j\<close> buffers with others.\<close>

definition waits_in_ring :: "int \<Rightarrow> nat \<Rightarrow> write_state \<Rightarrow> bool" where
  "waits_in_ring seg j s \<longleftrightarrow> (let n = length (buffers (fdc (w_isr s))) in
     length (w_mem s) = n \<and> w_tail s < n \<and> j < n \<and> driver_state (w_ft s) = reading \<and> runner_status (w_ft s) \<in> {idle, running}
     \<and> (\<forall>k\<le>j. b_status (w_buf s (behind_tail s k)) = buf_done) \<and> (\<forall>k<j. b_segment_id (w_buf s (behind_tail s k)) \<noteq> seg)
     \<and> b_segment_id (w_buf s (behind_tail s j)) = seg \<and> \<not> b_deleted (w_buf s (behind_tail s j)))"

lemma releases_hold:
  assumes "w_tail s < length (buffers (fdc (w_isr s)))" "j < length (buffers (fdc (w_isr s)))"
  shows "w_buf ((release_tail ^^ j) s) (behind_tail s j) = w_buf s (behind_tail s j)"
    "holds_segment bad mem0 (behind_tail s j) ((release_tail ^^ j) s) = holds_segment bad mem0 (behind_tail s j) s"
  using releases_buf [OF assms(1) less_imp_le [OF assms(2)] assms(2)] by (simp_all add: holds_segment_def)

lemma stop_reading_frame: "runner_status (w_ft s) \<in> {idle, running} \<Longrightarrow> stop_reading E s = (s, Inr ())"
  using handle_eot_frame [of s E] by (auto simp: stop_reading_def Let_def)

text \<open>Reading a segment that waits in the ring.\<close>

lemma read_waiting:
  assumes "long_ok TYPE('l::len)" "\<forall>s. \<not> e_signal E s" "waits_in_ring seg j s" "holds_segment bad mem0 (behind_tail s j) s"
    "ftape_get_bad_sector_entry (w_ft s) seg = Some (ft1, bad)"
  obtains s' where "ftape_read_segment TYPE('l) E seg mode s = Some (s', Inr ((int (place bad 32) - 3) * 1024))"
    "w_held s'" "take (place bad 32 * FT_SECTOR_SIZE) (snd (w_deblock s')) = mem0" "w_tail s' = behind_tail s (Suc j)"
    "\<And>k. k \<le> j \<Longrightarrow> b_status (w_buf s' (behind_tail s k)) = waiting"
    "\<And>k. j < k \<Longrightarrow> k < length (buffers (fdc (w_isr s))) \<Longrightarrow> w_buf s' (behind_tail s k) = w_buf s (behind_tail s k)"
proof -
  let ?len = "length (buffers (fdc (w_isr s)))" and ?start = "s\<lparr>w_held := False\<rparr>"
  note w = assms(3) [unfolded waits_in_ring_def Let_def]
  have same: "w_buf ?start = w_buf s" "behind_tail ?start = behind_tail s" "w_tail ?start = w_tail s"
    by (auto simp: w_buf_def behind_tail_def w_tail_def)
  have tail: "w_tail ?start < length (buffers (fdc (w_isr ?start)))" "j < length (buffers (fdc (w_isr ?start)))" using w same by auto
  let ?s = "(release_tail ^^ j) ?start" and ?i = "behind_tail s j"
  have hold: "holds_segment bad mem0 ?i ?s" "w_buf ?s ?i = w_buf s ?i"
    using releases_hold [OF tail] assms(4) same by (auto simp: holds_segment_def)
  obtain s1 where s1: "fdc_int_correct_and_copy TYPE('l) ?i ?s = Some (s1, Inr ((int (place bad 32) - 3) * 1024))"
      "w_held s1" "take (place bad 32 * FT_SECTOR_SIZE) (snd (w_deblock s1)) = mem0" "runner_status (w_ft s1) = runner_status (w_ft s)"
      "\<And>k. k \<noteq> ?i \<Longrightarrow> w_buf s1 k = w_buf ?s k" "w_tail s1 = w_tail ?s" "length (buffers (fdc (w_isr s1))) = ?len"
  proof (rule correct_and_copy_ok [OF assms(1) _ hold(1)])
    show "?i < length (w_mem ?s)" using w behind_tail_simps(3) [of s j] by simp
    show "ftape_get_bad_sector_entry (w_ft ?s) (b_segment_id (w_buf ?s ?i)) = Some (ft1, bad)"
      unfolding hold(2) using w assms(5) by simp
  qed (use that in simp)
  have search: "search_cache TYPE('l) E seg 0 ?start = Some (release_tail s1, 0, Inr (Some ((int (place bad 32) - 3) * 1024)))"
    by (rule search_finds [OF assms(2) tail]) (use w same s1(1) in auto)
  have "stop_reading E (release_tail s1) = (release_tail s1, Inr ())" using stop_reading_frame [of "release_tail s1"] s1(4) w by simp
  then have "read_turns TYPE('l) E seg mode 0 ?start = Some (release_tail s1, Inr ((int (place bad 32) - 3) * 1024))"
    using search assms(2) by (subst read_turns.simps) (simp add: read_turn_def)
  then have run: "ftape_read_segment TYPE('l) E seg mode s = Some (release_tail s1, Inr ((int (place bad 32) - 3) * 1024))"
    using w by (simp add: ftape_read_segment_def)
  have t1: "w_tail s1 = ?i" "w_tail s1 < length (buffers (fdc (w_isr s1)))"
    using releases_tail [OF tail(1)] s1(6,7) same behind_tail_simps(3) [of s j] w by auto
  show ?thesis
  proof (rule that [OF run])
    show "w_tail (release_tail s1) = behind_tail s (Suc j)" using t1 s1(7) by (simp add: behind_tail_def mod_simps)
    show "b_status (w_buf (release_tail s1) (behind_tail s k)) = waiting" if "k \<le> j" for k
      using that s1(5) [of "behind_tail s k"] releases_buf [OF tail(1), of j k] tail(2) same behind_tail_inj [of s k j] w
      by (auto simp: release_tail_buf [OF t1(2)] t1(1) set_status_def le_less)
    show "w_buf (release_tail s1) (behind_tail s k) = w_buf s (behind_tail s k)" if "j < k" "k < ?len" for k
      using that s1(5) [of "behind_tail s k"] releases_buf [OF tail(1), of j k] tail(2) same behind_tail_inj [of s k j] w
      by (auto simp: release_tail_buf [OF t1(2)] t1(1))
  qed (use s1(2,3) in simp_all)
qed

text \<open>
  C11. A segment that has been read ahead is delivered: when it waits in the ring behind buffers with other segments, and its damage is
  within the reach of the error correction, \<open>ftape_read_segment\<close> returns the size of its data, the deblock buffer holds what had
  been written, and the caller's pointer is set. The buffers in front of it and its own are given back, and \<open>TAIL\<close> is the one behind
  it; the segments further behind stay as they are.
\<close>

theorem read_segment_from_ring:
  assumes "long_ok TYPE('l::len)" "\<forall>s. \<not> e_signal E s" "waits_in_ring seg j s" "holds_segment bad mem0 (behind_tail s j) s"
    "ftape_get_bad_sector_entry (w_ft s) seg = Some (ft1, bad)"
  shows "\<exists>s'. ftape_read_segment TYPE('l) E seg mode s = Some (s', Inr ((int (place bad 32) - 3) * 1024)) \<and> w_held s'
    \<and> take (place bad 32 * FT_SECTOR_SIZE) (snd (w_deblock s')) = mem0 \<and> w_tail s' = behind_tail s (Suc j)
    \<and> (\<forall>k\<le>j. b_status (w_buf s' (behind_tail s k)) = waiting)
    \<and> (\<forall>k. j < k \<and> k < length (buffers (fdc (w_isr s))) \<longrightarrow> w_buf s' (behind_tail s k) = w_buf s (behind_tail s k))"
  by (rule read_waiting [OF assms, where mode = mode]) blast

definition ring_buffer :: "int \<Rightarrow> u32 \<Rightarrow> buffer_struct" where
  "ring_buffer seg bad = blank_buffer\<lparr>b_status := buf_done, b_segment_id := seg, b_bytes := 32768, b_hard_error_map := bad, b_deleted := False\<rparr>"

definition read_ahead :: write_state where
  "read_ahead = \<lparr>w_isr = sample_state\<lparr>ft := (blank_info fmt_normal)\<lparr>used_header_segment := -1, driver_state := reading, runner_status := idle\<rparr>,
     fdc := (fdc sample_state)\<lparr>buffers := [ring_buffer 4 0, ring_buffer 5 2, (ring_buffer 1 0)\<lparr>b_status := waiting, b_deleted := True\<rparr>], buffer_tail := 0\<rparr>\<rparr>,
   w_mem = [(0, replicate 32768 0), (0, (replicate 32768 0)[1500 := 7]), (0, replicate 32768 0)], w_deblock = (0, replicate 32768 0), w_held = False\<rparr>"

lemma read_ahead_simps:
  "w_tail read_ahead = 0" "length (buffers (fdc (w_isr read_ahead))) = 3" "w_buf read_ahead 0 = ring_buffer 4 0" "w_buf read_ahead 1 = ring_buffer 5 2"
  "w_buf read_ahead 2 = (ring_buffer 1 0)\<lparr>b_status := waiting, b_deleted := True\<rparr>"
  "w_mem read_ahead = [(0, replicate 32768 0), (0, (replicate 32768 0)[1500 := 7]), (0, replicate 32768 0)]"
  "w_ft read_ahead = (blank_info fmt_normal)\<lparr>used_header_segment := -1, driver_state := reading, runner_status := idle\<rparr>"
  "behind_tail read_ahead 0 = 0" "behind_tail read_ahead 1 = 1" "behind_tail read_ahead 2 = 2"
  by (simp_all add: read_ahead_def w_tail_def w_buf_def w_ft_def behind_tail_def)

lemma read_ahead_ok:
  "waits_in_ring 5 1 read_ahead" "holds_segment 0 (replicate 32768 0) (behind_tail read_ahead 1) read_ahead"
  "ftape_get_bad_sector_entry (w_ft read_ahead) 5 = Some (w_ft read_ahead, 0)" "\<forall>s. \<not> e_signal quiet_env s"
proof -
  let ?b = "ring_buffer 5 2" and ?m = "(replicate 32768 0)[1500 := 7] :: bytes"
  have "\<forall>k\<le>1. b_status (w_buf read_ahead (behind_tail read_ahead k)) = buf_done"
    using read_ahead_simps by (auto simp: le_Suc_eq ring_buffer_def)
  then show "waits_in_ring 5 1 read_ahead" using read_ahead_simps by (auto simp: waits_in_ring_def Let_def ring_buffer_def)
  show "ftape_get_bad_sector_entry (w_ft read_ahead) 5 = Some (w_ft read_ahead, 0)" by (simp add: ftape_get_bad_sector_entry_def read_ahead_simps)
  show "\<forall>s. \<not> e_signal quiet_env s" by (simp add: quiet_env_def)
  have "marked_sectors 0 ?b = {1}" by (auto simp: marked_sectors_def ring_buffer_def blank_buffer_def bit_two_int)
  moreover have "wrong_unmarked 0 ?b (replicate 32768 0) ?m c = {}" if "c < FT_SECTOR_SIZE" for c
  proof -
    have row: "x = 1" if "c + x * FT_SECTOR_SIZE = 1500" for x
      using \<open>c < FT_SECTOR_SIZE\<close> arg_cong [OF that, of "\<lambda>n. n div FT_SECTOR_SIZE"] by simp
    show ?thesis using that by (auto simp: wrong_unmarked_def ring_buffer_def blank_buffer_def bit_two_int nth_list_update dest: row split: if_splits)
  qed
  ultimately show "holds_segment 0 (replicate 32768 0) (behind_tail read_ahead 1) read_ahead"
    unfolding holds_segment_def Let_def read_ahead_simps by (simp add: codeword_zeros) (simp add: ring_buffer_def)
qed

theorem read_segment_from_ring_witness:
  "\<exists>s'. ftape_read_segment TYPE(64) quiet_env 5 FT_RD_AHEAD read_ahead = Some (s', Inr 29696) \<and> w_held s'
    \<and> take 32768 (snd (w_deblock s')) = replicate 32768 0 \<and> w_tail s' = 2"
  using read_segment_from_ring [OF _ read_ahead_ok(4,1,2,3), where 'l = 64 and mode = FT_RD_AHEAD] read_ahead_simps(10) [unfolded numeral_2_eq_2] by auto

text \<open>
  C39. A header segment is thrown away although it was read without an error: the search for the header looks at the flag for
  deleted data of the buffer that is at \<open>TAIL\<close> after the segment was delivered, which is the next one. The flag there is that of
  an older segment, and is cleared only when the buffer is used again; then the search goes on with the segment behind.
\<close>

theorem stale_deleted_flag_skips_header:
  assumes "long_ok TYPE('l::len)" "\<forall>s. \<not> e_signal E s" "waits_in_ring seg j s" "holds_segment bad mem0 (behind_tail s j) s"
    "ftape_get_bad_sector_entry (w_ft s) seg = Some (ft1, bad)"
    "Suc j < length (buffers (fdc (w_isr s)))" "b_deleted (w_buf s (behind_tail s (Suc j)))"
  shows "\<exists>s'. take (place bad 32 * FT_SECTOR_SIZE) (snd (w_deblock s')) = mem0
    \<and> header_loop TYPE('l) E (Suc left) seg failed res s = header_loop TYPE('l) E left (seg + 1) failed (Inr ()) s'"
proof -
  obtain s' where s': "ftape_read_segment TYPE('l) E seg FT_RD_SINGLE s = Some (s', Inr ((int (place bad 32) - 3) * 1024))"
      "take (place bad 32 * FT_SECTOR_SIZE) (snd (w_deblock s')) = mem0" "w_tail s' = behind_tail s (Suc j)"
      "w_buf s' (behind_tail s (Suc j)) = w_buf s (behind_tail s (Suc j))"
    by (rule read_waiting [OF assms(1-5), where mode = FT_RD_SINGLE]) (use assms(6) in auto)
  then show ?thesis using assms(7) by (intro exI [of _ s']) simp
qed

theorem stale_deleted_flag_skips_header_witness:
  "\<exists>s'. take 32768 (snd (w_deblock s')) = replicate 32768 0
    \<and> header_loop TYPE(64) quiet_env 63 5 False (Inr ()) read_ahead = header_loop TYPE(64) quiet_env 62 6 False (Inr ()) s'"
proof -
  have "Suc 1 < length (buffers (fdc (w_isr read_ahead)))" "b_deleted (w_buf read_ahead (behind_tail read_ahead (Suc 1)))"
    using read_ahead_simps by (simp_all add: numeral_2_eq_2)
  from stale_deleted_flag_skips_header [OF _ read_ahead_ok(4,1,2,3) this, where 'l = 64 and left = 62 and failed = False and res = "Inr ()"]
  show ?thesis by simp
qed

end
