(* ===== verification/Ft_Format.thy ===== *)
theory Ft_Format
  imports Ft_Fetch
begin

text \<open>
  Formatting a cartridge, \<open>src/ftape/lowlevel/ftape-format.c\<close>: the sector ids of a track are laid out in the buffers of the ring, which the
  interrupt handler hands to the controller segment by segment, and a formatted segment is verified. While a track is being formatted,
  segments are counted from its start.

  The environment \<open>format_env\<close> adds the drive commands to that of \<open>Ft_Write\<close>. \<open>None\<close> stands for a loop that does not return, a division
  by zero, a write behind the deblock buffer, and a bad sector map read outside its buffer.
\<close>

record format_env =
  f_io :: write_env
  f_status :: "write_state \<Rightarrow> (bool \<times> bool) result"
  f_seek_eot :: "write_state \<Rightarrow> write_state \<times> unit result"
  f_seek_bot :: "write_state \<Rightarrow> write_state \<times> unit result"
  f_head_to_track :: "int \<Rightarrow> write_state \<Rightarrow> write_state \<times> unit result"
  f_forward :: "write_state \<Rightarrow> write_state \<times> unit result"

section \<open>Filling a buffer\<close>

abbreviation FT_FMT_SEGS_PER_BUF :: int where "FT_FMT_SEGS_PER_BUF \<equiv> 256"

text \<open>The ids of the 32 sectors of a segment, four bytes each (\<open>ft_format_segment\<close>).\<close>

definition format_segment :: "ftape_info \<Rightarrow> int \<Rightarrow> bytes" where
  "format_segment f seg =
    (let cyl = word_of_int ((seg mod segments_per_head f) div segments_per_cylinder f);
         head = word_of_int (seg div segments_per_head f);
         sect = word_of_int ((seg mod segments_per_cylinder f) * 32 + 1)
     in concat (map (\<lambda>i. [cyl, head, sect + word_of_nat i, 3]) [0..<32]))"

definition fill_format_buffer :: "nat \<Rightarrow> int \<Rightarrow> int \<Rightarrow> write_state \<Rightarrow> (write_state \<times> unit result) option" where
  "fill_format_buffer i start todo s =
    (let f = w_ft s; data = concat (map (format_segment f) [start..start + todo - 1]); m = snd (w_deblock s)
     in if todo > 0 \<and> (segments_per_head f = 0 \<or> segments_per_cylinder f = 0) \<or> length data > length m then None
     else Some (fdc_int_write_buffer i (s\<lparr>w_held := True, w_deblock := (fst (w_deblock s), blit m 0 data)\<rparr>)))"

definition setup_format_buffer :: "nat \<Rightarrow> int \<Rightarrow> int \<Rightarrow> int \<Rightarrow> write_state \<Rightarrow> (write_state \<times> unit result) option" where
  "setup_format_buffer i start spt track s = do {
     let to_do = min (spt - start) FT_FMT_SEGS_PER_BUF;
     (s1, r) \<leftarrow> fill_format_buffer i (track * spt + start) to_do s;
     Some (case r of Inl e \<Rightarrow> (s1, Inl e)
       | Inr _ \<Rightarrow> (set_buf i (\<lambda>b. b\<lparr>b_ptr := b_dma_address b, b_remaining := to_do * 32, b_bytes := to_do * 32 * 4, b_segment_id := start,
           b_next_segment := (if start + to_do \<ge> spt then 0 else start + to_do), b_status := waiting\<rparr>) s1, Inr ()))
   }"

section \<open>Formatting a track\<close>

definition spt :: "write_state \<Rightarrow> int" where
  "spt s = uint (segments_per_track (w_ft s))"

definition next_tail :: "write_state \<Rightarrow> write_state" where
  "next_tail s = set_fdc (\<lambda>c. c\<lparr>buffer_tail := (buffer_tail c + 1) mod length (buffers c)\<rparr>) s"

definition set_switch :: "int \<Rightarrow> write_state \<Rightarrow> write_state" where
  "set_switch n s = set_ft ((w_ft s)\<lparr>switch_segment := n\<rparr>) s"

text \<open>The buffers are filled one after the other, until the track is complete or the ring is full.\<close>

partial_function (option) fill_ring :: "write_env \<Rightarrow> int \<Rightarrow> write_state \<Rightarrow> (write_state \<times> unit result) option" where
  "fill_ring E track s =
    (if e_signal E s then Some (s, Inl EINTR)
     else Option.bind (setup_format_buffer (w_tail s) (switch_segment (w_ft s)) (spt s) track s) (\<lambda>(s1, r).
       let s2 = set_switch (b_next_segment (w_buf s1 (w_tail s1))) s1
       in if switch_segment (w_ft s2) = 0 then Some (s2, Inr ())
          else if w_tail (next_tail s2) = w_head s2 then Some (next_tail s2, Inr ())
          else fill_ring E track (next_tail s2)))"

definition ok_then :: "(write_state \<Rightarrow> write_state \<times> unit result) \<Rightarrow> write_state \<times> unit result \<Rightarrow> write_state \<times> unit result" where
  "ok_then g p = (case p of (s, Inl e) \<Rightarrow> (s, Inl e) | (s, Inr _) \<Rightarrow> g s)"

definition go_formatting :: "format_env \<Rightarrow> write_state \<Rightarrow> write_state \<times> unit result" where
  "go_formatting F s =
    (case fdc_setup_formatting (w_isr s) (w_buf s (w_head s)) (e_setup_error (f_io F) s = None) of
       (i, ok) \<Rightarrow> (s\<lparr>w_isr := i\<rparr>, if ok then Inr () else Inl (case e_setup_error (f_io F) s of None \<Rightarrow> EIO | Some e \<Rightarrow> e)))"

definition ftape_format_track :: "format_env \<Rightarrow> int \<Rightarrow> write_state \<Rightarrow> (write_state \<times> unit result) option" where
  "ftape_format_track F track s =
    (case f_status F s of
       Inl e \<Rightarrow> Some (s, Inl e)
     | Inr (at_bot_mark, at_eot_mark) \<Rightarrow>
         (case (if track mod 2 = 1 then if at_eot_mark then (s, Inr ()) else f_seek_eot F s
                else if at_bot_mark then (s, Inr ()) else f_seek_bot F s) of
            (s1, Inl e) \<Rightarrow> Some (s1, Inl e)
          | (s1, Inr _) \<Rightarrow> do {
              (s2, r2) \<leftarrow> fill_ring (f_io F) track (set_switch 0 (enter_state formatting (fst (ftape_abort_operation (f_io F) s1))));
              Some (case r2 of Inl e \<Rightarrow> (s2, Inl e)
                | Inr _ \<Rightarrow> ok_then (go_formatting F) (ok_then (f_forward F) (f_head_to_track F track (set_buf (w_head s2) (set_status formatting) s2))))
            }))"

section \<open>The progress of formatting\<close>

text \<open>Buffers that have been used are filled with the segments that are left.\<close>

partial_function (option) refill_ring :: "write_env \<Rightarrow> write_state \<Rightarrow> (write_state \<times> unit result) option" where
  "refill_ring E s =
    (if switch_segment (w_ft s) = 0 \<or> w_head s = w_tail s then Some (s, Inr ())
     else if e_signal E s then Some (s, Inl EINTR)
     else Option.bind (ftape_wait_segment E formatting s) (\<lambda>(s1, r).
       case r of Inl e \<Rightarrow> Some (s1, Inl e)
       | Inr _ \<Rightarrow> Option.bind (setup_format_buffer (w_tail s1) (switch_segment (w_ft s1)) (spt s1) (loc_track (location (w_ft s1))) s1) (\<lambda>(s2, _).
           let s3 = set_switch (b_next_segment (w_buf s2 (w_tail s2))) s2
           in refill_ring E (if switch_segment (w_ft s3) \<noteq> 0 then next_tail s3 else s3))))"

text \<open>The result tells whether the end of the track was reached, and the segment that is being formatted.\<close>

definition ftape_format_status :: "write_env \<Rightarrow> write_state \<Rightarrow> (write_state \<times> (bool \<times> u32) result) option" where
  "ftape_format_status E s = do {
     (s1, r1) \<leftarrow> refill_ring E s;
     Some (case r1 of Inl e \<Rightarrow> (s1, Inl e)
       | Inr _ \<Rightarrow>
           if runner_status (w_ft s1) \<in> {aborting, do_abort} then
             (let s2 = fst (ftape_abort_operation E s1) in (s2, Inl (if b_status (w_buf s2 (w_head s2)) \<noteq> buf_error then EAGAIN else EIO)))
           else (case e_interrupt E s1 of
               (s2, r2) \<Rightarrow> (s2, Inr (r2 \<noteq> Inr (), word_of_int (b_segment_id (w_buf s2 (w_head s2)) + loc_track (location (w_ft s2)) * spt s2)))))
   }"

section \<open>Verifying a segment\<close>

text \<open>
  The search of the full buffers; the result is the map of the sectors with errors when the segment was found.
\<close>

partial_function (option) search_verified :: "write_env \<Rightarrow> int \<Rightarrow> write_state \<Rightarrow> (write_state \<times> u32 option result) option" where
  "search_verified E segment_id s =
    (let b = w_buf s (w_tail s)
     in if b_status b \<noteq> buf_done then Some (s, Inr None)
     else if e_signal E s then Some (s, Inl EINTR)
     else if b_segment_id b = segment_id then Some (release_tail s, Inr (Some (b_soft_error_map b OR b_hard_error_map b)))
     else search_verified E segment_id (release_tail s))"

definition await_verifying :: "write_env \<Rightarrow> int \<Rightarrow> write_state \<Rightarrow> (write_state \<times> unit result) option" where
  "await_verifying E segment_id s =
    (let b = w_buf s (w_tail s); restart = (\<lambda>s. enter_state verifying (fst (ftape_abort_operation E s)))
     in if b_status b \<noteq> verifying then Some (s, Inr ())
     else if b_segment_id b \<noteq> segment_id then Some (restart s, Inr ())
     else do {
       (s1, r) \<leftarrow> ftape_wait_segment E verifying s;
       Some (case r of Inr _ \<Rightarrow> (s1, Inr ()) | Inl e \<Rightarrow> if e = EINTR then (s1, Inl EINTR) else (restart s1, Inl EIO))
     })"

definition stop_verifying :: "write_env \<Rightarrow> write_state \<Rightarrow> write_state \<times> unit result" where
  "stop_verifying E s =
    (if runner_status (w_ft s) = aborting then
       ftape_dumb_stop E (if b_status (w_buf s (w_head s)) \<in> {buf_error, verifying} then set_buf (w_head s) (set_status waiting) s else s)
     else handle_eot E s)"

text \<open>A segment that cannot be reached counts as empty, unless the time runs out or a signal is pending.\<close>

definition restart_verifying :: "write_env \<Rightarrow> int \<Rightarrow> write_state \<Rightarrow> (write_state \<times> u32 result option) option" where
  "restart_verifying E segment_id s =
    (if b_status (w_buf s (w_tail s)) \<noteq> waiting then Some (s, None)
     else do {
       let h = w_head s;
       (f, b) \<leftarrow> ftape_setup_new_segment (w_ft s) (w_buf s h) segment_id True;
       let s1 = set_buf h (\<lambda>_. fst (ftape_calc_next_cluster b)) (set_ft f s);
       Some (case (if runner_status (w_ft s1) = idle then e_start_tape E segment_id (b_short_start (w_buf s1 h)) s1 else (s1, Inr ())) of
           (s2, Inl e) \<Rightarrow> (s2, Some (if e \<in> {ETIME, EINTR} then Inl e else Inr EMPTY_SEGMENT))
         | (s2, Inr _) \<Rightarrow> (start_transfer E verifying fdc_verifying s2, None))
     })"

definition verify_turn :: "write_env \<Rightarrow> int \<Rightarrow> write_state \<Rightarrow> (write_state \<times> u32 result option) option" where
  "verify_turn E segment_id s =
    (if e_signal E s then Some (s, Some (Inl EINTR))
     else do {
       (s1, found) \<leftarrow> search_verified E segment_id s;
       case found of Inl e \<Rightarrow> Some (s1, Some (Inl e))
       | Inr got \<Rightarrow> do {
           (s2, r2) \<leftarrow> (if got = None then await_verifying E segment_id s1 else Some (s1, Inr ()));
           case r2 of Inl e \<Rightarrow> Some (s2, Some (Inl e))
           | Inr _ \<Rightarrow> (case stop_verifying E s2 of
               (s3, Inl e) \<Rightarrow> Some (s3, Some (Inl e))
             | (s3, Inr _) \<Rightarrow> (case got of Some m \<Rightarrow> Some (s3, Some (Inr m)) | None \<Rightarrow> restart_verifying E segment_id s3))
         }
     })"

partial_function (option) verify_turns :: "write_env \<Rightarrow> int \<Rightarrow> write_state \<Rightarrow> (write_state \<times> u32 result) option" where
  "verify_turns E segment_id s =
    Option.bind (verify_turn E segment_id s) (\<lambda>(s1, out). case out of Some r \<Rightarrow> Some (s1, r) | None \<Rightarrow> verify_turns E segment_id s1)"

definition ftape_verify_segment :: "write_env \<Rightarrow> int \<Rightarrow> write_state \<Rightarrow> (write_state \<times> u32 result) option" where
  "ftape_verify_segment E segment_id s =
    (case (if driver_state (w_ft s) = verifying then (s, Inr ()) else ftape_abort_operation E s) of
       (s1, Inl e) \<Rightarrow> Some (s1, Inl EIO)
     | (s1, Inr _) \<Rightarrow> verify_turns E segment_id (enter_state verifying s1))"

section \<open>The ids of a track\<close>

lemma nth_concat_blocks:
  "\<forall>x\<in>set xs. length (g x) = n \<Longrightarrow> k < length xs \<Longrightarrow> j < n \<Longrightarrow> concat (map g xs) ! (k * n + j) = g (xs ! k) ! j"
proof (induction xs arbitrary: k)
  case (Cons x xs)
  then show ?case by (cases k) (auto simp: nth_append)
qed simp

lemma length_concat_blocks: "\<forall>x\<in>set xs. length (g x) = n \<Longrightarrow> length (concat (map g xs)) = length xs * n"
  by (induction xs) auto

lemma format_segment_nth:
  assumes "j < 32"
  shows "length (format_segment f seg) = 128" "format_segment f seg ! (4 * j) = word_of_int ((seg mod segments_per_head f) div segments_per_cylinder f)"
    "format_segment f seg ! (4 * j + 1) = word_of_int (seg div segments_per_head f)"
    "format_segment f seg ! (4 * j + 2) = word_of_int ((seg mod segments_per_cylinder f) * 32 + 1) + word_of_nat j" "format_segment f seg ! (4 * j + 3) = 3"
proof -
  let ?id = "\<lambda>i. [word_of_int ((seg mod segments_per_head f) div segments_per_cylinder f), word_of_int (seg div segments_per_head f),
    word_of_int ((seg mod segments_per_cylinder f) * 32 + 1) + word_of_nat i, 3 :: u8]"
  have f: "format_segment f seg = concat (map ?id [0..<32])" by (simp add: format_segment_def Let_def)
  have nth: "format_segment f seg ! (j * 4 + i) = ?id j ! i" if "i < 4" for i
    unfolding f using nth_concat_blocks [of "[0..<32]" ?id 4 j i] assms that by simp
  show "length (format_segment f seg) = 128" unfolding f using length_concat_blocks [of "[0..<32]" ?id 4] by simp
  show "format_segment f seg ! (4 * j) = word_of_int ((seg mod segments_per_head f) div segments_per_cylinder f)"
    "format_segment f seg ! (4 * j + 1) = word_of_int (seg div segments_per_head f)"
    "format_segment f seg ! (4 * j + 2) = word_of_int ((seg mod segments_per_cylinder f) * 32 + 1) + word_of_nat j"
    "format_segment f seg ! (4 * j + 3) = 3"
    using nth [of 0] nth [of 1] nth [of 2] nth [of 3] by (simp_all add: mult.commute)
qed

text \<open>The id of every sector leads back to the segment and the sector.\<close>

lemma sector_id_location:
  assumes "geometry_ok f" "0 \<le> seg" "seg div segments_per_head f < 256" "j < 32"
  shows "loc_segment (read_id_location f (word_of_int (seg div segments_per_head f)) (word_of_int ((seg mod segments_per_head f) div segments_per_cylinder f))
      (word_of_int ((seg mod segments_per_cylinder f) * 32 + 1) + word_of_nat j)) = seg"
    "loc_sector (read_id_location f h c (word_of_int ((seg mod segments_per_cylinder f) * 32 + 1) + word_of_nat j)) = int j"
proof -
  let ?b = "(seg mod segments_per_cylinder f) * 32"
  have c: "0 < segments_per_cylinder f" "segments_per_cylinder f * 32 \<le> 255" using assms(1) by (auto simp: geometry_ok_def)
  have "seg mod segments_per_cylinder f + 1 \<le> segments_per_cylinder f" using pos_mod_bound [OF c(1), of seg] by simp
  then have b: "0 \<le> ?b" "?b + 32 \<le> 255" using c pos_mod_sign [OF c(1), of seg] by linarith+
  have small: "uint (word_of_int x :: u8) = x" if "0 \<le> x" "x < 256" for x using that by (simp add: uint_word_of_int)
  have e: "(word_of_int (?b + 1) + word_of_nat j :: u8) = word_of_int (?b + 1 + int j)" by simp
  have u: "uint (word_of_int (?b + 1) + word_of_nat j :: u8) = ?b + 1 + int j" unfolding e by (rule small) (use b assms(4) in simp_all)
  have u1: "uint (word_of_int (?b + 1) :: u8) = ?b + 1" by (rule small) (use b in simp_all)
  have "(?b + int j) div 32 = ?b div 32" "(?b + int j) mod 32 = int j" using assms(4) by simp_all
  then show "loc_sector (read_id_location f h c (word_of_int (?b + 1) + word_of_nat j)) = int j"
    "loc_segment (read_id_location f (word_of_int (seg div segments_per_head f)) (word_of_int ((seg mod segments_per_head f) div segments_per_cylinder f))
      (word_of_int (?b + 1) + word_of_nat j)) = seg"
    using coordinates_roundtrip(1) [OF assms(1-3)] unfolding read_id_location_def u u1 by simp_all
qed

text \<open>The memory \<open>m\<close> holds the ids of the sectors of \<open>todo\<close> segments from \<open>first\<close>; the fourth byte is the size code of a sector.\<close>

definition sector_ids :: "ftape_info \<Rightarrow> int \<Rightarrow> int \<Rightarrow> bytes \<Rightarrow> bool" where
  "sector_ids f first todo m \<longleftrightarrow> (\<forall>k < nat todo. \<forall>j < 32.
     let p = 128 * k + 4 * j; l = read_id_location f (m ! (p + 1)) (m ! p) (m ! (p + 2))
     in loc_segment l = first + int k \<and> loc_sector l = int j \<and> m ! (p + 3) = 3)"

lemma format_data_ids:
  assumes "geometry_ok f" "0 \<le> first" "(first + todo - 1) div segments_per_head f < 256" "nat todo * 128 \<le> length m"
  shows "sector_ids f first todo (blit m 0 (concat (map (format_segment f) [first..first + todo - 1])))"
  unfolding sector_ids_def Let_def
proof (intro allI impI)
  fix k j :: nat
  assume k: "k < nat todo" and j: "j < 32"
  let ?data = "concat (map (format_segment f) [first..first + todo - 1])" and ?m = "blit m 0 (concat (map (format_segment f) [first..first + todo - 1]))"
  have len: "length ?data = nat todo * 128" using length_concat_blocks [of "[first..first + todo - 1]" "format_segment f" 128] format_segment_nth(1) [of 0] by simp
  have seg: "[first..first + todo - 1] ! k = first + int k" using k by (simp add: nth_upto)
  have nth: "?m ! (128 * k + i) = format_segment f (first + int k) ! i" if "i < 128" for i
  proof -
    have "k * 128 + i < nat todo * 128" using that k mult_le_mono1 [of "Suc k" "nat todo" 128] by simp
    then have "?m ! (128 * k + i) = ?data ! (k * 128 + i)" using len assms(4) by (simp add: nth_blit mult.commute)
    then show ?thesis using nth_concat_blocks [of "[first..first + todo - 1]" "format_segment f" 128 k i] format_segment_nth(1) [of 0] k that seg by simp
  qed
  have pos: "0 < segments_per_head f" using assms(1) by (simp add: geometry_ok_def)
  have "(first + int k) div segments_per_head f \<le> (first + todo - 1) div segments_per_head f" using k pos by (intro zdiv_mono1) simp_all
  then have bound: "0 \<le> first + int k" "(first + int k) div segments_per_head f < 256" using assms(2,3) by simp_all
  have ids: "?m ! (128 * k + 4 * j + i) = format_segment f (first + int k) ! (4 * j + i)" if "i < 4" for i
    using nth [of "4 * j + i"] that j by (simp add: add.assoc)
  show "loc_segment (read_id_location f (?m ! (128 * k + 4 * j + 1)) (?m ! (128 * k + 4 * j)) (?m ! (128 * k + 4 * j + 2))) = first + int k
    \<and> loc_sector (read_id_location f (?m ! (128 * k + 4 * j + 1)) (?m ! (128 * k + 4 * j)) (?m ! (128 * k + 4 * j + 2))) = int j
    \<and> ?m ! (128 * k + 4 * j + 3) = 3"
    using ids [of 0] ids [of 1] ids [of 2] ids [of 3] format_segment_nth(2-) [OF j, of f "first + int k"] sector_id_location [OF assms(1) bound j] by simp
qed

section \<open>The ring of a track\<close>

text \<open>
  \<open>track_chunk n track s k\<close>: the buffer \<open>k\<close> waits for the interrupt handler, with the ids of the segments from \<open>256 * k\<close> of the track.
  \<open>fillable n track s\<close>: the memory of the \<open>n\<close> buffers and the deblock buffer has 32 kb, and the ids of the track fit into bytes.
\<close>

definition track_chunk :: "int \<Rightarrow> write_state \<Rightarrow> nat \<Rightarrow> bool" where
  "track_chunk track s k \<longleftrightarrow> (let b = w_buf s k; start = 256 * int k; todo = min (spt s - start) 256 in
     b_status b = waiting \<and> b_segment_id b = start \<and> b_remaining b = todo * 32 \<and> b_bytes b = todo * 128 \<and> b_ptr b = b_dma_address b
     \<and> b_next_segment b = (if spt s \<le> start + todo then 0 else start + todo)
     \<and> sector_ids (w_ft s) (track * spt s + start) todo (snd (w_mem s ! k)))"

definition fillable :: "nat \<Rightarrow> int \<Rightarrow> write_state \<Rightarrow> bool" where
  "fillable n track s \<longleftrightarrow> length (buffers (fdc (w_isr s))) = n \<and> length (w_mem s) = n \<and> 0 \<le> track \<and> geometry_ok (w_ft s)
     \<and> (track * spt s + spt s - 1) div segments_per_head (w_ft s) < 256
     \<and> (\<forall>m\<in>set (w_mem s). 32768 \<le> length (snd m)) \<and> 32768 \<le> length (snd (w_deblock s))"

lemma setup_buffer_ok:
  assumes "fillable n track s" "k < n" "256 * int k < spt s"
  obtains s' where "setup_format_buffer k (256 * int k) (spt s) track s = Some (s', Inr ())" "track_chunk track s' k" "fillable n track s'"
    "w_ft s' = w_ft s" "w_tail s' = w_tail s" "w_head s' = w_head s" "\<And>i. i \<noteq> k \<Longrightarrow> w_buf s' i = w_buf s i" "\<And>i. i \<noteq> k \<Longrightarrow> w_mem s' ! i = w_mem s ! i"
proof -
  let ?start = "256 * int k" and ?todo = "min (spt s - 256 * int k) 256" and ?first = "track * spt s + 256 * int k"
  let ?data = "concat (map (format_segment (w_ft s)) [?first..?first + ?todo - 1])" and ?m = "snd (w_deblock s)"
  note f = assms(1) [unfolded fillable_def]
  have todo: "0 < ?todo" "nat ?todo \<le> 256" using assms(3) by auto
  have len: "length ?data = nat ?todo * 128"
    using length_concat_blocks [of "[?first..?first + ?todo - 1]" "format_segment (w_ft s)" 128] format_segment_nth(1) [of 0] by simp
  have room: "nat ?todo * 128 \<le> length ?m" using f mult_le_mono1 [OF todo(2), of 128] by simp
  let ?s1 = "s\<lparr>w_held := True, w_deblock := (fst (w_deblock s), blit ?m 0 ?data)\<rparr>"
  let ?g = "\<lambda>b. b\<lparr>b_ptr := b_dma_address b, b_remaining := ?todo * 32, b_bytes := ?todo * 32 * 4, b_segment_id := ?start,
    b_next_segment := (if ?start + ?todo \<ge> spt s then 0 else ?start + ?todo), b_status := waiting\<rparr>"
  let ?s2 = "set_buf k ?g (swap_deblock k False ?s1)"
  have geo: "segments_per_head (w_ft s) \<noteq> 0" "segments_per_cylinder (w_ft s) \<noteq> 0" using f by (auto simp: geometry_ok_def)
  have run: "setup_format_buffer k ?start (spt s) track s = Some (?s2, Inr ())"
    using len room geo by (simp add: setup_format_buffer_def fill_format_buffer_def fdc_int_write_buffer_def Let_def)
  have s2: "w_ft ?s2 = w_ft s" "w_tail ?s2 = w_tail s" "w_head ?s2 = w_head s" "length (buffers (fdc (w_isr ?s2))) = n"
    "w_mem ?s2 = (w_mem s)[k := (fst (w_deblock s), blit ?m 0 ?data)]" "w_deblock ?s2 = w_mem s ! k"
    using f by (simp_all add: swap_mem swap_frame w_tail_def w_head_def) (simp_all add: set_buf_def swap_deblock_def)
  have buf: "w_buf ?s2 i = (if i = k then ?g ((w_buf s k)\<lparr>b_dma_address := fst (w_deblock s)\<rparr>) else w_buf s i)" for i
    using assms(2) f by (simp add: set_buf_def swap_deblock_def w_buf_def Let_def)
  have last: "(?first + ?todo - 1) div segments_per_head (w_ft s) \<le> (track * spt s + spt s - 1) div segments_per_head (w_ft s)"
    using f by (intro zdiv_mono1) (auto simp: geometry_ok_def)
  have spt: "spt ?s2 = spt s" using s2 by (simp add: spt_def)
  have "0 \<le> spt s" by (simp add: spt_def)
  then have ids: "sector_ids (w_ft s) ?first ?todo (blit ?m 0 ?data)" using f last room by (intro format_data_ids) auto
  have chunk: "track_chunk track ?s2 k" unfolding track_chunk_def Let_def spt s2(1,5) buf using ids f assms(2) by simp
  have "\<forall>x\<in>set ((w_mem s)[k := (fst (w_deblock s), blit ?m 0 ?data)]). 32768 \<le> length (snd x)"
    using f room len by (auto dest!: subsetD [OF set_update_subset_insert])
  then have "fillable n track ?s2" unfolding fillable_def s2 spt using f assms(2) nth_mem [of k "w_mem s"] by simp
  from that [OF run chunk this s2(1-3)] show ?thesis using buf s2(5) by simp
qed

text \<open>What the loop keeps: the buffers in front of \<open>TAIL\<close> are filled, \<open>switch_segment\<close> is the next segment.\<close>

lemma track_chunk_cong:
  "track_chunk track s k \<Longrightarrow> w_ft s' = (w_ft s)\<lparr>switch_segment := x\<rparr> \<Longrightarrow> w_buf s' k = w_buf s k \<Longrightarrow> w_mem s' ! k = w_mem s ! k \<Longrightarrow> track_chunk track s' k"
  by (simp add: track_chunk_def Let_def spt_def sector_ids_def read_id_location_def)

lemma set_switch_simps [simp]:
  "w_ft (set_switch x s) = (w_ft s)\<lparr>switch_segment := x\<rparr>" "w_head (set_switch x s) = w_head s" "w_tail (set_switch x s) = w_tail s"
  "w_buf (set_switch x s) i = w_buf s i" "w_mem (set_switch x s) = w_mem s" "w_deblock (set_switch x s) = w_deblock s"
  "length (buffers (fdc (w_isr (set_switch x s)))) = length (buffers (fdc (w_isr s)))"
  by (simp_all add: set_switch_def set_ft_def w_ft_def w_head_def w_tail_def w_buf_def)

lemma next_tail_simps [simp]:
  "w_ft (next_tail s) = w_ft s" "w_head (next_tail s) = w_head s" "w_tail (next_tail s) = (w_tail s + 1) mod length (buffers (fdc (w_isr s)))"
  "w_buf (next_tail s) i = w_buf s i" "w_mem (next_tail s) = w_mem s" "w_deblock (next_tail s) = w_deblock s"
  "length (buffers (fdc (w_isr (next_tail s)))) = length (buffers (fdc (w_isr s)))"
  by (simp_all add: next_tail_def set_fdc_def w_ft_def w_head_def w_tail_def w_buf_def)

lemma fill_ring_step:
  assumes "\<forall>s. \<not> e_signal E s" "fillable n track s" "w_tail s = k" "k < n" "switch_segment (w_ft s) = 256 * int k" "256 * int k < spt s" "w_head s = 0"
    "\<forall>i<k. track_chunk track s i"
  obtains s1 where "fillable n track s1" "spt s1 = spt s" "w_head s1 = 0" "\<forall>i\<le>k. track_chunk track s1 i"
    "switch_segment (w_ft s1) = (if spt s \<le> 256 * (int k + 1) then 0 else 256 * (int k + 1))"
    "w_tail s1 = (if spt s \<le> 256 * (int k + 1) then k else (k + 1) mod n)"
    "fill_ring E track s = (if spt s \<le> 256 * (int k + 1) \<or> k + 1 = n then Some (s1, Inr ()) else fill_ring E track s1)"
proof -
  obtain s1 where s1: "setup_format_buffer k (256 * int k) (spt s) track s = Some (s1, Inr ())" "track_chunk track s1 k" "fillable n track s1"
    "w_ft s1 = w_ft s" "w_tail s1 = w_tail s" "w_head s1 = w_head s" "\<And>i. i \<noteq> k \<Longrightarrow> w_buf s1 i = w_buf s i" "\<And>i. i \<noteq> k \<Longrightarrow> w_mem s1 ! i = w_mem s ! i"
    using setup_buffer_ok [OF assms(2,4,6)] by blast
  let ?last = "spt s \<le> 256 * (int k + 1)"
  let ?s2 = "set_switch (b_next_segment (w_buf s1 k)) s1"
  let ?s3 = "if ?last then ?s2 else next_tail ?s2"
  have spt: "spt s1 = spt s" using s1(4) by (simp add: spt_def)
  have chunks: "track_chunk track s1 i" if "i \<le> k" for i
  proof (cases "i = k")
    case False
    then have "track_chunk track s i" using that assms(8) by simp
    then show ?thesis by (rule track_chunk_cong [where x = "switch_segment (w_ft s)"]) (use s1 False in simp_all)
  qed (use s1(2) in simp)
  have nxt: "b_next_segment (w_buf s1 k) = (if ?last then 0 else 256 * (int k + 1))"
    using s1(2) by (auto simp: track_chunk_def Let_def spt)
  have n: "length (buffers (fdc (w_isr s1))) = n" using s1(3) by (simp add: fillable_def)
  have s3: "w_ft ?s3 = (w_ft s1)\<lparr>switch_segment := (if ?last then 0 else 256 * (int k + 1))\<rparr>" "w_mem ?s3 = w_mem s1" "w_deblock ?s3 = w_deblock s1"
    "w_buf ?s3 i = w_buf s1 i" "w_head ?s3 = 0" "w_tail ?s3 = (if ?last then k else (k + 1) mod n)" "length (buffers (fdc (w_isr ?s3))) = n" for i
    by (simp_all add: nxt n s1(5,6) assms(3,7))
  have spt3: "spt ?s3 = spt s" using spt s3(1) by (simp add: spt_def)
  have "fillable n track ?s3" unfolding fillable_def s3 spt3 using s1(3) unfolding fillable_def spt by (simp add: geometry_ok_def)
  moreover have "\<forall>i\<le>k. track_chunk track ?s3 i" by (intro allI impI track_chunk_cong [OF chunks s3(1)]) (simp_all only: s3(2,4))
  moreover have "fill_ring E track s = (if ?last \<or> k + 1 = n then Some (?s3, Inr ()) else fill_ring E track ?s3)"
  proof -
    have loop: "fill_ring E track s = (if switch_segment (w_ft ?s2) = 0 then Some (?s2, Inr ()) else if w_tail (next_tail ?s2) = w_head ?s2 then Some (next_tail ?s2, Inr ())
        else fill_ring E track (next_tail ?s2))"
      using assms(1) s1(1,5) by (subst fill_ring.simps) (simp add: assms(3,5) Let_def)
    have full: "w_tail (next_tail ?s2) = w_head ?s2 \<longleftrightarrow> k + 1 = n" using s1(3,5,6) assms(3,4,7) by (auto simp: fillable_def mod_if)
    have complete: "switch_segment (w_ft ?s2) = 0 \<longleftrightarrow> ?last" using nxt by simp
    show ?thesis unfolding loop full complete by (cases ?last) simp_all
  qed
  moreover have switch: "switch_segment (w_ft ?s3) = (if ?last then 0 else 256 * (int k + 1))" unfolding s3(1) by simp
  ultimately show ?thesis by (intro that [OF _ spt3 s3(5) _ switch s3(6)])
qed

lemma fill_ring_fills:
  assumes "\<forall>s. \<not> e_signal E s" "fillable n track s" "w_tail s = k" "k < n" "switch_segment (w_ft s) = 256 * int k" "256 * int k < spt s" "w_head s = 0"
    "\<forall>i<k. track_chunk track s i"
  shows "\<exists>s' m. fill_ring E track s = Some (s', Inr ()) \<and> 0 < m \<and> m \<le> n \<and> (\<forall>i<m. track_chunk track s' i) \<and> spt s' = spt s \<and> 256 * (int m - 1) < spt s
    \<and> switch_segment (w_ft s') = (if spt s \<le> 256 * int m then 0 else 256 * int m) \<and> (256 * int m < spt s \<longrightarrow> m = n)"
  using assms
proof (induction "n - k" arbitrary: k s)
  case (Suc d)
  obtain s1 where s1: "fillable n track s1" "spt s1 = spt s" "w_head s1 = 0" "\<forall>i\<le>k. track_chunk track s1 i"
    "switch_segment (w_ft s1) = (if spt s \<le> 256 * (int k + 1) then 0 else 256 * (int k + 1))"
    "w_tail s1 = (if spt s \<le> 256 * (int k + 1) then k else (k + 1) mod n)"
    "fill_ring E track s = (if spt s \<le> 256 * (int k + 1) \<or> k + 1 = n then Some (s1, Inr ()) else fill_ring E track s1)"
    by (rule fill_ring_step [OF Suc.prems])
  show ?case
  proof (cases "spt s \<le> 256 * (int k + 1) \<or> k + 1 = n")
    case True
    then show ?thesis using s1 Suc.prems(4,6) by (intro exI [of _ s1] exI [of _ "k + 1"]) auto
  next
    case False
    have "\<exists>s' m. fill_ring E track s1 = Some (s', Inr ()) \<and> 0 < m \<and> m \<le> n \<and> (\<forall>i<m. track_chunk track s' i) \<and> spt s' = spt s1 \<and> 256 * (int m - 1) < spt s1
      \<and> switch_segment (w_ft s') = (if spt s1 \<le> 256 * int m then 0 else 256 * int m) \<and> (256 * int m < spt s1 \<longrightarrow> m = n)"
      by (rule Suc.hyps(1) [of "k + 1"]) (use Suc.hyps(2) Suc.prems(1,4) s1 False in auto)
    then show ?thesis using s1(2,7) False by simp
  qed
qed simp

text \<open>Aborting an operation leaves every buffer waiting, and the ring at its start.\<close>

lemma abort_operation_ring:
  "w_head (fst (ftape_abort_operation E s)) = 0" "w_tail (fst (ftape_abort_operation E s)) = 0"
  "buffers (fdc (w_isr (fst (ftape_abort_operation E s)))) \<noteq> [] \<Longrightarrow> b_status (w_buf (fst (ftape_abort_operation E s)) 0) = waiting"
  by (auto simp: ftape_abort_operation_def Let_def ftape_zap_read_buffers_def ftape_reset_buffer_def fdc_zap_buffers_def terminate_dma_def
      w_head_def w_tail_def w_buf_def set_fdc_def set_ft_def split: prod.splits)

text \<open>
  C12. The ring for a track is filled: when \<open>ftape_format_track\<close> has aborted the previous operation and no signal is pending, the loop
  returns, and the first buffers hold the track in pieces of 256 segments, each with the ids of its sectors in order, as
  \<open>ftape_read_id\<close> will decode them. Either all segments of the track are laid out and \<open>switch_segment\<close> is 0, or all
  buffers are used and \<open>switch_segment\<close> is the segment to go on with.
\<close>

theorem fill_ring_lays_out_track:
  fixes E s
  defines "a \<equiv> fst (ftape_abort_operation E s)"
  assumes "\<forall>s. \<not> e_signal E s" "fillable n track a" "0 < n" "0 < spt a"
  shows "\<exists>s' m. fill_ring E track (set_switch 0 (enter_state formatting a)) = Some (s', Inr ()) \<and> 0 < m \<and> m \<le> n \<and> (\<forall>k<m. track_chunk track s' k)
    \<and> spt s' = spt a \<and> 256 * (int m - 1) < spt a \<and> switch_segment (w_ft s') = (if spt a \<le> 256 * int m then 0 else 256 * int m) \<and> (256 * int m < spt a \<longrightarrow> m = n)"
proof -
  let ?b = "set_switch 0 (enter_state formatting a)"
  have b: "w_head ?b = 0" "w_tail ?b = 0" "spt ?b = spt a" "fillable n track ?b" "switch_segment (w_ft ?b) = 256 * int 0"
    using abort_operation_ring(1,2) [of E s, folded a_def] assms(3)
    by (simp_all add: set_switch_def enter_state_def ftape_set_state_def set_ft_def w_head_def w_tail_def spt_def fillable_def w_ft_def geometry_ok_def Let_def)
  show ?thesis using fill_ring_fills [OF assms(2) b(4,2) assms(4) b(5) _ b(1)] assms(5) b(3) by simp
qed

definition format_start :: write_state where
  "format_start = \<lparr>w_isr = sample_state\<lparr>ft := (blank_info fmt_normal)\<lparr>segments_per_track := 300\<rparr>, fdc := (fdc sample_state)\<lparr>buffers := [blank_buffer, blank_buffer\<lparr>b_status := buf_error\<rparr>], buffer_head := 1, buffer_tail := 1\<rparr>\<rparr>,
     w_mem = [(0, replicate 32768 0), (32768, replicate 32768 0)], w_deblock = (65536, replicate 32768 0), w_held = False\<rparr>"

theorem fill_ring_lays_out_track_witness:
  "\<exists>s'. fill_ring quiet_env 2 (set_switch 0 (enter_state formatting (fst (ftape_abort_operation quiet_env format_start)))) = Some (s', Inr ())
     \<and> track_chunk 2 s' 0 \<and> track_chunk 2 s' 1 \<and> switch_segment (w_ft s') = 0"
proof -
  let ?a = "fst (ftape_abort_operation quiet_env format_start)"
  have a: "w_ft ?a = (blank_info fmt_normal)\<lparr>segments_per_track := 300\<rparr>" "length (buffers (fdc (w_isr ?a))) = 2"
      "w_mem ?a = w_mem format_start" "w_deblock ?a = w_deblock format_start"
    by (simp_all add: ftape_abort_operation_def ftape_dumb_stop_def quiet_env_def format_start_def ftape_zap_read_buffers_def ftape_reset_buffer_def fdc_zap_buffers_def
        terminate_dma_def set_ft_def w_ft_def set_fdc_def ftape_set_state_def blank_info_def)
  have spt: "spt ?a = 300" unfolding spt_def a(1) by simp
  have ok: "fillable 2 2 ?a" unfolding fillable_def spt a(2-) a(1) by (simp add: geometry_ok_def blank_info_def format_start_def)
  have quiet: "\<forall>s. \<not> e_signal quiet_env s" by (simp add: quiet_env_def)
  obtain s' m where m: "fill_ring quiet_env 2 (set_switch 0 (enter_state formatting ?a)) = Some (s', Inr ()) \<and> 0 < m \<and> m \<le> 2 \<and> (\<forall>k<m. track_chunk 2 s' k)
      \<and> spt s' = 300 \<and> 256 * (int m - 1) < 300 \<and> switch_segment (w_ft s') = (if 300 \<le> 256 * int m then 0 else 256 * int m) \<and> (256 * int m < 300 \<longrightarrow> m = 2)"
    using fill_ring_lays_out_track [OF quiet ok zero_less_numeral, unfolded spt, OF zero_less_numeral] by (elim exE) (rule that)
  have two: "m = 2" using m by (cases "m = 1") auto
  show ?thesis using m unfolding two by (intro exI [of _ s']) simp
qed

section \<open>The end of a track\<close>

text \<open>
  C40. An error while formatting is never reported as such: \<open>ftape_format_status\<close> aborts the operation before it looks at the status of
  the buffer at \<open>HEAD\<close>, and aborting sets all buffers to \<open>waiting\<close> and \<open>HEAD\<close> to the first. Whatever had happened, the result is the
  request to try again.
\<close>

theorem format_status_hides_error:
  assumes "refill_ring E s = Some (s1, Inr ())" "runner_status (w_ft s1) \<in> {aborting, do_abort}"
    "buffers (fdc (w_isr (fst (ftape_abort_operation E s1)))) \<noteq> []"
  shows "ftape_format_status E s = Some (fst (ftape_abort_operation E s1), Inl EAGAIN)"
  using assms abort_operation_ring [of E s1] by (simp add: ftape_format_status_def Let_def)

theorem format_status_hides_error_witness:
  "let s = set_ft ((w_ft format_start)\<lparr>runner_status := aborting\<rparr>) format_start
   in b_status (w_buf s (w_head s)) = buf_error \<and> ftape_format_status quiet_env s = Some (fst (ftape_abort_operation quiet_env s), Inl EAGAIN)"
proof -
  let ?u = "set_ft ((w_ft format_start)\<lparr>runner_status := aborting\<rparr>) format_start"
  have "switch_segment (w_ft ?u) = 0" by (simp add: format_start_def set_ft_def w_ft_def blank_info_def)
  then have "refill_ring quiet_env ?u = Some (?u, Inr ())" by (subst refill_ring.simps) simp
  moreover have "buffers (fdc (w_isr (fst (ftape_abort_operation quiet_env ?u)))) \<noteq> []"
    by (simp add: ftape_abort_operation_def ftape_dumb_stop_def quiet_env_def format_start_def ftape_zap_read_buffers_def ftape_reset_buffer_def fdc_zap_buffers_def
        terminate_dma_def set_ft_def w_ft_def set_fdc_def ftape_set_state_def)
  moreover have "b_status (w_buf ?u (w_head ?u)) = buf_error" by (simp add: format_start_def set_ft_def w_buf_def w_head_def)
  ultimately show ?thesis using format_status_hides_error [of quiet_env ?u ?u] by (simp add: Let_def)
qed

section \<open>A verified segment\<close>

lemma search_verified_skips:
  assumes "\<forall>s. \<not> e_signal E s" "w_tail s < length (buffers (fdc (w_isr s)))" "j \<le> length (buffers (fdc (w_isr s)))"
    "\<forall>k<j. b_status (w_buf s (behind_tail s k)) = buf_done \<and> b_segment_id (w_buf s (behind_tail s k)) \<noteq> seg"
  shows "search_verified E seg s = search_verified E seg ((release_tail ^^ j) s)"
  using assms(3,4)
proof (induction j)
  case (Suc j)
  let ?s = "(release_tail ^^ j) s"
  have "w_buf ?s (w_tail ?s) = w_buf s (behind_tail s j)"
    using releases_buf [OF assms(2), of j j] releases_tail [OF assms(2)] Suc.prems by auto
  then have "search_verified E seg ?s = search_verified E seg (release_tail ?s)"
    using Suc.prems assms(1) by (subst search_verified.simps) (simp add: Let_def)
  then show ?case using Suc by simp
qed simp

text \<open>
  C33. The result of verifying: when the segment waits in the ring behind buffers with other segments, the sectors on which the controller
  met an error, corrected by a retry or not, are the bad sector map that is returned. The buffers up to it are given back.
\<close>

theorem verify_segment_from_ring:
  assumes "\<forall>s. \<not> e_signal E s" "w_tail s < length (buffers (fdc (w_isr s)))" "j < length (buffers (fdc (w_isr s)))"
    "driver_state (w_ft s) = verifying" "runner_status (w_ft s) \<in> {idle, running}"
    "\<forall>k<j. b_status (w_buf s (behind_tail s k)) = buf_done \<and> b_segment_id (w_buf s (behind_tail s k)) \<noteq> seg"
    "b_status (w_buf s (behind_tail s j)) = buf_done" "b_segment_id (w_buf s (behind_tail s j)) = seg"
  shows "ftape_verify_segment E seg s = Some ((release_tail ^^ Suc j) s,
    Inr (b_soft_error_map (w_buf s (behind_tail s j)) OR b_hard_error_map (w_buf s (behind_tail s j))))"
proof -
  let ?r = "(release_tail ^^ j) s" and ?z = "(release_tail ^^ Suc j) s"
  have "(w_ft s)\<lparr>driver_state := verifying\<rparr> = w_ft s" using assms(4) by (cases "w_ft s") simp
  then have enter: "enter_state verifying s = s" by (simp add: enter_state_def ftape_set_state_def set_ft_def) (simp add: w_ft_def)
  have "w_buf ?r (w_tail ?r) = w_buf s (behind_tail s j)"
    using releases_buf [OF assms(2), of j j] releases_tail [OF assms(2)] assms(3) by auto
  then have "search_verified E seg ?r = Some (release_tail ?r, Inr (Some (b_soft_error_map (w_buf s (behind_tail s j)) OR b_hard_error_map (w_buf s (behind_tail s j)))))"
    using assms(1,7,8) by (subst search_verified.simps) (simp add: Let_def)
  then have found: "search_verified E seg s = Some (?z, Inr (Some (b_soft_error_map (w_buf s (behind_tail s j)) OR b_hard_error_map (w_buf s (behind_tail s j)))))"
    using search_verified_skips [OF assms(1,2) less_imp_le [OF assms(3)] assms(6)] by simp
  have "stop_verifying E ?z = (?z, Inr ())"
    using assms(5) handle_eot_frame [of ?z E] unfolding stop_verifying_def by (auto simp del: funpow.simps)
  then have "verify_turns E seg s = Some (?z, Inr (b_soft_error_map (w_buf s (behind_tail s j)) OR b_hard_error_map (w_buf s (behind_tail s j))))"
    using found assms(1) by (subst verify_turns.simps) (simp add: verify_turn_def del: funpow.simps)
  then show ?thesis using assms(4) enter by (simp add: ftape_verify_segment_def del: funpow.simps)
qed

theorem verify_segment_from_ring_witness:
  "ftape_verify_segment quiet_env 5 (set_ft ((w_ft read_ahead)\<lparr>driver_state := verifying\<rparr>) read_ahead)
    = Some ((release_tail ^^ 2) (set_ft ((w_ft read_ahead)\<lparr>driver_state := verifying\<rparr>) read_ahead), Inr 2)"
proof -
  let ?u = "set_ft ((w_ft read_ahead)\<lparr>driver_state := verifying\<rparr>) read_ahead"
  have u: "w_tail ?u = 0" "length (buffers (fdc (w_isr ?u))) = 3" "w_buf ?u 0 = ring_buffer 4 0" "w_buf ?u 1 = ring_buffer 5 2"
      "behind_tail ?u 0 = 0" "behind_tail ?u 1 = 1" "driver_state (w_ft ?u) = verifying" "runner_status (w_ft ?u) = idle" "\<forall>s. \<not> e_signal quiet_env s"
    by (simp_all add: read_ahead_def set_ft_def w_tail_def w_buf_def w_ft_def behind_tail_def quiet_env_def)
  then show ?thesis using verify_segment_from_ring [of quiet_env ?u 1 5] by (simp add: ring_buffer_def blank_buffer_def numeral_2_eq_2)
qed

end
