(* ===== verification/Zft_Lzrw3.thy ===== *)
theory Zft_Lzrw3
  imports Ft_Prelude "HOL-Library.Monad_Syntax"
begin

text \<open>
  The LZRW3 decompressor of \<open>src/ftape/compressor/lzrw3.c\<close>. The source memory is a list of bytes, the
  output grows as a list, and a pointer in the hash table is a position in the output or the constant
  start string. An access to memory outside the source, or to output not yet written, is \<open>None\<close>.
\<close>

unbundle bit_operations_syntax

section \<open>Pointers and hashing\<close>

datatype hptr = Start_String | Out nat

text \<open>The digits of \<open>START_STRING_18\<close>.\<close>

definition START_STRING_18 :: bytes where
  "START_STRING_18 = [49, 50, 51, 52, 53, 54, 55, 56, 57, 48, 49, 50, 51, 52, 53, 54, 55, 56]"

definition nth_byte :: "bytes \<Rightarrow> nat \<Rightarrow> u8 option" where
  "nth_byte mem i = (if i < length mem then Some (mem ! i) else None)"

definition deref :: "bytes \<Rightarrow> hptr \<Rightarrow> nat \<Rightarrow> u8 option" where
  "deref dst p i = (case p of Start_String \<Rightarrow> nth_byte START_STRING_18 i | Out k \<Rightarrow> nth_byte dst (k + i))"

text \<open>
  The macro \<open>HASH\<close>. The product can exceed a signed 32-bit integer; only its bits 4 to 15 are used.
\<close>

definition hash_bytes :: "u8 \<Rightarrow> u8 \<Rightarrow> u8 \<Rightarrow> nat" where
  "hash_bytes a b c =
    unat (drop_bit 4 (40543 * (push_bit 8 (ucast a) XOR push_bit 4 (ucast b) XOR ucast c) :: u32) AND 0xFFF)"

definition HASH :: "bytes \<Rightarrow> nat \<Rightarrow> nat option" where
  "HASH dst p = do {
     a \<leftarrow> nth_byte dst p;
     b \<leftarrow> nth_byte dst (p + 1);
     c \<leftarrow> nth_byte dst (p + 2);
     Some (hash_bytes a b c)
   }"

section \<open>Items\<close>

text \<open>What both kinds of items work on: the output, the hash table and the number of pending literals.\<close>

type_synonym lz_history = "bytes \<times> (nat \<Rightarrow> hptr) \<times> nat"

definition hash_at :: "bytes \<Rightarrow> (nat \<Rightarrow> hptr) \<Rightarrow> nat \<Rightarrow> (nat \<Rightarrow> hptr) option" where
  "hash_at dst tab r = do { h \<leftarrow> HASH dst r; Some (tab(h := Out r)) }"

text \<open>\<open>*p_dst++ = *p++\<close>, \<open>n\<close> times; source and destination may overlap.\<close>

fun copy_bytes :: "bytes \<Rightarrow> hptr \<Rightarrow> nat \<Rightarrow> nat \<Rightarrow> bytes option" where
  "copy_bytes dst p i 0 = Some dst"
| "copy_bytes dst p i (Suc n) = do { b \<leftarrow> deref dst p i; copy_bytes (dst @ [b]) p (i + 1) n }"

definition copy_item :: "nat \<Rightarrow> nat \<Rightarrow> lz_history \<Rightarrow> lz_history option" where
  "copy_item index len hist = (case hist of (dst, tab, literals) \<Rightarrow>
     let p_ziv = length dst in do {
       dst' \<leftarrow> copy_bytes dst (tab index) 0 len;
       tab' \<leftarrow> (if literals > 0 then do {
                 tab1 \<leftarrow> hash_at dst' tab (p_ziv - literals);
                 if literals = 2 then hash_at dst' tab1 (p_ziv - literals + 1) else Some tab1
               } else Some tab);
       Some (dst', tab'(index := Out p_ziv), 0)
     })"

definition literal_item :: "u8 \<Rightarrow> lz_history \<Rightarrow> lz_history option" where
  "literal_item b hist = (case hist of (dst, tab, literals) \<Rightarrow>
     let dst' = dst @ [b] in
     if literals + 1 = 3 then do { tab' \<leftarrow> hash_at dst' tab (length dst' - 3); Some (dst', tab', 2) }
     else Some (dst', tab, literals + 1))"

section \<open>The decoder\<close>

record lz_state =
  lz_src :: nat
  lz_hist :: lz_history
  lz_control :: u32

text \<open>One pass of the inner loop, up to the shift of the control word.\<close>

definition decode_item :: "bytes \<Rightarrow> lz_state \<Rightarrow> lz_state option" where
  "decode_item src st =
    (let p = lz_src st; rest = st\<lparr>lz_control := drop_bit 1 (lz_control st)\<rparr> in
     if lz_control st AND 1 \<noteq> 0 then do {
       c1 \<leftarrow> nth_byte src p;
       c2 \<leftarrow> nth_byte src (p + 1);
       hist \<leftarrow> copy_item (unat (push_bit 4 (ucast c1 AND 0xF0) OR ucast c2 :: u16)) (unat (c1 AND 0xF) + 3) (lz_hist st);
       Some (rest\<lparr>lz_src := p + 2, lz_hist := hist\<rparr>)
     } else do {
       c \<leftarrow> nth_byte src p;
       hist \<leftarrow> literal_item c (lz_hist st);
       Some (rest\<lparr>lz_src := p + 1, lz_hist := hist\<rparr>)
     })"

text \<open>
  The inner loop. \<open>Inl\<close> is the exit for corrupt data, when the output has grown beyond \<open>dst_len\<close>,
  with the output written up to then.
\<close>

fun decode_items :: "bytes \<Rightarrow> nat \<Rightarrow> nat \<Rightarrow> lz_state \<Rightarrow> (bytes + lz_state) option" where
  "decode_items src dst_len 0 st = Some (Inr st)"
| "decode_items src dst_len (Suc unroll) st = do {
     st' \<leftarrow> decode_item src st;
     if length (fst (lz_hist st')) > dst_len then Some (Inl (fst (lz_hist st')))
     else decode_items src dst_len unroll st'
   }"

text \<open>The outer loop: a new control word when the sentinel is all that is left, then one or sixteen items.\<close>

definition load_control :: "bytes \<Rightarrow> lz_state \<Rightarrow> lz_state option" where
  "load_control src st =
    (if lz_control st = 1 then do {
       b0 \<leftarrow> nth_byte src (lz_src st);
       b1 \<leftarrow> nth_byte src (lz_src st + 1);
       Some (st\<lparr>lz_control := (0x10000 OR ucast b0) OR push_bit 8 (ucast b1), lz_src := lz_src st + 2\<rparr>)
     } else Some st)"

definition unroll_count :: "int \<Rightarrow> nat \<Rightarrow> nat" where
  "unroll_count src_len p_src = (if int p_src \<le> src_len - (34 - 2) then 16 else 1)"

lemma decode_items_progress:
  "decode_items src dst_len n st = Some (Inr st') \<Longrightarrow> lz_src st + n \<le> lz_src st' \<and> (n > 0 \<longrightarrow> lz_src st' \<le> length src)"
proof (induction n arbitrary: st)
  case (Suc n)
  obtain st1 where s: "decode_item src st = Some st1" "decode_items src dst_len n st1 = Some (Inr st')"
    using Suc.prems by (auto simp: bind_eq_Some_conv split: if_splits)
  then have "lz_src st < lz_src st1 \<and> lz_src st1 \<le> length src"
    by (auto simp: decode_item_def Let_def bind_eq_Some_conv nth_byte_def split: if_splits)
  moreover have "lz_src st1 + n \<le> lz_src st' \<and> (n > 0 \<longrightarrow> lz_src st' \<le> length src)" by (rule Suc.IH [OF s(2)])
  ultimately show ?case using s(2) by (cases n) auto
qed simp

function decode_loop :: "bytes \<Rightarrow> int \<Rightarrow> nat \<Rightarrow> lz_state \<Rightarrow> (bytes \<times> nat) option" where
  "decode_loop src src_len dst_len st =
    (if int (lz_src st) = src_len then Some (fst (lz_hist st), length (fst (lz_hist st)))
     else case load_control src st of
       None \<Rightarrow> None
     | Some st1 \<Rightarrow>
         (case decode_items src dst_len (unroll_count src_len (lz_src st1)) st1 of
            None \<Rightarrow> None
          | Some (Inl dst) \<Rightarrow> Some (dst, 0)
          | Some (Inr st2) \<Rightarrow> decode_loop src src_len dst_len st2))"
  by pat_completeness auto
termination
proof (relation "measure (\<lambda>(src, n, d, st). length src - lz_src st)")
  fix src src_len dst_len st st1 r st2
  assume a: "load_control src st = Some st1" "decode_items src dst_len (unroll_count src_len (lz_src st1)) st1 = Some r" "r = Inr st2"
  have "lz_src st \<le> lz_src st1"
    using a(1) by (auto simp: load_control_def bind_eq_Some_conv split: if_splits)
  moreover have "0 < unroll_count src_len (lz_src st1)" by (simp add: unroll_count_def)
  ultimately show "((src, src_len, dst_len, st2), src, src_len, dst_len, st) \<in> measure (\<lambda>(src, n, d, st). length src - lz_src st)"
    using decode_items_progress [OF a(2) [unfolded a(3)]] by auto
qed simp

declare decode_loop.simps [simp del]

text \<open>
  \<open>compress_decompress\<close>: \<open>mem\<close> is the memory at \<open>p_src_first\<close>. A negative length stands for data that
  is not compressed. The result is the output written and the length reported.
\<close>

definition compress_decompress :: "bytes \<Rightarrow> int \<Rightarrow> nat \<Rightarrow> (bytes \<times> nat) option" where
  "compress_decompress mem src_len dst_len =
    (if src_len < 0 then
       (if nat (- src_len) \<le> length mem then Some (take (nat (- src_len)) mem, nat (- src_len)) else None)
     else decode_loop mem src_len dst_len \<lparr>lz_src = 4, lz_hist = ([], \<lambda>_. Start_String, 0), lz_control = 1\<rparr>)"

section \<open>Memory safety\<close>

definition hist_ok :: "lz_history \<Rightarrow> bool" where
  "hist_ok hist \<longleftrightarrow> (case hist of (dst, tab, literals) \<Rightarrow>
     (\<forall>h. tab h = Start_String \<or> (\<exists>k < length dst. tab h = Out k)) \<and> literals \<le> 2 \<and> literals \<le> length dst)"

definition readable :: "hptr \<Rightarrow> nat \<Rightarrow> nat \<Rightarrow> nat \<Rightarrow> bool" where
  "readable p i n len \<longleftrightarrow> (case p of Start_String \<Rightarrow> i + n \<le> 18 | Out k \<Rightarrow> k + i < len)"

lemma copy_bytes_ok:
  "readable p i n (length dst) \<Longrightarrow> \<exists>d. copy_bytes dst p i n = Some (dst @ d) \<and> length d = n"
proof (induction n arbitrary: dst i)
  case (Suc n)
  then obtain b where b: "deref dst p i = Some b"
    by (auto simp: deref_def readable_def nth_byte_def START_STRING_18_def split: hptr.splits)
  have "readable p (i + 1) n (length (dst @ [b]))" using Suc.prems by (auto simp: readable_def split: hptr.splits)
  from Suc.IH [OF this] obtain d where "copy_bytes (dst @ [b]) p (i + 1) n = Some ((dst @ [b]) @ d)" "length d = n" by blast
  with b show ?case by (intro exI [of _ "b # d"]) simp
qed simp

lemma hash_at_ok: "r + 2 < length dst \<Longrightarrow> \<exists>h. hash_at dst tab r = Some (tab(h := Out r))"
  by (auto simp: hash_at_def HASH_def nth_byte_def)

lemma copy_item_ok:
  assumes "hist_ok (dst, tab, lits)" "3 \<le> len" "len \<le> 18"
  shows "\<exists>d tab'. copy_item index len (dst, tab, lits) = Some (dst @ d, tab', 0) \<and> length d = len \<and> hist_ok (dst @ d, tab', 0)"
proof -
  have tab: "tab h = Start_String \<or> (\<exists>k < length dst. tab h = Out k)" for h
    using assms(1) by (simp add: hist_ok_def)
  have l: "lits \<le> 2" "lits \<le> length dst" using assms(1) by (simp_all add: hist_ok_def)
  have "readable (tab index) 0 len (length dst)" using tab [of index] assms(3) by (auto simp: readable_def)
  from copy_bytes_ok [OF this] obtain d where d: "copy_bytes dst (tab index) 0 len = Some (dst @ d)" "length d = len" by blast
  have upd: "\<exists>h. hash_at (dst @ d) t r = Some (t(h := Out r))" if "r < length dst" for t r
    using that d(2) assms(2) by (intro hash_at_ok) simp
  let ?r = "length dst - lits"
  obtain tab' where tab': "(if lits > 0 then do { tab1 \<leftarrow> hash_at (dst @ d) tab ?r;
        if lits = 2 then hash_at (dst @ d) tab1 (?r + 1) else Some tab1 } else Some tab) = Some tab'"
      "\<forall>h. tab' h = tab h \<or> (\<exists>k < length (dst @ d). tab' h = Out k)"
  proof (cases "lits = 0")
    case True then show ?thesis using that [of tab] by simp
  next
    case False
    then have r: "?r < length dst" using l by simp
    then obtain h1 where h1: "hash_at (dst @ d) tab ?r = Some (tab(h1 := Out ?r))" using upd by blast
    show ?thesis
    proof (cases "lits = 2")
      case True
      have "?r + 1 < length dst" using True l by simp
      then obtain h2 where "hash_at (dst @ d) (tab(h1 := Out ?r)) (?r + 1) = Some ((tab(h1 := Out ?r))(h2 := Out (?r + 1)))" using upd by blast
      with True h1 r \<open>?r + 1 < length dst\<close> show ?thesis
        by (intro that [of "(tab(h1 := Out ?r))(h2 := Out (?r + 1))"]) (auto intro: exI [of _ ?r])
    next
      case False
      with \<open>lits \<noteq> 0\<close> h1 r show ?thesis by (intro that [of "tab(h1 := Out ?r)"]) auto
    qed
  qed
  have "copy_item index len (dst, tab, lits) = Some (dst @ d, tab'(index := Out (length dst)), 0)"
    using tab'(1) by (simp add: copy_item_def d)
  moreover have "hist_ok (dst @ d, tab'(index := Out (length dst)), 0)"
    using tab'(2) tab d(2) assms(2) by (auto simp: hist_ok_def) (metis trans_less_add1)+
  ultimately show ?thesis using d(2) by blast
qed

lemma literal_item_ok:
  assumes "hist_ok (dst, tab, lits)"
  shows "\<exists>tab' l'. literal_item b (dst, tab, lits) = Some (dst @ [b], tab', l') \<and> hist_ok (dst @ [b], tab', l')"
proof (cases "lits = 2")
  case True
  then have "length dst - 2 + 2 < length (dst @ [b])" using assms by (auto simp: hist_ok_def)
  from hash_at_ok [OF this] obtain h where "hash_at (dst @ [b]) tab (length dst - 2) = Some (tab(h := Out (length dst - 2)))" by blast
  then show ?thesis using True assms by (auto simp: literal_item_def hist_ok_def less_Suc_eq)
next
  case False
  then show ?thesis using assms by (auto simp: literal_item_def hist_ok_def less_Suc_eq)
qed

text \<open>One item: output of 1 to 18 bytes for 1 or 2 bytes of input; only the input can be missing.\<close>

lemma decode_item_ok:
  assumes "hist_ok (lz_hist st)" "lz_src st + 2 \<le> length src"
  obtains st' where "decode_item src st = Some st'" "hist_ok (lz_hist st')"
    "length (fst (lz_hist st)) < length (fst (lz_hist st'))" "length (fst (lz_hist st')) \<le> length (fst (lz_hist st)) + 18"
    "lz_src st' + length (fst (lz_hist st)) \<le> lz_src st + length (fst (lz_hist st'))" "lz_control st' = drop_bit 1 (lz_control st)"
proof -
  obtain dst tab l where h: "lz_hist st = (dst, tab, l)" by (metis prod_cases3)
  have b: "nth_byte src (lz_src st) = Some (src ! lz_src st)" "nth_byte src (lz_src st + 1) = Some (src ! (lz_src st + 1))"
    using assms(2) by (simp_all add: nth_byte_def)
  let ?c1 = "src ! lz_src st"
  have len: "unat (?c1 AND 0xF) + 3 \<le> 18"
  proof -
    have "?c1 AND 0xF \<le> 0xF" by (rule word_and_le1)
    then show ?thesis by (simp add: word_le_nat_alt)
  qed
  show ?thesis
  proof (cases "lz_control st AND 1 \<noteq> 0")
    case True
    let ?i = "unat (push_bit 4 (ucast ?c1 AND 0xF0) OR ucast (src ! (lz_src st + 1)) :: u16)"
    obtain d tab' where c: "copy_item ?i (unat (?c1 AND 0xF) + 3) (dst, tab, l) = Some (dst @ d, tab', 0)"
        "length d = unat (?c1 AND 0xF) + 3" "hist_ok (dst @ d, tab', 0)"
      using copy_item_ok [OF assms(1) [unfolded h] _ len, of ?i] by auto
    show ?thesis
      by (rule that [of "st\<lparr>lz_control := drop_bit 1 (lz_control st), lz_src := lz_src st + 2, lz_hist := (dst @ d, tab', 0)\<rparr>"])
        (use True b c len in \<open>simp_all add: decode_item_def h Let_def del: push_bit_numeral\<close>)
  next
    case False
    obtain tab' l' where "literal_item ?c1 (dst, tab, l) = Some (dst @ [?c1], tab', l')" "hist_ok (dst @ [?c1], tab', l')"
      using literal_item_ok [OF assms(1) [unfolded h]] by blast
    then show ?thesis
      by (intro that [of "st\<lparr>lz_control := drop_bit 1 (lz_control st), lz_src := lz_src st + 1, lz_hist := (dst @ [?c1], tab', l')\<rparr>"])
        (use False b in \<open>simp_all add: decode_item_def h Let_def\<close>)
  qed
qed

text \<open>How far the input is read: a group's two control bytes are spread over its sixteen items.\<close>

definition input_bounded :: "lz_state \<Rightarrow> bool" where
  "input_bounded st \<longleftrightarrow> (\<exists>s \<le> 16. 16 * lz_src st \<le> 64 + 18 * length (fst (lz_hist st)) + 2 * s
     \<and> unat (lz_control st) < 2 ^ Suc s \<and> (0 < s \<longrightarrow> 2 ^ s \<le> unat (lz_control st)))"

lemma input_bounded_item:
  assumes "input_bounded st" "length (fst (lz_hist st)) < length (fst (lz_hist st'))"
    "lz_src st' + length (fst (lz_hist st)) \<le> lz_src st + length (fst (lz_hist st'))"
    "lz_control st' = drop_bit 1 (lz_control st)"
  shows "input_bounded st'"
proof -
  obtain s where s: "s \<le> 16" "16 * lz_src st \<le> 64 + 18 * length (fst (lz_hist st)) + 2 * s"
      "unat (lz_control st) < 2 ^ Suc s" "0 < s \<Longrightarrow> 2 ^ s \<le> unat (lz_control st)"
    using assms(1) by (auto simp: input_bounded_def)
  have c: "unat (lz_control st') = unat (lz_control st) div 2"
    by (simp add: assms(4) drop_bit_eq_div unat_div)
  have "16 * lz_src st' \<le> 64 + 18 * length (fst (lz_hist st')) + 2 * (s - 1)"
    using s(2) assms(2,3) by linarith
  moreover have "unat (lz_control st') < 2 ^ Suc (s - 1)" using s(3) c by (cases s) simp_all
  moreover have "0 < s - 1 \<Longrightarrow> 2 ^ (s - 1) \<le> unat (lz_control st')" using s(4) c by (cases s) simp_all
  ultimately show ?thesis using s(1) unfolding input_bounded_def by (intro exI [of _ "s - 1"]) simp
qed

lemma input_bounded_le: "input_bounded st \<Longrightarrow> lz_src st \<le> length (fst (lz_hist st)) + length (fst (lz_hist st)) div 8 + 6"
  unfolding input_bounded_def by (elim exE conjE) linarith

lemma control_word_bounds:
  fixes b0 b1 :: u8
  defines "c \<equiv> (0x10000 OR ucast b0) OR push_bit 8 (ucast b1) :: u32"
  shows "65536 \<le> unat c" "unat c < 131072"
proof -
  have b: "uint b0 < 256" "uint b1 < 256" using uint_lt2p [of b0] uint_lt2p [of b1] by simp_all
  have p: "uint (push_bit 8 (ucast b1) :: u32) = uint b1 * 256"
    using b by (simp only: unsigned_push_bit_eq unsigned_ucast_eq) (simp add: take_bit_int_eq_self push_bit_eq_mult)
  have c: "uint c = (0x10000 OR uint b0) OR (uint b1 * 256)"
    using b p by (simp add: c_def unsigned_or_eq unsigned_ucast_eq take_bit_int_eq_self)
  have "0x10000 OR uint b0 < 2 ^ 17" using b by (intro OR_upper) simp_all
  then have "uint c < 2 ^ 17" unfolding c using b by (intro OR_upper) simp_all
  then have "uint c < 131072" by simp
  moreover have "0x10000 \<le> uint c"
  proof -
    have "0x10000 \<le> 0x10000 OR uint b0" by (rule or_greater_eq) (rule uint_ge_0)
    also have "\<dots> \<le> (0x10000 OR uint b0) OR (uint b1 * 256)" by (rule or_greater_eq) simp
    finally show ?thesis unfolding c .
  qed
  ultimately show "65536 \<le> unat c" "unat c < 131072" unfolding uint_nat [of c] by linarith+
qed

lemma load_control_ok:
  assumes "input_bounded st" "length (fst (lz_hist st)) + length (fst (lz_hist st)) div 8 + 8 \<le> length src"
  obtains st' where "load_control src st = Some st'" "lz_hist st' = lz_hist st" "input_bounded st'"
proof (cases "lz_control st = 1")
  case False
  then show ?thesis using that [of st] assms(1) by (simp add: load_control_def)
next
  case True
  let ?b0 = "src ! lz_src st" and ?b1 = "src ! (lz_src st + 1)"
  let ?c = "(0x10000 OR ucast ?b0) OR push_bit 8 (ucast ?b1) :: u32"
  have b: "nth_byte src (lz_src st) = Some ?b0" "nth_byte src (lz_src st + 1) = Some ?b1"
    using input_bounded_le [OF assms(1)] assms(2) by (simp_all add: nth_byte_def)
  have "16 * lz_src st \<le> 64 + 18 * length (fst (lz_hist st))"
  proof -
    obtain s where s: "16 * lz_src st \<le> 64 + 18 * length (fst (lz_hist st)) + 2 * s" "0 < s \<Longrightarrow> 2 ^ s \<le> (1 :: nat)"
      using assms(1) True by (auto simp: input_bounded_def)
    moreover have "s = 0" using s(2) one_less_power [of "2 :: nat" s] by linarith
    ultimately show ?thesis by simp
  qed
  moreover have "2 ^ 16 \<le> unat ?c" "unat ?c < 2 ^ Suc 16" using control_word_bounds by simp_all
  ultimately have "input_bounded (st\<lparr>lz_control := ?c, lz_src := lz_src st + 2\<rparr>)"
    unfolding input_bounded_def by (intro exI [of _ 16]) simp
  then show ?thesis using that [of "st\<lparr>lz_control := ?c, lz_src := lz_src st + 2\<rparr>"] True b by (simp add: load_control_def)
qed

lemma decode_items_ok:
  assumes "hist_ok (lz_hist st)" "length (fst (lz_hist st)) \<le> dst_len" "input_bounded st" "dst_len + dst_len div 8 + 8 \<le> length src"
  shows "case decode_items src dst_len n st of None \<Rightarrow> False
    | Some (Inl dst) \<Rightarrow> True
    | Some (Inr st') \<Rightarrow> hist_ok (lz_hist st') \<and> length (fst (lz_hist st')) \<le> dst_len \<and> input_bounded st'"
  using assms
proof (induction n arbitrary: st)
  case (Suc n)
  have "length (fst (lz_hist st)) div 8 \<le> dst_len div 8" using Suc.prems(2) by (rule div_le_mono)
  then have "lz_src st + 2 \<le> length src" using Suc.prems(2,4) input_bounded_le [OF Suc.prems(3)] by linarith
  then obtain st1 where st1: "decode_item src st = Some st1" "hist_ok (lz_hist st1)" "input_bounded st1"
    using decode_item_ok [OF Suc.prems(1)] input_bounded_item [OF Suc.prems(3)] by metis
  with Suc show ?case by simp
qed simp

lemma decode_loop_total:
  assumes "hist_ok (lz_hist st)" "length (fst (lz_hist st)) \<le> dst_len" "input_bounded st" "dst_len + dst_len div 8 + 8 \<le> length src"
  shows "decode_loop src src_len dst_len st \<noteq> None"
  using assms
proof (induction src src_len dst_len st rule: decode_loop.induct)
  case (1 src src_len dst_len st)
  show ?case
  proof (cases "int (lz_src st) = src_len")
    case True
    then show ?thesis by (simp add: decode_loop.simps)
  next
    case False
    have "length (fst (lz_hist st)) div 8 \<le> dst_len div 8" using "1.prems"(2) by (rule div_le_mono)
    then have "length (fst (lz_hist st)) + length (fst (lz_hist st)) div 8 + 8 \<le> length src" using "1.prems"(2,4) by linarith
    then obtain st1 where l: "load_control src st = Some st1" "lz_hist st1 = lz_hist st" "input_bounded st1"
      by (rule load_control_ok [OF "1.prems"(3)])
    let ?n = "unroll_count src_len (lz_src st1)"
    note items = decode_items_ok [of st1, OF _ _ l(3) "1.prems"(4), where n = ?n, unfolded l(2), OF "1.prems"(1,2)]
    then obtain r where r: "decode_items src dst_len ?n st1 = Some r" by (cases "decode_items src dst_len ?n st1") simp_all
    show ?thesis
    proof (cases r)
      case (Inr st2)
      with items r "1.IH" [OF False l(1) r Inr _ _ _ "1.prems"(4)] show ?thesis
        using False l(1) by (subst decode_loop.simps) simp
    qed (use False l r in \<open>simp add: decode_loop.simps [of src src_len dst_len st]\<close>)
  qed
qed

text \<open>What is written, however much memory there is.\<close>

lemma decode_item_output:
  assumes "hist_ok (lz_hist st)" "decode_item src st = Some st'"
  shows "hist_ok (lz_hist st') \<and> length (fst (lz_hist st')) \<le> length (fst (lz_hist st)) + 18"
proof -
  have "decode_item (src @ [0, 0]) st = Some st'"
    using assms(2) by (auto simp: decode_item_def Let_def bind_eq_Some_conv nth_byte_def nth_append split: if_splits)
  moreover have "lz_src st + 2 \<le> length (src @ [0, 0])"
    using assms(2) by (auto simp: decode_item_def Let_def bind_eq_Some_conv nth_byte_def split: if_splits)
  ultimately show ?thesis by (elim decode_item_ok [OF assms(1)]) simp
qed

lemma decode_items_output:
  assumes "decode_items src dst_len n st = Some r" "hist_ok (lz_hist st)" "length (fst (lz_hist st)) \<le> dst_len"
  shows "case r of Inl dst \<Rightarrow> dst_len < length dst \<and> length dst \<le> dst_len + 18
    | Inr st' \<Rightarrow> hist_ok (lz_hist st') \<and> length (fst (lz_hist st')) \<le> dst_len"
  using assms
proof (induction n arbitrary: st)
  case (Suc n)
  obtain st1 where st1: "decode_item src st = Some st1" using Suc.prems(1) by (auto simp: bind_eq_Some_conv)
  from decode_item_output [OF Suc.prems(2) st1] Suc.prems Suc.IH [of st1] show ?case
    by (cases "length (fst (lz_hist st1)) > dst_len") (auto simp: st1)
qed auto

lemma decode_loop_output:
  assumes "decode_loop src src_len dst_len st = Some (dst, n)" "hist_ok (lz_hist st)" "length (fst (lz_hist st)) \<le> dst_len"
  shows "length dst \<le> dst_len + 18 \<and> n = (if length dst \<le> dst_len then length dst else 0)"
  using assms
proof (induction src src_len dst_len st rule: decode_loop.induct)
  case (1 src src_len dst_len st)
  show ?case
  proof (cases "int (lz_src st) = src_len")
    case True
    then show ?thesis using "1.prems" by (auto simp: decode_loop.simps [of src src_len dst_len st])
  next
    case False
    obtain st1 where l: "load_control src st = Some st1" "lz_hist st1 = lz_hist st"
      using "1.prems"(1) False
      by (auto simp: decode_loop.simps [of src src_len dst_len st] load_control_def bind_eq_Some_conv split: option.splits if_splits)
    let ?n = "unroll_count src_len (lz_src st1)"
    obtain r where r: "decode_items src dst_len ?n st1 = Some r"
      using "1.prems"(1) False l by (auto simp: decode_loop.simps [of src src_len dst_len st] split: option.splits)
    note items = decode_items_output [OF r, unfolded l(2), OF "1.prems"(2,3)]
    show ?thesis
    proof (cases r)
      case (Inl d)
      then show ?thesis using items r l False "1.prems"(1) by (auto simp: decode_loop.simps [of src src_len dst_len st])
    next
      case (Inr st2)
      then show ?thesis using items "1.IH" [OF False l(1) r Inr] "1.prems"(1) False l r
        by (simp add: decode_loop.simps [of src src_len dst_len st])
    qed
  qed
qed

text \<open>
  C20. On any data, however corrupt, the decompressor ends, and it writes no further than the format
  allows. Data marked as not compressed (a negative length) is copied whole, whatever the
  size of the destination: \<open>dst_len\<close> is not looked at. Other data give at most 18 bytes beyond \<open>dst_len\<close>, which is
  less than the \<open>CMPR_OVERRUN\<close> of 34 bytes its caller allocates, and every copy reads output that has been
  written or the start string; the length of the output is reported, or 0 when it exceeds \<open>dst_len\<close>. It reads
  no more than \<open>dst_len + dst_len div 8 + 8\<close> bytes of the source, so it returns whenever these are readable.
  The caller's buffer has \<open>dst_len + 34\<close>; a damaged block may make it read beyond that.
\<close>

theorem decompress_safe:
  "((if src_len < 0 then nat (- src_len) else dst_len + dst_len div 8 + 8) \<le> length mem
      \<longrightarrow> compress_decompress mem src_len dst_len \<noteq> None)
   \<and> (\<forall>dst n. compress_decompress mem src_len dst_len = Some (dst, n) \<longrightarrow>
        (if src_len < 0 then dst = take (nat (- src_len)) mem \<and> length dst = nat (- src_len) \<and> n = length dst
         else length dst \<le> dst_len + 18 \<and> n = (if length dst \<le> dst_len then length dst else 0)))"
proof -
  let ?st = "\<lparr>lz_src = 4, lz_hist = ([], \<lambda>_. Start_String, 0), lz_control = 1\<rparr>"
  have st: "hist_ok (lz_hist ?st)" "input_bounded ?st" "length (fst (lz_hist ?st)) \<le> dst_len"
    by (simp_all add: hist_ok_def input_bounded_def exI [of _ 0])
  have "(if src_len < 0 then nat (- src_len) else dst_len + dst_len div 8 + 8) \<le> length mem \<Longrightarrow> compress_decompress mem src_len dst_len \<noteq> None"
    using decode_loop_total [OF st(1,3,2)] by (auto simp: compress_decompress_def split: if_splits)
  then show ?thesis using decode_loop_output [OF _ st(1,3)] by (auto simp: compress_decompress_def split: if_splits)
qed

theorem decompress_safe_witness:
  "(\<exists>dst n. compress_decompress (replicate 4 0 @ [0x02, 0x00, 65, 0xF1] @ replicate 30 0x31) 8 20 = Some (dst, n) \<and> length dst \<le> 38)
   \<and> compress_decompress (replicate 40 7) (- 40) 20 = Some (replicate 40 7, 40)"
proof -
  let ?m = "replicate 4 0 @ [0x02, 0x00, 65, 0xF1] @ replicate 30 0x31 :: bytes"
  obtain dst n where r: "compress_decompress ?m 8 20 = Some (dst, n)"
    using decompress_safe [of 8 20 ?m] by auto
  moreover have "length dst \<le> 38" using decompress_safe [of 8 20 ?m] r by auto
  moreover obtain dst' n' where r': "compress_decompress (replicate 40 7) (- 40) 20 = Some (dst', n')"
    using decompress_safe [of "- 40" 20 "replicate 40 7"] by auto
  moreover have "dst' = replicate 40 7" "n' = 40" using decompress_safe [of "- 40" 20 "replicate 40 7"] r' by auto
  ultimately show ?thesis by blast
qed

section \<open>The compressed format\<close>

text \<open>
  The format of the comment in the source: groups of two control bytes and up to sixteen items. A
  literal item is its byte, a copy item two bytes with the length less three and a 12-bit index.
\<close>

datatype item = Literal u8 | Copy nat nat

fun is_copy :: "item \<Rightarrow> bool" where
  "is_copy (Literal b) = False"
| "is_copy (Copy len index) = True"

fun item_ok :: "item \<Rightarrow> bool" where
  "item_ok (Literal b) = True"
| "item_ok (Copy len index) = (3 \<le> len \<and> len \<le> 18 \<and> index < 4096)"

fun item_bytes :: "item \<Rightarrow> bytes" where
  "item_bytes (Literal b) = [b]"
| "item_bytes (Copy len index) = [word_of_nat (16 * (index div 256) + (len - 3)), word_of_nat (index mod 256)]"

definition control_byte :: "item list \<Rightarrow> u8" where
  "control_byte its = horner_sum of_bool 2 (map is_copy its)"

function encode :: "item list \<Rightarrow> bytes" where
  "encode its = (if its = [] then []
     else let g = take 16 its in
       control_byte (take 8 g) # control_byte (drop 8 g) # concat (map item_bytes g) @ encode (drop 16 its))"
  by pat_completeness auto
termination by (relation "measure length") auto

declare encode.simps [simp del]

text \<open>
  What a sequence of items stands for, after the definition of the format and its summary in the source,
  and apart from the decoder's table: a text is the text of the items when every literal is its byte at the position where its
  item begins, and every copy repeats the phrase its index names. The phrases are those at the starts of
  the items; the index names the latest phrase entered under it, or the string of digits.
\<close>

fun item_length :: "item \<Rightarrow> nat" where
  "item_length (Literal b) = 1"
| "item_length (Copy len index) = len"

definition text_length :: "item list \<Rightarrow> nat" where
  "text_length its = sum_list (map item_length its)"

text \<open>The items with the positions in the text at which they begin.\<close>

fun item_starts :: "nat \<Rightarrow> item list \<Rightarrow> (nat \<times> item) list" where
  "item_starts pos [] = []"
| "item_starts pos (it # its) = (pos, it) # item_starts (pos + item_length it) its"

text \<open>
  The phrase at the start of an item has an entry in the table: under its hash for a literal, under
  the index of the item for a copy. The hash takes three bytes, so they have to be known.
\<close>

definition phrase_hash :: "u8 \<Rightarrow> u8 \<Rightarrow> u8 \<Rightarrow> nat" where
  "phrase_hash a b c = 40543 * (256 * unat a XOR 16 * unat b XOR unat c) div 16 mod 4096"

fun phrase_index :: "bytes \<Rightarrow> nat \<times> item \<Rightarrow> nat" where
  "phrase_index text (q, Literal b) = phrase_hash (text ! q) (text ! (q + 1)) (text ! (q + 2))"
| "phrase_index text (q, Copy len index) = index"

fun phrase_known :: "nat \<Rightarrow> nat \<times> item \<Rightarrow> bool" where
  "phrase_known pos (q, Literal b) = (q + 3 \<le> pos)"
| "phrase_known pos (q, Copy len index) = (q < pos)"

definition phrase_start :: "bytes \<Rightarrow> item list \<Rightarrow> nat \<Rightarrow> nat \<Rightarrow> nat option" where
  "phrase_start text items pos index =
    (let entries = filter (\<lambda>s. phrase_known pos s \<and> phrase_index text s = index) (item_starts 0 items) in
     if entries = [] then None else Some (fst (last entries)))"

definition phrase_byte :: "bytes \<Rightarrow> nat option \<Rightarrow> nat \<Rightarrow> u8" where
  "phrase_byte text start i = (case start of None \<Rightarrow> word_of_nat (48 + Suc i mod 10) | Some q \<Rightarrow> text ! (q + i))"

definition stands_for :: "item list \<Rightarrow> bytes \<Rightarrow> bool" where
  "stands_for items text \<longleftrightarrow> length text = text_length items \<and>
    (\<forall>(pos, it) \<in> set (item_starts 0 items). case it of
       Literal b \<Rightarrow> text ! pos = b
     | Copy len index \<Rightarrow> (\<forall>i < len. text ! (pos + i) = phrase_byte text (phrase_start text items pos index) i))"

text \<open>The items one after the other, as the decoder handles them.\<close>

fun apply_item :: "item \<Rightarrow> lz_history \<Rightarrow> lz_history option" where
  "apply_item (Literal b) hist = literal_item b hist"
| "apply_item (Copy len index) hist = copy_item index len hist"

fun apply_items :: "item list \<Rightarrow> lz_history \<Rightarrow> lz_history option" where
  "apply_items [] hist = Some hist"
| "apply_items (it # its) hist = Option.bind (apply_item it hist) (apply_items its)"

lemma apply_items_append: "apply_items (xs @ ys) hist = Option.bind (apply_items xs hist) (apply_items ys)"
proof (induction xs arbitrary: hist)
  case (Cons x xs)
  then show ?case by (cases "apply_item x hist") simp_all
qed simp

text \<open>Reading an item back.\<close>

lemma copy_nibbles:
  assumes "a < 16" "l < 16"
  shows "(ucast (word_of_nat (16 * a + l) :: u8) AND 0xF0 :: u16) = word_of_nat (16 * a)"
    and "unat ((word_of_nat (16 * a + l) :: u8) AND 0xF) = l"
proof -
  have "list_all (\<lambda>a. list_all (\<lambda>l. (ucast (word_of_nat (16 * a + l) :: u8) AND 0xF0 :: u16) = word_of_nat (16 * a)
      \<and> unat ((word_of_nat (16 * a + l) :: u8) AND 0xF) = l) [0..<16]) [0..<16]" by code_simp
  with assms show "(ucast (word_of_nat (16 * a + l) :: u8) AND 0xF0 :: u16) = word_of_nat (16 * a)"
    "unat ((word_of_nat (16 * a + l) :: u8) AND 0xF) = l"
    by (simp_all add: list_all_iff)
qed

lemma copy_index:
  assumes "index < 4096" "3 \<le> len" "len \<le> 18"
  defines "c1 \<equiv> word_of_nat (16 * (index div 256) + (len - 3)) :: u8"
  shows "unat (push_bit 4 (ucast c1 AND 0xF0) OR ucast (word_of_nat (index mod 256) :: u8) :: u16) = index"
    and "unat (c1 AND 0xF) + 3 = len"
proof -
  let ?a = "index div 256" and ?b = "index mod 256"
  have a: "?a < 16" "len - 3 < 16" using assms by simp_all
  note n = copy_nibbles [OF a, folded c1_def]
  show "unat (c1 AND 0xF) + 3 = len" using n(2) assms by simp
  have "push_bit 4 (ucast c1 AND 0xF0) = (word_of_nat (256 * ?a) :: u16)"
    unfolding n(1) by (simp add: push_bit_eq_mult)
  moreover have "(ucast (word_of_nat ?b :: u8) :: u16) = word_of_nat ?b"
    by (simp add: word_unat_eq_iff unsigned_ucast_eq unat_of_nat take_bit_eq_mod)
  moreover have "(word_of_nat (256 * ?a) :: u16) OR word_of_nat ?b = word_of_nat (256 * ?a) + word_of_nat ?b"
  proof (rule disjunctive_add_eq_or [symmetric], rule bit_word_eqI)
    fix n
    have "(word_of_nat (256 * ?a) :: u16) = push_bit 8 (word_of_nat ?a)" by (simp add: push_bit_eq_mult)
    then have "bit (word_of_nat (256 * ?a) :: u16) n \<Longrightarrow> 8 \<le> n" by (simp only: bit_push_bit_iff)
    moreover have "bit (word_of_nat ?b :: u16) n \<Longrightarrow> n < 8"
      using bit_take_bit_iff [of 8 index n] by (simp add: take_bit_eq_mod bit_of_nat_iff)
    ultimately show "bit ((word_of_nat (256 * ?a) :: u16) AND word_of_nat ?b) n = bit 0 n"
      by (auto simp: bit_and_iff)
  qed
  ultimately have "(push_bit 4 (ucast c1 AND 0xF0) OR ucast (word_of_nat ?b :: u8) :: u16) = word_of_nat index"
    by (metis div_mult_mod_eq mult.commute of_nat_add)
  then show "unat (push_bit 4 (ucast c1 AND 0xF0) OR ucast (word_of_nat ?b :: u8) :: u16) = index"
    using assms(1) by (simp add: unat_of_nat)
qed

text \<open>
  The control register during a group: the flags of the remaining items, then the sentinel bit.
\<close>

definition control_for :: "nat \<Rightarrow> item list \<Rightarrow> u32 \<Rightarrow> bool" where
  "control_for s its c \<longleftrightarrow> s \<le> 16 \<and> length its \<le> s \<and> bit c s \<and> (\<forall>i > s. \<not> bit c i)
    \<and> (\<forall>i < s. bit c i \<longleftrightarrow> i < length its \<and> is_copy (its ! i))"

lemma control_for_0: "control_for 0 [] c \<longleftrightarrow> c = 1"
proof
  assume "control_for 0 [] c"
  then show "c = 1" by (intro bit_word_eqI) (auto simp: control_for_def bit_1_iff)
qed (simp add: control_for_def bit_1_iff)

lemma control_for_not_1: "control_for (Suc s) its c \<Longrightarrow> c \<noteq> 1"
  by (auto simp: control_for_def bit_1_iff)

lemma control_for_step:
  assumes "control_for (Suc s) (it # its) c"
  shows "c AND 1 \<noteq> 0 \<longleftrightarrow> is_copy it" "control_for s its (drop_bit 1 c)"
proof -
  have "bit c 0 \<longleftrightarrow> is_copy it" using assms by (force simp: control_for_def)
  then show "c AND 1 \<noteq> 0 \<longleftrightarrow> is_copy it" by (auto simp: and_one_eq bit_0 mod2_eq_if)
  show "control_for s its (drop_bit 1 c)" using assms by (auto simp: control_for_def bit_drop_bit_eq)
qed

lemma bit_control_byte: "length its \<le> 8 \<Longrightarrow> bit (control_byte its) i \<longleftrightarrow> i < length its \<and> is_copy (its ! i)"
  by (auto simp: control_byte_def bit_horner_sum_bit_word_iff)

lemma control_for_load:
  assumes "length g \<le> 16"
  shows "control_for 16 g ((0x10000 OR ucast (control_byte (take 8 g))) OR push_bit 8 (ucast (control_byte (drop 8 g))))"
    (is "control_for 16 g ?c")
proof -
  have sent: "bit (0x10000 :: int) i \<longleftrightarrow> i = 16" for i
  proof -
    have "bit (push_bit 16 (1 :: int)) i \<longleftrightarrow> i = 16" by (auto simp: bit_push_bit_iff bit_1_iff simp del: push_bit_of_1)
    moreover have "push_bit 16 1 = (0x10000 :: int)" by simp
    ultimately show ?thesis by (simp only:)
  qed
  have b: "bit ?c i \<longleftrightarrow> i = 16 \<or> i < 8 \<and> i < length g \<and> is_copy (g ! i)
      \<or> 8 \<le> i \<and> i < length g \<and> is_copy (g ! i)" for i
    using assms by (auto simp: bit_or_iff sent bit_ucast_iff bit_push_bit_iff bit_control_byte)
  then show ?thesis using assms by (auto simp: control_for_def)
qed

lemma nth_byte_drop: "drop p mem = b # bs \<Longrightarrow> nth_byte mem p = Some b \<and> drop (p + 1) mem = bs"
  by (metis Suc_eq_plus1 drop_Suc drop_eq_Nil2 leI list.distinct(1) list.sel(1,3) nth_byte_def hd_drop_conv_nth tl_drop)

text \<open>One item is decoded as the format says.\<close>

lemma decode_item_spec:
  assumes "drop (lz_src st) mem = item_bytes it @ tail" "control_for (Suc s) (it # its) (lz_control st)" "item_ok it"
    and "apply_item it (lz_hist st) = Some hist'"
  shows "decode_item mem st = Some (st\<lparr>lz_control := drop_bit 1 (lz_control st), lz_src := lz_src st + length (item_bytes it), lz_hist := hist'\<rparr>)"
    and "drop (lz_src st + length (item_bytes it)) mem = tail"
proof -
  note c = control_for_step(1) [OF assms(2)]
  show "drop (lz_src st + length (item_bytes it)) mem = tail" using arg_cong [OF assms(1), of "drop (length (item_bytes it))"] by (simp add: add.commute)
  show "decode_item mem st = Some (st\<lparr>lz_control := drop_bit 1 (lz_control st), lz_src := lz_src st + length (item_bytes it), lz_hist := hist'\<rparr>)"
  proof (cases it)
    case (Literal b)
    then show ?thesis using assms c nth_byte_drop [of "lz_src st" mem b tail] by (simp add: decode_item_def Let_def)
  next
    case (Copy len index)
    let ?c1 = "word_of_nat (16 * (index div 256) + (len - 3)) :: u8" and ?c2 = "word_of_nat (index mod 256) :: u8"
    have b: "nth_byte mem (lz_src st) = Some ?c1" "nth_byte mem (lz_src st + 1) = Some ?c2"
      using assms(1) Copy nth_byte_drop [of "lz_src st" mem ?c1 "?c2 # tail"] nth_byte_drop [of "lz_src st + 1" mem ?c2 tail] by simp_all
    have i: "unat (push_bit 4 (ucast ?c1 AND 0xF0) OR ucast ?c2 :: u16) = index" "unat (?c1 AND 0xF) + 3 = len"
      using copy_index [of index len] assms(3) Copy by simp_all
    have "lz_control st AND 1 \<noteq> 0" using c Copy by simp
    then show ?thesis
      using assms(4) Copy unfolding decode_item_def Let_def b option.case bind.bind_lunit i by simp
  qed
qed

lemma copy_bytes_length: "copy_bytes dst p i n = Some d \<Longrightarrow> length d = length dst + n"
  by (induction n arbitrary: dst i) (auto simp: bind_eq_Some_conv)

lemma apply_item_length: "apply_item it hist = Some hist' \<Longrightarrow> length (fst hist) \<le> length (fst hist')"
  by (cases it; cases hist)
    (auto simp: literal_item_def copy_item_def Let_def bind_eq_Some_conv dest: copy_bytes_length split: if_splits)

lemma apply_items_length: "apply_items its hist = Some hist' \<Longrightarrow> length (fst hist) \<le> length (fst hist')"
proof (induction its arbitrary: hist)
  case (Cons it its)
  then obtain h1 where "apply_item it hist = Some h1" "apply_items its h1 = Some hist'" by (auto simp: bind_eq_Some_conv)
  then show ?case using Cons.IH [of h1] apply_item_length [of it hist h1] by simp
qed simp

text \<open>A run of items of one group.\<close>

lemma decode_items_spec:
  assumes "drop (lz_src st) mem = concat (map item_bytes xs) @ tail" "control_for (length xs + s) (xs @ its) (lz_control st)"
    and "\<forall>it\<in>set xs. item_ok it" and "apply_items xs (lz_hist st) = Some hist'" "length (fst hist') \<le> dst_len"
  shows "\<exists>st'. decode_items mem dst_len (length xs) st = Some (Inr st') \<and> lz_src st' = lz_src st + length (concat (map item_bytes xs))
    \<and> lz_hist st' = hist' \<and> control_for s its (lz_control st') \<and> drop (lz_src st') mem = tail"
  using assms
proof (induction xs arbitrary: st)
  case (Cons x xs)
  obtain h1 where h1: "apply_item x (lz_hist st) = Some h1" "apply_items xs h1 = Some hist'"
    using Cons.prems(4) by (auto simp: bind_eq_Some_conv)
  have c: "control_for (Suc (length xs + s)) (x # (xs @ its)) (lz_control st)" using Cons.prems(2) by simp
  have d: "drop (lz_src st) mem = item_bytes x @ (concat (map item_bytes xs) @ tail)" using Cons.prems(1) by simp
  note it = decode_item_spec [OF d c _ h1(1)]
  let ?st1 = "st\<lparr>lz_control := drop_bit 1 (lz_control st), lz_src := lz_src st + length (item_bytes x), lz_hist := h1\<rparr>"
  have step: "decode_item mem st = Some ?st1" "drop (lz_src ?st1) mem = concat (map item_bytes xs) @ tail"
    using it Cons.prems(3) by simp_all
  have "length (fst h1) \<le> dst_len" using apply_items_length [OF h1(2)] Cons.prems(5) by simp
  with Cons.IH [of ?st1] step control_for_step(2) [OF c] Cons.prems(3,5) h1(2) show ?case by (auto simp: add.assoc)
qed simp

lemma item_bytes_le: "length (item_bytes it) \<le> 2"
  by (cases it) simp_all

lemma group_bytes_le: "length (concat (map item_bytes g)) \<le> 2 * length g"
  by (induction g) (auto intro: add_mono [OF item_bytes_le, simplified])

text \<open>
  The state within a group: \<open>its\<close> are the items left of it, \<open>nxt\<close> those of the following groups.
\<close>

definition in_group :: "bytes \<Rightarrow> int \<Rightarrow> nat \<Rightarrow> item list \<Rightarrow> item list \<Rightarrow> bytes \<Rightarrow> lz_state \<Rightarrow> bool" where
  "in_group mem src_len s its nxt rest st \<longleftrightarrow> (\<forall>it\<in>set (its @ nxt). item_ok it)
    \<and> drop (lz_src st) mem = concat (map item_bytes its) @ encode nxt @ rest
    \<and> src_len = int (lz_src st + length (concat (map item_bytes its) @ encode nxt))
    \<and> control_for s its (lz_control st) \<and> (nxt \<noteq> [] \<longrightarrow> length its = s)"

lemma encode_Nil_iff: "encode its = [] \<longleftrightarrow> its = []"
  by (subst encode.simps) (simp add: Let_def)

lemma item_bytes_ne: "item_bytes it \<noteq> []"
  by (cases it) simp_all

lemma in_group_running:
  assumes "in_group mem src_len s its nxt rest st" "its @ nxt \<noteq> []"
  shows "int (lz_src st) \<noteq> src_len"
proof -
  have "concat (map item_bytes its) @ encode nxt \<noteq> []"
    using assms(2) item_bytes_ne by (cases its) (auto simp: encode_Nil_iff)
  then have "0 < length (concat (map item_bytes its) @ encode nxt)" by (rule length_greater_0_conv [THEN iffD2])
  moreover have "src_len = int (lz_src st) + int (length (concat (map item_bytes its) @ encode nxt))"
    using assms(1) by (simp add: in_group_def)
  ultimately show ?thesis by linarith
qed

text \<open>At the end of a group the control word of the next one is loaded.\<close>

lemma load_control_group:
  assumes inv: "in_group mem src_len s [] nxt rest st" and ne: "nxt \<noteq> []"
  obtains st1 where "load_control mem st = Some st1" "lz_hist st1 = lz_hist st"
    "in_group mem src_len 16 (take 16 nxt) (drop 16 nxt) rest st1"
proof -
  let ?g = "take 16 nxt" and ?n = "drop 16 nxt"
  let ?b0 = "control_byte (take 8 ?g)" and ?b1 = "control_byte (drop 8 ?g)"
  have enc: "encode nxt = ?b0 # ?b1 # concat (map item_bytes ?g) @ encode ?n"
    using ne by (subst encode.simps) (simp add: Let_def)
  have ctl: "lz_control st = 1" using inv ne control_for_0 by (auto simp: in_group_def)
  have d: "drop (lz_src st) mem = ?b0 # ?b1 # concat (map item_bytes ?g) @ encode ?n @ rest"
    using inv enc by (simp add: in_group_def)
  note b = nth_byte_drop [OF d] nth_byte_drop [OF conjunct2 [OF nth_byte_drop [OF d]]]
  let ?st = "st\<lparr>lz_control := (0x10000 OR ucast ?b0) OR push_bit 8 (ucast ?b1), lz_src := lz_src st + 2\<rparr>"
  have "load_control mem st = Some ?st" using ctl b by (simp add: load_control_def)
  moreover have "in_group mem src_len 16 ?g ?n rest ?st"
    unfolding in_group_def
  proof (intro conjI)
    show "\<forall>it\<in>set (?g @ ?n). item_ok it" using inv by (simp only: append_take_drop_id) (simp add: in_group_def)
    show "drop (lz_src ?st) mem = concat (map item_bytes ?g) @ encode ?n @ rest" using b by simp
    show "src_len = int (lz_src ?st + length (concat (map item_bytes ?g) @ encode ?n))"
      using inv enc by (simp add: in_group_def)
    show "control_for 16 ?g (lz_control ?st)" using control_for_load [of ?g] by simp
  qed simp
  ultimately show ?thesis using that [of ?st] by simp
qed

text \<open>A pass never decodes more items than the group has, and all sixteen only in a full group.\<close>

lemma unroll_count_group:
  assumes inv: "in_group mem src_len s g nxt rest st" and "g \<noteq> []" "s = 16 \<or> src_len - 32 < int (lz_src st)"
  defines "n \<equiv> unroll_count src_len (lz_src st)"
  shows "0 < n" "n \<le> length g" "n < length g \<Longrightarrow> src_len - 32 < int (lz_src st)"
proof -
  have "n \<le> length g \<and> 0 < n \<and> (n < length g \<longrightarrow> src_len - 32 < int (lz_src st))"
  proof (cases "int (lz_src st) \<le> src_len - 32")
    case True
    have "length g = 16"
    proof (cases "nxt = []")
      case nil: True
      have "32 \<le> length (concat (map item_bytes g))"
        using True inv nil by (simp add: in_group_def encode_Nil_iff [THEN iffD2])
      with group_bytes_le [of g] have "16 \<le> length g" by simp
      with inv show ?thesis by (simp add: in_group_def control_for_def)
    qed (use True inv assms(3) in \<open>simp add: in_group_def\<close>)
    then show ?thesis using True by (simp add: n_def unroll_count_def)
  next
    case False
    then show ?thesis using assms(2) by (cases g) (simp_all add: n_def unroll_count_def)
  qed
  then show "0 < n" "n \<le> length g" "n < length g \<Longrightarrow> src_len - 32 < int (lz_src st)" by auto
qed

lemma decode_group_part:
  assumes inv: "in_group mem src_len s g nxt rest st" and n: "n \<le> length g"
    and h: "apply_items (g @ nxt) (lz_hist st) = Some hist'" "length (fst hist') \<le> dst_len"
  obtains st' where "decode_items mem dst_len n st = Some (Inr st')" "in_group mem src_len (s - n) (drop n g) nxt rest st'"
    "apply_items (drop n g @ nxt) (lz_hist st') = Some hist'" "lz_src st \<le> lz_src st'"
proof -
  let ?xs = "take n g" and ?ys = "drop n g"
  have "apply_items (?xs @ ?ys @ nxt) (lz_hist st) = Some hist'" using h(1) by (metis append.assoc append_take_drop_id)
  then obtain h1 where h1: "apply_items ?xs (lz_hist st) = Some h1" "apply_items (?ys @ nxt) h1 = Some hist'"
    unfolding apply_items_append [of ?xs "?ys @ nxt"] bind_eq_Some_conv by blast
  have len1: "length (fst h1) \<le> dst_len" using apply_items_length [OF h1(2)] h(2) by simp
  have cat: "concat (map item_bytes g) = concat (map item_bytes ?xs) @ concat (map item_bytes ?ys)"
    by (metis append_take_drop_id concat_append map_append)
  have lx: "length ?xs = n" "n \<le> s" using n inv by (simp_all add: in_group_def control_for_def)
  have d: "drop (lz_src st) mem = concat (map item_bytes ?xs) @ (concat (map item_bytes ?ys) @ encode nxt @ rest)"
    using inv unfolding in_group_def cat by simp
  have c: "control_for (length ?xs + (s - n)) (?xs @ ?ys) (lz_control st)"
    unfolding lx(1) append_take_drop_id using inv lx(2) by (simp add: in_group_def)
  have okx: "\<forall>it\<in>set ?xs. item_ok it" using inv by (auto simp: in_group_def dest: in_set_takeD)
  obtain st' where st': "decode_items mem dst_len n st = Some (Inr st')" "lz_src st' = lz_src st + length (concat (map item_bytes ?xs))"
      "lz_hist st' = h1" "control_for (s - n) ?ys (lz_control st')" "drop (lz_src st') mem = concat (map item_bytes ?ys) @ encode nxt @ rest"
    using decode_items_spec [OF d c okx h1(1) len1] unfolding lx(1) by blast
  have "in_group mem src_len (s - n) ?ys nxt rest st'"
    unfolding in_group_def
  proof (intro conjI)
    show "\<forall>it\<in>set (?ys @ nxt). item_ok it" using inv by (auto simp: in_group_def dest: in_set_dropD)
    show "src_len = int (lz_src st' + length (concat (map item_bytes ?ys) @ encode nxt))"
      using inv st'(2) unfolding in_group_def cat by simp
    show "nxt \<noteq> [] \<longrightarrow> length ?ys = s - n" using inv by (simp add: in_group_def)
  qed (fact st')+
  then show ?thesis using st' h1 by (intro that [of st']) simp_all
qed

text \<open>
  Between two passes of the outer loop, a group is under way only near the end of the block; before,
  whole groups are decoded.
\<close>

lemma decode_loop_spec:
  assumes "in_group mem src_len s its nxt rest st" "its = [] \<or> src_len - 32 < int (lz_src st)"
    and "apply_items (its @ nxt) (lz_hist st) = Some hist'" "length (fst hist') \<le> dst_len"
  shows "decode_loop mem src_len dst_len st = Some (fst hist', length (fst hist'))"
  using assms
proof (induction "length its + length nxt" arbitrary: s its nxt st rule: less_induct)
  case less
  note inv = less.prems(1)
  show ?case
  proof (cases "its @ nxt = []")
    case True
    then show ?thesis
      using inv less.prems(3) by (subst decode_loop.simps) (simp add: in_group_def encode_Nil_iff [THEN iffD2])
  next
    case False
    obtain st1 s1 g nxt1 where st1: "load_control mem st = Some st1" "lz_hist st1 = lz_hist st" "its @ nxt = g @ nxt1" "g \<noteq> []"
        "in_group mem src_len s1 g nxt1 rest st1" "s1 = 16 \<or> src_len - 32 < int (lz_src st1)"
    proof (cases "its = []")
      case True
      then show ?thesis
        using False inv load_control_group [of mem src_len s nxt rest st] that [of _ "take 16 nxt" "drop 16 nxt" 16] by fastforce
    next
      case its: False
      then obtain s' where "s = Suc s'" using inv by (cases s) (auto simp: in_group_def control_for_def)
      then have "lz_control st \<noteq> 1" using inv control_for_not_1 unfolding in_group_def by blast
      then have "load_control mem st = Some st" by (simp add: load_control_def)
      then show ?thesis using inv its less.prems(2) that [of st its nxt s] by simp
    qed
    let ?n = "unroll_count src_len (lz_src st1)"
    note n = unroll_count_group [OF st1(5,4,6)]
    have h: "apply_items (g @ nxt1) (lz_hist st1) = Some hist'" using less.prems(3) st1(2,3) by simp
    obtain st2 where st2: "decode_items mem dst_len ?n st1 = Some (Inr st2)" "in_group mem src_len (s1 - ?n) (drop ?n g) nxt1 rest st2"
        "apply_items (drop ?n g @ nxt1) (lz_hist st2) = Some hist'" "lz_src st1 \<le> lz_src st2"
      by (rule decode_group_part [OF st1(5) n(2) h less.prems(4)])
    have "length (drop ?n g) + length nxt1 < length its + length nxt"
      using arg_cong [OF st1(3), of length] n(1,2) by simp
    moreover have "drop ?n g = [] \<or> src_len - 32 < int (lz_src st2)"
      using n(3) st2(4) by (cases "?n < length g") simp_all
    ultimately have "decode_loop mem src_len dst_len st2 = Some (fst hist', length (fst hist'))"
      using less.hyps st2(2,3) less.prems(4) by blast
    then show ?thesis using in_group_running [OF inv False] st1(1) st2(1) by (subst decode_loop.simps) simp
  qed
qed

text \<open>
  The decoder's output, table and count of pending literals against the text: up to two literals at the
  end wait for the bytes of their hash, the phrases of all items before them are in the table.
\<close>

lemma text_length_simps [simp]:
  "text_length [] = 0" "text_length (it # its) = item_length it + text_length its"
  "text_length (xs @ ys) = text_length xs + text_length ys" "text_length (map Literal bs) = length bs"
  by (simp_all add: text_length_def comp_def sum_list_triv)

lemma item_starts_append: "item_starts pos (xs @ ys) = item_starts pos xs @ item_starts (pos + text_length xs) ys"
  by (induction xs arbitrary: pos) (simp_all add: add.assoc)

lemma item_starts_ge: "s \<in> set (item_starts pos its) \<Longrightarrow> pos \<le> fst s"
  by (induction its arbitrary: pos) (auto dest: add_leD1)

lemma and_mask12: "n AND 4095 = (n :: nat) mod 4096"
  using take_bit_eq_mask [of 12 n] by (simp add: take_bit_eq_mod mask_eq_exp_minus_1)

lemma hash_bytes_phrase: "hash_bytes a b c = phrase_hash a b c"
proof -
  let ?x = "256 * unat a XOR 16 * unat b XOR unat c"
  have ab: "unat a < 256" "unat b < 256" "unat c < 256" by (rule unsigned_less [where 'b = 8, simplified])+
  then have "take_bit 16 ?x = ?x" by (simp add: take_bit_xor take_bit_nat_eq_self)
  then have "?x < 2 ^ 16" by (simp only: take_bit_nat_eq_self_iff)
  then have x: "?x < 65536" by simp
  have p: "unat (push_bit 8 (ucast a) :: u32) = 256 * unat a" "unat (push_bit 4 (ucast b) :: u32) = 16 * unat b" "unat (ucast c :: u32) = unat c"
    using ab by (simp_all only: unsigned_push_bit_eq unsigned_ucast_eq) (simp_all add: take_bit_nat_eq_self push_bit_eq_mult)
  have "unat (40543 * (push_bit 8 (ucast a) XOR push_bit 4 (ucast b) XOR ucast c) :: u32) = 40543 * ?x"
    (is "unat (_ * ?w) = _")
  proof -
    have "unat ?w = ?x" using p by (simp only: unsigned_xor_eq)
    then have "unat (40543 * ?w) = 40543 * ?x mod 2 ^ 32" by (simp only: unat_word_ariths(2)) simp
    then show ?thesis using x by simp
  qed
  then show ?thesis unfolding hash_bytes_def phrase_hash_def
    by (simp add: unsigned_and_eq drop_bit_eq_div unat_div and_mask12)
qed

text \<open>The table after the phrases of \<open>zs\<close> have been entered.\<close>

definition table_of :: "bytes \<Rightarrow> item list \<Rightarrow> nat \<Rightarrow> hptr" where
  "table_of text zs index = (let entries = filter (\<lambda>s. phrase_index text s = index) (item_starts 0 zs) in
     if entries = [] then Start_String else Out (fst (last entries)))"

lemma table_of_Nil: "table_of text [] = (\<lambda>_. Start_String)"
  by (simp add: table_of_def fun_eq_iff)

lemma table_of_snoc: "table_of text (zs @ [it]) = (table_of text zs)(phrase_index text (text_length zs, it) := Out (text_length zs))"
  by (auto simp: table_of_def fun_eq_iff item_starts_append Let_def)

lemma phrase_start_table:
  assumes "\<forall>s\<in>set (item_starts 0 zs). phrase_known pos s" "\<forall>s\<in>set (item_starts (text_length zs) ys). \<not> phrase_known pos s"
  shows "table_of text zs index = (case phrase_start text (zs @ ys) pos index of None \<Rightarrow> Start_String | Some q \<Rightarrow> Out q)"
proof -
  have "filter (\<lambda>s. phrase_known pos s \<and> phrase_index text s = index) (item_starts 0 (zs @ ys)) = filter (\<lambda>s. phrase_index text s = index) (item_starts 0 zs)"
    using assms by (simp add: item_starts_append cong: filter_cong)
  then show ?thesis by (simp add: table_of_def phrase_start_def Let_def)
qed

definition history_of :: "bytes \<Rightarrow> item list \<Rightarrow> lz_history \<Rightarrow> bool" where
  "history_of text xs hist \<longleftrightarrow> (\<exists>zs bs. xs = zs @ map Literal bs \<and> length bs \<le> 2
     \<and> hist = (take (text_length xs) text, table_of text zs, length bs)
     \<and> (\<forall>s\<in>set (item_starts 0 zs). phrase_known (text_length xs) s))"

lemma phrase_known_mono: "phrase_known pos s \<Longrightarrow> pos \<le> pos' \<Longrightarrow> phrase_known pos' s"
  by (cases "(pos, s)" rule: phrase_known.cases) auto

lemma hash_at_text: "q + 3 \<le> n \<Longrightarrow> n \<le> length text \<Longrightarrow>
  hash_at (take n text) tab q = Some (tab(phrase_index text (q, Literal b) := Out q))"
  by (simp add: hash_at_def HASH_def nth_byte_def hash_bytes_phrase)

lemma start_string: "list_all (\<lambda>j. START_STRING_18 ! j = word_of_nat (48 + Suc j mod 10)) [0..<18]"
  by code_simp

lemma copy_bytes_text:
  assumes "\<forall>j < n. text ! (k + j) = phrase_byte text start (i + j)" "k + n \<le> length text" "i + n \<le> 18"
    "\<And>q. start = Some q \<Longrightarrow> q + i < k"
  shows "copy_bytes (take k text) (case start of None \<Rightarrow> Start_String | Some q \<Rightarrow> Out q) i n = Some (take (k + n) text)"
  using assms
proof (induction n arbitrary: k i)
  case (Suc n)
  have "text ! k = phrase_byte text start i" using Suc.prems(1) by force
  moreover have "\<forall>j < 18. START_STRING_18 ! j = word_of_nat (48 + Suc j mod 10)"
    using start_string by (simp add: list_all_iff)
  ultimately have "deref (take k text) (case start of None \<Rightarrow> Start_String | Some q \<Rightarrow> Out q) i = Some (text ! k)"
    using Suc.prems(2-4) by (auto simp: deref_def nth_byte_def phrase_byte_def START_STRING_18_def split: option.splits)
  moreover have "take k text @ [text ! k] = take (Suc k) text" using Suc.prems(2) by (simp add: take_Suc_conv_app_nth)
  moreover have "\<forall>j < n. text ! (Suc k + j) = phrase_byte text start (Suc i + j)" using Suc.prems(1) by (metis Suc_less_eq add_Suc add_Suc_right)
  ultimately show ?case using Suc.IH [of "Suc k" "Suc i"] Suc.prems by simp
qed simp


lemma literal_text:
  assumes "history_of text xs hist" "text ! text_length xs = b" "text_length xs < length text"
  obtains hist' where "literal_item b hist = Some hist'" "history_of text (xs @ [Literal b]) hist'"
proof -
  let ?p = "text_length xs"
  obtain zs bs where h: "xs = zs @ map Literal bs" "length bs \<le> 2" "hist = (take ?p text, table_of text zs, length bs)"
      "\<forall>s\<in>set (item_starts 0 zs). phrase_known ?p s" using assms(1) by (auto simp: history_of_def)
  have t: "take ?p text @ [b] = take (?p + 1) text" using assms(2,3) by (simp add: take_Suc_conv_app_nth)
  have k: "\<forall>s\<in>set (item_starts 0 zs). phrase_known (?p + 1) s" using h(4) phrase_known_mono [of ?p _ "?p + 1"] by auto
  show thesis
  proof (cases bs)
    case (Cons c cs)
    show thesis
    proof (cases "length bs = 2")
      case True
      have p: "text_length zs + 2 = ?p" using h(1) True by simp
      let ?zs = "zs @ [Literal c]"
      have "hash_at (take (?p + 1) text) (table_of text zs) (text_length zs) = Some (table_of text ?zs)"
        using p assms(3) by (subst hash_at_text [where b = c]) (simp_all add: table_of_snoc)
      then have "literal_item b hist = Some (take (?p + 1) text, table_of text ?zs, 2)"
        using True assms(3) p [symmetric] t by (simp add: literal_item_def h(3) Let_def)
      moreover have "history_of text (xs @ [Literal b]) (take (?p + 1) text, table_of text ?zs, 2)"
        unfolding history_of_def
      proof (intro exI [of _ ?zs] exI [of _ "cs @ [b]"] conjI)
        show "\<forall>s\<in>set (item_starts 0 ?zs). phrase_known (text_length (xs @ [Literal b])) s"
          using k p by (simp add: item_starts_append ball_Un)
      qed (use True Cons h(1) in simp_all)
      ultimately show thesis by (rule that)
    next
      case False
      have "literal_item b hist = Some (take (?p + 1) text, table_of text zs, length bs + 1)"
        using False h(2) by (simp add: literal_item_def h(3) t Let_def)
      moreover have "history_of text (xs @ [Literal b]) (take (?p + 1) text, table_of text zs, length bs + 1)"
        unfolding history_of_def using k False h(1,2) by (intro exI [of _ zs] exI [of _ "bs @ [b]"]) simp
      ultimately show thesis by (rule that)
    qed
  next
    case Nil
    have "literal_item b hist = Some (take (?p + 1) text, table_of text zs, 1)"
      using Nil by (simp add: literal_item_def h(3) t Let_def)
    moreover have "history_of text (xs @ [Literal b]) (take (?p + 1) text, table_of text zs, 1)"
      unfolding history_of_def using k Nil h(1,2) by (intro exI [of _ zs] exI [of _ "[b]"]) simp
    ultimately show thesis by (rule that)
  qed
qed

lemma phrase_known_less: "phrase_known pos s \<Longrightarrow> fst s < pos"
  by (cases "(pos, s)" rule: phrase_known.cases) auto

lemma literal_starts:
  assumes "s \<in> set (item_starts pos (map Literal bs))"
  obtains b where "s = (fst s, Literal b)"
  using assms by (induction bs arbitrary: pos) auto

lemma item_starts_less: "s \<in> set (item_starts pos (map Literal bs)) \<Longrightarrow> fst s < pos + length bs"
proof (induction bs arbitrary: pos)
  case (Cons b bs)
  then show ?case using Cons.IH [of "Suc pos"] by auto
qed simp

lemma pending_unknown:
  assumes "length bs \<le> 2" "s \<in> set (item_starts (text_length zs) (map Literal bs @ ys))"
  shows "\<not> phrase_known (text_length zs + length bs) s"
proof -
  consider "s \<in> set (item_starts (text_length zs) (map Literal bs))" | "s \<in> set (item_starts (text_length zs + length bs) ys)"
    using assms(2) by (auto simp: item_starts_append)
  then show ?thesis
  proof cases
    case 1
    then obtain b where "s = (fst s, Literal b)" by (rule literal_starts)
    then have "phrase_known pos s \<longleftrightarrow> fst s + 3 \<le> pos" for pos by (metis phrase_known.simps(1))
    then show ?thesis using item_starts_ge [OF 1] assms(1) by simp
  next
    case 2
    then show ?thesis using item_starts_ge [OF 2] phrase_known_less by fastforce
  qed
qed

lemma copy_text:
  assumes "history_of text xs hist" "3 \<le> len" "len \<le> 18" "text_length xs + len \<le> length text"
    and "\<forall>i < len. text ! (text_length xs + i) = phrase_byte text (phrase_start text (xs @ ys) (text_length xs) index) i"
  obtains hist' where "copy_item index len hist = Some hist'" "history_of text (xs @ [Copy len index]) hist'"
proof -
  let ?p = "text_length xs" and ?start = "phrase_start text (xs @ ys) (text_length xs) index"
  obtain zs bs where h: "xs = zs @ map Literal bs" "length bs \<le> 2" "hist = (take ?p text, table_of text zs, length bs)"
      "\<forall>s\<in>set (item_starts 0 zs). phrase_known ?p s" using assms(1) by (auto simp: history_of_def)
  have p: "?p = text_length zs + length bs" using h(1) by simp
  have tab: "table_of text zs index = (case ?start of None \<Rightarrow> Start_String | Some q \<Rightarrow> Out q)"
    using phrase_start_table [OF h(4), of "map Literal bs @ ys" "text" index] pending_unknown [OF h(2), where zs = zs and ys = ys] h(1) p by simp
  have start: "q + 0 < ?p" if "?start = Some q" for q
  proof -
    let ?es = "filter (\<lambda>s. phrase_known ?p s \<and> phrase_index text s = index) (item_starts 0 (xs @ ys))"
    have "?es \<noteq> []" "q = fst (last ?es)" using that by (simp_all add: phrase_start_def Let_def split: if_splits)
    then show ?thesis using last_in_set [of ?es] phrase_known_less [of ?p "last ?es"] by simp
  qed
  have copy: "copy_bytes (take ?p text) (table_of text zs index) 0 len = Some (take (?p + len) text)"
    unfolding tab using assms(3-5) start by (intro copy_bytes_text) simp_all
  define T where "T = table_of text (zs @ map Literal bs)"
  have r: "?p - length bs = text_length zs" "length (take ?p text) = ?p" using p assms(4) by simp_all
  have lits: "(if length bs > 0 then do {
       tab1 \<leftarrow> hash_at (take (?p + len) text) (table_of text zs) (?p - length bs);
       if length bs = 2 then hash_at (take (?p + len) text) tab1 (?p - length bs + 1) else Some tab1
     } else Some (table_of text zs)) = Some T"
  proof -
    have hash: "hash_at (take (?p + len) text) (table_of text ws) (text_length ws) = Some (table_of text (ws @ [Literal b]))"
      if "text_length ws < ?p" for ws b
      using that assms(2,4) by (subst hash_at_text [where b = b]) (simp_all add: table_of_snoc)
    consider "bs = []" | b where "bs = [b]" | b c where "bs = [b, c]" using h(2) by (cases bs rule: remdups_adj.cases) auto
    then show ?thesis
    proof cases
      case (3 b c)
      with hash [of zs b] hash [of "zs @ [Literal b]" c] p r show ?thesis by (simp add: T_def)
    qed (use hash [of zs] p r in \<open>simp_all add: T_def\<close>)
  qed
  have "copy_item index len hist = Some (take (?p + len) text, T(index := Out ?p), 0)"
    unfolding copy_item_def h(3) prod.case Let_def r(2) copy bind.bind_lunit lits by (rule refl)
  moreover have "T(index := Out ?p) = table_of text (xs @ [Copy len index])"
    unfolding h(1) T_def by (simp only: table_of_snoc) simp
  moreover have "\<forall>s\<in>set (item_starts 0 (xs @ [Copy len index])). phrase_known (?p + len) s"
  proof -
    have "phrase_known (?p + len) s" if s: "s \<in> set (item_starts (text_length zs) (map Literal bs))" for s
    proof -
      obtain b where "s = (fst s, Literal b)" using s by (rule literal_starts)
      moreover have "fst s < ?p" using item_starts_less [OF s] p by simp
      ultimately show ?thesis using assms(2) phrase_known.simps(1) [of "?p + len" "fst s" b] by simp
    qed
    moreover have "phrase_known (?p + len) s" if "s \<in> set (item_starts 0 zs)" for s
      using h(4) that phrase_known_mono [of ?p s "?p + len"] by simp
    ultimately show ?thesis using assms(2) h(1) by (auto simp: item_starts_append)
  qed
  ultimately have "history_of text (xs @ [Copy len index]) (take (?p + len) text, T(index := Out ?p), 0)"
    unfolding history_of_def by (intro exI [of _ "xs @ [Copy len index]"] exI [of _ "[]"]) simp
  with \<open>copy_item index len hist = _\<close> show thesis by (rule that)
qed

lemma apply_items_text:
  assumes "stands_for items text" "items = xs @ ys" "\<forall>it\<in>set ys. item_ok it" "history_of text xs hist"
  shows "\<exists>tab l. apply_items ys hist = Some (text, tab, l)"
  using assms(2-4)
proof (induction ys arbitrary: xs hist)
  case Nil
  then show ?case using assms(1) by (auto simp: history_of_def stands_for_def)
next
  case (Cons it ys)
  have mem: "(text_length xs, it) \<in> set (item_starts 0 items)" using Cons.prems(1) by (simp add: item_starts_append)
  have len: "text_length xs + item_length it \<le> length text" using assms(1) Cons.prems(1) by (simp add: stands_for_def)
  note item = assms(1) [unfolded stands_for_def, THEN conjunct2, THEN bspec, OF mem, simplified]
  have "\<exists>hist'. apply_item it hist = Some hist' \<and> history_of text (xs @ [it]) hist'"
  proof (cases it)
    case (Literal b)
    have "text ! text_length xs = b" "text_length xs < length text" using item len Literal by simp_all
    then show ?thesis unfolding Literal apply_item.simps by (rule literal_text [OF Cons.prems(3)]) blast
  next
    case (Copy n index)
    have "3 \<le> n" "n \<le> 18" "text_length xs + n \<le> length text"
      "\<forall>i < n. text ! (text_length xs + i) = phrase_byte text (phrase_start text (xs @ it # ys) (text_length xs) index) i"
      using item len Copy Cons.prems(1,2) by simp_all
    then show ?thesis unfolding Copy apply_item.simps by (rule copy_text [OF Cons.prems(3)]) blast
  qed
  then obtain hist' where "apply_item it hist = Some hist'" "history_of text (xs @ [it]) hist'" by blast
  with Cons.IH [of "xs @ [it]" hist'] Cons.prems(1,2) show ?case by simp
qed

text \<open>
  C10. The decompressor implements the compressed format: the bytes of any sequence of items, in groups
  of sixteen behind their control bytes and behind the four flag bytes, are decoded to the text
  these items stand for, with its length, whenever the text fits the output. So the decoder enters every phrase in
  its table when and where the format says, at the latest three bytes behind it. The way the loop is
  unrolled near the end of the block and the memory behind the block do not matter.
\<close>

theorem decompress_encode:
  assumes "\<forall>it\<in>set items. item_ok it" and "stands_for items text" and "length text \<le> dst_len" and "length flags = 4"
  shows "compress_decompress (flags @ encode items @ rest) (int (length (flags @ encode items))) dst_len = Some (text, length text)"
proof -
  let ?st = "\<lparr>lz_src = 4, lz_hist = ([], \<lambda>_. Start_String, 0), lz_control = 1\<rparr>"
  have "history_of text [] (lz_hist ?st)" by (auto simp: history_of_def table_of_Nil)
  then obtain tab l where h: "apply_items items (lz_hist ?st) = Some (text, tab, l)"
    using apply_items_text [OF assms(2), where xs = "[]" and ys = items] assms(1) by fastforce
  have "in_group (flags @ encode items @ rest) (int (length (flags @ encode items))) 0 [] items rest ?st"
    using assms(1,4) control_for_0 [of 1] by (simp add: in_group_def)
  from decode_loop_spec [OF this] show ?thesis using h assms(3) by (simp add: compress_decompress_def)
qed

text \<open>
  Two literals that wait for the first copy, a copy of the phrase of the second of them, and a copy of
  the phrase the first copy stands for.
\<close>

definition sample_items :: "item list" where
  "sample_items = [Literal 97, Literal 98, Copy 3 0, Copy 4 121, Literal 99, Copy 3 0]"

definition sample_text :: bytes where
  "sample_text = [97, 98, 49, 50, 51, 98, 49, 50, 51, 99, 49, 50, 51]"

lemma sample_stands: "stands_for sample_items sample_text"
proof -
  have hash: "phrase_hash 97 98 49 = 3028" "phrase_hash 98 49 50 = 121" "phrase_hash 99 49 50 = 2697"
    by (simp_all add: phrase_hash_def)
  have all: "(\<forall>i < n. P i) \<longleftrightarrow> list_all P [0..<n]" for n :: nat and P
    by (auto simp: list_all_iff)
  show ?thesis
    by (simp add: stands_for_def sample_items_def sample_text_def all phrase_start_def phrase_byte_def hash upt_rec)
qed

theorem decompress_encode_witness:
  "compress_decompress ([0, 0, 0, 0] @ encode sample_items) 15 20 = Some (sample_text, 13)"
proof -
  have ok: "\<forall>it\<in>set sample_items. item_ok it" by (simp add: sample_items_def)
  have len: "length ([0, 0, 0, 0 :: u8] @ encode sample_items) = 15" "length sample_text = 13"
    by (simp_all add: sample_items_def sample_text_def encode.simps)
  from decompress_encode [OF ok sample_stands, of 20 "[0, 0, 0, 0]" "[]"] len show ?thesis by simp
qed

text \<open>
  The end of the input is compared for equality only: when the last item of a damaged block is cut
  off, its second byte is read from behind the block, the position passes the end, and the decoder
  goes on with whatever follows. With nothing behind the block, that is an access outside the memory.
\<close>

theorem decompress_reads_past_block: "compress_decompress [0, 0, 0, 0, 1, 0, 0x25] 7 100 = None"
  by (simp add: compress_decompress_def decode_loop.simps load_control_def nth_byte_def unroll_count_def decode_item_def Let_def)

end
