(* ===== verification/Zft_Info.thy ===== *)
theory Zft_Info
  imports Ft_Info
begin

text \<open>
  The state of the high-level driver: the entries of the volume table (\<open>zft_volinfo\<close> of
  \<open>src/ftape/zftape/zftape-vtbl.h\<close>), a position on tape, and \<open>zftape_info_t\<close> of
  \<open>src/ftape/zftape/zftape-ctl.h\<close> with the fields the modelled components use.

  The volume table is a doubly linked list between two dummy entries, the head and the end of
  medium. Here these are the fields \<open>vtbl_head\<close>, \<open>vtbl_vols\<close> and \<open>vtbl_eom\<close>; a pointer to a volume,
  as \<open>cur_vtbl\<close>, is a reference to one of them or to one of the two entries that stand for the whole
  tape when there is no volume table. \<open>deblock_buf\<close> is the contents of the deblock buffer, \<open>None\<close> for a null
  pointer, \<open>hard_errors\<close> the list of the sectors that hard write errors pushed out of their segments. \<open>eof_map\<close> is an offset into the header segment \<open>hseg_buf\<close>.
\<close>

record zft_volinfo =
  v_count :: int
  v_start_seg :: int
  v_end_seg :: int
  v_size :: int
  v_rawsize :: int
  v_blk_sz :: int
  v_version :: int
  v_offset :: int
  v_zft_volume :: bool
  v_use_compression :: bool
  v_qic113 :: bool
  v_new_volume :: bool
  v_open :: bool

text \<open>\<open>ftape_kmalloc\<close> clears the memory of a new entry.\<close>

definition blank_vol :: zft_volinfo where
  "blank_vol = \<lparr>v_count = 0, v_start_seg = 0, v_end_seg = 0, v_size = 0, v_rawsize = 0, v_blk_sz = 0, v_version = 0,
     v_offset = 0, v_zft_volume = False, v_use_compression = False, v_qic113 = False, v_new_volume = False, v_open = False\<rparr>"

datatype vtbl_ref = Head_Vtbl | Vol nat | Eom_Vtbl | Tape_Vtbl | Eot_Vtbl

datatype zft_status_enum = zft_idle | zft_reading | zft_writing

record zft_position =
  seg_pos :: int
  seg_byte_pos :: int
  tape_pos :: int
  volume_pos :: int

record zftape_info =
  z_ftape :: ftape_info
  qic_mode :: bool
  raw_image :: bool
  old_ftape :: bool
  exvt_extension :: bool
  vtbl_broken :: bool
  write_protected :: bool
  header_read :: bool
  vtbl_read :: bool
  volume_table_changed :: bool
  header_changed :: bool
  label_changed :: bool
  just_before_eof :: bool
  z_qic113 :: bool
  z_use_compression :: bool
  resid :: int
  vtbl_head :: zft_volinfo
  vtbl_vols :: "zft_volinfo list"
  vtbl_eom :: zft_volinfo
  tape_vtbl :: zft_volinfo
  eot_vtbl :: zft_volinfo
  cur_vtbl :: vtbl_ref
  vtbl_size :: int
  z_pos :: zft_position
  z_blk_sz :: int
  capacity :: int
  z_seg_pos :: int
  z_tape_pos :: int
  deblock_segment :: int
  nr_eof_marks :: int
  eof_map :: "nat option"
  ftape_fmt_version :: int
  buf_len_rd :: int
  vtbl_buf :: bytes
  io_state :: zft_status_enum
  offline :: bool
  eod :: int
  z_remaining :: int
  z_volume :: vtbl_ref
  z_seg_sz :: int
  deblock_buf :: "bytes option"
  need_flush :: bool
  last_write_failed :: bool
  hard_errors :: "bytes list"
  hard_error_cnt :: int
  written_segments :: int
  going_offline :: bool
  force_lock :: bool

end
