(* ===== verification/Zft_Pos.thy ===== *)
theory Zft_Pos
  imports Zft_Info Ft_Bsm
begin

text \<open>
  Positions on tape, from \<open>src/ftape/zftape/zftape-rw.c\<close>: the size of a segment, the byte position of a
  segment with the cache that the driver keeps of the last computation, and the segment and offset
  of a byte position. A look-up in the bad sector map moves that map's own cache, so that each of
  these functions returns the driver's state; \<open>None\<close> stands for a broken bad sector map.
\<close>

section \<open>Sizes and positions\<close>

definition zft_get_seg_data_sz :: "zftape_info \<Rightarrow> int \<Rightarrow> (zftape_info \<times> int) option" where
  "zft_get_seg_data_sz z segment = do {
     (ft', bad) \<leftarrow> ftape_get_bad_sector_entry (z_ftape z) segment;
     let size = int FT_SEGMENT_SIZE - int (count_ones bad) * int FT_SECTOR_SIZE;
     Some (z\<lparr>z_ftape := ft'\<rparr>, if size > 0 then size else 0)
   }"

definition zft_get_seg_sz :: "zftape_info \<Rightarrow> int \<Rightarrow> (zftape_info \<times> int) option" where
  "zft_get_seg_sz z segment = do {
     (z', size) \<leftarrow> zft_get_seg_data_sz z segment;
     Some (z', if size > 0 \<and> raw_image z' then size + int FT_ECC_SECTORS * int FT_SECTOR_SIZE else size)
   }"

definition zft_first_segment :: "zftape_info \<Rightarrow> int" where
  "zft_first_segment z = (if raw_image z then 0 else first_data_segment (z_ftape z))"

text \<open>A look-up changes the cache of the bad sector map only.\<close>

lemma get_bad_sector_entry_frame:
  assumes "ftape_get_bad_sector_entry ft s = Some (ft', bad)"
  shows "first_data_segment ft' = first_data_segment ft" "last_data_segment ft' = last_data_segment ft" "format_code ft' = format_code ft"
  using assms by (auto simp: ftape_get_bad_sector_entry_def bind_eq_Some_conv split: if_splits option.splits)

lemma get_seg_sz_frame:
  assumes "zft_get_seg_sz z s = Some (z', sz)"
  shows "\<exists>ft'. z' = z\<lparr>z_ftape := ft'\<rparr> \<and> first_data_segment ft' = first_data_segment (z_ftape z)
    \<and> last_data_segment ft' = last_data_segment (z_ftape z) \<and> format_code ft' = format_code (z_ftape z)"
  using assms get_bad_sector_entry_frame
  by (fastforce simp: zft_get_seg_sz_def zft_get_seg_data_sz_def Let_def bind_eq_Some_conv)

text \<open>The loops move the cached position forwards and backwards.\<close>

function advance_to :: "int \<Rightarrow> zftape_info \<Rightarrow> zftape_info option" where
  "advance_to segment z =
    (if z_seg_pos z < segment then
       (case zft_get_seg_sz z (z_seg_pos z) of
          None \<Rightarrow> None
        | Some (z', sz) \<Rightarrow> advance_to segment (z'\<lparr>z_tape_pos := z_tape_pos z' + sz, z_seg_pos := z_seg_pos z + 1\<rparr>))
     else Some z)"
  by pat_completeness auto
termination by (relation "measure (\<lambda>(s, z). nat (s - z_seg_pos z))") auto

function retreat_to :: "int \<Rightarrow> zftape_info \<Rightarrow> zftape_info option" where
  "retreat_to segment z =
    (if z_seg_pos z > segment then
       (case zft_get_seg_sz z (z_seg_pos z - 1) of
          None \<Rightarrow> None
        | Some (z', sz) \<Rightarrow> retreat_to segment (z'\<lparr>z_tape_pos := z_tape_pos z' - sz, z_seg_pos := z_seg_pos z - 1\<rparr>))
     else Some z)"
  by pat_completeness auto
termination by (relation "measure (\<lambda>(s, z). nat (z_seg_pos z - s))") auto

declare advance_to.simps [simp del] retreat_to.simps [simp del]

definition zft_get_capacity :: "zftape_info \<Rightarrow> (zftape_info \<times> int) option" where
  "zft_get_capacity z = do {
     z' \<leftarrow> advance_to (last_data_segment (z_ftape z) + 1) (z\<lparr>z_seg_pos := zft_first_segment z, z_tape_pos := 0\<rparr>);
     Some (z', z_tape_pos z')
   }"

text \<open>\<open>d1\<close>, \<open>d2\<close> and \<open>d3\<close> are the distances from the first segment, from the cached one and to the end.\<close>

definition zft_calc_tape_pos :: "zftape_info \<Rightarrow> int \<Rightarrow> (zftape_info \<times> int) option" where
  "zft_calc_tape_pos z segment =
    (if segment > last_data_segment (z_ftape z) then Some (z, capacity z)
     else if segment < zft_first_segment z then Some (z, 0)
     else do {
       let d2 = segment - z_seg_pos z;
       let d1 = segment - zft_first_segment z;
       let back = (- d2 > 10 \<and> - d2 > d1);
       let z1 = (if back then z\<lparr>z_tape_pos := 0, z_seg_pos := zft_first_segment z\<rparr> else z);
       let d2' = (if back then d1 else d2);
       let d3 = last_data_segment (z_ftape z) - segment;
       let from_end = (d2' > 10 \<and> d2' > d3);
       let z2 = (if from_end then z1\<lparr>z_tape_pos := capacity z1, z_seg_pos := last_data_segment (z_ftape z) + 1\<rparr> else z1);
       let d2'' = (if from_end then - d3 else d2');
       z3 \<leftarrow> (if d2'' > 0 then advance_to segment z2 else retreat_to segment z2);
       Some (z3, z_tape_pos z3)
     })"

text \<open>
  \<open>zft_calc_seg_byte_coord\<close>: the loop subtracts the sizes of the segments in front of the position.
\<close>

function coord_loop :: "zftape_info \<Rightarrow> int \<Rightarrow> int \<Rightarrow> int \<Rightarrow> (zftape_info \<times> int \<times> int \<times> int) option" where
  "coord_loop z segment seg_sz pos =
    (if pos > 0 \<and> segment \<le> last_data_segment (z_ftape z) then
       (case zft_get_seg_sz z segment of
          None \<Rightarrow> None
        | Some (z', sz) \<Rightarrow> coord_loop z' (segment + 1) sz (pos - sz))
     else Some (z, segment, seg_sz, pos))"
  by pat_completeness auto
termination
  by (relation "measure (\<lambda>(z, s, sz, p). nat (last_data_segment (z_ftape z) + 1 - s))") (auto dest: get_seg_sz_frame)

declare coord_loop.simps [simp del]

definition zft_calc_seg_byte_coord :: "zftape_info \<Rightarrow> int \<Rightarrow> (zftape_info \<times> int \<times> int) option" where
  "zft_calc_seg_byte_coord z pos =
    (if pos = 0 then Some (z, zft_first_segment z, 0)
     else do {
       (z', segment, seg_sz, rest) \<leftarrow> coord_loop z (zft_first_segment z) 0 pos;
       Some (if rest \<ge> 0 then (z', segment, 0) else (z', segment - 1, rest + seg_sz))
     })"

section \<open>The byte position of a segment\<close>

text \<open>What the positions add up: the size of a segment with the bad sectors \<open>M s\<close>.\<close>

definition seg_size :: "(nat \<Rightarrow> u32) \<Rightarrow> bool \<Rightarrow> int \<Rightarrow> int" where
  "seg_size M raw s =
    (let d = int FT_SEGMENT_SIZE - int (count_ones (M (nat s))) * int FT_SECTOR_SIZE
     in if d \<le> 0 then 0 else if raw then d + int FT_ECC_SECTORS * int FT_SECTOR_SIZE else d)"

definition seg_position :: "(nat \<Rightarrow> u32) \<Rightarrow> bool \<Rightarrow> int \<Rightarrow> int \<Rightarrow> int" where
  "seg_position M raw first s = (\<Sum>i\<in>{first..<s}. seg_size M raw i)"

lemma seg_size_nonneg [simp]: "0 \<le> seg_size M raw s"
  by (simp add: seg_size_def Let_def)

lemma seg_position_first [simp]: "seg_position M raw first first = 0"
  by (simp add: seg_position_def)

lemma seg_position_step: "first \<le> s \<Longrightarrow> seg_position M raw first (s + 1) = seg_position M raw first s + seg_size M raw s"
proof -
  assume "first \<le> s"
  then have "{first..<s + 1} = insert s {first..<s}" by auto
  then show ?thesis by (simp add: seg_position_def)
qed

lemma seg_position_mono: "s \<le> t \<Longrightarrow> seg_position M raw first s \<le> seg_position M raw first t"
  unfolding seg_position_def by (intro sum_mono2) auto

text \<open>
  The bad sectors are known for every segment up to the last data segment; the cache of the driver is a
  segment and its byte position.
\<close>

definition sizes_known :: "(ftape_info \<Rightarrow> (nat \<Rightarrow> u32) \<Rightarrow> bool) \<Rightarrow> nat \<Rightarrow> zftape_info \<Rightarrow> (nat \<Rightarrow> u32) \<Rightarrow> bool" where
  "sizes_known rep nsegs z M \<longleftrightarrow> rep (z_ftape z) M \<and> 0 \<le> first_data_segment (z_ftape z)
    \<and> last_data_segment (z_ftape z) < int nsegs"

definition pos_ok :: "(ftape_info \<Rightarrow> (nat \<Rightarrow> u32) \<Rightarrow> bool) \<Rightarrow> nat \<Rightarrow> zftape_info \<Rightarrow> (nat \<Rightarrow> u32) \<Rightarrow> bool" where
  "pos_ok rep nsegs z M \<longleftrightarrow> sizes_known rep nsegs z M \<and> zft_first_segment z \<le> z_seg_pos z \<and> z_seg_pos z \<le> last_data_segment (z_ftape z) + 1
    \<and> z_tape_pos z = seg_position M (raw_image z) (zft_first_segment z) (z_seg_pos z)"

definition same_tape :: "zftape_info \<Rightarrow> zftape_info \<Rightarrow> bool" where
  "same_tape z z' \<longleftrightarrow> z' = z\<lparr>z_ftape := z_ftape z', z_seg_pos := z_seg_pos z', z_tape_pos := z_tape_pos z'\<rparr>
    \<and> first_data_segment (z_ftape z') = first_data_segment (z_ftape z)
    \<and> last_data_segment (z_ftape z') = last_data_segment (z_ftape z) \<and> format_code (z_ftape z') = format_code (z_ftape z)"

lemma same_tape_refl: "same_tape z z"
  by (simp add: same_tape_def)

lemma same_tape_trans: "same_tape x y \<Longrightarrow> same_tape y z \<Longrightarrow> same_tape x z"
  by (cases x; cases y; cases z) (simp add: same_tape_def)

lemma same_tape_frame:
  assumes "same_tape z z'"
  shows "zft_first_segment z' = zft_first_segment z" "raw_image z' = raw_image z"
    "last_data_segment (z_ftape z') = last_data_segment (z_ftape z)"
  using assms by (cases z; cases z'; simp add: same_tape_def zft_first_segment_def)+

text \<open>
  The functions above rely on the bad sector map only through the law of its look-up: it returns the
  entry of an abstract map and keeps representing that map. The locale extends the interface of the
  bad sector map; it is interpreted below on both formats.
\<close>

locale segment_positions = bad_sector_store rep ftape_get_bad_sector_entry put nsegs fits
  for rep :: "ftape_info \<Rightarrow> (nat \<Rightarrow> u32) \<Rightarrow> bool" and put nsegs fits
begin

lemma first_nonneg: "sizes_known rep nsegs z M \<Longrightarrow> 0 \<le> zft_first_segment z"
  by (simp add: sizes_known_def zft_first_segment_def)

lemma get_seg_sz:
  assumes "sizes_known rep nsegs z M" "0 \<le> s" "s \<le> last_data_segment (z_ftape z)"
  obtains ft' where "zft_get_seg_sz z s = Some (z\<lparr>z_ftape := ft'\<rparr>, seg_size M (raw_image z) s)"
    "sizes_known rep nsegs (z\<lparr>z_ftape := ft'\<rparr>) M" "first_data_segment ft' = first_data_segment (z_ftape z)"
    "last_data_segment ft' = last_data_segment (z_ftape z)" "format_code ft' = format_code (z_ftape z)"
proof -
  have r: "rep (z_ftape z) M" "nat s < nsegs" using assms by (auto simp: sizes_known_def)
  then obtain ft' where ft': "ftape_get_bad_sector_entry (z_ftape z) s = Some (ft', M (nat s))" "rep ft' M"
    using get_law [of "z_ftape z" M "nat s"] assms(2) by auto
  have sz: "zft_get_seg_sz z s = Some (z\<lparr>z_ftape := ft'\<rparr>, seg_size M (raw_image z) s)"
    using ft'(1) by (simp add: zft_get_seg_sz_def zft_get_seg_data_sz_def seg_size_def Let_def)
  have "first_data_segment ft' = first_data_segment (z_ftape z)" "last_data_segment ft' = last_data_segment (z_ftape z)"
    "format_code ft' = format_code (z_ftape z)"
    using get_bad_sector_entry_frame [OF ft'(1)] by simp_all
  with sz ft'(2) assms(1) show ?thesis by (intro that [of ft']) (simp_all add: sizes_known_def)
qed

lemma advance_to_ok:
  assumes "pos_ok rep nsegs z M" "z_seg_pos z \<le> seg" "seg \<le> last_data_segment (z_ftape z) + 1"
  shows "\<exists>z'. advance_to seg z = Some z' \<and> pos_ok rep nsegs z' M \<and> z_seg_pos z' = seg \<and> same_tape z z'"
  using assms
proof (induction seg z rule: advance_to.induct)
  case (1 seg z)
  show ?case
  proof (cases "z_seg_pos z < seg")
    case True
    have sk: "sizes_known rep nsegs z M" "zft_first_segment z \<le> z_seg_pos z" using "1.prems"(1) by (auto simp: pos_ok_def)
    have "0 \<le> z_seg_pos z" "z_seg_pos z \<le> last_data_segment (z_ftape z)"
      using first_nonneg [OF sk(1)] sk(2) True "1.prems"(3) by linarith+
    then obtain ft' where g: "zft_get_seg_sz z (z_seg_pos z) = Some (z\<lparr>z_ftape := ft'\<rparr>, seg_size M (raw_image z) (z_seg_pos z))"
        "sizes_known rep nsegs (z\<lparr>z_ftape := ft'\<rparr>) M" "first_data_segment ft' = first_data_segment (z_ftape z)"
        "last_data_segment ft' = last_data_segment (z_ftape z)" "format_code ft' = format_code (z_ftape z)"
      by (rule get_seg_sz [OF sk(1)])
    let ?z = "z\<lparr>z_ftape := ft', z_tape_pos := z_tape_pos z + seg_size M (raw_image z) (z_seg_pos z), z_seg_pos := z_seg_pos z + 1\<rparr>"
    have f: "zft_first_segment ?z = zft_first_segment z" using g(3) by (simp add: zft_first_segment_def)
    then have "pos_ok rep nsegs ?z M"
      using "1.prems" g True sk seg_position_step [OF sk(2), of M "raw_image z"]
      by (simp add: pos_ok_def sizes_known_def)
    with 1 True g obtain z' where "advance_to seg ?z = Some z'" "pos_ok rep nsegs z' M" "z_seg_pos z' = seg" "same_tape ?z z'"
      by fastforce
    moreover have "same_tape z ?z" using g by (simp add: same_tape_def)
    ultimately show ?thesis using True g same_tape_trans by (subst advance_to.simps) auto
  next
    case False
    then show ?thesis using "1.prems" same_tape_refl by (subst advance_to.simps) simp
  qed
qed

lemma retreat_to_ok:
  assumes "pos_ok rep nsegs z M" "seg \<le> z_seg_pos z" "zft_first_segment z \<le> seg"
  shows "\<exists>z'. retreat_to seg z = Some z' \<and> pos_ok rep nsegs z' M \<and> z_seg_pos z' = seg \<and> same_tape z z'"
  using assms
proof (induction seg z rule: retreat_to.induct)
  case (1 seg z)
  show ?case
  proof (cases "z_seg_pos z > seg")
    case True
    let ?s = "z_seg_pos z - 1"
    have sk: "sizes_known rep nsegs z M" "z_seg_pos z \<le> last_data_segment (z_ftape z) + 1" "zft_first_segment z \<le> ?s"
      using "1.prems" True by (auto simp: pos_ok_def)
    have "0 \<le> ?s" "?s \<le> last_data_segment (z_ftape z)" using first_nonneg [OF sk(1)] sk by linarith+
    then obtain ft' where g: "zft_get_seg_sz z ?s = Some (z\<lparr>z_ftape := ft'\<rparr>, seg_size M (raw_image z) ?s)"
        "sizes_known rep nsegs (z\<lparr>z_ftape := ft'\<rparr>) M" "first_data_segment ft' = first_data_segment (z_ftape z)"
        "last_data_segment ft' = last_data_segment (z_ftape z)" "format_code ft' = format_code (z_ftape z)"
      by (rule get_seg_sz [OF sk(1)])
    let ?z = "z\<lparr>z_ftape := ft', z_tape_pos := z_tape_pos z - seg_size M (raw_image z) ?s, z_seg_pos := ?s\<rparr>"
    have f: "zft_first_segment ?z = zft_first_segment z" using g(3) by (simp add: zft_first_segment_def)
    then have "pos_ok rep nsegs ?z M"
      using "1.prems" g True sk seg_position_step [OF sk(3), of M "raw_image z"]
      by (simp add: pos_ok_def sizes_known_def)
    moreover have "zft_first_segment ?z \<le> seg" using "1.prems"(3) f by simp
    ultimately obtain z' where "retreat_to seg ?z = Some z'" "pos_ok rep nsegs z' M" "z_seg_pos z' = seg" "same_tape ?z z'"
      using 1 True g by fastforce
    moreover have "same_tape z ?z" using g by (simp add: same_tape_def)
    ultimately show ?thesis using True g same_tape_trans by (subst retreat_to.simps) auto
  next
    case False
    then show ?thesis using "1.prems" same_tape_refl by (subst retreat_to.simps) simp
  qed
qed


lemma pos_ok_first: "sizes_known rep nsegs z M \<Longrightarrow> zft_first_segment z \<le> last_data_segment (z_ftape z) + 1 \<Longrightarrow>
    pos_ok rep nsegs (z\<lparr>z_tape_pos := 0, z_seg_pos := zft_first_segment z\<rparr>) M"
  by (simp add: pos_ok_def sizes_known_def zft_first_segment_def)

lemma get_capacity_ok:
  assumes "sizes_known rep nsegs z M" "zft_first_segment z \<le> last_data_segment (z_ftape z) + 1"
  shows "\<exists>z'. zft_get_capacity z = Some (z', seg_position M (raw_image z) (zft_first_segment z) (last_data_segment (z_ftape z) + 1))
    \<and> pos_ok rep nsegs z' M \<and> same_tape z z'"
proof -
  let ?z = "z\<lparr>z_seg_pos := zft_first_segment z, z_tape_pos := 0\<rparr>"
  have "pos_ok rep nsegs ?z M" using pos_ok_first [OF assms] by (simp add: pos_ok_def sizes_known_def zft_first_segment_def)
  from advance_to_ok [OF this, of "last_data_segment (z_ftape z) + 1"] assms(2) obtain z' where
    z': "advance_to (last_data_segment (z_ftape z) + 1) ?z = Some z'" "pos_ok rep nsegs z' M"
      "z_seg_pos z' = last_data_segment (z_ftape z) + 1" "same_tape ?z z'" by auto
  moreover have "same_tape z z'" using z'(4) by (cases z; cases z') (simp add: same_tape_def)
  moreover from this z' have "z_tape_pos z' = seg_position M (raw_image z) (zft_first_segment z) (last_data_segment (z_ftape z) + 1)"
    using same_tape_frame by (simp add: pos_ok_def)
  ultimately show ?thesis by (simp add: zft_get_capacity_def)
qed

lemma calc_tape_pos_ok:
  assumes ok: "pos_ok rep nsegs z M"
    and cap: "capacity z = seg_position M (raw_image z) (zft_first_segment z) (last_data_segment (z_ftape z) + 1)"
    and seg: "zft_first_segment z \<le> seg" "seg \<le> last_data_segment (z_ftape z)"
  shows "\<exists>z'. zft_calc_tape_pos z seg = Some (z', seg_position M (raw_image z) (zft_first_segment z) seg)
    \<and> pos_ok rep nsegs z' M \<and> same_tape z z'"
proof -
  let ?last = "last_data_segment (z_ftape z)" and ?first = "zft_first_segment z"
  have sk: "sizes_known rep nsegs z M" using ok by (simp add: pos_ok_def)
  define z1 where "z1 = (if - (seg - z_seg_pos z) > 10 \<and> - (seg - z_seg_pos z) > seg - ?first
    then z\<lparr>z_tape_pos := 0, z_seg_pos := ?first\<rparr> else z)"
  have z1: "pos_ok rep nsegs z1 M" "same_tape z z1"
    using ok pos_ok_first [OF sk] seg by (auto simp: z1_def same_tape_def)
  define d2 where "d2 = seg - z_seg_pos z1"
  have d2': "(if - (seg - z_seg_pos z) > 10 \<and> - (seg - z_seg_pos z) > seg - ?first then seg - ?first else seg - z_seg_pos z) = d2"
    by (simp add: d2_def z1_def)
  define z2 where "z2 = (if d2 > 10 \<and> d2 > ?last - seg then z1\<lparr>z_tape_pos := capacity z1, z_seg_pos := ?last + 1\<rparr> else z1)"
  have c1: "capacity z1 = capacity z" by (simp add: z1_def)
  note f1 = same_tape_frame [OF z1(2)]
  have "pos_ok rep nsegs (z1\<lparr>z_tape_pos := capacity z1, z_seg_pos := ?last + 1\<rparr>) M"
    using z1(1) cap c1 f1 seg by (auto simp: pos_ok_def sizes_known_def zft_first_segment_def)
  moreover have "same_tape z1 (z1\<lparr>z_tape_pos := capacity z1, z_seg_pos := ?last + 1\<rparr>)" by (simp add: same_tape_def)
  ultimately have z2: "pos_ok rep nsegs z2 M" "same_tape z z2"
    using z1 same_tape_trans by (auto simp: z2_def)
  define d3 where "d3 = (if d2 > 10 \<and> d2 > ?last - seg then - (?last - seg) else d2)"
  have frame: "zft_first_segment z2 = ?first" "last_data_segment (z_ftape z2) = ?last" "raw_image z2 = raw_image z"
    using same_tape_frame [OF z2(2)] by auto
  have "zft_calc_tape_pos z seg = do { z3 \<leftarrow> (if d3 > 0 then advance_to seg z2 else retreat_to seg z2); Some (z3, z_tape_pos z3) }"
    using seg unfolding zft_calc_tape_pos_def Let_def z1_def [symmetric] d2' z2_def [symmetric] d3_def [symmetric] by simp
  moreover have "\<exists>z3. (if d3 > 0 then advance_to seg z2 else retreat_to seg z2) = Some z3 \<and> pos_ok rep nsegs z3 M
    \<and> z_seg_pos z3 = seg \<and> same_tape z2 z3"
  proof (cases "d3 > 0")
    case True
    then have "z_seg_pos z2 \<le> seg" using seg by (auto simp: d3_def d2_def z2_def split: if_splits)
    with advance_to_ok [OF z2(1)] True seg frame show ?thesis by auto
  next
    case False
    then have "seg \<le> z_seg_pos z2" using seg by (auto simp: d3_def d2_def z2_def split: if_splits)
    with retreat_to_ok [OF z2(1)] False seg frame show ?thesis by auto
  qed
  moreover have "z_tape_pos z3 = seg_position M (raw_image z) ?first seg"
    if "pos_ok rep nsegs z3 M" "z_seg_pos z3 = seg" "same_tape z2 z3" for z3
  proof -
    have "zft_first_segment z3 = ?first" "raw_image z3 = raw_image z"
      using same_tape_frame [OF that(3)] frame by auto
    with that show ?thesis by (simp add: pos_ok_def)
  qed
  ultimately show ?thesis using same_tape_trans [OF z2(2)] by fastforce
qed

text \<open>The segment and offset of a byte position.\<close>

lemma coord_loop_ok:
  assumes "sizes_known rep nsegs z M" "zft_first_segment z \<le> seg" "seg \<le> last_data_segment (z_ftape z) + 1"
    and "pos \<le> seg_position M (raw_image z) seg (last_data_segment (z_ftape z) + 1)"
    and "0 < pos \<or> (zft_first_segment z < seg \<and> sz = seg_size M (raw_image z) (seg - 1) \<and> - sz < pos)"
  shows "\<exists>z' seg' sz' pos'. coord_loop z seg sz pos = Some (z', seg', sz', pos') \<and> zft_first_segment z < seg'
    \<and> seg \<le> seg' \<and> seg' \<le> last_data_segment (z_ftape z) + 1 \<and> pos' \<le> 0
    \<and> sz' = seg_size M (raw_image z) (seg' - 1) \<and> - sz' < pos'
    \<and> pos = pos' + seg_position M (raw_image z) seg seg' \<and> sizes_known rep nsegs z' M \<and> same_tape z z'"
  using assms
proof (induction z seg sz pos rule: coord_loop.induct)
  case (1 z seg sz pos)
  let ?last = "last_data_segment (z_ftape z)" and ?raw = "raw_image z"
  show ?case
  proof (cases "0 < pos \<and> seg \<le> ?last")
    case True
    have "0 \<le> seg" using first_nonneg [OF "1.prems"(1)] "1.prems"(2) by linarith
    with True obtain ft' where g: "zft_get_seg_sz z seg = Some (z\<lparr>z_ftape := ft'\<rparr>, seg_size M ?raw seg)"
        "sizes_known rep nsegs (z\<lparr>z_ftape := ft'\<rparr>) M" "first_data_segment ft' = first_data_segment (z_ftape z)"
        "last_data_segment ft' = ?last" "format_code ft' = format_code (z_ftape z)" using get_seg_sz [OF "1.prems"(1), of seg] by blast
    let ?z = "z\<lparr>z_ftape := ft'\<rparr>"
    have f: "zft_first_segment ?z = zft_first_segment z" using g(3) by (simp add: zft_first_segment_def)
    have split: "seg_position M ?raw seg t = seg_size M ?raw seg + seg_position M ?raw (seg + 1) t" if "seg < t" for t
    proof -
      have "{seg..<t} = insert seg {seg + 1..<t}" using that by auto
      then show ?thesis by (simp add: seg_position_def)
    qed
    have "pos - seg_size M ?raw seg \<le> seg_position M ?raw (seg + 1) (?last + 1)"
      using "1.prems"(4) split [of "?last + 1"] True by simp
    moreover have "0 < pos - seg_size M ?raw seg \<or> zft_first_segment z < seg + 1 \<and> - seg_size M ?raw seg < pos - seg_size M ?raw seg"
      using True "1.prems"(2) by simp
    ultimately obtain z' seg' sz' pos' where r: "coord_loop ?z (seg + 1) (seg_size M ?raw seg) (pos - seg_size M ?raw seg) = Some (z', seg', sz', pos')"
        "zft_first_segment z < seg'" "seg + 1 \<le> seg'" "seg' \<le> ?last + 1" "pos' \<le> 0" "sz' = seg_size M ?raw (seg' - 1)" "- sz' < pos'"
        "pos - seg_size M ?raw seg = pos' + seg_position M ?raw (seg + 1) seg'" "sizes_known rep nsegs z' M" "same_tape ?z z'"
      using "1.IH" [OF True g(1) refl] g f "1.prems"(2) True by auto
    have "same_tape z ?z" using g by (simp add: same_tape_def)
    with r True g split [of seg'] show ?thesis
      by (subst coord_loop.simps) (auto intro: same_tape_trans)
  next
    case False
    then have "pos \<le> 0" using "1.prems"(3,4) by (auto simp: seg_position_def)
    with False "1.prems" same_tape_refl [of z] show ?thesis by (subst coord_loop.simps) auto
  qed
qed

lemma coord_loop_frame:
  "coord_loop z seg sz pos = Some (z', r) \<Longrightarrow> \<exists>ft'. z' = z\<lparr>z_ftape := ft'\<rparr>"
proof (induction z seg sz pos rule: coord_loop.induct)
  case (1 z seg sz pos)
  show ?case
  proof (cases "0 < pos \<and> seg \<le> last_data_segment (z_ftape z)")
    case True
    then obtain z1 s where g: "zft_get_seg_sz z seg = Some (z1, s)" "coord_loop z1 (seg + 1) s (pos - s) = Some (z', r)"
      using "1.prems" by (subst (asm) coord_loop.simps) (auto split: option.splits)
    with "1.IH" [OF True g(1) refl g(2)] get_seg_sz_frame [OF g(1)] show ?thesis by auto
  qed (use "1.prems" in \<open>subst (asm) coord_loop.simps, auto intro: exI [of _ "z_ftape z"]\<close>)
qed

lemma calc_coord_ok:
  assumes ok: "pos_ok rep nsegs z M" and first: "zft_first_segment z \<le> last_data_segment (z_ftape z)"
    and pos: "0 \<le> pos" "pos \<le> seg_position M (raw_image z) (zft_first_segment z) (last_data_segment (z_ftape z) + 1)"
  shows "\<exists>z' seg off. zft_calc_seg_byte_coord z pos = Some (z', seg, off) \<and> pos_ok rep nsegs z' M \<and> same_tape z z'
    \<and> capacity z' = capacity z \<and> zft_first_segment z \<le> seg \<and> seg \<le> last_data_segment (z_ftape z) + 1 \<and> 0 \<le> off
    \<and> (off = 0 \<or> off < seg_size M (raw_image z) seg) \<and> pos = seg_position M (raw_image z) (zft_first_segment z) seg + off"
proof (cases "pos = 0")
  case True
  then show ?thesis using ok first same_tape_refl by (simp add: zft_calc_seg_byte_coord_def)
next
  case False
  then have "0 < pos" using pos by simp
  moreover have sk: "sizes_known rep nsegs z M" using ok by (simp add: pos_ok_def)
  ultimately obtain z' seg sz rest where r: "coord_loop z (zft_first_segment z) 0 pos = Some (z', seg, sz, rest)"
      "zft_first_segment z < seg" "seg \<le> last_data_segment (z_ftape z) + 1" "rest \<le> 0" "sz = seg_size M (raw_image z) (seg - 1)"
      "- sz < rest" "pos = rest + seg_position M (raw_image z) (zft_first_segment z) seg" "sizes_known rep nsegs z' M" "same_tape z z'"
    using coord_loop_ok [OF sk, of "zft_first_segment z" pos 0] first pos by auto
  from coord_loop_frame [OF r(1)] obtain ft' where z': "z' = z\<lparr>z_ftape := ft'\<rparr>" by blast
  have ok': "pos_ok rep nsegs z' M" using ok r(8) same_tape_frame [OF r(9)] by (simp add: pos_ok_def z')
  have "seg_position M (raw_image z) (zft_first_segment z) seg = seg_position M (raw_image z) (zft_first_segment z) (seg - 1) + sz"
    using seg_position_step [of "zft_first_segment z" "seg - 1"] r(2,5) by simp
  with False r ok' z' show ?thesis by (auto simp: zft_calc_seg_byte_coord_def)
qed

end

section \<open>The positions on the bad sector maps of the driver\<close>

interpretation pos: segment_positions "bsm_rep fmt base lim n" ftape_put_bad_sector_entry n "list_fits fmt base lim n"
  by unfold_locales

primrec tape_positions :: "int list \<Rightarrow> zftape_info \<Rightarrow> (zftape_info \<times> int list) option" where
  "tape_positions [] z = Some (z, [])"
| "tape_positions (s # ss) z = do {
     (z1, p) \<leftarrow> zft_calc_tape_pos z s;
     (z2, ps) \<leftarrow> tape_positions ss z1;
     Some (z2, p # ps)
   }"

lemma seg_position_before: "s \<le> first \<Longrightarrow> seg_position M raw first s = 0"
  by (simp add: seg_position_def)

lemma calc_tape_pos_any:
  assumes "pos_ok (bsm_rep fmt base lim n) n z M"
    and "capacity z = seg_position M (raw_image z) (zft_first_segment z) (last_data_segment (z_ftape z) + 1)"
  shows "\<exists>z'. zft_calc_tape_pos z s = Some (z', seg_position M (raw_image z) (zft_first_segment z) (min s (last_data_segment (z_ftape z) + 1)))
    \<and> pos_ok (bsm_rep fmt base lim n) n z' M \<and> same_tape z z'"
proof -
  consider "s > last_data_segment (z_ftape z)" | "s < zft_first_segment z" "s \<le> last_data_segment (z_ftape z)"
    | "zft_first_segment z \<le> s" "s \<le> last_data_segment (z_ftape z)" by linarith
  then show ?thesis
  proof cases
    case 1
    then have "min s (last_data_segment (z_ftape z) + 1) = last_data_segment (z_ftape z) + 1" by simp
    with 1 assms same_tape_refl [of z] show ?thesis by (simp add: zft_calc_tape_pos_def)
  next
    case 3
    with pos.calc_tape_pos_ok [OF assms 3] show ?thesis by (simp add: min_def)
  qed (use assms same_tape_refl [of z] in \<open>auto simp: zft_calc_tape_pos_def min_def seg_position_before\<close>)
qed

lemma same_tape_capacity: "same_tape z z' \<Longrightarrow> capacity z' = capacity z"
  by (cases z; cases z') (simp add: same_tape_def)

text \<open>A tape with three segments in array format; segment 0 holds the header.\<close>

definition small_ftape :: ftape_info where
  "small_ftape = (blank_info fmt_normal)\<lparr>first_data_segment := 1, last_data_segment := 2, hseg_buf := replicate 2060 0,
     bad_sector_map := Some 2048\<rparr>"

definition small_tape :: zftape_info where
  "small_tape = \<lparr>z_ftape = small_ftape, qic_mode = True, raw_image = False, old_ftape = False, exvt_extension = False,
     vtbl_broken = False, write_protected = False, header_read = True, vtbl_read = True, volume_table_changed = False,
     header_changed = False, label_changed = False, just_before_eof = False, z_qic113 = False, z_use_compression = False, resid = 0, vtbl_head = blank_vol, vtbl_vols = [],
     vtbl_eom = blank_vol, tape_vtbl = blank_vol, eot_vtbl = blank_vol, cur_vtbl = Eom_Vtbl, vtbl_size = 29696,
     z_pos = \<lparr>seg_pos = 1, seg_byte_pos = 0, tape_pos = 0, volume_pos = 0\<rparr>, z_blk_sz = 10240,
     capacity = 59392, z_seg_pos = 1, z_tape_pos = 0, deblock_segment = -1, nr_eof_marks = 0,
     eof_map = None, ftape_fmt_version = 0, buf_len_rd = 0, vtbl_buf = replicate FT_SEGMENT_SIZE 0,
     io_state = zft_idle, offline = False, eod = 0, z_remaining = 0, z_volume = Tape_Vtbl, z_seg_sz = 0, deblock_buf = None,
     need_flush = False, last_write_failed = False, hard_errors = [], hard_error_cnt = 0, written_segments = 0,
     going_offline = False, force_lock = False\<rparr>"

lemma load_le_zeros: "off + n \<le> k \<Longrightarrow> load_le (replicate k 0) off n = 0"
  by (induction n) simp_all

lemma small_tape_known: "sizes_known (bsm_rep fmt_normal 2048 2060 3) 3 small_tape (\<lambda>_. 0)"
proof -
  have "GET4 (replicate 2060 0) (2048 + 4 * s) = 0" if "s < 3" for s
    using that by (simp add: GET4_def load_le_zeros)
  then have "array_rep 2048 3 small_ftape (\<lambda>_. 0)"
    by (simp add: array_rep_def small_ftape_def blank_info_def list_format_def)
  then show ?thesis by (simp add: sizes_known_def bsm_rep_def small_tape_def small_ftape_def blank_info_def)
qed

lemma small_tape_first: "zft_first_segment small_tape = 1" "last_data_segment (z_ftape small_tape) = 2" "raw_image small_tape = False"
  by (simp_all add: zft_first_segment_def small_tape_def small_ftape_def blank_info_def)

lemma small_tape_positions:
  "seg_position (\<lambda>_. 0) False 1 2 = 29696" "seg_position (\<lambda>_. 0) False 1 3 = 59392" "seg_position (\<lambda>_. 0) False 1 1 = 0"
proof -
  have "{1..<2::int} = {1}" "{1..<3::int} = {1, 2}" by auto
  then show "seg_position (\<lambda>_. 0) False 1 2 = 29696" "seg_position (\<lambda>_. 0) False 1 3 = 59392" "seg_position (\<lambda>_. 0) False 1 1 = 0"
    by (simp_all add: seg_position_def seg_size_def)
qed

text \<open>
  C19. The cached byte position never makes a difference: after \<open>zft_get_capacity\<close> has set the capacity,
  any sequence of \<open>zft_calc_tape_pos\<close> calls returns for every segment the sum of the sizes of the
  segments in front of it, whichever of the start, the end or the last position asked for the
  driver counts from.
\<close>

theorem tape_positions_exact:
  assumes "sizes_known (bsm_rep fmt base lim n) n z M" and "zft_first_segment z \<le> last_data_segment (z_ftape z)"
  shows "\<exists>z0 c z'. zft_get_capacity z = Some (z0, c) \<and> tape_positions segs (z0\<lparr>capacity := c\<rparr>) = Some (z',
    map (\<lambda>s. seg_position M (raw_image z) (zft_first_segment z) (min s (last_data_segment (z_ftape z) + 1))) segs)"
proof -
  let ?pos = "\<lambda>z s. seg_position M (raw_image z) (zft_first_segment z) (min s (last_data_segment (z_ftape z) + 1))"
  have run: "\<exists>z'. tape_positions segs z = Some (z', map (?pos z) segs)"
    if "pos_ok (bsm_rep fmt base lim n) n z M"
      "capacity z = seg_position M (raw_image z) (zft_first_segment z) (last_data_segment (z_ftape z) + 1)" for z
    using that
  proof (induction segs arbitrary: z)
    case (Cons s segs)
    from calc_tape_pos_any [OF Cons.prems, of s] obtain z1 where z1: "zft_calc_tape_pos z s = Some (z1, ?pos z s)"
      "pos_ok (bsm_rep fmt base lim n) n z1 M" "same_tape z z1" by blast
    note f = same_tape_frame [OF z1(3)] same_tape_capacity [OF z1(3)]
    from Cons.IH [OF z1(2)] Cons.prems(2) f show ?case using z1(1) by fastforce
  qed simp
  from pos.get_capacity_ok [OF assms(1)] assms(2) obtain z0 where z0: "zft_get_capacity z =
      Some (z0, seg_position M (raw_image z) (zft_first_segment z) (last_data_segment (z_ftape z) + 1))"
    "pos_ok (bsm_rep fmt base lim n) n z0 M" "same_tape z z0" by auto
  let ?z = "z0\<lparr>capacity := seg_position M (raw_image z) (zft_first_segment z) (last_data_segment (z_ftape z) + 1)\<rparr>"
  have f: "zft_first_segment ?z = zft_first_segment z" "raw_image ?z = raw_image z"
    "last_data_segment (z_ftape ?z) = last_data_segment (z_ftape z)"
    using same_tape_frame [OF z0(3)] by (auto simp: zft_first_segment_def)
  have "pos_ok (bsm_rep fmt base lim n) n ?z M"
    using z0(2) by (auto simp: pos_ok_def sizes_known_def zft_first_segment_def)
  from run [OF this] f z0(1) show ?thesis by simp
qed

theorem tape_positions_exact_witness:
  "\<exists>z0 c z'. zft_get_capacity small_tape = Some (z0, c) \<and> tape_positions [2, 1, 7] (z0\<lparr>capacity := c\<rparr>) = Some (z', [29696, 0, 59392])"
  using tape_positions_exact [OF small_tape_known, of "[2, 1, 7]"] by (simp add: small_tape_first small_tape_positions)

text \<open>
  C29. Byte coordinates: every byte position up to the capacity has a segment and an offset inside it
  (\<open>zft_calc_seg_byte_coord\<close> never loops and never leaves the tape), and \<open>zft_calc_tape_pos\<close> of that
  segment plus the offset is the position again, up to the last data segment.
\<close>

theorem byte_coord_round_trip:
  assumes "pos_ok (bsm_rep fmt base lim n) n z M" and "zft_first_segment z \<le> last_data_segment (z_ftape z)"
    and "capacity z = seg_position M (raw_image z) (zft_first_segment z) (last_data_segment (z_ftape z) + 1)"
    and "0 \<le> p" and "p \<le> capacity z"
  shows "\<exists>z' seg off z''. zft_calc_seg_byte_coord z p = Some (z', seg, off) \<and> zft_calc_tape_pos z' seg = Some (z'', p - off)
    \<and> zft_first_segment z \<le> seg \<and> seg \<le> last_data_segment (z_ftape z) + 1 \<and> 0 \<le> off
    \<and> (off = 0 \<or> off < seg_size M (raw_image z) seg)"
proof -
  from pos.calc_coord_ok [OF assms(1,2,4)] assms(3,5) obtain z' seg off where
    r: "zft_calc_seg_byte_coord z p = Some (z', seg, off)" "pos_ok (bsm_rep fmt base lim n) n z' M" "same_tape z z'"
      "zft_first_segment z \<le> seg" "seg \<le> last_data_segment (z_ftape z) + 1" "0 \<le> off"
      "off = 0 \<or> off < seg_size M (raw_image z) seg" "p = seg_position M (raw_image z) (zft_first_segment z) seg + off" by auto
  note f = same_tape_frame [OF r(3)] same_tape_capacity [OF r(3)]
  from calc_tape_pos_any [OF r(2), of seg] assms(3) f r(5,8)
  have "\<exists>z''. zft_calc_tape_pos z' seg = Some (z'', p - off)" by (auto simp: min_def)
  with r show ?thesis by blast
qed

theorem byte_coord_round_trip_witness:
  "\<exists>z' seg off z''. zft_calc_seg_byte_coord small_tape 40000 = Some (z', seg, off) \<and> zft_calc_tape_pos z' seg = Some (z'', 40000 - off)
    \<and> 1 \<le> seg \<and> seg \<le> 3 \<and> 0 \<le> off \<and> (off = 0 \<or> off < seg_size (\<lambda>_. 0) False seg)"
proof -
  have "pos_ok (bsm_rep fmt_normal 2048 2060 3) 3 small_tape (\<lambda>_. 0)" "capacity small_tape = 59392"
    using small_tape_known small_tape_first small_tape_positions by (simp_all add: pos_ok_def) (simp_all add: small_tape_def)
  then show ?thesis
    using byte_coord_round_trip [of fmt_normal 2048 2060 3 small_tape "\<lambda>_. 0" 40000]
    by (simp add: small_tape_first small_tape_positions)
qed

end
