(* ===== verification/Zft_Eof.thy ===== *)
theory Zft_Eof
  imports Zft_Pos
begin

text \<open>
  End-of-file marks and labels of old tapes, from \<open>src/ftape/zftape/zftape-eof.c\<close>, and the label of
  the driver from \<open>zft_update_label\<close> of \<open>src/ftape/zftape/zftape-rw.c\<close>. The header segment is
  \<open>hseg_buf\<close>; the marks are pairs of 16-bit words in it, from the offset \<open>eof_map\<close> on.
\<close>

abbreviation FT_LABEL :: nat where "FT_LABEL \<equiv> 30"
abbreviation FT_LABEL_DATE :: nat where "FT_LABEL_DATE \<equiv> 74"
abbreviation FT_LABEL_SZ :: nat where "FT_LABEL_SZ \<equiv> 44"
abbreviation FT_CMAP_START :: nat where "FT_CMAP_START \<equiv> 78"
abbreviation FT_FSL_CNT :: nat where "FT_FSL_CNT \<equiv> 144"
abbreviation FT_FSL :: nat where "FT_FSL \<equiv> 256"
abbreviation FT_FSL_SIZE :: nat where "FT_FSL_SIZE \<equiv> 1792"

definition ascii :: "string \<Rightarrow> bytes" where
  "ascii = map of_char"

definition linux_tape_label :: bytes where "linux_tape_label = ascii ''Linux raw format V''"

definition ZFTAPE_LABEL :: bytes where "ZFTAPE_LABEL = ascii ''Ftape - The Linux Floppy Tape Project!''"

abbreviation z_hseg :: "zftape_info \<Rightarrow> bytes" where "z_hseg z \<equiv> hseg_buf (z_ftape z)"

definition set_hseg :: "bytes \<Rightarrow> zftape_info \<Rightarrow> zftape_info" where
  "set_hseg m z = z\<lparr>z_ftape := (z_ftape z)\<lparr>hseg_buf := m\<rparr>\<rparr>"

section \<open>The label of an old tape\<close>

text \<open>The loop over the digits of the version; \<open>None\<close> when it runs out of the buffer.\<close>

fun label_version :: "u32 \<Rightarrow> bytes \<Rightarrow> u32 option" where
  "label_version version [] = None"
| "label_version version (c # cs) =
    (if 48 \<le> c \<and> c \<le> 57 then
       let version = version * 10; version = ucast (c - 48)
       in label_version version cs
     else Some version)"

definition zft_ftape_validate_label :: "zftape_info \<Rightarrow> bytes \<Rightarrow> (zftape_info \<times> bool) option" where
  "zft_ftape_validate_label z label =
    (if take (length linux_tape_label) label = linux_tape_label then do {
       version \<leftarrow> label_version 0 (drop (length linux_tape_label) label);
       Some (z\<lparr>ftape_fmt_version := uint version\<rparr>, 1 \<le> version \<and> version \<le> 2)
     }
     else Some (z\<lparr>ftape_fmt_version := 0\<rparr>, False))"

section \<open>The list of marks\<close>

function find_end_of_eof_list :: "bytes \<Rightarrow> nat \<Rightarrow> nat \<Rightarrow> nat option" where
  "find_end_of_eof_list m ptr limit =
    (if ptr + 3 < limit then if GET4 m ptr \<noteq> 0 then find_end_of_eof_list m (ptr + 4) limit else Some ptr
     else None)"
  by pat_completeness auto
termination by (relation "measure (\<lambda>(m, p, l). l - p)") auto

declare find_end_of_eof_list.simps [simp del]

primrec swap_marks :: "bytes \<Rightarrow> nat \<Rightarrow> nat \<Rightarrow> bytes" where
  "swap_marks m p 0 = m"
| "swap_marks m p (Suc i) =
    (let m' = swap_marks m p i; q = p + 4 * i; tmp = GET2 m' q
     in PUT2 (PUT2 m' q (GET2 m' (q + 2))) (q + 2) tmp)"

definition find_marks :: "zftape_info \<Rightarrow> nat option \<times> int" where
  "find_marks z =
    (let m = z_hseg z
     in if format_code (z_ftape z) = fmt_var \<or> format_code (z_ftape z) = fmt_big then
          (case ftape_find_end_of_bsm_list m of
             None \<Rightarrow> (None, 0)
           | Some s \<Rightarrow>
               let start = s + 3
               in case find_end_of_eof_list m start FT_SEGMENT_SIZE of
                    None \<Rightarrow> (None, 0)
                  | Some e \<Rightarrow> if e - start \<le> FT_FSL_SIZE then (Some start, int ((e - start) div 4)) else (None, 0))
        else (Some FT_FSL, uint (GET2 m FT_FSL_CNT)))"

text \<open>The count of the failed sector log is not checked: \<open>None\<close> when the marks leave the header segment.\<close>

definition marks_inside :: "bytes \<Rightarrow> nat \<Rightarrow> int \<Rightarrow> bool" where
  "marks_inside m p nr \<longleftrightarrow> p + 4 * nat nr \<le> length m"

definition zft_ftape_extract_file_marks :: "zftape_info \<Rightarrow> zftape_info option" where
  "zft_ftape_extract_file_marks z =
    (let (marks, nr) = find_marks z; z1 = z\<lparr>eof_map := marks, nr_eof_marks := nr\<rparr>
     in case marks of
          None \<Rightarrow> Some z1
        | Some p \<Rightarrow>
            if ftape_fmt_version z \<noteq> 1 then Some z1
            else if marks_inside (z_hseg z) p nr then Some (set_hseg (swap_marks (z_hseg z) p (nat nr)) z1)
            else None)"

section \<open>The driver's own label\<close>

text \<open>
  \<open>sizeof(ZFTAPE_LABEL + 1)\<close> is the size of a pointer, 8 on the 64-bit targets. Comparison and copy
  concern the 38 characters of the label; \<open>strcpy\<close> also writes the terminating zero.
\<close>

definition zft_update_label :: "zftape_info \<Rightarrow> zftape_info" where
  "zft_update_label z =
    (let m = z_hseg z; n = length ZFTAPE_LABEL
     in if bytes_at m FT_LABEL n \<noteq> ZFTAPE_LABEL then
          let m1 = blit m FT_LABEL (ZFTAPE_LABEL @ [0]);
              m2 = blit m1 (FT_LABEL + n) (replicate (FT_LABEL_SZ - 8) 32);
              m3 = PUT4 m2 FT_LABEL_DATE 0
          in (set_hseg m3 z)\<lparr>label_changed := True, header_changed := True\<rparr>
        else z)"

definition clear_marks :: "zftape_info \<Rightarrow> bytes option" where
  "clear_marks z =
    (case eof_map z of
       None \<Rightarrow> Some (z_hseg z)
     | Some p \<Rightarrow> if marks_inside (z_hseg z) p (nr_eof_marks z)
         then Some (blit (z_hseg z) p (replicate (4 * nat (nr_eof_marks z)) 0)) else None)"

definition zft_clear_ftape_file_marks :: "zftape_info \<Rightarrow> zftape_info option" where
  "zft_clear_ftape_file_marks z = do {
     m1 \<leftarrow> clear_marks z;
     let m2 = PUT2 m1 FT_FSL_CNT 0;
     Some (zft_update_label ((set_hseg m2 z)\<lparr>nr_eof_marks := 0, header_changed := True\<rparr>))
   }"

section \<open>Properties\<close>

lemma label_version_last:
  "label_version v (ds @ c # cs) = Some (if ds = [] then v else ucast (last ds - 48))"
  if "\<forall>d\<in>set ds. 48 \<le> d \<and> d \<le> 57" "\<not> (48 \<le> c \<and> c \<le> 57)"
  using that by (induction ds arbitrary: v) auto

lemma length_labels [simp]: "length linux_tape_label = 18" "length ZFTAPE_LABEL = 38"
  by (simp_all add: linux_tape_label_def ZFTAPE_LABEL_def ascii_def)

lemma update_label_bytes:
  assumes "256 \<le> length (z_hseg z)" "bytes_at (z_hseg z) FT_LABEL 38 \<noteq> ZFTAPE_LABEL"
  shows "length (z_hseg (zft_update_label z)) = length (z_hseg z)"
    and "z_hseg (zft_update_label z) ! i =
      (if 74 \<le> i \<and> i < 78 then 0 else if 68 \<le> i \<and> i < 104 then 32
       else if 30 \<le> i \<and> i < 68 then ZFTAPE_LABEL ! (i - 30) else z_hseg z ! i)"
  using assms by (auto simp: zft_update_label_def Let_def set_hseg_def getput_defs nth_store_le nth_blit nth_append lane_def)

text \<open>
  The version of an old tape's label is the last of its digits, not the number they spell
  (\<open>zft_ftape_validate_label\<close> overwrites the value where it means to add): a label is accepted
  exactly when its version ends in 1 or 2.
\<close>

theorem validate_label_last_digit:
  assumes "\<forall>d\<in>set ds. 48 \<le> d \<and> d \<le> 57" and "ds \<noteq> []" and "\<not> (48 \<le> c \<and> c \<le> 57)"
  shows "zft_ftape_validate_label z (linux_tape_label @ ds @ c # cs) =
    Some (z\<lparr>ftape_fmt_version := uint (last ds - 48)\<rparr>, last ds = 49 \<or> last ds = 50)"
proof -
  have d: "48 \<le> last ds" "last ds \<le> 57" using assms by auto
  then have u: "48 \<le> uint (last ds)" "uint (last ds) \<le> 57" by (simp_all add: word_le_def)
  then have s: "uint (last ds - 48) = uint (last ds) - 48" by (simp add: uint_sub_if')
  have "(1 :: u32) \<le> ucast (last ds - 48) \<and> ucast (last ds - 48) \<le> (2 :: u32) \<longleftrightarrow> last ds = 49 \<or> last ds = 50"
    using s u by (simp add: word_le_def word_uint_eq_iff uint_up_ucast is_up) presburger
  then show ?thesis
    using label_version_last [OF assms(1,3), of 0 cs] assms(2) by (simp add: zft_ftape_validate_label_def uint_up_ucast is_up)
qed

text \<open>Version 12 is taken for version 2.\<close>

theorem validate_label_last_digit_witness:
  "zft_ftape_validate_label small_tape (linux_tape_label @ ascii ''12'' @ [32])
    = Some (small_tape\<lparr>ftape_fmt_version := 2\<rparr>, True)"
  using validate_label_last_digit [of "[49, 50]" 32 small_tape "[]"] by (simp add: ascii_def)

text \<open>
  C36. \<open>zft_update_label\<close> pads the label with spaces up to byte 103 of the header segment, 30 bytes
  beyond the label field: the start of the compression map (bytes 78 and 79) becomes \<open>0x2020\<close>,
  whatever it was.
\<close>

theorem update_label_overruns:
  assumes "256 \<le> length (z_hseg z)" and "bytes_at (z_hseg z) FT_LABEL 38 \<noteq> ZFTAPE_LABEL"
  shows "bytes_at (z_hseg (zft_update_label z)) FT_LABEL 38 = ZFTAPE_LABEL
    \<and> GET2 (z_hseg (zft_update_label z)) FT_CMAP_START = 0x2020
    \<and> (\<forall>i. i < 30 \<or> 104 \<le> i \<longrightarrow> z_hseg (zft_update_label z) ! i = z_hseg z ! i)"
proof -
  note b = update_label_bytes [OF assms]
  have label: "bytes_at (z_hseg (zft_update_label z)) FT_LABEL 38 = ZFTAPE_LABEL"
    using assms(1) b by (auto simp: bytes_at_def list_eq_iff_nth_eq)
  have "z_hseg (zft_update_label z) ! 78 = 32" "z_hseg (zft_update_label z) ! 79 = 32" using b(2) [of 78] b(2) [of 79] by simp_all
  then have "GET2 (z_hseg (zft_update_label z)) FT_CMAP_START = 0x2020" by (simp add: GET2_def load_le_numeral)
  moreover have "\<forall>i. i < 30 \<or> 104 \<le> i \<longrightarrow> z_hseg (zft_update_label z) ! i = z_hseg z ! i" using b(2) by auto
  ultimately show ?thesis using label by blast
qed

theorem update_label_overruns_witness:
  "GET2 (z_hseg (zft_update_label small_tape)) FT_CMAP_START = 0x2020"
proof -
  have "bytes_at (z_hseg small_tape) FT_LABEL 38 ! 0 = 0"
    by (simp add: bytes_at_def small_tape_def small_ftape_def)
  moreover have "ZFTAPE_LABEL ! 0 = 70" by (simp add: ZFTAPE_LABEL_def ascii_def)
  ultimately have "bytes_at (z_hseg small_tape) FT_LABEL 38 \<noteq> ZFTAPE_LABEL" by auto
  then show ?thesis using update_label_overruns [of small_tape] by (simp add: small_tape_def small_ftape_def)
qed

text \<open>Clearing the marks: what the extraction finds afterwards.\<close>

lemma update_label_keeps:
  assumes "256 \<le> length (z_hseg z)"
  shows "length (z_hseg (zft_update_label z)) = length (z_hseg z)"
    and "104 \<le> i \<Longrightarrow> z_hseg (zft_update_label z) ! i = z_hseg z ! i"
    and "format_code (z_ftape (zft_update_label z)) = format_code (z_ftape z)"
proof -
  have unchanged: "zft_update_label z = z" if "bytes_at (z_hseg z) FT_LABEL 38 = ZFTAPE_LABEL"
    using that by (simp add: zft_update_label_def)
  note b = update_label_bytes [OF assms]
  show "length (z_hseg (zft_update_label z)) = length (z_hseg z)" using b(1) unchanged by (metis (no_types))
  show "104 \<le> i \<Longrightarrow> z_hseg (zft_update_label z) ! i = z_hseg z ! i"
    using b(2) [of i] unchanged by (cases "bytes_at (z_hseg z) FT_LABEL 38 = ZFTAPE_LABEL") auto
  show "format_code (z_ftape (zft_update_label z)) = format_code (z_ftape z)"
    by (simp add: zft_update_label_def Let_def set_hseg_def)
qed

lemma find_end_from_cong:
  assumes "find_end_from m p = Some e" "\<And>i. p \<le> i \<Longrightarrow> i < e + 3 \<Longrightarrow> m' ! i = m ! i"
  shows "find_end_from m' p = Some e \<and> p \<le> e"
  using assms
proof (induction m p rule: find_end_from.induct)
  case (1 m p)
  show ?case
  proof (cases "p + 2 < FT_SEGMENT_SIZE \<and> (m ! p \<noteq> 0 \<or> m ! (p + 1) \<noteq> 0 \<or> m ! (p + 2) \<noteq> 0)")
    case True
    then have e: "find_end_from m (p + 3) = Some e" using "1.prems"(1) by (subst (asm) find_end_from.simps) auto
    have "find_end_from m' (p + 3) = Some e \<and> p + 3 \<le> e" by (rule "1.IH") (use True e "1.prems"(2) in auto)
    moreover have "m' ! p = m ! p" "m' ! (p + 1) = m ! (p + 1)" "m' ! (p + 2) = m ! (p + 2)"
      using "1.prems"(2) calculation by simp_all
    ultimately show ?thesis using True by (subst find_end_from.simps) auto
  next
    case False
    then have "p + 2 < FT_SEGMENT_SIZE" "m ! p = 0" "m ! (p + 1) = 0" "m ! (p + 2) = 0" "e = p"
      using "1.prems"(1) by (subst (asm) find_end_from.simps; auto split: if_splits)+
    moreover from this have "m' ! p = m ! p" "m' ! (p + 1) = m ! (p + 1)" "m' ! (p + 2) = m ! (p + 2)"
      using "1.prems"(2) by simp_all
    ultimately show ?thesis by (subst find_end_from.simps) auto
  qed
qed

lemma find_end_from_ext: "(\<And>i. p \<le> i \<Longrightarrow> m' ! i = m ! i) \<Longrightarrow> find_end_from m' p = find_end_from m p"
proof (induction m p rule: find_end_from.induct)
  case (1 m p)
  then show ?case by (subst (1 2) find_end_from.simps) auto
qed

lemma find_end_of_eof_list_ext:
  "(\<And>i. p \<le> i \<Longrightarrow> m' ! i = m ! i) \<Longrightarrow> find_end_of_eof_list m' p limit = find_end_of_eof_list m p limit"
proof (induction m p limit rule: find_end_of_eof_list.induct)
  case (1 m p limit)
  have "GET4 m' p = GET4 m p" using "1.prems" by (simp add: GET4_def load_le_numeral)
  with 1 show ?case by (subst (1 2) find_end_of_eof_list.simps) auto
qed

lemma find_end_of_eof_list_end:
  "find_end_of_eof_list m p limit = Some e \<Longrightarrow> p \<le> e \<and> 4 dvd (e - p) \<and> e + 3 < limit \<and> GET4 m e = 0"
proof (induction m p limit rule: find_end_of_eof_list.induct)
  case (1 m p limit)
  show ?case
  proof (cases "p + 3 < limit \<and> GET4 m p \<noteq> 0")
    case True
    then have "find_end_of_eof_list m (p + 4) limit = Some e" using "1.prems" by (subst (asm) find_end_of_eof_list.simps) auto
    with "1.IH" True have r: "p + 4 \<le> e" "4 dvd (e - (p + 4))" "e + 3 < limit" "GET4 m e = 0" by blast+
    then have "e - p = 4 + (e - (p + 4))" by linarith
    with r show ?thesis by (metis add_leD1 dvd_add dvd_refl)
  qed (use "1.prems" in \<open>subst (asm) find_end_of_eof_list.simps, auto split: if_splits\<close>)
qed

lemma swap_marks_outside:
  assumes "p + 4 * n \<le> length m"
  shows "length (swap_marks m p n) = length m" and "i < p \<or> p + 4 * n \<le> i \<Longrightarrow> swap_marks m p n ! i = m ! i"
  using assms by (induction n) (auto simp: Let_def getput_defs nth_store_le)

lemma extract_frame:
  assumes "zft_ftape_extract_file_marks z = Some z1" "find_marks z = (marks, nr)"
  shows "eof_map z1 = marks" "nr_eof_marks z1 = nr" "format_code (z_ftape z1) = format_code (z_ftape z)"
    "length (z_hseg z1) = length (z_hseg z)"
    "(\<forall>p. marks = Some p \<longrightarrow> i < p \<or> p + 4 * nat nr \<le> i) \<Longrightarrow> z_hseg z1 ! i = z_hseg z ! i"
  using assms
  by (auto simp: zft_ftape_extract_file_marks_def Let_def set_hseg_def marks_inside_def swap_marks_outside split: option.splits if_splits)

text \<open>The header segment after clearing: zeros where the marks were, the rest from the failed sector log on as before.\<close>

lemma clear_frame:
  assumes len: "length (z_hseg z) = FT_SEGMENT_SIZE"
    and inside: "\<forall>p. eof_map z = Some p \<longrightarrow> 256 \<le> p \<and> marks_inside (z_hseg z) p (nr_eof_marks z)"
  shows "\<exists>z'. zft_clear_ftape_file_marks z = Some z' \<and> format_code (z_ftape z') = format_code (z_ftape z)
    \<and> GET2 (z_hseg z') FT_FSL_CNT = 0
    \<and> (\<forall>i\<ge>256. z_hseg z' ! i = (if \<exists>p. eof_map z = Some p \<and> p \<le> i \<and> i < p + 4 * nat (nr_eof_marks z) then 0 else z_hseg z ! i))"
proof -
  have "\<exists>m1. clear_marks z = Some m1 \<and> length m1 = FT_SEGMENT_SIZE
      \<and> (\<forall>i. m1 ! i = (if \<exists>p. eof_map z = Some p \<and> p \<le> i \<and> i < p + 4 * nat (nr_eof_marks z) then 0 else z_hseg z ! i))"
    using len inside by (cases "eof_map z") (auto simp: clear_marks_def marks_inside_def nth_blit)
  then obtain m1 where m1: "clear_marks z = Some m1" "length m1 = FT_SEGMENT_SIZE"
      "\<And>i. m1 ! i = (if \<exists>p. eof_map z = Some p \<and> p \<le> i \<and> i < p + 4 * nat (nr_eof_marks z) then 0 else z_hseg z ! i)"
    by blast
  define z0 where "z0 = (set_hseg (PUT2 m1 FT_FSL_CNT 0) z)\<lparr>nr_eof_marks := 0, header_changed := True\<rparr>"
  have z0: "z_hseg z0 = PUT2 m1 FT_FSL_CNT 0" "format_code (z_ftape z0) = format_code (z_ftape z)"
    by (simp_all add: z0_def set_hseg_def)
  then have "256 \<le> length (z_hseg z0)" using m1(2) by simp
  note k = update_label_keeps [OF this]
  have "z_hseg (zft_update_label z0) ! i = m1 ! i" if "256 \<le> i" for i
    using that k(2) [of i] z0(1) m1(2) by (simp add: getput_defs nth_store_le)
  moreover have "z_hseg (zft_update_label z0) ! 144 = 0" "z_hseg (zft_update_label z0) ! 145 = 0"
    using k(2) [of 144] k(2) [of 145] z0(1) m1(2) by (simp_all add: getput_defs nth_store_le lane_def)
  ultimately show ?thesis
    using m1 k(3) z0 by (simp add: zft_clear_ftape_file_marks_def z0_def [symmetric] GET2_def load_le_numeral)
qed

lemma GET4_zeroI: "(\<And>i. p \<le> i \<Longrightarrow> i < p + 4 \<Longrightarrow> m ! i = 0) \<Longrightarrow> GET4 m p = 0"
  by (simp add: GET4_def load_le_numeral)

text \<open>
  C30. \<open>zft_clear_ftape_file_marks\<close> removes every mark: whatever \<open>zft_ftape_extract_file_marks\<close> found in a
  header segment, in any of the formats, extracting again after clearing finds no marks. The count of
  the failed sector log has to lie inside the header segment, which the code does not check.
\<close>

theorem clear_removes_file_marks:
  assumes "length (z_hseg z) = FT_SEGMENT_SIZE" and "zft_ftape_extract_file_marks z = Some z1"
    and "\<forall>p. eof_map z1 = Some p \<longrightarrow> marks_inside (z_hseg z1) p (nr_eof_marks z1)"
  shows "\<exists>z2. zft_clear_ftape_file_marks z1 = Some z2 \<and> snd (find_marks z2) = 0"
proof -
  obtain marks nr where fm: "find_marks z = (marks, nr)" by fastforce
  note e = extract_frame [OF assms(2) fm]
  let ?wide = "format_code (z_ftape z) = fmt_var \<or> format_code (z_ftape z) = fmt_big"
  have ge: "256 \<le> p" if "marks = Some p" for p
    using fm that find_end_from_cong [of "z_hseg z" 256 _ "z_hseg z"]
    by (auto simp: find_marks_def Let_def ftape_find_end_of_bsm_list_def split: if_splits option.splits)
  obtain z2 where z2: "zft_clear_ftape_file_marks z1 = Some z2" "format_code (z_ftape z2) = format_code (z_ftape z)"
      "GET2 (z_hseg z2) FT_FSL_CNT = 0"
      "\<And>i. 256 \<le> i \<Longrightarrow> z_hseg z2 ! i = (if \<exists>p. marks = Some p \<and> p \<le> i \<and> i < p + 4 * nat nr then 0 else z_hseg z1 ! i)"
    using clear_frame [of z1] assms(1,3) e(1-4) ge by auto
  have bytes: "z_hseg z2 ! i = (if \<exists>p. marks = Some p \<and> p \<le> i \<and> i < p + 4 * nat nr then 0 else z_hseg z ! i)" if "256 \<le> i" for i
    using z2(4) [OF that] e(5) [of i] by (metis leI)
  show ?thesis
  proof (cases ?wide)
    case False
    then show ?thesis using z2 by (auto simp: find_marks_def)
  next
    case True
    show ?thesis
    proof (cases marks)
      case None
      then have "find_end_from (z_hseg z2) 256 = find_end_from (z_hseg z) 256" using bytes by (intro find_end_from_ext) auto
      moreover have "find_end_of_eof_list (z_hseg z2) (s + 3) FT_SEGMENT_SIZE = find_end_of_eof_list (z_hseg z) (s + 3) FT_SEGMENT_SIZE"
        if "find_end_from (z_hseg z) 256 = Some s" for s
        using bytes None find_end_from_cong [OF that, of "z_hseg z"] by (intro find_end_of_eof_list_ext) auto
      ultimately have "find_marks z2 = find_marks z"
        using True z2(2) by (auto simp: find_marks_def Let_def ftape_find_end_of_bsm_list_def split: option.splits)
      then show ?thesis using z2(1) fm None by (auto simp: find_marks_def Let_def split: if_splits option.splits)
    next
      case (Some start)
      then obtain s e where s: "find_end_from (z_hseg z) 256 = Some s" "start = s + 3"
        "find_end_of_eof_list (z_hseg z) start FT_SEGMENT_SIZE = Some e" "nr = int ((e - start) div 4)"
        using fm True by (auto simp: find_marks_def Let_def ftape_find_end_of_bsm_list_def split: if_splits option.splits)
      have ge3: "256 \<le> s" using find_end_from_cong [OF s(1), of "z_hseg z"] by simp
      have s2: "find_end_from (z_hseg z2) 256 = Some s"
        using find_end_from_cong [OF s(1), of "z_hseg z2"] bytes Some s(2) by auto
      note ee = find_end_of_eof_list_end [OF s(3)]
      have "GET4 (z_hseg z2) start = 0"
      proof (cases "e = start")
        case True
        then have "GET4 (z_hseg z2) start = GET4 (z_hseg z) start"
          using bytes s ge3 Some by (simp add: GET4_def load_le_numeral)
        with ee True show ?thesis by simp
      next
        case False
        then have "nr \<ge> 1" using ee s(4) by (auto elim!: dvdE)
        then show ?thesis using bytes Some ge3 s(2) by (intro GET4_zeroI) auto
      qed
      then have "find_end_of_eof_list (z_hseg z2) start FT_SEGMENT_SIZE = Some start"
        using ee by (subst find_end_of_eof_list.simps) auto
      then show ?thesis using z2(1,2) True s2 s(2) by (auto simp: find_marks_def ftape_find_end_of_bsm_list_def)
    qed
  qed
qed

definition marked_tape :: zftape_info where
  "marked_tape = small_tape\<lparr>z_ftape := small_ftape\<lparr>hseg_buf := (replicate FT_SEGMENT_SIZE 0)[144 := 1, 256 := 7]\<rparr>\<rparr>"

theorem clear_removes_file_marks_witness:
  "\<exists>z1 z2. zft_ftape_extract_file_marks marked_tape = Some z1 \<and> nr_eof_marks z1 = 1
    \<and> zft_clear_ftape_file_marks z1 = Some z2 \<and> snd (find_marks z2) = 0"
proof -
  have n: "find_marks marked_tape = (Some 256, 1)"
    by (simp add: find_marks_def marked_tape_def small_ftape_def blank_info_def GET2_def load_le_numeral)
  define z1 where "z1 = marked_tape\<lparr>eof_map := Some 256, nr_eof_marks := 1\<rparr>"
  have "zft_ftape_extract_file_marks marked_tape = Some z1"
    by (simp add: zft_ftape_extract_file_marks_def n z1_def) (simp add: marked_tape_def small_tape_def)
  moreover have "length (z_hseg marked_tape) = FT_SEGMENT_SIZE" by (simp add: marked_tape_def)
  ultimately show ?thesis
    using clear_removes_file_marks [of marked_tape z1] by (auto simp: z1_def marks_inside_def)
qed

end
