(* ===== verification/Zft_Vtbl.thy ===== *)
theory Zft_Vtbl
  imports Zft_Eof
begin

text \<open>
  The volume table, from \<open>src/ftape/zftape/zftape-vtbl.c\<close>, with the helpers of
  \<open>src/ftape/zftape/zftape-inline.h\<close> and the block arithmetic of \<open>src/include/linux/zftape.h\<close>. \<open>None\<close>
  stands for what the code leaves undefined: a broken bad sector map, an access outside a buffer, a
  step out of the list of volumes or a division by zero. The configuration is the one with the
  compressor (\<open>CONFIG_ZFT_COMPRESSOR\<close>); the reset of the compression module is not part of the state.
\<close>

section \<open>Entries of the table\<close>

definition zft_last_vtbl :: "zftape_info \<Rightarrow> zft_volinfo" where
  "zft_last_vtbl z = (if vtbl_vols z = [] then vtbl_head z else last (vtbl_vols z))"

definition zft_first_vtbl :: "zftape_info \<Rightarrow> zft_volinfo" where
  "zft_first_vtbl z = (if vtbl_vols z = [] then vtbl_eom z else hd (vtbl_vols z))"

definition first_ref :: "zftape_info \<Rightarrow> vtbl_ref" where
  "first_ref z = (if vtbl_vols z = [] then Eom_Vtbl else Vol 0)"

text \<open>An assignment to fields of \<open>zft_last_vtbl\<close>.\<close>

definition update_last :: "(zft_volinfo \<Rightarrow> zft_volinfo) \<Rightarrow> zftape_info \<Rightarrow> zftape_info" where
  "update_last f z = (if vtbl_vols z = [] then z\<lparr>vtbl_head := f (vtbl_head z)\<rparr>
    else z\<lparr>vtbl_vols := butlast (vtbl_vols z) @ [f (last (vtbl_vols z))]\<rparr>)"

definition zft_new_vtbl_entry :: "zftape_info \<Rightarrow> zftape_info" where
  "zft_new_vtbl_entry z = z\<lparr>vtbl_vols := vtbl_vols z @ [blank_vol\<lparr>v_count := v_count (vtbl_eom z)\<rparr>],
     vtbl_eom := (vtbl_eom z)\<lparr>v_count := v_count (vtbl_eom z) + 1\<rparr>\<rparr>"

definition zft_init_vtbl :: "zftape_info \<Rightarrow> zftape_info" where
  "zft_init_vtbl z =
    (let ft = z_ftape z
     in z\<lparr>exvt_extension := False, vtbl_broken := False,
       vtbl_head := blank_vol\<lparr>v_end_seg := first_data_segment ft, v_blk_sz := z_blk_sz z, v_count := -1, v_offset := -128\<rparr>,
       vtbl_vols := [],
       vtbl_eom := blank_vol\<lparr>v_start_seg := first_data_segment ft + 1, v_end_seg := last_data_segment ft + 1,
         v_blk_sz := z_blk_sz z, v_count := 0, v_offset := 0\<rparr>,
       cur_vtbl := Eom_Vtbl,
       eot_vtbl := (eot_vtbl z)\<lparr>v_start_seg := last_data_segment ft + 1, v_end_seg := last_data_segment ft + 1,
         v_blk_sz := z_blk_sz z, v_size := 0, v_rawsize := 0, v_count := -1, v_offset := -1\<rparr>,
       tape_vtbl := (tape_vtbl z)\<lparr>v_start_seg := zft_first_segment z, v_end_seg := last_data_segment ft,
         v_blk_sz := z_blk_sz z, v_size := capacity z, v_rawsize := capacity z, v_count := 0, v_offset := -1\<rparr>\<rparr>)"

section \<open>The table on tape\<close>

abbreviation VTBL_SIZE :: nat where "VTBL_SIZE \<equiv> 128"
abbreviation VTBL_START :: nat where "VTBL_START \<equiv> 4"
abbreviation VTBL_END :: nat where "VTBL_END \<equiv> 6"
abbreviation VTBL_DESC :: nat where "VTBL_DESC \<equiv> 8"
abbreviation VTBL_DESC_LEN :: nat where "VTBL_DESC_LEN \<equiv> 44"
abbreviation VTBL_FLAGS :: nat where "VTBL_FLAGS \<equiv> 56"
abbreviation VTBL_M_NO :: nat where "VTBL_M_NO \<equiv> 57"
abbreviation VTBL_EXT :: nat where "VTBL_EXT \<equiv> 58"
abbreviation EXT_ZFT_BLKSZ :: nat where "EXT_ZFT_BLKSZ \<equiv> 10"
abbreviation EXT_ZFT_CMAP :: nat where "EXT_ZFT_CMAP \<equiv> 12"
abbreviation EXT_ZFT_QIC113 :: nat where "EXT_ZFT_QIC113 \<equiv> 13"
abbreviation VTBL_DATA_SIZE :: nat where "VTBL_DATA_SIZE \<equiv> 96"
abbreviation VTBL_K_CMPR :: nat where "VTBL_K_CMPR \<equiv> 120"
abbreviation VTBL_CMPR :: nat where "VTBL_CMPR \<equiv> 124"
abbreviation VTBL_CMPR_UNREG :: u8 where "VTBL_CMPR_UNREG \<equiv> 0x3f"
abbreviation VTBL_CMPR_USED :: u8 where "VTBL_CMPR_USED \<equiv> 0x80"
abbreviation VTBL_6_SEGS :: nat where "VTBL_6_SEGS \<equiv> 4"
abbreviation VTBL_6_MAJOR :: nat where "VTBL_6_MAJOR \<equiv> 58"
abbreviation VTBL_6_MINOR :: nat where "VTBL_6_MINOR \<equiv> 60"
abbreviation VTBL_6_EXT :: nat where "VTBL_6_EXT \<equiv> 62"
abbreviation EXT_6_ZFT_SIGV :: nat where "EXT_6_ZFT_SIGV \<equiv> 3"
abbreviation EXT_6_ZFT_BLKSZ :: nat where "EXT_6_ZFT_BLKSZ \<equiv> 4"
abbreviation VTBL_6_START :: nat where "VTBL_6_START \<equiv> 76"
abbreviation VTBL_6_END :: nat where "VTBL_6_END \<equiv> 80"
abbreviation ZFT_MAX_BLK_SZ :: int where "ZFT_MAX_BLK_SZ \<equiv> 63488"

definition VTBL_ID :: bytes where "VTBL_ID = ascii ''VTBL''"
definition ZFT_VOL_NAME :: bytes where "ZFT_VOL_NAME = ascii ''zftape volume''"
definition ZFT_SIG :: bytes where "ZFT_SIG = ascii ''LINUX ZFT''"
definition ZFT_SIG2 :: bytes where "ZFT_SIG2 = ascii ''ZFT''"

definition s32 :: "int \<Rightarrow> int" where "s32 i = sint (word_of_int i :: 32 word)"
definition u32 :: "int \<Rightarrow> int" where "u32 i = uint (word_of_int i :: 32 word)"

text \<open>
  \<open>check_volume_label\<close> looks for \<open>" blocksize "\<close> in the C string that starts at the description, that is
  up to the next zero byte of the table.
\<close>

fun strstr :: "bytes \<Rightarrow> bytes \<Rightarrow> bytes option" where
  "strstr hay needle =
    (if take (length needle) hay = needle then Some hay
     else case hay of [] \<Rightarrow> None | _ # rest \<Rightarrow> strstr rest needle)"

declare strstr.simps [simp del]

fun parse_blk_sz :: "int \<Rightarrow> bytes \<Rightarrow> int" where
  "parse_blk_sz n [] = n"
| "parse_blk_sz n (c # cs) = (if 48 \<le> c \<and> c \<le> 57 then parse_blk_sz (s32 (s32 (n * 10) + uint (c - 48))) cs else n)"

definition check_volume_label :: "bytes \<Rightarrow> nat \<Rightarrow> (bool \<times> int) option" where
  "check_volume_label m label =
    (if bytes_at m label (length ZFT_VOL_NAME) \<noteq> ZFT_VOL_NAME then Some (False, 1024)
     else if 0 \<notin> set (drop label m) then None
     else case strstr (takeWhile (\<lambda>c. c \<noteq> 0) (drop label m)) (ascii '' blocksize '') of
            None \<Rightarrow> Some (False, 1024)
          | Some s \<Rightarrow>
              let blk_sz = parse_blk_sz 0 (drop 11 s)
              in Some (if blk_sz > ZFT_MAX_BLK_SZ then (False, 1) else (True, blk_sz)))"

text \<open>The volume with its block size and version, and whether it is one of ours.\<close>

definition get_type_and_block_size :: "zftape_info \<Rightarrow> bytes \<Rightarrow> nat \<Rightarrow> zft_volinfo \<Rightarrow> (zft_volinfo \<times> bool) option" where
  "get_type_and_block_size z m e v =
    (if bytes_at m (e + VTBL_EXT) 10 = ZFT_SIG @ [0] then
       Some (v\<lparr>v_blk_sz := uint (GET2 m (e + VTBL_EXT + EXT_ZFT_BLKSZ)), v_qic113 := odd (m ! (e + VTBL_EXT + EXT_ZFT_QIC113)),
         v_version := 1\<rparr>, True)
     else if format_code (z_ftape z) = fmt_big \<and> bytes_at m (e + VTBL_6_EXT) 3 = ZFT_SIG2 then
       Some (v\<lparr>v_version := uint (m ! (e + VTBL_6_EXT + EXT_6_ZFT_SIGV)),
         v_blk_sz := uint (GET2 m (e + VTBL_6_EXT + EXT_6_ZFT_BLKSZ)), v_qic113 := True\<rparr>, True)
     else do {
       (valid, blk_sz) \<leftarrow> check_volume_label m (e + VTBL_DESC);
       Some (v\<lparr>v_version := 0, v_blk_sz := u32 blk_sz\<rparr>, valid)
     })"

fun decimal :: "nat \<Rightarrow> bytes" where
  "decimal n = (if n < 10 then [of_nat (48 + n)] else decimal (n div 10) @ [of_nat (48 + n mod 10)])"

declare decimal.simps [simp del]

text \<open>\<open>sprintf(..., ZFT_VOL_NAME" %03d", count)\<close>, padded with spaces.\<close>

definition volume_description :: "int \<Rightarrow> bytes" where
  "volume_description count =
    (let digits = decimal (nat count); s = ZFT_VOL_NAME @ [32] @ replicate (3 - length digits) 48 @ digits
     in s @ replicate (VTBL_DESC_LEN - length s) 32)"

definition create_zft_volume :: "zftape_info \<Rightarrow> bytes \<Rightarrow> nat \<Rightarrow> zft_volinfo \<Rightarrow> bytes" where
  "create_zft_volume z m e v =
    (let big = (format_code (z_ftape z) = fmt_big);
         m1 = blit m e (replicate VTBL_SIZE 0);
         m2 = blit m1 e VTBL_ID;
         m3 = blit m2 (e + VTBL_DESC) (volume_description (v_count v));
         m4 = m3[e + VTBL_FLAGS := 0x14, e + VTBL_M_NO := 1];
         m5 = (if big
               then PUT2 ((blit m4 (e + VTBL_6_EXT) ZFT_SIG2)[e + VTBL_6_EXT + EXT_6_ZFT_SIGV := 2])
                      (e + VTBL_6_EXT + EXT_6_ZFT_BLKSZ) (word_of_int (v_blk_sz v))
               else PUT2 (blit m4 (e + VTBL_EXT) (ZFT_SIG @ [0])) (e + VTBL_EXT + EXT_ZFT_BLKSZ) (word_of_int (v_blk_sz v)));
         cmpr = (if v_use_compression v then VTBL_CMPR_UNREG OR VTBL_CMPR_USED else VTBL_CMPR_UNREG);
         m6 = (if z_qic113 z
               then let m = (PUT8 m5 (e + VTBL_DATA_SIZE) (word_of_int (v_size v)))[e + VTBL_CMPR := cmpr]
                    in if big then m else m[e + VTBL_EXT + EXT_ZFT_QIC113 := 1]
               else (PUT4 m5 (e + VTBL_DATA_SIZE) (word_of_int (v_size v)))[e + VTBL_K_CMPR := cmpr])
     in if big
        then PUT4 (PUT4 (PUT4 (PUT2 (PUT2 m6 (e + VTBL_6_MAJOR) 113) (e + VTBL_6_MINOR) 7)
               (e + VTBL_6_SEGS) (word_of_int (v_end_seg v - v_start_seg v + 1)))
               (e + VTBL_6_START) (word_of_int (v_start_seg v)))
               (e + VTBL_6_END) (word_of_int (v_end_seg v))
        else PUT2 (PUT2 m6 (e + VTBL_START) (word_of_int (v_start_seg v))) (e + VTBL_END) (word_of_int (v_end_seg v)))"

text \<open>The loop of \<open>zft_create_volume_headers\<close> over the volumes; it returns the last entry visited.\<close>

fun create_entries :: "zftape_info \<Rightarrow> zft_volinfo list \<Rightarrow> nat \<Rightarrow> bytes \<Rightarrow> zft_volinfo list \<times> nat \<times> bytes" where
  "create_entries z [] e m = ([], e, m)"
| "create_entries z (v # vs) _ m =
    (let v1 = (if v_offset v \<ge> int FT_SEGMENT_SIZE then v\<lparr>v_offset := int (FT_SEGMENT_SIZE - VTBL_SIZE)\<rparr> else v);
         e = nat (v_offset v1);
         m1 = (if v_new_volume v1 then create_zft_volume z m e v1 else m);
         (vs', e', m') = create_entries z vs e m1
     in (v1\<lparr>v_new_volume := False\<rparr> # vs', e', m'))"

definition has_cmap :: "bytes \<Rightarrow> bool" where
  "has_cmap m \<longleftrightarrow> bytes_at m VTBL_EXT 10 = ZFT_SIG @ [0] \<and> m ! (VTBL_EXT + EXT_ZFT_CMAP) \<noteq> 0"

text \<open>\<open>None\<close> when the final \<open>memset\<close> runs past the end of the buffer.\<close>

definition zft_create_volume_headers :: "zftape_info \<Rightarrow> bytes \<Rightarrow> (zftape_info \<times> bytes) option" where
  "zft_create_volume_headers z m0 =
    (let m = (if has_cmap m0 then blit m0 0 (bytes_at m0 VTBL_SIZE (FT_SEGMENT_SIZE - VTBL_SIZE)) else m0);
         (vols, e, m1) = create_entries z (vtbl_vols z) 0 m;
         n = nat (int FT_SEGMENT_SIZE - v_count (vtbl_eom z) * int VTBL_SIZE)
     in if e + VTBL_SIZE + n \<le> length m1
        then Some (z\<lparr>vtbl_vols := vols\<rparr>, blit m1 (e + VTBL_SIZE) (replicate n 0))
        else None)"

section \<open>Reading the table\<close>

text \<open>\<open>zft_calc_tape_pos(end_seg + 1) - zft_calc_tape_pos(start_seg)\<close>; the first argument is converted to \<open>int\<close>.\<close>

definition segment_range_size :: "zftape_info \<Rightarrow> zft_volinfo \<Rightarrow> (zftape_info \<times> int) option" where
  "segment_range_size z v = do {
     (z1, p1) \<leftarrow> zft_calc_tape_pos z (s32 (v_end_seg v + 1));
     (z2, p2) \<leftarrow> zft_calc_tape_pos z1 (s32 (v_start_seg v));
     Some (z2, p1 - p2)
   }"

definition extract_alien_volume :: "zftape_info \<Rightarrow> zft_volinfo \<Rightarrow> (zftape_info \<times> zft_volinfo) option" where
  "extract_alien_volume z v = do {
     (z1, n) \<leftarrow> segment_range_size z v;
     Some (z1, v\<lparr>v_rawsize := n, v_size := n, v_use_compression := False, v_qic113 := z_qic113 z\<rparr>)
   }"

definition cmpr_bit :: "u8 \<Rightarrow> u8 \<Rightarrow> bool" where
  "cmpr_bit b k \<longleftrightarrow> b AND k \<noteq> 0"

definition extract_zft_volume :: "zftape_info \<Rightarrow> bytes \<Rightarrow> nat \<Rightarrow> zft_volinfo \<Rightarrow> (zftape_info \<times> zft_volinfo) option" where
  "extract_zft_volume z m e v = do {
     let v1 = (if v_qic113 v
       then v\<lparr>v_size := sint (GET8 m (e + VTBL_DATA_SIZE)), v_use_compression := cmpr_bit (m ! (e + VTBL_CMPR)) VTBL_CMPR_USED\<rparr>
       else let v' = v\<lparr>v_size := uint (GET4 m (e + VTBL_DATA_SIZE))\<rparr>
            in if cmpr_bit (m ! (e + VTBL_K_CMPR)) VTBL_CMPR_UNREG
               then v'\<lparr>v_use_compression := cmpr_bit (m ! (e + VTBL_K_CMPR)) VTBL_CMPR_USED\<rparr>
               else if cmpr_bit (m ! (e + VTBL_CMPR)) VTBL_CMPR_UNREG
               then v'\<lparr>v_use_compression := cmpr_bit (m ! (e + VTBL_CMPR)) VTBL_CMPR_USED\<rparr>
               else v');
     (z1, n) \<leftarrow> segment_range_size z v1;
     Some (z1, v1\<lparr>v_rawsize := n\<rparr>)
   }"

definition extract_segment_range :: "zftape_info \<Rightarrow> bytes \<Rightarrow> nat \<Rightarrow> zft_volinfo \<Rightarrow> zft_volinfo" where
  "extract_segment_range z m e v =
    (if format_code (z_ftape z) = fmt_big then
       if v_zft_volume v \<and> v_version v = 1 then
         let start = v_start_seg (vtbl_eom z)
         in v\<lparr>v_start_seg := start, v_end_seg := u32 (start + uint (GET4 m (e + VTBL_6_SEGS)) - 1)\<rparr>
       else v\<lparr>v_start_seg := uint (GET4 m (e + VTBL_6_START)), v_end_seg := uint (GET4 m (e + VTBL_6_END))\<rparr>
     else v\<lparr>v_start_seg := uint (GET2 m (e + VTBL_START)), v_end_seg := uint (GET2 m (e + VTBL_END))\<rparr>)"

text \<open>The body of the loop for a \<open>VTBL\<close> entry; \<open>prev_end\<close> is \<open>prev->end_seg\<close>.\<close>

definition extract_entry :: "zftape_info \<Rightarrow> bytes \<Rightarrow> nat \<Rightarrow> int \<Rightarrow> zftape_info option" where
  "extract_entry z m e prev_end = do {
     let z1 = zft_new_vtbl_entry z;
     (v1, ours) \<leftarrow> get_type_and_block_size z1 m e (zft_last_vtbl z1);
     let v2 = extract_segment_range z1 m e (v1\<lparr>v_zft_volume := ours\<rparr>);
     let z2 = z1\<lparr>vtbl_eom := (vtbl_eom z1)\<lparr>v_start_seg := u32 (v_end_seg v2 + 1)\<rparr>\<rparr>;
     (z3, v3) \<leftarrow> (if ours then extract_zft_volume z2 m e v2 else extract_alien_volume z2 v2);
     let v4 = v3\<lparr>v_offset := int e\<rparr>;
     let broken = (prev_end \<ge> v_start_seg v4 \<or> v_start_seg v4 \<le> v_end_seg (vtbl_head z3)
       \<or> v_end_seg v4 \<ge> v_end_seg (vtbl_eom z3));
     Some ((update_last (\<lambda>_. v4) z3)\<lparr>vtbl_broken := vtbl_broken z3 \<or> broken\<rparr>)
   }"

function extract_loop :: "zftape_info \<Rightarrow> bytes \<Rightarrow> nat \<Rightarrow> zftape_info option" where
  "extract_loop z m e =
    (if e < FT_SEGMENT_SIZE then
       let sig = bytes_at m e 4
       in if sig = ascii ''EXVT'' then Some (z\<lparr>exvt_extension := True\<rparr>)
          else if sig = ascii ''XTBL'' \<or> sig = ascii ''UTID'' then extract_loop z m (e + VTBL_SIZE)
          else if sig \<noteq> VTBL_ID then Some z
          else case extract_entry z m e (v_end_seg (zft_last_vtbl z)) of
                 None \<Rightarrow> None
               | Some z' \<Rightarrow> extract_loop z' m (e + VTBL_SIZE)
     else Some z)"
  by pat_completeness auto
termination by (relation "measure (\<lambda>(z, m, e). FT_SEGMENT_SIZE - e)") auto

declare extract_loop.simps [simp del]

definition zft_extract_volume_headers :: "zftape_info \<Rightarrow> bytes \<Rightarrow> zftape_info option" where
  "zft_extract_volume_headers z m =
    extract_loop (zft_init_vtbl z) m
      (if bytes_at m VTBL_EXT 9 = ZFT_SIG \<and> m ! (VTBL_EXT + EXT_ZFT_CMAP) \<noteq> 0 then VTBL_SIZE else 0)"

text \<open>
  \<open>zft_fake_volume_headers\<close>: the marks of an old tape as a virtual volume table. Mark \<open>i\<close> is a segment and a
  sector at \<open>eof_map + 4 * i\<close> of the header segment; sizes are computed in \<open>unsigned\<close> where the code does.
\<close>

definition eof_segment :: "bytes \<Rightarrow> nat \<Rightarrow> nat \<Rightarrow> int" where
  "eof_segment m p i = uint (GET2 m (p + 4 * i))"

definition eof_sector :: "bytes \<Rightarrow> nat \<Rightarrow> nat \<Rightarrow> int" where
  "eof_sector m p i = uint (GET2 m (p + 4 * i + 2))"

definition fake_volume :: "zftape_info \<Rightarrow> int \<Rightarrow> int \<Rightarrow> zftape_info option" where
  "fake_volume z segment sector = do {
     let z1 = zft_new_vtbl_entry z;
     let v = (zft_last_vtbl z1)\<lparr>v_start_seg := v_start_seg (vtbl_eom z1), v_end_seg := segment, v_blk_sz := 1\<rparr>;
     let z2 = z1\<lparr>vtbl_eom := (vtbl_eom z1)\<lparr>v_start_seg := segment + 1\<rparr>\<rparr>;
     (z3, p_end) \<leftarrow> zft_calc_tape_pos z2 (v_end_seg v);
     (z4, p_start) \<leftarrow> zft_calc_tape_pos z3 (v_start_seg v);
     (z5, raw) \<leftarrow> segment_range_size z4 v;
     Some (update_last (\<lambda>_. v\<lparr>v_size := p_end - p_start + u32 ((sector - 1) * int FT_SECTOR_SIZE), v_rawsize := raw\<rparr>) z5)
   }"

fun fake_volumes :: "bytes \<Rightarrow> nat \<Rightarrow> nat list \<Rightarrow> zftape_info \<Rightarrow> zftape_info option" where
  "fake_volumes m p [] z = Some z"
| "fake_volumes m p (i # is) z =
    (case fake_volume z (eof_segment m p i) (eof_sector m p i) of
       None \<Rightarrow> None
     | Some z' \<Rightarrow> fake_volumes m p is z')"

definition have_eom :: "bytes \<Rightarrow> nat \<Rightarrow> nat \<Rightarrow> bool" where
  "have_eom m p n \<longleftrightarrow> 2 \<le> n \<and> eof_segment m p (n - 1) = eof_segment m p (n - 2) + 1 \<and> eof_sector m p (n - 1) = 1"

definition zft_fake_volume_headers :: "zftape_info \<Rightarrow> bytes \<Rightarrow> nat \<Rightarrow> nat \<Rightarrow> zftape_info option" where
  "zft_fake_volume_headers z m p n =
    (if p + 4 * n > length m then None
     else do {
       let z1 = zft_init_vtbl z;
       let z2 = z1\<lparr>vtbl_eom := (vtbl_eom z1)\<lparr>v_start_seg := first_data_segment (z_ftape z1)\<rparr>\<rparr>;
       z3 \<leftarrow> fake_volumes m p [0..<(if have_eom m p n then n - 1 else n)] z2;
       if have_eom m p n then Some z3
       else do {
         let z4 = zft_new_vtbl_entry z3;
         let last = last_data_segment (z_ftape z4);
         let v = (zft_last_vtbl z4)\<lparr>v_start_seg := v_start_seg (vtbl_eom z4), v_end_seg := last, v_blk_sz := 1\<rparr>;
         let z5 = z4\<lparr>vtbl_eom := (vtbl_eom z4)\<lparr>v_start_seg := last + 1\<rparr>\<rparr>;
         (z6, pos) \<leftarrow> zft_calc_tape_pos z5 (v_start_seg v);
         Some (update_last (\<lambda>_. v\<lparr>v_size := capacity z6 - pos, v_rawsize := capacity z6 - pos\<rparr>) z6)
       }
     })"

section \<open>Looking up volumes\<close>

definition vtbl_at :: "zftape_info \<Rightarrow> vtbl_ref \<Rightarrow> zft_volinfo option" where
  "vtbl_at z r = (case r of
     Head_Vtbl \<Rightarrow> Some (vtbl_head z)
   | Vol i \<Rightarrow> if i < length (vtbl_vols z) then Some (vtbl_vols z ! i) else None
   | Eom_Vtbl \<Rightarrow> Some (vtbl_eom z)
   | Tape_Vtbl \<Rightarrow> Some (tape_vtbl z)
   | Eot_Vtbl \<Rightarrow> Some (eot_vtbl z))"

text \<open>\<open>node.next\<close> and \<open>node.prev\<close>; beyond the dummy entries there is the list head, which is no volume.\<close>

definition next_vtbl :: "zftape_info \<Rightarrow> vtbl_ref \<Rightarrow> vtbl_ref option" where
  "next_vtbl z r = (case r of
     Head_Vtbl \<Rightarrow> Some (first_ref z)
   | Vol i \<Rightarrow> Some (if Suc i < length (vtbl_vols z) then Vol (Suc i) else Eom_Vtbl)
   | _ \<Rightarrow> None)"

definition prev_vtbl :: "zftape_info \<Rightarrow> vtbl_ref \<Rightarrow> vtbl_ref option" where
  "prev_vtbl z r = (case r of
     Vol 0 \<Rightarrow> Some Head_Vtbl
   | Vol (Suc i) \<Rightarrow> Some (Vol i)
   | Eom_Vtbl \<Rightarrow> Some (if vtbl_vols z = [] then Head_Vtbl else Vol (length (vtbl_vols z) - 1))
   | _ \<Rightarrow> None)"

definition vtbl_rank :: "zftape_info \<Rightarrow> vtbl_ref \<Rightarrow> nat" where
  "vtbl_rank z r = (case r of Head_Vtbl \<Rightarrow> 0 | Vol i \<Rightarrow> min (Suc i) (length (vtbl_vols z)) | _ \<Rightarrow> Suc (length (vtbl_vols z)))"

lemma next_vtbl_rank: "next_vtbl z r = Some r' \<Longrightarrow> vtbl_rank z r < vtbl_rank z r'"
  by (auto simp: next_vtbl_def vtbl_rank_def first_ref_def split: vtbl_ref.splits if_splits)

lemma vtbl_rank_le: "vtbl_rank z r \<le> Suc (length (vtbl_vols z))"
  by (auto simp: vtbl_rank_def split: vtbl_ref.splits)

function seek_next :: "zftape_info \<Rightarrow> int \<Rightarrow> vtbl_ref \<Rightarrow> vtbl_ref option" where
  "seek_next z seg r =
    (case vtbl_at z r of
       None \<Rightarrow> None
     | Some v \<Rightarrow> if seg > v_end_seg v then (case next_vtbl z r of None \<Rightarrow> None | Some r' \<Rightarrow> seek_next z seg r') else Some r)"
  by pat_completeness auto
termination
  by (relation "measure (\<lambda>(z, s, r). Suc (Suc (length (vtbl_vols z))) - vtbl_rank z r)")
    (use next_vtbl_rank vtbl_rank_le in \<open>fastforce intro: diff_less_mono2 le_imp_less_Suc\<close>)+

lemma prev_vtbl_rank: "vtbl_at z r = Some v \<Longrightarrow> prev_vtbl z r = Some r' \<Longrightarrow> vtbl_rank z r' < vtbl_rank z r"
  by (auto simp: prev_vtbl_def vtbl_rank_def vtbl_at_def split: vtbl_ref.splits if_splits nat.splits)

function seek_prev :: "zftape_info \<Rightarrow> int \<Rightarrow> vtbl_ref \<Rightarrow> vtbl_ref option" where
  "seek_prev z seg r =
    (case vtbl_at z r of
       None \<Rightarrow> None
     | Some v \<Rightarrow> if seg < v_start_seg v then (case prev_vtbl z r of None \<Rightarrow> None | Some r' \<Rightarrow> seek_prev z seg r') else Some r)"
  by pat_completeness auto
termination by (relation "measure (\<lambda>(z, s, r). vtbl_rank z r)") (auto dest: prev_vtbl_rank)

declare seek_next.simps [simp del] seek_prev.simps [simp del]

text \<open>The segment is \<open>unsigned\<close>, so that the comparison with \<open>last_data_segment\<close> is one of unsigned numbers.\<close>

definition zft_volume_by_segpos :: "zftape_info \<Rightarrow> int \<Rightarrow> (zftape_info \<times> vtbl_ref) option" where
  "zft_volume_by_segpos z seg =
    (if \<not> qic_mode z then
       if seg > u32 (last_data_segment (z_ftape z)) then Some (z, Eot_Vtbl)
       else Some (z\<lparr>tape_vtbl := (tape_vtbl z)\<lparr>v_blk_sz := z_blk_sz z\<rparr>\<rparr>, Tape_Vtbl)
     else if seg < v_start_seg (zft_first_vtbl z) then Some (z\<lparr>cur_vtbl := first_ref z\<rparr>, first_ref z)
     else do {
       r1 \<leftarrow> seek_next z seg (cur_vtbl z);
       r2 \<leftarrow> seek_prev z seg r1;
       Some (z\<lparr>cur_vtbl := r2\<rparr>, r2)
     })"

definition zft_volume_size :: "zftape_info \<Rightarrow> zft_volinfo \<Rightarrow> int" where
  "zft_volume_size z v = (if \<not> v_use_compression v \<or> z_use_compression z then v_size v else v_rawsize v)"

definition zft_block_size :: "zftape_info \<Rightarrow> zft_volinfo \<Rightarrow> int" where
  "zft_block_size z v = (if v_use_compression v \<and> \<not> z_use_compression z then 1024 else v_blk_sz v)"

text \<open>The block arithmetic is done in 32 bits, except for the block size 1.\<close>

definition zft_div_blksz :: "int \<Rightarrow> int \<Rightarrow> int option" where
  "zft_div_blksz value blk_sz =
    (if blk_sz = 1 then Some value
     else let k = word_of_int (blk_sz div 1024) :: 32 word
          in if k = 0 then None else Some (uint ((word_of_int (value div 1024) + k - 1) div k)))"

definition zft_mul_blksz :: "int \<Rightarrow> int \<Rightarrow> int" where
  "zft_mul_blksz value blk_sz =
    (if blk_sz = 1 then value
     else uint (push_bit 10 (word_of_int value * word_of_int (blk_sz div 1024) :: 32 word)))"

fun blk_offs_loop :: "zftape_info \<Rightarrow> zft_volinfo list \<Rightarrow> int \<Rightarrow> int option" where
  "blk_offs_loop z [] offset = Some offset"
| "blk_offs_loop z (v # vs) offset =
    (case zft_div_blksz (zft_volume_size z v) (zft_block_size z v) of
       None \<Rightarrow> None
     | Some n \<Rightarrow> blk_offs_loop z vs (offset + n + 1))"

definition zft_blk_offs :: "zftape_info \<Rightarrow> vtbl_ref \<Rightarrow> int result option" where
  "zft_blk_offs z r =
    (if \<not> qic_mode z then
       case r of
         Tape_Vtbl \<Rightarrow> Some (Inr 0)
       | Eot_Vtbl \<Rightarrow> map_option Inr (zft_div_blksz (capacity z) (z_blk_sz z))
       | _ \<Rightarrow> Some (Inl EINVAL)
     else map_option Inr (blk_offs_loop z (case r of Vol i \<Rightarrow> take i (vtbl_vols z) | _ \<Rightarrow> vtbl_vols z) 0))"

text \<open>The loop of \<open>zft_volume_by_blkpos\<close>: the volume with its index and the block offset of its start.\<close>

fun blkpos_loop :: "zftape_info \<Rightarrow> zft_volinfo list \<Rightarrow> nat \<Rightarrow> int \<Rightarrow> int \<Rightarrow> (vtbl_ref \<times> int) option" where
  "blkpos_loop z [] i blk_pos offset =
    (case zft_div_blksz (zft_volume_size z (vtbl_eom z)) (zft_block_size z (vtbl_eom z)) of
       None \<Rightarrow> None
     | Some _ \<Rightarrow> Some (Eom_Vtbl, offset))"
| "blkpos_loop z (v # vs) i blk_pos offset =
    (case zft_div_blksz (zft_volume_size z v) (zft_block_size z v) of
       None \<Rightarrow> None
     | Some n \<Rightarrow> if offset + n < blk_pos then blkpos_loop z vs (Suc i) blk_pos (offset + n + 1) else Some (Vol i, offset))"

definition zft_volume_by_blkpos :: "zftape_info \<Rightarrow> int \<Rightarrow> (zftape_info \<times> vtbl_ref \<times> int option) option" where
  "zft_volume_by_blkpos z blk_pos =
    (if \<not> qic_mode z then
       if blk_pos * z_blk_sz z > capacity z
       then Some (z\<lparr>eot_vtbl := (eot_vtbl z)\<lparr>v_blk_sz := z_blk_sz z\<rparr>\<rparr>, Eot_Vtbl, None)
       else Some (z\<lparr>tape_vtbl := (tape_vtbl z)\<lparr>v_blk_sz := z_blk_sz z\<rparr>\<rparr>, Tape_Vtbl, None)
     else if blk_pos \<le> 0 then Some (z, first_ref z, None)
     else do {
       (r, offset) \<leftarrow> blkpos_loop z (vtbl_vols z) 0 blk_pos 0;
       Some (z, r, Some offset)
     })"

section \<open>Positions\<close>

definition zft_tape_at_lbot :: "zftape_info \<Rightarrow> zft_position \<Rightarrow> bool" where
  "zft_tape_at_lbot z pos =
    (if \<not> header_read z \<or> \<not> vtbl_read z then True
     else if qic_mode z then u32 (seg_pos pos) \<le> v_start_seg (zft_first_vtbl z) \<and> volume_pos pos = 0
     else seg_pos pos \<le> zft_first_segment z \<and> volume_pos pos = 0)"

definition zft_tape_at_eod :: "zftape_info \<Rightarrow> zft_position \<Rightarrow> bool" where
  "zft_tape_at_eod z pos =
    (if qic_mode z then u32 (seg_pos pos) \<ge> v_start_seg (vtbl_eom z) \<or> v_open (zft_last_vtbl z)
     else seg_pos pos > last_data_segment (z_ftape z))"

definition zft_vtbl_soft_ro :: "zftape_info \<Rightarrow> bool" where
  "zft_vtbl_soft_ro z \<longleftrightarrow> old_ftape z \<or> exvt_extension z \<or> vtbl_broken z"

definition zft_position_before_eof :: "zftape_info \<Rightarrow> zft_position \<Rightarrow> zft_volinfo \<Rightarrow> (zftape_info \<times> zft_position) option" where
  "zft_position_before_eof z pos v =
    (if u32 (seg_pos pos) = u32 (v_end_seg v + 1) \<and> seg_byte_pos pos = 0 then do {
       (z1, sz) \<leftarrow> zft_get_seg_sz z (seg_pos pos - 1);
       Some (z1, pos\<lparr>seg_pos := seg_pos pos - 1, seg_byte_pos := sz\<rparr>)
     }
     else Some (z, pos))"

text \<open>\<open>zft_release_deblock_buffer\<close> also drops the data read ahead (\<open>zft_zap_read_buffers\<close>).\<close>

definition zft_zap_read_buffers :: "zftape_info \<Rightarrow> zftape_info" where
  "zft_zap_read_buffers z = z\<lparr>buf_len_rd := 0\<rparr>"

definition zft_zap_write_buffers :: "zftape_info \<Rightarrow> zftape_info" where
  "zft_zap_write_buffers z = z\<lparr>hard_errors := [], hard_error_cnt := hard_error_cnt z - int (length (hard_errors z))\<rparr>"

definition zft_prevent_flush :: "zftape_info \<Rightarrow> zftape_info" where
  "zft_prevent_flush z = z\<lparr>need_flush := False\<rparr>"

lemmas zap_defs = zft_zap_read_buffers_def zft_zap_write_buffers_def zft_prevent_flush_def

definition zft_release_deblock_buffer :: "zftape_info \<Rightarrow> zftape_info" where
  "zft_release_deblock_buffer z = z\<lparr>buf_len_rd := 0, deblock_segment := -1, deblock_buf := None\<rparr>"

definition stop_io :: "zftape_info \<Rightarrow> zftape_info" where
  "stop_io z = zft_prevent_flush (zft_zap_write_buffers (zft_zap_read_buffers
     (zft_release_deblock_buffer (z\<lparr>just_before_eof := False, io_state := zft_idle\<rparr>))))"

definition zft_reset_position :: "zftape_info \<Rightarrow> zft_position \<Rightarrow> (zftape_info \<times> zft_position) option" where
  "zft_reset_position z pos = do {
     let pos1 = pos\<lparr>seg_byte_pos := 0, volume_pos := 0\<rparr>;
     (z1, pos2) \<leftarrow>
       (if vtbl_read z \<or> (header_read z \<and> \<not> qic_mode z) then do {
          (z1, r) \<leftarrow> zft_volume_by_segpos z 0;
          v \<leftarrow> vtbl_at z1 r;
          (z2, p) \<leftarrow> zft_calc_tape_pos z1 (v_start_seg v);
          Some (z2, pos1\<lparr>seg_pos := v_start_seg v, tape_pos := p\<rparr>)
        }
        else Some (z, pos1\<lparr>tape_pos := 0, seg_pos := -1\<rparr>));
     Some (stop_io z1, pos2)
   }"

definition zft_update_raw_image :: "zftape_info \<Rightarrow> zftape_info option" where
  "zft_update_raw_image z =
    (let raw = (\<not> qic_mode z \<and> write_protected z)
     in if raw = raw_image z then Some z
        else let z1 = z\<lparr>raw_image := raw\<rparr>
             in if header_read z1 then do {
                  (z2, c) \<leftarrow> zft_get_capacity z1;
                  let z3 = zft_init_vtbl (z2\<lparr>capacity := c, vtbl_read := False\<rparr>);
                  (z4, pos) \<leftarrow> zft_reset_position z3 (z_pos z3);
                  Some (z4\<lparr>z_pos := pos\<rparr>)
                }
                else Some z1)"

section \<open>Writing, closing and skipping volumes\<close>

abbreviation ZFT_MAX_VOLUMES :: "zftape_info \<Rightarrow> int" where "ZFT_MAX_VOLUMES z \<equiv> vtbl_size z div 128"

text \<open>The old marks are dropped when a tape is overwritten from its start.\<close>

definition forget_old_tape :: "zftape_info \<Rightarrow> zftape_info option" where
  "forget_old_tape z =
    (let z1 = zft_init_vtbl z
     in if old_ftape z1 then do {
          z2 \<leftarrow> zft_clear_ftape_file_marks z1;
          Some (z2\<lparr>old_ftape := False\<rparr>)
        }
        else Some z1)"

definition zft_open_volume :: "zftape_info \<Rightarrow> zft_position \<Rightarrow> int \<Rightarrow> (zftape_info \<times> zft_position \<times> unit result) option" where
  "zft_open_volume z0 pos0 blk_sz =
    (if \<not> qic_mode z0 then Some (z0, pos0, Inr ())
     else do {
       (z, pos) \<leftarrow> (if zft_tape_at_lbot z0 pos0 then do { z1 \<leftarrow> forget_old_tape z0; zft_reset_position z1 pos0 }
                     else Some (z0, pos0));
       let offset = u32 (v_offset (zft_last_vtbl z) + int VTBL_SIZE);
       if u32 (seg_pos pos) \<noteq> u32 (v_end_seg (zft_last_vtbl z) + 1) then Some (z, pos, Inl EIO)
       else if v_count (vtbl_eom z) \<ge> ZFT_MAX_VOLUMES z then Some (z, pos, Inl ENOSPC)
       else if offset \<ge> int FT_SEGMENT_SIZE then Some (z, pos, Inl EIO)
       else
         let z2 = update_last (\<lambda>v. v\<lparr>v_start_seg := seg_pos pos, v_end_seg := last_data_segment (z_ftape z), v_blk_sz := blk_sz,
                    v_size := capacity z, v_zft_volume := True, v_use_compression := False, v_qic113 := z_qic113 z,
                    v_offset := offset, v_version := (if z_qic113 z then 2 else 0), v_new_volume := True, v_open := True\<rparr>)
                    (zft_new_vtbl_entry z);
             z3 = z2\<lparr>volume_table_changed := True,
                    vtbl_eom := (vtbl_eom z2)\<lparr>v_start_seg := last_data_segment (z_ftape z) + 1\<rparr>\<rparr>
         in Some (z3, pos\<lparr>volume_pos := 0, seg_byte_pos := 0\<rparr>, Inr ())
     })"

text \<open>The loops of \<open>zft_skip_volumes\<close>; the count that is left is returned with the volume.\<close>

fun skip_forward :: "zftape_info \<Rightarrow> nat \<Rightarrow> vtbl_ref \<Rightarrow> (nat \<times> vtbl_ref) option" where
  "skip_forward z 0 r = Some (0, r)"
| "skip_forward z (Suc n) r =
    (if r = Eom_Vtbl then Some (Suc n, r)
     else case next_vtbl z r of None \<Rightarrow> None | Some r' \<Rightarrow> skip_forward z n r')"

fun skip_backward :: "zftape_info \<Rightarrow> nat \<Rightarrow> vtbl_ref \<Rightarrow> (nat \<times> vtbl_ref) option" where
  "skip_backward z 0 r = Some (0, r)"
| "skip_backward z (Suc n) r =
    (if r = first_ref z then Some (Suc n, r)
     else case prev_vtbl z r of None \<Rightarrow> None | Some r' \<Rightarrow> skip_backward z n r')"

definition zft_skip_volumes :: "zftape_info \<Rightarrow> int \<Rightarrow> zft_position \<Rightarrow> (zftape_info \<times> zft_position \<times> unit result) option" where
  "zft_skip_volumes z count pos = do {
     (z1, r) \<leftarrow> zft_volume_by_segpos z (u32 (seg_pos pos));
     (left, r') \<leftarrow> (if count \<ge> 0 then skip_forward z1 (nat count) r else skip_backward z1 (nat (- count)) r);
     v \<leftarrow> vtbl_at z1 r';
     (z2, p) \<leftarrow> zft_calc_tape_pos z1 (v_start_seg v);
     let z3 = zft_release_deblock_buffer (z2\<lparr>just_before_eof := (zft_volume_size z2 v = 0)\<rparr>);
     Some (z3\<lparr>resid := int left\<rparr>, pos\<lparr>seg_pos := v_start_seg v, seg_byte_pos := 0, volume_pos := 0, tape_pos := p\<rparr>,
       if left \<noteq> 0 then Inl EINVAL else Inr ())
   }"

definition zft_get_eom_pos :: "zftape_info \<Rightarrow> (zftape_info \<times> int) option" where
  "zft_get_eom_pos z = (if qic_mode z then zft_calc_tape_pos z (v_start_seg (vtbl_eom z)) else Some (z, capacity z))"

definition zft_skip_to_eom :: "zftape_info \<Rightarrow> zft_position \<Rightarrow> (zftape_info \<times> zft_position) option" where
  "zft_skip_to_eom z pos = do {
     let seg = v_start_seg (vtbl_eom z);
     (z1, p) \<leftarrow> zft_calc_tape_pos (z\<lparr>just_before_eof := False\<rparr>) seg;
     Some (z1, pos\<lparr>seg_pos := seg, seg_byte_pos := 0, volume_pos := 0, tape_pos := p\<rparr>)
   }"

definition zft_close_volume :: "zftape_info \<Rightarrow> zft_position \<Rightarrow> (zftape_info \<times> zft_position \<times> unit result) option" where
  "zft_close_volume z pos =
    (if vtbl_vols z = [] \<or> \<not> v_open (zft_last_vtbl z) then Some (z, pos, Inl EIO)
     else do {
       (z1, pos1) \<leftarrow> (if seg_byte_pos pos = 0 \<and> seg_pos pos \<noteq> v_start_seg (zft_last_vtbl z) then do {
            (z1, sz) \<leftarrow> zft_get_seg_sz z (seg_pos pos - 1);
            Some (z1, pos\<lparr>seg_pos := seg_pos pos - 1, seg_byte_pos := sz\<rparr>)
          } else Some (z, pos));
       let v = (zft_last_vtbl z1)\<lparr>v_end_seg := seg_pos pos1, v_size := volume_pos pos1\<rparr>;
       (z2, raw) \<leftarrow> segment_range_size z1 v;
       let z3 = update_last (\<lambda>_. v\<lparr>v_rawsize := raw, v_open := False\<rparr>) z2;
       Some (z3\<lparr>vtbl_eom := (vtbl_eom z3)\<lparr>v_start_seg := seg_pos pos1 + 1\<rparr>, volume_table_changed := True, just_before_eof := True\<rparr>,
         pos1, Inr ())
     })"

definition zft_move_past_eof :: "zftape_info \<Rightarrow> zft_position \<Rightarrow> (zftape_info \<times> zft_position) option" where
  "zft_move_past_eof z pos = do {
     (z1, sz) \<leftarrow> zft_get_seg_sz z (seg_pos pos);
     Some (zft_release_deblock_buffer (z1\<lparr>just_before_eof := False\<rparr>),
       pos\<lparr>tape_pos := tape_pos pos + sz - seg_byte_pos pos, seg_pos := seg_pos pos + 1, seg_byte_pos := 0, volume_pos := 0\<rparr>)
   }"

text \<open>The loop of \<open>zft_weof\<close> appends empty volumes; it returns the number of marks not written.\<close>

fun weof_loop :: "zftape_info \<Rightarrow> nat \<Rightarrow> zft_position \<Rightarrow> (zftape_info \<times> zft_position \<times> nat result) option" where
  "weof_loop z 0 pos = Some (z, pos, Inr 0)"
| "weof_loop z (Suc n) pos =
    (if seg_pos pos \<le> last_data_segment (z_ftape z) \<and> v_count (vtbl_eom z) < ZFT_MAX_VOLUMES z then
       let offset = u32 (v_offset (zft_last_vtbl z) + int VTBL_SIZE)
       in if offset \<ge> int FT_SEGMENT_SIZE then Some (z, pos, Inl EIO)
          else
            let z1 = update_last (\<lambda>v. v\<lparr>v_start_seg := seg_pos pos, v_end_seg := seg_pos pos, v_size := 0, v_blk_sz := z_blk_sz z,
                       v_zft_volume := True, v_use_compression := False, v_qic113 := z_qic113 z, v_offset := offset,
                       v_version := (if z_qic113 z then 2 else 0), v_new_volume := True\<rparr>) (zft_new_vtbl_entry z)
            in case zft_get_seg_sz z1 (seg_pos pos) of
                 None \<Rightarrow> None
               | Some (z2, sz) \<Rightarrow>
                   weof_loop (z2\<lparr>vtbl_eom := (vtbl_eom z2)\<lparr>v_start_seg := seg_pos pos + 1\<rparr>\<rparr>) n
                     (pos\<lparr>tape_pos := tape_pos pos + sz, seg_pos := seg_pos pos + 1\<rparr>)
     else Some (z, pos, Inr (Suc n)))"

definition zft_weof :: "zftape_info \<Rightarrow> nat \<Rightarrow> zft_position \<Rightarrow> (zftape_info \<times> zft_position \<times> unit result) option" where
  "zft_weof z0 count pos0 =
    (if count = 0 then Some (z0, pos0, Inr ())
     else do {
       let z1 = z0\<lparr>volume_table_changed := True\<rparr>;
       z2 \<leftarrow> (if zft_tape_at_lbot z1 pos0 then forget_old_tape z1 else Some z1);
       (z3, pos1, n) \<leftarrow>
         (if v_open (zft_last_vtbl z2) then do {
            (z3, pos1, _) \<leftarrow> zft_close_volume z2 pos0;
            (z4, pos2) \<leftarrow> zft_move_past_eof z3 pos1;
            Some (z4, pos2, count - 1)
          } else Some (z2, pos0, count));
       (z4, pos2, rc) \<leftarrow> weof_loop z3 n pos1;
       Some (case rc of
         Inl e \<Rightarrow> (z4, pos2, Inl e)
       | Inr left \<Rightarrow>
           if left > 0 then (z4\<lparr>resid := int left\<rparr>, pos2, Inl (if v_count (vtbl_eom z4) = ZFT_MAX_VOLUMES z4 then EINVAL else ENOSPC))
           else (z4, pos2, Inr ()))
     })"

end
