(* ===== verification/Zft_Volumes.thy ===== *)
theory Zft_Volumes
  imports Zft_Vtbl
begin

text \<open>
  Theorems of the volume table: the order of the volumes as an invariant of the operations that write,
  close and mark volumes, the look-up of the volume at a segment, the entries of the table on tape, and
  block addresses.
\<close>

section \<open>Frames\<close>

lemma same_tapeE:
  assumes "same_tape z z'"
  obtains ft s p where "z' = z\<lparr>z_ftape := ft, z_seg_pos := s, z_tape_pos := p\<rparr>"
    "first_data_segment ft = first_data_segment (z_ftape z)" "last_data_segment ft = last_data_segment (z_ftape z)"
    "format_code ft = format_code (z_ftape z)"
proof (rule that)
  show "z' = z\<lparr>z_ftape := z_ftape z', z_seg_pos := z_seg_pos z', z_tape_pos := z_tape_pos z'\<rparr>"
    using assms unfolding same_tape_def by blast
qed (use assms in \<open>simp_all add: same_tape_def\<close>)

lemma same_tape_move: "same_tape z (z\<lparr>z_tape_pos := t, z_seg_pos := q\<rparr>)"
  by (simp add: same_tape_def)

lemma get_seg_sz_same: "zft_get_seg_sz z s = Some (z', n) \<Longrightarrow> same_tape z z'"
  using get_seg_sz_frame by (fastforce simp: same_tape_def)

lemma advance_to_same: "advance_to s z = Some z' \<Longrightarrow> same_tape z z'"
proof (induction s z rule: advance_to.induct)
  case (1 s z)
  show ?case
  proof (cases "z_seg_pos z < s")
    case True
    then obtain z1 n where g: "zft_get_seg_sz z (z_seg_pos z) = Some (z1, n)"
      "advance_to s (z1\<lparr>z_tape_pos := z_tape_pos z1 + n, z_seg_pos := z_seg_pos z + 1\<rparr>) = Some z'"
      using "1.prems" by (subst (asm) advance_to.simps) (auto split: option.splits)
    have "same_tape z (z1\<lparr>z_tape_pos := z_tape_pos z1 + n, z_seg_pos := z_seg_pos z + 1\<rparr>)"
      by (rule same_tape_trans [OF get_seg_sz_same [OF g(1)] same_tape_move])
    with "1.IH" [OF True g(1) refl g(2)] show ?thesis by (rule same_tape_trans [rotated])
  qed (use "1.prems" same_tape_refl in \<open>subst (asm) advance_to.simps, auto\<close>)
qed

lemma retreat_to_same: "retreat_to s z = Some z' \<Longrightarrow> same_tape z z'"
proof (induction s z rule: retreat_to.induct)
  case (1 s z)
  show ?case
  proof (cases "z_seg_pos z > s")
    case True
    then obtain z1 n where g: "zft_get_seg_sz z (z_seg_pos z - 1) = Some (z1, n)"
      "retreat_to s (z1\<lparr>z_tape_pos := z_tape_pos z1 - n, z_seg_pos := z_seg_pos z - 1\<rparr>) = Some z'"
      using "1.prems" by (subst (asm) retreat_to.simps) (auto split: option.splits)
    have "same_tape z (z1\<lparr>z_tape_pos := z_tape_pos z1 - n, z_seg_pos := z_seg_pos z - 1\<rparr>)"
      by (rule same_tape_trans [OF get_seg_sz_same [OF g(1)] same_tape_move])
    with "1.IH" [OF True g(1) refl g(2)] show ?thesis by (rule same_tape_trans [rotated])
  qed (use "1.prems" same_tape_refl in \<open>subst (asm) retreat_to.simps, auto\<close>)
qed

lemma calc_tape_pos_same:
  assumes "zft_calc_tape_pos z s = Some (z', p)"
  shows "same_tape z z'"
proof (cases "s > last_data_segment (z_ftape z) \<or> s < zft_first_segment z")
  case True
  with assms show ?thesis by (auto simp: zft_calc_tape_pos_def same_tape_refl split: if_splits)
next
  case False
  then obtain b1 b2 b3 z1 z2 where z:
    "z1 = (if b1 then z\<lparr>z_tape_pos := 0, z_seg_pos := zft_first_segment z\<rparr> else z)"
    "z2 = (if b2 then z1\<lparr>z_tape_pos := capacity z1, z_seg_pos := last_data_segment (z_ftape z) + 1\<rparr> else z1)"
    "(if b3 then advance_to s z2 else retreat_to s z2) = Some z'"
    using assms unfolding zft_calc_tape_pos_def Let_def 
    by (simp only: bind_eq_Some_conv if_False de_Morgan_disj option.inject prod.inject)
      (elim exE conjE, hypsubst, rule that [OF refl refl], assumption)
  have 1: "same_tape z z1" unfolding z(1) using same_tape_move same_tape_refl by simp
  have 2: "same_tape z1 z2" unfolding z(2) using same_tape_move same_tape_refl by simp
  have "same_tape z2 z'" using z(3) advance_to_same retreat_to_same by (simp split: if_splits)
  with 1 2 show ?thesis by (blast intro: same_tape_trans)
qed

lemma segment_range_size_same:
  assumes "segment_range_size z v = Some (z', n)"
  shows "same_tape z z'"
proof -
  from assms obtain z1 p1 p2 where "zft_calc_tape_pos z (s32 (v_end_seg v + 1)) = Some (z1, p1)"
    "zft_calc_tape_pos z1 (s32 (v_start_seg v)) = Some (z', p2)"
    by (auto simp: segment_range_size_def bind_eq_Some_conv)
  then show ?thesis by (blast intro: calc_tape_pos_same same_tape_trans)
qed

text \<open>What the table consists of is untouched by computing positions.\<close>

lemma same_tape_table:
  assumes "same_tape z z'"
  shows "vtbl_head z' = vtbl_head z" "vtbl_vols z' = vtbl_vols z" "vtbl_eom z' = vtbl_eom z" "cur_vtbl z' = cur_vtbl z"
    "first_data_segment (z_ftape z') = first_data_segment (z_ftape z)" "qic_mode z' = qic_mode z"
    "last_data_segment (z_ftape z') = last_data_segment (z_ftape z)" "zft_last_vtbl z' = zft_last_vtbl z" "vtbl_size z' = vtbl_size z"
  using assms by (auto elim!: same_tapeE simp: zft_last_vtbl_def)

section \<open>The order of the volumes\<close>

text \<open>
  The invariant of a volume table in memory: the volumes follow each other on tape between the volume
  table segment (the end of the head entry) and the last data segment, the end-of-medium entry
  starts behind the last volume, its count is the number of volumes, and the pointer of the look-up
  is an entry of the table.
\<close>

definition volumes_ordered :: "zftape_info \<Rightarrow> bool" where
  "volumes_ordered z \<longleftrightarrow> sorted_wrt (\<lambda>a b. v_end_seg a < v_start_seg b) (vtbl_head z # vtbl_vols z)
    \<and> (\<forall>v\<in>set (vtbl_vols z). v_start_seg v \<le> v_end_seg v \<and> v_end_seg v \<le> last_data_segment (z_ftape z))"

definition cur_ok :: "zftape_info \<Rightarrow> bool" where
  "cur_ok z \<longleftrightarrow> (case cur_vtbl z of Vol i \<Rightarrow> i < length (vtbl_vols z) | Eom_Vtbl \<Rightarrow> True | _ \<Rightarrow> False)"

definition table_ok :: "zftape_info \<Rightarrow> bool" where
  "table_ok z \<longleftrightarrow> 0 \<le> first_data_segment (z_ftape z) \<and> first_data_segment (z_ftape z) < last_data_segment (z_ftape z)
    \<and> last_data_segment (z_ftape z) < 2 ^ 31 - 2 \<and> v_end_seg (vtbl_head z) = first_data_segment (z_ftape z)
    \<and> volumes_ordered z \<and> v_start_seg (vtbl_eom z) = v_end_seg (zft_last_vtbl z) + 1
    \<and> v_end_seg (vtbl_eom z) = last_data_segment (z_ftape z) + 1
    \<and> v_count (vtbl_eom z) = int (length (vtbl_vols z)) \<and> cur_ok z"

lemmas table_defs = table_ok_def volumes_ordered_def cur_ok_def

lemma same_tape_table_ok: "same_tape z z' \<Longrightarrow> table_ok z' = table_ok z"
  using same_tape_table [of z z'] by (simp add: table_defs split: vtbl_ref.splits)

lemma last_entry_bounds:
  assumes "table_ok z"
  shows "first_data_segment (z_ftape z) \<le> v_end_seg (zft_last_vtbl z)" "v_end_seg (zft_last_vtbl z) \<le> last_data_segment (z_ftape z)"
proof -
  have "first_data_segment (z_ftape z) \<le> v_end_seg (last (vtbl_vols z))" if "vtbl_vols z \<noteq> []"
  proof -
    have "last (vtbl_vols z) \<in> set (vtbl_vols z)" using that by simp
    with assms have "v_end_seg (vtbl_head z) < v_start_seg (last (vtbl_vols z))" "v_start_seg (last (vtbl_vols z)) \<le> v_end_seg (last (vtbl_vols z))"
      by (auto simp: table_defs)
    with assms show ?thesis by (simp add: table_defs)
  qed
  with assms show "first_data_segment (z_ftape z) \<le> v_end_seg (zft_last_vtbl z)"
    "v_end_seg (zft_last_vtbl z) \<le> last_data_segment (z_ftape z)"
    by (auto simp: zft_last_vtbl_def table_defs)
qed

text \<open>All entries end before the segment behind the last one.\<close>

lemma all_before_next:
  assumes "table_ok z" "v \<in> set (vtbl_head z # vtbl_vols z)"
  shows "v_end_seg v < v_end_seg (zft_last_vtbl z) + 1"
proof (cases "vtbl_vols z = []")
  case True
  with assms(2) show ?thesis by (simp add: zft_last_vtbl_def)
next
  case False
  then have v: "vtbl_head z # vtbl_vols z = (vtbl_head z # butlast (vtbl_vols z)) @ [last (vtbl_vols z)]" by simp
  have "sorted_wrt (\<lambda>a b. v_end_seg a < v_start_seg b) (vtbl_head z # vtbl_vols z)" using assms(1) unfolding table_defs by blast
  then have "\<forall>a\<in>set (vtbl_head z # butlast (vtbl_vols z)). v_end_seg a < v_start_seg (last (vtbl_vols z))"
    unfolding v sorted_wrt_append by simp
  moreover have "v_start_seg (last (vtbl_vols z)) \<le> v_end_seg (last (vtbl_vols z))" using assms(1) False by (simp add: table_defs)
  moreover have "v \<in> set (vtbl_head z # butlast (vtbl_vols z)) \<or> v = last (vtbl_vols z)" using assms(2) unfolding v by auto
  ultimately show ?thesis using False by (auto simp: zft_last_vtbl_def)
qed

text \<open>Appending a volume behind the last one.\<close>

lemma append_volume_ok:
  assumes "table_ok z" "v_end_seg (zft_last_vtbl z) < v_start_seg v" "v_start_seg v \<le> v_end_seg v"
    "v_end_seg v \<le> last_data_segment (z_ftape z)"
    and z': "vtbl_head z' = vtbl_head z" "vtbl_vols z' = vtbl_vols z @ [v]" "z_ftape z' = z_ftape z" "cur_vtbl z' = cur_vtbl z"
      "v_start_seg (vtbl_eom z') = v_end_seg v + 1" "v_end_seg (vtbl_eom z') = v_end_seg (vtbl_eom z)"
      "v_count (vtbl_eom z') = v_count (vtbl_eom z) + 1"
  shows "table_ok z'"
proof -
  have "sorted_wrt (\<lambda>a b. v_end_seg a < v_start_seg b) ((vtbl_head z # vtbl_vols z) @ [v])"
    using assms(1,2) all_before_next [OF assms(1)] unfolding sorted_wrt_append by (fastforce simp: table_defs)
  then have "volumes_ordered z'" using assms by (auto simp: volumes_ordered_def table_ok_def)
  moreover have "cur_ok z'" using assms(1) z' by (auto simp: table_defs split: vtbl_ref.splits)
  ultimately show ?thesis using assms by (simp add: table_ok_def zft_last_vtbl_def)
qed

text \<open>Moving the end of the last volume.\<close>

lemma close_volume_ok:
  assumes "table_ok z" "vtbl_vols z \<noteq> []" "v_start_seg v = v_start_seg (zft_last_vtbl z)" "v_start_seg v \<le> v_end_seg v"
    "v_end_seg v \<le> last_data_segment (z_ftape z)"
    and z': "vtbl_head z' = vtbl_head z" "vtbl_vols z' = butlast (vtbl_vols z) @ [v]" "z_ftape z' = z_ftape z" "cur_vtbl z' = cur_vtbl z"
      "v_start_seg (vtbl_eom z') = v_end_seg v + 1" "v_end_seg (vtbl_eom z') = v_end_seg (vtbl_eom z)"
      "v_count (vtbl_eom z') = v_count (vtbl_eom z)"
  shows "table_ok z'"
proof -
  have split: "vtbl_vols z = butlast (vtbl_vols z) @ [zft_last_vtbl z]" using assms(2) by (simp add: zft_last_vtbl_def)
  have "sorted_wrt (\<lambda>a b. v_end_seg a < v_start_seg b) (vtbl_head z # vtbl_vols z)"
    using assms(1) unfolding table_defs by blast
  moreover have "vtbl_head z # vtbl_vols z = (vtbl_head z # butlast (vtbl_vols z)) @ [zft_last_vtbl z]" using split by simp
  ultimately have "sorted_wrt (\<lambda>a b. v_end_seg a < v_start_seg b) ((vtbl_head z # butlast (vtbl_vols z)) @ [zft_last_vtbl z])"
    by (simp only:)
  then have "sorted_wrt (\<lambda>a b. v_end_seg a < v_start_seg b) ((vtbl_head z # butlast (vtbl_vols z)) @ [v])"
    using assms(3) unfolding sorted_wrt_append by simp
  then have "volumes_ordered z'" using assms by (auto simp: table_defs dest: in_set_butlastD)
  moreover have "length (vtbl_vols z') = length (vtbl_vols z)" using z' assms(2) by simp
  moreover from this have "cur_ok z'" using assms(1) z' by (auto simp: table_defs split: vtbl_ref.splits)
  ultimately show ?thesis using assms by (simp add: table_ok_def zft_last_vtbl_def)
qed

section \<open>The operations keep the order\<close>

lemma init_vtbl_ok:
  assumes "0 \<le> first_data_segment (z_ftape z)" "first_data_segment (z_ftape z) < last_data_segment (z_ftape z)"
    "last_data_segment (z_ftape z) < 2 ^ 31 - 2"
  shows "table_ok (zft_init_vtbl z)"
  using assms by (simp add: zft_init_vtbl_def Let_def table_defs zft_last_vtbl_def)

section \<open>The volume at a segment\<close>

text \<open>
  The entries a look-up can return are the volumes and, behind them, the end-of-medium entry. The
  volume of a segment is the last of them that starts at or before it, and the first one for a
  segment in front of all.
\<close>

definition vtbl_entries :: "zftape_info \<Rightarrow> zft_volinfo list" where
  "vtbl_entries z = vtbl_vols z @ [vtbl_eom z]"

definition entry_ref :: "zftape_info \<Rightarrow> nat \<Rightarrow> vtbl_ref" where
  "entry_ref z i = (if i < length (vtbl_vols z) then Vol i else Eom_Vtbl)"

definition volume_index :: "zftape_info \<Rightarrow> int \<Rightarrow> nat" where
  "volume_index z seg = length (filter (\<lambda>v. v_start_seg v \<le> seg) (vtbl_entries z)) - 1"

abbreviation nvols :: "zftape_info \<Rightarrow> nat" where "nvols z \<equiv> length (vtbl_vols z)"

lemma vtbl_at_entry: "i \<le> nvols z \<Longrightarrow> vtbl_at z (entry_ref z i) = Some (vtbl_entries z ! i)"
  by (auto simp: vtbl_at_def entry_ref_def vtbl_entries_def nth_append)

lemma next_entry: "i < nvols z \<Longrightarrow> next_vtbl z (entry_ref z i) = Some (entry_ref z (Suc i))"
  by (simp add: next_vtbl_def entry_ref_def)

lemma prev_entry: "0 < i \<Longrightarrow> i \<le> nvols z \<Longrightarrow> prev_vtbl z (entry_ref z i) = Some (entry_ref z (i - 1))"
  by (auto simp: prev_vtbl_def entry_ref_def split: nat.splits)

lemma cur_entry: "cur_ok z \<Longrightarrow> \<exists>i\<le>nvols z. cur_vtbl z = entry_ref z i"
  by (rule exI [of _ "case cur_vtbl z of Vol i \<Rightarrow> i | _ \<Rightarrow> nvols z"]) (auto simp: cur_ok_def entry_ref_def split: vtbl_ref.splits)

lemma entries_sorted:
  assumes "table_ok z"
  shows "sorted_wrt (\<lambda>a b. v_end_seg a < v_start_seg b) (vtbl_entries z)"
    and "v \<in> set (vtbl_entries z) \<Longrightarrow> v_start_seg v \<le> v_end_seg v"
proof -
  have "sorted_wrt (\<lambda>a b. v_end_seg a < v_start_seg b) (vtbl_vols z)" using assms by (simp add: table_defs)
  moreover have "v_end_seg a < v_start_seg (vtbl_eom z)" if "a \<in> set (vtbl_vols z)" for a
    using all_before_next [OF assms, of a] that assms by (simp add: table_ok_def)
  ultimately show "sorted_wrt (\<lambda>a b. v_end_seg a < v_start_seg b) (vtbl_entries z)"
    by (simp add: vtbl_entries_def sorted_wrt_append)
  show "v \<in> set (vtbl_entries z) \<Longrightarrow> v_start_seg v \<le> v_end_seg v"
    using assms last_entry_bounds [OF assms] by (auto simp: vtbl_entries_def table_defs)
qed

lemma seek_next_ok:
  assumes "i \<le> nvols z" "seg \<le> v_end_seg (vtbl_eom z)"
  shows "\<exists>j. i \<le> j \<and> j \<le> nvols z \<and> seek_next z seg (entry_ref z i) = Some (entry_ref z j) \<and> seg \<le> v_end_seg (vtbl_entries z ! j)"
  using assms(1)
proof (induction "nvols z - i" arbitrary: i)
  case 0
  then have "i = nvols z" by simp
  with assms(2) show ?case
    by (intro exI [of _ i]) (subst seek_next.simps, simp add: vtbl_at_entry vtbl_entries_def)
next
  case (Suc d)
  show ?case
  proof (cases "seg > v_end_seg (vtbl_entries z ! i)")
    case True
    have "d = nvols z - Suc i" "Suc i \<le> nvols z" using Suc.hyps(2) by simp_all
    from Suc.hyps(1) [OF this] obtain j where "Suc i \<le> j" "j \<le> nvols z"
      "seek_next z seg (entry_ref z (Suc i)) = Some (entry_ref z j)" "seg \<le> v_end_seg (vtbl_entries z ! j)" by auto
    then show ?thesis using True Suc by (intro exI [of _ j]) (subst seek_next.simps, simp add: vtbl_at_entry next_entry)
  next
    case False
    then show ?thesis using Suc by (intro exI [of _ i]) (subst seek_next.simps, simp add: vtbl_at_entry)
  qed
qed

lemma seek_prev_ok:
  assumes "i \<le> nvols z" "v_start_seg (vtbl_entries z ! 0) \<le> seg"
  shows "\<exists>j\<le>i. seek_prev z seg (entry_ref z i) = Some (entry_ref z j) \<and> v_start_seg (vtbl_entries z ! j) \<le> seg
    \<and> (\<forall>k. j < k \<longrightarrow> k \<le> i \<longrightarrow> seg < v_start_seg (vtbl_entries z ! k))"
  using assms(1)
proof (induction i)
  case 0
  with assms(2) show ?case by (subst seek_prev.simps) (simp add: vtbl_at_entry)
next
  case (Suc i)
  show ?case
  proof (cases "seg < v_start_seg (vtbl_entries z ! Suc i)")
    case True
    from Suc obtain j where j: "j \<le> i" "seek_prev z seg (entry_ref z i) = Some (entry_ref z j)" "v_start_seg (vtbl_entries z ! j) \<le> seg"
      "\<forall>k. j < k \<longrightarrow> k \<le> i \<longrightarrow> seg < v_start_seg (vtbl_entries z ! k)" by auto
    with True Suc.prems show ?thesis
      by (intro exI [of _ j]) (subst seek_prev.simps, auto simp: vtbl_at_entry prev_entry le_Suc_eq)
  next
    case False
    then show ?thesis using Suc.prems by (intro exI [of _ "Suc i"]) (subst seek_prev.simps, simp add: vtbl_at_entry)
  qed
qed

lemma volume_index_eq:
  assumes "table_ok z" "j \<le> nvols z" "v_start_seg (vtbl_entries z ! j) \<le> seg"
    "\<And>k. j < k \<Longrightarrow> k \<le> nvols z \<Longrightarrow> seg < v_start_seg (vtbl_entries z ! k)"
  shows "volume_index z seg = j"
proof -
  let ?E = "vtbl_entries z" and ?P = "\<lambda>v. v_start_seg v \<le> seg"
  have n: "length ?E = Suc (nvols z)" by (simp add: vtbl_entries_def)
  have low: "?P (?E ! k)" if "k \<le> j" for k
  proof (cases "k = j")
    case False
    then have "v_end_seg (?E ! k) < v_start_seg (?E ! j)"
      using entries_sorted(1) [OF assms(1)] that assms(2) n by (simp add: sorted_wrt_iff_nth_less)
    moreover have "v_start_seg (?E ! k) \<le> v_end_seg (?E ! k)"
      using entries_sorted(2) [OF assms(1), of "?E ! k"] that assms(2) n by simp
    ultimately show ?thesis using assms(3) by simp
  qed (use assms(3) in simp)
  have "filter ?P (take (Suc j) ?E) = take (Suc j) ?E"
    using low assms(2) n by (intro filter_True) (auto simp: in_set_conv_nth)
  moreover have "filter ?P (drop (Suc j) ?E) = []"
    using assms(4) n by (auto simp: filter_empty_conv in_set_conv_nth not_le)
  ultimately have "filter ?P ?E = take (Suc j) ?E"
    by (metis append_Nil2 append_take_drop_id filter_append)
  then show ?thesis using assms(2) n by (simp add: volume_index_def)
qed

lemma volume_by_segpos_eq:
  assumes "table_ok z" and "qic_mode z" and "seg \<le> last_data_segment (z_ftape z) + 1"
  shows "zft_volume_by_segpos z seg = Some (z\<lparr>cur_vtbl := entry_ref z (volume_index z seg)\<rparr>, entry_ref z (volume_index z seg))"
proof -
  have first: "zft_first_vtbl z = vtbl_entries z ! 0" "first_ref z = entry_ref z 0"
    by (auto simp: zft_first_vtbl_def first_ref_def entry_ref_def vtbl_entries_def hd_conv_nth nth_append)
  show ?thesis
  proof (cases "seg < v_start_seg (zft_first_vtbl z)")
    case True
    have "seg < v_start_seg v" if v: "v \<in> set (vtbl_entries z)" for v
    proof (cases "v = vtbl_entries z ! 0")
      case False
      with v obtain k where "k < length (vtbl_entries z)" "0 < k" "v = vtbl_entries z ! k" by (metis gr0I in_set_conv_nth)
      then have "v_end_seg (vtbl_entries z ! 0) < v_start_seg v"
        using entries_sorted(1) [OF assms(1)] by (simp add: sorted_wrt_iff_nth_less)
      moreover have "vtbl_entries z ! 0 \<in> set (vtbl_entries z)" by (rule nth_mem) (simp add: vtbl_entries_def)
      ultimately show ?thesis using True first entries_sorted(2) [OF assms(1)] by fastforce
    qed (use True first in simp)
    then have "filter (\<lambda>v. v_start_seg v \<le> seg) (vtbl_entries z) = []" by (simp add: filter_empty_conv not_le)
    then show ?thesis using True assms(2) first by (simp add: zft_volume_by_segpos_def volume_index_def)
  next
    case False
    obtain i where i: "cur_vtbl z = entry_ref z i" "i \<le> nvols z"
      using cur_entry assms(1) by (auto simp: table_ok_def)
    have "seg \<le> v_end_seg (vtbl_eom z)" using assms(1,3) by (simp add: table_ok_def)
    from seek_next_ok [OF i(2) this] obtain j1 where j1: "j1 \<le> nvols z" "seek_next z seg (entry_ref z i) = Some (entry_ref z j1)"
      "seg \<le> v_end_seg (vtbl_entries z ! j1)" by blast
    have "v_start_seg (vtbl_entries z ! 0) \<le> seg" using False first by simp
    from seek_prev_ok [OF j1(1) this] obtain j where j: "j \<le> j1" "seek_prev z seg (entry_ref z j1) = Some (entry_ref z j)"
      "v_start_seg (vtbl_entries z ! j) \<le> seg" "\<forall>k. j < k \<longrightarrow> k \<le> j1 \<longrightarrow> seg < v_start_seg (vtbl_entries z ! k)" by auto
    have "seg < v_start_seg (vtbl_entries z ! k)" if "j < k" "k \<le> nvols z" for k
    proof (cases "k \<le> j1")
      case False
      then have "v_end_seg (vtbl_entries z ! j1) < v_start_seg (vtbl_entries z ! k)"
        using entries_sorted(1) [OF assms(1)] that by (simp add: sorted_wrt_iff_nth_less vtbl_entries_def)
      with j1(3) show ?thesis by simp
    qed (use that j(4) in simp)
    then have "volume_index z seg = j" using volume_index_eq [OF assms(1) _ j(3)] j(1) j1(1) by simp
    with False assms(2) i j1 j show ?thesis by (simp add: zft_volume_by_segpos_def)
  qed
qed

section \<open>Frames of the other operations\<close>

lemma update_label_frame:
  "\<exists>m l h. zft_update_label z = z\<lparr>z_ftape := (z_ftape z)\<lparr>hseg_buf := m\<rparr>, label_changed := l, header_changed := h\<rparr>"
proof (cases "bytes_at (z_hseg z) FT_LABEL 38 = ZFTAPE_LABEL")
  case True
  then have "zft_update_label z = z\<lparr>z_ftape := (z_ftape z)\<lparr>hseg_buf := z_hseg z\<rparr>, label_changed := label_changed z, header_changed := header_changed z\<rparr>"
    by (simp add: zft_update_label_def)
  then show ?thesis by blast
next
  case False
  then show ?thesis by (simp add: zft_update_label_def Let_def set_hseg_def) blast
qed

lemma clear_marks_keeps:
  assumes "zft_clear_ftape_file_marks z = Some z'"
  shows "first_data_segment (z_ftape z') = first_data_segment (z_ftape z)" "last_data_segment (z_ftape z') = last_data_segment (z_ftape z)"
    "vtbl_head z' = vtbl_head z" "vtbl_vols z' = vtbl_vols z" "vtbl_eom z' = vtbl_eom z" "cur_vtbl z' = cur_vtbl z" "qic_mode z' = qic_mode z"
proof -
  from assms obtain m where "z' = zft_update_label ((set_hseg m z)\<lparr>nr_eof_marks := 0, header_changed := True\<rparr>)"
    by (auto simp: zft_clear_ftape_file_marks_def Let_def bind_eq_Some_conv)
  then obtain m' l h where "z' = z\<lparr>nr_eof_marks := 0, z_ftape := (z_ftape z)\<lparr>hseg_buf := m'\<rparr>, label_changed := l, header_changed := h\<rparr>"
    using update_label_frame [of "(set_hseg m z)\<lparr>nr_eof_marks := 0, header_changed := True\<rparr>"] by (auto simp: set_hseg_def)
  then show "first_data_segment (z_ftape z') = first_data_segment (z_ftape z)" "last_data_segment (z_ftape z') = last_data_segment (z_ftape z)"
    "vtbl_head z' = vtbl_head z" "vtbl_vols z' = vtbl_vols z" "vtbl_eom z' = vtbl_eom z" "cur_vtbl z' = cur_vtbl z" "qic_mode z' = qic_mode z"
    by simp_all
qed

definition tape_bounds :: "zftape_info \<Rightarrow> bool" where
  "tape_bounds z \<longleftrightarrow> 0 \<le> first_data_segment (z_ftape z) \<and> first_data_segment (z_ftape z) < last_data_segment (z_ftape z)
    \<and> last_data_segment (z_ftape z) < 2 ^ 31 - 2"

lemma table_ok_bounds: "table_ok z \<Longrightarrow> tape_bounds z"
  by (simp add: table_ok_def tape_bounds_def)

text \<open>Two states with the same table and segment numbers.\<close>

definition same_table :: "zftape_info \<Rightarrow> zftape_info \<Rightarrow> bool" where
  "same_table z z' \<longleftrightarrow> vtbl_head z' = vtbl_head z \<and> vtbl_vols z' = vtbl_vols z \<and> vtbl_eom z' = vtbl_eom z
    \<and> qic_mode z' = qic_mode z \<and> first_data_segment (z_ftape z') = first_data_segment (z_ftape z)
    \<and> last_data_segment (z_ftape z') = last_data_segment (z_ftape z)"

lemma same_table_last: "same_table z z' \<Longrightarrow> zft_last_vtbl z' = zft_last_vtbl z"
  by (simp add: same_table_def zft_last_vtbl_def)

lemma same_table_ordered: "same_table z z' \<Longrightarrow> volumes_ordered z' = volumes_ordered z"
  by (simp add: same_table_def volumes_ordered_def)

lemma same_table_ok: "same_table z z' \<Longrightarrow> table_ok z \<Longrightarrow> cur_ok z' \<Longrightarrow> table_ok z'"
  using same_table_last [of z z'] same_table_ordered [of z z'] by (simp add: same_table_def table_ok_def)

lemma same_table_ok_cur:
  assumes "same_table z z'" "cur_vtbl z' = cur_vtbl z" "table_ok z"
  shows "table_ok z'"
proof (rule same_table_ok [OF assms(1,3)])
  have "cur_ok z" using assms(3) by (simp add: table_ok_def)
  then show "cur_ok z'" using assms(1,2) by (simp add: cur_ok_def same_table_def split: vtbl_ref.splits)
qed

lemma same_tape_same_table: "same_tape z z' \<Longrightarrow> same_table z z'"
  by (auto elim!: same_tapeE simp: same_table_def)

lemma forget_old_tape_ok:
  assumes "forget_old_tape z = Some z'" "tape_bounds z"
  shows "table_ok z'" "vtbl_vols z' = []" "qic_mode z' = qic_mode z" "v_end_seg (vtbl_head z') = first_data_segment (z_ftape z')"
    "first_data_segment (z_ftape z') = first_data_segment (z_ftape z)" "last_data_segment (z_ftape z') = last_data_segment (z_ftape z)"
    "v_open (zft_last_vtbl z') = False"
proof -
  let ?i = "zft_init_vtbl z"
  have i: "table_ok ?i" "vtbl_vols ?i = []" "qic_mode ?i = qic_mode z" "first_data_segment (z_ftape ?i) = first_data_segment (z_ftape z)"
      "last_data_segment (z_ftape ?i) = last_data_segment (z_ftape z)" "v_end_seg (vtbl_head ?i) = first_data_segment (z_ftape ?i)"
      "\<not> v_open (vtbl_head ?i)"
    using init_vtbl_ok [of z] assms(2) by (simp_all add: tape_bounds_def zft_init_vtbl_def Let_def blank_vol_def)
  have s: "same_table ?i z' \<and> cur_vtbl z' = cur_vtbl ?i"
    using assms(1) clear_marks_keeps [of ?i]
    by (auto simp: forget_old_tape_def Let_def bind_eq_Some_conv same_table_def split: if_splits)
  then have v: "vtbl_vols z' = []" using i(2) by (simp add: same_table_def)
  have "cur_ok z'" using s i(1,2) v by (auto simp: table_defs split: vtbl_ref.splits)
  then show "table_ok z'" using same_table_ok i(1) s by blast
  show "vtbl_vols z' = []" by (fact v)
  show "v_open (zft_last_vtbl z') = False" using s i v by (simp add: same_table_def zft_last_vtbl_def)
  show "qic_mode z' = qic_mode z" "v_end_seg (vtbl_head z') = first_data_segment (z_ftape z')"
    "first_data_segment (z_ftape z') = first_data_segment (z_ftape z)" "last_data_segment (z_ftape z') = last_data_segment (z_ftape z)"
    using s i by (simp_all add: same_table_def)
qed

lemma entry_ref_ok: "cur_ok (z\<lparr>cur_vtbl := entry_ref z i\<rparr>)"
  by (simp add: cur_ok_def entry_ref_def)

lemma volume_index_le: "volume_index z seg \<le> nvols z"
proof -
  have "length (filter (\<lambda>v. v_start_seg v \<le> seg) (vtbl_entries z)) \<le> Suc (nvols z)"
    using length_filter_le [of "\<lambda>v. v_start_seg v \<le> seg" "vtbl_entries z"] unfolding vtbl_entries_def length_append by simp
  then show ?thesis by (simp add: volume_index_def)
qed

lemma volume_by_segpos_ok:
  assumes "table_ok z" "qic_mode z" "seg \<le> last_data_segment (z_ftape z) + 1" "zft_volume_by_segpos z seg = Some (z', r)"
  shows "table_ok z'" "same_table z z'" "\<exists>i\<le>nvols z. r = entry_ref z i \<and> vtbl_at z' r = Some (vtbl_entries z ! i)"
proof -
  let ?i = "volume_index z seg"
  have r: "z' = z\<lparr>cur_vtbl := entry_ref z ?i\<rparr>" "r = entry_ref z ?i"
    using volume_by_segpos_eq [OF assms(1-3)] assms(4) by auto
  then show st: "same_table z z'" by (simp add: same_table_def)
  show "table_ok z'" using same_table_ok [OF st assms(1)] entry_ref_ok r by simp
  have "vtbl_at z' r = vtbl_at z r" using r by (simp add: vtbl_at_def split: vtbl_ref.splits)
  then show "\<exists>i\<le>nvols z. r = entry_ref z i \<and> vtbl_at z' r = Some (vtbl_entries z ! i)"
    using r(2) volume_index_le vtbl_at_entry by auto
qed

lemma entry_start_bounds:
  assumes "table_ok z" "i \<le> nvols z"
  shows "first_data_segment (z_ftape z) < v_start_seg (vtbl_entries z ! i)" "v_start_seg (vtbl_entries z ! i) \<le> last_data_segment (z_ftape z) + 1"
proof -
  have v: "vtbl_entries z ! i \<in> set (vtbl_entries z)" using assms(2) by (intro nth_mem) (simp add: vtbl_entries_def)
  have "first_data_segment (z_ftape z) < v_start_seg v \<and> v_start_seg v \<le> last_data_segment (z_ftape z) + 1" if "v \<in> set (vtbl_entries z)" for v
    using that assms(1) last_entry_bounds [OF assms(1)] by (auto simp: vtbl_entries_def table_defs)
  then show "first_data_segment (z_ftape z) < v_start_seg (vtbl_entries z ! i)" "v_start_seg (vtbl_entries z ! i) \<le> last_data_segment (z_ftape z) + 1"
    using v by blast+
qed

lemma same_table_trans: "same_table x y \<Longrightarrow> same_table y z \<Longrightarrow> same_table x z"
  by (simp add: same_table_def)

lemma same_table_entries: "same_table z z' \<Longrightarrow> vtbl_entries z' = vtbl_entries z"
  by (simp add: same_table_def vtbl_entries_def)

lemma reset_position_ok:
  assumes "table_ok z" "qic_mode z" "zft_reset_position z pos = Some (z', pos')"
  shows "table_ok z'" "same_table z z'" "seg_pos pos' = -1 \<or> (\<exists>i\<le>nvols z. seg_pos pos' = v_start_seg (vtbl_entries z ! i))"
    "seg_byte_pos pos' = 0" "volume_pos pos' = 0"
proof -
  have release: "same_table z1 (stop_io z1)"
    "cur_vtbl (stop_io z1) = cur_vtbl z1" for z1
    by (simp_all add: same_table_def stop_io_def zap_defs zft_release_deblock_buffer_def)
  have "table_ok z' \<and> same_table z z' \<and> (seg_pos pos' = -1 \<or> (\<exists>i\<le>nvols z. seg_pos pos' = v_start_seg (vtbl_entries z ! i)))
    \<and> seg_byte_pos pos' = 0 \<and> volume_pos pos' = 0"
  proof (cases "vtbl_read z \<or> (header_read z \<and> \<not> qic_mode z)")
    case True
    then obtain z1 r v z2 p where *: "zft_volume_by_segpos z 0 = Some (z1, r)" "vtbl_at z1 r = Some v"
      "zft_calc_tape_pos z1 (v_start_seg v) = Some (z2, p)" "z' = stop_io z2"
      "pos' = pos\<lparr>seg_byte_pos := 0, volume_pos := 0, seg_pos := v_start_seg v, tape_pos := p\<rparr>"
      using assms(3) by (auto simp: zft_reset_position_def Let_def bind_eq_Some_conv)
    have "0 \<le> last_data_segment (z_ftape z) + 1" using assms(1) by (simp add: table_ok_def)
    note s = volume_by_segpos_ok [OF assms(1,2) this *(1)]
    have z2: "table_ok z2" "same_table z1 z2"
      using calc_tape_pos_same [OF *(3)] same_tape_table_ok same_tape_same_table s(1) by blast+
    have r: "same_table z2 z'" "cur_vtbl z' = cur_vtbl z2" unfolding *(4) by (rule release)+
    have "table_ok z'" by (rule same_table_ok_cur [OF r z2(1)])
    moreover have "same_table z z'" by (rule same_table_trans [OF s(2) same_table_trans [OF z2(2) r(1)]])
    moreover obtain i where "i \<le> nvols z" "v = vtbl_entries z ! i" using s(3) *(2) by auto
    ultimately show ?thesis using *(5) by auto
  next
    case False
    then have "z' = stop_io z" "seg_pos pos' = -1" "seg_byte_pos pos' = 0" "volume_pos pos' = 0"
      using assms(3) by (auto simp: zft_reset_position_def Let_def bind_eq_Some_conv)
    moreover from this have "table_ok z'" using same_table_ok_cur release assms(1) by blast
    ultimately show ?thesis using release by simp
  qed
  then show "table_ok z'" "same_table z z'" "seg_pos pos' = -1 \<or> (\<exists>i\<le>nvols z. seg_pos pos' = v_start_seg (vtbl_entries z ! i))"
    "seg_byte_pos pos' = 0" "volume_pos pos' = 0" by auto
qed

section \<open>Sequences of operations\<close>

text \<open>
  The position while a volume is open lies in that volume; a position behind the last segment is at the
  start of it.
\<close>

definition write_inv :: "zftape_info \<Rightarrow> zft_position \<Rightarrow> bool" where
  "write_inv z pos \<longleftrightarrow> table_ok z \<and> qic_mode z \<and> \<not> v_open (vtbl_head z) \<and> -1 \<le> seg_pos pos \<and> seg_pos pos \<le> last_data_segment (z_ftape z) + 1
    \<and> (v_open (zft_last_vtbl z) \<longrightarrow> v_start_seg (zft_last_vtbl z) \<le> seg_pos pos
        \<and> (seg_pos pos = last_data_segment (z_ftape z) + 1 \<longrightarrow>
             seg_byte_pos pos = 0 \<and> v_start_seg (zft_last_vtbl z) \<le> last_data_segment (z_ftape z)))"

lemma u32_small: "0 \<le> i \<Longrightarrow> i < 2 ^ 32 \<Longrightarrow> u32 i = i"
  by (simp add: u32_def unsigned_of_int take_bit_eq_mod)

lemma s32_small: "0 \<le> i \<Longrightarrow> i < 2 ^ 31 \<Longrightarrow> s32 i = i"
  by (simp add: s32_def signed_of_int signed_take_bit_int_eq_self)

lemma u32_eq_iff:
  assumes "-1 \<le> i" "i < 2 ^ 31" "0 \<le> j" "j < 2 ^ 31"
  shows "u32 i = u32 j \<longleftrightarrow> i = j"
proof (cases "i = -1")
  case True
  have "u32 (-1) = 2 ^ 32 - 1" by (simp add: u32_def unsigned_minus_1_eq_mask mask_eq_exp_minus_1)
  then show ?thesis using True assms u32_small [of j] by auto
qed (use assms u32_small [of i] u32_small [of j] in auto)

lemma update_last_simps [simp]:
  "vtbl_eom (update_last f z) = vtbl_eom z" "z_ftape (update_last f z) = z_ftape z" "qic_mode (update_last f z) = qic_mode z"
  "cur_vtbl (update_last f z) = cur_vtbl z" "vtbl_size (update_last f z) = vtbl_size z"
  by (simp_all add: update_last_def)

lemma update_last_new [simp]:
  "vtbl_vols (update_last f (zft_new_vtbl_entry z)) = vtbl_vols z @ [f (blank_vol\<lparr>v_count := v_count (vtbl_eom z)\<rparr>)]"
  "vtbl_head (update_last f (zft_new_vtbl_entry z)) = vtbl_head z"
  by (simp_all add: update_last_def zft_new_vtbl_entry_def)

lemma new_entry_simps [simp]:
  "vtbl_eom (zft_new_vtbl_entry z) = (vtbl_eom z)\<lparr>v_count := v_count (vtbl_eom z) + 1\<rparr>" "z_ftape (zft_new_vtbl_entry z) = z_ftape z"
  "cur_vtbl (zft_new_vtbl_entry z) = cur_vtbl z" "qic_mode (zft_new_vtbl_entry z) = qic_mode z"
  by (simp_all add: zft_new_vtbl_entry_def)

text \<open>At the start of the tape \<open>zft_open_volume\<close> begins a new table and goes to its first segment.\<close>

lemma restart_ok:
  assumes "table_ok z0" "qic_mode z0" "forget_old_tape z0 = Some z1" "zft_reset_position z1 pos0 = Some (z, pos)"
  shows "write_inv z pos" "v_end_seg (zft_last_vtbl z) < last_data_segment (z_ftape z)"
proof -
  note f = forget_old_tape_ok [OF assms(3) table_ok_bounds [OF assms(1)]]
  have q: "qic_mode z1" using f(3) assms(2) by simp
  note r = reset_position_ok [OF f(1) q assms(4)]
  have last: "zft_last_vtbl z = vtbl_head z" using r(2) f(2) by (simp add: zft_last_vtbl_def same_table_def)
  have closed: "\<not> v_open (vtbl_head z)" using f(2,7) r(2) by (simp add: zft_last_vtbl_def same_table_def)
  have seg: "seg_pos pos = -1 \<or> (0 \<le> seg_pos pos \<and> seg_pos pos \<le> last_data_segment (z_ftape z) + 1)"
    using r(2,3) entry_start_bounds [OF f(1)] f(1) by (force simp: same_table_def table_ok_def)
  have "0 \<le> last_data_segment (z_ftape z) + 1" "qic_mode z" using r(1,2) q by (simp_all add: table_ok_def same_table_def)
  then show "write_inv z pos" using r(1) closed last seg by (auto simp: write_inv_def)
  show "v_end_seg (zft_last_vtbl z) < last_data_segment (z_ftape z)" using r(1) last by (simp add: table_ok_def)
qed

text \<open>
  The one case in which a volume is begun although there is no segment left for it: the last volume ends
  at the last data segment, and the tape is behind it. \<open>zft_open_volume\<close> does not check for that.
\<close>

definition begins_behind_end :: "zftape_info \<Rightarrow> zft_position \<Rightarrow> bool" where
  "begins_behind_end z pos \<longleftrightarrow> \<not> zft_tape_at_lbot z pos \<and> v_end_seg (zft_last_vtbl z) = last_data_segment (z_ftape z)
     \<and> seg_pos pos = last_data_segment (z_ftape z) + 1"

lemma open_volume_ok:
  assumes inv: "write_inv z0 pos0" and run: "zft_open_volume z0 pos0 blk_sz = Some (z', pos', rc)"
  shows "write_inv z' pos' \<or> rc = Inr () \<and> begins_behind_end z0 pos0"
proof -
  have q: "qic_mode z0" "table_ok z0" using inv by (simp_all add: write_inv_def)
  let ?start = "if zft_tape_at_lbot z0 pos0 then do { z1 \<leftarrow> forget_old_tape z0; zft_reset_position z1 pos0 } else Some (z0, pos0)"
  from run q(1) obtain z pos where start: "?start = Some (z, pos)"
    by (auto simp: zft_open_volume_def bind_eq_Some_conv)
  have ok: "write_inv z pos"
    and space: "v_end_seg (zft_last_vtbl z) < last_data_segment (z_ftape z) \<or> z = z0 \<and> pos = pos0 \<and> \<not> zft_tape_at_lbot z0 pos0"
    using start restart_ok [OF q(2,1)] inv by (auto simp: bind_eq_Some_conv split: if_splits)
  let ?err = "u32 (seg_pos pos) \<noteq> u32 (v_end_seg (zft_last_vtbl z) + 1) \<or> v_count (vtbl_eom z) \<ge> ZFT_MAX_VOLUMES z
    \<or> u32 (v_offset (zft_last_vtbl z) + int VTBL_SIZE) \<ge> int FT_SEGMENT_SIZE"
  show ?thesis
  proof (cases ?err)
    case True
    then have "z' = z \<and> pos' = pos" using run q(1) unfolding zft_open_volume_def start by (auto simp: Let_def split: if_splits)
    with ok show ?thesis by simp
  next
    case False
    have t: "table_ok z" "qic_mode z" "\<not> v_open (vtbl_head z)" "-1 \<le> seg_pos pos" "seg_pos pos \<le> last_data_segment (z_ftape z) + 1"
      using ok by (auto simp: write_inv_def)
    note l = last_entry_bounds [OF t(1)]
    have "seg_pos pos = v_end_seg (zft_last_vtbl z) + 1"
      using False t l u32_eq_iff [of "seg_pos pos" "v_end_seg (zft_last_vtbl z) + 1"] by (auto simp: table_ok_def)
    show ?thesis
    proof (cases "v_end_seg (zft_last_vtbl z) < last_data_segment (z_ftape z)")
      case full: False
      have "rc = Inr ()" using False run q(1) unfolding zft_open_volume_def start by (simp add: Let_def)
      then show ?thesis using full space l(2) \<open>seg_pos pos = _\<close> by (auto simp: begins_behind_end_def)
    next
      case room: True
      from False obtain v where v: "vtbl_vols z' = vtbl_vols z @ [v]" "v_start_seg v = seg_pos pos"
        "v_end_seg v = last_data_segment (z_ftape z)"
      and z': "vtbl_head z' = vtbl_head z" "z_ftape z' = z_ftape z" "cur_vtbl z' = cur_vtbl z" "qic_mode z' = qic_mode z"
        "v_start_seg (vtbl_eom z') = last_data_segment (z_ftape z) + 1" "v_end_seg (vtbl_eom z') = v_end_seg (vtbl_eom z)"
        "v_count (vtbl_eom z') = v_count (vtbl_eom z) + 1" "pos' = pos\<lparr>volume_pos := 0, seg_byte_pos := 0\<rparr>"
      using run q(1) unfolding zft_open_volume_def start by (auto simp: Let_def)
      then have "table_ok z'" using room t(1) \<open>seg_pos pos = _\<close> by (intro append_volume_ok [of z v z']) auto
      then show ?thesis using v z' t room \<open>seg_pos pos = _\<close> by (simp add: write_inv_def zft_last_vtbl_def)
    qed
  qed
qed

lemma close_volume_inv:
  assumes inv: "write_inv z pos" and run: "zft_close_volume z pos = Some (z', pos', rc)"
  shows "write_inv z' pos'" "\<not> v_open (zft_last_vtbl z')"
    and "rc = Inr () \<Longrightarrow> seg_pos pos' = v_end_seg (zft_last_vtbl z') \<and> v_start_seg (vtbl_eom z') = seg_pos pos' + 1"
proof -
  have "write_inv z' pos' \<and> \<not> v_open (zft_last_vtbl z')
    \<and> (rc = Inr () \<longrightarrow> seg_pos pos' = v_end_seg (zft_last_vtbl z') \<and> v_start_seg (vtbl_eom z') = seg_pos pos' + 1)"
  proof (cases "vtbl_vols z = [] \<or> \<not> v_open (zft_last_vtbl z)")
    case True
    then have "z' = z" "pos' = pos" "rc = Inl EIO" using run by (auto simp: zft_close_volume_def)
    with inv True show ?thesis by (auto simp: write_inv_def zft_last_vtbl_def)
  next
    case False
    let ?step = "seg_byte_pos pos = 0 \<and> seg_pos pos \<noteq> v_start_seg (zft_last_vtbl z)"
    from run False obtain z1 pos1 z2 raw where *:
      "(if ?step then do { (z1, sz) \<leftarrow> zft_get_seg_sz z (seg_pos pos - 1); Some (z1, pos\<lparr>seg_pos := seg_pos pos - 1, seg_byte_pos := sz\<rparr>) }
        else Some (z, pos)) = Some (z1, pos1)"
      "segment_range_size z1 ((zft_last_vtbl z1)\<lparr>v_end_seg := seg_pos pos1, v_size := volume_pos pos1\<rparr>) = Some (z2, raw)"
      "rc = Inr ()" "pos' = pos1"
      "z' = (let z3 = update_last (\<lambda>_. (zft_last_vtbl z1)\<lparr>v_end_seg := seg_pos pos1, v_size := volume_pos pos1, v_rawsize := raw, v_open := False\<rparr>) z2
        in z3\<lparr>vtbl_eom := (vtbl_eom z3)\<lparr>v_start_seg := seg_pos pos1 + 1\<rparr>, volume_table_changed := True, just_before_eof := True\<rparr>)"
      by (simp add: zft_close_volume_def bind_eq_Some_conv Let_def) (elim exE conjE, blast)
    have s1: "same_tape z z1" using *(1) get_seg_sz_same same_tape_refl by (auto simp: bind_eq_Some_conv split: if_splits)
    have s2: "same_tape z z2" by (rule same_tape_trans [OF s1 segment_range_size_same [OF *(2)]])
    note t = same_tape_table [OF s2]
    have l1: "zft_last_vtbl z1 = zft_last_vtbl z" by (rule same_tape_table(8) [OF s1])
    have t2: "table_ok z2" using same_tape_table_ok [OF s2] inv by (simp add: write_inv_def)
    have seg: "v_start_seg (zft_last_vtbl z) \<le> seg_pos pos1" "seg_pos pos1 \<le> last_data_segment (z_ftape z)" "0 \<le> v_start_seg (zft_last_vtbl z)"
    proof -
      have "v_start_seg (zft_last_vtbl z) \<le> seg_pos pos" "seg_pos pos = last_data_segment (z_ftape z) + 1 \<longrightarrow>
          seg_byte_pos pos = 0 \<and> v_start_seg (zft_last_vtbl z) \<le> last_data_segment (z_ftape z)" "seg_pos pos \<le> last_data_segment (z_ftape z) + 1"
        using inv False by (auto simp: write_inv_def)
      then show "v_start_seg (zft_last_vtbl z) \<le> seg_pos pos1" "seg_pos pos1 \<le> last_data_segment (z_ftape z)"
        using *(1) by (auto simp: bind_eq_Some_conv split: if_splits)
      have "zft_last_vtbl z \<in> set (vtbl_vols z)" using False by (simp add: zft_last_vtbl_def)
      then show "0 \<le> v_start_seg (zft_last_vtbl z)" using inv by (auto simp: write_inv_def table_defs)
    qed
    let ?v = "(zft_last_vtbl z)\<lparr>v_end_seg := seg_pos pos1, v_size := volume_pos pos1, v_rawsize := raw, v_open := False\<rparr>"
    have z': "vtbl_head z' = vtbl_head z2" "vtbl_vols z' = butlast (vtbl_vols z2) @ [?v]" "z_ftape z' = z_ftape z2" "cur_vtbl z' = cur_vtbl z2"
      "qic_mode z' = qic_mode z2" "v_start_seg (vtbl_eom z') = seg_pos pos1 + 1" "v_end_seg (vtbl_eom z') = v_end_seg (vtbl_eom z2)"
      "v_count (vtbl_eom z') = v_count (vtbl_eom z2)"
      using False t(2) l1 unfolding *(5) by (simp_all add: Let_def) (simp_all add: update_last_def)
    have "table_ok z'"
      by (rule close_volume_ok [of z2 ?v z']) (use t2 False t seg z' in simp_all)
    then show ?thesis using z' t inv seg *(3,4) by (auto simp: write_inv_def zft_last_vtbl_def)
  qed
  then show "write_inv z' pos'" "\<not> v_open (zft_last_vtbl z')"
    "rc = Inr () \<Longrightarrow> seg_pos pos' = v_end_seg (zft_last_vtbl z') \<and> v_start_seg (vtbl_eom z') = seg_pos pos' + 1" by auto
qed

lemma move_past_eof_ok:
  assumes inv: "write_inv z pos" and seg: "-1 \<le> seg_pos pos" "seg_pos pos \<le> last_data_segment (z_ftape z)" and closed: "\<not> v_open (zft_last_vtbl z)"
    and run: "zft_move_past_eof z pos = Some (z', pos')"
  shows "write_inv z' pos'" "same_table z z'" "seg_pos pos' = seg_pos pos + 1"
proof -
  from run obtain z1 n where z1: "zft_get_seg_sz z (seg_pos pos) = Some (z1, n)"
      "z' = zft_release_deblock_buffer (z1\<lparr>just_before_eof := False\<rparr>)"
    and s: "seg_pos pos' = seg_pos pos + 1"
    by (auto simp: zft_move_past_eof_def bind_eq_Some_conv)
  note same = get_seg_sz_same [OF z1(1)]
  have t: "same_table z1 z'" "cur_vtbl z' = cur_vtbl z1" using z1(2) by (simp_all add: same_table_def zft_release_deblock_buffer_def)
  have "table_ok z1" using same_tape_table_ok [OF same] inv by (simp add: write_inv_def)
  then have "table_ok z'" by (rule same_table_ok_cur [OF t])
  moreover show st: "same_table z z'" by (rule same_table_trans [OF same_tape_same_table [OF same] t(1)])
  ultimately show "write_inv z' pos'"
    using inv seg s closed same_table_last [OF st] by (simp add: write_inv_def same_table_def)
  show "seg_pos pos' = seg_pos pos + 1" by (fact s)
qed

text \<open>The loop of \<open>zft_weof\<close> starts behind the last volume.\<close>

lemma weof_loop_ok:
  assumes "write_inv z pos" "\<not> v_open (zft_last_vtbl z)" "v_start_seg (vtbl_eom z) \<le> seg_pos pos"
    and "weof_loop z n pos = Some (z', pos', rc)"
  shows "write_inv z' pos' \<and> \<not> v_open (zft_last_vtbl z')
    \<and> (case rc of Inr left \<Rightarrow> nvols z' = nvols z + (n - left) \<and> left \<le> n
         \<and> (0 < left \<longrightarrow> seg_pos pos' = last_data_segment (z_ftape z') + 1 \<or> v_count (vtbl_eom z') \<ge> ZFT_MAX_VOLUMES z')
       | Inl e \<Rightarrow> True)"
  using assms
proof (induction n arbitrary: z pos)
  case 0
  then show ?case by auto
next
  case (Suc n)
  let ?room = "seg_pos pos \<le> last_data_segment (z_ftape z) \<and> v_count (vtbl_eom z) < ZFT_MAX_VOLUMES z"
  let ?off = "u32 (v_offset (zft_last_vtbl z) + int VTBL_SIZE)"
  consider (stop) "\<not> ?room" | (err) "?room" "?off \<ge> int FT_SEGMENT_SIZE" | (go) "?room" "\<not> ?off \<ge> int FT_SEGMENT_SIZE" by blast
  then show ?case
  proof cases
    case stop
    then have "z' = z" "pos' = pos" "rc = Inr (Suc n)" using Suc.prems(4) by auto
    with Suc.prems stop show ?thesis by (auto simp: write_inv_def)
  next
    case err
    then have "z' = z" "pos' = pos" "rc = Inl EIO" using Suc.prems(4) by auto
    with Suc.prems show ?thesis by simp
  next
    case go
    let ?f = "\<lambda>v. v\<lparr>v_start_seg := seg_pos pos, v_end_seg := seg_pos pos, v_size := 0, v_blk_sz := z_blk_sz z,
      v_zft_volume := True, v_use_compression := False, v_qic113 := z_qic113 z, v_offset := ?off,
      v_version := (if z_qic113 z then 2 else 0), v_new_volume := True\<rparr>"
    define z1 where "z1 = update_last ?f (zft_new_vtbl_entry z)"
    define v where "v = ?f (blank_vol\<lparr>v_count := v_count (vtbl_eom z)\<rparr>)"
    have z1: "vtbl_vols z1 = vtbl_vols z @ [v]" "v_start_seg v = seg_pos pos" "v_end_seg v = seg_pos pos"
        "v_open v = False" "vtbl_head z1 = vtbl_head z" "z_ftape z1 = z_ftape z" "cur_vtbl z1 = cur_vtbl z" "qic_mode z1 = qic_mode z"
        "vtbl_eom z1 = (vtbl_eom z)\<lparr>v_count := v_count (vtbl_eom z) + 1\<rparr>"
      unfolding z1_def v_def by (simp_all add: blank_vol_def)
    have "weof_loop z (Suc n) pos = (case zft_get_seg_sz z1 (seg_pos pos) of
        None \<Rightarrow> None
      | Some (z2, sz) \<Rightarrow> weof_loop (z2\<lparr>vtbl_eom := (vtbl_eom z2)\<lparr>v_start_seg := seg_pos pos + 1\<rparr>\<rparr>) n
          (pos\<lparr>tape_pos := tape_pos pos + sz, seg_pos := seg_pos pos + 1\<rparr>))"
      unfolding z1_def weof_loop.simps Let_def by (simp only: go if_True if_False simp_thms)
    with Suc.prems(4) obtain z2 sz where z2: "zft_get_seg_sz z1 (seg_pos pos) = Some (z2, sz)"
      and rest: "weof_loop (z2\<lparr>vtbl_eom := (vtbl_eom z2)\<lparr>v_start_seg := seg_pos pos + 1\<rparr>\<rparr>) n
        (pos\<lparr>tape_pos := tape_pos pos + sz, seg_pos := seg_pos pos + 1\<rparr>) = Some (z', pos', rc)"
      by (auto simp del: weof_loop.simps split: option.splits)
    let ?z = "z2\<lparr>vtbl_eom := (vtbl_eom z2)\<lparr>v_start_seg := seg_pos pos + 1\<rparr>\<rparr>"
    let ?pos = "pos\<lparr>tape_pos := tape_pos pos + sz, seg_pos := seg_pos pos + 1\<rparr>"
    note t2 = same_tape_table [OF get_seg_sz_same [OF z2]]
    have last: "zft_last_vtbl ?z = v" using z1(1) t2(2) by (simp add: zft_last_vtbl_def)
    have inv: "table_ok z" "qic_mode z" "\<not> v_open (vtbl_head z)" "-1 \<le> seg_pos pos" using Suc.prems(1) by (auto simp: write_inv_def)
    have "v_end_seg (zft_last_vtbl z) < seg_pos pos" using Suc.prems(3) inv(1) by (simp add: table_ok_def)
    then have ta: "table_ok (z1\<lparr>vtbl_eom := (vtbl_eom z1)\<lparr>v_start_seg := seg_pos pos + 1\<rparr>\<rparr>)" (is "table_ok ?y")
      using inv(1) z1 go(1) by (intro append_volume_ok [of z v ?y]) simp_all
    have "same_table ?y ?z" "cur_vtbl ?z = cur_vtbl ?y"
      using t2 by (simp_all add: same_table_def)
    then have "table_ok ?z" by (rule same_table_ok_cur [OF _ _ ta])
    then have "write_inv ?z ?pos" using inv z1 t2 go(1) last by (simp add: write_inv_def)
    from Suc.IH [OF this _ _ rest] last z1 t2 have ih: "write_inv z' pos' \<and> \<not> v_open (zft_last_vtbl z')
      \<and> (case rc of Inr left \<Rightarrow> nvols z' = nvols ?z + (n - left) \<and> left \<le> n
           \<and> (0 < left \<longrightarrow> seg_pos pos' = last_data_segment (z_ftape z') + 1 \<or> v_count (vtbl_eom z') \<ge> ZFT_MAX_VOLUMES z')
         | Inl e \<Rightarrow> True)" by simp
    moreover have "nvols ?z = Suc (nvols z)" using t2(2) z1(1) by simp
    ultimately show ?thesis by (cases rc) auto
  qed
qed

lemma weof_ok:
  assumes inv: "write_inv z pos" and seg: "first_data_segment (z_ftape z) < seg_pos pos"
    and access: "zft_tape_at_lbot z pos \<or> zft_tape_at_eod z pos" and run: "zft_weof z n pos = Some (z', pos', rc)"
  shows "write_inv z' pos'"
proof (cases "n = 0")
  case True
  with inv run show ?thesis by (simp add: zft_weof_def)
next
  case False
  let ?z1 = "z\<lparr>volume_table_changed := True\<rparr>"
  have same1: "same_table z ?z1" by (simp add: same_table_def)
  have inv1: "write_inv ?z1 pos" using inv same_table_ok_cur [OF same1] same_table_last [OF same1] by (simp add: write_inv_def)
  define A where "A = (if zft_tape_at_lbot ?z1 pos then forget_old_tape ?z1 else Some ?z1)"
  define B where "B z2 = (if v_open (zft_last_vtbl z2) then do { (z3, pos1, _) \<leftarrow> zft_close_volume z2 pos; (z4, pos2) \<leftarrow> zft_move_past_eof z3 pos1; Some (z4, pos2, n - 1) }
          else Some (z2, pos, n))" for z2
  have "zft_weof z n pos = do { z2 \<leftarrow> A; (z3, pos1, m) \<leftarrow> B z2; (z4, pos2, rc) \<leftarrow> weof_loop z3 m pos1;
       Some (case rc of
         Inl e \<Rightarrow> (z4, pos2, Inl e)
       | Inr left \<Rightarrow>
           if left > 0 then (z4\<lparr>resid := int left\<rparr>, pos2, Inl (if v_count (vtbl_eom z4) = ZFT_MAX_VOLUMES z4 then EINVAL else ENOSPC))
           else (z4, pos2, Inr ())) }"
    using False by (simp add: zft_weof_def Let_def A_def B_def)
  with run obtain z2 z3 pos1 m z4 pos2 rc' where z2: "A = Some z2" and z3: "B z2 = Some (z3, pos1, m)"
    and z4: "weof_loop z3 m pos1 = Some (z4, pos2, rc')"
    and fin: "(case rc' of
         Inl e \<Rightarrow> (z4, pos2, Inl e)
       | Inr left \<Rightarrow>
           if left > 0 then (z4\<lparr>resid := int left\<rparr>, pos2, Inl (if v_count (vtbl_eom z4) = ZFT_MAX_VOLUMES z4 then EINVAL else ENOSPC))
           else (z4, pos2, Inr ())) = (z', pos', rc)"
    by (auto simp: bind_eq_Some_conv split del: if_split)
  from fin have z': "z' = z4 \<or> (\<exists>r. z' = z4\<lparr>resid := r\<rparr>)" "pos' = pos2"
    by (auto split: sum.splits if_splits)
  note z2 = z2 [unfolded A_def] and z3 = z3 [unfolded B_def]
  have "write_inv z3 pos1 \<and> \<not> v_open (zft_last_vtbl z3) \<and> v_start_seg (vtbl_eom z3) \<le> seg_pos pos1"
  proof (cases "zft_tape_at_lbot ?z1 pos")
    case True
    then have f: "forget_old_tape ?z1 = Some z2" using z2 by simp
    have "tape_bounds ?z1" using inv1 table_ok_bounds by (simp add: write_inv_def)
    note f2 = forget_old_tape_ok [OF f this]
    have h: "zft_last_vtbl z2 = vtbl_head z2" using f2(2) by (simp add: zft_last_vtbl_def)
    then have "z3 = z2" "pos1 = pos" using z3 f2(7) by simp_all
    moreover have "v_start_seg (vtbl_eom z2) = first_data_segment (z_ftape z) + 1" using f2(1,4,5) h by (simp add: table_ok_def)
    ultimately show ?thesis using f2 h seg inv by (simp add: write_inv_def)
  next
    case lbot: False
    then have e: "z2 = ?z1" using z2 by simp
    have "zft_tape_at_lbot ?z1 pos = zft_tape_at_lbot z pos"
      unfolding zft_tape_at_lbot_def zft_first_vtbl_def zft_first_segment_def by simp
    then have lb: "\<not> zft_tape_at_lbot z pos" using lbot by simp
    show ?thesis
    proof (cases "v_open (zft_last_vtbl ?z1)")
      case True
      from z3 True e obtain zc pc rc1 where c: "zft_close_volume ?z1 pos = Some (zc, pc, rc1)" "zft_move_past_eof zc pc = Some (z3, pos1)"
        by (auto simp: bind_eq_Some_conv)
      note ci = close_volume_inv [OF inv1 c(1)]
      have "vtbl_vols ?z1 \<noteq> []" using True inv1 by (auto simp: write_inv_def zft_last_vtbl_def)
      then have "rc1 = Inr ()" using c(1) True by (auto simp: zft_close_volume_def bind_eq_Some_conv Let_def)
      note ce = ci(3) [OF this]
      have "table_ok zc" "-1 \<le> seg_pos pc" using ci(1) by (simp_all add: write_inv_def)
      then have "seg_pos pc \<le> last_data_segment (z_ftape zc)" using ce last_entry_bounds by auto
      note m = move_past_eof_ok [OF ci(1) \<open>-1 \<le> seg_pos pc\<close> this ci(2) c(2)]
      then show ?thesis using ce ci(2) same_table_last [OF m(2)] by (simp add: same_table_def)
    next
      case closed: False
      then have "z3 = ?z1" "pos1 = pos" using z3 e by simp_all
      moreover have "v_start_seg (vtbl_eom z) \<le> seg_pos pos"
      proof -
        have "0 \<le> seg_pos pos" "seg_pos pos < 2 ^ 32" using seg inv by (auto simp: write_inv_def table_ok_def)
        then have "u32 (seg_pos pos) = seg_pos pos" by (rule u32_small)
        then show ?thesis using access lb inv closed same_table_last [OF same1] by (simp add: zft_tape_at_eod_def write_inv_def)
      qed
      ultimately show ?thesis using inv1 closed by simp
    qed
  qed
  then have inv4: "write_inv z4 pos2" using weof_loop_ok [OF _ _ _ z4] by blast
  have "same_table z4 (z4\<lparr>resid := r\<rparr>)" for r by (simp add: same_table_def)
  then have "write_inv (z4\<lparr>resid := r\<rparr>) pos2" for r
    using inv4 same_table_ok_cur [of z4 "z4\<lparr>resid := r\<rparr>"] same_table_last [of z4 "z4\<lparr>resid := r\<rparr>"] by (simp add: write_inv_def)
  with inv4 z' show ?thesis by auto
qed

text \<open>
  The operations on a tape in the mode with a volume table, with the conditions under which their callers
  get to them: begin a volume, write, which moves the position forward inside the open volume and stops
  at the end of the tape (\<open>fill_deblock_buf\<close> compares with the capacity), close the volume, write file marks
  at the start or the end of the data, and, with no volume open, skip volumes, go to the end of the data and rewind.
\<close>

inductive tape_step :: "zftape_info \<times> zft_position \<Rightarrow> zftape_info \<times> zft_position \<Rightarrow> bool" where
  step_open: "zft_open_volume z pos blk_sz = Some (z', pos', rc) \<Longrightarrow> tape_step (z, pos) (z', pos')"
| step_write: "v_open (zft_last_vtbl z) \<Longrightarrow> seg_pos pos \<le> seg_pos pos' \<Longrightarrow>
    seg_pos pos' \<le> last_data_segment (z_ftape z) \<or> (seg_pos pos' = last_data_segment (z_ftape z) + 1 \<and> seg_byte_pos pos' = 0
      \<and> v_start_seg (zft_last_vtbl z) \<le> last_data_segment (z_ftape z)) \<Longrightarrow>
    tape_step (z, pos) (z, pos')"
| step_close: "zft_close_volume z pos = Some (z', pos', rc) \<Longrightarrow> tape_step (z, pos) (z', pos')"
| step_weof: "zft_weof z n pos = Some (z', pos', rc) \<Longrightarrow> zft_tape_at_lbot z pos \<or> zft_tape_at_eod z pos \<Longrightarrow>
    first_data_segment (z_ftape z) < seg_pos pos \<Longrightarrow> tape_step (z, pos) (z', pos')"
| step_skip: "zft_skip_volumes z count pos = Some (z', pos', rc) \<Longrightarrow> \<not> v_open (zft_last_vtbl z) \<Longrightarrow> 0 \<le> seg_pos pos \<Longrightarrow>
    tape_step (z, pos) (z', pos')"
| step_eom: "zft_skip_to_eom z pos = Some (z', pos') \<Longrightarrow> \<not> v_open (zft_last_vtbl z) \<Longrightarrow> tape_step (z, pos) (z', pos')"
| step_rewind: "zft_reset_position z pos = Some (z', pos') \<Longrightarrow> \<not> v_open (zft_last_vtbl z) \<Longrightarrow> tape_step (z, pos) (z', pos')"

lemma skip_forward_entry:
  "i \<le> nvols z \<Longrightarrow> skip_forward z n (entry_ref z i) = Some (n - (nvols z - i), entry_ref z (min (nvols z) (i + n)))"
proof (induction n arbitrary: i)
  case (Suc n)
  show ?case
  proof (cases "i < nvols z")
    case True
    with Suc.IH [of "Suc i"] show ?thesis by (simp add: next_entry) (simp add: entry_ref_def)
  qed (use Suc.prems in \<open>simp add: entry_ref_def\<close>)
qed (simp add: min_def)

lemma first_ref_entry: "first_ref z = entry_ref z 0"
  by (simp add: first_ref_def entry_ref_def)

lemma entry_ref_inj: "i \<le> nvols z \<Longrightarrow> j \<le> nvols z \<Longrightarrow> entry_ref z i = entry_ref z j \<longleftrightarrow> i = j"
  by (auto simp: entry_ref_def)

lemma skip_backward_entry:
  "i \<le> nvols z \<Longrightarrow> skip_backward z n (entry_ref z i) = Some (n - i, entry_ref z (i - n))"
proof (induction n arbitrary: i)
  case (Suc n)
  show ?case
  proof (cases "i = 0")
    case False
    with Suc.prems have "entry_ref z i \<noteq> first_ref z" by (simp add: first_ref_entry entry_ref_inj)
    with Suc.IH [of "i - 1"] Suc.prems False show ?thesis by (simp add: prev_entry)
  qed (simp add: first_ref_entry)
qed simp

lemma skip_volumes_frame:
  assumes "table_ok z" "qic_mode z" "0 \<le> seg_pos pos" "seg_pos pos \<le> last_data_segment (z_ftape z) + 1"
    "zft_skip_volumes z count pos = Some (z', pos', rc)"
  shows "table_ok z'" "same_table z z'" "\<exists>i\<le>nvols z. seg_pos pos' = v_start_seg (vtbl_entries z ! i)"
proof -
  have u: "u32 (seg_pos pos) = seg_pos pos" using assms(1,3,4) by (intro u32_small) (auto simp: table_ok_def)
  from assms(5) obtain z1 r r' v z2 p left where *: "zft_volume_by_segpos z (seg_pos pos) = Some (z1, r)"
      "(if count \<ge> 0 then skip_forward z1 (nat count) r else skip_backward z1 (nat (- count)) r) = Some (left, r')"
      "vtbl_at z1 r' = Some v" "zft_calc_tape_pos z1 (v_start_seg v) = Some (z2, p)" "seg_pos pos' = v_start_seg v"
      "z' = (zft_release_deblock_buffer (z2\<lparr>just_before_eof := (zft_volume_size z2 v = 0)\<rparr>))\<lparr>resid := int left\<rparr>"
    unfolding zft_skip_volumes_def u by (auto simp: bind_eq_Some_conv Let_def split del: if_split)
  note s = volume_by_segpos_ok [OF assms(1,2,4) *(1)]
  have e1: "vtbl_entries z1 = vtbl_entries z" "nvols z1 = nvols z" using same_table_entries [OF s(2)] s(2) by (simp_all add: same_table_def)
  then have "entry_ref z1 = entry_ref z" by (simp add: entry_ref_def fun_eq_iff)
  with s(3) e1(2) obtain i where i: "i \<le> nvols z1" "r = entry_ref z1 i" by auto
  have "r' = entry_ref z1 (if count \<ge> 0 then min (nvols z1) (i + nat count) else i - nat (- count))"
    using *(2) skip_forward_entry [OF i(1)] skip_backward_entry [OF i(1)] i(2) by (simp split: if_splits)
  moreover have "(if count \<ge> 0 then min (nvols z1) (i + nat count) else i - nat (- count)) \<le> nvols z1" using i(1) by (auto intro: le_trans [OF diff_le_self])
  ultimately obtain j where "j \<le> nvols z1" "r' = entry_ref z1 j" by blast
  then show "\<exists>i\<le>nvols z. seg_pos pos' = v_start_seg (vtbl_entries z ! i)"
    using vtbl_at_entry [of j z1] *(3,5) e1 by auto
  have t2: "same_table z1 z2" "cur_vtbl z2 = cur_vtbl z1"
    using calc_tape_pos_same [OF *(4)] same_tape_same_table same_tape_table(4) by blast+
  have t3: "same_table z2 z'" "cur_vtbl z' = cur_vtbl z2" using *(6) by (simp_all add: same_table_def zft_release_deblock_buffer_def)
  show "table_ok z'" by (rule same_table_ok_cur [OF t3 same_table_ok_cur [OF t2 s(1)]])
  show "same_table z z'" by (rule same_table_trans [OF s(2) same_table_trans [OF t2(1) t3(1)]])
qed

text \<open>Moving with no volume open keeps the invariant.\<close>

lemma write_inv_move:
  assumes "write_inv z pos" "\<not> v_open (zft_last_vtbl z)" "table_ok z'" "same_table z z'"
    "-1 \<le> seg_pos pos'" "seg_pos pos' \<le> last_data_segment (z_ftape z) + 1"
  shows "write_inv z' pos'"
  using assms same_table_last [OF assms(4)] by (simp add: write_inv_def same_table_def)

lemma tape_step_inv:
  assumes "write_inv z pos" "tape_step (z, pos) (z', pos')"
  shows "write_inv z' pos' \<or> begins_behind_end z pos \<and> (\<exists>b. zft_open_volume z pos b = Some (z', pos', Inr ()))"
  using assms(2)
proof cases
  case step_open
  then show ?thesis using open_volume_ok assms(1) by blast
next
  case step_write
  then show ?thesis using assms(1) by (auto simp: write_inv_def)
next
  case step_close
  then show ?thesis using close_volume_inv assms(1) by blast
next
  case step_weof
  then show ?thesis using weof_ok assms(1) by blast
next
  case step_skip
  have w: "table_ok z" "qic_mode z" "seg_pos pos \<le> last_data_segment (z_ftape z) + 1" using assms(1) by (simp_all add: write_inv_def)
  note f = skip_volumes_frame [OF w(1,2) step_skip(3) w(3) step_skip(1)]
  from f(3) obtain i where "i \<le> nvols z" "seg_pos pos' = v_start_seg (vtbl_entries z ! i)" by blast
  with entry_start_bounds [OF w(1), of i] w(1) show ?thesis
    by (intro disjI1 write_inv_move [OF assms(1) step_skip(2) f(1,2)]) (auto simp: table_ok_def)
next
  case step_eom
  let ?z = "z\<lparr>just_before_eof := False\<rparr>"
  have w: "table_ok z" using assms(1) by (simp add: write_inv_def)
  from step_eom(1) obtain p where c: "zft_calc_tape_pos ?z (v_start_seg (vtbl_eom z)) = Some (z', p)"
      and s: "seg_pos pos' = v_start_seg (vtbl_eom z)"
    by (auto simp: zft_skip_to_eom_def Let_def bind_eq_Some_conv)
  have t: "same_table z ?z" by (simp add: same_table_def)
  have "same_table ?z z'" "cur_vtbl z' = cur_vtbl ?z"
    using calc_tape_pos_same [OF c] same_tape_same_table same_tape_table(4) by blast+
  then have "table_ok z'" "same_table z z'"
    using same_table_ok_cur w t same_table_trans [OF t] by (simp_all add: same_table_ok_cur)
  moreover have "-1 \<le> seg_pos pos'" "seg_pos pos' \<le> last_data_segment (z_ftape z) + 1"
    using s w last_entry_bounds [OF w] by (auto simp: table_ok_def)
  ultimately show ?thesis using write_inv_move [OF assms(1) step_eom(2)] by blast
next
  case step_rewind
  have w: "table_ok z" "qic_mode z" using assms(1) by (simp_all add: write_inv_def)
  note f = reset_position_ok [OF w step_rewind(1)]
  have "-1 \<le> seg_pos pos'" "seg_pos pos' \<le> last_data_segment (z_ftape z) + 1"
    using f(3) entry_start_bounds [OF w(1)] w(1) by (force simp: table_ok_def)+
  then show ?thesis by (intro disjI1 write_inv_move [OF assms(1) step_rewind(2) f(1,2)])
qed

lemma tape_steps_inv:
  assumes "tape_step\<^sup>*\<^sup>* zp zp'" "write_inv (fst zp) (snd zp)"
  shows "write_inv (fst zp') (snd zp') \<or> (\<exists>z1 pos1 b z2 pos2. tape_step\<^sup>*\<^sup>* zp (z1, pos1) \<and> write_inv z1 pos1
    \<and> begins_behind_end z1 pos1 \<and> zft_open_volume z1 pos1 b = Some (z2, pos2, Inr ()) \<and> tape_step\<^sup>*\<^sup>* (z2, pos2) zp')"
  using assms
proof (induction rule: rtranclp_induct)
  case (step y w)
  consider "write_inv (fst y) (snd y)" | z1 pos1 b z2 pos2 where "tape_step\<^sup>*\<^sup>* zp (z1, pos1)" "write_inv z1 pos1"
      "begins_behind_end z1 pos1" "zft_open_volume z1 pos1 b = Some (z2, pos2, Inr ())" "tape_step\<^sup>*\<^sup>* (z2, pos2) y"
    using step.IH step.prems by blast
  then show ?case
  proof cases
    case 1
    have y: "tape_step\<^sup>*\<^sup>* zp (fst y, snd y)" "tape_step (fst y, snd y) (fst w, snd w)" using step.hyps by simp_all
    consider "write_inv (fst w) (snd w)"
      | b where "begins_behind_end (fst y) (snd y)" "zft_open_volume (fst y) (snd y) b = Some (fst w, snd w, Inr ())"
      using tape_step_inv [OF 1 y(2)] by blast
    then show ?thesis
    proof cases
      case (2 b)
      have "tape_step\<^sup>*\<^sup>* (fst w, snd w) w" by simp
      with 1 2 y(1) show ?thesis by blast
    qed simp
  next
    case 2
    have "tape_step\<^sup>*\<^sup>* (z2, pos2) w" using 2(5) step.hyps(2) by (rule rtranclp.rtrancl_into_rtrancl)
    with 2 show ?thesis by blast
  qed
qed simp

section \<open>The theorems\<close>


definition start_pos :: zft_position where
  "start_pos = \<lparr>seg_pos = 2, seg_byte_pos = 0, tape_pos = 29696, volume_pos = 0\<rparr>"

text \<open>A volume that is begun at the start of the tape, gets one sector and is closed.\<close>

lemma small_volume_begun:
  obtains z' where "zft_open_volume (zft_init_vtbl small_tape) start_pos 10240 = Some (z', start_pos, Inr ())"
    "v_open (zft_last_vtbl z')" "v_start_seg (zft_last_vtbl z') = 2" "vtbl_vols z' \<noteq> []" "pos_ok (bsm_rep fmt_normal 2048 2060 3) 3 z' (\<lambda>_. 0)"
    "capacity z' = 59392" "zft_first_segment z' = 1" "raw_image z' = False" "last_data_segment (z_ftape z') = 2"
proof -
  let ?z = "zft_init_vtbl small_tape" and ?R = "bsm_rep fmt_normal 2048 2060 3"
  have lb: "zft_tape_at_lbot ?z start_pos"
    by (simp add: zft_tape_at_lbot_def start_pos_def zft_init_vtbl_def Let_def zft_first_vtbl_def small_tape_def small_ftape_def u32_small)
  have fo: "forget_old_tape ?z = Some (zft_init_vtbl ?z)"
    by (simp add: forget_old_tape_def zft_init_vtbl_def Let_def small_tape_def)
  let ?y = "zft_init_vtbl ?z"
  have y: "z_ftape ?y = small_ftape" "qic_mode ?y" "vtbl_vols ?y = []" "v_start_seg (vtbl_eom ?y) = 2" "vtbl_read ?y"
      "capacity ?y = 59392" "raw_image ?y = False" "v_end_seg (vtbl_head ?y) = 1" "v_offset (vtbl_head ?y) = -128"
      "v_count (vtbl_eom ?y) = 0" "vtbl_size ?y = 29696" "z_seg_pos ?y = 1" "z_tape_pos ?y = 0"
      "first_data_segment small_ftape = 1" "last_data_segment small_ftape = 2"
    by (simp_all add: zft_init_vtbl_def Let_def small_tape_def small_ftape_def blank_info_def blank_vol_def)
  have "table_ok ?y" by (rule init_vtbl_ok) (use y in \<open>simp_all add: zft_init_vtbl_def Let_def small_tape_def\<close>)
  moreover have "volume_index ?y 0 = 0" "entry_ref ?y 0 = Eom_Vtbl" using y by (simp_all add: volume_index_def vtbl_entries_def entry_ref_def)
  ultimately have vol: "zft_volume_by_segpos ?y 0 = Some (?y\<lparr>cur_vtbl := Eom_Vtbl\<rparr>, Eom_Vtbl)"
    using volume_by_segpos_eq [of ?y 0] y by simp
  let ?x = "?y\<lparr>cur_vtbl := Eom_Vtbl\<rparr>"
  have x: "pos_ok ?R 3 ?x (\<lambda>_. 0)" "zft_first_segment ?x = 1"
    using small_tape_known y small_tape_positions(3) by (simp_all add: pos_ok_def sizes_known_def zft_first_segment_def small_tape_def)
  obtain w where w: "zft_calc_tape_pos ?x 2 = Some (w, 29696)" "pos_ok ?R 3 w (\<lambda>_. 0)" "same_tape ?x w"
    using calc_tape_pos_any [OF x(1), of 2] y x(2) small_tape_positions by auto
  note f = same_tape_frame [OF w(3)] same_tape_capacity [OF w(3)] same_tape_table [OF w(3)]
  let ?u = "stop_io w"
  have u: "vtbl_vols ?u = []" "vtbl_head ?u = vtbl_head ?y" "vtbl_eom ?u = vtbl_eom ?y" "z_ftape ?u = z_ftape w" "qic_mode ?u"
      "capacity ?u = 59392" "raw_image ?u = False" "vtbl_size ?u = 29696" "z_seg_pos ?u = z_seg_pos w" "z_tape_pos ?u = z_tape_pos w"
      "zft_first_segment ?u = 1"
    using f y x(2) by (simp_all add: stop_io_def zft_prevent_flush_def zft_zap_write_buffers_def zft_zap_read_buffers_def
        zft_release_deblock_buffer_def zft_first_segment_def)
  have last: "last_data_segment (z_ftape w) = 2" using f y by simp
  have "vtbl_at ?x Eom_Vtbl = Some (vtbl_eom ?y)" by (simp add: vtbl_at_def)
  then have reset: "zft_reset_position ?y start_pos = Some (?u, start_pos)"
    unfolding zft_reset_position_def Let_def using y w(1) by (simp add: vol) (simp add: start_pos_def)
  have l: "zft_last_vtbl ?u = vtbl_head ?y" using u by (simp add: zft_last_vtbl_def)
  have "qic_mode ?z" by (simp add: zft_init_vtbl_def Let_def small_tape_def)
  then have "\<exists>z'. zft_open_volume ?z start_pos 10240 = Some (z', start_pos, Inr ()) \<and> v_open (zft_last_vtbl z')
    \<and> v_start_seg (zft_last_vtbl z') = 2 \<and> vtbl_vols z' \<noteq> [] \<and> capacity z' = capacity ?u \<and> z_ftape z' = z_ftape ?u
    \<and> raw_image z' = raw_image ?u \<and> z_seg_pos z' = z_seg_pos ?u \<and> z_tape_pos z' = z_tape_pos ?u \<and> qic_mode z'"
    unfolding zft_open_volume_def using lb fo reset u l y last
    by (simp add: Let_def start_pos_def zft_last_vtbl_def u32_small) (simp add: update_last_def zft_new_vtbl_entry_def)
  then obtain z' where z': "zft_open_volume ?z start_pos 10240 = Some (z', start_pos, Inr ())" "v_open (zft_last_vtbl z')"
      "v_start_seg (zft_last_vtbl z') = 2" "vtbl_vols z' \<noteq> []" "capacity z' = capacity ?u" "z_ftape z' = z_ftape ?u"
      "raw_image z' = raw_image ?u" "z_seg_pos z' = z_seg_pos ?u" "z_tape_pos z' = z_tape_pos ?u" "qic_mode z'" by blast
  have fs: "zft_first_segment z' = 1" using z'(6,7,10) u f y by (simp add: zft_first_segment_def)
  have "pos_ok ?R 3 z' (\<lambda>_. 0)" using w(2) z' u fs f x(2) y by (simp add: pos_ok_def sizes_known_def)
  then show thesis using that [OF z'(1-4)] z' u fs last by simp
qed


definition empty_table_tape :: zftape_info where
  "empty_table_tape = zft_init_vtbl (small_tape\<lparr>z_ftape := small_ftape\<lparr>last_data_segment := 9\<rparr>\<rparr>)"

lemma empty_table_simps:
  "qic_mode empty_table_tape" "first_data_segment (z_ftape empty_table_tape) = 1" "last_data_segment (z_ftape empty_table_tape) = 9"
  "vtbl_vols empty_table_tape = []" "v_end_seg (vtbl_head empty_table_tape) = 1" "v_offset (vtbl_head empty_table_tape) = -128"
  "v_count (vtbl_eom empty_table_tape) = 0" "v_start_seg (vtbl_eom empty_table_tape) = 2" "vtbl_size empty_table_tape = 29696" "header_read empty_table_tape" "vtbl_read empty_table_tape"
  by (simp_all add: empty_table_tape_def zft_init_vtbl_def small_tape_def small_ftape_def blank_info_def blank_vol_def Let_def)

lemma empty_table_ok: "table_ok empty_table_tape"
  unfolding empty_table_tape_def by (rule init_vtbl_ok) (simp_all add: small_ftape_def blank_info_def)

text \<open>
  C21. \<open>zft_volume_by_segpos\<close> returns the volume of a segment whatever volume it found last: its search
  from the cached entry, forwards and then backwards, ends and gives the same entry as counting the
  entries that start at or before the segment, for every segment up to the end of the tape.
\<close>

theorem volume_by_segpos_exact:
  assumes "table_ok z" and "qic_mode z" and "seg \<le> last_data_segment (z_ftape z) + 1"
  shows "zft_volume_by_segpos z seg = Some (z\<lparr>cur_vtbl := entry_ref z (volume_index z seg)\<rparr>, entry_ref z (volume_index z seg))"
  by (rule volume_by_segpos_eq [OF assms])

text \<open>Segment 5 of a tape with two volumes, with the pointer of the look-up at the end.\<close>

definition two_volumes :: zftape_info where
  "two_volumes = empty_table_tape\<lparr>vtbl_vols := [blank_vol\<lparr>v_start_seg := 2, v_end_seg := 4\<rparr>, blank_vol\<lparr>v_start_seg := 5, v_end_seg := 7\<rparr>],
     vtbl_eom := blank_vol\<lparr>v_start_seg := 8, v_end_seg := 10, v_count := 2\<rparr>\<rparr>"

lemma two_volumes_ok: "table_ok two_volumes" "qic_mode two_volumes" "last_data_segment (z_ftape two_volumes) = 9"
proof -
  have "cur_ok two_volumes" by (simp add: two_volumes_def empty_table_tape_def cur_ok_def zft_init_vtbl_def Let_def)
  then show "table_ok two_volumes" using empty_table_simps
    by (simp add: two_volumes_def table_ok_def volumes_ordered_def zft_last_vtbl_def blank_vol_def)
qed (simp_all add: two_volumes_def empty_table_simps)

theorem volume_by_segpos_exact_witness:
  "zft_volume_by_segpos two_volumes 5 = Some (two_volumes\<lparr>cur_vtbl := Vol 1\<rparr>, Vol 1)"
proof -
  have "volume_index two_volumes 5 = 1" "entry_ref two_volumes 1 = Vol 1"
    by (simp_all add: volume_index_def vtbl_entries_def entry_ref_def two_volumes_def)
  then show ?thesis using volume_by_segpos_exact [OF two_volumes_ok(1,2), of 5] two_volumes_ok(3) by simp
qed

text \<open>
  Appending to a full tape: when the last volume ends at the last data segment, the driver opens a
  new volume behind it all the same, and closing it enters a volume into the table that starts and
  ends behind the last segment of the tape, at the end of the end-of-medium entry. A table with such an
  entry is taken for broken when it is read again.
\<close>

theorem append_to_full_tape:
  assumes "table_ok z" and "qic_mode z" and "\<not> zft_tape_at_lbot z pos" and "v_end_seg (zft_last_vtbl z) = last_data_segment (z_ftape z)"
    and "seg_pos pos = last_data_segment (z_ftape z) + 1" and "v_count (vtbl_eom z) < ZFT_MAX_VOLUMES z"
    and "0 \<le> v_offset (zft_last_vtbl z) + 128" and "v_offset (zft_last_vtbl z) + 128 < int FT_SEGMENT_SIZE"
  shows "\<exists>z1 pos1 z2. zft_open_volume z pos b = Some (z1, pos1, Inr ()) \<and> zft_close_volume z1 pos1 = Some (z2, pos1, Inr ())
    \<and> v_start_seg (zft_last_vtbl z2) = last_data_segment (z_ftape z2) + 1
    \<and> v_end_seg (zft_last_vtbl z2) = v_end_seg (vtbl_eom z2) \<and> \<not> table_ok z2"
proof -
  let ?last = "last_data_segment (z_ftape z)"
  have off: "u32 (v_offset (zft_last_vtbl z) + 128) = v_offset (zft_last_vtbl z) + 128"
    using assms(7,8) by (intro u32_small) auto
  let ?f = "\<lambda>v. v\<lparr>v_start_seg := seg_pos pos, v_end_seg := ?last, v_blk_sz := b, v_size := capacity z, v_zft_volume := True,
    v_use_compression := False, v_qic113 := z_qic113 z, v_offset := v_offset (zft_last_vtbl z) + 128,
    v_version := (if z_qic113 z then 2 else 0), v_new_volume := True, v_open := True\<rparr>"
  define v where "v = ?f (blank_vol\<lparr>v_count := v_count (vtbl_eom z)\<rparr>)"
  define z1 where "z1 = (update_last ?f (zft_new_vtbl_entry z))\<lparr>volume_table_changed := True,
    vtbl_eom := (vtbl_eom (zft_new_vtbl_entry z))\<lparr>v_start_seg := ?last + 1\<rparr>\<rparr>"
  define pos1 where "pos1 = pos\<lparr>volume_pos := 0, seg_byte_pos := 0\<rparr>"
  have o: "zft_open_volume z pos b = Some (z1, pos1, Inr ())"
    using assms(2-6,8) off by (simp add: zft_open_volume_def Let_def z1_def pos1_def)
  have z1: "vtbl_vols z1 = vtbl_vols z @ [v]" "z_ftape z1 = z_ftape z" "v_end_seg (vtbl_eom z1) = ?last + 1"
    using assms(1) by (simp_all add: z1_def v_def table_ok_def)
  have v: "v_start_seg v = ?last + 1" "v_open v" "seg_pos pos1 = ?last + 1" "seg_byte_pos pos1 = 0"
    using assms(5) by (simp_all add: v_def pos1_def)
  have last1: "zft_last_vtbl z1 = v" using z1(1) by (simp add: zft_last_vtbl_def)
  have b: "0 \<le> ?last" "?last < 2 ^ 31 - 2" using assms(1) by (auto simp: table_ok_def)
  have calc: "zft_calc_tape_pos z1 (s32 i) = Some (z1, capacity z1)" if "i = ?last + 1 \<or> i = ?last + 2" for i
  proof -
    have "s32 i = i" using that b by (intro s32_small) auto
    then show ?thesis using that z1(2) by (auto simp: zft_calc_tape_pos_def)
  qed
  define w where "w = v\<lparr>v_end_seg := ?last + 1, v_size := 0, v_rawsize := 0, v_open := False\<rparr>"
  define z2 where "z2 = (update_last (\<lambda>_. w) z1)\<lparr>vtbl_eom := (vtbl_eom z1)\<lparr>v_start_seg := ?last + 2\<rparr>,
    volume_table_changed := True, just_before_eof := True\<rparr>"
  have "zft_close_volume z1 pos1 = Some (z2, pos1, Inr ())"
    using calc z1 v last1 by (simp add: zft_close_volume_def segment_range_size_def Let_def z2_def w_def pos1_def add.assoc)
  moreover have "zft_last_vtbl z2 = w" "v_end_seg (vtbl_eom z2) = ?last + 1" "z_ftape z2 = z_ftape z" "w \<in> set (vtbl_vols z2)"
    using z1 by (simp_all add: z2_def zft_last_vtbl_def update_last_def)
  moreover have "v_end_seg w = ?last + 1" by (simp add: w_def)
  moreover have "\<not> table_ok z2"
  proof
    assume "table_ok z2"
    then have "v_end_seg w \<le> last_data_segment (z_ftape z2)" using \<open>w \<in> set (vtbl_vols z2)\<close> by (auto simp: table_ok_def volumes_ordered_def)
    then show False using \<open>z_ftape z2 = z_ftape z\<close> by (simp add: w_def)
  qed
  ultimately show ?thesis using o v(1) by (auto simp: w_def)
qed

definition crowded_tape :: zftape_info where
  "crowded_tape = two_volumes\<lparr>vtbl_vols := [blank_vol\<lparr>v_start_seg := 2, v_end_seg := 9\<rparr>],
     vtbl_eom := blank_vol\<lparr>v_start_seg := 10, v_end_seg := 10, v_count := 1\<rparr>\<rparr>"

lemma crowded_tape_ok: "table_ok crowded_tape"
proof -
  have "cur_ok crowded_tape" by (simp add: crowded_tape_def two_volumes_def empty_table_tape_def cur_ok_def zft_init_vtbl_def Let_def)
  then show ?thesis using empty_table_simps
    by (simp add: crowded_tape_def two_volumes_def table_ok_def volumes_ordered_def zft_last_vtbl_def blank_vol_def)
qed

theorem append_to_full_tape_witness:
  "\<exists>z1 pos1 z2. zft_open_volume crowded_tape (start_pos\<lparr>seg_pos := 10\<rparr>) 10240 = Some (z1, pos1, Inr ())
    \<and> zft_close_volume z1 pos1 = Some (z2, pos1, Inr ()) \<and> \<not> table_ok z2"
proof -
  have "\<not> zft_tape_at_lbot crowded_tape (start_pos\<lparr>seg_pos := 10\<rparr>)" "qic_mode crowded_tape"
    "v_end_seg (zft_last_vtbl crowded_tape) = last_data_segment (z_ftape crowded_tape)" "last_data_segment (z_ftape crowded_tape) = 9"
    "v_count (vtbl_eom crowded_tape) < ZFT_MAX_VOLUMES crowded_tape" "v_offset (zft_last_vtbl crowded_tape) = 0"
    using empty_table_simps
    by (simp_all add: crowded_tape_def two_volumes_def zft_tape_at_lbot_def zft_first_vtbl_def zft_last_vtbl_def start_pos_def blank_vol_def u32_small)
  then show ?thesis
    using append_to_full_tape [OF crowded_tape_ok, of "start_pos\<lparr>seg_pos := 10\<rparr>" 10240] by (simp add: start_pos_def) blast
qed

text \<open>
  C31. \<open>zft_skip_volumes\<close> (\<open>MTFSF\<close> and \<open>MTBSF\<close>): from the volume of the current segment the tape goes
  \<open>count\<close> volumes forward or, for a negative count, backward, stopping at the first volume and at the
  end of medium; \<open>resid\<close> is the number of volumes it could not skip, and the call fails exactly when that
  is not zero.
\<close>

theorem skip_volumes_exact:
  assumes "table_ok z" and "qic_mode z" and "0 \<le> seg_pos pos" and "seg_pos pos \<le> last_data_segment (z_ftape z) + 1"
    and "pos_ok (bsm_rep fmt base lim n) n z M"
    and "capacity z = seg_position M (raw_image z) (zft_first_segment z) (last_data_segment (z_ftape z) + 1)"
  shows "\<exists>z'. let i = volume_index z (seg_pos pos); j = nat (max 0 (min (int (nvols z)) (int i + count))); v = vtbl_entries z ! j
    in zft_skip_volumes z count pos = Some (z', pos\<lparr>seg_pos := v_start_seg v, seg_byte_pos := 0, volume_pos := 0,
         tape_pos := seg_position M (raw_image z) (zft_first_segment z) (min (v_start_seg v) (last_data_segment (z_ftape z) + 1))\<rparr>,
         if int i + count = int j then Inr () else Inl EINVAL)
       \<and> resid z' = \<bar>int i + count - int j\<bar>"
proof -
  let ?i = "volume_index z (seg_pos pos)"
  let ?j = "nat (max 0 (min (int (nvols z)) (int ?i + count)))"
  let ?z1 = "z\<lparr>cur_vtbl := entry_ref z ?i\<rparr>"
  have u: "u32 (seg_pos pos) = seg_pos pos" using assms(1,3,4) by (intro u32_small) (auto simp: table_ok_def)
  have b: "zft_volume_by_segpos z (seg_pos pos) = Some (?z1, entry_ref z ?i)" by (rule volume_by_segpos_eq [OF assms(1,2,4)])
  have i: "?i \<le> nvols z" by (rule volume_index_le)
  have ref: "entry_ref ?z1 k = entry_ref z k" "vtbl_entries ?z1 = vtbl_entries z" for k by (simp_all add: entry_ref_def vtbl_entries_def)
  define left where "left = (if count \<ge> 0 then nat count - (nvols z - ?i) else nat (- count) - ?i)"
  have loops: "(if count \<ge> 0 then skip_forward ?z1 (nat count) (entry_ref z ?i) else skip_backward ?z1 (nat (- count)) (entry_ref z ?i))
      = Some (left, entry_ref z ?j)"
  proof (cases "count \<ge> 0")
    case True
    then have e: "int ?i + count = int (?i + nat count)" by simp
    have "?j = min (nvols z) (?i + nat count)" unfolding e of_nat_min [symmetric] by simp
    then show ?thesis using True skip_forward_entry [of ?i ?z1 "nat count"] i ref by (simp add: left_def)
  next
    case False
    have "min (int (nvols z)) (int ?i + count) = int ?i + count" using False i by (intro min_absorb2) linarith
    moreover have "nat (max 0 (int ?i + count)) = ?i - nat (- count)" using False by linarith
    ultimately have "?j = ?i - nat (- count)" by simp
    then show ?thesis using False skip_backward_entry [of ?i ?z1 "nat (- count)"] i ref by (simp add: left_def)
  qed
  have j: "?j \<le> nvols z" by simp
  have at: "vtbl_at ?z1 (entry_ref z ?j) = Some (vtbl_entries z ! ?j)" using vtbl_at_entry [of ?j ?z1] ref j by simp
  have left: "int left = \<bar>int ?i + count - int ?j\<bar>" using i by (auto simp: left_def)
  have "pos_ok (bsm_rep fmt base lim n) n ?z1 M" using assms(5) by (simp add: pos_ok_def sizes_known_def zft_first_segment_def cong: if_cong)
  moreover have "capacity ?z1 = seg_position M (raw_image ?z1) (zft_first_segment ?z1) (last_data_segment (z_ftape ?z1) + 1)"
    using assms(6) by (simp add: zft_first_segment_def)
  ultimately obtain z2 where "zft_calc_tape_pos ?z1 (v_start_seg (vtbl_entries z ! ?j)) = Some (z2,
      seg_position M (raw_image z) (zft_first_segment z) (min (v_start_seg (vtbl_entries z ! ?j)) (last_data_segment (z_ftape z) + 1)))"
    using calc_tape_pos_any [of fmt base lim n ?z1 M "v_start_seg (vtbl_entries z ! ?j)"] by (auto simp: zft_first_segment_def)
  then have skip: "zft_skip_volumes z count pos = Some ((zft_release_deblock_buffer (z2\<lparr>just_before_eof :=
        (zft_volume_size z2 (vtbl_entries z ! ?j) = 0)\<rparr>))\<lparr>resid := int left\<rparr>,
      pos\<lparr>seg_pos := v_start_seg (vtbl_entries z ! ?j), seg_byte_pos := 0, volume_pos := 0,
         tape_pos := seg_position M (raw_image z) (zft_first_segment z) (min (v_start_seg (vtbl_entries z ! ?j)) (last_data_segment (z_ftape z) + 1))\<rparr>,
      if left \<noteq> 0 then Inl EINVAL else Inr ())"
    unfolding zft_skip_volumes_def u b bind.bind_lunit prod.case loops at by simp
  have "(if left \<noteq> 0 then Inl EINVAL else Inr ()) = (if int ?i + count = int ?j then Inr () else (Inl EINVAL :: unit result))"
    using left by (cases "left = 0") (simp_all del: of_nat_nat)
  note skip = skip [unfolded this]
  show ?thesis unfolding Let_def by (rule exI, rule conjI [OF skip]) (simp add: left)
qed

definition short_tape :: zftape_info where
  "short_tape = small_tape\<lparr>vtbl_head := blank_vol\<lparr>v_end_seg := 1\<rparr>, vtbl_vols := [blank_vol\<lparr>v_start_seg := 2, v_end_seg := 2\<rparr>],
     vtbl_eom := blank_vol\<lparr>v_start_seg := 3, v_end_seg := 3, v_count := 1\<rparr>\<rparr>"

text \<open>Two volumes forward from the only one: one is left over.\<close>

theorem skip_volumes_exact_witness:
  "\<exists>z' pos'. zft_skip_volumes short_tape 2 (start_pos\<lparr>seg_pos := 2\<rparr>) = Some (z', pos', Inl EINVAL) \<and> seg_pos pos' = 3 \<and> resid z' = 1"
proof -
  have s: "z_ftape short_tape = small_ftape" "last_data_segment small_ftape = 2" "first_data_segment small_ftape = 1" "qic_mode short_tape"
      "raw_image short_tape = False" "capacity short_tape = 59392" "z_seg_pos short_tape = 1" "z_tape_pos short_tape = 0" "cur_vtbl short_tape = Eom_Vtbl"
      "vtbl_head short_tape = blank_vol\<lparr>v_end_seg := 1\<rparr>" "vtbl_vols short_tape = [blank_vol\<lparr>v_start_seg := 2, v_end_seg := 2\<rparr>]"
      "vtbl_eom short_tape = blank_vol\<lparr>v_start_seg := 3, v_end_seg := 3, v_count := 1\<rparr>"
    by (simp_all add: short_tape_def small_tape_def small_ftape_def blank_info_def)
  then have f: "zft_first_segment short_tape = 1" by (simp add: zft_first_segment_def)
  have "table_ok short_tape" using s by (simp add: table_ok_def volumes_ordered_def cur_ok_def zft_last_vtbl_def blank_vol_def)
  moreover have "pos_ok (bsm_rep fmt_normal 2048 2060 3) 3 short_tape (\<lambda>_. 0)"
    using small_tape_known f s small_tape_positions(3) by (simp add: pos_ok_def sizes_known_def small_tape_def)
  moreover have "volume_index short_tape 2 = 0" "vtbl_entries short_tape ! 1 = blank_vol\<lparr>v_start_seg := 3, v_end_seg := 3, v_count := 1\<rparr>"
    using s by (simp_all add: volume_index_def vtbl_entries_def)
  ultimately show ?thesis
    using skip_volumes_exact [of short_tape "start_pos\<lparr>seg_pos := 2\<rparr>" fmt_normal 2048 2060 3 "\<lambda>_. 0" 2] s f small_tape_positions
    by (auto simp: start_pos_def Let_def)
qed

text \<open>
  Writing the table of an erased tape: with no volumes left, \<open>zft_create_volume_headers\<close> skips the
  first entry of the buffer and clears a whole segment behind it. In a buffer of one segment that
  runs 128 bytes past the end, and where there is memory behind the buffer the entry of the former first
  volume stays in the table.
\<close>

theorem erased_table_keeps_first_entry:
  assumes "vtbl_vols z = []" and "v_count (vtbl_eom z) = 0" and "\<not> has_cmap m"
  shows "(length m = FT_SEGMENT_SIZE \<longrightarrow> zft_create_volume_headers z m = None)
    \<and> (length m = FT_SEGMENT_SIZE + VTBL_SIZE \<longrightarrow> (\<exists>z' m'. zft_create_volume_headers z m = Some (z', m') \<and> take VTBL_SIZE m' = take VTBL_SIZE m))"
  using assms by (simp add: zft_create_volume_headers_def Let_def blit_def)

theorem erased_table_keeps_first_entry_witness:
  "zft_create_volume_headers empty_table_tape (VTBL_ID @ replicate (FT_SEGMENT_SIZE - 4) 0) = None"
proof -
  have "\<not> has_cmap (VTBL_ID @ replicate (FT_SEGMENT_SIZE - 4) 0)"
    by (simp add: has_cmap_def VTBL_ID_def ascii_def)
  moreover have "length (VTBL_ID @ replicate (FT_SEGMENT_SIZE - 4) 0) = FT_SEGMENT_SIZE" by (simp add: VTBL_ID_def ascii_def)
  ultimately show ?thesis using erased_table_keeps_first_entry [OF empty_table_simps(4,7)] by blast
qed

end
