(* ===== verification/Zft_Table.thy ===== *)
theory Zft_Table
  imports Zft_Volumes
begin

text \<open>
  The volume table on tape: what \<open>zft_create_volume_headers\<close> writes into the table segment is read back by
  \<open>zft_extract_volume_headers\<close>.
\<close>

section \<open>Reading one field behind the writing of another\<close>

text \<open>Loads and comparisons depend on the bytes they touch only.\<close>

lemma load_le_cong: "(\<And>k. k < n \<Longrightarrow> m ! (off + k) = m' ! (off + k)) \<Longrightarrow> load_le m off n = load_le m' off n"
  by (induction n) simp_all

lemma load_le_update [simp]: "i < off \<or> off + n \<le> i \<Longrightarrow> load_le (m[i := x]) off n = load_le m off n"
  by (intro load_le_cong) (auto simp: nth_list_update)

lemma load_le_blit [simp]:
  "p + length bs \<le> length m \<Longrightarrow> p + length bs \<le> off \<or> off + n \<le> p \<Longrightarrow> load_le (blit m p bs) off n = load_le m off n"
  by (intro load_le_cong) (auto simp: nth_blit)

lemma load_le_store [simp]:
  "p + k \<le> length m \<Longrightarrow> p + k \<le> off \<or> off + n \<le> p \<Longrightarrow> load_le (store_le m p k w) off n = load_le m off n"
  by (intro load_le_cong) (auto simp: nth_store_le)

lemma bytes_at_eqI': "length m = length m' \<Longrightarrow> (\<And>i. off \<le> i \<Longrightarrow> i < off + n \<Longrightarrow> m ! i = m' ! i) \<Longrightarrow> bytes_at m off n = bytes_at m' off n"
  by (rule bytes_at_eqI) simp_all

lemma bytes_at_update [simp]: "i < off \<or> off + n \<le> i \<Longrightarrow> bytes_at (m[i := x]) off n = bytes_at m off n"
  by (intro bytes_at_eqI') (auto simp: nth_list_update)

lemma bytes_at_blit [simp]:
  "p + length bs \<le> length m \<Longrightarrow> p + length bs \<le> off \<or> off + n \<le> p \<Longrightarrow> bytes_at (blit m p bs) off n = bytes_at m off n"
  by (intro bytes_at_eqI') (auto simp: nth_blit)

lemma bytes_at_store [simp]:
  "p + k \<le> length m \<Longrightarrow> p + k \<le> off \<or> off + n \<le> p \<Longrightarrow> bytes_at (store_le m p k w) off n = bytes_at m off n"
  by (intro bytes_at_eqI') (auto simp: nth_store_le)

lemma bytes_at_blit_same: "p + length bs \<le> length m \<Longrightarrow> n = length bs \<Longrightarrow> bytes_at (blit m p bs) p n = bs"
  by (simp add: bytes_at_def blit_def)

lemma bytes_at_prefix: "n \<le> length bs \<Longrightarrow> p + length bs \<le> length m \<Longrightarrow> bytes_at (blit m p bs) p n = take n bs"
  by (simp add: bytes_at_def blit_def)

lemma length_sigs [simp]: "length VTBL_ID = 4" "length ZFT_SIG = 9" "length ZFT_SIG2 = 3" "length ZFT_VOL_NAME = 13"
  by (simp_all add: VTBL_ID_def ZFT_SIG_def ZFT_SIG2_def ZFT_VOL_NAME_def ascii_def)

lemma length_decimal: "n < 10 ^ Suc k \<Longrightarrow> length (decimal n) \<le> Suc k"
proof (induction k arbitrary: n)
  case (Suc k)
  then show ?case by (subst decimal.simps) auto
qed (subst decimal.simps, simp)

lemma length_description: "c < 1000 \<Longrightarrow> length (volume_description c) = VTBL_DESC_LEN"
proof -
  assume "c < 1000"
  then have "nat c < 10 ^ Suc 2" by simp
  from length_decimal [OF this] show ?thesis by (simp add: volume_description_def Let_def)
qed

text \<open>An entry is written inside its 128 bytes.\<close>

definition same_outside :: "nat \<Rightarrow> bytes \<Rightarrow> bytes \<Rightarrow> bool" where
  "same_outside e m m' \<longleftrightarrow> e + VTBL_SIZE \<le> length m \<and> length m' = length m \<and> (\<forall>i. i < e \<or> e + VTBL_SIZE \<le> i \<longrightarrow> m' ! i = m ! i)"

lemma same_outside_refl: "e + VTBL_SIZE \<le> length m \<Longrightarrow> same_outside e m m"
  by (simp add: same_outside_def)

lemma same_outside_blit: "same_outside e m m' \<Longrightarrow> e \<le> p \<Longrightarrow> p + length bs \<le> e + VTBL_SIZE \<Longrightarrow> same_outside e m (blit m' p bs)"
  by (auto simp: same_outside_def nth_blit)

lemma same_outside_update: "same_outside e m m' \<Longrightarrow> e \<le> p \<Longrightarrow> p < e + VTBL_SIZE \<Longrightarrow> same_outside e m (m'[p := x])"
  by (auto simp: same_outside_def nth_list_update)

lemma same_outside_store: "same_outside e m m' \<Longrightarrow> e \<le> p \<Longrightarrow> p + n \<le> e + VTBL_SIZE \<Longrightarrow> same_outside e m (store_le m' p n w)"
  by (auto simp: same_outside_def nth_store_le)

lemma same_outside_if: "(b \<Longrightarrow> same_outside e m m1) \<Longrightarrow> (\<not> b \<Longrightarrow> same_outside e m m2) \<Longrightarrow> same_outside e m (if b then m1 else m2)"
  by simp

lemmas same_outside_intros = same_outside_if same_outside_store same_outside_update same_outside_blit same_outside_refl

lemma create_volume_frame:
  assumes "e + VTBL_SIZE \<le> length m" "v_count v < 1000"
  shows "same_outside e m (create_zft_volume z m e v)"
  unfolding create_zft_volume_def Let_def getput_defs
  by (intro same_outside_intros) (use assms length_description [OF assms(2)] in simp_all)

text \<open>
  A volume whose values fit the fields of an entry: 16-bit segment numbers and a 32-bit size in the layout
  of QIC-80, 32-bit segment numbers in the one of format 6, a 64-bit size in the layout of QIC-113.
\<close>

definition fits_entry :: "zftape_info \<Rightarrow> zft_volinfo \<Rightarrow> bool" where
  "fits_entry z v \<longleftrightarrow> v_count v < 1000 \<and> 0 \<le> v_blk_sz v \<and> v_blk_sz v < 2 ^ 16 \<and> 0 \<le> v_size v
    \<and> (if z_qic113 z then v_size v < 2 ^ 63 else v_size v < 2 ^ 32)
    \<and> 0 \<le> v_start_seg v \<and> 0 \<le> v_end_seg v
    \<and> (if format_code (z_ftape z) = fmt_big then z_qic113 z \<and> v_start_seg v < 2 ^ 32 \<and> v_end_seg v < 2 ^ 32
       else v_start_seg v < 2 ^ 16 \<and> v_end_seg v < 2 ^ 16)"

lemma uint_of_int_small: "0 \<le> i \<Longrightarrow> i < 2 ^ LENGTH('a) \<Longrightarrow> uint (word_of_int i :: 'a::len word) = i"
  by (simp add: unsigned_of_int take_bit_eq_mod)

text \<open>
  What an entry has to say for \<open>zft_extract_volume_headers\<close> to read the volume \<open>v\<close> out of it.
\<close>

definition entry_holds :: "zftape_info \<Rightarrow> bytes \<Rightarrow> nat \<Rightarrow> zft_volinfo \<Rightarrow> bool" where
  "entry_holds z m e v \<longleftrightarrow> bytes_at m e 4 = VTBL_ID
    \<and> (if format_code (z_ftape z) = fmt_big
       then z_qic113 z \<and> bytes_at m (e + VTBL_EXT) 9 \<noteq> ZFT_SIG \<and> bytes_at m (e + VTBL_6_EXT) 3 = ZFT_SIG2
         \<and> m ! (e + VTBL_6_EXT + EXT_6_ZFT_SIGV) = 2 \<and> uint (GET2 m (e + VTBL_6_EXT + EXT_6_ZFT_BLKSZ)) = v_blk_sz v
         \<and> uint (GET4 m (e + VTBL_6_START)) = v_start_seg v \<and> uint (GET4 m (e + VTBL_6_END)) = v_end_seg v
       else bytes_at m (e + VTBL_EXT) 10 = ZFT_SIG @ [0] \<and> m ! (e + VTBL_EXT + EXT_ZFT_CMAP) = 0 \<and> uint (GET2 m (e + VTBL_EXT + EXT_ZFT_BLKSZ)) = v_blk_sz v
         \<and> uint (GET2 m (e + VTBL_START)) = v_start_seg v \<and> uint (GET2 m (e + VTBL_END)) = v_end_seg v
         \<and> odd (m ! (e + VTBL_EXT + EXT_ZFT_QIC113)) = z_qic113 z)
    \<and> (if z_qic113 z then sint (GET8 m (e + VTBL_DATA_SIZE)) = v_size v
         \<and> cmpr_bit (m ! (e + VTBL_CMPR)) VTBL_CMPR_USED = v_use_compression v
       else uint (GET4 m (e + VTBL_DATA_SIZE)) = v_size v \<and> cmpr_bit (m ! (e + VTBL_K_CMPR)) VTBL_CMPR_UNREG
         \<and> cmpr_bit (m ! (e + VTBL_K_CMPR)) VTBL_CMPR_USED = v_use_compression v)"

lemma entry_holds_layout:
  "z_qic113 z' = z_qic113 z \<Longrightarrow> format_code (z_ftape z') = format_code (z_ftape z) \<Longrightarrow> entry_holds z' = entry_holds z"
  by (intro ext) (simp only: entry_holds_def)

lemma entry_holds_cong:
  assumes "length m' = length m" "\<And>i. e \<le> i \<Longrightarrow> i < e + VTBL_SIZE \<Longrightarrow> m' ! i = m ! i"
  shows "entry_holds z m' e v = entry_holds z m e v"
proof -
  have b: "bytes_at m' (e + k) n = bytes_at m (e + k) n" if "k + n \<le> VTBL_SIZE" for k n
    using assms that by (intro bytes_at_eqI') auto
  have l: "load_le m' (e + k) n = load_le m (e + k) n" if "k + n \<le> VTBL_SIZE" for k n
    using assms that by (intro load_le_cong) auto
  show ?thesis unfolding entry_holds_def getput_defs
    using b [of 0 4] by (simp add: b l assms(2) add.assoc)
qed

lemma entry_holds_frame:
  assumes "entry_holds z m e v" "same_outside e' m m'" "e + VTBL_SIZE \<le> e' \<or> e' + VTBL_SIZE \<le> e"
  shows "entry_holds z m' e v"
  using assms entry_holds_cong [of m' m e z v] by (auto simp: same_outside_def)

text \<open>The bytes of an entry behind the writes of \<open>create_zft_volume\<close>.\<close>

lemma sint_of_int_small: "0 \<le> i \<Longrightarrow> i < 2 ^ (LENGTH('a) - 1) \<Longrightarrow> sint (word_of_int i :: 'a::len word) = i"
  by (simp add: signed_of_int signed_take_bit_int_eq_self)

lemmas entry_field_simps = load_store_same nth_store_le nth_blit nth_list_update bytes_at_blit_same uint_of_int_small sint_of_int_small cmpr_bit_def

lemma create_entry_qic80:
  assumes "e + VTBL_SIZE \<le> length m" "format_code (z_ftape z) \<noteq> fmt_big" "fits_entry z v"
  shows "entry_holds z (create_zft_volume z m e v) e v"
proof -
  from assms(3) have v: "v_count v < 1000" by (simp add: fits_entry_def)
  note [simp] = length_description [OF v]
  show ?thesis
    using assms unfolding entry_holds_def create_zft_volume_def Let_def getput_defs fits_entry_def
    by (simp add: entry_field_simps cong: if_cong)
qed

lemma bytes_at_first: "0 < n \<Longrightarrow> p < length m \<Longrightarrow> hd (bytes_at m p n) = m ! p"
  by (simp add: bytes_at_def hd_take hd_drop_conv_nth)

lemma create_entry_big:
  assumes "e + VTBL_SIZE \<le> length m" "format_code (z_ftape z) = fmt_big" "fits_entry z v"
  shows "entry_holds z (create_zft_volume z m e v) e v"
proof -
  from assms(3) have v: "v_count v < 1000" by (simp add: fits_entry_def)
  note [simp] = length_description [OF v]
  let ?m = "create_zft_volume z m e v"
  have "length ?m = length m" using create_volume_frame [OF assms(1) v] by (simp add: same_outside_def)
  moreover have "?m ! (e + VTBL_EXT) = 113"
    using assms unfolding create_zft_volume_def Let_def getput_defs fits_entry_def
    by (simp add: entry_field_simps lane_def cong: if_cong)
  ultimately have "hd (bytes_at ?m (e + VTBL_EXT) 9) = 113" using assms(1) by (subst bytes_at_first) simp_all
  then have "bytes_at ?m (e + VTBL_EXT) 9 \<noteq> ZFT_SIG" by (auto simp: ZFT_SIG_def ascii_def)
  then show ?thesis
    using assms unfolding entry_holds_def create_zft_volume_def Let_def getput_defs fits_entry_def
    by (simp add: entry_field_simps cong: if_cong)
qed

lemma create_entry: "e + VTBL_SIZE \<le> length m \<Longrightarrow> fits_entry z v \<Longrightarrow> entry_holds z (create_zft_volume z m e v) e v"
  using create_entry_qic80 create_entry_big by blast

section \<open>Writing the table\<close>

text \<open>
  The volumes in memory stand at their places in the table, and the entries of those that are not new
  are in the buffer already.
\<close>

definition entries_in_place :: "zftape_info \<Rightarrow> nat \<Rightarrow> bytes \<Rightarrow> zft_volinfo list \<Rightarrow> bool" where
  "entries_in_place z k m vs \<longleftrightarrow> (\<forall>i < length vs. v_offset (vs ! i) = int (VTBL_SIZE * (k + i)) \<and> fits_entry z (vs ! i)
     \<and> (v_new_volume (vs ! i) \<or> entry_holds z m (VTBL_SIZE * (k + i)) (vs ! i)))"

lemma entries_in_place_Cons:
  "entries_in_place z k m (v # vs) \<longleftrightarrow> v_offset v = int (VTBL_SIZE * k) \<and> fits_entry z v
     \<and> (v_new_volume v \<or> entry_holds z m (VTBL_SIZE * k) v) \<and> entries_in_place z (Suc k) m vs"
  by (simp add: entries_in_place_def All_less_Suc2 ac_simps)

lemma entries_in_place_frame:
  assumes "entries_in_place z k m vs" "same_outside (VTBL_SIZE * j) m m'" "j < k"
  shows "entries_in_place z k m' vs"
  using assms entry_holds_frame [OF _ assms(2)] by (fastforce simp: entries_in_place_def)

definition entries_hold :: "zftape_info \<Rightarrow> nat \<Rightarrow> bytes \<Rightarrow> zft_volinfo list \<Rightarrow> bool" where
  "entries_hold z k m vs \<longleftrightarrow> (\<forall>i < length vs. entry_holds z m (VTBL_SIZE * (k + i)) (vs ! i))"

lemma entries_hold_Cons:
  "entries_hold z k m (v # vs) \<longleftrightarrow> entry_holds z m (VTBL_SIZE * k) v \<and> entries_hold z (Suc k) m vs"
  by (simp add: entries_hold_def All_less_Suc2 ac_simps)

lemma create_entries_ok:
  assumes "entries_in_place z k m vs" "VTBL_SIZE * (k + length vs) \<le> length m" "k + length vs \<le> 232" "vs \<noteq> []"
  shows "\<exists>m'. create_entries z vs e m = (map (\<lambda>v. v\<lparr>v_new_volume := False\<rparr>) vs, VTBL_SIZE * (k + length vs - 1), m')
    \<and> length m' = length m \<and> entries_hold z k m' vs \<and> (\<forall>i < VTBL_SIZE * k. m' ! i = m ! i)"
  using assms
proof (induction vs arbitrary: k e m)
  case (Cons v vs)
  let ?e = "VTBL_SIZE * k"
  let ?m = "if v_new_volume v then create_zft_volume z m ?e v else m"
  from Cons.prems have v: "v_offset v = int ?e" "fits_entry z v" "v_count v < 1000"
    "v_new_volume v \<or> entry_holds z m ?e v" "entries_in_place z (Suc k) m vs" "?e + VTBL_SIZE \<le> length m" "k < 232"
    by (auto simp: entries_in_place_Cons fits_entry_def)
  have frame: "same_outside ?e m ?m"
    using v same_outside_refl create_volume_frame by simp
  then have len: "length ?m = length m" by (simp add: same_outside_def)
  have here: "entry_holds z ?m ?e v" using v create_entry by auto
  have step: "create_entries z (v # vs) e m = (let (vs', e', m') = create_entries z vs ?e ?m in (v\<lparr>v_new_volume := False\<rparr> # vs', e', m'))"
  proof -
    have "nat (v_offset v) = ?e" "\<not> int FT_SEGMENT_SIZE \<le> v_offset v" using v by simp_all
    then show ?thesis by (simp add: Let_def)
  qed
  show ?case
  proof (cases "vs = []")
    case True
    with here frame step show ?thesis by (auto simp: entries_hold_def same_outside_def)
  next
    case False
    have next_ok: "entries_in_place z (Suc k) ?m vs" by (rule entries_in_place_frame [OF v(5) frame]) simp
    from Cons.IH [OF this, of ?e] obtain m' where m': "create_entries z vs ?e ?m = (map (\<lambda>v. v\<lparr>v_new_volume := False\<rparr>) vs, VTBL_SIZE * (Suc k + length vs - 1), m')"
      "length m' = length ?m" "entries_hold z (Suc k) m' vs" "\<forall>i < VTBL_SIZE * Suc k. m' ! i = ?m ! i"
      using Cons.prems False len by auto
    have "entry_holds z m' ?e v" using entry_holds_cong [of m' ?m ?e z v] here m' by simp
    moreover have "\<forall>i < ?e. m' ! i = m ! i" using m'(4) frame by (auto simp: same_outside_def)
    ultimately show ?thesis using m' step len by (simp add: entries_hold_Cons)
  qed
qed simp

section \<open>Reading the table\<close>

lemma bytes_at_shorter: "bytes_at m p (k + n) = bs @ cs \<Longrightarrow> length bs = k \<Longrightarrow> bytes_at m p k = bs"
  by (metis append_eq_conv_conj bytes_at_def le_add1 min.absorb1 take_take)

text \<open>What a volume says of itself, and the state while the table is read.\<close>

definition vol_key :: "zft_volinfo \<Rightarrow> int \<times> int \<times> int \<times> int \<times> bool" where
  "vol_key v = (v_start_seg v, v_end_seg v, v_size v, v_blk_sz v, v_use_compression v)"

definition reads_ok :: "ft_format_type \<Rightarrow> nat \<Rightarrow> nat \<Rightarrow> nat \<Rightarrow> (nat \<Rightarrow> u32) \<Rightarrow> zftape_info \<Rightarrow> bool" where
  "reads_ok fmt base lim n M z \<longleftrightarrow> pos_ok (bsm_rep fmt base lim n) n z M
    \<and> capacity z = seg_position M (raw_image z) (zft_first_segment z) (last_data_segment (z_ftape z) + 1)"

lemma segment_range_size_ok:
  assumes "reads_ok fmt base lim n M z"
  shows "\<exists>z' k. segment_range_size z v = Some (z', k) \<and> reads_ok fmt base lim n M z' \<and> same_tape z z'"
proof -
  have step: "\<exists>z' k. zft_calc_tape_pos z s = Some (z', k) \<and> reads_ok fmt base lim n M z' \<and> same_tape z z'"
    if "reads_ok fmt base lim n M z" for z s
  proof -
    from that have ok: "pos_ok (bsm_rep fmt base lim n) n z M"
        "capacity z = seg_position M (raw_image z) (zft_first_segment z) (last_data_segment (z_ftape z) + 1)"
      by (simp_all add: reads_ok_def)
    from calc_tape_pos_any [OF ok, of s] obtain z' k where z': "zft_calc_tape_pos z s = Some (z', k)"
      "pos_ok (bsm_rep fmt base lim n) n z' M" "same_tape z z'" by blast
    then have "reads_ok fmt base lim n M z'"
      using ok(2) same_tape_frame [OF z'(3)] same_tape_capacity [OF z'(3)] by (simp add: reads_ok_def)
    with z' show ?thesis by blast
  qed
  from step [OF assms] obtain z1 p1 where z1: "zft_calc_tape_pos z (s32 (v_end_seg v + 1)) = Some (z1, p1)" "reads_ok fmt base lim n M z1" "same_tape z z1"
    by blast
  from step [OF z1(2)] obtain z2 p2 where "zft_calc_tape_pos z1 (s32 (v_start_seg v)) = Some (z2, p2)" "reads_ok fmt base lim n M z2" "same_tape z1 z2"
    by blast
  with z1 same_tape_trans show ?thesis by (auto simp: segment_range_size_def)
qed

text \<open>One entry is read back as the volume it was written from.\<close>

definition grown :: "zftape_info \<Rightarrow> zft_volinfo list \<Rightarrow> zftape_info \<Rightarrow> bool" where
  "grown z vs z' \<longleftrightarrow> (\<exists>ws. vtbl_vols z' = vtbl_vols z @ ws \<and> map vol_key ws = map vol_key vs)
    \<and> vtbl_head z' = vtbl_head z \<and> v_end_seg (vtbl_eom z') = v_end_seg (vtbl_eom z)
    \<and> (vs \<noteq> [] \<longrightarrow> v_start_seg (vtbl_eom z') = v_end_seg (last vs) + 1) \<and> v_count (vtbl_eom z') = v_count (vtbl_eom z) + int (length vs)
    \<and> cur_vtbl z' = cur_vtbl z \<and> exvt_extension z' = exvt_extension z \<and> z_qic113 z' = z_qic113 z
    \<and> format_code (z_ftape z') = format_code (z_ftape z) \<and> first_data_segment (z_ftape z') = first_data_segment (z_ftape z)
    \<and> last_data_segment (z_ftape z') = last_data_segment (z_ftape z)"

lemma grown_Nil: "grown z [] z"
  by (simp add: grown_def)

lemma grown_Cons: "grown z [v] z1 \<Longrightarrow> grown z1 vs z' \<Longrightarrow> vs = [] \<longrightarrow> z' = z1 \<Longrightarrow> grown z (v # vs) z'"
  by (cases "vs = []") (auto simp: grown_def)

definition out_of_order :: "zftape_info \<Rightarrow> zft_volinfo \<Rightarrow> int \<Rightarrow> bool" where
  "out_of_order z v prev_end \<longleftrightarrow> prev_end \<ge> v_start_seg v \<or> v_start_seg v \<le> v_end_seg (vtbl_head z) \<or> v_end_seg v \<ge> v_end_seg (vtbl_eom z)"

lemma extract_zft_volume_holds:
  assumes "entry_holds z m e v" "v_qic113 v2 = z_qic113 z" "v_start_seg v2 = v_start_seg v" "v_end_seg v2 = v_end_seg v"
    "v_blk_sz v2 = v_blk_sz v"
  obtains w where "\<And>y. extract_zft_volume y m e v2 = do { (z1, n) \<leftarrow> segment_range_size y w; Some (z1, w\<lparr>v_rawsize := n\<rparr>) }"
    "vol_key w = vol_key v"
proof (cases "z_qic113 z")
  case True
  with assms show ?thesis
    by (intro that [of "v2\<lparr>v_size := sint (GET8 m (e + VTBL_DATA_SIZE)), v_use_compression := cmpr_bit (m ! (e + VTBL_CMPR)) VTBL_CMPR_USED\<rparr>"])
      (simp_all add: extract_zft_volume_def entry_holds_def vol_key_def Let_def)
next
  case False
  with assms show ?thesis
    by (intro that [of "v2\<lparr>v_size := uint (GET4 m (e + VTBL_DATA_SIZE)), v_use_compression := cmpr_bit (m ! (e + VTBL_K_CMPR)) VTBL_CMPR_USED\<rparr>"])
      (simp_all add: extract_zft_volume_def entry_holds_def vol_key_def Let_def)
qed

lemma extract_entry_holds:
  assumes "entry_holds z m e v" "reads_ok fmt base lim n M z" "0 \<le> v_start_seg v" "0 \<le> v_end_seg v" "v_end_seg v < 2 ^ 31"
  shows "\<exists>z'. extract_entry z m e prev_end = Some z' \<and> grown z [v] z'
    \<and> vtbl_broken z' = (vtbl_broken z \<or> out_of_order z v prev_end) \<and> reads_ok fmt base lim n M z'"
proof -
  let ?z1 = "zft_new_vtbl_entry z"
  have z1: "z_ftape ?z1 = z_ftape z" "zft_last_vtbl ?z1 = blank_vol\<lparr>v_count := v_count (vtbl_eom z)\<rparr>" "z_qic113 ?z1 = z_qic113 z"
    by (simp_all add: zft_new_vtbl_entry_def zft_last_vtbl_def)
  obtain v1 where v1: "get_type_and_block_size ?z1 m e (zft_last_vtbl ?z1) = Some (v1, True)" "v_blk_sz v1 = v_blk_sz v"
    "v_qic113 v1 = z_qic113 z" "format_code (z_ftape z) = fmt_big \<Longrightarrow> v_version v1 = 2"
  proof -
    have "bytes_at m (e + VTBL_EXT) 10 \<noteq> ZFT_SIG @ [0]" if "format_code (z_ftape z) = fmt_big"
      using assms(1) that bytes_at_shorter [of m "e + VTBL_EXT" 9 1 ZFT_SIG "[0]"] by (auto simp: entry_holds_def)
    then show ?thesis
      using assms(1) z1 that by (auto simp: get_type_and_block_size_def entry_holds_def split: if_splits)
  qed
  let ?v2 = "extract_segment_range ?z1 m e (v1\<lparr>v_zft_volume := True\<rparr>)"
  have v2: "v_start_seg ?v2 = v_start_seg v" "v_end_seg ?v2 = v_end_seg v" "v_blk_sz ?v2 = v_blk_sz v" "v_qic113 ?v2 = z_qic113 z"
    using assms(1) v1 z1 by (auto simp: extract_segment_range_def entry_holds_def)
  let ?z2 = "?z1\<lparr>vtbl_eom := (vtbl_eom ?z1)\<lparr>v_start_seg := u32 (v_end_seg ?v2 + 1)\<rparr>\<rparr>"
  have z2: "reads_ok fmt base lim n M ?z2"
    using assms(2) by (simp add: reads_ok_def pos_ok_def sizes_known_def zft_first_segment_def zft_new_vtbl_entry_def split: if_splits)
  obtain w where w: "\<And>y. extract_zft_volume y m e ?v2 = do { (z1, n) \<leftarrow> segment_range_size y w; Some (z1, w\<lparr>v_rawsize := n\<rparr>) }"
    "vol_key w = vol_key v"
    using extract_zft_volume_holds [OF assms(1) v2(4,1,2,3)] by blast
  from segment_range_size_ok [OF z2, of w] obtain z3 k where z3: "segment_range_size ?z2 w = Some (z3, k)"
    "reads_ok fmt base lim n M z3" "same_tape ?z2 z3" by blast
  let ?v4 = "w\<lparr>v_rawsize := k, v_offset := int e\<rparr>"
  have key: "v_start_seg ?v4 = v_start_seg v" "v_end_seg ?v4 = v_end_seg v" "vol_key ?v4 = vol_key v"
    using w(2) by (simp_all add: vol_key_def)
  from z3(3) obtain ft s p where st: "z3 = ?z2\<lparr>z_ftape := ft, z_seg_pos := s, z_tape_pos := p\<rparr>"
      "format_code ft = format_code (z_ftape z)" "first_data_segment ft = first_data_segment (z_ftape z)"
      "last_data_segment ft = last_data_segment (z_ftape z)"
    by (rule same_tapeE) (simp add: zft_new_vtbl_entry_def)
  let ?z' = "(update_last (\<lambda>_. ?v4) z3)\<lparr>vtbl_broken := vtbl_broken z3 \<or> out_of_order z v prev_end\<rparr>"
  have "extract_entry z m e prev_end = Some ?z'"
    unfolding extract_entry_def Let_def using v1(1) w(1) z3(1) key st(1)
    by (simp add: zft_new_vtbl_entry_def out_of_order_def)
  moreover have "grown z [v] ?z'" "vtbl_broken ?z' = (vtbl_broken z \<or> out_of_order z v prev_end)"
    using st key v2(2) assms(4,5) u32_small [of "v_end_seg v + 1"]
    by (simp_all add: grown_def update_last_def zft_new_vtbl_entry_def)
  moreover have "reads_ok fmt base lim n M ?z'"
    using z3(2) st(1) by (simp add: reads_ok_def pos_ok_def sizes_known_def zft_first_segment_def update_last_def zft_new_vtbl_entry_def split: if_splits)
  ultimately show ?thesis by blast
qed

text \<open>The volumes of a table follow each other between the head and the end of medium.\<close>

definition in_order :: "zftape_info \<Rightarrow> zft_volinfo list \<Rightarrow> bool" where
  "in_order z vs \<longleftrightarrow> sorted_wrt (\<lambda>a b. v_end_seg a < v_start_seg b) vs \<and> 0 \<le> v_end_seg (zft_last_vtbl z)
    \<and> (\<forall>v\<in>set vs. v_end_seg (zft_last_vtbl z) < v_start_seg v \<and> v_end_seg (vtbl_head z) < v_start_seg v
       \<and> v_start_seg v \<le> v_end_seg v \<and> v_end_seg v < v_end_seg (vtbl_eom z) \<and> v_end_seg v < 2 ^ 31)"

definition table_ends :: "bytes \<Rightarrow> nat \<Rightarrow> bool" where
  "table_ends m e \<longleftrightarrow> e < FT_SEGMENT_SIZE \<longrightarrow> e + 4 \<le> length m \<and> m ! e = 0"

lemma extract_loop_ends: "table_ends m e \<Longrightarrow> extract_loop z m e = Some z"
proof -
  assume e: "table_ends m e"
  have "hd (bytes_at m e 4) = 0" if "e < FT_SEGMENT_SIZE"
    using e that by (subst bytes_at_first) (auto simp: table_ends_def)
  then show ?thesis by (subst extract_loop.simps) (auto simp: Let_def VTBL_ID_def ascii_def)
qed

lemma extract_loop_holds:
  assumes "entries_hold z k m vs" "reads_ok fmt base lim n M z" "in_order z vs" "table_ends m (VTBL_SIZE * (k + length vs))"
    "k + length vs \<le> 232" "length m = FT_SEGMENT_SIZE"
  shows "\<exists>z'. extract_loop z m (VTBL_SIZE * k) = Some z' \<and> grown z vs z' \<and> vtbl_broken z' = vtbl_broken z"
  using assms
proof (induction vs arbitrary: z k)
  case Nil
  then show ?case using extract_loop_ends grown_Nil by simp
next
  case (Cons v vs)
  let ?e = "VTBL_SIZE * k" and ?prev = "v_end_seg (zft_last_vtbl z)"
  from Cons.prems have v: "entry_holds z m ?e v" "entries_hold z (Suc k) m vs" "0 \<le> v_start_seg v" "0 \<le> v_end_seg v"
    "v_end_seg v < 2 ^ 31" "\<not> out_of_order z v ?prev"
    by (auto simp: entries_hold_Cons in_order_def out_of_order_def)
  obtain z1 where z1: "extract_entry z m ?e ?prev = Some z1" "grown z [v] z1" "vtbl_broken z1 = vtbl_broken z" "reads_ok fmt base lim n M z1"
    using extract_entry_holds [OF v(1) Cons.prems(2) v(3,4,5), of ?prev] v(6) by auto
  have "in_order z1 vs" using Cons.prems(3) z1(2) v(4) by (auto simp: in_order_def grown_def zft_last_vtbl_def vol_key_def)
  moreover have "entries_hold z1 (Suc k) m vs" using v(2) z1(2) entry_holds_layout [of z1 z] by (simp add: entries_hold_def grown_def)
  ultimately obtain z' where z': "extract_loop z1 m (VTBL_SIZE * Suc k) = Some z'" "grown z1 vs z'" "vtbl_broken z' = vtbl_broken z1"
    using Cons.IH [of z1 "Suc k"] z1(4) Cons.prems(4,5,6) by auto
  have "vs = [] \<longrightarrow> z' = z1" using z'(1) Cons.prems(4) extract_loop_ends [of m "VTBL_SIZE * Suc k" z1] by auto
  from grown_Cons [OF z1(2) z'(2) this] have "grown z (v # vs) z'" .
  moreover have "VTBL_ID \<noteq> ascii ''EXVT''" "VTBL_ID \<noteq> ascii ''XTBL''" "VTBL_ID \<noteq> ascii ''UTID''" by (simp_all add: VTBL_ID_def ascii_def)
  moreover have "bytes_at m ?e 4 = VTBL_ID" using v(1) by (simp add: entry_holds_def)
  moreover from calculation have "extract_loop z m ?e = Some z'"
    using z1(1) z'(1) Cons.prems(5) by (subst extract_loop.simps) (simp add: Let_def ac_simps)
  ultimately show ?case using z'(3) z1(3) by auto
qed

text \<open>The state for reading the table behind the state for writing it.\<close>

lemma init_vtbl_reads_ok:
  assumes "reads_ok fmt base lim n M z"
  shows "reads_ok fmt base lim n M (zft_init_vtbl (z\<lparr>vtbl_vols := vs\<rparr>))"
  using assms by (simp add: reads_ok_def pos_ok_def sizes_known_def zft_first_segment_def zft_init_vtbl_def Let_def split: if_splits)

lemma init_vtbl_in_order:
  assumes "table_ok z"
  shows "in_order (zft_init_vtbl (z\<lparr>vtbl_vols := vs\<rparr>)) (vtbl_vols z)"
  using assms by (auto simp: in_order_def table_defs zft_init_vtbl_def zft_last_vtbl_def Let_def blank_vol_def)

lemma ordered_keys:
  "sorted_wrt (\<lambda>a b. v_end_seg a < v_start_seg b) (h # vs) \<and> (\<forall>v\<in>set vs. v_start_seg v \<le> v_end_seg v \<and> v_end_seg v \<le> l) \<longleftrightarrow>
    (\<forall>k\<in>set (map vol_key vs). v_end_seg h < fst k \<and> fst k \<le> fst (snd k) \<and> fst (snd k) \<le> l)
    \<and> sorted_wrt (\<lambda>a b. fst (snd a) < fst b) (map vol_key vs)"
  by (auto simp: sorted_wrt_map vol_key_def)

lemma table_ok_keys:
  assumes "table_ok z" "map vol_key (vtbl_vols z') = map vol_key (vtbl_vols z)" "vtbl_vols z \<noteq> []"
    "first_data_segment (z_ftape z') = first_data_segment (z_ftape z)" "last_data_segment (z_ftape z') = last_data_segment (z_ftape z)"
    "v_end_seg (vtbl_head z') = v_end_seg (vtbl_head z)" "v_end_seg (vtbl_eom z') = v_end_seg (vtbl_eom z)"
    "v_start_seg (vtbl_eom z') = v_end_seg (last (vtbl_vols z)) + 1" "v_count (vtbl_eom z') = v_count (vtbl_eom z)" "cur_vtbl z' = Eom_Vtbl"
  shows "table_ok z'"
proof -
  have len: "length (vtbl_vols z') = length (vtbl_vols z)" using assms(2) map_eq_imp_length_eq by blast
  have ne: "vtbl_vols z' \<noteq> []" using len assms(3) by auto
  then have l: "v_end_seg (last (vtbl_vols z')) = v_end_seg (last (vtbl_vols z))"
    using arg_cong [OF assms(2), of "\<lambda>ks. fst (snd (last ks))"] assms(3) by (simp add: last_map vol_key_def)
  have "volumes_ordered z" using assms(1) by (simp add: table_ok_def)
  then have "volumes_ordered z'" unfolding volumes_ordered_def ordered_keys assms(2,5,6) .
  with assms l ne len show ?thesis by (simp add: table_ok_def zft_last_vtbl_def cur_ok_def)
qed

text \<open>
  C9. The volume table survives being written to tape and read back: with the volumes of the table at their
  places in the buffer, the new ones not yet written, and values that fit the fields of the format,
  \<open>zft_extract_volume_headers\<close> finds in the buffer that \<open>zft_create_volume_headers\<close> leaves the same volumes
  (segments, size, block size and compression), in all formats; the table is not taken for broken and
  satisfies the invariant again.
\<close>

theorem volume_table_round_trip:
  assumes "table_ok z" and "pos_ok (bsm_rep fmt base lim n) n z M"
    and "capacity z = seg_position M (raw_image z) (zft_first_segment z) (last_data_segment (z_ftape z) + 1)"
    and "vtbl_vols z \<noteq> []" and "length (vtbl_vols z) \<le> 232" and "length m = FT_SEGMENT_SIZE" and "\<not> has_cmap m"
    and "entries_in_place z 0 m (vtbl_vols z)"
  shows "\<exists>z1 m1 z2. zft_create_volume_headers z m = Some (z1, m1) \<and> zft_extract_volume_headers z1 m1 = Some z2
    \<and> map vol_key (vtbl_vols z2) = map vol_key (vtbl_vols z) \<and> \<not> vtbl_broken z2 \<and> table_ok z2"
proof -
  let ?n = "length (vtbl_vols z)"
  have rd: "reads_ok fmt base lim n M z" using assms(2,3) by (simp add: reads_ok_def)
  have count: "v_count (vtbl_eom z) = int ?n" using assms(1) by (simp add: table_ok_def)
  obtain m1 where m1: "create_entries z (vtbl_vols z) 0 m = (map (\<lambda>v. v\<lparr>v_new_volume := False\<rparr>) (vtbl_vols z), VTBL_SIZE * (?n - 1), m1)"
    "length m1 = FT_SEGMENT_SIZE" "entries_hold z 0 m1 (vtbl_vols z)"
    using create_entries_ok [OF assms(8), of 0] assms(4-6) by auto
  let ?z1 = "z\<lparr>vtbl_vols := map (\<lambda>v. v\<lparr>v_new_volume := False\<rparr>) (vtbl_vols z)\<rparr>"
  let ?m2 = "blit m1 (VTBL_SIZE * ?n) (replicate (FT_SEGMENT_SIZE - VTBL_SIZE * ?n) 0)"
  have off: "VTBL_SIZE * (?n - 1) + VTBL_SIZE = VTBL_SIZE * ?n" using assms(4) by (cases "vtbl_vols z") auto
  have "nat (int FT_SEGMENT_SIZE - int ?n * int VTBL_SIZE) = FT_SEGMENT_SIZE - VTBL_SIZE * ?n" by simp
  then have create: "zft_create_volume_headers z m = Some (?z1, ?m2)"
    using m1(1,2) assms(5,7) off count by (simp add: zft_create_volume_headers_def)
  have outside: "?m2 ! i = m1 ! i" if "i < VTBL_SIZE * ?n" for i using that m1(2) assms(5) by (simp add: nth_blit)
  have len2: "length ?m2 = FT_SEGMENT_SIZE" using m1(2) assms(5) by simp
  have hold: "entries_hold z 0 ?m2 (vtbl_vols z)"
    unfolding entries_hold_def
  proof (intro allI impI)
    fix i assume i: "i < ?n"
    have "entry_holds z ?m2 (VTBL_SIZE * i) (vtbl_vols z ! i) = entry_holds z m1 (VTBL_SIZE * i) (vtbl_vols z ! i)"
      using i outside len2 m1(2) by (intro entry_holds_cong) auto
    then show "entry_holds z ?m2 (VTBL_SIZE * (0 + i)) (vtbl_vols z ! i)" using m1(3) i by (simp add: entries_hold_def)
  qed
  let ?z0 = "zft_init_vtbl ?z1"
  have z0: "z_qic113 ?z0 = z_qic113 z" "z_ftape ?z0 = z_ftape z" "vtbl_vols ?z0 = []" "cur_vtbl ?z0 = Eom_Vtbl" "\<not> vtbl_broken ?z0"
    "v_end_seg (vtbl_head ?z0) = first_data_segment (z_ftape z)" "v_end_seg (vtbl_eom ?z0) = last_data_segment (z_ftape z) + 1" "v_count (vtbl_eom ?z0) = 0"
    by (simp_all add: zft_init_vtbl_def Let_def blank_vol_def)
  have "entries_hold ?z0 0 ?m2 (vtbl_vols z)" using hold entry_holds_layout [of ?z0 z] z0 by (simp add: entries_hold_def)
  moreover have "table_ends ?m2 (VTBL_SIZE * (0 + ?n))" using m1(2) assms(5) by (auto simp: table_ends_def nth_blit)
  ultimately obtain z2 where z2: "extract_loop ?z0 ?m2 (VTBL_SIZE * 0) = Some z2" "grown ?z0 (vtbl_vols z) z2" "vtbl_broken z2 = vtbl_broken ?z0"
    using extract_loop_holds [OF _ init_vtbl_reads_ok [OF rd] init_vtbl_in_order [OF assms(1)]] assms(5) len2 by fastforce
  have "entry_holds z ?m2 0 (hd (vtbl_vols z))" using hold assms(4) by (cases "vtbl_vols z") (auto simp: entries_hold_def)
  then have "\<not> (bytes_at ?m2 VTBL_EXT 9 = ZFT_SIG \<and> ?m2 ! (VTBL_EXT + EXT_ZFT_CMAP) \<noteq> 0)"
    by (simp add: entry_holds_def split: if_splits)
  then have "zft_extract_volume_headers ?z1 ?m2 = Some z2" using z2(1) unfolding zft_extract_volume_headers_def by auto
  moreover have keys: "map vol_key (vtbl_vols z2) = map vol_key (vtbl_vols z)" using z2(2) z0 by (auto simp: grown_def)
  moreover have "table_ok z2"
    using table_ok_keys [OF assms(1) keys assms(4)] z2(2) z0 assms(1,4) count by (simp add: grown_def table_ok_def)
  ultimately show ?thesis using create z2(3) z0 by blast
qed

text \<open>A small tape with one new volume.\<close>

definition one_volume :: zftape_info where
  "one_volume = (zft_init_vtbl small_tape)\<lparr>
     vtbl_vols := [blank_vol\<lparr>v_start_seg := 2, v_end_seg := 2, v_size := 20480, v_blk_sz := 10240, v_new_volume := True\<rparr>],
     vtbl_eom := blank_vol\<lparr>v_start_seg := 3, v_end_seg := 3, v_count := 1\<rparr>\<rparr>"

lemma one_volume_ok: "table_ok one_volume" "pos_ok (bsm_rep fmt_normal 2048 2060 3) 3 one_volume (\<lambda>_. 0)"
  "capacity one_volume = 59392" "raw_image one_volume = False" "zft_first_segment one_volume = 1" "last_data_segment (z_ftape one_volume) = 2"
proof -
  show "table_ok one_volume"
    by (simp add: one_volume_def table_defs zft_init_vtbl_def small_tape_def small_ftape_def blank_info_def blank_vol_def zft_last_vtbl_def Let_def)
  show "pos_ok (bsm_rep fmt_normal 2048 2060 3) 3 one_volume (\<lambda>_. 0)"
    using small_tape_known by (simp add: one_volume_def pos_ok_def sizes_known_def zft_init_vtbl_def small_tape_def small_ftape_def
        blank_info_def zft_first_segment_def Let_def)
qed (simp_all add: one_volume_def zft_init_vtbl_def small_tape_def small_ftape_def blank_info_def zft_first_segment_def Let_def)

theorem volume_table_round_trip_witness:
  "\<exists>z1 m1 z2. zft_create_volume_headers one_volume (replicate FT_SEGMENT_SIZE 0) = Some (z1, m1)
    \<and> zft_extract_volume_headers z1 m1 = Some z2 \<and> map vol_key (vtbl_vols z2) = [(2, 2, 20480, 10240, False)]"
proof -
  have vols: "vtbl_vols one_volume = [blank_vol\<lparr>v_start_seg := 2, v_end_seg := 2, v_size := 20480, v_blk_sz := 10240, v_new_volume := True\<rparr>]"
    by (simp add: one_volume_def)
  have "entries_in_place one_volume 0 (replicate FT_SEGMENT_SIZE 0) (vtbl_vols one_volume)"
    unfolding vols by (simp add: entries_in_place_def fits_entry_def blank_vol_def one_volume_def zft_init_vtbl_def small_tape_def
        small_ftape_def blank_info_def Let_def)
  moreover have "\<not> has_cmap (replicate FT_SEGMENT_SIZE 0)" by (simp add: has_cmap_def)
  ultimately show ?thesis
    using volume_table_round_trip [OF one_volume_ok(1,2), of "replicate FT_SEGMENT_SIZE 0"] one_volume_ok small_tape_positions vols
    by (auto simp: vol_key_def blank_vol_def)
qed

end
