(* ===== verification/Zft_Read.thy ===== *)
theory Zft_Read
  imports Zft_Volumes
begin

text \<open>
  Reading from the tape device, \<open>src/ftape/zftape/zftape-read.c\<close>: the segment in the deblock buffer, access
  checks with the end of the volume, the copy to the user and the loop over the segments of a request.

  The argument \<open>read_env\<close> holds what comes from below and from outside: the outcome of \<open>ftape_read_segment\<close> for a
  segment (the number of its data bytes and the contents of the deblock buffer), the deblock buffer that
  \<open>fdc_get_deblock_buffer\<close> hands out, whether the user's memory can be written, the decompressing reader, the
  outcome of \<open>zft_def_idle_state\<close> and the effect of \<open>ftape_abort_operation\<close>. The signals that are pending in the turns
  of the loop are a list; none is pending behind its end. \<open>None\<close> stands for a broken table or bad sector map, for a
  division by zero, and for a search that does not return.
\<close>

section \<open>The operations\<close>

record read_env =
  r_segment :: "int \<Rightarrow> (int \<times> bytes) result"
  r_deblock :: "bytes option"
  r_copy_ok :: bool
  r_cmpr :: "zftape_info \<Rightarrow> int \<Rightarrow> (int \<times> bytes) result"
  r_idle :: "zftape_info \<Rightarrow> (zftape_info \<times> unit result) option"
  r_abort :: "ftape_info \<Rightarrow> ftape_info"

definition zft_check_for_eof :: "zft_volinfo \<Rightarrow> zft_position \<Rightarrow> int" where
  "zft_check_for_eof v pos = v_size v - volume_pos pos"

definition zft_blank_segment :: "read_env \<Rightarrow> zftape_info \<Rightarrow> int \<Rightarrow> (zftape_info \<times> int result) option" where
  "zft_blank_segment E z segment = do {
     (z1, seg_sz) \<leftarrow> zft_get_seg_sz z segment;
     Some (if seg_sz = 0 then (z1, Inr 0)
       else case r_deblock E of
         None \<Rightarrow> (z1\<lparr>deblock_buf := None\<rparr>, Inl EIO)
       | Some m \<Rightarrow> (z1\<lparr>deblock_buf := Some (blit m 0 (replicate (nat seg_sz) 0))\<rparr>, Inr seg_sz))
   }"

definition zft_fetch_segment :: "read_env \<Rightarrow> zftape_info \<Rightarrow> int \<Rightarrow> (zftape_info \<times> int result) option" where
  "zft_fetch_segment E z segment =
    (if u32 segment = u32 (deblock_segment z) then do {
       (z1, seg_sz) \<leftarrow> zft_get_seg_sz z segment;
       Some (z1, Inr seg_sz)
     }
     else let z1 = zft_release_deblock_buffer z
       in case r_segment E segment of
            Inl e \<Rightarrow>
              if e = EINTR \<or> \<not> raw_image z1 \<or> u32 segment \<ge> u32 (first_data_segment (z_ftape z1)) then Some (z1, Inl e)
              else do {
                (z2, r) \<leftarrow> zft_blank_segment E z1 segment;
                Some (case r of Inl e \<Rightarrow> (z2, Inl e)
                  | Inr seg_sz \<Rightarrow> (if seg_sz > 0 then z2\<lparr>deblock_segment := segment\<rparr> else z2, Inr seg_sz))
              }
          | Inr (n, m) \<Rightarrow>
              Some (z1\<lparr>deblock_buf := Some m, deblock_segment := segment\<rparr>,
                Inr (if n > 0 \<and> raw_image z1 then n + int FT_ECC_SECTORS * int FT_SECTOR_SIZE else n)))"

text \<open>The request is clipped at the end of the volume; the flag tells so.\<close>

definition clip_request :: "zftape_info \<Rightarrow> zft_volinfo \<Rightarrow> int \<Rightarrow> (zftape_info \<times> (int \<times> bool) option result) option" where
  "clip_request z v req_len =
    (if v_blk_sz v = 0 then None
     else if u32 req_len mod v_blk_sz v \<noteq> 0 then Some (z, Inl EINVAL)
     else let rest = z_remaining z - req_len
       in Some (z\<lparr>z_remaining := rest\<rparr>, Inr (Some (if rest \<le> 0 then (req_len + rest, True) else (req_len, False)))))"

text \<open>\<open>Inr None\<close> is the result 1: the end of the recorded data.\<close>

definition check_read_access :: "read_env \<Rightarrow> zftape_info \<Rightarrow> int \<Rightarrow> (zftape_info \<times> (int \<times> bool) option result) option" where
  "check_read_access E z req_len =
    (if io_state z \<noteq> zft_reading then
       if offline z then Some (z, Inl ENXIO)
       else if \<not> formatted (z_ftape z) then Some (z, Inl EACCES)
       else do {
         (z1, r) \<leftarrow> r_idle E z;
         case r of Inl e \<Rightarrow> Some (z1, Inl e)
         | Inr _ \<Rightarrow>
             let z2 = z1\<lparr>io_state := zft_reading\<rparr>
             in if zft_tape_at_eod z2 (z_pos z2) then Some (z2\<lparr>eod := 1\<rparr>, Inr None)
                else do {
                  (z3, r) \<leftarrow> zft_volume_by_segpos (z2\<lparr>eod := 0\<rparr>) (u32 (seg_pos (z_pos z2)));
                  v \<leftarrow> vtbl_at z3 r;
                  clip_request (z3\<lparr>z_volume := r, z_remaining := zft_check_for_eof v (z_pos z3), buf_len_rd := 0\<rparr>) v req_len
                }
       }
     else if zft_tape_at_eod z (z_pos z) then
       Some (z\<lparr>eod := eod z + 1\<rparr>, if eod z + 1 > 2 then Inl EIO else Inr None)
     else do {
       v \<leftarrow> vtbl_at z (z_volume z);
       clip_request z v req_len
     })"

text \<open>The bytes for the user, \<open>bytes_at\<close> the position in the segment.\<close>

definition move_read_pos :: "zftape_info \<Rightarrow> int \<Rightarrow> int \<Rightarrow> zftape_info" where
  "move_read_pos z result cnt =
    (let p = (z_pos z)\<lparr>volume_pos := volume_pos (z_pos z) + result, tape_pos := tape_pos (z_pos z) + cnt, seg_byte_pos := seg_byte_pos (z_pos z) + cnt\<rparr>
     in z\<lparr>buf_len_rd := buf_len_rd z - cnt,
          z_pos := (if seg_byte_pos p \<ge> z_seg_sz z then p\<lparr>seg_pos := seg_pos p + 1, seg_byte_pos := 0\<rparr> else p)\<rparr>)"

definition empty_deblock_buf :: "read_env \<Rightarrow> zftape_info \<Rightarrow> zft_volinfo \<Rightarrow> int \<Rightarrow> (zftape_info \<times> bytes result) option" where
  "empty_deblock_buf E z v req_len =
    (if z_use_compression z \<and> v_use_compression v then
       (case r_cmpr E z req_len of
          Inl e \<Rightarrow> Some (z, Inl e)
        | Inr (cnt, out) \<Rightarrow> Some (move_read_pos z (int (length out)) cnt, Inr out))
     else if \<not> r_copy_ok E then Some (z, Inl EFAULT)
     else do {
       m \<leftarrow> deblock_buf z;
       let left = z_seg_sz z - seg_byte_pos (z_pos z);
       let cnt = (if left < req_len then left else req_len);
       Some (move_read_pos z cnt cnt, Inr (bytes_at m (nat (seg_byte_pos (z_pos z))) (nat cnt)))
     })"

text \<open>A new segment, past the segments without data.\<close>

partial_function (option) next_segment :: "read_env \<Rightarrow> zftape_info \<Rightarrow> (zftape_info \<times> int result) option" where
  "next_segment E z =
    Option.bind (zft_fetch_segment E z (seg_pos (z_pos z))) (\<lambda>(z1, r).
      if r = Inr 0 then next_segment E (z1\<lparr>z_pos := (z_pos z1)\<lparr>seg_pos := seg_pos (z_pos z1) + 1, seg_byte_pos := 0\<rparr>\<rparr>)
      else Some (z1, r))"

definition fill_read_buffer :: "read_env \<Rightarrow> zftape_info \<Rightarrow> (zftape_info \<times> unit result) option" where
  "fill_read_buffer E z =
    (if buf_len_rd z \<noteq> 0 then Some (z, Inr ())
     else do {
       (z1, r) \<leftarrow> next_segment E z;
       Some (case r of Inl e \<Rightarrow> (z1, Inl e)
         | Inr seg_sz \<Rightarrow> (z1\<lparr>z_seg_sz := seg_sz, buf_len_rd := seg_sz - seg_byte_pos (z_pos z1)\<rparr>, Inr ()))
     })"

text \<open>
  The loop of \<open>_zft_read\<close>: \<open>out\<close> are the bytes read so far and \<open>result\<close> is the variable of that name.
  A failure is counted against the bytes read so far, except for a signal.
\<close>

partial_function (option) read_loop ::
  "read_env \<Rightarrow> bool list \<Rightarrow> zftape_info \<Rightarrow> int \<Rightarrow> bytes \<Rightarrow> int \<Rightarrow> (zftape_info \<times> (bytes \<times> int) result) option" where
  "read_loop E sigs z req_len out result =
    (if req_len \<le> 0 then Some (z, Inr (out, result))
     else if sigs \<noteq> [] \<and> hd sigs then Some (z, Inl EINTR)
     else Option.bind (fill_read_buffer E z) (\<lambda>(z1, r).
       case r of Inl e \<Rightarrow> Some (z1\<lparr>resid := resid z1 - int (length out)\<rparr>, Inl e)
       | Inr _ \<Rightarrow> Option.bind (vtbl_at z1 (z_volume z1)) (\<lambda>v. Option.bind (empty_deblock_buf E z1 v req_len) (\<lambda>(z2, r2).
           case r2 of Inl e \<Rightarrow> Some (z2\<lparr>resid := resid z2 - int (length out)\<rparr>, Inl e)
           | Inr bs \<Rightarrow> read_loop E (tl sigs) z2 (req_len - int (length bs)) (out @ bs) (int (length bs))))))"

text \<open>What follows a request that met the end of the volume.\<close>

definition read_at_eof :: "read_env \<Rightarrow> zftape_info \<Rightarrow> bool \<Rightarrow> zftape_info option" where
  "read_at_eof E z nothing =
    (if just_before_eof z \<and> nothing then do {
       (z1, p) \<leftarrow> zft_move_past_eof z (z_pos z);
       Some (z1\<lparr>z_pos := p, z_ftape := r_abort E (z_ftape z1), io_state := zft_idle\<rparr>)
     }
     else do {
       v \<leftarrow> vtbl_at z (z_volume z);
       (z1, p) \<leftarrow> zft_position_before_eof (z\<lparr>just_before_eof := True\<rparr>) (z_pos z) v;
       Some (z1\<lparr>z_pos := p\<rparr>)
     })"

definition zft_read :: "read_env \<Rightarrow> bool list \<Rightarrow> zftape_info \<Rightarrow> int \<Rightarrow> (zftape_info \<times> bytes result) option" where
  "zft_read E sigs z req_len = do {
     (z1, r) \<leftarrow> check_read_access E (z\<lparr>resid := req_len\<rparr>) req_len;
     case r of
       Inl e \<Rightarrow> Some (z1, Inl e)
     | Inr None \<Rightarrow> Some (z1, Inr [])
     | Inr (Some (len, clipped)) \<Rightarrow> do {
         (z2, r2) \<leftarrow> read_loop E sigs z1 len [] 0;
         case r2 of
           Inl e \<Rightarrow> Some (z2, Inl e)
         | Inr (out, result) \<Rightarrow> do {
             z3 \<leftarrow> (if clipped then read_at_eof E z2 (out = []) else Some z2);
             Some (z3\<lparr>resid := resid z3 - result\<rparr>, Inr out)
           }
       }
   }"


section \<open>The volume as a stream of bytes\<close>

text \<open>The data of the segments from the position on, up to segment \<open>e\<close>, and what of them belongs to the volume.\<close>

definition stream :: "(int \<Rightarrow> bytes) \<Rightarrow> int \<Rightarrow> zftape_info \<Rightarrow> bytes" where
  "stream d e z = drop (nat (seg_byte_pos (z_pos z))) (concat (map d [seg_pos (z_pos z)..e]))"

definition rest_of_volume :: "(int \<Rightarrow> bytes) \<Rightarrow> int \<Rightarrow> zftape_info \<Rightarrow> bytes" where
  "rest_of_volume d e z = take (nat (z_remaining z)) (stream d e z)"

text \<open>The deblock buffer holds the segment at the position, or a segment in front of it.\<close>

definition buffer_ok :: "(int \<Rightarrow> bytes) \<Rightarrow> int \<Rightarrow> zftape_info \<Rightarrow> bool" where
  "buffer_ok d e z \<longleftrightarrow> (let p = seg_pos (z_pos z); b = seg_byte_pos (z_pos z) in 0 \<le> p \<and> 0 \<le> b
    \<and> (\<forall>s. p < s \<and> s \<le> e \<longrightarrow> u32 s \<noteq> u32 (deblock_segment z))
    \<and> (if buf_len_rd z = 0 then (p \<le> e \<longrightarrow> u32 p \<noteq> u32 (deblock_segment z)) \<and> (b = 0 \<or> p \<le> e \<and> b < int (length (d p)))
       else p \<le> e \<and> b < int (length (d p)) \<and> buf_len_rd z = int (length (d p)) - b \<and> z_seg_sz z = int (length (d p))
         \<and> (\<exists>m. deblock_buf z = Some (d p @ m))))"

definition segments_readable :: "read_env \<Rightarrow> (int \<Rightarrow> bytes) \<Rightarrow> int \<Rightarrow> int \<Rightarrow> bool" where
  "segments_readable E d first e \<longleftrightarrow> (\<forall>s. first \<le> s \<and> s \<le> e \<longrightarrow> (\<exists>m. r_segment E s = Inr (int (length (d s)), d s @ m)))"

text \<open>The fields that reading moves are forgotten.\<close>

definition forget_buffer :: "zftape_info \<Rightarrow> zftape_info" where
  "forget_buffer z = z\<lparr>z_pos := \<lparr>seg_pos = 0, seg_byte_pos = 0, tape_pos = 0, volume_pos = 0\<rparr>, deblock_segment := 0, deblock_buf := None,
     buf_len_rd := 0, z_seg_sz := 0, resid := 0\<rparr>"

lemma forget_buffer_fields:
  assumes "forget_buffer z' = forget_buffer z"
  shows "z_ftape z' = z_ftape z" "raw_image z' = raw_image z" "z_remaining z' = z_remaining z" "z_volume z' = z_volume z" "qic_mode z' = qic_mode z"
    "vtbl_head z' = vtbl_head z" "vtbl_vols z' = vtbl_vols z" "vtbl_eom z' = vtbl_eom z" "tape_vtbl z' = tape_vtbl z" "eot_vtbl z' = eot_vtbl z"
    "io_state z' = io_state z" "just_before_eof z' = just_before_eof z" "z_use_compression z' = z_use_compression z"
  using arg_cong [OF assms, of z_ftape] arg_cong [OF assms, of raw_image] arg_cong [OF assms, of z_remaining] arg_cong [OF assms, of z_volume]
    arg_cong [OF assms, of qic_mode] arg_cong [OF assms, of vtbl_head] arg_cong [OF assms, of vtbl_vols] arg_cong [OF assms, of vtbl_eom]
    arg_cong [OF assms, of tape_vtbl] arg_cong [OF assms, of eot_vtbl] arg_cong [OF assms, of io_state] arg_cong [OF assms, of just_before_eof]
    arg_cong [OF assms, of z_use_compression]
  by (simp_all add: forget_buffer_def)

lemma u32_id: "0 \<le> i \<Longrightarrow> i < 2 ^ 32 \<Longrightarrow> u32 i = i"
  by (simp add: u32_def uint_word_of_int)

lemma stream_Cons: "p \<le> e \<Longrightarrow> concat (map d [p..e]) = d p @ concat (map d [p + 1..e])"
  by (simp add: upto_rec1)

lemma stream_nonempty: "stream d e z \<noteq> [] \<Longrightarrow> seg_pos (z_pos z) \<le> e"
  by (rule ccontr) (simp add: stream_def)

lemma fetch_segment_ok:
  assumes "segments_readable E d p e" "u32 p \<noteq> u32 (deblock_segment z)" "p \<le> e" "\<not> raw_image z"
  shows "\<exists>m. zft_fetch_segment E z p = Some ((zft_release_deblock_buffer z)\<lparr>deblock_buf := Some (d p @ m), deblock_segment := p\<rparr>, Inr (int (length (d p))))"
proof -
  obtain m where "r_segment E p = Inr (int (length (d p)), d p @ m)" using assms(1,3) by (auto simp: segments_readable_def)
  with assms(2,4) show ?thesis by (intro exI [of _ m]) (simp add: zft_fetch_segment_def Let_def zft_release_deblock_buffer_def)
qed

lemma next_segment_ok:
  assumes "segments_readable E d (seg_pos (z_pos z)) e" "buffer_ok d e z" "buf_len_rd z = 0" "stream d e z \<noteq> []" "\<not> raw_image z" "e < 2 ^ 31"
  shows "\<exists>z'. next_segment E z = Some (z', Inr (int (length (d (seg_pos (z_pos z')))))) \<and> stream d e z' = stream d e z
    \<and> forget_buffer z' = forget_buffer z \<and> buffer_ok d e (z'\<lparr>z_seg_sz := int (length (d (seg_pos (z_pos z')))),
        buf_len_rd := int (length (d (seg_pos (z_pos z')))) - seg_byte_pos (z_pos z')\<rparr>)
    \<and> seg_byte_pos (z_pos z') < int (length (d (seg_pos (z_pos z')))) \<and> seg_pos (z_pos z) \<le> seg_pos (z_pos z')
    \<and> resid z' = resid z \<and> volume_pos (z_pos z') = volume_pos (z_pos z)"
  using assms
proof (induction "nat (e - seg_pos (z_pos z))" arbitrary: z rule: less_induct)
  case less
  let ?p = "seg_pos (z_pos z)" and ?b = "seg_byte_pos (z_pos z)"
  have p: "?p \<le> e" "0 \<le> ?p" "u32 ?p \<noteq> u32 (deblock_segment z)" "0 \<le> ?b" "?b = 0 \<or> ?b < int (length (d ?p))"
    using less.prems stream_nonempty [OF less.prems(4)] by (auto simp: buffer_ok_def Let_def)
  obtain m where f: "zft_fetch_segment E z ?p = Some ((zft_release_deblock_buffer z)\<lparr>deblock_buf := Some (d ?p @ m), deblock_segment := ?p\<rparr>, Inr (int (length (d ?p))))"
    using fetch_segment_ok [OF less.prems(1) p(3,1) less.prems(5)] by blast
  let ?z1 = "(zft_release_deblock_buffer z)\<lparr>deblock_buf := Some (d ?p @ m), deblock_segment := ?p\<rparr>"
  have inj: "u32 s \<noteq> u32 ?p" if "?p < s" "s \<le> e + 1" for s using that p(1,2) less.prems(6) by (simp add: u32_id)
  show ?case
  proof (cases "d ?p = []")
    case False
    then have n: "next_segment E z = Some (?z1, Inr (int (length (d ?p))))" by (subst next_segment.simps) (simp add: f)
    show ?thesis
      by (rule exI [of _ ?z1], unfold n)
        (use p False inj in \<open>auto simp: zft_release_deblock_buffer_def stream_def forget_buffer_def buffer_ok_def Let_def\<close>)
  next
    case True
    let ?z2 = "?z1\<lparr>z_pos := (z_pos ?z1)\<lparr>seg_pos := seg_pos (z_pos ?z1) + 1, seg_byte_pos := 0\<rparr>\<rparr>"
    have b: "?b = 0" using p(4,5) True by simp
    have n: "next_segment E z = next_segment E ?z2" by (subst next_segment.simps) (simp add: f True)
    have z2: "seg_pos (z_pos ?z2) = ?p + 1" "stream d e ?z2 = stream d e z" "forget_buffer ?z2 = forget_buffer z" "resid ?z2 = resid z \<and> volume_pos (z_pos ?z2) = volume_pos (z_pos z)"
      "buf_len_rd ?z2 = 0" "raw_image ?z2 = raw_image z"
      using True b stream_Cons [OF p(1), of d] by (simp_all add: zft_release_deblock_buffer_def stream_def forget_buffer_def)
    have ok2: "buffer_ok d e ?z2" using p(2) inj [of "?p + 1"] inj p(1) by (auto simp: zft_release_deblock_buffer_def buffer_ok_def Let_def)
    have "?p < e" using stream_nonempty [of d e ?z2] less.prems(4) z2(1,2) by simp
    then have "nat (e - seg_pos (z_pos ?z2)) < nat (e - ?p)" using z2(1) by simp
    moreover have "segments_readable E d (seg_pos (z_pos ?z2)) e" using less.prems(1) z2(1) by (simp add: segments_readable_def)
    ultimately obtain z' where "next_segment E ?z2 = Some (z', Inr (int (length (d (seg_pos (z_pos z'))))))" "stream d e z' = stream d e ?z2"
        "forget_buffer z' = forget_buffer ?z2" "buffer_ok d e (z'\<lparr>z_seg_sz := int (length (d (seg_pos (z_pos z')))),
          buf_len_rd := int (length (d (seg_pos (z_pos z')))) - seg_byte_pos (z_pos z')\<rparr>)"
        "seg_byte_pos (z_pos z') < int (length (d (seg_pos (z_pos z'))))" "seg_pos (z_pos ?z2) \<le> seg_pos (z_pos z')" "resid z' = resid ?z2 \<and> volume_pos (z_pos z') = volume_pos (z_pos ?z2)"
      using less.hyps [of ?z2] ok2 z2(2,5,6) less.prems(4-6) by auto
    then show ?thesis unfolding n using z2(1-4) by (intro exI [of _ z']) simp
  qed
qed


text \<open>The part of a segment that is read: one turn of the loop.\<close>

lemma fill_read_buffer_ok:
  assumes "segments_readable E d (seg_pos (z_pos z)) e" "buffer_ok d e z" "stream d e z \<noteq> []" "\<not> raw_image z" "e < 2 ^ 31"
  shows "\<exists>z'. fill_read_buffer E z = Some (z', Inr ()) \<and> stream d e z' = stream d e z \<and> forget_buffer z' = forget_buffer z
    \<and> buffer_ok d e z' \<and> buf_len_rd z' \<noteq> 0 \<and> seg_pos (z_pos z) \<le> seg_pos (z_pos z') \<and> resid z' = resid z \<and> volume_pos (z_pos z') = volume_pos (z_pos z)"
proof (cases "buf_len_rd z = 0")
  case True
  obtain z' where n: "next_segment E z = Some (z', Inr (int (length (d (seg_pos (z_pos z'))))))" "stream d e z' = stream d e z"
      "forget_buffer z' = forget_buffer z" "buffer_ok d e (z'\<lparr>z_seg_sz := int (length (d (seg_pos (z_pos z')))),
        buf_len_rd := int (length (d (seg_pos (z_pos z')))) - seg_byte_pos (z_pos z')\<rparr>)"
      "seg_byte_pos (z_pos z') < int (length (d (seg_pos (z_pos z'))))" "seg_pos (z_pos z) \<le> seg_pos (z_pos z')" "resid z' = resid z \<and> volume_pos (z_pos z') = volume_pos (z_pos z)"
    using next_segment_ok [OF assms(1,2) True assms(3-5)] by blast
  let ?z = "z'\<lparr>z_seg_sz := int (length (d (seg_pos (z_pos z')))), buf_len_rd := int (length (d (seg_pos (z_pos z')))) - seg_byte_pos (z_pos z')\<rparr>"
  have "fill_read_buffer E z = Some (?z, Inr ())" using True n(1) by (simp add: fill_read_buffer_def)
  moreover have "stream d e ?z = stream d e z" "forget_buffer ?z = forget_buffer z" "resid ?z = resid z \<and> volume_pos (z_pos ?z) = volume_pos (z_pos z)" "buf_len_rd ?z \<noteq> 0" "seg_pos (z_pos z) \<le> seg_pos (z_pos ?z)"
    using n(2,3,5,6,7) by (simp_all add: stream_def forget_buffer_def)
  ultimately show ?thesis using n(4) by blast
next
  case False
  then have "fill_read_buffer E z = Some (z, Inr ())" by (simp add: fill_read_buffer_def)
  with assms False show ?thesis by blast
qed

lemma empty_deblock_buf_ok:
  assumes "buffer_ok d e z" "buf_len_rd z \<noteq> 0" "0 < n" "r_copy_ok E" "\<not> (z_use_compression z \<and> v_use_compression v)" "e < 2 ^ 31"
  shows "\<exists>z' bs. empty_deblock_buf E z v n = Some (z', Inr bs) \<and> bs \<noteq> [] \<and> int (length bs) \<le> n \<and> stream d e z = bs @ stream d e z'
    \<and> buffer_ok d e z' \<and> forget_buffer z' = forget_buffer z \<and> seg_pos (z_pos z) \<le> seg_pos (z_pos z') \<and> resid z' = resid z
    \<and> (seg_pos (z_pos z') \<le> e \<or> seg_pos (z_pos z') = e + 1 \<and> seg_byte_pos (z_pos z') = 0)
    \<and> volume_pos (z_pos z') = volume_pos (z_pos z) + int (length bs)"
proof -
  let ?p = "seg_pos (z_pos z)" and ?b = "seg_byte_pos (z_pos z)"
  obtain m where b: "0 \<le> ?p" "?p \<le> e" "0 \<le> ?b" "?b < int (length (d ?p))" "buf_len_rd z = int (length (d ?p)) - ?b" "z_seg_sz z = int (length (d ?p))"
      "deblock_buf z = Some (d ?p @ m)" "\<forall>s. ?p < s \<and> s \<le> e \<longrightarrow> u32 s \<noteq> u32 (deblock_segment z)"
    using assms(1,2) by (auto simp: buffer_ok_def Let_def)
  let ?cnt = "min (int (length (d ?p)) - ?b) n"
  let ?bs = "bytes_at (d ?p @ m) (nat ?b) (nat ?cnt)" and ?z = "move_read_pos z ?cnt ?cnt"
  have len: "int (length ?bs) = ?cnt" "?bs = take (nat ?cnt) (drop (nat ?b) (d ?p))" using b assms(3) by (simp_all add: bytes_at_def)
  have run: "empty_deblock_buf E z v n = Some (?z, Inr ?bs)"
    using assms(4,5) b(6,7) by (auto simp: empty_deblock_buf_def Let_def min_def)
  have str: "stream d e z = ?bs @ stream d e ?z"
  proof -
    have "stream d e z = drop (nat ?b) (d ?p) @ concat (map d [?p + 1..e])" using b by (simp add: stream_def stream_Cons)
    moreover have "stream d e ?z = drop (nat ?cnt) (drop (nat ?b) (d ?p)) @ concat (map d [?p + 1..e])"
      using b assms(3) by (auto simp: move_read_pos_def Let_def stream_def stream_Cons nat_add_distrib add.commute)
    ultimately show ?thesis unfolding len(2) by (simp only: append_assoc [symmetric] append_take_drop_id)
  qed
  have ok: "buffer_ok d e ?z" using b assms(3) by (auto simp: buffer_ok_def Let_def move_read_pos_def)
  have "?bs \<noteq> []" "int (length ?bs) \<le> n" using len b assms(3) by auto
  moreover have "forget_buffer ?z = forget_buffer z" "?p \<le> seg_pos (z_pos ?z)" "resid ?z = resid z"
      "seg_pos (z_pos ?z) \<le> e \<or> seg_pos (z_pos ?z) = e + 1 \<and> seg_byte_pos (z_pos ?z) = 0"
    using b(2) by (auto simp: move_read_pos_def Let_def forget_buffer_def)
  moreover have "volume_pos (z_pos ?z) = volume_pos (z_pos z) + int (length ?bs)" unfolding len(1) by (simp add: move_read_pos_def Let_def)
  ultimately show ?thesis using run str ok by (intro exI [of _ ?z] exI [of _ ?bs]) simp
qed


lemma segments_readable_later: "segments_readable E d p e \<Longrightarrow> p \<le> q \<Longrightarrow> segments_readable E d q e"
  by (simp add: segments_readable_def)

lemma vtbl_at_forget: "forget_buffer z' = forget_buffer z \<Longrightarrow> vtbl_at z' (z_volume z') = vtbl_at z (z_volume z)"
  using forget_buffer_fields [of z' z] by (simp add: vtbl_at_def split: vtbl_ref.split)

lemma read_loop_ok:
  assumes "segments_readable E d (seg_pos (z_pos z)) e" "buffer_ok d e z" "\<not> raw_image z" "e < 2 ^ 31" "r_copy_ok E" "vtbl_at z (z_volume z) = Some v"
    "\<not> (z_use_compression z \<and> v_use_compression v)" "n \<le> int (length (stream d e z))"
    "seg_pos (z_pos z) \<le> e \<or> seg_pos (z_pos z) = e + 1 \<and> seg_byte_pos (z_pos z) = 0"
  shows "\<exists>z' r'. read_loop E [] z n out r = Some (z', Inr (out @ take (nat n) (stream d e z), r')) \<and> stream d e z' = drop (nat n) (stream d e z)
    \<and> buffer_ok d e z' \<and> forget_buffer z' = forget_buffer z \<and> seg_pos (z_pos z) \<le> seg_pos (z_pos z') \<and> resid z' = resid z
    \<and> (seg_pos (z_pos z') \<le> e \<or> seg_pos (z_pos z') = e + 1 \<and> seg_byte_pos (z_pos z') = 0)
    \<and> volume_pos (z_pos z') = volume_pos (z_pos z) + max 0 n"
  using assms
proof (induction "nat n" arbitrary: z n out r rule: less_induct)
  case less
  show ?case
  proof (cases "n \<le> 0")
    case True
    then have "read_loop E [] z n out r = Some (z, Inr (out, r))" by (subst read_loop.simps) simp
    with True less.prems(2,9) show ?thesis by (intro exI [of _ z] exI [of _ r]) simp
  next
    case False
    then have ne: "stream d e z \<noteq> []" using less.prems(8) by auto
    obtain z1 where f: "fill_read_buffer E z = Some (z1, Inr ())" "stream d e z1 = stream d e z" "forget_buffer z1 = forget_buffer z"
        "buffer_ok d e z1" "buf_len_rd z1 \<noteq> 0" "seg_pos (z_pos z) \<le> seg_pos (z_pos z1)" "resid z1 = resid z" "volume_pos (z_pos z1) = volume_pos (z_pos z)"
      using fill_read_buffer_ok [OF less.prems(1,2) ne less.prems(3,4)] by blast
    note same1 = forget_buffer_fields [OF f(3)]
    have v1: "vtbl_at z1 (z_volume z1) = Some v" using vtbl_at_forget [OF f(3)] less.prems(6) by simp
    have n: "0 < n" using False by simp
    have cmpr: "\<not> (z_use_compression z1 \<and> v_use_compression v)" using same1(13) less.prems(7) by simp
    obtain z2 bs where b: "empty_deblock_buf E z1 v n = Some (z2, Inr bs)" "bs \<noteq> []" "int (length bs) \<le> n" "stream d e z1 = bs @ stream d e z2"
        "buffer_ok d e z2" "forget_buffer z2 = forget_buffer z1" "seg_pos (z_pos z1) \<le> seg_pos (z_pos z2)" "resid z2 = resid z1"
        "seg_pos (z_pos z2) \<le> e \<or> seg_pos (z_pos z2) = e + 1 \<and> seg_byte_pos (z_pos z2) = 0"
        "volume_pos (z_pos z2) = volume_pos (z_pos z1) + int (length bs)"
      using empty_deblock_buf_ok [OF f(4,5) n less.prems(5) cmpr less.prems(4)] by blast
    note same2 = forget_buffer_fields [OF b(6)]
    let ?n = "n - int (length bs)"
    have step: "read_loop E [] z n out r = read_loop E [] z2 ?n (out @ bs) (int (length bs))"
      by (subst read_loop.simps) (simp add: False f(1) v1 b(1))
    have "segments_readable E d (seg_pos (z_pos z2)) e" using f(6) b(7) by (intro segments_readable_later [OF less.prems(1)]) simp
    moreover have "\<not> raw_image z2" "vtbl_at z2 (z_volume z2) = Some v" "\<not> (z_use_compression z2 \<and> v_use_compression v)"
      using same1 same2 less.prems(3) v1 vtbl_at_forget [OF b(6)] cmpr by simp_all
    moreover have "?n \<le> int (length (stream d e z2))" using less.prems(8) unfolding f(2) [symmetric] b(4) by simp
    moreover have "nat ?n < nat n" using b(2) n by (cases bs) auto
    ultimately obtain z' r' where i: "read_loop E [] z2 ?n (out @ bs) (int (length bs)) = Some (z', Inr ((out @ bs) @ take (nat ?n) (stream d e z2), r'))"
        "stream d e z' = drop (nat ?n) (stream d e z2)" "buffer_ok d e z'" "forget_buffer z' = forget_buffer z2" "seg_pos (z_pos z2) \<le> seg_pos (z_pos z')"
        "resid z' = resid z2" "seg_pos (z_pos z') \<le> e \<or> seg_pos (z_pos z') = e + 1 \<and> seg_byte_pos (z_pos z') = 0"
        "volume_pos (z_pos z') = volume_pos (z_pos z2) + max 0 ?n"
      using less.hyps [of ?n z2 "out @ bs" "int (length bs)"] b(5,9) less.prems(4,5) by blast
    have "take (nat n) (stream d e z) = bs @ take (nat ?n) (stream d e z2)" "drop (nat n) (stream d e z) = drop (nat ?n) (stream d e z2)"
      using b(3,4) f(2) n by (simp_all add: nat_diff_distrib)
    then show ?thesis
      using i step f(3,6,7,8) b(3,6,7,8,10) n by (intro exI [of _ z'] exI [of _ r']) simp
  qed
qed


section \<open>Reading a volume\<close>

text \<open>
  The state between the requests: the tape is positioned in a volume that ends in segment \<open>e\<close>, in front of the end
  of the recorded data, with the bytes left in the volume in \<open>remaining\<close>.
\<close>

definition reading_inv :: "ft_format_type \<Rightarrow> nat \<Rightarrow> nat \<Rightarrow> nat \<Rightarrow> (nat \<Rightarrow> u32) \<Rightarrow> (int \<Rightarrow> bytes) \<Rightarrow> zft_volinfo \<Rightarrow> zftape_info \<Rightarrow> bool" where
  "reading_inv fmt base lim N M d v z \<longleftrightarrow> (let e = v_end_seg v in
     io_state z = zft_reading \<and> qic_mode z \<and> \<not> raw_image z \<and> \<not> v_open (zft_last_vtbl z) \<and> e < v_start_seg (vtbl_eom z) \<and> e < 2 ^ 31
     \<and> vtbl_at z (z_volume z) = Some v \<and> \<not> (z_use_compression z \<and> v_use_compression v)
     \<and> sizes_known (bsm_rep fmt base lim N) N z M \<and> e \<le> last_data_segment (z_ftape z)
     \<and> 0 \<le> v_start_seg v \<and> v_start_seg v \<le> seg_pos (z_pos z) \<and> seg_pos (z_pos z) \<le> e
     \<and> (0 < z_remaining z \<longrightarrow> buffer_ok d e z \<and> z_remaining z \<le> int (length (stream d e z))))"

text \<open>Only the position and the cache of the bad sector map move in \<open>zft_position_before_eof\<close>.\<close>

lemma position_before_eof_ok:
  assumes "sizes_known (bsm_rep fmt base lim N) N z M" "v_end_seg v \<le> last_data_segment (z_ftape z)" "v_end_seg v < 2 ^ 31"
    "0 \<le> v_end_seg v" "seg_pos p \<le> v_end_seg v \<or> seg_pos p = v_end_seg v + 1 \<and> seg_byte_pos p = 0" "0 \<le> seg_pos p"
  shows "\<exists>f p'. zft_position_before_eof z p v = Some (z\<lparr>z_ftape := f\<rparr>, p') \<and> sizes_known (bsm_rep fmt base lim N) N (z\<lparr>z_ftape := f\<rparr>) M
    \<and> last_data_segment f = last_data_segment (z_ftape z) \<and> seg_pos p' = min (seg_pos p) (v_end_seg v)"
proof (cases "seg_pos p = v_end_seg v + 1 \<and> seg_byte_pos p = 0")
  case True
  from assms(1,4,2) obtain f where "zft_get_seg_sz z (v_end_seg v) = Some (z\<lparr>z_ftape := f\<rparr>, seg_size M (raw_image z) (v_end_seg v))"
      "sizes_known (bsm_rep fmt base lim N) N (z\<lparr>z_ftape := f\<rparr>) M" "last_data_segment f = last_data_segment (z_ftape z)"
    by (rule pos.get_seg_sz)
  with True assms(4) show ?thesis by (intro exI [of _ f] exI [of _ "p\<lparr>seg_pos := v_end_seg v, seg_byte_pos := seg_size M (raw_image z) (v_end_seg v)\<rparr>"])
      (simp add: zft_position_before_eof_def)
next
  case False
  have "u32 (seg_pos p) = seg_pos p" "u32 (v_end_seg v + 1) = v_end_seg v + 1" using assms(3-6) by (auto intro!: u32_id)
  then have "zft_position_before_eof z p v = Some (z, p)" using False by (auto simp: zft_position_before_eof_def)
  then show ?thesis using assms(1,5,6) False by (intro exI [of _ "z_ftape z"] exI [of _ p]) auto
qed


lemma stream_frame [simp]: "stream d e (z\<lparr>resid := x\<rparr>) = stream d e z" "stream d e (z\<lparr>z_remaining := y\<rparr>) = stream d e z"
  "stream d e (z\<lparr>z_ftape := f\<rparr>) = stream d e z"
  by (simp_all add: stream_def)

lemma buffer_ok_frame [simp]: "buffer_ok d e (z\<lparr>resid := x\<rparr>) = buffer_ok d e z" "buffer_ok d e (z\<lparr>z_remaining := y\<rparr>) = buffer_ok d e z"
  by (simp_all add: buffer_ok_def)

lemma last_vtbl_cong: "vtbl_vols z' = vtbl_vols z \<Longrightarrow> vtbl_head z' = vtbl_head z \<Longrightarrow> zft_last_vtbl z' = zft_last_vtbl z"
  by (simp add: zft_last_vtbl_def)

lemma vtbl_at_cong:
  assumes "vtbl_vols z' = vtbl_vols z" "vtbl_head z' = vtbl_head z" "vtbl_eom z' = vtbl_eom z" "tape_vtbl z' = tape_vtbl z" "eot_vtbl z' = eot_vtbl z"
  shows "vtbl_at z' r = vtbl_at z r"
  using assms by (simp add: vtbl_at_def split: vtbl_ref.split)

text \<open>The invariant only looks at the table, the modes, the position and the buffer.\<close>

lemma reading_inv_cong:
  assumes "reading_inv fmt base lim N M d v z" "forget_buffer z2 = forget_buffer (z\<lparr>z_remaining := r\<rparr>)"
    "v_start_seg v \<le> seg_pos (z_pos z2)" "seg_pos (z_pos z2) \<le> v_end_seg v"
    "0 < r \<Longrightarrow> buffer_ok d (v_end_seg v) z2 \<and> r \<le> int (length (stream d (v_end_seg v) z2))"
  shows "reading_inv fmt base lim N M d v z2"
proof -
  note f = forget_buffer_fields [OF assms(2)]
  have "zft_last_vtbl z2 = zft_last_vtbl z" "vtbl_at z2 q = vtbl_at z q" for q using f by (auto intro!: last_vtbl_cong vtbl_at_cong)
  with assms(1,3-5) f show ?thesis by (simp add: reading_inv_def Let_def sizes_known_def)
qed

lemma not_at_eod: "reading_inv fmt base lim N M d v z \<Longrightarrow> \<not> zft_tape_at_eod z (z_pos z)"
  by (auto simp: reading_inv_def Let_def zft_tape_at_eod_def u32_id)


lemma check_read_access_ok:
  assumes "reading_inv fmt base lim N M d v z" "v_blk_sz v \<noteq> 0" "u32 n mod v_blk_sz v = 0"
  shows "check_read_access E z n = Some (z\<lparr>z_remaining := z_remaining z - n\<rparr>,
    Inr (Some (min n (z_remaining z), z_remaining z \<le> n)))"
  using assms not_at_eod [OF assms(1)]
  by (auto simp: check_read_access_def clip_request_def Let_def reading_inv_def min_def)

lemma read_at_eof_ok:
  assumes "reading_inv fmt base lim N M d v z0" "forget_buffer z = forget_buffer (z0\<lparr>z_remaining := r\<rparr>)" "r \<le> 0"
    "\<not> (just_before_eof z \<and> nothing)" "v_start_seg v \<le> seg_pos (z_pos z)"
    "seg_pos (z_pos z) \<le> v_end_seg v \<or> seg_pos (z_pos z) = v_end_seg v + 1 \<and> seg_byte_pos (z_pos z) = 0"
  shows "\<exists>z'. read_at_eof E z nothing = Some z' \<and> reading_inv fmt base lim N M d v z' \<and> z_remaining z' = r \<and> just_before_eof z' \<and> resid z' = resid z"
proof -
  let ?z = "z\<lparr>just_before_eof := True\<rparr>"
  note f = forget_buffer_fields [OF assms(2)]
  have refs: "zft_last_vtbl z = zft_last_vtbl z0" "vtbl_at z q = vtbl_at z0 q" for q using f by (auto intro!: last_vtbl_cong vtbl_at_cong)
  have inv: "sizes_known (bsm_rep fmt base lim N) N ?z M" "v_end_seg v \<le> last_data_segment (z_ftape ?z)" "v_end_seg v < 2 ^ 31" "0 \<le> v_end_seg v"
    "vtbl_at z (z_volume z) = Some v" "0 \<le> seg_pos (z_pos z)" "v_start_seg v \<le> v_end_seg v"
    using assms(1,5) f refs by (auto simp: reading_inv_def Let_def sizes_known_def)
  obtain g p' where p: "zft_position_before_eof ?z (z_pos z) v = Some (?z\<lparr>z_ftape := g\<rparr>, p')" "sizes_known (bsm_rep fmt base lim N) N (?z\<lparr>z_ftape := g\<rparr>) M"
      "last_data_segment g = last_data_segment (z_ftape ?z)" "seg_pos p' = min (seg_pos (z_pos z)) (v_end_seg v)"
    using position_before_eof_ok [OF inv(1-4) assms(6) inv(6)] by blast
  let ?z' = "?z\<lparr>z_ftape := g, z_pos := p'\<rparr>"
  have run: "read_at_eof E z nothing = Some ?z'" using assms(4) inv(5) p(1) by (auto simp: read_at_eof_def)
  have refs': "zft_last_vtbl ?z' = zft_last_vtbl z0" "vtbl_at ?z' q = vtbl_at z0 q" for q using f by (auto intro!: last_vtbl_cong vtbl_at_cong)
  have "reading_inv fmt base lim N M d v ?z'"
    using assms(1,3,5) f refs' p(2,3,4) inv(2,7) by (simp add: reading_inv_def Let_def sizes_known_def)
  then show ?thesis using run f(3) by (intro exI [of _ ?z']) simp
qed

text \<open>One request.\<close>

lemma zft_read_ok:
  assumes "reading_inv fmt base lim N M d v z" "segments_readable E d (v_start_seg v) (v_end_seg v)" "r_copy_ok E"
    "v_blk_sz v \<noteq> 0" "u32 n mod v_blk_sz v = 0" "0 < n" "rest_of_volume d (v_end_seg v) z \<noteq> []"
  shows "\<exists>z'. zft_read E [] z n = Some (z', Inr (take (nat n) (rest_of_volume d (v_end_seg v) z)))
    \<and> rest_of_volume d (v_end_seg v) z' = drop (nat n) (rest_of_volume d (v_end_seg v) z) \<and> reading_inv fmt base lim N M d v z'
    \<and> (rest_of_volume d (v_end_seg v) z' = [] \<longrightarrow> just_before_eof z')"
proof -
  let ?e = "v_end_seg v" and ?R = "z_remaining z" and ?xs = "stream d (v_end_seg v) z"
  have R: "0 < ?R" using assms(7) by (rule_tac ccontr) (simp add: rest_of_volume_def)
  have inv: "buffer_ok d ?e z" "?R \<le> int (length ?xs)" "\<not> raw_image z" "?e < 2 ^ 31" "vtbl_at z (z_volume z) = Some v"
    "\<not> (z_use_compression z \<and> v_use_compression v)" "v_start_seg v \<le> seg_pos (z_pos z)" "seg_pos (z_pos z) \<le> ?e"
    using assms(1) R by (auto simp: reading_inv_def Let_def)
  let ?z0 = "z\<lparr>resid := n\<rparr>" let ?z1 = "?z0\<lparr>z_remaining := ?R - n\<rparr>" and ?len = "min n ?R"
  have inv0: "reading_inv fmt base lim N M d v ?z0"
    by (rule reading_inv_cong [OF assms(1)]) (use assms(1) in \<open>auto simp: reading_inv_def Let_def forget_buffer_def\<close>)
  have chk: "check_read_access E ?z0 n = Some (?z1, Inr (Some (?len, ?R \<le> n)))"
    using check_read_access_ok [OF inv0 assms(4,5)] by simp
  have at1: "vtbl_at ?z1 (z_volume ?z1) = Some v" using inv(5) vtbl_at_cong [of ?z1 z] by simp
  have seg1: "segments_readable E d (seg_pos (z_pos ?z1)) ?e" using segments_readable_later [OF assms(2) inv(7)] by simp
  obtain z2 r where l: "read_loop E [] ?z1 ?len [] 0 = Some (z2, Inr (take (nat ?len) ?xs, r))" "stream d ?e z2 = drop (nat ?len) ?xs"
      "buffer_ok d ?e z2" "forget_buffer z2 = forget_buffer ?z1" "seg_pos (z_pos ?z1) \<le> seg_pos (z_pos z2)" "resid z2 = resid ?z1"
      "seg_pos (z_pos z2) \<le> ?e \<or> seg_pos (z_pos z2) = ?e + 1 \<and> seg_byte_pos (z_pos z2) = 0"
  proof -
    have pre: "buffer_ok d ?e ?z1" "\<not> raw_image ?z1" "\<not> (z_use_compression ?z1 \<and> v_use_compression v)" "?len \<le> int (length (stream d ?e ?z1))"
      "seg_pos (z_pos ?z1) \<le> ?e \<or> seg_pos (z_pos ?z1) = ?e + 1 \<and> seg_byte_pos (z_pos ?z1) = 0"
      using inv by simp_all
    note loop = read_loop_ok [OF seg1 pre(1,2) inv(4) assms(3) at1 pre(3,4,5), of "[]" 0]
    show ?thesis using loop that by (simp only: append_Nil stream_frame) blast
  qed
  have fz: "forget_buffer z2 = forget_buffer (z\<lparr>z_remaining := ?R - n\<rparr>)" using l(4) by (simp add: forget_buffer_def)
  note fz' = forget_buffer_fields [OF fz]
  have ge: "v_start_seg v \<le> seg_pos (z_pos z2)" using l(5) inv(7) by simp
  have out: "take (nat n) (rest_of_volume d ?e z) = take (nat ?len) ?xs" using R assms(6) by (simp add: rest_of_volume_def min_def)
  have out_ne: "take (nat ?len) ?xs \<noteq> []" using R assms(6) inv(2) by auto
  show ?thesis
  proof (cases "?R \<le> n")
    case True
    obtain z3 where e: "read_at_eof E z2 False = Some z3" "reading_inv fmt base lim N M d v z3" "z_remaining z3 = ?R - n" "resid z3 = resid z2" "just_before_eof z3"
      using read_at_eof_ok [OF assms(1) fz, of False E] True ge l(7) by auto
    let ?z3 = "z3\<lparr>resid := resid z3 - r\<rparr>"
    have "zft_read E [] z n = Some (?z3, Inr (take (nat ?len) ?xs))"
      using chk l(1) e(1) True out_ne by (simp add: zft_read_def)
    moreover have "rest_of_volume d ?e ?z3 = []" "drop (nat n) (rest_of_volume d ?e z) = []"
      using True R assms(6) e(3) by (simp_all add: rest_of_volume_def)
    moreover have "reading_inv fmt base lim N M d v ?z3"
      by (rule reading_inv_cong [OF e(2), where r = "?R - n"]) (use e(2,3) True in \<open>auto simp: reading_inv_def Let_def forget_buffer_def\<close>)
    ultimately show ?thesis using out e(5) by simp
  next
    case False
    let ?z3 = "z2\<lparr>resid := resid z2 - r\<rparr>"
    have len: "?len = n" using False by simp
    have left: "?R - n \<le> int (length (stream d ?e z2))" using l(2) inv(2) len assms(6) by (simp add: of_nat_diff)
    have "stream d ?e z2 \<noteq> []" using left False by auto
    then have "seg_pos (z_pos z2) \<le> ?e" by (rule stream_nonempty)
    then have "reading_inv fmt base lim N M d v ?z3"
      by (intro reading_inv_cong [OF assms(1), where r = "?R - n"]) (use fz ge l(3) left in \<open>simp_all add: forget_buffer_def\<close>)
    moreover have "zft_read E [] z n = Some (?z3, Inr (take (nat ?len) ?xs))" using chk l(1) False by (simp add: zft_read_def)
    moreover have "rest_of_volume d ?e ?z3 = drop (nat n) (rest_of_volume d ?e z)"
      using l(2) fz'(3) len False assms(6) by (simp add: rest_of_volume_def drop_take nat_diff_distrib)
    moreover have "rest_of_volume d ?e ?z3 \<noteq> []" using left False fz'(3) by (auto simp: rest_of_volume_def)
    ultimately show ?thesis using out by simp
  qed
qed


section \<open>The reader's view\<close>

fun read_requests :: "read_env \<Rightarrow> int list \<Rightarrow> zftape_info \<Rightarrow> (zftape_info \<times> bytes list) option" where
  "read_requests E [] z = Some (z, [])"
| "read_requests E (n # ns) z = do {
     (z1, r) \<leftarrow> zft_read E [] z n;
     case r of Inl _ \<Rightarrow> None
     | Inr bs \<Rightarrow> do { (z2, bss) \<leftarrow> read_requests E ns z1; Some (z2, bs # bss) }
   }"

text \<open>The requests that exhaust \<open>l\<close> bytes, the last of them only.\<close>

fun exhausting :: "int list \<Rightarrow> int \<Rightarrow> bool" where
  "exhausting [] l = (l \<le> 0)"
| "exhausting (n # ns) l = (0 < l \<and> exhausting ns (l - n))"

lemma exhausting_max: "exhausting ns l \<Longrightarrow> exhausting ns (max l 0)"
  by (cases ns) (auto simp: max_def)

lemma read_end_of_volume:
  assumes "reading_inv fmt base lim N M d v z" "rest_of_volume d (v_end_seg v) z = []" "just_before_eof z"
    "v_blk_sz v \<noteq> 0" "u32 n mod v_blk_sz v = 0" "0 < n"
  shows "\<exists>z'. zft_read E [] z n = Some (z', Inr []) \<and> io_state z' = zft_idle \<and> seg_pos (z_pos z') = seg_pos (z_pos z) + 1
    \<and> seg_byte_pos (z_pos z') = 0 \<and> volume_pos (z_pos z') = 0 \<and> resid z' = n"
proof -
  have inv: "sizes_known (bsm_rep fmt base lim N) N z M" "v_end_seg v \<le> last_data_segment (z_ftape z)" "0 \<le> seg_pos (z_pos z)" "seg_pos (z_pos z) \<le> v_end_seg v"
    and R: "z_remaining z \<le> 0"
    using assms(1,2) by (force simp: reading_inv_def Let_def rest_of_volume_def)+
  let ?z0 = "z\<lparr>resid := n\<rparr>" let ?z1 = "?z0\<lparr>z_remaining := z_remaining z - n\<rparr>"
  have inv0: "reading_inv fmt base lim N M d v ?z0"
    by (rule reading_inv_cong [OF assms(1)]) (use assms(1) in \<open>auto simp: reading_inv_def Let_def forget_buffer_def\<close>)
  have chk: "check_read_access E ?z0 n = Some (?z1, Inr (Some (z_remaining z, True)))"
    using check_read_access_ok [OF inv0 assms(4,5)] R assms(6) by (simp add: min_def)
  have loop: "read_loop E [] ?z1 (z_remaining z) [] 0 = Some (?z1, Inr ([], 0))" using R by (subst read_loop.simps) simp
  have sk: "sizes_known (bsm_rep fmt base lim N) N ?z1 M" "seg_pos (z_pos ?z1) \<le> last_data_segment (z_ftape ?z1)" "0 \<le> seg_pos (z_pos ?z1)"
    using inv by (simp_all add: sizes_known_def)
  obtain f where "zft_get_seg_sz ?z1 (seg_pos (z_pos z)) = Some (?z1\<lparr>z_ftape := f\<rparr>, seg_size M (raw_image ?z1) (seg_pos (z_pos z)))"
    by (rule pos.get_seg_sz [OF sk(1,3,2)]) simp
  then show ?thesis
    using chk loop assms(3) by (simp add: zft_read_def read_at_eof_def zft_move_past_eof_def zft_release_deblock_buffer_def)
qed

text \<open>A volume of 3500 bytes in two segments.\<close>

definition short_volume :: zft_volinfo where
  "short_volume = blank_vol\<lparr>v_start_seg := 1, v_end_seg := 2, v_size := 3500, v_blk_sz := 1024\<rparr>"

definition open_tape :: zftape_info where
  "open_tape = small_tape\<lparr>io_state := zft_reading, vtbl_vols := [short_volume], vtbl_eom := blank_vol\<lparr>v_start_seg := 3\<rparr>,
     z_volume := Vol 0, z_remaining := 3500\<rparr>"

definition two_segments :: "int \<Rightarrow> bytes" where
  "two_segments s = replicate 2000 (if s = 1 then 1 else 2)"

definition two_segment_env :: read_env where
  "two_segment_env = \<lparr>r_segment = (\<lambda>s. Inr (2000, two_segments s)), r_deblock = None, r_copy_ok = True, r_cmpr = (\<lambda>_ _. Inl EIO),
     r_idle = (\<lambda>z. Some (z, Inr ())), r_abort = (\<lambda>f. f)\<rparr>"

lemma two_segment_list: "[1..2::int] = [1, 2]"
  by (simp add: upto.simps)

lemma open_tape_stream: "stream two_segments 2 open_tape = replicate 2000 1 @ replicate 2000 2"
  by (simp add: stream_def open_tape_def small_tape_def two_segment_list two_segments_def)

lemma open_tape_rest: "rest_of_volume two_segments 2 open_tape = replicate 2000 1 @ replicate 1500 2"
  unfolding rest_of_volume_def open_tape_stream by (simp add: open_tape_def)

lemma open_tape_inv: "reading_inv fmt_normal 2048 2060 3 (\<lambda>_. 0) two_segments short_volume open_tape"
proof -
  have "u32 (- 1) = 2 ^ 32 - 1" by (simp add: u32_def unsigned_minus_1_eq_mask mask_eq_exp_minus_1)
  then have "buffer_ok two_segments 2 open_tape" by (auto simp: buffer_ok_def open_tape_def small_tape_def u32_id)
  moreover have "sizes_known (bsm_rep fmt_normal 2048 2060 3) 3 open_tape (\<lambda>_. 0)" "last_data_segment (z_ftape open_tape) = 2"
    using small_tape_known small_tape_first by (simp_all add: sizes_known_def open_tape_def)
  ultimately show ?thesis using open_tape_stream
    by (simp add: reading_inv_def) (simp add: open_tape_def small_tape_def short_volume_def blank_vol_def vtbl_at_def zft_last_vtbl_def)
qed

lemma short_volume_seg: "v_start_seg short_volume = 1" "v_end_seg short_volume = 2" "v_blk_sz short_volume = 1024"
  by (simp_all add: short_volume_def)

text \<open>
  C2. A reader gets the volume: whatever the sizes of its requests are, as multiples of the block size, the bytes it is handed
  are, in order and without a gap, the data of the volume from the position on, across the segments, the bad sectors and
  the segments without data; the requests in front of the end are filled, and the first request after the
  last byte returns nothing and moves to the next volume.
\<close>

theorem reads_deliver_volume:
  assumes "reading_inv fmt base lim N M d v z" and "segments_readable E d (v_start_seg v) (v_end_seg v)" and "r_copy_ok E"
    and "v_blk_sz v \<noteq> 0" and "\<forall>n\<in>set (ns @ [k]). 0 < n \<and> u32 n mod v_blk_sz v = 0"
    and "rest_of_volume d (v_end_seg v) z = [] \<longrightarrow> just_before_eof z" and "exhausting ns (int (length (rest_of_volume d (v_end_seg v) z)))"
  shows "\<exists>z' bss. read_requests E (ns @ [k]) z = Some (z', bss @ [[]]) \<and> concat bss = rest_of_volume d (v_end_seg v) z
    \<and> (\<forall>i < length bss. length (bss ! i) = nat (ns ! i) \<or> i = length bss - 1) \<and> length bss = length ns
    \<and> io_state z' = zft_idle \<and> seg_byte_pos (z_pos z') = 0 \<and> volume_pos (z_pos z') = 0"
  using assms(1,5-7)
proof (induction ns arbitrary: z)
  case Nil
  then have "rest_of_volume d (v_end_seg v) z = []" "just_before_eof z" by simp_all
  with Nil.prems(1,2) read_end_of_volume [OF Nil.prems(1) _ _ assms(4), of k E] show ?case by auto
next
  case (Cons n ns)
  let ?xs = "rest_of_volume d (v_end_seg v) z"
  have n: "0 < n" "u32 n mod v_blk_sz v = 0" "?xs \<noteq> []" using Cons.prems(2,4) by auto
  obtain z1 where z1: "zft_read E [] z n = Some (z1, Inr (take (nat n) ?xs))" "rest_of_volume d (v_end_seg v) z1 = drop (nat n) ?xs"
      "reading_inv fmt base lim N M d v z1" "rest_of_volume d (v_end_seg v) z1 = [] \<longrightarrow> just_before_eof z1"
    using zft_read_ok [OF Cons.prems(1) assms(2,3,4) n(2,1,3)] by blast
  have ex: "exhausting ns (int (length ?xs) - n)" using Cons.prems(4) by simp
  have "int (length (drop (nat n) ?xs)) = max (int (length ?xs) - n) 0" using n(1) by (auto simp: max_def)
  then have "exhausting ns (int (length (rest_of_volume d (v_end_seg v) z1)))" using exhausting_max [OF ex] z1(2) by simp
  then obtain z' bss where i: "read_requests E (ns @ [k]) z1 = Some (z', bss @ [[]])" "concat bss = drop (nat n) ?xs"
      "\<forall>i < length bss. length (bss ! i) = nat (ns ! i) \<or> i = length bss - 1" "length bss = length ns"
      "io_state z' = zft_idle" "seg_byte_pos (z_pos z') = 0" "volume_pos (z_pos z') = 0"
    using Cons.IH [OF z1(3) _ z1(4)] Cons.prems(2) z1(2) by auto
  have "length (take (nat n) ?xs) = nat n \<or> ns = []" using ex by (cases ns) auto
  then have "\<forall>i < length (take (nat n) ?xs # bss). length ((take (nat n) ?xs # bss) ! i) = nat ((n # ns) ! i) \<or> i = length (take (nat n) ?xs # bss) - 1"
    using i(3,4) by (auto simp: nth_Cons split: nat.splits)
  then show ?case
    using z1(1) i by (intro exI [of _ z'] exI [of _ "take (nat n) ?xs # bss"]) simp
qed


theorem reads_deliver_volume_witness:
  "\<exists>z' bss. read_requests two_segment_env [3072, 1024, 1024] open_tape = Some (z', bss @ [[]])
    \<and> concat bss = replicate 2000 1 @ replicate 1500 2 \<and> length bss = 2 \<and> io_state z' = zft_idle"
proof -
  have "segments_readable two_segment_env two_segments 1 2" by (simp add: segments_readable_def two_segment_env_def two_segments_def)
  then show ?thesis
    using reads_deliver_volume [OF open_tape_inv, of two_segment_env "[3072, 1024]" 1024]
    by (auto simp: short_volume_seg open_tape_rest u32_def two_segment_env_def)
qed

text \<open>
  C38. A request that a signal interrupts shortens the volume: \<open>check_read_access\<close> takes the length of the request off
  \<open>remaining\<close> before anything is read, and the error returns leave it so. When a signal is pending at the start of a
  request for \<open>n\<close> bytes, the request fails with \<open>EINTR\<close> and hands out nothing, the position has not moved, and the last
  \<open>n\<close> bytes of the volume are no longer part of what later requests deliver.
\<close>

theorem interrupted_read_shortens_volume:
  assumes "reading_inv fmt base lim N M d v z" and "v_blk_sz v \<noteq> 0" and "u32 n mod v_blk_sz v = 0" and "0 < n"
    and "rest_of_volume d (v_end_seg v) z \<noteq> []"
  shows "\<exists>z'. zft_read E [True] z n = Some (z', Inl EINTR) \<and> z_pos z' = z_pos z \<and> reading_inv fmt base lim N M d v z'
    \<and> rest_of_volume d (v_end_seg v) z' = take (length (rest_of_volume d (v_end_seg v) z) - nat n) (rest_of_volume d (v_end_seg v) z)"
proof -
  let ?R = "z_remaining z" and ?z0 = "z\<lparr>resid := n\<rparr>"
  have R: "0 < ?R" using assms(5) by (rule_tac ccontr) (simp add: rest_of_volume_def)
  have inv: "buffer_ok d (v_end_seg v) z" "?R \<le> int (length (stream d (v_end_seg v) z))"
    "v_start_seg v \<le> seg_pos (z_pos z)" "seg_pos (z_pos z) \<le> v_end_seg v"
    using assms(1) R by (auto simp: reading_inv_def Let_def)
  have inv0: "reading_inv fmt base lim N M d v ?z0"
    by (rule reading_inv_cong [OF assms(1)]) (use assms(1) in \<open>auto simp: reading_inv_def Let_def forget_buffer_def\<close>)
  let ?z1 = "?z0\<lparr>z_remaining := ?R - n\<rparr>"
  have "zft_read E [True] z n = Some (?z1, Inl EINTR)"
    using check_read_access_ok [OF inv0 assms(2,3)] R assms(4) by (simp add: zft_read_def read_loop.simps)
  moreover have "reading_inv fmt base lim N M d v ?z1"
    by (rule reading_inv_cong [OF assms(1), where r = "?R - n"]) (use inv assms(4) in \<open>simp_all add: forget_buffer_def\<close>)
  moreover have "length (rest_of_volume d (v_end_seg v) z) = nat ?R" using inv(2) by (simp add: rest_of_volume_def)
  ultimately show ?thesis using R assms(4) by (intro exI [of _ ?z1]) (simp add: rest_of_volume_def nat_diff_distrib' min_def)
qed

theorem interrupted_read_shortens_volume_witness:
  "\<exists>z'. zft_read two_segment_env [True] open_tape 1024 = Some (z', Inl EINTR)
    \<and> rest_of_volume two_segments 2 z' = replicate 2000 1 @ replicate 476 2"
  using interrupted_read_shortens_volume [OF open_tape_inv, of 1024 two_segment_env]
  by (auto simp: short_volume_seg open_tape_rest u32_def)

end
