(* ===== verification/Zft_Write.thy ===== *)
theory Zft_Write
  imports Zft_Read Ft_Write
begin

text \<open>
  Writing to the tape device, \<open>src/ftape/zftape/zftape-write.c\<close>: the user's bytes in the deblock buffer, segments that are
  queued, the sectors that hard write errors push out of the ring of buffers, and the flush of what is left.

  The state is the driver's record and the state of the layer below. The record of the drive, which both contain, is
  the one in \<open>z_ftape\<close> between the calls; \<open>deblock_buf\<close> holds the contents of the deblock buffer while the pointer to it
  is set. The header segments, the volume table and the drive are read by the functions of the argument
  \<open>file_env\<close>; memory for the list of sectors is always available.
\<close>

section \<open>Calls of the layer below\<close>

type_synonym zw = "zftape_info \<times> write_state"

record file_env =
  f_write :: write_env
  f_read :: read_env
  f_read_header :: "zftape_info \<Rightarrow> (zftape_info \<times> unit result) option"
  f_read_table :: "zftape_info \<Rightarrow> (zftape_info \<times> unit result) option"

definition below :: "(write_state \<Rightarrow> (write_state \<times> 'a) option) \<Rightarrow> zw \<Rightarrow> (zw \<times> 'a) option" where
  "below g = (\<lambda>(z, s). do { (s1, r) \<leftarrow> g (set_ft (z_ftape z) s); Some ((z\<lparr>z_ftape := w_ft s1\<rparr>, s1), r) })"

text \<open>The deblock buffer of the layer below, and what a call leaves of the caller's pointer.\<close>

definition give_deblock :: "zw \<Rightarrow> write_state" where
  "give_deblock = (\<lambda>(z, s). case deblock_buf z of None \<Rightarrow> s\<lparr>w_held := False\<rparr>
     | Some m \<Rightarrow> s\<lparr>w_deblock := (fst (w_deblock s), m), w_held := True\<rparr>)"

definition take_deblock :: "zw \<Rightarrow> zftape_info" where
  "take_deblock = (\<lambda>(z, s). z\<lparr>deblock_buf := (if w_held s then Some (snd (w_deblock s)) else None)\<rparr>)"

definition fdc_get_deblock_buffer :: "zw \<Rightarrow> zw" where
  "fdc_get_deblock_buffer = (\<lambda>(z, s). (z\<lparr>deblock_buf := Some (snd (w_deblock s))\<rparr>, s\<lparr>w_held := True\<rparr>))"

text \<open>What is written through the pointer, in the layer below.\<close>

definition store_deblock :: "zw \<Rightarrow> zw" where
  "store_deblock = (\<lambda>(z, s). (z, case deblock_buf z of None \<Rightarrow> s | Some m \<Rightarrow> s\<lparr>w_deblock := (fst (w_deblock s), m)\<rparr>))"

definition hard_error_pending :: "write_state \<Rightarrow> bool" where
  "hard_error_pending s \<longleftrightarrow> b_status (w_buf s (w_head s)) = buf_error \<and> b_hard_error_map (w_buf s (w_head s)) \<noteq> 0"

section \<open>Hard write errors\<close>

text \<open>
  \<open>list_add\<close> at \<open>hard_errors.prev\<close> appends to the list; \<open>empty_hard_error_list\<close> takes the sectors from its front into
  the deblock buffer.
\<close>

definition push_hard_error :: "bytes \<Rightarrow> zftape_info \<Rightarrow> zftape_info" where
  "push_hard_error sector z = z\<lparr>hard_errors := hard_errors z @ [sector], hard_error_cnt := hard_error_cnt z + 1\<rparr>"

fun drain_hard_errors ::
  "bytes list \<Rightarrow> zftape_info \<Rightarrow> bytes \<Rightarrow> int \<Rightarrow> zft_position \<Rightarrow> zftape_info \<times> bytes \<times> zft_position \<times> unit result" where
  "drain_hard_errors [] z dst seg_sz pos = (z, dst, pos, Inr ())"
| "drain_hard_errors (h # hs) z dst seg_sz pos =
    (let space_left = seg_sz - seg_byte_pos pos
     in if space_left mod int FT_SECTOR_SIZE \<noteq> 0 then (z, dst, pos, Inl EIO)
        else if space_left < int FT_SECTOR_SIZE then (z, dst, pos, Inr ())
        else if tape_pos pos + int FT_SECTOR_SIZE > capacity z then (zft_zap_write_buffers z, dst, pos, Inl ENOSPC)
        else drain_hard_errors hs (z\<lparr>hard_errors := hs, hard_error_cnt := hard_error_cnt z - 1\<rparr>)
               (blit dst (nat (seg_byte_pos pos)) h) seg_sz (pos\<lparr>seg_byte_pos := seg_byte_pos pos + int FT_SECTOR_SIZE\<rparr>))"

definition empty_hard_error_list :: "zftape_info \<Rightarrow> bytes \<Rightarrow> int \<Rightarrow> zft_position \<Rightarrow> zftape_info \<times> bytes \<times> zft_position \<times> unit result" where
  "empty_hard_error_list z = drain_hard_errors (hard_errors z) z"

text \<open>
  After a hard error the deblock buffer takes the sector that the ring gave up and gives up its own last one.
\<close>

definition shift_deblock :: "bytes \<Rightarrow> int \<Rightarrow> bytes \<Rightarrow> zftape_info \<Rightarrow> zftape_info" where
  "shift_deblock backup seg_sz sector z =
    (case deblock_buf z of None \<Rightarrow> z
     | Some m \<Rightarrow>
         if seg_sz > 0 then
           push_hard_error (bytes_at backup (nat seg_sz - FT_SECTOR_SIZE) FT_SECTOR_SIZE)
             (z\<lparr>deblock_buf := Some (blit (blit m 0 sector) FT_SECTOR_SIZE (take (nat seg_sz - FT_SECTOR_SIZE) backup))\<rparr>)
         else push_hard_error sector z)"

definition recover_write :: "'l::len itself \<Rightarrow> int \<Rightarrow> zw \<Rightarrow> (zw \<times> unit result) option" where
  "recover_write t seg_sz = (\<lambda>(z, s). do {
     m \<leftarrow> deblock_buf z;
     let backup = take (nat seg_sz) m;
     ((z1, s1), r) \<leftarrow> below (ftape_hard_error_recovery t) (z, s);
     Some (case r of Inl e \<Rightarrow> ((z1, s1), Inl e)
       | Inr sector \<Rightarrow>
           (case fdc_get_deblock_buffer (z1\<lparr>capacity := capacity z1 - int FT_SECTOR_SIZE\<rparr>, s1) of
              (z2, s2) \<Rightarrow> ((shift_deblock backup seg_sz sector z2, s2), Inr ())))
   })"

partial_function (option) zftape_write_segment :: "'l::len itself \<Rightarrow> file_env \<Rightarrow> int \<Rightarrow> int \<Rightarrow> zw \<Rightarrow> (zw \<times> int result) option" where
  "zftape_write_segment t F segment seg_sz st =
    Option.bind (below (ftape_write_segment t (f_write F) segment FT_WR_ASYNC) (fst st, give_deblock st)) (\<lambda>(st1, r).
      let z1 = take_deblock st1
      in case r of
           Inr n \<Rightarrow> Some ((z1\<lparr>written_segments := written_segments z1 + 1\<rparr>, snd st1), Inr n)
         | Inl e \<Rightarrow>
             if e \<noteq> EIO \<or> \<not> hard_error_pending (snd st1) then Some ((z1, snd st1), Inl e)
             else Option.bind (recover_write t seg_sz (z1, snd st1)) (\<lambda>(st2, r2).
               case r2 of Inl _ \<Rightarrow> Some (st2, Inl e) | Inr _ \<Rightarrow> zftape_write_segment t F segment seg_sz st2))"

definition zftape_loop_until_writes_done :: "'l::len itself \<Rightarrow> file_env \<Rightarrow> zw \<Rightarrow> (zw \<times> unit result) option" where
  "zftape_loop_until_writes_done t F st = do {
     (st1, r) \<leftarrow> below (ftape_loop_until_writes_done (f_write F)) st;
     case r of
       Inr _ \<Rightarrow> Some (st1, Inr ())
     | Inl e \<Rightarrow>
         if e \<noteq> EIO \<or> \<not> hard_error_pending (snd st1) then Some (st1, Inl e)
         else do {
           ((z2, s2), r2) \<leftarrow> below (ftape_hard_error_recovery t) st1;
           Some (case r2 of Inl _ \<Rightarrow> ((z2, s2), Inl EIO)
             | Inr sector \<Rightarrow> ((push_hard_error sector (z2\<lparr>capacity := capacity z2 - int FT_SECTOR_SIZE\<rparr>), s2), Inr ()))
         }
   }"

section \<open>Flushing\<close>

text \<open>
  \<open>flush_handle_hard_errors\<close>: \<open>Inl EAGAIN\<close> asks for another segment, \<open>Inr\<close> goes on with the loop until the writes are done.
  The position is the driver's own; \<open>pad_cnt\<close> is passed and returned.
\<close>

definition flush_handle_hard_errors :: "int \<Rightarrow> int \<Rightarrow> zw \<Rightarrow> (zw \<times> int \<times> unit result) option" where
  "flush_handle_hard_errors pad_cnt old_seg_size = (\<lambda>(z, s). do {
     (z1, size) \<leftarrow> zft_get_seg_sz z (seg_pos (z_pos z));
     let pos = z_pos z1;
     let space_left = size - seg_byte_pos pos - hard_error_cnt z1 * int FT_SECTOR_SIZE;
     if space_left \<ge> - pad_cnt then
       let pos1 = pos\<lparr>seg_byte_pos := seg_byte_pos pos + (hard_error_cnt z1 * int FT_SECTOR_SIZE - (old_seg_size - size))\<rparr>
       in Some ((zft_zap_write_buffers (z1\<lparr>z_pos := pos1\<rparr>), s), size - seg_byte_pos pos1, Inr ())
     else do {
       let (z2, s2) = fdc_get_deblock_buffer (z1, s);
       let pos1 = pos\<lparr>seg_pos := seg_pos pos + 1, seg_byte_pos := 0\<rparr>;
       (z3, size') \<leftarrow> zft_get_seg_sz (z2\<lparr>z_pos := pos1\<rparr>) (seg_pos pos1);
       m \<leftarrow> deblock_buf z3;
       let (z4, m1, pos2, _) = empty_hard_error_list z3 m size' pos1;
       Some (store_deblock (z4\<lparr>deblock_buf := Some m1, z_pos := pos2\<rparr>, s2), pad_cnt, Inl EAGAIN)
     }
   })"

text \<open>
  How a part of \<open>zft_flush_buffers\<close> ends: everything is written, another segment is to be written, a jump to \<open>error_out\<close>,
  or a return that leaves the state as it is.
\<close>

datatype flush_outcome = Flushed | Another_segment | Error_out errno | Leave errno

partial_function (option) flush_writes :: "'l::len itself \<Rightarrow> file_env \<Rightarrow> int \<Rightarrow> int \<Rightarrow> zw \<Rightarrow> (zw \<times> int \<times> flush_outcome) option" where
  "flush_writes t F old_seg_size pad_cnt st =
    Option.bind (zftape_loop_until_writes_done t F st) (\<lambda>(st1, r).
      case r of Inl e \<Rightarrow> Some (st1, pad_cnt, Error_out e)
      | Inr _ \<Rightarrow>
          if hard_error_cnt (fst st1) = 0 then Some (st1, pad_cnt, Flushed)
          else Option.bind (flush_handle_hard_errors pad_cnt old_seg_size st1) (\<lambda>(st2, pad_cnt', r2).
            if e_signal (f_write F) (snd st2) then Some (st2, pad_cnt', Leave EINTR)
            else if r2 = Inl EAGAIN then Some (st2, pad_cnt', Another_segment)
            else flush_writes t F old_seg_size pad_cnt' st2))"

text \<open>The rest of the segment is padded with zeros; \<open>None\<close> for a position behind its end.\<close>

definition pad_segment :: "int \<Rightarrow> int \<Rightarrow> bytes \<Rightarrow> bytes option" where
  "pad_segment from seg_sz m = (if from > seg_sz then None else Some (blit m (nat from) (replicate (nat (seg_sz - from)) 0)))"

definition flush_segment :: "'l::len itself \<Rightarrow> file_env \<Rightarrow> int \<Rightarrow> zw \<Rightarrow> (zw \<times> flush_outcome option) option" where
  "flush_segment t F seg_sz = (\<lambda>(z, s).
    let p = z_pos z
    in if seg_byte_pos p \<le> 0 then Some ((z, s), None)
       else (case deblock_buf z of
           None \<Rightarrow> Some ((z, s), Some (Leave EIO))
         | Some m \<Rightarrow> do {
             m1 \<leftarrow> pad_segment (seg_byte_pos p) seg_sz m;
             (st2, r) \<leftarrow> zftape_write_segment t F (seg_pos p) seg_sz (z\<lparr>deblock_buf := Some m1\<rparr>, s);
             Some (st2, case r of Inl e \<Rightarrow> Some (Error_out e) | Inr _ \<Rightarrow> None)
           }))"

partial_function (option) flush_loop :: "'l::len itself \<Rightarrow> file_env \<Rightarrow> int \<Rightarrow> zw \<Rightarrow> (zw \<times> flush_outcome) option" where
  "flush_loop t F pad_cnt st =
    Option.bind (zft_get_seg_sz (fst st) (seg_pos (z_pos (fst st)))) (\<lambda>(z1, size).
      let p = z_pos z1;
          p1 = (if seg_byte_pos p \<noteq> size then p\<lparr>seg_byte_pos := seg_byte_pos p - pad_cnt\<rparr> else p);
          pad = (if seg_byte_pos p \<noteq> size then size - seg_byte_pos p1 else pad_cnt)
      in Option.bind (flush_segment t F size (z1\<lparr>z_pos := p1\<rparr>, snd st)) (\<lambda>(st2, r2).
           case r2 of Some out \<Rightarrow> Some (st2, out)
           | None \<Rightarrow> Option.bind (flush_writes t F size pad st2) (\<lambda>(st3, pad', r3).
               if r3 \<noteq> Another_segment then Some (st3, r3)
               else if e_signal (f_write F) (snd st3) then Some (st3, Leave EINTR)
               else flush_loop t F pad' st3)))"

definition flush_done :: "zftape_info \<Rightarrow> zftape_info option" where
  "flush_done z = do {
     z1 \<leftarrow> (if seg_byte_pos (z_pos z) = 0 then do {
         (z1, size) \<leftarrow> zft_get_seg_sz z (seg_pos (z_pos z) - 1);
         Some (z1\<lparr>z_pos := (z_pos z1)\<lparr>seg_pos := seg_pos (z_pos z1) - 1, seg_byte_pos := size\<rparr>\<rparr>)
       } else Some z);
     Some (z1\<lparr>last_write_failed := False, need_flush := False\<rparr>)
   }"

definition flush_failed :: "zftape_info \<Rightarrow> zftape_info" where
  "flush_failed z = z\<lparr>z_pos := (z_pos z)\<lparr>tape_pos := tape_pos (z_pos z) - seg_byte_pos (z_pos z), seg_byte_pos := 0\<rparr>, last_write_failed := True\<rparr>"

definition abort_below :: "file_env \<Rightarrow> zw \<Rightarrow> (zw \<times> unit result) option" where
  "abort_below F = below (\<lambda>s. Some (ftape_abort_operation (f_write F) s))"

definition zft_flush_buffers :: "'l::len itself \<Rightarrow> file_env \<Rightarrow> zw \<Rightarrow> (zw \<times> unit result) option" where
  "zft_flush_buffers t F = (\<lambda>(z, s).
    if driver_state (z_ftape z) \<noteq> writing \<and> \<not> need_flush z then Some ((z, s), Inr ())
    else let z0 = z\<lparr>io_state := zft_idle\<rparr>
      in if last_write_failed z0 then do {
           (st1, _) \<leftarrow> abort_below F (z0, s);
           Some (st1, Inl EIO)
         }
         else do {
           ((z1, s1), out) \<leftarrow> flush_loop t F 0 (z0, s);
           case out of
             Error_out e \<Rightarrow> Some ((flush_failed z1, s1), Inl e)
           | Leave e \<Rightarrow> Some ((z1, s1), Inl e)
           | _ \<Rightarrow> do { z2 \<leftarrow> flush_done z1; Some ((z2, s1), Inr ()) }
         })"

section \<open>Writing\<close>

text \<open>\<open>zft_check_write_access\<close> of \<open>src/ftape/zftape/zftape-ctl.c\<close>: in QIC mode data are appended at the start or the end of the recorded data.\<close>

definition zft_check_write_access :: "file_env \<Rightarrow> zftape_info \<Rightarrow> (zftape_info \<times> unit result) option" where
  "zft_check_write_access F z =
    (if offline z then Some (z, Inl ENXIO)
     else if \<not> formatted (z_ftape z) then Some (z, Inl EACCES)
     else if write_protected z then Some (z, Inl EACCES)
     else if \<not> qic_mode z then Some (z, Inr ())
     else do {
       (z1, r1) \<leftarrow> (if header_read z then Some (z, Inr ()) else f_read_header F z);
       case r1 of Inl e \<Rightarrow> Some (z1, Inl e)
       | Inr _ \<Rightarrow> do {
           (z2, r2) \<leftarrow> (if vtbl_read z1 then Some (z1, Inr ())
             else do {
               (z2, r2) \<leftarrow> f_read_table F z1;
               case r2 of Inl e \<Rightarrow> Some (z2, Inl e)
               | Inr _ \<Rightarrow> do { (z3, p) \<leftarrow> zft_reset_position z2 (z_pos z2); Some (z3\<lparr>z_pos := p\<rparr>, Inr ()) }
             });
           case r2 of Inl e \<Rightarrow> Some (z2, Inl e)
           | Inr _ \<Rightarrow>
               Some (z2, if zft_tape_at_lbot z2 (z_pos z2) then Inr ()
                 else if zft_vtbl_soft_ro z2 \<or> \<not> zft_tape_at_eod z2 (z_pos z2) then Inl EACCES else Inr ())
         }
     })"

text \<open>Outside QIC mode the rest of the segment at the position is kept.\<close>

definition merge_old_segment :: "file_env \<Rightarrow> zftape_info \<Rightarrow> (zftape_info \<times> unit result) option" where
  "merge_old_segment F z =
    (if qic_mode z \<or> seg_byte_pos (z_pos z) = 0 then Some (z, Inr ())
     else do {
       (z1, r) \<leftarrow> zft_fetch_segment (f_read F) z (seg_pos (z_pos z));
       case r of
         Inr _ \<Rightarrow> Some (z1, Inr ())
       | Inl e \<Rightarrow>
           if e = EINTR \<or> e = ENOSPC then Some (z1, Inl e)
           else do {
             m \<leftarrow> deblock_buf z1;
             Some (z1\<lparr>deblock_buf := Some (blit m 0 (replicate (nat (seg_byte_pos (z_pos z1))) 0))\<rparr>, Inr ())
           }
     })"

text \<open>\<open>None\<close> also for a block size of 0.\<close>

definition check_write_access :: "file_env \<Rightarrow> int \<Rightarrow> zftape_info \<Rightarrow> (zftape_info \<times> unit result) option" where
  "check_write_access F req_len z =
    (if z_blk_sz z = 0 then None
     else if u32 req_len mod u32 (z_blk_sz z) \<noteq> 0 then Some (z, Inl EINVAL)
     else if io_state z = zft_writing then Some (z, Inr ())
     else do {
       (z1, r1) \<leftarrow> zft_check_write_access F (z\<lparr>io_state := zft_idle\<rparr>);
       case r1 of Inl e \<Rightarrow> Some (z1, Inl e)
       | Inr _ \<Rightarrow> do {
           (z2, p2, r2) \<leftarrow> zft_open_volume z1 (z_pos z1) (z_blk_sz z);
           case r2 of Inl e \<Rightarrow> Some (z2\<lparr>z_pos := p2\<rparr>, Inl e)
           | Inr _ \<Rightarrow> do {
               (z3, v) \<leftarrow> zft_volume_by_segpos (z2\<lparr>z_pos := p2\<rparr>) (u32 (seg_pos p2));
               (z4, r4) \<leftarrow> merge_old_segment F (z3\<lparr>z_volume := v, just_before_eof := False\<rparr>);
               Some (case r4 of Inl e \<Rightarrow> (z4, Inl e) | Inr _ \<Rightarrow> (z4\<lparr>deblock_segment := -1, io_state := zft_writing\<rparr>, Inr ()))
             }
         }
     })"

text \<open>\<open>Inr\<close> the number of bytes taken from the user.\<close>

definition fill_deblock_buf :: "file_env \<Rightarrow> int \<Rightarrow> zft_volinfo \<Rightarrow> bytes \<Rightarrow> zftape_info \<Rightarrow> (zftape_info \<times> int result) option" where
  "fill_deblock_buf F seg_sz v usr z =
    (if seg_sz = 0 then Some (z, Inr 0)
     else do {
       m \<leftarrow> deblock_buf z;
       let (z1, m1, pos, r) = empty_hard_error_list z m seg_sz (z_pos z);
       let z2 = z1\<lparr>deblock_buf := Some m1, z_pos := pos\<rparr>;
       case r of Inl e \<Rightarrow> Some (z2, Inl e)
       | Inr _ \<Rightarrow>
           if tape_pos pos + v_blk_sz v > capacity z2 then Some (z2, Inl ENOSPC)
           else
             let space_left = seg_sz - seg_byte_pos pos;
                 cnt = (if int (length usr) < space_left then int (length usr) else space_left)
             in if \<not> r_copy_ok (f_read F) then Some (z2, Inl EFAULT)
                else Some (z2\<lparr>deblock_buf := Some (blit m1 (nat (seg_byte_pos pos)) (take (nat cnt) usr)),
                   z_pos := pos\<lparr>volume_pos := volume_pos pos + cnt, seg_byte_pos := seg_byte_pos pos + cnt, tape_pos := tape_pos pos + cnt\<rparr>\<rparr>, Inr cnt)
     })"

text \<open>
  The loop of \<open>_zft_write\<close>. The number of bytes written so far is \<open>written\<close>; a segment is queued when it is full. The
  errors of \<open>fill_deblock_buf\<close> other than a full tape are reported as the variable \<open>result\<close>, which is 0.
\<close>

definition full_tape :: "int \<Rightarrow> zftape_info \<Rightarrow> zftape_info \<times> int result" where
  "full_tape written z =
    (z\<lparr>last_write_failed := False, need_flush := need_flush z \<or> written > 0\<rparr>, if written > 0 then Inr written else Inl ENOSPC)"

definition uncount :: "int \<Rightarrow> zftape_info \<Rightarrow> zftape_info" where
  "uncount written z = z\<lparr>resid := resid z - written\<rparr>"

definition queue_full_segment :: "'l::len itself \<Rightarrow> file_env \<Rightarrow> int \<Rightarrow> zw \<Rightarrow> (zw \<times> unit result) option" where
  "queue_full_segment t F seg_sz = (\<lambda>(z, s).
    if seg_byte_pos (z_pos z) \<noteq> seg_sz then Some ((z, s), Inr ())
    else do {
      ((z1, s1), r) \<leftarrow> zftape_write_segment t F (seg_pos (z_pos z)) seg_sz (z, s);
      Some (case r of Inl e \<Rightarrow> ((z1, s1), Inl e)
        | Inr _ \<Rightarrow> ((z1\<lparr>z_pos := (z_pos z1)\<lparr>seg_byte_pos := 0, seg_pos := seg_pos (z_pos z1) + 1\<rparr>\<rparr>, s1), Inr ()))
    })"

text \<open>A turn of the loop up to the segment that is full: the bytes taken from the user, or the result.\<close>

definition write_turn :: "'l::len itself \<Rightarrow> file_env \<Rightarrow> bytes \<Rightarrow> int \<Rightarrow> zw \<Rightarrow> (zw \<times> (int result, int) sum) option" where
  "write_turn t F usr written = (\<lambda>(z, s). do {
     let z0 = (if seg_pos (z_pos z) = first_data_segment (z_ftape z) then z\<lparr>vtbl_read := False\<rparr> else z);
     (z1, seg_sz) \<leftarrow> zft_get_seg_sz z0 (seg_pos (z_pos z0));
     let (z2, s1) = fdc_get_deblock_buffer (z1, s);
     v \<leftarrow> vtbl_at z2 (z_volume z2);
     (z2', r3) \<leftarrow> fill_deblock_buf F seg_sz v usr z2;
     let (z3, s2) = store_deblock (z2', s1);
     case r3 of
       Inl e \<Rightarrow>
         let z4 = uncount written z3
         in if e = ENOSPC then (case full_tape written z4 of (z5, r) \<Rightarrow> Some ((z5, s2), Inl r)) else Some ((z4, s2), Inl (Inr 0))
     | Inr cnt \<Rightarrow>
         if e_signal (f_write F) s2 then Some ((z3, s2), Inl (Inl EINTR))
         else do {
           ((z4, s4), r4) \<leftarrow> queue_full_segment t F seg_sz (z3, s2);
           Some (case r4 of Inl e \<Rightarrow> ((uncount written z4, s4), Inl (Inl e)) | Inr _ \<Rightarrow> ((z4, s4), Inr cnt))
         }
   })"

partial_function (option) write_loop :: "'l::len itself \<Rightarrow> file_env \<Rightarrow> bytes \<Rightarrow> int \<Rightarrow> zw \<Rightarrow> (zw \<times> int result) option" where
  "write_loop t F usr written st =
    (if usr = [] \<and> hard_errors (fst st) = [] then
       Some ((uncount written ((fst st)\<lparr>last_write_failed := False, need_flush := need_flush (fst st) \<or> written > 0\<rparr>), snd st), Inr written)
     else Option.bind (write_turn t F usr written st) (\<lambda>(st1, r).
       case r of Inl out \<Rightarrow> Some (st1, out)
       | Inr cnt \<Rightarrow> write_loop t F (drop (nat cnt) usr) (written + cnt) st1))"

definition zft_write :: "'l::len itself \<Rightarrow> file_env \<Rightarrow> bytes \<Rightarrow> zw \<Rightarrow> (zw \<times> int result) option" where
  "zft_write t F usr = (\<lambda>(z, s). do {
     let n = int (length usr);
     (z1, r) \<leftarrow> check_write_access F n (z\<lparr>resid := n, last_write_failed := True\<rparr>);
     case r of Inl e \<Rightarrow> Some ((z1, s), Inl e)
     | Inr _ \<Rightarrow> write_loop t F usr 0 (store_deblock (z1, s))
   })"


section \<open>The order of the data after hard errors\<close>

lemma shift_deblock_ok:
  assumes "length md = 32768" "length m = 32768" "length sector = FT_SECTOR_SIZE" "seg_sz = int ((k + 1) * FT_SECTOR_SIZE)" "seg_sz \<le> int FT_SEGMENT_SIZE"
    "deblock_buf z = Some md"
  shows "\<exists>m' l. shift_deblock (take (nat seg_sz) m) seg_sz sector z = push_hard_error l (z\<lparr>deblock_buf := Some m'\<rparr>)
    \<and> length l = FT_SECTOR_SIZE \<and> length m' = 32768 \<and> take (nat seg_sz) m' @ l = sector @ take (nat seg_sz) m"
proof -
  let ?b = "take (nat seg_sz) m" and ?k = "k * FT_SECTOR_SIZE"
  have sz: "nat seg_sz = ?k + FT_SECTOR_SIZE" "?k + FT_SECTOR_SIZE \<le> FT_SEGMENT_SIZE" "0 < seg_sz" using assms(4,5) by simp_all
  let ?m = "blit (blit md 0 sector) FT_SECTOR_SIZE (take ?k ?b)" and ?l = "bytes_at ?b ?k FT_SECTOR_SIZE"
  have "?m = sector @ take ?k m @ drop (FT_SECTOR_SIZE + ?k) md"
    using assms(1-3) sz by (simp add: blit_def min_def add.commute)
  then have "length ?m = 32768" "take (nat seg_sz) ?m = sector @ take ?k m" using assms(1-3) sz by simp_all
  moreover have "take ?k m @ ?l = ?b" "length ?l = FT_SECTOR_SIZE" using assms(2) sz by (simp_all add: bytes_at_def take_add drop_take)
  moreover have "shift_deblock ?b seg_sz sector z = push_hard_error ?l (z\<lparr>deblock_buf := Some ?m\<rparr>)"
    using sz assms(6) by (simp add: shift_deblock_def)
  ultimately show ?thesis by (intro exI [of _ ?m] exI [of _ ?l]) simp
qed

lemma recover_write_ok:
  assumes "long_ok TYPE('l::len)" "failing_ring fmt base lim N M n seg hard run (set_ft (z_ftape z) s)" "deblock_buf z = Some m" "length m = 32768"
    "seg_sz = int ((k + 1) * FT_SECTOR_SIZE)" "seg_sz \<le> int FT_SEGMENT_SIZE"
  shows "\<exists>z' s' m' l. recover_write TYPE('l) seg_sz (z, s) = Some ((z', s'), Inr ()) \<and> deblock_buf z' = Some m' \<and> length l = FT_SECTOR_SIZE
    \<and> length m' = 32768 \<and> hard_errors z' = hard_errors z @ [l] \<and> hard_error_cnt z' = hard_error_cnt z + 1 \<and> capacity z' = capacity z - 1024
    \<and> pending s' (M(seg := M seg OR hard)) run @ take (nat seg_sz) m' @ l = pending s M run @ take (nat seg_sz) m
    \<and> bsm_rep fmt base lim N (z_ftape z') (M(seg := M seg OR hard)) \<and> (\<forall>i\<in>set run. b_status (w_buf s' i) = waiting)"
proof -
  let ?s = "set_ft (z_ftape z) s" and ?M = "M(seg := M seg OR hard)"
  obtain s1 sector where r: "ftape_hard_error_recovery TYPE('l) ?s = Some (s1, Inr sector)" "length sector = FT_SECTOR_SIZE"
      "pending s1 ?M run @ sector = pending ?s M run" "bsm_rep fmt base lim N (w_ft s1) ?M" "ring_mem_ok n s1"
      "\<forall>i\<in>set run. b_status (w_buf s1 i) = waiting"
    using failing_ring_recovery [OF assms(1,2)] by blast
  let ?z2 = "z\<lparr>z_ftape := w_ft s1, capacity := capacity z - 1024, deblock_buf := Some (snd (w_deblock s1))\<rparr>" and ?s2 = "s1\<lparr>w_held := True\<rparr>"
  have "length (snd (w_deblock s1)) = 32768" using r(5) by (simp add: ring_mem_ok_def)
  then obtain m' l where sh: "shift_deblock (take (nat seg_sz) m) seg_sz sector ?z2 = push_hard_error l (?z2\<lparr>deblock_buf := Some m'\<rparr>)"
      "length l = FT_SECTOR_SIZE" "length m' = 32768" "take (nat seg_sz) m' @ l = sector @ take (nat seg_sz) m"
    using shift_deblock_ok [OF _ assms(4) r(2) assms(5,6), of "snd (w_deblock s1)" ?z2] by auto
  let ?z' = "push_hard_error l (?z2\<lparr>deblock_buf := Some m'\<rparr>)"
  have run: "recover_write TYPE('l) seg_sz (z, s) = Some ((?z', ?s2), Inr ())"
    using r(1) sh(1) assms(3) by (simp add: recover_write_def below_def fdc_get_deblock_buffer_def Let_def)
  have "pending ?s2 ?M run = pending s1 ?M run" by (intro pending_cong) (simp add: w_buf_def)
  moreover have "pending ?s M run = pending s M run" by (intro pending_cong) simp
  ultimately have "pending ?s2 ?M run @ take (nat seg_sz) m' @ l = pending s M run @ take (nat seg_sz) m"
    using r(3) unfolding sh(4) by (metis append.assoc)
  then show ?thesis using run sh(2,3) r(4,6)
    by (intro exI [of _ ?z'] exI [of _ ?s2] exI [of _ m'] exI [of _ l]) (simp add: push_hard_error_def w_buf_def)
qed


text \<open>
  C15. One hard write error loses nothing: when no pushed-out sector is on the list yet, the recovery of
  \<open>zftape_write_segment\<close> leaves the data that are still to be written as they were, in the ring, the deblock buffer and the
  list of pushed-out sectors taken together in this order; the failing sector is marked as bad, all the
  buffers wait to be written again and the capacity is one sector less.
\<close>

theorem hard_error_keeps_stream:
  assumes "long_ok TYPE('l::len)" and "failing_ring fmt base lim N M n seg hard run (set_ft (z_ftape z) s)" and "deblock_buf z = Some m" and "length m = 32768"
    and "seg_sz = int ((k + 1) * FT_SECTOR_SIZE)" and "seg_sz \<le> int FT_SEGMENT_SIZE" and "hard_errors z = []"
  shows "\<exists>z' s' m'. recover_write TYPE('l) seg_sz (z, s) = Some ((z', s'), Inr ()) \<and> deblock_buf z' = Some m'
    \<and> pending s' (M(seg := M seg OR hard)) run @ take (nat seg_sz) m' @ concat (hard_errors z')
      = pending s M run @ take (nat seg_sz) m @ concat (hard_errors z)
    \<and> length (hard_errors z') = 1 \<and> hard_error_cnt z' = hard_error_cnt z + 1 \<and> capacity z' = capacity z - 1024
    \<and> bsm_rep fmt base lim N (z_ftape z') (M(seg := M seg OR hard)) \<and> (\<forall>i\<in>set run. b_status (w_buf s' i) = waiting)"
proof -
  obtain z' s' m' l where "recover_write TYPE('l) seg_sz (z, s) = Some ((z', s'), Inr ())" "deblock_buf z' = Some m'"
      "hard_errors z' = hard_errors z @ [l]" "hard_error_cnt z' = hard_error_cnt z + 1" "capacity z' = capacity z - 1024"
      "pending s' (M(seg := M seg OR hard)) run @ take (nat seg_sz) m' @ l = pending s M run @ take (nat seg_sz) m"
      "bsm_rep fmt base lim N (z_ftape z') (M(seg := M seg OR hard))" "\<forall>i\<in>set run. b_status (w_buf s' i) = waiting"
    using recover_write_ok [OF assms(1-6)] by blast
  then show ?thesis using assms(7) by (intro exI [of _ z'] exI [of _ s'] exI [of _ m']) simp
qed

text \<open>A driver whose ring of three buffers has failed in one sector of segment 5.\<close>

definition failed_tape :: "bytes list \<Rightarrow> zftape_info" where
  "failed_tape errors = small_tape\<lparr>z_ftape := w_ft failed_write, deblock_buf := Some (replicate 32768 4), hard_errors := errors,
     hard_error_cnt := int (length errors)\<rparr>"

lemma failed_tape_ring: "failing_ring fmt_normal 2048 29696 100 (\<lambda>_. 0) 3 5 8 [0, 1] (set_ft (z_ftape (failed_tape errors)) failed_write)"
  using failed_write_ring by (simp add: failed_tape_def set_ft_same)

lemma failed_tape_fields: "deblock_buf (failed_tape e) = Some (replicate 32768 4)" "hard_errors (failed_tape e) = e"
  by (simp_all add: failed_tape_def)

theorem hard_error_keeps_stream_witness:
  "\<exists>z' s' m'. recover_write TYPE(32) 29696 (failed_tape [], failed_write) = Some ((z', s'), Inr ()) \<and> deblock_buf z' = Some m'
    \<and> pending s' ((\<lambda>_. 0)(5 := 8)) [0, 1] @ take 29696 m' @ concat (hard_errors z')
      = pending failed_write (\<lambda>_. 0) [0, 1] @ replicate 29696 4"
  using hard_error_keeps_stream [OF _ failed_tape_ring failed_tape_fields(1), where 'l = 32 and k = 28 and seg_sz = 29696] failed_tape_fields(2)
  by (auto simp: min_def)

text \<open>
  C37. A second hard write error puts the data in the wrong order: with one sector \<open>d\<close> already on the list, the sector \<open>l\<close>
  that the next recovery pushes out belongs in front of it, but it is appended behind it. The list is
  written from its front, so that the data on the tape differ from the user's unless the two sectors are equal.
\<close>

theorem second_hard_error_swaps:
  assumes "long_ok TYPE('l::len)" and "failing_ring fmt base lim N M n seg hard run (set_ft (z_ftape z) s)" and "deblock_buf z = Some m" and "length m = 32768"
    and "seg_sz = int ((k + 1) * FT_SECTOR_SIZE)" and "seg_sz \<le> int FT_SEGMENT_SIZE" and "hard_errors z = [d]" and "length d = FT_SECTOR_SIZE"
  shows "\<exists>z' s' m' l. recover_write TYPE('l) seg_sz (z, s) = Some ((z', s'), Inr ()) \<and> deblock_buf z' = Some m' \<and> hard_errors z' = [d, l]
    \<and> pending s' (M(seg := M seg OR hard)) run @ take (nat seg_sz) m' @ l @ d = pending s M run @ take (nat seg_sz) m @ concat (hard_errors z)
    \<and> (l \<noteq> d \<longrightarrow> pending s' (M(seg := M seg OR hard)) run @ take (nat seg_sz) m' @ concat (hard_errors z')
        \<noteq> pending s M run @ take (nat seg_sz) m @ concat (hard_errors z))"
proof -
  obtain z' s' m' l where r: "recover_write TYPE('l) seg_sz (z, s) = Some ((z', s'), Inr ())" "deblock_buf z' = Some m'" "length l = FT_SECTOR_SIZE"
      "hard_errors z' = hard_errors z @ [l]" "pending s' (M(seg := M seg OR hard)) run @ take (nat seg_sz) m' @ l = pending s M run @ take (nat seg_sz) m"
    using recover_write_ok [OF assms(1-6)] by blast
  let ?p = "pending s' (M(seg := M seg OR hard)) run @ take (nat seg_sz) m'"
  have before: "pending s M run @ take (nat seg_sz) m @ concat (hard_errors z) = ?p @ l @ d"
    using r(5) assms(7) by (metis append.assoc append.right_neutral concat.simps)
  have list: "hard_errors z' = [d, l]" using r(4) assms(7) by simp
  have "?p @ d @ l \<noteq> ?p @ l @ d" if "l \<noteq> d" using that r(3) assms(8) by simp
  then show ?thesis
    unfolding before using r(1,2) list by (intro exI [of _ z'] exI [of _ s'] exI [of _ m'] exI [of _ l]) simp
qed

theorem second_hard_error_swaps_witness:
  "\<exists>z' s' m' l. recover_write TYPE(32) 29696 (failed_tape [replicate 1024 9], failed_write) = Some ((z', s'), Inr ())
    \<and> hard_errors z' = [replicate 1024 9, l]
    \<and> pending s' ((\<lambda>_. 0)(5 := 8)) [0, 1] @ take 29696 m' @ l @ replicate 1024 9
      = pending failed_write (\<lambda>_. 0) [0, 1] @ replicate 29696 4 @ replicate 1024 9"
  using second_hard_error_swaps [OF _ failed_tape_ring failed_tape_fields(1), where 'l = 32 and k = 28 and seg_sz = 29696 and d = "replicate 1024 9"] failed_tape_fields(2)
  by (fastforce simp: min_def)

end
