(* ===== verification/Zft_Stream.thy ===== *)
theory Zft_Stream
  imports Zft_Write
begin

text \<open>
  What \<open>zft_write\<close> (\<open>_zft_write\<close> of \<open>src/ftape/zftape/zftape-write.c\<close>) does to the data while no error occurs: every byte
  of the user is taken once and in order, into the segments that are queued in the ring of buffers and the deblock buffer.
\<close>

section \<open>The state between two writes\<close>

lemma seg_size_data_size: "seg_size M False p = max 0 (data_size (M (nat p)))"
  by (simp add: seg_size_def data_size_def Let_def max_def)

text \<open>The data that are not on the tape yet: what waits in the ring, and the first bytes of the deblock buffer.\<close>

definition unwritten :: "(nat \<Rightarrow> u32) \<Rightarrow> nat list \<Rightarrow> zw \<Rightarrow> bytes" where
  "unwritten M run = (\<lambda>(z, s). pending s M run @ take (nat (seg_byte_pos (z_pos z))) (snd (w_deblock s)))"

text \<open>
  A volume \<open>v\<close> is open for writing and \<open>k\<close> buffers are free; the segment at the position is known, and it is not full
  unless it has no good sector at all.
\<close>

definition writing_ok ::
  "ft_format_type \<Rightarrow> nat \<Rightarrow> nat \<Rightarrow> nat \<Rightarrow> (nat \<Rightarrow> u32) \<Rightarrow> nat \<Rightarrow> nat \<Rightarrow> zft_volinfo \<Rightarrow> nat list \<Rightarrow> zw \<Rightarrow> bool" where
  "writing_ok fmt base lim N M n k v run = (\<lambda>(z, s).
     queue_ok fmt base lim N M n run (set_ft (z_ftape z) s) \<and> free_buffers n k s \<and> deblock_buf z \<in> {None, Some (snd (w_deblock s))}
     \<and> \<not> raw_image z \<and> io_state z = zft_writing \<and> hard_errors z = [] \<and> vtbl_at z (z_volume z) = Some v
     \<and> 0 \<le> seg_pos (z_pos z) \<and> seg_pos (z_pos z) + int k < int N \<and> 0 \<le> seg_byte_pos (z_pos z)
     \<and> (seg_byte_pos (z_pos z) = 0 \<or> seg_byte_pos (z_pos z) < seg_size M False (seg_pos (z_pos z)))
     \<and> (\<forall>i<N. (of_nat i :: u32) < tracks_per_tape (z_ftape z) * segments_per_track (z_ftape z)))"

text \<open>There is room for \<open>l\<close> bytes in the segment at the position and the \<open>k\<close> segments behind it.\<close>

definition room :: "(nat \<Rightarrow> u32) \<Rightarrow> zft_position \<Rightarrow> nat \<Rightarrow> nat \<Rightarrow> bool" where
  "room M p k l \<longleftrightarrow> seg_byte_pos p + int l < seg_position M False (seg_pos p) (seg_pos p + int k + 1)"

text \<open>The position after \<open>cnt\<close> more bytes, and what the other fields keep.\<close>

definition moved :: "zftape_info \<Rightarrow> zftape_info \<Rightarrow> int \<Rightarrow> bool" where
  "moved z z' cnt \<longleftrightarrow> tape_pos (z_pos z') = tape_pos (z_pos z) + cnt \<and> volume_pos (z_pos z') = volume_pos (z_pos z) + cnt
    \<and> capacity z' = capacity z \<and> resid z' = resid z"

definition take_bytes :: "int \<Rightarrow> zft_position \<Rightarrow> zft_position" where
  "take_bytes cnt p = p\<lparr>volume_pos := volume_pos p + cnt, seg_byte_pos := seg_byte_pos p + cnt, tape_pos := tape_pos p + cnt\<rparr>"

lemma take_bytes_0 [simp]: "take_bytes 0 p = p"
  by (simp add: take_bytes_def)

lemma fdc_set_ft [simp]: "fdc (w_isr (set_ft f s)) = fdc (w_isr s)"
  by (simp add: set_ft_def)

lemma queue_ok_cong:
  assumes "queue_ok fmt base lim N M n run s" "fdc (w_isr s') = fdc (w_isr s)" "w_mem s' = w_mem s" "length (snd (w_deblock s')) = 32768"
    "same_drive (w_ft s) (w_ft s')" "bsm_rep fmt base lim N (w_ft s') M"
  shows "queue_ok fmt base lim N M n run s'"
  using assms by (simp add: queue_ok_def ring_mem_ok_def w_tail_def w_buf_def same_drive_def)

lemma room_next:
  assumes "room M p (Suc k) l" "seg_byte_pos p + int cnt = seg_size M False (seg_pos p)" "cnt \<le> l"
  shows "room M (p\<lparr>seg_byte_pos := 0, seg_pos := seg_pos p + 1\<rparr>) k (l - cnt)"
proof -
  have "{seg_pos p..<seg_pos p + int (Suc k) + 1} = insert (seg_pos p) {seg_pos p + 1..<seg_pos p + int (Suc k) + 1}" by auto
  then have "seg_position M False (seg_pos p) (seg_pos p + int (Suc k) + 1)
      = seg_size M False (seg_pos p) + seg_position M False (seg_pos p + 1) (seg_pos p + int (Suc k) + 1)"
    by (simp add: seg_position_def)
  then show ?thesis using assms by (simp add: room_def of_nat_diff add.commute add.left_commute)
qed

section \<open>One turn\<close>

lemma min_nat:
  assumes "0 \<le> x" "c = min l (nat x)"
  shows "c \<le> l" "int c \<le> x" "c < l \<Longrightarrow> int c = x" "(if int l < x then int l else x) = int c"
  using assms by (auto simp: min_def le_nat_iff split: if_splits)

lemma fill_deblock_buf_ok:
  assumes "deblock_buf z = Some m" "hard_errors z = []" "seg_sz = seg_size M False (seg_pos (z_pos z))" "tape_pos (z_pos z) + v_blk_sz v \<le> capacity z"
    "r_copy_ok (f_read F)" "0 \<le> seg_byte_pos (z_pos z)" "seg_byte_pos (z_pos z) = 0 \<or> seg_byte_pos (z_pos z) < seg_sz" "seg_sz \<le> int (length m)"
    "cnt = min (length usr) (nat (seg_sz - seg_byte_pos (z_pos z)))"
  shows "fill_deblock_buf F seg_sz v usr z
    = Some (z\<lparr>deblock_buf := Some (blit m (nat (seg_byte_pos (z_pos z))) (take cnt usr)), z_pos := take_bytes (int cnt) (z_pos z)\<rparr>, Inr (int cnt))"
proof (cases "seg_sz = 0")
  case True
  then have "cnt = 0" using assms(6,9) by simp
  moreover have "z\<lparr>deblock_buf := Some m, z_pos := z_pos z\<rparr> = z" using assms(1) by (cases z) simp
  ultimately show ?thesis using True by (simp add: fill_deblock_buf_def blit_def)
next
  case False
  have "0 \<le> seg_sz - seg_byte_pos (z_pos z)" using assms(3,7) by auto
  then have "(if int (length usr) < seg_sz - seg_byte_pos (z_pos z) then int (length usr) else seg_sz - seg_byte_pos (z_pos z)) = int cnt"
    using assms(9) by (rule min_nat(4))
  then show ?thesis
    using False assms(1,2,4,5)
    by (simp add: fill_deblock_buf_def empty_hard_error_list_def Let_def not_less take_bytes_def del: int_ops)
qed

text \<open>A segment that is full is queued.\<close>

lemma queue_full_segment_ok:
  assumes "long_ok TYPE('l::len)" "queue_ok fmt base lim N M n run (set_ft (z_ftape z) s)" "free_buffers n (Suc k) s" "deblock_buf z = Some m"
    "m = snd (w_deblock s)" "\<And>s. \<not> e_signal (f_write F) s" "seg_pos (z_pos z) = int seg" "seg < N"
    "(of_nat seg :: u32) < tracks_per_tape (z_ftape z) * segments_per_track (z_ftape z)" "seg_byte_pos (z_pos z) = seg_size M False (int seg)"
  shows "\<exists>f s' run'. queue_full_segment TYPE('l) F (seg_size M False (int seg)) (z, s)
      = Some ((z\<lparr>z_ftape := f, deblock_buf := None, written_segments := written_segments z + 1,
          z_pos := (z_pos z)\<lparr>seg_byte_pos := 0, seg_pos := int seg + 1\<rparr>\<rparr>, s'), Inr ())
    \<and> pending s' M run' = pending s M run @ take (nat (seg_size M False (int seg))) m
    \<and> queue_ok fmt base lim N M n run' (set_ft f s') \<and> free_buffers n k s' \<and> same_drive (z_ftape z) f"
proof -
  let ?g = "set_ft (z_ftape z) (give_deblock (z, s))"
  have g: "give_deblock (z, s) = s\<lparr>w_held := True\<rparr>" using assms(4,5) by (cases s) (simp add: give_deblock_def)
  have q: "queue_ok fmt base lim N M n run ?g"
    using assms(2) by (rule queue_ok_cong) (use assms(2) in \<open>simp_all add: g queue_ok_def ring_mem_ok_def same_drive_def\<close>)
  have free: "free_buffers n (Suc k) ?g" using assms(3) by (simp add: free_buffers_def g w_tail_def w_buf_def set_ft_def)
  have held: "w_held ?g" by (simp add: g)
  obtain s' where w: "ftape_write_segment TYPE('l) (f_write F) (int seg) FT_WR_ASYNC ?g = Some (s', Inr (max 0 (data_size (M seg))))"
      "pending s' M (run @ [w_tail ?g]) = pending ?g M run @ take (nat (data_size (M seg))) (snd (w_deblock ?g))"
      "queue_ok fmt base lim N M n (run @ [w_tail ?g]) s'" "free_buffers n k s'" "\<not> w_held s'" "same_drive (w_ft ?g) (w_ft s')"
    using write_segment_ok [OF assms(1) q free assms(8,6) _ _ held, of FT_WR_ASYNC] assms(9) by auto
  have run: "zftape_write_segment TYPE('l) F (int seg) (seg_size M False (int seg)) (z, s)
      = Some ((z\<lparr>z_ftape := w_ft s', deblock_buf := None, written_segments := written_segments z + 1\<rparr>, s'), Inr (max 0 (data_size (M seg))))"
    using w(1,5) by (subst zftape_write_segment.simps) (simp add: below_def take_deblock_def Let_def)
  have "pending ?g M run = pending s M run" by (intro pending_cong) (simp add: g w_buf_def set_ft_def)
  moreover have "nat (seg_size M False (int seg)) = nat (data_size (M seg))" by (simp add: seg_size_data_size)
  ultimately have "pending s' M (run @ [w_tail ?g]) = pending s M run @ take (nat (seg_size M False (int seg))) m"
    using w(2) assms(5) by (simp add: g)
  moreover have "same_drive (z_ftape z) (w_ft s')" using w(6) by simp
  ultimately show ?thesis
    using run w(3,4) assms(7,10)
    by (intro exI [of _ "w_ft s'"] exI [of _ s'] exI [of _ "run @ [w_tail ?g]"]) (simp add: queue_full_segment_def set_ft_same)
qed

text \<open>A turn of the loop takes the bytes that fit into the segment at the position.\<close>

lemma get_seg_sz_known:
  assumes "bsm_rep fmt base lim N (z_ftape z) M" "0 \<le> p" "p < int N" "\<not> raw_image z"
  shows "\<exists>f. zft_get_seg_sz z p = Some (z\<lparr>z_ftape := f\<rparr>, seg_size M False p) \<and> bsm_rep fmt base lim N f M \<and> same_drive (z_ftape z) f"
proof -
  obtain f where f: "ftape_get_bad_sector_entry (z_ftape z) p = Some (f, M (nat p))" "bsm_rep fmt base lim N f M"
    using bsm_store.get_law [OF assms(1), of "nat p"] assms(2,3) by (auto simp: nat_less_iff)
  then show ?thesis using assms(4) get_entry_drive [OF f(1)]
    by (intro exI [of _ f]) (auto simp: zft_get_seg_sz_def zft_get_seg_data_sz_def seg_size_def Let_def)
qed

lemma writing_okD:
  assumes "writing_ok fmt base lim N M n k v run (z, s)"
  shows "queue_ok fmt base lim N M n run (set_ft (z_ftape z) s)" "free_buffers n k s" "deblock_buf z \<in> {None, Some (snd (w_deblock s))}"
    "\<not> raw_image z" "io_state z = zft_writing" "hard_errors z = []" "vtbl_at z (z_volume z) = Some v"
    "0 \<le> seg_pos (z_pos z)" "seg_pos (z_pos z) + int k < int N" "0 \<le> seg_byte_pos (z_pos z)"
    "seg_byte_pos (z_pos z) = 0 \<or> seg_byte_pos (z_pos z) < seg_size M False (seg_pos (z_pos z))"
    "\<forall>i<N. (of_nat i :: u32) < tracks_per_tape (z_ftape z) * segments_per_track (z_ftape z)"
    "length (snd (w_deblock s)) = 32768" "bsm_rep fmt base lim N (z_ftape z) M"
  using assms unfolding writing_ok_def prod.case by (blast | simp add: queue_ok_def ring_mem_ok_def)+

text \<open>The turn up to the segment that may be full.\<close>

lemma write_turn_fill:
  assumes "writing_ok fmt base lim N M n k v run (z, s)" "tape_pos (z_pos z) + v_blk_sz v \<le> capacity z" "r_copy_ok (f_read F)"
    "\<And>s. \<not> e_signal (f_write F) s"
    "cnt = min (length usr) (nat (seg_size M False (seg_pos (z_pos z)) - seg_byte_pos (z_pos z)))"
  shows "\<exists>b f. bsm_rep fmt base lim N f M \<and> same_drive (z_ftape z) f
    \<and> (let m = blit (snd (w_deblock s)) (nat (seg_byte_pos (z_pos z))) (take cnt usr);
           z3 = z\<lparr>vtbl_read := b, z_ftape := f, deblock_buf := Some m, z_pos := take_bytes (int cnt) (z_pos z)\<rparr>
       in write_turn t F usr written (z, s) = Option.bind
          (queue_full_segment t F (seg_size M False (seg_pos (z_pos z))) (z3, s\<lparr>w_held := True, w_deblock := (fst (w_deblock s), m)\<rparr>))
          (\<lambda>((z4, s4), r4). Some (case r4 of Inl e \<Rightarrow> ((uncount written z4, s4), Inl (Inl e)) | Inr _ \<Rightarrow> ((z4, s4), Inr (int cnt)))))"
proof -
  note w = writing_okD [OF assms(1)]
  obtain b where z0: "(if seg_pos (z_pos z) = first_data_segment (z_ftape z) then z\<lparr>vtbl_read := False\<rparr> else z) = z\<lparr>vtbl_read := b\<rparr>"
    by (metis zftape_info.surjective zftape_info.update_convs(9))
  let ?z0 = "z\<lparr>vtbl_read := b\<rparr>" and ?m = "snd (w_deblock s)" and ?sz = "seg_size M False (seg_pos (z_pos z))"
  obtain f where f: "zft_get_seg_sz ?z0 (seg_pos (z_pos ?z0)) = Some (?z0\<lparr>z_ftape := f\<rparr>, ?sz)" "bsm_rep fmt base lim N f M" "same_drive (z_ftape z) f"
    using get_seg_sz_known [of fmt base lim N ?z0 M "seg_pos (z_pos z)"] w(4,8,9,14) by auto
  let ?z2 = "?z0\<lparr>z_ftape := f, deblock_buf := Some ?m\<rparr>"
  have "vtbl_at ?z2 (z_volume ?z2) = vtbl_at z (z_volume z)" by (simp add: vtbl_at_def split: vtbl_ref.split)
  then have v: "vtbl_at ?z2 (z_volume ?z2) = Some v" using w(7) by simp
  have "?sz \<le> int (length ?m)" using w(13) by (simp add: seg_size_data_size data_size_def)
  then have fill: "fill_deblock_buf F ?sz v usr ?z2
    = Some (?z2\<lparr>deblock_buf := Some (blit ?m (nat (seg_byte_pos (z_pos z))) (take cnt usr)), z_pos := take_bytes (int cnt) (z_pos z)\<rparr>, Inr (int cnt))"
    using fill_deblock_buf_ok [of ?z2 ?m ?sz M v F cnt usr] w(6,10,11) assms(2,3,5) by simp
  have "store_deblock (z', s\<lparr>w_held := True\<rparr>) = (z', s\<lparr>w_held := True, w_deblock := (fst (w_deblock s), m')\<rparr>)" if "deblock_buf z' = Some m'" for z' m'
    using that by (simp add: store_deblock_def)
  note st = this [where z' = "?z2\<lparr>deblock_buf := Some (blit ?m (nat (seg_byte_pos (z_pos z))) (take cnt usr)), z_pos := take_bytes (int cnt) (z_pos z)\<rparr>"]
  show ?thesis
    using f(1) v fill st assms(4)
    by (intro exI [of _ b] exI [of _ f] conjI f(2,3)) (simp add: write_turn_def fdc_get_deblock_buffer_def Let_def z0)
qed

lemma same_drive_tracks:
  "same_drive f f' \<Longrightarrow> tracks_per_tape f' * segments_per_track f' = tracks_per_tape f * segments_per_track f"
  by (simp add: same_drive_def)

lemma take_blit: "b + length bs \<le> length m \<Longrightarrow> take (b + length bs) (blit m b bs) = take b m @ bs"
  by (simp add: blit_def)

text \<open>The state in which the bytes are in the deblock buffer: that of \<open>writing_ok\<close>, except that the segment may be full.\<close>

lemma write_turn_filled:
  assumes "writing_ok fmt base lim N M n k v run (z, s)" "tape_pos (z_pos z) + v_blk_sz v \<le> capacity z" "r_copy_ok (f_read F)"
    "\<And>s. \<not> e_signal (f_write F) s"
    "cnt = min (length usr) (nat (seg_size M False (seg_pos (z_pos z)) - seg_byte_pos (z_pos z)))"
  shows "\<exists>z3 s3. write_turn t F usr written (z, s) = Option.bind (queue_full_segment t F (seg_size M False (seg_pos (z_pos z))) (z3, s3))
      (\<lambda>((z4, s4), r4). Some (case r4 of Inl e \<Rightarrow> ((uncount written z4, s4), Inl (Inl e)) | Inr _ \<Rightarrow> ((z4, s4), Inr (int cnt))))
    \<and> queue_ok fmt base lim N M n run (set_ft (z_ftape z3) s3) \<and> free_buffers n k s3 \<and> deblock_buf z3 = Some (snd (w_deblock s3))
    \<and> \<not> raw_image z3 \<and> io_state z3 = zft_writing \<and> hard_errors z3 = [] \<and> vtbl_at z3 (z_volume z3) = Some v
    \<and> seg_pos (z_pos z3) = seg_pos (z_pos z) \<and> seg_byte_pos (z_pos z3) = seg_byte_pos (z_pos z) + int cnt \<and> moved z z3 (int cnt)
    \<and> unwritten M run (z3, s3) = unwritten M run (z, s) @ take cnt usr
    \<and> (\<forall>i<N. (of_nat i :: u32) < tracks_per_tape (z_ftape z3) * segments_per_track (z_ftape z3))"
proof -
  note w = writing_okD [OF assms(1)]
  let ?b = "nat (seg_byte_pos (z_pos z))" and ?m = "snd (w_deblock s)" and ?sz = "seg_size M False (seg_pos (z_pos z))"
  let ?m' = "blit ?m ?b (take cnt usr)"
  let ?s3 = "s\<lparr>w_held := True, w_deblock := (fst (w_deblock s), ?m')\<rparr>"
  obtain b f where f: "bsm_rep fmt base lim N f M" "same_drive (z_ftape z) f"
    and turn: "write_turn t F usr written (z, s) = Option.bind
       (queue_full_segment t F ?sz (z\<lparr>vtbl_read := b, z_ftape := f, deblock_buf := Some ?m', z_pos := take_bytes (int cnt) (z_pos z)\<rparr>, ?s3))
       (\<lambda>((z4, s4), r4). Some (case r4 of Inl e \<Rightarrow> ((uncount written z4, s4), Inl (Inl e)) | Inr _ \<Rightarrow> ((z4, s4), Inr (int cnt))))"
    using write_turn_fill [OF assms, of t written] by (auto simp: Let_def)
  let ?z3 = "z\<lparr>vtbl_read := b, z_ftape := f, deblock_buf := Some ?m', z_pos := take_bytes (int cnt) (z_pos z)\<rparr>"
  have pos: "0 \<le> ?sz - seg_byte_pos (z_pos z)" using w(11) by auto
  have "?sz \<le> 29696" "nat (seg_byte_pos (z_pos z) + int cnt) = ?b + cnt" using w(10) by (simp_all add: seg_size_data_size data_size_def)
  then have fits: "?b + length (take cnt usr) \<le> length ?m" using min_nat(2) [OF pos assms(5)] w(10,13) by simp
  have m': "length ?m' = 32768" "take (?b + cnt) ?m' = take ?b ?m @ take cnt usr"
    using fits w(13) take_blit [OF fits] min_nat(1) [OF pos assms(5)] by simp_all
  have "queue_ok fmt base lim N M n run (set_ft f ?s3)" by (rule queue_ok_cong [OF w(1)]) (use f m'(1) in simp_all)
  moreover have "free_buffers n k ?s3" using w(2) by (simp add: free_buffers_def w_tail_def w_buf_def)
  moreover have "pending ?s3 M run = pending s M run" by (intro pending_cong) (simp add: w_buf_def)
  then have "unwritten M run (?z3, ?s3) = unwritten M run (z, s) @ take cnt usr"
    using m'(2) w(10) by (simp add: unwritten_def take_bytes_def nat_add_distrib)
  moreover have "vtbl_at ?z3 (z_volume ?z3) = vtbl_at z (z_volume z)" by (simp add: vtbl_at_def split: vtbl_ref.split)
  then have "vtbl_at ?z3 (z_volume ?z3) = Some v" using w(7) by simp
  moreover have "\<forall>i<N. (of_nat i :: u32) < tracks_per_tape f * segments_per_track f" using w(12) same_drive_tracks [OF f(2)] by simp
  ultimately show ?thesis
    using turn w(4-6) by (intro exI [of _ ?z3] exI [of _ ?s3]) (simp add: moved_def take_bytes_def)
qed

text \<open>A turn either queues a segment or takes the last bytes.\<close>

lemma write_turn_ok:
  assumes "long_ok TYPE('l::len)" "writing_ok fmt base lim N M n k v run (z, s)" "tape_pos (z_pos z) + v_blk_sz v \<le> capacity z" "r_copy_ok (f_read F)"
    "\<And>s. \<not> e_signal (f_write F) s" "room M (z_pos z) k (length usr)"
  shows "\<exists>z' s' run' cnt. write_turn TYPE('l) F usr written (z, s) = Some ((z', s'), Inr (int cnt)) \<and> cnt \<le> length usr
    \<and> unwritten M run' (z', s') = unwritten M run (z, s) @ take cnt usr \<and> moved z z' (int cnt)
    \<and> (cnt = length usr \<and> writing_ok fmt base lim N M n k v run' (z', s')
       \<or> (\<exists>k'. k = Suc k' \<and> writing_ok fmt base lim N M n k' v run' (z', s') \<and> room M (z_pos z') k' (length usr - cnt)))"
proof -
  note w = writing_okD [OF assms(2)]
  let ?p = "seg_pos (z_pos z)" let ?sz = "seg_size M False ?p"
  define cnt where "cnt = min (length usr) (nat (?sz - seg_byte_pos (z_pos z)))"
  have cnt: "cnt \<le> length usr" "seg_byte_pos (z_pos z) + int cnt \<le> ?sz" "cnt < length usr \<Longrightarrow> seg_byte_pos (z_pos z) + int cnt = ?sz"
    using min_nat [OF _ cnt_def] w(11) by auto
  obtain z3 s3 where turn: "write_turn TYPE('l) F usr written (z, s) = Option.bind (queue_full_segment TYPE('l) F ?sz (z3, s3))
      (\<lambda>((z4, s4), r4). Some (case r4 of Inl e \<Rightarrow> ((uncount written z4, s4), Inl (Inl e)) | Inr _ \<Rightarrow> ((z4, s4), Inr (int cnt))))"
    and t: "queue_ok fmt base lim N M n run (set_ft (z_ftape z3) s3)" "free_buffers n k s3" "deblock_buf z3 = Some (snd (w_deblock s3))"
      "\<not> raw_image z3" "io_state z3 = zft_writing" "hard_errors z3 = []" "vtbl_at z3 (z_volume z3) = Some v"
      "seg_pos (z_pos z3) = ?p" "seg_byte_pos (z_pos z3) = seg_byte_pos (z_pos z) + int cnt" "moved z z3 (int cnt)"
      "unwritten M run (z3, s3) = unwritten M run (z, s) @ take cnt usr"
      "\<forall>i<N. (of_nat i :: u32) < tracks_per_tape (z_ftape z3) * segments_per_track (z_ftape z3)"
    using write_turn_filled [OF assms(2-5) cnt_def, of "TYPE('l)" written] by blast
  show ?thesis
  proof (cases "seg_byte_pos (z_pos z) + int cnt = ?sz")
    case False
    have "write_turn TYPE('l) F usr written (z, s) = Some ((z3, s3), Inr (int cnt))"
      using turn False t(9) by (simp add: queue_full_segment_def)
    moreover have "writing_ok fmt base lim N M n k v run (z3, s3)"
      unfolding writing_ok_def prod.case using t w(8-10) False cnt(2) by simp
    ultimately show ?thesis using t(10,11) cnt(1,3) False by (metis le_neq_implies_less)
  next
    case full: True
    have "k \<noteq> 0" using assms(6) full cnt(1) by (cases k) (auto simp: room_def seg_position_step)
    then obtain k' where k: "k = Suc k'" by (cases k) auto
    have seg: "seg_pos (z_pos z3) = int (nat ?p)" "nat ?p < N" "int (nat ?p) = ?p" using t(8) w(8,9) by auto
    have size: "seg_byte_pos (z_pos z3) = seg_size M False (int (nat ?p))" using t(9) full seg(3) by simp
    obtain f' s' run' where r: "queue_full_segment TYPE('l) F ?sz (z3, s3)
        = Some ((z3\<lparr>z_ftape := f', deblock_buf := None, written_segments := written_segments z3 + 1,
            z_pos := (z_pos z3)\<lparr>seg_byte_pos := 0, seg_pos := ?p + 1\<rparr>\<rparr>, s'), Inr ())"
        "pending s' M run' = pending s3 M run @ take (nat ?sz) (snd (w_deblock s3))" "queue_ok fmt base lim N M n run' (set_ft f' s')"
        "free_buffers n k' s'" "same_drive (z_ftape z3) f'"
      using queue_full_segment_ok [OF assms(1) t(1) t(2) [unfolded k] t(3) refl assms(5) seg(1,2) t(12) [rule_format, OF seg(2)] size]
      unfolding seg(3) by blast
    let ?z' = "z3\<lparr>z_ftape := f', deblock_buf := None, written_segments := written_segments z3 + 1,
            z_pos := (z_pos z3)\<lparr>seg_byte_pos := 0, seg_pos := ?p + 1\<rparr>\<rparr>"
    have "write_turn TYPE('l) F usr written (z, s) = Some ((?z', s'), Inr (int cnt))" using turn r(1) by simp
    moreover have "unwritten M run' (?z', s') = unwritten M run (z, s) @ take cnt usr"
      using r(2) t(9,11) full by (simp add: unwritten_def)
    moreover have "moved z ?z' (int cnt)" using t(10) by (simp add: moved_def)
    moreover have "vtbl_at ?z' (z_volume ?z') = vtbl_at z3 (z_volume z3)" by (simp add: vtbl_at_def split: vtbl_ref.split)
    then have "writing_ok fmt base lim N M n k' v run' (?z', s')"
      unfolding writing_ok_def prod.case using r(3,4) t(4-7,12) w(8,9) k same_drive_tracks [OF r(5)] by simp
    moreover have "room M (z_pos ?z') k' (length usr - cnt)"
      using room_next [OF assms(6) [unfolded k] full cnt(1)] by (simp add: room_def)
    ultimately show ?thesis using k cnt(1) by blast
  qed
qed

lemma write_loop_end:
  assumes "writing_ok fmt base lim N M n k v run (z, s)"
  shows "\<exists>z' s' run' k'. write_loop t F [] written (z, s) = Some ((z', s'), Inr written)
    \<and> unwritten M run' (z', s') = unwritten M run (z, s) \<and> writing_ok fmt base lim N M n k' v run' (z', s')
    \<and> tape_pos (z_pos z') = tape_pos (z_pos z) \<and> volume_pos (z_pos z') = volume_pos (z_pos z)
    \<and> resid z' = resid z - written \<and> \<not> last_write_failed z'"
proof -
  let ?z = "uncount written (z\<lparr>last_write_failed := False, need_flush := need_flush z \<or> written > 0\<rparr>)"
  have "write_loop t F [] written (z, s) = Some ((?z, s), Inr written)"
    using writing_okD(6) [OF assms] by (subst write_loop.simps) simp
  moreover have "vtbl_at ?z r = vtbl_at z r" for r by (simp add: uncount_def vtbl_at_def split: vtbl_ref.split)
  then have "writing_ok fmt base lim N M n k v run (?z, s)" using assms by (simp add: writing_ok_def) (simp add: uncount_def)
  moreover have "unwritten M run (?z, s) = unwritten M run (z, s)" by (simp add: unwritten_def uncount_def)
  ultimately show ?thesis by (intro exI [of _ ?z] exI [of _ s] exI [of _ run] exI [of _ k]) (simp add: uncount_def)
qed

lemma write_loop_ok:
  assumes "long_ok TYPE('l::len)" "writing_ok fmt base lim N M n k v run (z, s)" "tape_pos (z_pos z) + int (length usr) + v_blk_sz v \<le> capacity z"
    "r_copy_ok (f_read F)" "\<And>s. \<not> e_signal (f_write F) s" "room M (z_pos z) k (length usr)"
  shows "\<exists>z' s' run' k'. write_loop TYPE('l) F usr written (z, s) = Some ((z', s'), Inr (written + int (length usr)))
    \<and> unwritten M run' (z', s') = unwritten M run (z, s) @ usr \<and> writing_ok fmt base lim N M n k' v run' (z', s')
    \<and> tape_pos (z_pos z') = tape_pos (z_pos z) + int (length usr) \<and> volume_pos (z_pos z') = volume_pos (z_pos z) + int (length usr)
    \<and> resid z' = resid z - (written + int (length usr)) \<and> \<not> last_write_failed z'"
  using assms(2,3,6)
proof (induction k arbitrary: z s usr written run rule: less_induct)
  case (less k)
  show ?case
  proof (cases "usr = []")
    case True
    then show ?thesis using write_loop_end [OF less.prems(1), of "TYPE('l)" F written] by simp
  next
    case False
    have "tape_pos (z_pos z) + v_blk_sz v \<le> capacity z" using less.prems(2) by simp
    then obtain z1 s1 run1 cnt where turn: "write_turn TYPE('l) F usr written (z, s) = Some ((z1, s1), Inr (int cnt))" "cnt \<le> length usr"
        "unwritten M run1 (z1, s1) = unwritten M run (z, s) @ take cnt usr" "moved z z1 (int cnt)"
        "cnt = length usr \<and> writing_ok fmt base lim N M n k v run1 (z1, s1)
         \<or> (\<exists>k'. k = Suc k' \<and> writing_ok fmt base lim N M n k' v run1 (z1, s1) \<and> room M (z_pos z1) k' (length usr - cnt))"
      using write_turn_ok [OF assms(1) less.prems(1) _ assms(4,5) less.prems(3), of written] by blast
    have step: "write_loop TYPE('l) F usr written (z, s) = write_loop TYPE('l) F (drop cnt usr) (written + int cnt) (z1, s1)"
      using False turn(1) by (subst write_loop.simps) simp
    have "\<exists>z' s' run' k'. write_loop TYPE('l) F (drop cnt usr) (written + int cnt) (z1, s1)
          = Some ((z', s'), Inr (written + int cnt + int (length (drop cnt usr))))
        \<and> unwritten M run' (z', s') = unwritten M run1 (z1, s1) @ drop cnt usr \<and> writing_ok fmt base lim N M n k' v run' (z', s')
        \<and> tape_pos (z_pos z') = tape_pos (z_pos z1) + int (length (drop cnt usr)) \<and> volume_pos (z_pos z') = volume_pos (z_pos z1) + int (length (drop cnt usr))
        \<and> resid z' = resid z1 - (written + int cnt + int (length (drop cnt usr))) \<and> \<not> last_write_failed z'"
      using turn(5)
    proof
      assume "cnt = length usr \<and> writing_ok fmt base lim N M n k v run1 (z1, s1)"
      then show ?thesis using write_loop_end [of fmt base lim N M n k v run1 z1 s1 "TYPE('l)" F "written + int cnt"] by simp
    next
      assume "\<exists>k'. k = Suc k' \<and> writing_ok fmt base lim N M n k' v run1 (z1, s1) \<and> room M (z_pos z1) k' (length usr - cnt)"
      then obtain k' where k': "k' < k" "writing_ok fmt base lim N M n k' v run1 (z1, s1)" "room M (z_pos z1) k' (length (drop cnt usr))" by auto
      have "tape_pos (z_pos z1) + int (length (drop cnt usr)) + v_blk_sz v \<le> capacity z1"
        using less.prems(2) turn(2,4) by (simp add: moved_def of_nat_diff)
      with k' show ?thesis by (intro less.IH)
    qed
    then show ?thesis unfolding step using turn(2-4) by (fastforce simp: moved_def of_nat_diff)
  qed
qed

text \<open>
  C3. Without errors \<open>zft_write\<close> takes every byte of the user once and in order: for a multiple of the block size that fits
  into the capacity, the segments and the free buffers, it returns the number of bytes, the bytes follow the data that were
  not on the tape yet, in the ring of buffers and the deblock buffer taken together, the position moves by their number, no
  residual count is left, and the state is again one in which a write may follow.
\<close>

theorem write_appends_user_bytes:
  assumes "long_ok TYPE('l::len)" and "writing_ok fmt base lim N M n k v run (z, s)" and "z_blk_sz z \<noteq> 0"
    and "u32 (int (length usr)) mod u32 (z_blk_sz z) = 0" and "tape_pos (z_pos z) + int (length usr) + v_blk_sz v \<le> capacity z"
    and "r_copy_ok (f_read F)" and "\<And>s. \<not> e_signal (f_write F) s" and "room M (z_pos z) k (length usr)"
  shows "\<exists>z' s' run' k'. zft_write TYPE('l) F usr (z, s) = Some ((z', s'), Inr (int (length usr)))
    \<and> unwritten M run' (z', s') = unwritten M run (z, s) @ usr \<and> writing_ok fmt base lim N M n k' v run' (z', s')
    \<and> tape_pos (z_pos z') = tape_pos (z_pos z) + int (length usr) \<and> volume_pos (z_pos z') = volume_pos (z_pos z) + int (length usr)
    \<and> resid z' = 0 \<and> \<not> last_write_failed z'"
proof -
  let ?z = "z\<lparr>resid := int (length usr), last_write_failed := True\<rparr>"
  note w = writing_okD [OF assms(2)]
  have store: "store_deblock (?z, s) = (?z, s)" using w(3) by (auto simp: store_deblock_def)
  have "vtbl_at ?z r = vtbl_at z r" for r by (simp add: vtbl_at_def split: vtbl_ref.split)
  then have ok: "writing_ok fmt base lim N M n k v run (?z, s)" using assms(2) by (simp add: writing_ok_def)
  have "check_write_access F (int (length usr)) ?z = Some (?z, Inr ())" using w(5) assms(3,4) by (simp add: check_write_access_def)
  then have "zft_write TYPE('l) F usr (z, s) = write_loop TYPE('l) F usr 0 (?z, s)" by (simp add: zft_write_def store Let_def)
  moreover have "tape_pos (z_pos ?z) + int (length usr) + v_blk_sz v \<le> capacity ?z" "room M (z_pos ?z) k (length usr)"
    using assms(5,8) by simp_all
  moreover have "unwritten M run (?z, s) = unwritten M run (z, s)" by (simp add: unwritten_def)
  ultimately show ?thesis using write_loop_ok [OF assms(1) ok _ assms(6,7), of usr 0] by simp
qed

text \<open>A segment of which all but 512 bytes are filled, in front of a write of 1024 bytes.\<close>

definition writing_tape :: zftape_info where
  "writing_tape = small_tape\<lparr>z_ftape := w_ft queueing, io_state := zft_writing, z_blk_sz := 1024, capacity := 1000000,
     z_pos := \<lparr>seg_pos = 6, seg_byte_pos = 29184, tape_pos = 29184, volume_pos = 29184\<rparr>\<rparr>"

definition quiet_file_env :: file_env where
  "quiet_file_env = \<lparr>f_write = quiet_env, f_read = two_segment_env, f_read_header = (\<lambda>z. Some (z, Inr ())), f_read_table = (\<lambda>z. Some (z, Inr ()))\<rparr>"

lemma writing_tape_ok: "writing_ok fmt_normal 2048 29696 100 (\<lambda>_. 0) 2 1 blank_vol [0] (writing_tape, queueing)"
proof -
  have "(of_nat i :: u32) < 2800" if "i < 100" for i using that by (simp add: word_less_nat_alt unat_of_nat)
  then have "\<forall>i<100. (of_nat i :: u32) < tracks_per_tape (w_ft queueing) * segments_per_track (w_ft queueing)"
    by (simp add: w_ft_def queueing_def ftape_extract_bad_sector_map_def blank_info_def Let_def)
  then show ?thesis
    unfolding writing_ok_def prod.case using queueing_ok
    by (simp add: writing_tape_def small_tape_def set_ft_same vtbl_at_def seg_size_data_size data_size_def)
qed

theorem write_appends_user_bytes_witness:
  "\<exists>z' s' run'. zft_write TYPE(32) quiet_file_env (replicate 1024 7) (writing_tape, queueing) = Some ((z', s'), Inr 1024)
    \<and> unwritten (\<lambda>_. 0) run' (z', s') = pending queueing (\<lambda>_. 0) [0] @ replicate 29184 4 @ replicate 1024 7"
proof -
  have "{6..<8::int} = {6, 7}" by auto
  then have room: "room (\<lambda>_. 0) (z_pos writing_tape) 1 (length (replicate 1024 (7::u8)))"
    by (simp add: room_def writing_tape_def seg_position_def seg_size_data_size data_size_def)
  have "unwritten (\<lambda>_. 0) [0] (writing_tape, queueing) = pending queueing (\<lambda>_. 0) [0] @ replicate 29184 4"
    by (simp add: unwritten_def writing_tape_def queueing_def min_def)
  then show ?thesis
    using write_appends_user_bytes [OF _ writing_tape_ok _ _ _ _ _ room, of quiet_file_env, where 'l = 32]
    by (auto simp: writing_tape_def blank_vol_def quiet_file_env_def two_segment_env_def quiet_env_def u32_def)
qed

end
