(* ===== verification/Zft_Header.thy ===== *)
theory Zft_Header
  imports Zft_Write Ft_Header
begin

text \<open>
  The header segments and the volume table on the cartridge: reading them (\<open>src/ftape/zftape/zftape-read.c\<close>), writing them
  back with verification (\<open>src/ftape/zftape/zftape-write.c\<close>, \<open>src/ftape/zftape/zftape-vtbl.c\<close> and \<open>src/ftape/zftape/zftape-rw.c\<close>)
  and erasing a tape.

  The argument \<open>ctl_env\<close> holds what comes from the layer below and from the drive: the write and read environments,
  \<open>ftape_read_header_segment\<close>, which leaves the header segment in \<open>hseg_buf\<close>, the calls of the drive, and the bits
  of the minor number. Memory is always available. The two loops of \<open>zft_verify_write_segments\<close> are partial
  functions; \<open>None\<close> also stands for an access outside a buffer.
\<close>

section \<open>The environment\<close>

datatype drive_call =
  Seek_To_Bot | Seek_To_Eot | Reset_Drive | Door_Lock bool | Door_Open bool | Drive_Status | Set_Partition int | Load_Cartridge

record ctl_env =
  c_write :: write_env
  c_read :: read_env
  c_header :: "ftape_info \<Rightarrow> ftape_info \<times> unit result"
  c_drive :: "drive_call \<Rightarrow> ftape_info \<Rightarrow> ftape_info \<times> unit result"
  c_set_buffers :: "int \<Rightarrow> write_state \<Rightarrow> write_state \<times> unit result"
  c_cmpr_lock :: "unit result"
  c_cmpr_seek :: "int \<Rightarrow> zft_volinfo \<Rightarrow> zftape_info \<Rightarrow> zftape_info \<times> unit result"
  c_zip :: bool

definition drive :: "ctl_env \<Rightarrow> drive_call \<Rightarrow> zftape_info \<Rightarrow> zftape_info \<times> unit result" where
  "drive C d z = (case c_drive C d (z_ftape z) of (f, r) \<Rightarrow> (z\<lparr>z_ftape := f\<rparr>, r))"

text \<open>Only the bit that selects the compression of old volumes has a meaning.\<close>

definition zft_set_flags :: "ctl_env \<Rightarrow> zftape_info \<Rightarrow> zftape_info" where
  "zft_set_flags C z = z\<lparr>z_use_compression := c_zip C\<rparr>"

section \<open>Reading the header segment and the volume table\<close>

definition zft_read_header_segments :: "ctl_env \<Rightarrow> zftape_info \<Rightarrow> (zftape_info \<times> unit result) option" where
  "zft_read_header_segments C z0 =
    (let z = z0\<lparr>deblock_buf := None, deblock_segment := -1\<rparr>
     in case c_header C (z_ftape z) of
       (f, Inl e) \<Rightarrow> Some (z\<lparr>z_ftape := f\<rparr>, Inl e)
     | (f, Inr _) \<Rightarrow> do {
         let z1 = z\<lparr>z_ftape := f, z_qic113 := (format_code f \<notin> {fmt_normal, fmt_1100ft, fmt_425ft})\<rparr>;
         (z2, c) \<leftarrow> zft_get_capacity z1;
         (z3, old) \<leftarrow> zft_ftape_validate_label (z2\<lparr>capacity := c\<rparr>) (drop FT_LABEL (z_hseg z2));
         Some (zft_init_vtbl (zft_set_flags C (z3\<lparr>old_ftape := old, header_read := True, vtbl_read := False, vtbl_size := 0\<rparr>)), Inr ())
       })"

text \<open>An old cartridge has file marks in place of a volume table; \<open>None\<close> also when there is no list of marks to read.\<close>

definition fake_table :: "zftape_info \<Rightarrow> (zftape_info \<times> unit result) option" where
  "fake_table z = do {
     z1 \<leftarrow> zft_ftape_extract_file_marks z;
     z2 \<leftarrow> (case eof_map z1 of
         None \<Rightarrow> if nr_eof_marks z1 = 0 then zft_fake_volume_headers z1 (z_hseg z1) 0 0 else None
       | Some p \<Rightarrow> zft_fake_volume_headers z1 (z_hseg z1) p (nat (nr_eof_marks z1)));
     Some (z2\<lparr>vtbl_read := True\<rparr>, Inr ())
   }"

definition zft_read_volume_table :: "ctl_env \<Rightarrow> zftape_info \<Rightarrow> (zftape_info \<times> unit result) option" where
  "zft_read_volume_table C z0 =
    (let z = z0\<lparr>deblock_buf := None, deblock_segment := -1\<rparr>
     in if old_ftape z then fake_table z
     else case r_segment (c_read C) (first_data_segment (z_ftape z)) of
       Inl e \<Rightarrow> Some (z, Inl e)
     | Inr (n, m) \<Rightarrow>
         let z1 = z\<lparr>vtbl_size := n, z_ftape := r_abort (c_read C) (z_ftape z), vtbl_buf := take FT_SEGMENT_SIZE m\<rparr>
         in do {
           z2 \<leftarrow> zft_extract_volume_headers z1 (vtbl_buf z1);
           Some (z2\<lparr>vtbl_read := True\<rparr>, Inr ())
         })"

definition files :: "ctl_env \<Rightarrow> file_env" where
  "files C = \<lparr>f_write = c_write C, f_read = c_read C, f_read_header = zft_read_header_segments C, f_read_table = zft_read_volume_table C\<rparr>"

section \<open>Writing with verification\<close>

text \<open>
  \<open>data\<close> is written to the segments from \<open>seg\<close> on, starting at the offset \<open>src\<close>; a partly used segment is filled with zeros.
\<close>

definition verify_chunk :: "bool \<Rightarrow> int \<Rightarrow> int \<Rightarrow> int \<times> ft_write_mode_t \<times> int" where
  "verify_chunk single remaining seg_sz =
    (if remaining > seg_sz then (seg_sz, FT_WR_ASYNC, remaining - seg_sz)
     else (remaining, if single then FT_WR_SINGLE else FT_WR_MULTI, 0))"

definition verify_write :: "'l::len itself \<Rightarrow> ctl_env \<Rightarrow> bytes \<Rightarrow> bool \<Rightarrow> int \<Rightarrow> nat \<Rightarrow> int \<Rightarrow> int \<Rightarrow> zw \<Rightarrow> (zw \<times> (int \<times> int) result) option" where
  "verify_write t C data single seg src remaining seg_sz st =
    (let (z, s) = fdc_get_deblock_buffer st; (cnt, mode, rest) = verify_chunk single remaining seg_sz
     in if src + nat cnt > length data then None
     else do {
       m \<leftarrow> deblock_buf z;
       let m1 = blit m 0 (bytes_at data src (nat cnt) @ replicate (nat (seg_sz - cnt)) 0);
       ((z2, s2), r) \<leftarrow> below (ftape_write_segment t (c_write C) seg mode) (z, give_deblock (z\<lparr>deblock_buf := Some m1\<rparr>, s));
       let z3 = take_deblock (z2, s2);
       if r \<noteq> Inr seg_sz then Some ((z3, s2), Inl (case r of Inl e \<Rightarrow> e | Inr _ \<Rightarrow> EIO))
       else do {
         (z4, seg_sz') \<leftarrow> zft_get_seg_data_sz (z3\<lparr>written_segments := written_segments z3 + 1\<rparr>) (seg + 1);
         Some ((z4, s2), Inr (rest, seg_sz'))
       }
     })"

partial_function (option) verify_write_loop ::
  "'l::len itself \<Rightarrow> ctl_env \<Rightarrow> bytes \<Rightarrow> bool \<Rightarrow> int \<Rightarrow> nat \<Rightarrow> int \<Rightarrow> int \<Rightarrow> zw \<Rightarrow> (zw \<times> int result) option" where
  "verify_write_loop t C data single seg src remaining seg_sz st =
    Option.bind (verify_write t C data single seg src remaining seg_sz st) (\<lambda>(st1, r).
      case r of Inl e \<Rightarrow> Some (st1, Inl e)
      | Inr (rest, seg_sz') \<Rightarrow>
          if rest > 0 then verify_write_loop t C data single (seg + 1) (src + nat seg_sz) rest seg_sz' st1
          else Some (st1, Inr seg_sz'))"

text \<open>
  The second loop reads the segments back. Its source moves on by \<open>seg_sz\<close>, which still is the size of the segment behind
  the last one written.
\<close>

partial_function (option) verify_read_loop :: "ctl_env \<Rightarrow> bytes \<Rightarrow> int \<Rightarrow> nat \<Rightarrow> int \<Rightarrow> int \<Rightarrow> zftape_info \<Rightarrow> (zftape_info \<times> unit result) option" where
  "verify_read_loop C data seg src remaining seg_sz z =
    (case r_segment (c_read C) seg of
       Inl e \<Rightarrow> Some (z, Inl e)
     | Inr (result, m) \<Rightarrow>
         let z1 = z\<lparr>deblock_buf := Some m\<rparr>; cnt = nat (if remaining > result then result else remaining)
         in if src + cnt > length data \<or> cnt > length m then None
            else if bytes_at data src cnt \<noteq> take cnt m then Some (z1, Inl EIO)
            else if remaining - result > 0 then verify_read_loop C data (seg + 1) (src + nat seg_sz) (remaining - result) seg_sz z1
            else Some (z1, Inr ()))"

definition zft_verify_write_segments :: "'l::len itself \<Rightarrow> ctl_env \<Rightarrow> int \<Rightarrow> bytes \<Rightarrow> zw \<Rightarrow> (zw \<times> int result) option" where
  "zft_verify_write_segments t C segment data = (\<lambda>(z, s). do {
     (z1, seg_sz) \<leftarrow> zft_get_seg_data_sz (z\<lparr>deblock_segment := -1\<rparr>) segment;
     let len = int (length data);
     (st2, r2) \<leftarrow> verify_write_loop t C data (len \<le> seg_sz) segment 0 len seg_sz (z1, s);
     case r2 of Inl e \<Rightarrow> Some (st2, Inl e)
     | Inr seg_sz' \<Rightarrow> do {
         ((z3, s3), r3) \<leftarrow> (if driver_state (z_ftape (fst st2)) = writing then do {
             (st3, r3) \<leftarrow> below (ftape_loop_until_writes_done (c_write C)) st2;
             case r3 of Inl e \<Rightarrow> Some (st3, Inl e)
             | Inr _ \<Rightarrow> do {
                 (st4, r4) \<leftarrow> abort_below (files C) st3;
                 Some (case r4 of Inl e \<Rightarrow> (st4, Inl e) | Inr _ \<Rightarrow> ((zft_prevent_flush (fst st4), snd st4), Inr ()))
               }
           } else Some (st2, Inr ()));
         case r3 of Inl e \<Rightarrow> Some ((z3, s3), Inl e)
         | Inr _ \<Rightarrow> do {
             (z4, r4) \<leftarrow> verify_read_loop C data segment 0 len seg_sz' z3;
             Some ((z4, s3), case r4 of Inl e \<Rightarrow> Inl e | Inr _ \<Rightarrow> Inr len)
           }
       }
   })"

section \<open>Updating the header segments\<close>

abbreviation FT_WR_DATE :: nat where "FT_WR_DATE \<equiv> 18"
abbreviation FT_SEG_CNT :: nat where "FT_SEG_CNT \<equiv> 130"

text \<open>\<open>zft_get_time\<close> is the constant \<open>FT_TIME_STAMP(2097, 11, 30, 23, 59, 59)\<close>.\<close>

definition zft_get_time :: u32 where
  "zft_get_time = (push_bit 25 (2097 - 1970) AND 0xfe000000) OR ((59 + 60 * (59 + 60 * (23 + 24 * (30 + 31 * 11)))) AND 0x01FFFFFF)"

definition stamp_header :: "zftape_info \<Rightarrow> zftape_info" where
  "stamp_header z =
    (let m = z_hseg z; m1 = PUT4 m FT_SEG_CNT (word_of_int (written_segments z) + GET4 m FT_SEG_CNT + 2);
         m2 = (if zft_get_time \<noteq> 0 then
             let m2 = PUT4 m1 FT_WR_DATE zft_get_time in if label_changed z then PUT4 m2 FT_LABEL_DATE zft_get_time else m2
           else m1)
     in set_hseg m2 z)"

definition zft_write_header_segments :: "'l::len itself \<Rightarrow> ctl_env \<Rightarrow> zw \<Rightarrow> (zw \<times> unit result) option" where
  "zft_write_header_segments t C st = do {
     ((z1, s1), r1) \<leftarrow> abort_below (files C) st;
     case r1 of Inl e \<Rightarrow> Some ((z1, s1), Inl e)
     | Inr _ \<Rightarrow>
         let z2 = fst (drive C Seek_To_Bot z1)
         in if GET4 (z_hseg z2) 0 \<noteq> FT_HSEG_MAGIC then Some ((z2, s1), Inl EIO)
         else do {
           let z3 = stamp_header z2;
           let m = take FT_SEGMENT_SIZE (z_hseg z3);
           (st4, r4) \<leftarrow> zft_verify_write_segments t C (header_segment_1 (z_ftape z3)) m (z3, s1);
           (st5, r5) \<leftarrow> zft_verify_write_segments t C (header_segment_2 (z_ftape (fst st4))) m st4;
           Some (st5, case (r4, r5) of (Inl _, Inl _) \<Rightarrow> Inl EIO | _ \<Rightarrow> Inr ())
         }
   }"

definition zft_update_volume_table :: "'l::len itself \<Rightarrow> ctl_env \<Rightarrow> int \<Rightarrow> zw \<Rightarrow> (zw \<times> unit result) option" where
  "zft_update_volume_table t C segment = (\<lambda>(z, s). do {
     (z1, m) \<leftarrow> zft_create_volume_headers z (vtbl_buf z);
     (z2, size) \<leftarrow> zft_get_seg_data_sz (z1\<lparr>vtbl_buf := m\<rparr>) segment;
     (st3, r) \<leftarrow> zft_verify_write_segments t C segment (take (nat size) m) (z2, s);
     Some (st3, case r of Inl e \<Rightarrow> Inl e | Inr _ \<Rightarrow> Inr ())
   })"

text \<open>The parts of \<open>zft_update_header_segments\<close> from the first write on; \<open>and_then\<close> goes on when there is no error.\<close>

definition and_then :: "('s \<times> unit result) option \<Rightarrow> ('s \<Rightarrow> ('s \<times> unit result) option) \<Rightarrow> ('s \<times> unit result) option" where
  "and_then m g = Option.bind m (\<lambda>(s, r). case r of Inl e \<Rightarrow> Some (s, Inl e) | Inr _ \<Rightarrow> g s)"

definition zft_update_header_segments :: "'l::len itself \<Rightarrow> ctl_env \<Rightarrow> zw \<Rightarrow> (zw \<times> unit result) option" where
  "zft_update_header_segments t C = (\<lambda>(z, s).
    if ft_write_protected (z_ftape z) \<or> zft_vtbl_soft_ro z \<or> \<not> header_read z then Some ((z, s), Inr ())
    else let z1 = (if header_changed z then z else z\<lparr>header_changed := written_segments z > 0\<rparr>)
      in if \<not> header_changed z1 \<and> \<not> volume_table_changed z1 then Some ((z1, s), Inr ())
      else and_then (if driver_state (z_ftape z1) = writing then below (ftape_loop_until_writes_done (c_write C)) (z1, s) else Some ((z1, s), Inr ()))
        (\<lambda>st2. and_then (abort_below (files C) st2)
        (\<lambda>st3. and_then (if header_changed (fst st3) then zft_write_header_segments t C st3 else Some (st3, Inr ()))
        (\<lambda>st4. and_then (if vtbl_read (fst st4) \<and> volume_table_changed (fst st4)
            then zft_update_volume_table t C (first_data_segment (z_ftape (fst st4))) st4 else Some (st4, Inr ()))
        (\<lambda>(z5, s5). and_then (abort_below (files C)
            (z5\<lparr>header_changed := False, volume_table_changed := False, label_changed := False, written_segments := 0\<rparr>, s5))
        (\<lambda>(z6, s6). Some ((fst (drive C Seek_To_Bot z6), s6), Inr ())))))))"

section \<open>Erasing a tape\<close>

definition zft_erase :: "'l::len itself \<Rightarrow> ctl_env \<Rightarrow> zw \<Rightarrow> (zw \<times> unit result) option" where
  "zft_erase t C = (\<lambda>(z, s).
    and_then (if header_read z then Some ((z, s), Inr ()) else map_option (\<lambda>(z1, r). ((z1, s), r)) (zft_read_header_segments C z))
      (\<lambda>(z1, s1). do {
        z2 \<leftarrow> (if old_ftape z1 then do { z2 \<leftarrow> zft_clear_ftape_file_marks z1; Some (z2\<lparr>old_ftape := False\<rparr>) } else Some z1);
        (z3, c) \<leftarrow> zft_get_capacity (set_hseg (PUT2 (z_hseg z2) FT_CMAP_START 0) (z2\<lparr>volume_table_changed := True\<rparr>));
        let z4 = (zft_init_vtbl (z3\<lparr>capacity := c\<rparr>))\<lparr>header_read := True, header_changed := True, vtbl_read := True, volume_table_changed := True\<rparr>;
        (st5, r5) \<leftarrow> zft_update_header_segments t C (z4, s1);
        ((z6, s6), _) \<leftarrow> abort_below (files C) st5;
        (z7, p) \<leftarrow> zft_reset_position z6 (z_pos z6);
        Some ((zft_set_flags C (z7\<lparr>z_pos := p\<rparr>), s6), r5)
      }))"

end
