(* ===== verification/Zft_Ctl.thy ===== *)
theory Zft_Ctl
  imports Zft_Header
begin

text \<open>
  The control operations of the tape device, \<open>src/ftape/zftape/zftape-ctl.c\<close>: the idle state between operations, the
  commands of the \<open>MTIOCTOP\<close> ioctl with their table and their dispatcher, seeking to blocks, the status ioctls, and
  opening and closing the device.

  The state is that of \<open>Zft_Write\<close>. The bare mode, in which the device is not initialised, the first opening, which
  allocates the driver's record, and the locking of the compression module are left out. A command that looks up a volume in a
  table that is not there is \<open>None\<close>.
\<close>

section \<open>Start and idle state\<close>

type_synonym mt_result = "(zw \<times> unit result) option"

abbreviation CONFIG_ZFT_DFLT_BLK_SZ :: int where "CONFIG_ZFT_DFLT_BLK_SZ \<equiv> 10240"
abbreviation ZFT_MAX_BLK_SZ :: int where "ZFT_MAX_BLK_SZ \<equiv> 63488"

definition drive_call_of :: "ctl_env \<Rightarrow> drive_call \<Rightarrow> zw \<Rightarrow> mt_result" where
  "drive_call_of C d = (\<lambda>(z, s). case drive C d z of (z1, r) \<Rightarrow> Some ((z1, s), r))"

definition reset_position :: "zw \<Rightarrow> zw option" where
  "reset_position = (\<lambda>(z, s). do { (z1, p) \<leftarrow> zft_reset_position z (z_pos z); Some (z1\<lparr>z_pos := p\<rparr>, s) })"

definition zft_init_driver :: "zw \<Rightarrow> zw option" where
  "zft_init_driver = (\<lambda>(z, s). do {
     (z1, s1) \<leftarrow> reset_position
       (z\<lparr>resid := 0, header_read := False, vtbl_read := False, old_ftape := False, exvt_extension := False, vtbl_broken := False,
          offline := False, write_protected := False, going_offline := False, header_changed := False,
          volume_table_changed := False, force_lock := False, written_segments := 0\<rparr>, s);
     (st2, _) \<leftarrow> below (\<lambda>s. Some (ftape_zap_read_buffers (set_ft (fst (ftape_set_state (w_ft s) waiting)) s), ())) (z1, s1);
     Some st2
   })"

text \<open>The buffers are released; no entry of the volume table is left.\<close>

definition zft_uninit_mem :: "zftape_info \<Rightarrow> zftape_info" where
  "zft_uninit_mem z =
    zft_zap_write_buffers ((zft_release_deblock_buffer (set_hseg [] z))\<lparr>vtbl_buf := [], vtbl_vols := [], vtbl_head := blank_vol, vtbl_eom := blank_vol,
      cur_vtbl := Eom_Vtbl\<rparr>)"

definition zft_def_idle_state :: "'l::len itself \<Rightarrow> ctl_env \<Rightarrow> zw \<Rightarrow> mt_result" where
  "zft_def_idle_state t C = (\<lambda>(z, s). do {
     (z1, r1) \<leftarrow> (if header_read z then Some (z, Inr ()) else zft_read_header_segments C z);
     let need_table = (r1 = Inr () \<and> qic_mode z1 \<and> \<not> vtbl_read z1);
     (z2, r2) \<leftarrow> (if need_table then zft_read_volume_table C z1 else Some (z1, r1));
     (st3, r3) \<leftarrow> (if \<not> header_read z \<or> need_table then do { st3 \<leftarrow> reset_position (z2, s); Some (st3, r2) }
       else do {
         ((z3, s3), r3) \<leftarrow> zft_flush_buffers t (files C) (z2, s);
         if r3 = Inr () \<and> qic_mode z3 then do {
           (z4, p, _) \<leftarrow> zft_close_volume z3 (z_pos z3);
           Some ((z4\<lparr>z_pos := p\<rparr>, s3), r3)
         }
         else Some ((z3, s3), r3)
       });
     ((z4, s4), _) \<leftarrow> abort_below (files C) st3;
     Some (((zft_zap_read_buffers z4)\<lparr>io_state := zft_idle\<rparr>, s4), r3)
   })"

section \<open>Seeking to blocks\<close>

datatype zft_seek_direction_t = zft_seek_backwards | zft_seek_absolute | zft_seek_forward

text \<open>
  \<open>seek_block_in_volume\<close> in its parts: the block is clipped to the volume, with the residue and a flag; then the position is
  moved to it.
\<close>

definition clip_block :: "int \<Rightarrow> int \<Rightarrow> int \<Rightarrow> int \<times> int \<times> bool" where
  "clip_block block count old_resid =
    (if block < 0 then (0, s32 block, True) else if block > count then (count, s32 (count - block), True) else (block, old_resid, False))"

definition move_to_block :: "ctl_env \<Rightarrow> zft_volinfo \<Rightarrow> int \<Rightarrow> zftape_info \<Rightarrow> (zftape_info \<times> unit result) option" where
  "move_to_block C v block z =
    (if z_use_compression z \<and> v_use_compression v then
       (case c_cmpr_lock C of Inl e \<Rightarrow> Some (z, Inl e)
        | Inr _ \<Rightarrow> (case c_cmpr_seek C block v z of (z1, r) \<Rightarrow> do {
            (z2, p) \<leftarrow> zft_calc_tape_pos z1 (seg_pos (z_pos z1));
            Some (z2\<lparr>z_pos := (z_pos z2)\<lparr>tape_pos := p + seg_byte_pos (z_pos z2)\<rparr>\<rparr>, r)
          }))
     else do {
       let vpos = zft_mul_blksz block (v_blk_sz v);
       (z1, start) \<leftarrow> zft_calc_tape_pos z (v_start_seg v);
       (z2, segment, byte) \<leftarrow> zft_calc_seg_byte_coord z1 (start + vpos);
       Some (z2\<lparr>z_pos := \<lparr>seg_pos = segment, seg_byte_pos = byte, tape_pos = start + vpos, volume_pos = vpos\<rparr>\<rparr>, Inr ())
     })"

definition stop_before_eof :: "zft_volinfo \<Rightarrow> zftape_info \<Rightarrow> zftape_info option" where
  "stop_before_eof v z =
    (let z1 = z\<lparr>just_before_eof := (v_size v = volume_pos (z_pos z))\<rparr>
     in if just_before_eof z1 then do { (z2, p) \<leftarrow> zft_position_before_eof z1 (z_pos z1) v; Some (z2\<lparr>z_pos := p\<rparr>) }
     else Some z1)"

text \<open>The error of the lock of the compression module returns at once; that of the seek does not.\<close>

definition seek_block_in_volume :: "ctl_env \<Rightarrow> int \<Rightarrow> int \<Rightarrow> zftape_info \<Rightarrow> (zftape_info \<times> unit result) option" where
  "seek_block_in_volume C data_offset block_increment z = do {
     (z1, ref) \<leftarrow> zft_volume_by_segpos z (u32 (seg_pos (z_pos z)));
     v \<leftarrow> vtbl_at z1 ref;
     if v_start_seg v = 0 \<or> v_end_seg v = 0 then Some (z1, Inl EIO)
     else do {
       b \<leftarrow> zft_div_blksz data_offset (v_blk_sz v);
       count \<leftarrow> zft_div_blksz (v_size v) (v_blk_sz v);
       let (block, res, exceed) = clip_block (b + block_increment) count (resid z1);
       (z2, r2) \<leftarrow> move_to_block C v block (z1\<lparr>resid := res\<rparr>);
       if z_use_compression z1 \<and> v_use_compression v \<and> c_cmpr_lock C \<noteq> Inr () then Some (z2, r2)
       else do {
         z3 \<leftarrow> stop_before_eof v z2;
         got \<leftarrow> zft_div_blksz (volume_pos (z_pos z3)) (v_blk_sz v);
         let res' = \<bar>if exceed then resid z3 else s32 (block - got)\<bar>;
         Some (z3\<lparr>resid := res'\<rparr>, if (exceed \<or> res' \<noteq> 0) \<and> r2 = Inr () then Inl EINVAL else r2)
       }
     }
   }"

text \<open>The block address of a position; \<open>zft_blk_offs\<close> gives the number of the error \<open>EINVAL\<close> for a foreign entry.\<close>

definition block_address :: "zftape_info \<Rightarrow> (zftape_info \<times> int) option" where
  "block_address z = do {
     (z1, ref) \<leftarrow> zft_volume_by_segpos z (u32 (seg_pos (z_pos z)));
     v \<leftarrow> vtbl_at z1 ref;
     n \<leftarrow> zft_div_blksz (volume_pos (z_pos z1)) (zft_block_size z1 v);
     offs \<leftarrow> zft_blk_offs z1 ref;
     Some (z1, n + (case offs of Inl _ \<Rightarrow> - 22 | Inr k \<Rightarrow> k))
   }"

definition target_block :: "zft_seek_direction_t \<Rightarrow> int \<Rightarrow> zftape_info \<Rightarrow> (zftape_info \<times> int) option" where
  "target_block direction cnt z =
    (case direction of
       zft_seek_absolute \<Rightarrow> do { (z1, _) \<leftarrow> zft_volume_by_segpos z (u32 (seg_pos (z_pos z))); Some (z1, cnt) }
     | zft_seek_backwards \<Rightarrow> do { (z1, old) \<leftarrow> block_address z; Some (z1, old - cnt) }
     | zft_seek_forward \<Rightarrow> do { (z1, old) \<leftarrow> block_address z; Some (z1, old + cnt) })"

text \<open>
  Outside QIC mode \<open>zft_volume_by_blkpos\<close> does not set the offset of the volume; \<open>seek_to\<close> is \<open>None\<close> then, because the code goes
  on with an uninitialised variable.
\<close>

definition seek_to :: "ctl_env \<Rightarrow> int \<Rightarrow> zftape_info \<Rightarrow> (zftape_info \<times> unit result) option" where
  "seek_to C new_pos z = do {
     (z1, ref, offs) \<leftarrow> zft_volume_by_blkpos z new_pos;
     v \<leftarrow> vtbl_at z1 ref;
     offset \<leftarrow> offs;
     (z2, p) \<leftarrow> zft_calc_tape_pos z1 (v_start_seg v);
     let z3 = z2\<lparr>z_pos := \<lparr>seg_pos = v_start_seg v, seg_byte_pos = 0, tape_pos = p, volume_pos = 0\<rparr>\<rparr>;
     vol_blocks \<leftarrow> zft_div_blksz (zft_volume_size z3 v) (zft_block_size z3 v);
     (z4, r4) \<leftarrow> (if offset + vol_blocks \<ge> new_pos then seek_block_in_volume C 0 (new_pos - offset) z3 else Some (z3, Inr ()));
     got \<leftarrow> zft_div_blksz (volume_pos (z_pos z4)) (zft_block_size z4 v);
     let res = \<bar>s32 (new_pos - offset - got)\<bar>;
     Some (z4\<lparr>resid := res\<rparr>, case r4 of Inl e \<Rightarrow> Inl e | Inr _ \<Rightarrow> if res \<noteq> 0 then Inl EINVAL else Inr ())
   }"

definition seek_block :: "ctl_env \<Rightarrow> zft_seek_direction_t \<Rightarrow> int \<Rightarrow> zw \<Rightarrow> mt_result" where
  "seek_block C direction cnt = (\<lambda>(z, s). do {
     (z1, new_pos) \<leftarrow> target_block direction cnt z;
     if new_pos \<le> 0 then do {
       let (z2, r) = drive C Seek_To_Bot z1;
       (z3, s3) \<leftarrow> reset_position (z2, s);
       Some ((z3\<lparr>resid := s32 (- new_pos)\<rparr>, s3), case r of Inl e \<Rightarrow> Inl e | Inr _ \<Rightarrow> if new_pos \<noteq> 0 then Inl EINVAL else Inr ())
     }
     else do {
       (z2, r) \<leftarrow> seek_to C new_pos z1;
       Some ((z2, s), r)
     }
   })"

definition mt_tell :: "zw \<Rightarrow> (zw \<times> int) option" where
  "mt_tell = (\<lambda>(z, s). do { (z1, n) \<leftarrow> block_address z; Some ((z1, s), s32 n) })"

section \<open>The commands\<close>

text \<open>
  The part of \<open>_zft_open\<close> behind the choice of the driver's record, with the access mode of the file; opening for writing
  fails with a write protected cartridge, without one, and with the compression of old volumes.
\<close>

datatype access_mode = O_RDONLY | O_WRONLY | O_RDWR

definition set_protection :: "access_mode \<Rightarrow> zftape_info \<Rightarrow> zftape_info" where
  "set_protection mode z = z\<lparr>write_protected := (mode = O_RDONLY \<or> ft_write_protected (z_ftape z))\<rparr>"

definition open_tape_device :: "ctl_env \<Rightarrow> access_mode \<Rightarrow> zw \<Rightarrow> mt_result" where
  "open_tape_device C mode = (\<lambda>(z0, s). do {
     let f = z_ftape z0;
     let z1 = (if no_tape f \<or> \<not> formatted f then zft_uninit_mem z0 else z0);
     let z2 = (if no_tape f then z1\<lparr>offline := True\<rparr> else if new_tape f then z1\<lparr>offline := False\<rparr> else z1);
     if mode \<noteq> O_RDONLY \<and> (ft_write_protected f \<or> no_tape f) then Some ((z2, s), Inl (if no_tape f then ENXIO else EROFS))
     else if mode \<noteq> O_RDONLY \<and> z_use_compression z2 then Some ((z2, s), Inl EROFS)
     else do {
       z3 \<leftarrow> zft_update_raw_image (set_protection mode z2);
       (z4, s4) \<leftarrow> (if qic_mode z3 \<and> \<not> old_ftape z3 \<and> seg_pos (z_pos z3) \<ge> 0 \<and> header_read z3 \<and> vtbl_read z3
           \<and> seg_pos (z_pos z3) \<le> first_data_segment f then reset_position (z3, s) else Some (z3, s));
       Some ((fst (drive C (Door_Lock True) z4), s4), Inr ())
     }
   })"

definition reopen :: "ctl_env \<Rightarrow> access_mode \<Rightarrow> zw \<Rightarrow> mt_result" where
  "reopen C mode st = do { st1 \<leftarrow> zft_init_driver st; open_tape_device C mode st1 }"

definition mt_load :: "ctl_env \<Rightarrow> access_mode \<Rightarrow> zw \<Rightarrow> mt_result" where
  "mt_load C mode = (\<lambda>(z, s).
    if \<not> no_tape (z_ftape z) \<and> \<not> offline z then Some ((z, s), Inr ())
    else let z1 = z\<lparr>offline := False, force_lock := False\<rparr>
      in if no_tape (z_ftape z1) then
        and_then (drive_call_of C (Door_Open False) (fst (drive C (Door_Lock False) z1), s))
          (\<lambda>st2. and_then (drive_call_of C Load_Cartridge st2) (reopen C mode))
      else reopen C mode (z1, s))"

definition mt_reset :: "ctl_env \<Rightarrow> access_mode \<Rightarrow> zw \<Rightarrow> mt_result" where
  "mt_reset C mode = (\<lambda>(z, s). do {
     let z1 = fst (drive C Seek_To_Bot (z\<lparr>force_lock := False, z_blk_sz := CONFIG_ZFT_DFLT_BLK_SZ\<rparr>));
     case drive C Reset_Drive z1 of
       (z2, Inl e) \<Rightarrow> do {
         (z3, s3) \<leftarrow> zft_init_driver (z2, s);
         Some (((zft_uninit_mem z3)\<lparr>offline := True\<rparr>, s3), Inl e)
       }
     | (z2, Inr _) \<Rightarrow> if no_tape (z_ftape z2) then mt_load C mode (z2, s) else reopen C mode (z2, s)
   })"

definition mt_fsf :: "int \<Rightarrow> zw \<Rightarrow> mt_result" where
  "mt_fsf arg = (\<lambda>(z, s). do {
     (z1, p, r) \<leftarrow> zft_skip_volumes z arg (z_pos z);
     Some ((z1\<lparr>z_pos := p, just_before_eof := False\<rparr>, s), r)
   })"

definition mt_bsf :: "int \<Rightarrow> zw \<Rightarrow> mt_result" where
  "mt_bsf arg = (\<lambda>(z, s).
    if arg = 0 then Some ((z, s), Inr ())
    else do {
      (z1, p, r) \<leftarrow> zft_skip_volumes z (- arg + 1) (z_pos z);
      Some ((z1\<lparr>z_pos := p\<rparr>, s), r)
    })"

definition mt_weof :: "'l::len itself \<Rightarrow> ctl_env \<Rightarrow> int \<Rightarrow> zw \<Rightarrow> mt_result" where
  "mt_weof t C arg st =
    and_then (zft_flush_buffers t (files C) st) (\<lambda>(z, s). do {
      (z1, p, r) \<leftarrow> zft_weof z (nat (u32 arg)) (z_pos z);
      Some ((z1\<lparr>z_pos := p\<rparr>, s), r)
    })"

definition idle_if_read :: "'l::len itself \<Rightarrow> ctl_env \<Rightarrow> zw \<Rightarrow> zw option" where
  "idle_if_read t C = (\<lambda>(z, s). if header_read z \<and> vtbl_read z then map_option fst (zft_def_idle_state t C (z, s)) else Some (z, s))"

definition mt_rew :: "'l::len itself \<Rightarrow> ctl_env \<Rightarrow> zw \<Rightarrow> mt_result" where
  "mt_rew t C st = do {
     (z1, s1) \<leftarrow> idle_if_read t C st;
     let (z2, r) = drive C Seek_To_Bot z1;
     st3 \<leftarrow> reset_position (z2, s1);
     Some (st3, r)
   }"

definition mt_offl :: "'l::len itself \<Rightarrow> ctl_env \<Rightarrow> zw \<Rightarrow> mt_result" where
  "mt_offl t C = (\<lambda>(z, s).
    let z1 = z\<lparr>force_lock := False\<rparr>
    in if offline z1 then
         Some ((fst (drive C Drive_Status (fst (drive C (Door_Open True) (fst (drive C (Door_Lock False) z1))))), s), Inr ())
       else mt_rew t C (z1\<lparr>going_offline := True\<rparr>, s))"

definition mt_nop :: "'l::len itself \<Rightarrow> ctl_env \<Rightarrow> zw \<Rightarrow> mt_result" where
  "mt_nop t C st = (if offline (fst st) then Some (st, Inr ()) else map_option (\<lambda>(st1, _). (st1, Inr ())) (zft_def_idle_state t C st))"

definition mt_reten :: "'l::len itself \<Rightarrow> ctl_env \<Rightarrow> zw \<Rightarrow> mt_result" where
  "mt_reten t C st = do {
     st1 \<leftarrow> idle_if_read t C st;
     and_then (drive_call_of C Seek_To_Eot st1) (drive_call_of C Seek_To_Bot)
   }"

definition fsfbsfm :: "ctl_env \<Rightarrow> int \<Rightarrow> zw \<Rightarrow> mt_result" where
  "fsfbsfm C arg = (\<lambda>(z, s).
    if arg = 0 then Some ((z, s), Inr ())
    else do {
      (z1, p, r) \<leftarrow> zft_skip_volumes (z\<lparr>just_before_eof := False\<rparr>) (if arg < 0 then arg else arg - 1) (z_pos z);
      let z2 = z1\<lparr>z_pos := p\<rparr>;
      case r of Inl e \<Rightarrow> Some ((if arg > 0 then z2\<lparr>resid := resid z2 + 1\<rparr> else z2, s), Inl e)
      | Inr _ \<Rightarrow> do {
          (z3, ref) \<leftarrow> zft_volume_by_segpos z2 (u32 (seg_pos (z_pos z2)));
          v \<leftarrow> vtbl_at z3 ref;
          block_pos \<leftarrow> zft_div_blksz (v_size v) (v_blk_sz v);
          (z4, _) \<leftarrow> seek_block_in_volume C 0 block_pos z3;
          Some (if volume_pos (z_pos z4) \<noteq> v_size v then ((z4\<lparr>just_before_eof := False, resid := 1\<rparr>, s), Inl EIO)
            else ((z4\<lparr>just_before_eof := True\<rparr>, s), Inr ()))
        }
    })"

definition mt_eom :: "zw \<Rightarrow> mt_result" where
  "mt_eom = (\<lambda>(z, s). do { (z1, p) \<leftarrow> zft_skip_to_eom z (z_pos z); Some ((z1\<lparr>z_pos := p\<rparr>, s), Inr ()) })"

definition mt_setblk :: "int \<Rightarrow> zw \<Rightarrow> mt_result" where
  "mt_setblk new_size = (\<lambda>(z, s).
    if u32 new_size > ZFT_MAX_BLK_SZ then Some ((z, s), Inl EINVAL)
    else if (word_of_int new_size :: u32) AND 1023 \<noteq> 0 then Some ((z, s), Inl EINVAL)
    else Some ((z\<lparr>z_blk_sz := (if new_size = 0 then 1 else u32 new_size)\<rparr>, s), Inr ()))"

definition mt_setdrvbuffer :: "ctl_env \<Rightarrow> int \<Rightarrow> zw \<Rightarrow> mt_result" where
  "mt_setdrvbuffer C cnt st = (if cnt < 3 then Some (st, Inl EINVAL) else below (\<lambda>s. Some (c_set_buffers C cnt s)) st)"

definition mt_lock :: "ctl_env \<Rightarrow> bool \<Rightarrow> zw \<Rightarrow> mt_result" where
  "mt_lock C lock = (\<lambda>(z, s). drive_call_of C (Door_Lock lock) (z\<lparr>force_lock := lock\<rparr>, s))"

definition mt_setpart :: "'l::len itself \<Rightarrow> ctl_env \<Rightarrow> int \<Rightarrow> zw \<Rightarrow> mt_result" where
  "mt_setpart t C arg = (\<lambda>(z, s).
    and_then (if header_read z \<and> vtbl_read z then do {
        (st1, _) \<leftarrow> zft_def_idle_state t C (z, s);
        and_then (drive_call_of C Seek_To_Bot st1) (\<lambda>st2. do { st3 \<leftarrow> reset_position st2; zft_update_header_segments t C st3 })
      } else Some ((z, s), Inr ()))
      (\<lambda>st4. do { st5 \<leftarrow> zft_init_driver st4; drive_call_of C (Set_Partition arg) st5 }))"

section \<open>The dispatcher\<close>

text \<open>
  The table \<open>mt_funs\<close>: the command, and whether it is permitted when offline, when write protected, on an unformatted cartridge
  and in raw mode, and whether it needs the idle state. \<open>Mt_Setdensity\<close> sets the trace level, which is not part of the state;
  \<open>SET_TRACE_LEVEL\<close> stores the argument as it is, so the comparison behind it never fails.
\<close>

datatype mt_fun = Mt_Dummy | Mt_Reset | Mt_Fsf | Mt_Bsf | Mt_Fsr | Mt_Bsr | Mt_Weof | Mt_Rew | Mt_Offl | Mt_Nop | Mt_Reten | Mt_Bsfm
  | Mt_Fsfm | Mt_Eom | Mt_Erase | Mt_Setblk | Mt_Setdensity | Mt_Seek | Mt_Setdrvbuffer | Mt_Lock | Mt_Unlock | Mt_Load | Mt_Unload | Mt_Setpart

record fun_entry =
  fe_function :: mt_fun
  fe_offline :: bool
  fe_write_protected :: bool
  fe_not_formatted :: bool
  fe_raw_mode :: bool
  fe_need_idle_state :: bool

definition fe :: "mt_fun \<Rightarrow> nat \<Rightarrow> nat \<Rightarrow> nat \<Rightarrow> nat \<Rightarrow> nat \<Rightarrow> fun_entry" where
  "fe g off w n r i = \<lparr>fe_function = g, fe_offline = (off = 1), fe_write_protected = (w = 1), fe_not_formatted = (n = 1),
     fe_raw_mode = (r = 1), fe_need_idle_state = (i = 1)\<rparr>"

definition mt_funs :: "fun_entry list" where
  "mt_funs = [fe Mt_Reset 1 1 1 1 0, fe Mt_Fsf 0 1 0 0 1, fe Mt_Bsf 0 1 0 0 1, fe Mt_Fsr 0 1 0 1 1, fe Mt_Bsr 0 1 0 1 1,
     fe Mt_Weof 0 0 0 0 0, fe Mt_Rew 0 1 1 1 0, fe Mt_Offl 1 1 1 1 0, fe Mt_Nop 1 1 1 1 0, fe Mt_Reten 0 1 1 1 0,
     fe Mt_Bsfm 0 1 0 0 1, fe Mt_Fsfm 0 1 0 0 1, fe Mt_Eom 0 1 0 0 1, fe Mt_Erase 0 0 0 1 0, fe Mt_Dummy 1 1 1 1 0,
     fe Mt_Dummy 1 1 1 1 0, fe Mt_Dummy 1 1 1 1 0, fe Mt_Dummy 1 1 1 1 0, fe Mt_Dummy 1 1 1 1 0, fe Mt_Dummy 1 1 1 1 0,
     fe Mt_Setblk 1 1 1 1 1, fe Mt_Setdensity 1 1 1 1 0, fe Mt_Seek 0 1 0 1 1, fe Mt_Dummy 0 1 0 1 1, fe Mt_Setdrvbuffer 1 1 1 1 0,
     fe Mt_Dummy 1 1 1 1 0, fe Mt_Dummy 1 1 1 1 0, fe Mt_Dummy 1 1 1 1 0, fe Mt_Lock 1 1 1 1 0, fe Mt_Unlock 1 1 1 1 0,
     fe Mt_Load 1 1 1 1 0, fe Mt_Unload 1 1 1 1 0, fe Mt_Dummy 1 1 1 0 1, fe Mt_Setpart 1 1 1 1 0, fe Mt_Dummy 1 1 1 1 0]"

abbreviation MTNOP :: int where "MTNOP \<equiv> 8"

fun run_mt :: "'l::len itself \<Rightarrow> ctl_env \<Rightarrow> access_mode \<Rightarrow> mt_fun \<Rightarrow> int \<Rightarrow> zw \<Rightarrow> mt_result" where
  "run_mt t C mode Mt_Dummy arg st = Some (st, Inl ENOSYS)"
| "run_mt t C mode Mt_Reset arg st = mt_reset C mode st"
| "run_mt t C mode Mt_Fsf arg st = mt_fsf arg st"
| "run_mt t C mode Mt_Bsf arg st = mt_bsf arg st"
| "run_mt t C mode Mt_Fsr arg st = seek_block C zft_seek_forward arg st"
| "run_mt t C mode Mt_Bsr arg st = seek_block C zft_seek_backwards arg st"
| "run_mt t C mode Mt_Weof arg st = mt_weof t C arg st"
| "run_mt t C mode Mt_Rew arg st = mt_rew t C st"
| "run_mt t C mode Mt_Offl arg st = mt_offl t C st"
| "run_mt t C mode Mt_Nop arg st = mt_nop t C st"
| "run_mt t C mode Mt_Reten arg st = mt_reten t C st"
| "run_mt t C mode Mt_Bsfm arg st = fsfbsfm C (- arg) st"
| "run_mt t C mode Mt_Fsfm arg st = fsfbsfm C arg st"
| "run_mt t C mode Mt_Eom arg st = mt_eom st"
| "run_mt t C mode Mt_Erase arg st = zft_erase t C st"
| "run_mt t C mode Mt_Setblk arg st = mt_setblk arg st"
| "run_mt t C mode Mt_Setdensity arg st = Some (st, Inr ())"
| "run_mt t C mode Mt_Seek arg st = seek_block C zft_seek_absolute arg st"
| "run_mt t C mode Mt_Setdrvbuffer arg st = mt_setdrvbuffer C arg st"
| "run_mt t C mode Mt_Lock arg st = mt_lock C True st"
| "run_mt t C mode Mt_Unlock arg st = mt_lock C False st"
| "run_mt t C mode Mt_Load arg st = mt_load C mode st"
| "run_mt t C mode Mt_Unload arg st = mt_offl t C st"
| "run_mt t C mode Mt_Setpart arg st = mt_setpart t C arg st"

text \<open>
  What \<open>mtioctop\<close> checks before it calls the function, in its order, with the state after each step. The size of the argument is right.
\<close>

definition mt_access :: "'l::len itself \<Rightarrow> ctl_env \<Rightarrow> fun_entry \<Rightarrow> zw \<Rightarrow> mt_result" where
  "mt_access t C e = (\<lambda>(z, s).
    if \<not> fe_offline e \<and> offline z then Some ((z, s), Inl ENXIO)
    else if \<not> fe_not_formatted e \<and> \<not> formatted (z_ftape z) then Some ((z, s), Inl EACCES)
    else and_then (if fe_write_protected e then Some ((z, s), Inr ())
        else map_option (\<lambda>(z1, r). ((z1, s), r)) (zft_check_write_access (files C) z))
      (\<lambda>(z1, s1). and_then (if fe_need_idle_state e \<and> \<not> (offline z1 \<or> \<not> formatted (z_ftape z1)) then zft_def_idle_state t C (z1, s1)
          else Some ((z1, s1), Inr ()))
        (\<lambda>(z2, s2). Some ((z2, s2), if \<not> qic_mode z2 \<and> \<not> fe_raw_mode e then Inl EACCES else Inr ()))))"

text \<open>\<open>NR_MT_CMDS\<close> is signed, so that a negative operation passes the check: \<open>None\<close>, an access in front of the table.\<close>

definition mtioctop :: "'l::len itself \<Rightarrow> ctl_env \<Rightarrow> access_mode \<Rightarrow> int \<Rightarrow> int \<Rightarrow> zw \<Rightarrow> mt_result" where
  "mtioctop t C mode mt_op mt_count = (\<lambda>(z, s).
    if mt_op \<ge> int (length mt_funs) then Some ((z, s), Inl EINVAL)
    else if mt_op < 0 then None
    else let e = mt_funs ! nat mt_op; z1 = (if mt_op \<noteq> MTNOP then z\<lparr>resid := mt_count\<rparr> else z)
      in and_then (mt_access t C e (z1, s)) (\<lambda>st2. do {
           (st3, r3) \<leftarrow> run_mt t C mode (fe_function e) mt_count st2;
           (st4, r4) \<leftarrow> (if header_read (fst st3) \<and> vtbl_read (fst st3) \<and> zft_tape_at_lbot (fst st3) (z_pos (fst st3))
             then zft_update_header_segments t C st3 else Some (st3, Inr ()));
           case r4 of Inl e \<Rightarrow> Some (st4, Inl e)
           | Inr _ \<Rightarrow> Some (if r3 = Inr () \<and> mt_op \<noteq> MTNOP then ((fst st4)\<lparr>resid := 0\<rparr>, snd st4) else st4, r3)
         }))"

section \<open>Status, mode and close\<close>

text \<open>The part of \<open>mtiocget\<close> that this driver computes: file number, block number and the bits of \<open>mt_gstat\<close>.\<close>

record mt_status =
  mt_fileno :: int
  mt_blkno :: int
  mt_gstat :: u32

definition gstat_bit :: "bool \<Rightarrow> u32 \<Rightarrow> u32" where
  "gstat_bit b m = (if b then m else 0)"

definition mtiocget :: "bool \<Rightarrow> zw \<Rightarrow> (zw \<times> mt_status) option" where
  "mtiocget drive_at_bot = (\<lambda>(z, s).
    if offline z then Some ((z, s), \<lparr>mt_fileno = -1, mt_blkno = -1, mt_gstat = (if no_tape (z_ftape z) then 0x00040000 else 0)\<rparr>)
    else let g = 0x01000000 OR gstat_bit (ft_write_protected (z_ftape z) \<or> zft_vtbl_soft_ro z) 0x04000000
      in if header_read z \<and> vtbl_read z \<or> header_read z \<and> \<not> qic_mode z then do {
           (z1, ref) \<leftarrow> zft_volume_by_segpos z (u32 (seg_pos (z_pos z)));
           v \<leftarrow> vtbl_at z1 ref;
           ((z2, s2), n) \<leftarrow> mt_tell (z1, s);
           Some ((z2, s2), \<lparr>mt_fileno = v_count v, mt_blkno = n,
             mt_gstat = g OR gstat_bit (zft_tape_at_eod z1 (z_pos z1)) 0x08000000
               OR gstat_bit (tape_pos (z_pos z1) > capacity z1 - z_blk_sz z1) 0x20000000
               OR gstat_bit (just_before_eof z2) 0x80000000 OR gstat_bit (zft_tape_at_lbot z2 (z_pos z2)) 0x40000000\<rparr>)
         }
         else Some ((z, s), \<lparr>mt_fileno = -1, mt_blkno = -1, mt_gstat = g OR gstat_bit drive_at_bot 0x40000000\<rparr>))"

text \<open>The ioctls that report on the volume, the capacity and the position first go to the idle state.\<close>

definition idle_first :: "'l::len itself \<Rightarrow> ctl_env \<Rightarrow> (zw \<Rightarrow> (zw \<times> 'a) option) \<Rightarrow> zw \<Rightarrow> (zw \<times> 'a result) option" where
  "idle_first t C g = (\<lambda>(z, s).
    if offline z then Some ((z, s), Inl ENXIO)
    else if \<not> formatted (z_ftape z) then Some ((z, s), Inl EACCES)
    else do {
      (st1, r) \<leftarrow> zft_def_idle_state t C (z, s);
      case r of Inl e \<Rightarrow> Some (st1, Inl e)
      | Inr _ \<Rightarrow> do { (st2, x) \<leftarrow> g st1; Some (st2, Inr x) }
    })"

definition mtiocpos :: "'l::len itself \<Rightarrow> ctl_env \<Rightarrow> zw \<Rightarrow> (zw \<times> int result) option" where
  "mtiocpos t C = idle_first t C mt_tell"

record mtvolinfo =
  mt_volno :: int
  mt_blksz :: int
  mt_size :: int
  mt_rawsize :: int
  mt_cmpr :: bool

definition mtiocvolinfo :: "'l::len itself \<Rightarrow> ctl_env \<Rightarrow> zw \<Rightarrow> (zw \<times> mtvolinfo result) option" where
  "mtiocvolinfo t C = idle_first t C (\<lambda>(z, s). do {
     (z1, ref) \<leftarrow> zft_volume_by_segpos z (u32 (seg_pos (z_pos z)));
     v \<leftarrow> vtbl_at z1 ref;
     (z2, p2) \<leftarrow> zft_calc_tape_pos z1 (v_end_seg v + 1);
     (z3, p3) \<leftarrow> zft_calc_tape_pos z2 (v_start_seg v);
     Some ((z3, s), \<lparr>mt_volno = v_count v, mt_blksz = (if v_blk_sz v = 1 then 0 else v_blk_sz v), mt_size = v_size v div 1024,
       mt_rawsize = p2 div 1024 - p3 div 1024, mt_cmpr = v_use_compression v\<rparr>)
   })"

definition mtiocgetsize :: "'l::len itself \<Rightarrow> ctl_env \<Rightarrow> zw \<Rightarrow> (zw \<times> (int \<times> int) result) option" where
  "mtiocgetsize t C = idle_first t C (\<lambda>(z, s). do {
     (z1, e) \<leftarrow> zft_get_eom_pos z;
     Some ((z1, s), u32 (capacity z1 div 1024), u32 (e div 1024))
   })"

definition mtiocftmode :: "bool \<Rightarrow> zw \<Rightarrow> zw option" where
  "mtiocftmode rawmode = (\<lambda>(z, s). do {
     (z1, s1) \<leftarrow> (if qic_mode z = rawmode then reset_position (z, s) else Some (z, s));
     z2 \<leftarrow> zft_update_raw_image (z1\<lparr>qic_mode := \<not> rawmode\<rparr>);
     Some (z2, s1)
   })"

definition zft_dirty :: "zftape_info \<Rightarrow> bool" where
  "zft_dirty z =
    (if \<not> formatted (z_ftape z) \<or> offline z then False
     else if z_blk_sz z \<noteq> CONFIG_ZFT_DFLT_BLK_SZ then True
     else if \<not> zft_tape_at_lbot z (z_pos z) then True
     else if volume_table_changed z \<or> header_changed z then \<not> (ft_write_protected (z_ftape z) \<or> zft_vtbl_soft_ro z)
     else False)"

text \<open>
  \<open>_zft_close\<close> of a device that is not in bare mode; the argument tells whether the tape is rewound. The flag of a changed bad
  sector map, which nothing sets, is left out; \<open>ftape_disable\<close> ends the use of the drive.
\<close>

definition close_writing :: "'l::len itself \<Rightarrow> ctl_env \<Rightarrow> bool \<Rightarrow> zw \<Rightarrow> mt_result" where
  "close_writing t C rewind = (\<lambda>(z, s).
    if \<not> (header_read z \<and> (vtbl_read z \<or> \<not> qic_mode z) \<and> \<not> (ft_write_protected (z_ftape z) \<or> zft_vtbl_soft_ro z)) then Some ((z, s), Inr ())
    else do {
      ((z1, s1), r1) \<leftarrow> zft_flush_buffers t (files C) (z, s);
      z2 \<leftarrow> (if qic_mode z1 then do {
          (z2, p2, r2) \<leftarrow> zft_close_volume z1 (z_pos z1);
          (case r2 of Inl _ \<Rightarrow> Some (z2\<lparr>z_pos := p2\<rparr>)
           | Inr _ \<Rightarrow> do { (z3, p3) \<leftarrow> zft_move_past_eof z2 p2; Some (z3\<lparr>z_pos := p3, io_state := zft_idle\<rparr>) })
        } else Some z1);
      if zft_tape_at_lbot z2 (z_pos z2) \<or> rewind then do {
        ((z4, s4), r4) \<leftarrow> (if r1 = Inr () then zft_update_header_segments t C (z2, s1) else Some ((z2, s1), r1));
        Some ((zft_release_deblock_buffer z4, s4), r4)
      }
      else Some ((z2, s1), r1)
    })"

definition zft_close :: "'l::len itself \<Rightarrow> ctl_env \<Rightarrow> bool \<Rightarrow> zw \<Rightarrow> mt_result" where
  "zft_close t C rewind = (\<lambda>(z, s).
    if offline z then Some ((zft_uninit_mem (fst (drive C (Door_Lock False) z)), s), Inr ())
    else do {
      (st1, r1) \<leftarrow> close_writing t C rewind (z, s);
      ((z2, s2), _) \<leftarrow> abort_below (files C) st1;
      ((z3, s3), r3) \<leftarrow> (if rewind then
          (case drive C Seek_To_Bot z2 of (z3, r) \<Rightarrow> do {
             st3 \<leftarrow> reset_position (z3, s2);
             Some (st3, if r \<noteq> Inr () \<and> r1 = Inr () then Inl EIO else r1)
           })
        else Some ((z2, s2), r1));
      if going_offline z3 then do {
        (z4, s4) \<leftarrow> zft_init_driver (z3, s3);
        let z5 = (zft_uninit_mem z4)\<lparr>going_offline := False, offline := True\<rparr>;
        Some ((fst (drive C Drive_Status (fst (drive C (Door_Open True) (fst (drive C (Door_Lock False) z5))))), s4), r3)
      }
      else Some ((if \<not> volume_table_changed z3 \<and> \<not> header_changed z3 \<and> \<not> label_changed z3 \<and> \<not> force_lock z3
          then fst (drive C (Door_Lock False) z3) else z3, s3), r3)
    })"

end
