(* ===== verification/Zft_Seek.thy ===== *)
theory Zft_Seek
  imports Zft_Ctl
begin

text \<open>
  Seeking to a block and telling the block of a position (\<open>MTSEEK\<close> and \<open>MTIOCPOS\<close>, \<open>src/ftape/zftape/zftape-ctl.c\<close>) are
  inverse to each other, on volumes of less than 4 GiB; from there on the multiplication by the block size wraps around.
\<close>

section \<open>Block arithmetic\<close>

definition block_size_ok :: "int \<Rightarrow> bool" where
  "block_size_ok k \<longleftrightarrow> k = 1 \<or> 1024 dvd k \<and> 0 < k"

lemma word_div_round:
  assumes "0 \<le> a" "0 < k" "a + k < 2 ^ 32"
  shows "uint ((word_of_int a + word_of_int k - 1 :: u32) div word_of_int k) = (a + k - 1) div k"
proof -
  have "(word_of_int a + word_of_int k - 1 :: u32) = word_of_int (a + k - 1)" by simp
  moreover have "uint (word_of_int (a + k - 1) :: u32) = a + k - 1" unfolding uint_word_of_int using assms by simp
  moreover have "uint (word_of_int k :: u32) = k" unfolding uint_word_of_int using assms by simp
  ultimately show ?thesis by (simp add: uint_div_distrib)
qed

lemma div_blksz_exact:
  assumes "block_size_ok k" "0 \<le> b" "b * k < 2 ^ 32" "k < 2 ^ 32"
  shows "zft_div_blksz (b * k) k = Some b"
proof (cases "k = 1")
  case False
  then obtain m where m: "k = 1024 * m" "0 < m" using assms(1) by (auto simp: block_size_ok_def)
  have "b * m < 2 ^ 22" "m < 2 ^ 22" using assms(3,4) m by auto
  then have "uint ((word_of_int (b * m) + word_of_int m - 1 :: u32) div word_of_int m) = (b * m + m - 1) div m"
    using assms(2) m(2) by (intro word_div_round) auto
  also have "b * m + m - 1 = (m - 1) + b * m" by simp
  also have "\<dots> div m = b" using m(2) by (subst div_mult_self1) (simp_all add: div_pos_pos_trivial)
  finally have "uint ((word_of_int (b * m) + word_of_int m - 1 :: u32) div word_of_int m) = b" .
  moreover have "(word_of_int m :: u32) \<noteq> 0" using m(2) \<open>m < 2 ^ 22\<close> by (simp add: word_of_int_eq_0_iff zdvd_not_zless)
  moreover have "b * (1024 * m) div 1024 = b * m" by simp
  ultimately show ?thesis using False by (simp add: zft_div_blksz_def m(1) Let_def)
qed (simp add: zft_div_blksz_def)

lemma mul_blksz_mod:
  assumes "k \<noteq> 1" "1024 dvd k"
  shows "zft_mul_blksz b k = b * k mod 2 ^ 32"
proof -
  obtain m where m: "k = 1024 * m" using assms(2) by blast
  have "push_bit 10 (word_of_int b * word_of_int m :: u32) = word_of_int (b * k)"
    by (simp add: push_bit_eq_mult m)
  then have "uint (push_bit 10 (word_of_int b * word_of_int m :: u32)) = b * k mod 2 ^ 32" by (simp only: uint_word_of_int) simp
  then show ?thesis using assms(1) by (simp add: zft_mul_blksz_def m)
qed

lemma mul_blksz_exact: "block_size_ok k \<Longrightarrow> 0 \<le> b \<Longrightarrow> b * k < 2 ^ 32 \<Longrightarrow> zft_mul_blksz b k = b * k"
  using mul_blksz_mod [of k b] by (cases "k = 1") (auto simp: block_size_ok_def zft_mul_blksz_def)

section \<open>The blocks of the volumes\<close>

definition blocks_in :: "zft_volinfo \<Rightarrow> int" where
  "blocks_in v = v_size v div v_blk_sz v"

definition plain_volume :: "zft_volinfo \<Rightarrow> bool" where
  "plain_volume v \<longleftrightarrow> \<not> v_use_compression v \<and> block_size_ok (v_blk_sz v) \<and> v_blk_sz v < 2 ^ 32 \<and> 0 \<le> v_size v \<and> v_size v < 2 ^ 32
    \<and> v_blk_sz v dvd v_size v"

definition first_block :: "zft_volinfo list \<Rightarrow> int" where
  "first_block vs = (\<Sum>v\<leftarrow>vs. blocks_in v + 1)"

lemma plain_volume_blocks:
  assumes "plain_volume v"
  shows "zft_volume_size z v = v_size v" "zft_block_size z v = v_blk_sz v" "v_size v = blocks_in v * v_blk_sz v" "0 \<le> blocks_in v" "0 < v_blk_sz v"
    "zft_div_blksz (v_size v) (v_blk_sz v) = Some (blocks_in v)"
proof -
  show "zft_volume_size z v = v_size v" "zft_block_size z v = v_blk_sz v" using assms by (simp_all add: plain_volume_def zft_volume_size_def zft_block_size_def)
  show size: "v_size v = blocks_in v * v_blk_sz v" using assms by (simp add: plain_volume_def blocks_in_def)
  show pos: "0 < v_blk_sz v" using assms by (auto simp: plain_volume_def block_size_ok_def)
  then show b: "0 \<le> blocks_in v" using assms by (simp add: plain_volume_def blocks_in_def pos_imp_zdiv_nonneg_iff)
  show "zft_div_blksz (v_size v) (v_blk_sz v) = Some (blocks_in v)"
    using div_blksz_exact [of "v_blk_sz v" "blocks_in v"] assms b size by (simp add: plain_volume_def)
qed

lemma block_in_volume:
  assumes "plain_volume v" "0 \<le> b" "b \<le> blocks_in v"
  shows "zft_div_blksz (b * v_blk_sz v) (v_blk_sz v) = Some b" "zft_mul_blksz b (v_blk_sz v) = b * v_blk_sz v"
    "0 \<le> b * v_blk_sz v" "b * v_blk_sz v \<le> v_size v" "b * v_blk_sz v = v_size v \<longleftrightarrow> b = blocks_in v"
proof -
  note p = plain_volume_blocks [OF assms(1)]
  show le: "b * v_blk_sz v \<le> v_size v" using assms(3) p(3,5) by (simp add: mult_right_mono)
  show "0 \<le> b * v_blk_sz v" using assms(2) p(5) by simp
  show "b * v_blk_sz v = v_size v \<longleftrightarrow> b = blocks_in v" using p(3,5) by simp
  show "zft_div_blksz (b * v_blk_sz v) (v_blk_sz v) = Some b" "zft_mul_blksz b (v_blk_sz v) = b * v_blk_sz v"
    using assms(1,2) le by (auto intro!: div_blksz_exact mul_blksz_exact simp: plain_volume_def)
qed

lemma blk_offs_loop_ok: "\<forall>v\<in>set vs. plain_volume v \<Longrightarrow> blk_offs_loop z vs off = Some (off + first_block vs)"
  by (induction vs arbitrary: off) (simp_all add: plain_volume_blocks(1,2,6) first_block_def)

lemma blkpos_loop_ok:
  assumes "\<forall>v\<in>set vs. plain_volume v" "j < length vs" "off + first_block (take j vs) \<le> n" "n \<le> off + first_block (take j vs) + blocks_in (vs ! j)"
  shows "blkpos_loop z vs i n off = Some (Vol (i + j), off + first_block (take j vs))"
  using assms
proof (induction vs arbitrary: i j off)
  case (Cons v vs)
  then have v: "zft_div_blksz (zft_volume_size z v) (zft_block_size z v) = Some (blocks_in v)" by (simp add: plain_volume_blocks(1,2,6))
  show ?case
  proof (cases j)
    case 0
    then show ?thesis using Cons.prems(4) v by (simp add: first_block_def)
  next
    case (Suc k)
    have "\<forall>v\<in>set (take k vs). 0 \<le> blocks_in v + 1"
      using Cons.prems(1) plain_volume_blocks(4) by (meson in_set_takeD list.set_intros(2) add_increasing2 zero_le_one)
    then have "0 \<le> first_block (take k vs)" unfolding first_block_def by (intro sum_list_nonneg) auto
    then have "\<not> n \<le> off + blocks_in v" using Cons.prems(3) Suc by (simp add: first_block_def)
    then show ?thesis
      using Cons.IH [of k "off + blocks_in v + 1" "Suc i"] Cons.prems v Suc by (simp add: first_block_def algebra_simps)
  qed
qed simp

section \<open>Positions in a volume\<close>

text \<open>
  The table is in order, the cached position is right, every segment from the first data segment on holds data, and the volumes
  are uncompressed, smaller than 4 GiB and inside their segments.
\<close>

definition seekable :: "ft_format_type \<Rightarrow> nat \<Rightarrow> nat \<Rightarrow> nat \<Rightarrow> (nat \<Rightarrow> u32) \<Rightarrow> zftape_info \<Rightarrow> bool" where
  "seekable fmt base lim N M z \<longleftrightarrow> table_ok z \<and> qic_mode z \<and> \<not> raw_image z \<and> pos_ok (bsm_rep fmt base lim N) N z M
    \<and> capacity z = seg_position M False (first_data_segment (z_ftape z)) (last_data_segment (z_ftape z) + 1)
    \<and> (\<forall>s\<in>{first_data_segment (z_ftape z)..last_data_segment (z_ftape z)}. 0 < seg_size M False s)
    \<and> (\<forall>v\<in>set (vtbl_vols z). plain_volume v \<and> v_size v \<le> seg_position M False (v_start_seg v) (v_end_seg v + 1))"

lemma seek_frame:
  shows "zft_last_vtbl (z\<lparr>resid := r\<rparr>) = zft_last_vtbl z" "zft_last_vtbl (z\<lparr>just_before_eof := e\<rparr>) = zft_last_vtbl z" "zft_last_vtbl (z\<lparr>z_pos := p\<rparr>) = zft_last_vtbl z" "zft_last_vtbl (z\<lparr>cur_vtbl := c\<rparr>) = zft_last_vtbl z"
    "zft_first_segment (z\<lparr>resid := r\<rparr>) = zft_first_segment z" "zft_first_segment (z\<lparr>just_before_eof := e\<rparr>) = zft_first_segment z" "zft_first_segment (z\<lparr>z_pos := p\<rparr>) = zft_first_segment z" "zft_first_segment (z\<lparr>cur_vtbl := c\<rparr>) = zft_first_segment z"
    "volumes_ordered (z\<lparr>resid := r\<rparr>) = volumes_ordered z" "volumes_ordered (z\<lparr>just_before_eof := e\<rparr>) = volumes_ordered z" "volumes_ordered (z\<lparr>z_pos := p\<rparr>) = volumes_ordered z" "volumes_ordered (z\<lparr>cur_vtbl := c\<rparr>) = volumes_ordered z"
    "sizes_known rep n (z\<lparr>resid := r\<rparr>) M = sizes_known rep n z M" "sizes_known rep n (z\<lparr>just_before_eof := e\<rparr>) M = sizes_known rep n z M" "sizes_known rep n (z\<lparr>z_pos := p\<rparr>) M = sizes_known rep n z M" "sizes_known rep n (z\<lparr>cur_vtbl := c\<rparr>) M = sizes_known rep n z M"
    "pos_ok rep n (z\<lparr>resid := r\<rparr>) M = pos_ok rep n z M" "pos_ok rep n (z\<lparr>just_before_eof := e\<rparr>) M = pos_ok rep n z M" "pos_ok rep n (z\<lparr>z_pos := p\<rparr>) M = pos_ok rep n z M" "pos_ok rep n (z\<lparr>cur_vtbl := c\<rparr>) M = pos_ok rep n z M"
  by (simp_all add: zft_last_vtbl_def zft_first_segment_def volumes_ordered_def sizes_known_def pos_ok_def cong: if_cong)

lemma seekable_update [simp]:
  "seekable fmt base lim N M (z\<lparr>resid := r\<rparr>) = seekable fmt base lim N M z"
  "seekable fmt base lim N M (z\<lparr>just_before_eof := e\<rparr>) = seekable fmt base lim N M z"
  "seekable fmt base lim N M (z\<lparr>z_pos := p\<rparr>) = seekable fmt base lim N M z"
  by (simp_all add: seekable_def table_ok_def cur_ok_def seek_frame split: vtbl_ref.split)

lemma seekable_same_tape:
  assumes "same_tape z z'" "seekable fmt base lim N M z" "pos_ok (bsm_rep fmt base lim N) N z' M"
  shows "seekable fmt base lim N M z'"
  using assms same_tape_table_ok [OF assms(1)] same_tape_table(2,5-7) [OF assms(1)] same_tape_frame(2) [OF assms(1)] same_tape_capacity [OF assms(1)]
  by (simp add: seekable_def)

lemma seekable_cursor: "seekable fmt base lim N M z \<Longrightarrow> seekable fmt base lim N M (z\<lparr>cur_vtbl := entry_ref z i\<rparr>)"
  using entry_ref_ok [of z i] by (simp add: seekable_def table_ok_def seek_frame)

lemma seg_position_split:
  assumes "first \<le> s" "s \<le> t"
  shows "seg_position M raw first t = seg_position M raw first s + seg_position M raw s t"
proof -
  have "{first..<t} = {first..<s} \<union> {s..<t}" "{first..<s} \<inter> {s..<t} = {}" using assms by auto
  then show ?thesis unfolding seg_position_def by (simp add: sum.union_disjoint)
qed

text \<open>Coordinates that lie in the range of segments from \<open>start\<close> to \<open>e\<close>.\<close>

lemma coordinates_in_range:
  assumes "\<forall>s\<in>{first..hi}. 0 < seg_size M raw s" "first \<le> start" "start \<le> e" "e \<le> hi" "first \<le> seg" "seg \<le> hi + 1" "0 \<le> off"
    "off = 0 \<or> off < seg_size M raw seg" "seg_position M raw first seg + off = seg_position M raw first start + x" "0 \<le> x"
    "x \<le> seg_position M raw start (e + 1)"
  shows "start \<le> seg" "seg \<le> e \<or> seg = e + 1 \<and> off = 0 \<and> x = seg_position M raw start (e + 1)"
proof -
  have step: "seg_position M raw first s + seg_size M raw s \<le> seg_position M raw first t" if "first \<le> s" "s < t" for s t
    using seg_position_step [OF that(1), of M raw] seg_position_mono [of "s + 1" t M raw first] that(2) by simp
  have e: "seg_position M raw first (e + 1) = seg_position M raw first start + seg_position M raw start (e + 1)"
    using assms(2,3) by (intro seg_position_split) auto
  show "start \<le> seg"
  proof (rule ccontr)
    assume "\<not> start \<le> seg"
    moreover from this have "0 < seg_size M raw seg" using assms(1,3-5) by simp
    ultimately show False using step [of seg start] assms(5,8-10) by auto
  qed
  show "seg \<le> e \<or> seg = e + 1 \<and> off = 0 \<and> x = seg_position M raw start (e + 1)"
  proof (cases "seg \<le> e + 1")
    case True
    then show ?thesis using e assms(7,9,11) by (cases "seg = e + 1") auto
  next
    case False
    then have "0 < seg_size M raw (e + 1)" using assms(1-3,6) by simp
    then show ?thesis using step [of "e + 1" seg] e assms(2,3,7,9,11) False by auto
  qed
qed

text \<open>The facts the proofs below share.\<close>

lemma seekable_facts:
  assumes "seekable fmt base lim N M z"
  shows "table_ok z" "qic_mode z" "\<not> raw_image z" "pos_ok (bsm_rep fmt base lim N) N z M" "sizes_known (bsm_rep fmt base lim N) N z M"
    "zft_first_segment z = first_data_segment (z_ftape z)"
    "capacity z = seg_position M (raw_image z) (zft_first_segment z) (last_data_segment (z_ftape z) + 1)"
    "0 \<le> first_data_segment (z_ftape z)" "first_data_segment (z_ftape z) < last_data_segment (z_ftape z)" "last_data_segment (z_ftape z) < 2 ^ 31 - 2"
  using assms by (auto simp: seekable_def pos_ok_def zft_first_segment_def table_defs)

lemma seekable_volume:
  assumes "seekable fmt base lim N M z" "v \<in> set (vtbl_vols z)"
  shows "plain_volume v" "v_size v \<le> seg_position M False (v_start_seg v) (v_end_seg v + 1)" "first_data_segment (z_ftape z) < v_start_seg v"
    "v_start_seg v \<le> v_end_seg v" "v_end_seg v \<le> last_data_segment (z_ftape z)"
  using assms by (auto simp: seekable_def table_defs)

text \<open>Every segment of a volume belongs to it.\<close>

lemma volume_of_segment:
  assumes "seekable fmt base lim N M z" "i < nvols z" "v_start_seg (vtbl_vols z ! i) \<le> seg" "seg \<le> v_end_seg (vtbl_vols z ! i)"
  shows "zft_volume_by_segpos z (u32 seg) = Some (z\<lparr>cur_vtbl := Vol i\<rparr>, Vol i)"
proof -
  note f = seekable_facts [OF assms(1)] and v = seekable_volume [OF assms(1) nth_mem [OF assms(2)]]
  have entry: "vtbl_entries z ! i = vtbl_vols z ! i" "entry_ref z i = Vol i" "length (vtbl_entries z) = Suc (nvols z)"
    using assms(2) by (simp_all add: vtbl_entries_def nth_append entry_ref_def)
  have "seg < v_start_seg (vtbl_entries z ! k)" if "i < k" "k \<le> nvols z" for k
    using sorted_wrt_nth_less [OF entries_sorted(1) [OF f(1)] that(1)] that(2) entry assms(4) by simp
  then have "volume_index z seg = i" using assms(2,3) entry by (intro volume_index_eq [OF f(1)]) auto
  moreover have "u32 seg = seg" using assms(3,4) v f(8,10) by (intro u32_id) auto
  ultimately show ?thesis using volume_by_segpos_eq [OF f(1,2), of seg] assms(4) v(5) entry(2) by simp
qed

lemma move_to_block_ok:
  assumes "seekable fmt base lim N M z" "v \<in> set (vtbl_vols z)" "0 \<le> b" "b \<le> blocks_in v"
  obtains z' where "move_to_block C v b z = Some (z', Inr ())" "seekable fmt base lim N M z'" "vtbl_vols z' = vtbl_vols z"
    "volume_pos (z_pos z') = b * v_blk_sz v" "v_start_seg v \<le> seg_pos (z_pos z')"
    "seg_pos (z_pos z') \<le> v_end_seg v \<or> seg_pos (z_pos z') = v_end_seg v + 1 \<and> seg_byte_pos (z_pos z') = 0 \<and> b * v_blk_sz v = v_size v"
proof -
  note f = seekable_facts [OF assms(1)] and v = seekable_volume [OF assms(1,2)] and blk = block_in_volume [OF v(1) assms(3,4)]
  let ?first = "first_data_segment (z_ftape z)" and ?hi = "last_data_segment (z_ftape z)" and ?x = "b * v_blk_sz v"
  let ?start = "seg_position M False ?first (v_start_seg v)"
  obtain z1 where z1: "zft_calc_tape_pos z (v_start_seg v) = Some (z1, ?start)" "pos_ok (bsm_rep fmt base lim N) N z1 M" "same_tape z z1"
    using calc_tape_pos_any [OF f(4,7), of "v_start_seg v"] v(4,5) f(3,6) by auto
  note s1 = seekable_same_tape [OF z1(3) assms(1) z1(2)]
  note f1 = seekable_facts [OF s1] and t1 = same_tape_table [OF z1(3)]
  have split: "seg_position M False ?first (v_end_seg v + 1) = ?start + seg_position M False (v_start_seg v) (v_end_seg v + 1)"
    using v(3,4) by (intro seg_position_split) auto
  have "seg_position M False ?first (v_end_seg v + 1) \<le> seg_position M False ?first (?hi + 1)" using v(5) by (intro seg_position_mono) auto
  moreover define y where "y = ?start + ?x"
  moreover have "0 \<le> ?start" by (simp add: seg_position_def sum_nonneg)
  ultimately have "0 \<le> y" "y \<le> seg_position M False ?first (?hi + 1)" using split v(2) blk(3,4) by auto
  then obtain z2 seg off where z2: "zft_calc_seg_byte_coord z1 y = Some (z2, seg, off)"
      "pos_ok (bsm_rep fmt base lim N) N z2 M" "same_tape z1 z2" "?first \<le> seg" "seg \<le> ?hi + 1" "0 \<le> off"
      "off = 0 \<or> off < seg_size M False seg" "y = seg_position M False ?first seg + off"
    using pos.calc_coord_ok [OF f1(4), of y] f1(3,6,9) t1 by auto
  note y = z2(8) [symmetric, unfolded y_def]
  have "\<forall>s\<in>{?first..?hi}. 0 < seg_size M False s" using assms(1) by (simp add: seekable_def)
  from coordinates_in_range [OF this _ v(4,5) z2(4,5,6,7) y blk(3)] v(2,3) blk(4)
  have range: "v_start_seg v \<le> seg" "seg \<le> v_end_seg v \<or> seg = v_end_seg v + 1 \<and> off = 0 \<and> ?x = seg_position M False (v_start_seg v) (v_end_seg v + 1)"
    by auto
  then have "seg \<le> v_end_seg v \<or> seg = v_end_seg v + 1 \<and> off = 0 \<and> ?x = v_size v" using v(2) blk(4) by auto
  moreover have "\<not> v_use_compression v" using v(1) by (simp add: plain_volume_def)
  ultimately show ?thesis
    using that [of "z2\<lparr>z_pos := \<lparr>seg_pos = seg, seg_byte_pos = off, tape_pos = ?start + ?x, volume_pos = ?x\<rparr>\<rparr>"] z1(1) z2(1) [unfolded y_def] blk(2) range(1)
      seekable_same_tape [OF z2(3) s1 z2(2)] t1(2) same_tape_table(2) [OF z2(3)]
    by (simp add: move_to_block_def Let_def)
qed

lemma stop_before_eof_ok:
  assumes "seekable fmt base lim N M z" "v \<in> set (vtbl_vols z)" "v_start_seg v \<le> seg_pos (z_pos z)"
    "seg_pos (z_pos z) \<le> v_end_seg v \<or> seg_pos (z_pos z) = v_end_seg v + 1 \<and> seg_byte_pos (z_pos z) = 0 \<and> volume_pos (z_pos z) = v_size v"
  obtains z' where "stop_before_eof v z = Some z'" "seekable fmt base lim N M z'" "vtbl_vols z' = vtbl_vols z"
    "volume_pos (z_pos z') = volume_pos (z_pos z)" "v_start_seg v \<le> seg_pos (z_pos z')" "seg_pos (z_pos z') \<le> v_end_seg v"
    "just_before_eof z' \<longleftrightarrow> v_size v = volume_pos (z_pos z)"
proof (cases "v_size v = volume_pos (z_pos z)")
  case True
  let ?z = "z\<lparr>just_before_eof := True\<rparr>"
  note f = seekable_facts [OF assms(1)] and v = seekable_volume [OF assms(1,2)]
  have bd: "v_end_seg v < 2 ^ 31" "0 \<le> v_end_seg v" "0 \<le> seg_pos (z_pos z)" using v(3-5) f(8,10) assms(3) by auto
  have "sizes_known (bsm_rep fmt base lim N) N ?z M" using f(5) by (simp add: seek_frame)
  then obtain g p where p: "zft_position_before_eof ?z (z_pos z) v = Some (?z\<lparr>z_ftape := g\<rparr>, p)"
      "sizes_known (bsm_rep fmt base lim N) N (?z\<lparr>z_ftape := g\<rparr>) M" "last_data_segment g = last_data_segment (z_ftape z)"
      "seg_pos p = min (seg_pos (z_pos z)) (v_end_seg v)"
    using position_before_eof_ok [of fmt base lim N ?z M v "z_pos z"] v(5) bd assms(4) by auto
  have "volume_pos p = volume_pos (z_pos z)" "same_tape ?z (?z\<lparr>z_ftape := g\<rparr>)"
    using p(1) get_seg_sz_same by (auto simp: zft_position_before_eof_def same_tape_refl bind_eq_Some_conv split: if_splits)
  moreover from this have "pos_ok (bsm_rep fmt base lim N) N (?z\<lparr>z_ftape := g\<rparr>) M"
    using f(4) p(2,3) same_tape_frame [of ?z "?z\<lparr>z_ftape := g\<rparr>"] by (simp add: pos_ok_def seek_frame)
  ultimately show ?thesis
    using that [of "?z\<lparr>z_ftape := g, z_pos := p\<rparr>"] seekable_same_tape [of ?z "?z\<lparr>z_ftape := g\<rparr>"] assms(1,3) p True v(4)
    by (simp add: stop_before_eof_def)
next
  case False
  then show ?thesis using that [of "z\<lparr>just_before_eof := False\<rparr>"] assms by (simp add: stop_before_eof_def)
qed

text \<open>From the start of a volume every block of it is reached, without an error.\<close>

lemma seek_in_volume:
  assumes "seekable fmt base lim N M z" "i < nvols z" "seg_pos (z_pos z) = v_start_seg (vtbl_vols z ! i)" "0 \<le> b" "b \<le> blocks_in (vtbl_vols z ! i)"
  obtains z' where "seek_block_in_volume C 0 b z = Some (z', Inr ())" "seekable fmt base lim N M z'" "vtbl_vols z' = vtbl_vols z"
    "volume_pos (z_pos z') = b * v_blk_sz (vtbl_vols z ! i)" "v_start_seg (vtbl_vols z ! i) \<le> seg_pos (z_pos z')"
    "seg_pos (z_pos z') \<le> v_end_seg (vtbl_vols z ! i)" "resid z' = 0" "just_before_eof z' \<longleftrightarrow> b = blocks_in (vtbl_vols z ! i)"
proof -
  let ?v = "vtbl_vols z ! i" and ?z1 = "z\<lparr>cur_vtbl := Vol i\<rparr>"
  have mem: "?v \<in> set (vtbl_vols z)" using assms(2) by simp
  note f = seekable_facts [OF assms(1)] and v = seekable_volume [OF assms(1) mem]
  note blk = block_in_volume [OF v(1) assms(4,5)] and none = block_in_volume(1) [OF v(1) order_refl plain_volume_blocks(4) [OF v(1)]]
  have z1: "zft_volume_by_segpos z (u32 (seg_pos (z_pos z))) = Some (?z1, Vol i)"
    using volume_of_segment [OF assms(1,2), of "seg_pos (z_pos z)"] assms(3) v(4) by simp
  have "seekable fmt base lim N M (?z1\<lparr>resid := resid z\<rparr>)" "?v \<in> set (vtbl_vols (?z1\<lparr>resid := resid z\<rparr>))"
    using seekable_cursor [OF assms(1), of i] assms(2) mem by (simp_all add: entry_ref_def)
  then obtain z2 where z2: "move_to_block C ?v b (?z1\<lparr>resid := resid z\<rparr>) = Some (z2, Inr ())"
      "seekable fmt base lim N M z2" "vtbl_vols z2 = vtbl_vols z" "volume_pos (z_pos z2) = b * v_blk_sz ?v" "v_start_seg ?v \<le> seg_pos (z_pos z2)"
      "seg_pos (z_pos z2) \<le> v_end_seg ?v \<or> seg_pos (z_pos z2) = v_end_seg ?v + 1 \<and> seg_byte_pos (z_pos z2) = 0 \<and> b * v_blk_sz ?v = v_size ?v"
    by (rule move_to_block_ok [OF _ _ assms(4,5), of _ _ _ _ _ _ C]) simp
  from stop_before_eof_ok [OF z2(2), of ?v] z2(3-6) mem obtain z3 where z3: "stop_before_eof ?v z2 = Some z3" "seekable fmt base lim N M z3"
      "vtbl_vols z3 = vtbl_vols z" "volume_pos (z_pos z3) = b * v_blk_sz ?v" "v_start_seg ?v \<le> seg_pos (z_pos z3)" "seg_pos (z_pos z3) \<le> v_end_seg ?v"
      "just_before_eof z3 \<longleftrightarrow> v_size ?v = b * v_blk_sz ?v"
    by metis
  have "vtbl_at ?z1 (Vol i) = Some ?v" using assms(2) by (simp add: vtbl_at_def)
  moreover have "v_start_seg ?v \<noteq> 0" "v_end_seg ?v \<noteq> 0" "\<not> v_use_compression ?v" using v f(8) by (auto simp: plain_volume_def)
  moreover have "zft_div_blksz (v_size ?v) (v_blk_sz ?v) = Some (blocks_in ?v)" "zft_div_blksz 0 (v_blk_sz ?v) = Some 0"
    using plain_volume_blocks(6) [OF v(1)] none by simp_all
  ultimately have "seek_block_in_volume C 0 b z = Some (z3\<lparr>resid := 0\<rparr>, Inr ())"
    using z1 z2(1) z3(1,4) blk(1) assms(4,5) by (simp add: seek_block_in_volume_def clip_block_def s32_small)
  then show ?thesis using that [of "z3\<lparr>resid := 0\<rparr>"] z3 blk(5) by auto
qed

section \<open>Seeking and telling\<close>

lemma block_address_ok:
  assumes "seekable fmt base lim N M z" "i < nvols z" "v_start_seg (vtbl_vols z ! i) \<le> seg_pos (z_pos z)" "seg_pos (z_pos z) \<le> v_end_seg (vtbl_vols z ! i)"
    "volume_pos (z_pos z) = b * v_blk_sz (vtbl_vols z ! i)" "0 \<le> b" "b \<le> blocks_in (vtbl_vols z ! i)"
  shows "block_address z = Some (z\<lparr>cur_vtbl := Vol i\<rparr>, first_block (take i (vtbl_vols z)) + b)"
proof -
  let ?v = "vtbl_vols z ! i" and ?z1 = "z\<lparr>cur_vtbl := Vol i\<rparr>"
  note f = seekable_facts [OF assms(1)] and v = seekable_volume [OF assms(1) nth_mem [OF assms(2)]]
  have "\<forall>v\<in>set (take i (vtbl_vols z)). plain_volume v" using seekable_volume(1) [OF assms(1)] in_set_takeD by fast
  then have "zft_blk_offs ?z1 (Vol i) = Some (Inr (first_block (take i (vtbl_vols z))))"
    using f(2) by (simp add: zft_blk_offs_def blk_offs_loop_ok)
  moreover have "vtbl_at ?z1 (Vol i) = Some ?v" using assms(2) by (simp add: vtbl_at_def)
  moreover have "zft_div_blksz (b * v_blk_sz ?v) (zft_block_size ?z1 ?v) = Some b"
    using block_in_volume(1) [OF v(1) assms(6,7)] plain_volume_blocks(2) [OF v(1)] by simp
  ultimately show ?thesis using volume_of_segment [OF assms(1-4)] assms(5) by (simp add: block_address_def)
qed

lemma seek_to_ok:
  assumes "seekable fmt base lim N M z" "i < nvols z" "0 \<le> b" "b \<le> blocks_in (vtbl_vols z ! i)" "n = first_block (take i (vtbl_vols z)) + b" "0 < n"
  obtains z' where "seek_to C n z = Some (z', Inr ())" "seekable fmt base lim N M z'" "vtbl_vols z' = vtbl_vols z"
    "volume_pos (z_pos z') = b * v_blk_sz (vtbl_vols z ! i)" "v_start_seg (vtbl_vols z ! i) \<le> seg_pos (z_pos z')"
    "seg_pos (z_pos z') \<le> v_end_seg (vtbl_vols z ! i)" "resid z' = 0" "just_before_eof z' \<longleftrightarrow> b = blocks_in (vtbl_vols z ! i)"
proof -
  let ?v = "vtbl_vols z ! i"
  note f = seekable_facts [OF assms(1)] and v = seekable_volume [OF assms(1) nth_mem [OF assms(2)]]
  note blk = plain_volume_blocks [OF v(1)]
  have "\<forall>v\<in>set (vtbl_vols z). plain_volume v" using seekable_volume(1) [OF assms(1)] by blast
  then have vol: "zft_volume_by_blkpos z n = Some (z, Vol i, Some (first_block (take i (vtbl_vols z))))"
    using blkpos_loop_ok [of "vtbl_vols z" i 0 n z 0] f(2) assms(2-6) by (simp add: zft_volume_by_blkpos_def)
  obtain z1 p where z1: "zft_calc_tape_pos z (v_start_seg ?v) = Some (z1, p)" "pos_ok (bsm_rep fmt base lim N) N z1 M" "same_tape z z1"
    using calc_tape_pos_any [OF f(4,7), of "v_start_seg ?v"] by blast
  let ?z2 = "z1\<lparr>z_pos := \<lparr>seg_pos = v_start_seg ?v, seg_byte_pos = 0, tape_pos = p, volume_pos = 0\<rparr>\<rparr>"
  have s2: "seekable fmt base lim N M ?z2" using seekable_same_tape [OF z1(3) assms(1) z1(2)] by simp
  have t: "vtbl_vols ?z2 = vtbl_vols z" using same_tape_table(2) [OF z1(3)] by simp
  obtain z3 where z3: "seek_block_in_volume C 0 b ?z2 = Some (z3, Inr ())" "seekable fmt base lim N M z3" "vtbl_vols z3 = vtbl_vols z"
      "volume_pos (z_pos z3) = b * v_blk_sz ?v" "v_start_seg ?v \<le> seg_pos (z_pos z3)" "seg_pos (z_pos z3) \<le> v_end_seg ?v"
      "just_before_eof z3 \<longleftrightarrow> b = blocks_in ?v"
    by (rule seek_in_volume [OF s2, where i = i and b = b and C = C]) (use assms(2-4) t in simp_all)
  have "zft_div_blksz (b * v_blk_sz ?v) (zft_block_size z3 ?v) = Some b"
    using block_in_volume(1) [OF v(1) assms(3,4)] plain_volume_blocks(2) [OF v(1)] by simp
  moreover have "vtbl_at z (Vol i) = Some ?v" using assms(2) by (simp add: vtbl_at_def)
  ultimately have "seek_to C n z = Some (z3\<lparr>resid := 0\<rparr>, Inr ())"
    using vol z1(1) z3(1,4) plain_volume_blocks(1,2,6) [OF v(1)] blk(3) assms(4,5) by (simp add: seek_to_def s32_small)
  then show ?thesis using that [of "z3\<lparr>resid := 0\<rparr>"] z3 by simp
qed

text \<open>
  C4. Seeking to a block of a volume and asking for the position afterwards gives the number of that block: \<open>MTSEEK\<close> succeeds
  without a residue, puts the position at the byte of the block in a segment of the volume, notes whether it is in front of the
  file mark, and \<open>MTIOCPOS\<close> computes the block number back. Blocks are counted over the volumes, with one for every file mark.
\<close>

theorem seek_then_tell:
  assumes "seekable fmt base lim N M z" "0 \<le> seg_pos (z_pos z)" "seg_pos (z_pos z) \<le> last_data_segment (z_ftape z) + 1"
    and "i < nvols z" "0 \<le> b" "b \<le> blocks_in (vtbl_vols z ! i)" "n = first_block (take i (vtbl_vols z)) + b" "0 < n" "n < 2 ^ 31"
  shows "\<exists>z1 z2. run_mt t C mode Mt_Seek n (z, s) = Some ((z1, s), Inr ()) \<and> resid z1 = 0 \<and> volume_pos (z_pos z1) = b * v_blk_sz (vtbl_vols z ! i)
    \<and> v_start_seg (vtbl_vols z ! i) \<le> seg_pos (z_pos z1) \<and> seg_pos (z_pos z1) \<le> v_end_seg (vtbl_vols z ! i)
    \<and> (just_before_eof z1 \<longleftrightarrow> b = blocks_in (vtbl_vols z ! i)) \<and> mt_tell (z1, s) = Some ((z2, s), n)"
proof -
  let ?k = "volume_index z (seg_pos (z_pos z))"
  let ?z0 = "z\<lparr>cur_vtbl := entry_ref z ?k\<rparr>"
  note f = seekable_facts [OF assms(1)]
  have "u32 (seg_pos (z_pos z)) = seg_pos (z_pos z)" using assms(2,3) f(10) by (intro u32_id) auto
  then have "zft_volume_by_segpos z (u32 (seg_pos (z_pos z))) = Some (?z0, entry_ref z ?k)" using volume_by_segpos_eq [OF f(1,2) assms(3)] by simp
  moreover obtain z1 where z1: "seek_to C n ?z0 = Some (z1, Inr ())" "seekable fmt base lim N M z1" "vtbl_vols z1 = vtbl_vols z"
      "volume_pos (z_pos z1) = b * v_blk_sz (vtbl_vols z ! i)" "v_start_seg (vtbl_vols z ! i) \<le> seg_pos (z_pos z1)"
      "seg_pos (z_pos z1) \<le> v_end_seg (vtbl_vols z ! i)" "resid z1 = 0" "just_before_eof z1 \<longleftrightarrow> b = blocks_in (vtbl_vols z ! i)"
    by (rule seek_to_ok [OF seekable_cursor [OF assms(1), of ?k], where i = i and b = b and n = n and C = C]) (use assms(4-8) in simp_all)
  moreover have "block_address z1 = Some (z1\<lparr>cur_vtbl := Vol i\<rparr>, n)"
    using block_address_ok [OF z1(2), of i b] z1(3-6) assms(4-7) by simp
  ultimately show ?thesis using assms(8,9) by (simp add: seek_block_def target_block_def mt_tell_def s32_small)
qed

text \<open>A tape with one volume of two blocks in segment 2.\<close>

definition two_blocks :: zftape_info where
  "two_blocks = small_tape\<lparr>vtbl_head := blank_vol\<lparr>v_end_seg := 1\<rparr>, vtbl_vols := [blank_vol\<lparr>v_start_seg := 2, v_end_seg := 2, v_size := 2048, v_blk_sz := 1024\<rparr>],
     vtbl_eom := blank_vol\<lparr>v_start_seg := 3, v_end_seg := 3, v_count := 1\<rparr>\<rparr>"

lemma two_blocks_seekable: "seekable fmt_normal 2048 2060 3 (\<lambda>_. 0) two_blocks"
proof -
  have "sizes_known (bsm_rep fmt_normal 2048 2060 3) 3 two_blocks (\<lambda>_. 0)"
    using small_tape_known by (simp add: sizes_known_def two_blocks_def small_tape_def)
  then have "pos_ok (bsm_rep fmt_normal 2048 2060 3) 3 two_blocks (\<lambda>_. 0)"
    using small_tape_positions(3) by (simp add: pos_ok_def zft_first_segment_def two_blocks_def small_tape_def small_ftape_def blank_info_def)
  moreover have "table_ok two_blocks"
    by (simp add: table_defs zft_last_vtbl_def two_blocks_def small_tape_def small_ftape_def blank_info_def blank_vol_def)
  moreover have "plain_volume (blank_vol\<lparr>v_start_seg := 2, v_end_seg := 2, v_size := 2048, v_blk_sz := 1024\<rparr>)"
    by (simp add: plain_volume_def block_size_ok_def blank_vol_def)
  moreover have "{2..<3::int} = {2}" by auto
  ultimately show ?thesis using small_tape_positions(2)
    by (simp add: seekable_def) (simp add: two_blocks_def small_tape_def small_ftape_def blank_info_def blank_vol_def seg_position_def seg_size_def)
qed

theorem seek_then_tell_witness:
  "\<forall>C mode s. \<exists>z1 z2. run_mt TYPE(32) C mode Mt_Seek 1 (two_blocks, s) = Some ((z1, s), Inr ()) \<and> resid z1 = 0 \<and> volume_pos (z_pos z1) = 1024
    \<and> seg_pos (z_pos z1) = 2 \<and> \<not> just_before_eof z1 \<and> mt_tell (z1, s) = Some ((z2, s), 1)"
proof (intro allI)
  fix C mode s
  let ?v = "blank_vol\<lparr>v_start_seg := 2, v_end_seg := 2, v_size := 2048, v_blk_sz := 1024\<rparr>"
  have "vtbl_vols two_blocks = [?v]" "seg_pos (z_pos two_blocks) = 1" "last_data_segment (z_ftape two_blocks) = 2"
    by (simp_all add: two_blocks_def small_tape_def small_ftape_def blank_info_def)
  moreover have "blocks_in ?v = 2" by (simp add: blocks_in_def)
  ultimately show "\<exists>z1 z2. run_mt TYPE(32) C mode Mt_Seek 1 (two_blocks, s) = Some ((z1, s), Inr ()) \<and> resid z1 = 0 \<and> volume_pos (z_pos z1) = 1024
    \<and> seg_pos (z_pos z1) = 2 \<and> \<not> just_before_eof z1 \<and> mt_tell (z1, s) = Some ((z2, s), 1)"
    using seek_then_tell [OF two_blocks_seekable, of 0 1 1, where t = "TYPE(32)" and C = C and mode = mode and s = s]
    by (simp add: first_block_def) (metis order_antisym)
qed

lemma mod_le_minus: "0 < c \<Longrightarrow> c \<le> x \<Longrightarrow> x mod c \<le> x - c" for x c :: int
proof -
  assume c: "0 < c" "c \<le> x"
  then have "1 \<le> x div c" using zdiv_mono1 [of c x c] by simp
  then have "c \<le> c * (x div c)" using c(1) by simp
  then show ?thesis using minus_mult_div_eq_mod [of x c] by linarith
qed

text \<open>
  C32. Block numbers and byte positions convert into each other exactly as long as the position is below 4 GiB: for every block
  size other than 1, \<open>zft_div_blksz\<close> undoes \<open>zft_mul_blksz\<close> if and only if the product fits into 32 bits, because the
  multiplication and the shift are done at that width.
\<close>

theorem block_position_round_trip:
  assumes "1024 dvd k" "0 < k" "k < 2 ^ 32" "0 \<le> b"
  shows "zft_div_blksz (zft_mul_blksz b k) k = Some b \<longleftrightarrow> b * k < 2 ^ 32"
proof
  assume "b * k < 2 ^ 32"
  then show "zft_div_blksz (zft_mul_blksz b k) k = Some b"
    using assms mul_blksz_exact [of k b] div_blksz_exact [of k b] by (simp add: block_size_ok_def)
next
  assume div: "zft_div_blksz (zft_mul_blksz b k) k = Some b"
  show "b * k < 2 ^ 32"
  proof (rule ccontr)
    assume big: "\<not> b * k < 2 ^ 32"
    obtain m where m: "k = 1024 * m" "0 < m" "m < 2 ^ 22" using assms(1-3) by auto
    let ?q = "b * m mod 2 ^ 22"
    have product: "b * k mod 2 ^ 32 = 1024 * ?q" using mult_mod_right [of 1024 "b * m" "2 ^ 22"] by (simp add: m(1) ac_simps)
    have k: "k \<noteq> 1" using assms(1) by auto
    have "zft_mul_blksz b k = 1024 * ?q" using mul_blksz_mod [OF k assms(1)] product by (rule trans)
    then have mul: "zft_mul_blksz b k div 1024 = ?q" by simp
    have "uint ((word_of_int ?q + word_of_int m - 1 :: u32) div word_of_int m) = (?q + m - 1) div m"
      using m(2,3) pos_mod_bound [of "2 ^ 22" "b * m"] by (intro word_div_round) auto
    moreover have "(word_of_int m :: u32) \<noteq> 0" using m(2,3) by (simp add: word_of_int_eq_0_iff zdvd_not_zless)
    ultimately have "(?q + m - 1) div m = b" using div mul k by (simp add: zft_div_blksz_def m(1) Let_def)
    moreover have "?q \<le> b * m - 2 ^ 22" using big m(1) by (intro mod_le_minus) simp_all
    moreover have "m * ((?q + m - 1) div m) \<le> ?q + m - 1"
      using mult_div_mod_eq [of m "?q + m - 1"] pos_mod_sign [OF m(2), of "?q + m - 1"] by linarith
    ultimately show False using m(3) by (simp add: mult.commute)
  qed
qed

theorem block_position_round_trip_witness:
  "zft_div_blksz (zft_mul_blksz 2097151 2048) 2048 = Some 2097151 \<and> zft_div_blksz (zft_mul_blksz 2097152 2048) 2048 \<noteq> Some 2097152"
  using block_position_round_trip [of 2048 2097151] block_position_round_trip [of 2048 2097152] by simp

end
