(* ===== verification/Spec2Isabelle.thy ===== *)
theory Spec2Isabelle
  imports Ft_Header Ft_Motion Ft_Format Zft_Lzrw3 Zft_Table Zft_Stream Zft_Seek
begin

text \<open>
  A verification of the core of \<open>ftape\<close>, the Linux driver for QIC-40/80/3010/3020 tapes behind a floppy disk controller. The drivers come in two
  layers, and so do the theories.

  The low level (\<open>src/ftape/lowlevel\<close>, \<open>src/ftape/internal\<close>, theories \<open>Ft_*\<close> and \<open>Fdc_*\<close>) moves segments of 32 sectors between a ring of buffers
  and the tape. A user of the ring queues a segment at \<open>TAIL\<close> (\<open>ftape_write_segment\<close>) or takes one from there (\<open>ftape_read_segment\<close>); the interrupt
  handler transfers the sectors of the segment at \<open>HEAD\<close>, steps over bad sectors, retries and moves \<open>HEAD\<close> on. Commands, sent as step pulses of the
  floppy controller, bring the tape in front of the segment. Three sectors of a segment carry
  an error correction code. The high level (\<open>src/ftape/zftape\<close>, theories \<open>Zft_*\<close>) is the character device: it splits the cartridge into volumes,
  collects the bytes of the user in the deblock buffer, which it exchanges with the ring segment by segment, and keeps the volume table and the header
  segments on the cartridge up to date. \<open>src/ftape/compressor\<close> adds the decompression of blocks.

  Every operation is a function on the records of the code. Fields that no modelled operation reads are left out. Errors are values: \<open>Inl\<close> carries the
  \<open>errno\<close>. \<open>None\<close> stands for what C leaves undefined (access outside a buffer, division by zero) and for a loop that does not return;
  theorems that an operation succeeds state that it is \<open>Some\<close>. Integers have the width of the code where they can wrap around; elsewhere they are
  \<open>int\<close> or \<open>nat\<close>. Memory areas are lists of bytes.

  Theories of the low level.
    \<^item> \<open>Ft_Prelude\<close>: types, error codes, byte access (\<open>GET2\<close>, \<open>PUT4\<close> and the like), copying, counting of ones, and their laws, collected in named theorems.
    \<^item> \<open>Ft_Field\<close>, \<open>Ft_Ecc\<close>, \<open>Ft_Ecc_Column\<close>, \<open>Ft_Ecc_Segment\<close>: \<open>ftape-ecc.c\<close>. Multiplication by tables equals that of polynomials; the word-parallel
      arithmetic acts bytewise; the encoder makes every column a codeword; the decoder restores three erasures, or one error beside one erasure, and never
      reports a wrong correction of what it claims to have corrected.
    \<^item> \<open>Ft_Info\<close>: the record \<open>ftape_info_t\<close>. \<open>Ft_Bsm\<close>: \<open>ftape-bsm.c\<close>, the bad sector map in its list and array formats, as a refinement of a map from segments to
      words through the locale \<open>bad_sector_store\<close>; a stale cached reference is a finding.
    \<^item> \<open>Ft_Segment\<close>: set-up of a segment, clusters of good sectors and floppy coordinates (\<open>ftape-rw.c\<close>). \<open>Ft_Read\<close>: correction of a segment that was read.
    \<^item> \<open>Ft_Header\<close>: decoding of the header segment (\<open>ftape-read.c\<close>), whose success establishes the geometry the other theories assume; the headers
      that make it divide by zero are characterised.
    \<^item> \<open>Fdc_Progress\<close>, \<open>Fdc_Isr\<close>: \<open>fdc-isr.c\<close>, the progress of a transfer with its retries, and the interrupt handler as a function of the controller's
      registers (\<open>irq_input\<close>): what it leaves alone, and that a segment without errors completes within 32 interrupts, from any point of the transfer and with the read-ahead that
      follows it.
    \<^item> \<open>Ft_Write\<close>: \<open>ftape-write.c\<close> with the exchange of buffers; queueing keeps the order of the data, and hard error recovery loses none.
    \<^item> \<open>Ft_Command\<close>, \<open>Ft_Drive\<close>, \<open>Ft_Motion\<close>: \<open>ftape-io.c\<close>, the drive control of \<open>ftape-ctl.c\<close> and the motion of the tape in \<open>ftape-rw.c\<close>. The recursion of
      commands through status queries ends, the answers of a drive that obeys QIC-117 arrive, success of \<open>ftape_start_tape\<close> means that the tape is in front of
      the segment, and motion leaves the layout of the cartridge alone (locale \<open>motion_invariant\<close>); waits that never end and a command that blocks all
      others are findings. These theories run beside the theories of the buffers, which take the drive as a parameter.
    \<^item> \<open>Ft_Fetch\<close>: \<open>ftape_read_segment\<close> and the search for the header segment. \<open>Ft_Format\<close>: \<open>ftape-format.c\<close>, formatting of a track and verifying.

  Theories of the high level.
    \<^item> \<open>Zft_Info\<close>, \<open>Zft_Pos\<close>: the record \<open>zftape_info_t\<close>, segment sizes, the cached tape position and its inverse (locale \<open>segment_positions\<close>).
    \<^item> \<open>Zft_Eof\<close>: file marks and labels of cartridges of old driver versions. \<open>Zft_Vtbl\<close>, \<open>Zft_Volumes\<close>, \<open>Zft_Table\<close>: \<open>zftape-vtbl.c\<close>, the volume list with its
      cursor, an invariant of all its operations, with the one way to break it, and the table in its segment, written and read back.
    \<^item> \<open>Zft_Lzrw3\<close>: \<open>lzrw3.c\<close>, decompression with every access checked: on any data it ends, with exact bounds on what it reads and writes, and on the bytes of
      the format's items it yields the text that the format assigns to them, defined apart from the decoder.
    \<^item> \<open>Zft_Read\<close>, \<open>Zft_Write\<close>, \<open>Zft_Stream\<close>: the read call as a refinement of a byte stream; the write call, the flush and the recovery from hard errors;
      the write call over the low-level ring.
    \<^item> \<open>Zft_Header\<close>, \<open>Zft_Ctl\<close>, \<open>Zft_Seek\<close>: header segments and volume table on the cartridge; opening, closing, the table of \<open>MTIOCTOP\<close> commands and the other
      ioctls; seeking, with the round trip through \<open>mt_tell\<close>.

  What lies outside is an argument of the definitions that use it. The records \<open>drive_env\<close>, \<open>write_env\<close>, \<open>format_env\<close>, \<open>read_env\<close>, \<open>file_env\<close> and \<open>ctl_env\<close> hold
  the drive and the controller or what the layer below does with them, the wait for an interrupt, pending signals and the clock; a theorem that needs an environment without
  failures says so, and its witness instantiates it. Concurrency between the handler and the callers is modelled at the points where the callers wait.

  Loops without a bound of their own (waiting, searching the ring, retrying) are partial functions. Loops with a bound carry it: 100 attempts to write a segment
  (\<open>ftape_write_segment\<close>), 68 segments searched for a header, 32 interrupts for a segment. The other loops end by their measure.

  Not modelled: the registers of the floppy controller and DMA (\<open>fdc-io.c\<close>), except what the handler uses, and \<open>ftape_wait_segment\<close>, which waits for
  it; the table of vendors and the entry points \<open>ftape_enable\<close> and \<open>ftape_disable\<close>; the controllers on the ISA bus and the parallel port; module start-up,
  the proc file system and tracing; memory allocation; the module \<open>zftape-compress.c\<close>, which maps compressed volumes to the blocks of \<open>Zft_Lzrw3\<close>; of
  \<open>zftape-ctl.c\<close> the ioctls that format or pass raw segments and drive commands.
\<close>

end
